(* ===== verification/Prelude.thy ===== *)
theory Prelude
  imports Main "HOL-Library.Word"
begin

text \<open>
  The shared ground of the development: the names of the C integer types as words, the
  little-endian encoding of words as bytes, physical memory as a function from 64-bit addresses to
  bytes with block reads and writes, and the arithmetic of address ranges that the component
  proofs use.

  Address ranges are compared by word subtraction, so that ranges that wrap around the end of the
  address space need no special case: the address \<open>x\<close> lies in the range of \<open>n\<close> bytes at \<open>a\<close>
  exactly when \<open>unat (x - a) < n\<close>.
\<close>

unbundle bit_operations_syntax

type_synonym u8 = "8 word"
type_synonym u16 = "16 word"
type_synonym u32 = "32 word"
type_synonym u64 = "64 word"
type_synonym i32 = "32 word"
type_synonym pmem = "u64 \<Rightarrow> u8"

text \<open>The collections that carry the component proofs: \<open>kconst\<close> holds the definitions of the
  kernel's numeric constants, \<open>monad\<close> the definitions of the sequencing operators, \<open>addr_simps\<close>
  facts on address arithmetic.\<close>

named_theorems kconst
named_theorems monad
named_theorems addr_simps

section \<open>Little-endian byte encoding\<close>

definition le_bytes :: "nat \<Rightarrow> 'a::len word \<Rightarrow> u8 list" where
  "le_bytes n w = map (\<lambda>i. ucast (drop_bit (8 * i) w)) [0..<n]"

primrec le_word :: "u8 list \<Rightarrow> 'a::len word" where
  "le_word [] = 0"
| "le_word (b # bs) = ucast b OR push_bit 8 (le_word bs)"

lemma length_le_bytes [simp]: "length (le_bytes n w) = n"
  by (simp add: le_bytes_def)

lemma bit_le_word:
  "bit (le_word bs :: 'a::len word) k \<longleftrightarrow>
     k < LENGTH('a) \<and> k div 8 < length bs \<and> bit (bs ! (k div 8)) (k mod 8)"
proof (induction bs arbitrary: k)
  case Nil
  then show ?case by simp
next
  case (Cons b bs)
  show ?case
  proof (cases "k < 8")
    case True
    then show ?thesis by (auto simp: bit_simps dest: bit_imp_le_length)
  next
    case False
    then have "k div 8 = Suc ((k - 8) div 8)" "k mod 8 = (k - 8) mod 8"
      by (simp_all add: le_div_geq le_mod_geq)
    moreover have "\<not> bit b k" using False by (auto dest: bit_imp_le_length)
    ultimately show ?thesis using False Cons.IH [of "k - 8"]
      by (auto simp: bit_simps)
  qed
qed

lemma le_word_le_bytes:
  "LENGTH('a) = 8 * n \<Longrightarrow> le_word (le_bytes n w) = (w :: 'a::len word)"
  by (rule bit_word_eqI) (auto simp: bit_le_word le_bytes_def bit_simps)

lemma le_bytes_le_word:
  assumes "LENGTH('a) = 8 * length bs"
  shows "le_bytes (length bs) (le_word bs :: 'a::len word) = bs"
proof (rule nth_equalityI)
  fix i assume "i < length (le_bytes (length bs) (le_word bs :: 'a word))"
  then have i: "i < length bs" by simp
  show "le_bytes (length bs) (le_word bs :: 'a word) ! i = bs ! i"
    by (rule bit_word_eqI) (use i assms in \<open>auto simp: le_bytes_def bit_simps bit_le_word\<close>)
qed simp

lemma le_word_replicate_0 [simp]: "le_word (replicate n 0) = 0"
  by (induction n) auto

lemma le_word_single [simp]: "le_word [b] = (b :: u8)"
  by (rule bit_word_eqI) (auto simp: bit_le_word bit_simps)

lemma le_bytes_1 [simp]: "le_bytes (Suc 0) (b :: u8) = [b]"
  by (simp add: le_bytes_def)

section \<open>Word arithmetic\<close>

lemma u64_bound: "unat (x :: u64) < 18446744073709551616"
  using unsigned_less [of x] by simp

lemma unat_add_of_nat:
  "unat a + i < 2 ^ 64 \<Longrightarrow> unat (a + of_nat i :: u64) = unat a + i"
  by (subst unat_word_ariths) (simp add: unat_of_nat)

lemma unat_add_nowrap:
  "unat a + unat b < 2 ^ 64 \<Longrightarrow> unat (a + b :: u64) = unat a + unat b"
  by (subst unat_word_ariths) simp

lemma unat_sub_le: "b \<le> a \<Longrightarrow> unat (a - b :: u64) = unat a - unat b"
  by (simp add: unat_sub_if_size word_size word_le_nat_alt)

lemma unat_Suc_less: "i < n \<Longrightarrow> unat (i + 1 :: u64) = Suc (unat i)"
  using unat_add_of_nat [of i 1] u64_bound [of n]
  by (simp add: word_less_nat_alt)

lemma unat_of_nat64 [simp]: "i < 2 ^ 64 \<Longrightarrow> unat (of_nat i :: u64) = i"
  by (simp add: unat_of_nat)

lemma unat_eq_of_nat: "n < 2 ^ 64 \<Longrightarrow> unat (y :: u64) = n \<longleftrightarrow> y = of_nat n"
  by (auto simp: of_nat_unat)

lemma and_1_eq_0: "x AND 1 = 0 \<longleftrightarrow> \<not> bit x 0" for x :: u64
  by (simp add: and_one_eq flip: even_iff_mod_2_eq_zero) (simp add: bit_0)

lemma unat_minus_flip:
  fixes a b :: u64
  assumes "a \<noteq> b"
  shows "unat (a - b) + unat (b - a) = 2 ^ 64"
  using assms u64_bound [of a] u64_bound [of b]
  by (auto simp: unat_sub_if_size word_size word_le_nat_alt word_unat_eq_iff)

section \<open>Physical memory\<close>

definition pread :: "pmem \<Rightarrow> u64 \<Rightarrow> nat \<Rightarrow> u8 list" where
  "pread m p n = map (\<lambda>i. m (p + of_nat i)) [0..<n]"

definition pwrite :: "pmem \<Rightarrow> u64 \<Rightarrow> u8 list \<Rightarrow> pmem" where
  "pwrite m p bs = (\<lambda>x. if unat (x - p) < length bs then bs ! unat (x - p) else m x)"

definition pread64 :: "pmem \<Rightarrow> u64 \<Rightarrow> u64" where
  "pread64 m p = le_word (pread m p 8)"

definition pwrite64 :: "pmem \<Rightarrow> u64 \<Rightarrow> u64 \<Rightarrow> pmem" where
  "pwrite64 m p v = pwrite m p (le_bytes 8 v)"

text \<open>The ranges of \<open>n\<close> bytes at \<open>a\<close> and of \<open>k\<close> bytes at \<open>b\<close> do not meet.\<close>

definition apart :: "u64 \<Rightarrow> nat \<Rightarrow> u64 \<Rightarrow> nat \<Rightarrow> bool" where
  "apart a n b k \<longleftrightarrow> n \<le> unat (b - a) \<and> k \<le> unat (a - b)"

lemma length_pread [simp]: "length (pread m p n) = n"
  by (simp add: pread_def)

lemma nth_pread [simp]: "i < n \<Longrightarrow> pread m p n ! i = m (p + of_nat i)"
  by (simp add: pread_def)

lemma apart_sym: "apart a n b k \<Longrightarrow> apart b k a n"
  by (auto simp: apart_def)

lemma apart_outside:
  assumes "apart p n q k" "i < k"
  shows "n \<le> unat (q + of_nat i - p)"
proof (cases "p = q")
  case True
  with assms show ?thesis by (simp add: apart_def)
next
  case False
  then have sum: "unat (p - q) + unat (q - p) = 2 ^ 64" by (rule unat_minus_flip)
  with assms have "unat (q - p) + i < 2 ^ 64" by (auto simp: apart_def)
  then have "unat ((q - p) + of_nat i) = unat (q - p) + i"
    by (rule unat_add_of_nat)
  moreover have "q + of_nat i - p = (q - p) + of_nat i" by simp
  moreover have "n \<le> unat (q - p)" using assms by (simp add: apart_def)
  ultimately show ?thesis by (simp only:)
qed

text \<open>Parts of ranges that do not meet do not meet.\<close>

lemma apart_dist:
  assumes "b - a = of_nat d" "0 < d" "d < 2 ^ 64"
  shows "apart a n b k \<longleftrightarrow> n \<le> d \<and> k \<le> 2 ^ 64 - d"
proof -
  have ba: "unat (b - a) = d" using assms by simp
  with assms(2) have "a \<noteq> b" by fastforce
  from unat_minus_flip [OF this] ba have "unat (a - b) = 2 ^ 64 - d" by simp
  with ba show ?thesis by (simp add: apart_def)
qed

lemma apart_sub:
  assumes "apart a n b k" "i + n' \<le> n" "j + k' \<le> k" "0 < n'" "0 < k'"
  shows "apart (a + of_nat i) n' (b + of_nat j) k'"
proof -
  define d where "d = unat (b - a)"
  have d: "b - a = of_nat d" "0 < d" "d < 2 ^ 64"
    using assms u64_bound [of "b - a"] by (auto simp: apart_def d_def)
  have nk: "n \<le> d" "k \<le> 2 ^ 64 - d" using assms(1) apart_dist [OF d] by auto
  have e: "b + of_nat j - (a + of_nat i) = of_nat (d + j - i)"
    using d nk assms by (simp add: algebra_simps of_nat_diff)
  have r: "0 < d + j - i" "d + j - i < 2 ^ 64" using d nk assms by auto
  from apart_dist [OF e r] nk assms show ?thesis by auto
qed

lemma apart_offsets:
  assumes "i + n \<le> j" "j + k \<le> 2 ^ 64" "0 < n" "0 < k"
  shows "apart (p + of_nat i) n (p + of_nat j) k"
proof -
  have "p + of_nat j - (p + of_nat i) = of_nat (j - i)"
    using assms by (simp add: of_nat_diff)
  from apart_dist [OF this] assms show ?thesis by auto
qed

lemma pread_cong:
  "(\<And>i. i < n \<Longrightarrow> m (p + of_nat i) = m' (p + of_nat i)) \<Longrightarrow> pread m p n = pread m' p n"
  by (simp add: pread_def)

lemma pread_pwrite_same:
  "length bs \<le> 2 ^ 64 \<Longrightarrow> pread (pwrite m p bs) p (length bs) = bs"
  by (rule nth_equalityI) (auto simp: pwrite_def)

lemma pread_pwrite_sub:
  "j + n \<le> length bs \<Longrightarrow> length bs \<le> 2 ^ 64 \<Longrightarrow>
     pread (pwrite m p bs) (p + of_nat j) n = take n (drop j bs)"
  by (rule nth_equalityI) (auto simp: pwrite_def add.assoc simp flip: of_nat_add)

lemma pread_pwrite_apart:
  "apart p (length bs) q n \<Longrightarrow> pread (pwrite m p bs) q n = pread m q n"
  by (rule pread_cong) (auto simp: pwrite_def dest: apart_outside)

lemma pread64_pwrite64_same [simp]: "pread64 (pwrite64 m p v) p = v"
  using pread_pwrite_same [of "le_bytes 8 v" m p]
  by (simp add: pread64_def pwrite64_def le_word_le_bytes)

lemma pread64_pwrite_apart:
  "apart p (length bs) q 8 \<Longrightarrow> pread64 (pwrite m p bs) q = pread64 m q"
  by (simp add: pread64_def pread_pwrite_apart)

lemma pread64_pwrite64_apart:
  "apart p 8 q 8 \<Longrightarrow> pread64 (pwrite64 m p v) q = pread64 m q"
  by (simp add: pwrite64_def pread64_pwrite_apart)

lemma pwrite_outside: "length bs \<le> unat (x - p) \<Longrightarrow> pwrite m p bs x = m x"
  by (simp add: pwrite_def)

lemma pwrite_snoc:
  assumes "length bs < 2 ^ 64"
  shows "pwrite m p (bs @ [b]) = (pwrite m p bs)(p + of_nat (length bs) := b)"
proof
  fix x
  have "unat (x - p) = length bs \<longleftrightarrow> x - p = of_nat (length bs)"
    using assms by (rule unat_eq_of_nat)
  then show "pwrite m p (bs @ [b]) x = ((pwrite m p bs)(p + of_nat (length bs) := b)) x"
    by (auto simp: pwrite_def nth_append less_Suc_eq algebra_simps)
qed

lemma pwrite_append:
  assumes "length (as @ bs) \<le> 2 ^ 64"
  shows "pwrite m p (as @ bs) = pwrite (pwrite m p as) (p + of_nat (length as)) bs"
  using assms
proof (induction bs rule: rev_induct)
  case (snoc b bs)
  then show ?case
    using pwrite_snoc [of "as @ bs" m p b] pwrite_snoc [of bs "pwrite m p as" "p + of_nat (length as)" b]
    by (simp add: add.assoc)
qed (simp add: pwrite_def)

lemma pwrite_Nil [simp]: "pwrite m p [] = m"
  by (simp add: pwrite_def)

lemma pwrite_single: "pwrite m p [b] = m(p := b)"
  using pwrite_snoc [of "[]" m p b] by simp

end
