(* ===== verification/Machine.thy ===== *)
theory Machine
  imports Prelude
begin

text \<open>
  The machine the kernel runs on, and its globals. The state holds the physical memory, the
  control and model-specific registers the kernel writes, the trace of port writes and TLB
  invalidations, and the kernel's global variables. Every load and store of the model goes through
  the four-level page walk of the processor in the state's own memory, so that page tables edited
  by the code are the tables the next access uses.

  The processor is modelled as the kernel uses it: ring 0 with \<open>CR0.WP\<close> clear, so only the present
  bit of an entry decides an access; 4 KiB pages, an entry of an upper level with the page-size
  bit set is treated as a fault (the kernel builds none); no accessed and dirty bits.
\<close>

section \<open>Data types of the headers\<close>

definition KERNEL_BASE :: u64 where "KERNEL_BASE = 0xFFFFFFFF80000000"
definition POOL_START :: u64 where "POOL_START = 0xFFFFFFFF80020000"
definition POOL_END :: u64 where "POOL_END = 0xFFFFFFFF801FF000"
definition KERNEL_END :: u64 where "KERNEL_END = 0xFFFFFFFF80200000"
definition PAGE_SIZE :: u64 where "PAGE_SIZE = 0x1000"
definition PAGE_MASK :: u64 where "PAGE_MASK = 0x000FFFFFFFFFF000"
definition IA32_EFER :: u32 where "IA32_EFER = 0xC0000080"
definition STAR_MSR :: u32 where "STAR_MSR = 0xC0000081"
definition LSTAR_MSR :: u32 where "LSTAR_MSR = 0xC0000082"
definition CSTAR_MSR :: u32 where "CSTAR_MSR = 0xC0000083"
definition SFMASK_MSR :: u32 where "SFMASK_MSR = 0xC0000084"

lemmas [kconst] = KERNEL_BASE_def POOL_START_def POOL_END_def KERNEL_END_def PAGE_SIZE_def
  PAGE_MASK_def IA32_EFER_def STAR_MSR_def LSTAR_MSR_def CSTAR_MSR_def SFMASK_MSR_def

record bios_mmap_entry =
  base_addr :: u64
  len :: u64
  mtype :: u32
  acpi_ext :: u32

record regs =
  rax :: u64
  rbx :: u64
  rcx :: u64
  rdx :: u64
  rsi :: u64
  rdi :: u64
  rsp :: u64
  rbp :: u64
  r8 :: u64
  r9 :: u64
  r10 :: u64
  r11 :: u64
  r12 :: u64
  r13 :: u64
  r14 :: u64
  r15 :: u64

record task =
  pid :: u32
  task_pml4t :: u64
  task_regs :: regs
  task_state :: u8

record idt_entry =
  offset_low :: u16
  selector :: u16
  ist :: u8
  type_attr :: u8
  offset_mid :: u16
  offset_high :: u32
  zero_field :: u32

record idt_ptr =
  limit :: u16
  base :: u64

record heapinfo_t =
  hi_start :: u64
  hi_avail :: u64

section \<open>The machine state\<close>

text \<open>Why control leaves a C function other than by returning: a processor exception, the endless
  halt loop after a panic, an exception or a system call, the jump to user mode, a C operation
  whose behaviour the language leaves undefined, or the shutdown of a processor that cannot deliver an
  exception, on which the machine resets. \<open>Sysret\<close> is the instruction without the prefix for 64-bit operands,
  which both assemblers take \<open>sysret\<close> for: it enters compatibility mode at the lower half of \<open>RCX\<close>; its
  arguments are the instruction pointer, \<open>RSP\<close> and the flags.\<close>

datatype fault =
    PageFault u64
  | GeneralProtection u64
  | Panic string
  | Halt
  | Sysret u64 u64 u64
  | Undefined string
  | Shutdown

text \<open>An access of the kernel to an I/O port: a byte written, or a byte read whose value the code
  does not use.\<close>

datatype io_event = Outb u16 u8 | Inb u16

definition null_gate :: idt_entry where
  "null_gate = \<lparr>offset_low = 0, selector = 0, ist = 0, type_attr = 0, offset_mid = 0, offset_high = 0, zero_field = 0\<rparr>"

record machine =
  mem :: pmem
  cr0 :: u64
  cr3 :: u64
  cr4 :: u64
  msr :: "u32 \<Rightarrow> u64"
  io_log :: "io_event list"
  invlpg_log :: "u64 list"
  idtr :: idt_ptr
  if_flag :: bool
  next_free :: u64
  pml4t :: u64
  mem_bitmap :: u64
  mem_bitmap_size :: u64
  mem_bitmap_bit_size :: u64
  heap_start :: u64
  heap_end :: u64
  heap :: heapinfo_t
  idt :: "idt_entry list"
  idtp :: idt_ptr

type_synonym 'a kern = "machine \<Rightarrow> (fault + 'a) \<times> machine"

section \<open>Sequencing\<close>

definition ret :: "'a \<Rightarrow> 'a kern" where
  "ret x = (\<lambda>s. (Inr x, s))"

definition raise :: "fault \<Rightarrow> 'a kern" where
  "raise e = (\<lambda>s. (Inl e, s))"

definition bind :: "'a kern \<Rightarrow> ('a \<Rightarrow> 'b kern) \<Rightarrow> 'b kern" where
  "bind m f = (\<lambda>s. case m s of (Inl e, s') \<Rightarrow> (Inl e, s') | (Inr x, s') \<Rightarrow> f x s')"

definition andthen :: "'a kern \<Rightarrow> 'b kern \<Rightarrow> 'b kern" where
  "andthen m k = bind m (\<lambda>_. k)"

definition gets :: "(machine \<Rightarrow> 'a) \<Rightarrow> 'a kern" where
  "gets f = (\<lambda>s. (Inr (f s), s))"

definition modify :: "(machine \<Rightarrow> machine) \<Rightarrow> unit kern" where
  "modify f = (\<lambda>s. (Inr (), f s))"

lemmas [monad] = ret_def raise_def bind_def andthen_def gets_def modify_def

text \<open>The C loop \<open>for (u64 j = i; j < n; j++) body(j);\<close> whose body updates local variables, kept
  in an accumulator, and the loop without local variables.\<close>

function for_acc :: "u64 \<Rightarrow> u64 \<Rightarrow> (u64 \<Rightarrow> 'a \<Rightarrow> 'a kern) \<Rightarrow> 'a \<Rightarrow> 'a kern" where
  "for_acc i n body x s =
     (if i < n
      then (case body i x s of (Inl e, s') \<Rightarrow> (Inl e, s')
                             | (Inr y, s') \<Rightarrow> for_acc (i + 1) n body y s')
      else (Inr x, s))"
  by pat_completeness auto
termination
  by (relation "measure (\<lambda>(i, n, body, x, s). unat n - unat i)")
    (auto simp: unat_Suc_less word_less_nat_alt)

declare for_acc.simps [simp del]

definition for_up :: "u64 \<Rightarrow> u64 \<Rightarrow> (u64 \<Rightarrow> unit kern) \<Rightarrow> unit kern" where
  "for_up i n body = for_acc i n (\<lambda>j _. body j) ()"

lemma for_acc_done: "\<not> i < n \<Longrightarrow> for_acc i n body x s = (Inr x, s)"
  by (simp add: for_acc.simps)

lemma for_acc_step:
  "i < n \<Longrightarrow> body i x s = (Inr y, t) \<Longrightarrow> for_acc i n body x s = for_acc (i + 1) n body y t"
  by (subst for_acc.simps) simp

lemma for_acc_fault:
  "i < n \<Longrightarrow> body i x s = (Inl e, t) \<Longrightarrow> for_acc i n body x s = (Inl e, t)"
  by (subst for_acc.simps) simp

text \<open>The loop rule: an invariant that every iteration keeps while returning holds at the end, and
  the loop returns.\<close>

lemma for_acc_rule:
  assumes "P (unat i) x s" "unat i \<le> unat n"
    and "\<And>j x t. unat i \<le> j \<Longrightarrow> j < unat n \<Longrightarrow> P j x t \<Longrightarrow>
           \<exists>y t'. body (of_nat j) x t = (Inr y, t') \<and> P (Suc j) y t'"
  shows "\<exists>y s'. for_acc i n body x s = (Inr y, s') \<and> P (unat n) y s'"
  using assms
proof (induction i n body x s rule: for_acc.induct)
  case (1 i n body x s)
  show ?case
  proof (cases "i < n")
    case True
    then have lt: "unat i < unat n" by (simp add: word_less_nat_alt)
    with 1(2-4) obtain y t where t: "body i x s = (Inr y, t)" "P (Suc (unat i)) y t"
      by force
    have "\<exists>z s'. for_acc (i + 1) n body y t = (Inr z, s') \<and> P (unat n) z s'"
      using 1(1) [OF True t(1) [symmetric]] t 1(4) lt
      by (auto simp: unat_Suc_less [OF True])
    then show ?thesis by (simp add: for_acc_step [where body = body, OF True t(1)])
  next
    case False
    with 1(2-3) show ?thesis by (auto simp: for_acc_done word_less_nat_alt)
  qed
qed

lemma for_up_rule:
  assumes "P (unat i) s" "unat i \<le> unat n"
    and "\<And>j t. unat i \<le> j \<Longrightarrow> j < unat n \<Longrightarrow> P j t \<Longrightarrow>
           \<exists>t'. body (of_nat j) t = (Inr (), t') \<and> P (Suc j) t'"
  shows "\<exists>s'. for_up i n body s = (Inr (), s') \<and> P (unat n) s'"
  using for_acc_rule [where P = "\<lambda>j _. P j" and i = i and n = n and x = "()"] assms
  by (auto simp: for_up_def)

section \<open>Address translation\<close>

definition pml4_index :: "u64 \<Rightarrow> u64" where "pml4_index va = drop_bit 39 va AND 0x1FF"
definition pdpt_index :: "u64 \<Rightarrow> u64" where "pdpt_index va = drop_bit 30 va AND 0x1FF"
definition pd_index :: "u64 \<Rightarrow> u64" where "pd_index va = drop_bit 21 va AND 0x1FF"
definition pt_index :: "u64 \<Rightarrow> u64" where "pt_index va = drop_bit 12 va AND 0x1FF"

definition canonical :: "u64 \<Rightarrow> bool" where
  "canonical va \<longleftrightarrow> drop_bit 47 va = 0 \<or> drop_bit 47 va = 0x1FFFF"

definition slot :: "u64 \<Rightarrow> u64 \<Rightarrow> u64" where
  "slot table index = table + 8 * index"

text \<open>The table or frame that the entry at a physical address points to: present, not a large
  page.\<close>

definition next_table :: "pmem \<Rightarrow> u64 \<Rightarrow> u64 option" where
  "next_table m p =
     (let e = pread64 m p
      in if e AND 1 = 0 \<or> e AND 0x80 \<noteq> 0 then None else Some (e AND PAGE_MASK))"

definition leaf_frame :: "pmem \<Rightarrow> u64 \<Rightarrow> u64 option" where
  "leaf_frame m p =
     (let e = pread64 m p in if e AND 1 = 0 then None else Some (e AND PAGE_MASK))"

definition mmu_walk :: "pmem \<Rightarrow> u64 \<Rightarrow> u64 \<Rightarrow> u64 option" where
  "mmu_walk m root va =
     (case next_table m (slot (root AND PAGE_MASK) (pml4_index va)) of
        None \<Rightarrow> None
      | Some pdpt \<Rightarrow>
     (case next_table m (slot pdpt (pdpt_index va)) of
        None \<Rightarrow> None
      | Some pd \<Rightarrow>
     (case next_table m (slot pd (pd_index va)) of
        None \<Rightarrow> None
      | Some pt \<Rightarrow>
     (case leaf_frame m (slot pt (pt_index va)) of
        None \<Rightarrow> None
      | Some f \<Rightarrow> Some (f + (va AND 0xFFF))))))"

definition translate :: "machine \<Rightarrow> u64 \<Rightarrow> fault + u64" where
  "translate s va =
     (if \<not> canonical va then Inl (GeneralProtection va)
      else case mmu_walk (mem s) (cr3 s) va of
             None \<Rightarrow> Inl (PageFault va)
           | Some p \<Rightarrow> Inr p)"

fun translate_range :: "machine \<Rightarrow> u64 \<Rightarrow> nat \<Rightarrow> fault + u64 list" where
  "translate_range s a 0 = Inr []"
| "translate_range s a (Suc n) =
     (case translate s a of
        Inl e \<Rightarrow> Inl e
      | Inr p \<Rightarrow> (case translate_range s (a + 1) n of
                   Inl e \<Rightarrow> Inl e
                 | Inr ps \<Rightarrow> Inr (p # ps)))"

text \<open>A load or store of \<open>n\<close> bytes translates every byte first and then accesses memory, so an
  access that faults changes nothing.\<close>

definition load :: "u64 \<Rightarrow> nat \<Rightarrow> u8 list kern" where
  "load a n = (\<lambda>s. case translate_range s a n of
                     Inl e \<Rightarrow> (Inl e, s)
                   | Inr ps \<Rightarrow> (Inr (map (mem s) ps), s))"

fun put_byte :: "u64 \<times> u8 \<Rightarrow> pmem \<Rightarrow> pmem" where
  "put_byte (p, b) m = m(p := b)"

definition store :: "u64 \<Rightarrow> u8 list \<Rightarrow> unit kern" where
  "store a bs =
     (\<lambda>s. case translate_range s a (length bs) of
            Inl e \<Rightarrow> (Inl e, s)
          | Inr ps \<Rightarrow> (Inr (), s\<lparr>mem := fold put_byte (zip ps bs) (mem s)\<rparr>))"

definition load8 :: "u64 \<Rightarrow> u8 kern" where
  "load8 a = bind (load a 1) (\<lambda>bs. ret (le_word bs))"

definition load16 :: "u64 \<Rightarrow> u16 kern" where
  "load16 a = bind (load a 2) (\<lambda>bs. ret (le_word bs))"

definition load32 :: "u64 \<Rightarrow> u32 kern" where
  "load32 a = bind (load a 4) (\<lambda>bs. ret (le_word bs))"

definition load64 :: "u64 \<Rightarrow> u64 kern" where
  "load64 a = bind (load a 8) (\<lambda>bs. ret (le_word bs))"

definition store8 :: "u64 \<Rightarrow> u8 \<Rightarrow> unit kern" where
  "store8 a v = store a (le_bytes 1 v)"

definition store16 :: "u64 \<Rightarrow> u16 \<Rightarrow> unit kern" where
  "store16 a v = store a (le_bytes 2 v)"

definition store32 :: "u64 \<Rightarrow> u32 \<Rightarrow> unit kern" where
  "store32 a v = store a (le_bytes 4 v)"

definition store64 :: "u64 \<Rightarrow> u64 \<Rightarrow> unit kern" where
  "store64 a v = store a (le_bytes 8 v)"

section \<open>Accesses to a mapped range\<close>

definition mapped :: "machine \<Rightarrow> u64 \<Rightarrow> nat \<Rightarrow> u64 \<Rightarrow> bool" where
  "mapped s a n p \<longleftrightarrow> (\<forall>i<n. translate s (a + of_nat i) = Inr (p + of_nat i))"

lemma translate_range_mapped:
  "mapped s a n p \<Longrightarrow> translate_range s a n = Inr (map (\<lambda>i. p + of_nat i) [0..<n])"
proof (induction n arbitrary: a p)
  case 0
  then show ?case by simp
next
  case (Suc n)
  have 0: "translate s a = Inr p"
    using Suc.prems by (auto simp: mapped_def dest: spec [where x = 0])
  have "mapped s (a + 1) n (p + 1)"
    unfolding mapped_def
  proof (intro allI impI)
    fix i assume "i < n"
    then have "translate s (a + of_nat (Suc i)) = Inr (p + of_nat (Suc i))"
      using Suc.prems unfolding mapped_def by blast
    then show "translate s (a + 1 + of_nat i) = Inr (p + 1 + of_nat i)"
      by (simp add: algebra_simps)
  qed
  from Suc.IH [OF this] 0 show ?case
    by (simp add: upt_conv_Cons map_Suc_upt [symmetric] algebra_simps del: upt_Suc map_Suc_upt)
qed

lemma load_mapped: "mapped s a n p \<Longrightarrow> load a n s = (Inr (pread (mem s) p n), s)"
  by (simp add: load_def translate_range_mapped pread_def)

lemma fold_upd_pwrite:
  "length bs \<le> 2 ^ 64 \<Longrightarrow>
   fold put_byte (zip (map (\<lambda>i. p + of_nat i) [0..<length bs]) bs) m = pwrite m p bs"
proof (induction bs rule: rev_induct)
  case Nil
  then show ?case by (simp add: pwrite_def)
next
  case (snoc b bs)
  have "fold put_byte (zip (map (\<lambda>i. p + of_nat i) [0..<length (bs @ [b])]) (bs @ [b])) m
    = put_byte (p + of_nat (length bs), b) (pwrite m p bs)"
    using snoc by (simp del: put_byte.simps)
  with snoc.prems show ?case by (simp add: pwrite_snoc)
qed

lemma store_mapped:
  "mapped s a (length bs) p \<Longrightarrow> length bs \<le> 2 ^ 64 \<Longrightarrow>
     store a bs s = (Inr (), s\<lparr>mem := pwrite (mem s) p bs\<rparr>)"
  by (simp add: store_def translate_range_mapped fold_upd_pwrite)

lemma mapped_sub: "mapped s a n p \<Longrightarrow> i + k \<le> n \<Longrightarrow> mapped s (a + of_nat i) k (p + of_nat i)"
  unfolding mapped_def
proof (intro allI impI)
  fix j assume h: "\<forall>i<n. translate s (a + of_nat i) = Inr (p + of_nat i)" "i + k \<le> n" "j < k"
  from h(1) have "i + j < n \<longrightarrow> translate s (a + of_nat (i + j)) = Inr (p + of_nat (i + j))" by blast
  with h show "translate s (a + of_nat i + of_nat j) = Inr (p + of_nat i + of_nat j)"
    by (simp add: add.assoc)
qed

lemma load8_mapped: "mapped s a n p \<Longrightarrow> i < n \<Longrightarrow> load8 (a + of_nat i) s = (Inr (mem s (p + of_nat i)), s)"
  using load_mapped [OF mapped_sub [of s a n p i 1]]
  by (simp add: load8_def monad pread_def)

lemma store8_mapped:
  "mapped s a n p \<Longrightarrow> i < n \<Longrightarrow>
     store8 (a + of_nat i) v s = (Inr (), s\<lparr>mem := (mem s)(p + of_nat i := v)\<rparr>)"
  using store_mapped [of s "a + of_nat i" "[v]" "p + of_nat i"] mapped_sub [of s a n p i 1]
  by (simp add: store8_def pwrite_single)

lemma load64_mapped: "mapped s a 8 p \<Longrightarrow> load64 a s = (Inr (pread64 (mem s) p), s)"
  by (simp add: load64_def monad load_mapped pread64_def)

lemma store64_mapped: "mapped s a 8 p \<Longrightarrow> store64 a v s = (Inr (), s\<lparr>mem := pwrite64 (mem s) p v\<rparr>)"
  by (simp add: store64_def store_mapped pwrite64_def)

lemma load_state: "load a n s = (r, t) \<Longrightarrow> t = s"
  by (auto simp: load_def split: sum.splits)

lemma load64_state: "load64 a s = (r, t) \<Longrightarrow> t = s"
  by (auto simp: load64_def monad split: prod.splits sum.splits dest: load_state)

lemma load64_fault: "translate s a = Inl e \<Longrightarrow> load64 a s = (Inl e, s)"
  by (simp add: load64_def load_def monad numeral_eq_Suc)

lemma load8_state: "load8 a s = (r, t) \<Longrightarrow> t = s"
  by (auto simp: load8_def monad split: prod.splits sum.splits dest: load_state)

end
