(* ===== verification/Window.thy ===== *)
theory Window
  imports Machine
begin

text \<open>
  The kernel window: the first two mebibytes of physical memory, mapped at \<open>KERNEL_BASE\<close> by the
  tables that \<open>paging_init\<close> builds, except for the last page, \<open>TEMP_PAGE\<close>, whose entry
  \<open>temp_map\<close> redirects. The invariant \<open>kmap\<close> describes these tables; under it a load or store in
  the window is a plain access to physical memory, and one in \<open>TEMP_PAGE\<close> an access to the frame
  mapped there. A write that stays off the tables keeps the invariant.
\<close>

section \<open>The window's tables\<close>

definition TEMP_PAGE :: u64 where "TEMP_PAGE = 0xFFFFFFFF801FF000"

lemmas [kconst] = TEMP_PAGE_def

text \<open>The frames of the tables: the root in \<open>CR3\<close>, the kernel's own top table (the variable
  \<open>pml4t\<close>), and the three tables below that map the window.\<close>

record kframes =
  kf_root :: u64
  kf_pml4 :: u64
  kf_pdpt :: u64
  kf_pd :: u64
  kf_pt :: u64

definition page_aligned :: "u64 \<Rightarrow> bool" where
  "page_aligned p \<longleftrightarrow> p AND 0xFFF = 0"

definition low_frame :: "u64 \<Rightarrow> bool" where
  "low_frame p \<longleftrightarrow> page_aligned p \<and> unat p < 0x1FF000"

definition kmap :: "kframes \<Rightarrow> pmem \<Rightarrow> u64 \<Rightarrow> u64 \<Rightarrow> bool" where
  "kmap F m root ktop \<longleftrightarrow>
     root AND PAGE_MASK = kf_root F \<and> ktop = KERNEL_BASE + kf_pml4 F \<and>
     low_frame (kf_pml4 F) \<and> low_frame (kf_pdpt F) \<and> low_frame (kf_pd F) \<and> low_frame (kf_pt F) \<and>
     distinct [kf_pml4 F, kf_pdpt F, kf_pd F, kf_pt F] \<and>
     kf_root F \<notin> {kf_pdpt F, kf_pd F, kf_pt F} \<and>
     next_table m (kf_root F + 0xFF8) = Some (kf_pdpt F) \<and>
     next_table m (kf_pml4 F + 0xFF8) = Some (kf_pdpt F) \<and>
     next_table m (kf_pdpt F + 0xFF0) = Some (kf_pd F) \<and>
     next_table m (kf_pd F) = Some (kf_pt F) \<and>
     (\<forall>i<511. leaf_frame m (kf_pt F + 8 * of_nat i) = Some (of_nat i * 0x1000))"

text \<open>The window under \<open>CR3\<close>, with the kernel's top table at a given address; from \<open>paging_init\<close> on that
  is the variable \<open>pml4t\<close>, before it the variable is not set.\<close>

abbreviation kwin_at :: "u64 \<Rightarrow> kframes \<Rightarrow> machine \<Rightarrow> bool" where
  "kwin_at T F s \<equiv> kmap F (mem s) (cr3 s) T"

abbreviation window :: "kframes \<Rightarrow> machine \<Rightarrow> bool" where
  "window F s \<equiv> kwin_at (KERNEL_BASE + kf_pml4 F) F s"

abbreviation kwin :: "kframes \<Rightarrow> machine \<Rightarrow> bool" where
  "kwin F s \<equiv> kwin_at (pml4t s) F s"

text \<open>Ranges of virtual addresses inside the window, below the temporary page.\<close>

definition in_win :: "u64 \<Rightarrow> nat \<Rightarrow> bool" where
  "in_win a n \<longleftrightarrow> unat (a - KERNEL_BASE) + n \<le> 0x1FF000"

text \<open>A physical range that meets no entry of the tables the window's mapping rests on.\<close>

definition off_tables :: "kframes \<Rightarrow> u64 \<Rightarrow> nat \<Rightarrow> bool" where
  "off_tables F p n \<longleftrightarrow>
     apart p n (kf_root F + 0xFF8) 8 \<and> apart p n (kf_pml4 F + 0xFF8) 8 \<and>
     apart p n (kf_pdpt F + 0xFF0) 8 \<and> apart p n (kf_pd F) 8 \<and> apart p n (kf_pt F) 0xFF8"

lemma kwin_window: "kwin F s \<Longrightarrow> window F s"
  by (simp add: kmap_def)

section \<open>Indices and offsets\<close>

lemma and_511: "x AND 0x1FF = take_bit 9 x" for x :: u64
  by (simp add: take_bit_eq_mask mask_eq_exp_minus_1)

lemma and_fff: "x AND 0xFFF = take_bit 12 x" for x :: u64
  by (simp add: take_bit_eq_mask mask_eq_exp_minus_1)

lemma unat_index:
  "unat (drop_bit k x AND 0x1FF) = unat x div 2 ^ k mod 512" for x :: u64
  unfolding and_511 unsigned_take_bit_eq unat_drop_bit_eq
  by (simp add: drop_bit_eq_div take_bit_eq_mod)

lemma unat_and_fff: "unat (x AND 0xFFF) = unat x mod 4096" for x :: u64
  unfolding and_fff unsigned_take_bit_eq by (simp add: take_bit_eq_mod)

lemma unat_kernel_addr:
  "i < 0x80000000 \<Longrightarrow> unat (KERNEL_BASE + of_nat i) = 0xFFFFFFFF80000000 + i"
  by (subst unat_add_of_nat) (simp_all add: KERNEL_BASE_def)

lemma div_of_sum: "x = q * d + r \<Longrightarrow> 0 < d \<Longrightarrow> x div d = q + r div d" for x q d r :: nat
  by simp

lemma kernel_indices:
  assumes "i < 0x200000"
  shows "pml4_index (KERNEL_BASE + of_nat i) = 511"
    and "pdpt_index (KERNEL_BASE + of_nat i) = 510"
    and "pd_index (KERNEL_BASE + of_nat i) = 0"
    and "pt_index (KERNEL_BASE + of_nat i) = of_nat (i div 4096)"
    and "(KERNEL_BASE + of_nat i) AND 0xFFF = of_nat (i mod 4096)"
    and "canonical (KERNEL_BASE + of_nat i)"
proof -
  let ?a = "KERNEL_BASE + of_nat i :: u64"
  have u: "unat ?a = 0xFFFFFFFF80000000 + i" using assms by (intro unat_kernel_addr) simp
  have d39: "unat ?a div 2 ^ 39 = 0x1FFFFFF"
    using assms by (subst div_of_sum [of _ "0x1FFFFFF" _ "0x7F80000000 + i"]) (simp_all add: u)
  have d30: "unat ?a div 2 ^ 30 = 0x3FFFFFFFE"
    using assms by (subst div_of_sum [of _ "0x3FFFFFFFE" _ i]) (simp_all add: u)
  have d21: "unat ?a div 2 ^ 21 = 0x7FFFFFFFC00"
    using assms by (subst div_of_sum [of _ "0x7FFFFFFFC00" _ i]) (simp_all add: u)
  have d12: "unat ?a div 2 ^ 12 = 0xFFFFFFFF80000 + i div 4096"
    using assms by (subst div_of_sum [of _ "0xFFFFFFFF80000" _ i]) (simp_all add: u)
  have d47: "unat ?a div 2 ^ 47 = 0x1FFFF"
    using assms by (subst div_of_sum [of _ "0x1FFFF" _ "0x7FFF80000000 + i"]) (simp_all add: u)
  have m12: "i div 4096 < 512" using assms by (simp add: less_mult_imp_div_less)
  show "pml4_index ?a = 511" "pdpt_index ?a = 510" "pd_index ?a = 0"
    unfolding pml4_index_def pdpt_index_def pd_index_def word_unat_eq_iff unat_index d39 d30 d21
    by simp_all
  have "(0xFFFFFFFF80000 + i div 4096) mod 512 = i div 4096"
    using m12 mod_mult_self3 [of "0x7FFFFFFFC00" 512 "i div 4096"] by simp
  then show "pt_index ?a = of_nat (i div 4096)"
    unfolding pt_index_def word_unat_eq_iff unat_index d12 using m12 by simp
  have "(0xFFFFFFFF80000000 + i) mod 4096 = i mod 4096"
    using mod_mult_self3 [of "0xFFFFFFFF80000" 4096 i] by simp
  then show "?a AND 0xFFF = of_nat (i mod 4096)"
    unfolding word_unat_eq_iff unat_and_fff u by simp
  have "unat (drop_bit 47 ?a) = 0x1FFFF"
    using d47 unfolding unat_drop_bit_eq by (simp add: drop_bit_eq_div)
  then show "canonical ?a" by (simp add: canonical_def word_unat_eq_iff)
qed

text \<open>The bits of an address below the page size and above it.\<close>

lemma page_aligned_iff: "page_aligned p \<longleftrightarrow> unat p mod 4096 = 0"
  by (simp add: page_aligned_def word_unat_eq_iff unat_and_fff)

lemma page_split: "of_nat (i div 4096) * 0x1000 + of_nat (i mod 4096) = (of_nat i :: u64)"
proof -
  have "of_nat (i div 4096) * 0x1000 + of_nat (i mod 4096)
      = (of_nat (i div 4096 * 4096 + i mod 4096) :: u64)"
    by (simp only: of_nat_add of_nat_mult of_nat_numeral)
  then show ?thesis by simp
qed

section \<open>Accesses in the window\<close>

lemma kwin_translate:
  assumes "kwin_at T F s" "unat (a - KERNEL_BASE) < 0x1FF000"
  shows "translate s a = Inr (a - KERNEL_BASE)"
proof -
  define i where "i = unat (a - KERNEL_BASE)"
  have a: "a = KERNEL_BASE + of_nat i" by (simp add: i_def)
  have i: "i < 0x200000" "i div 4096 < 511" using assms(2) by (auto simp: i_def)
  note ix = kernel_indices [OF i(1)]
  have "leaf_frame (mem s) (kf_pt F + 8 * of_nat (i div 4096)) = Some (of_nat (i div 4096) * 0x1000)"
    using assms(1) i(2) by (simp add: kmap_def)
  then have "mmu_walk (mem s) (cr3 s) a
      = Some (of_nat (i div 4096) * 0x1000 + of_nat (i mod 4096))"
    using assms(1) by (simp add: mmu_walk_def kmap_def slot_def a ix)
  then show ?thesis
    by (simp add: translate_def page_split a ix del: of_nat_div)
qed

lemma kwin_mapped: "kwin_at T F s \<Longrightarrow> in_win a n \<Longrightarrow> mapped s a n (a - KERNEL_BASE)"
  unfolding mapped_def in_win_def
proof (intro allI impI)
  fix i assume h: "kwin_at T F s" "unat (a - KERNEL_BASE) + n \<le> 0x1FF000" "i < n"
  have "unat (a + of_nat i - KERNEL_BASE) = unat (a - KERNEL_BASE) + i"
    using unat_add_of_nat [of "a - KERNEL_BASE" i] h by (simp add: algebra_simps)
  then show "translate s (a + of_nat i) = Inr (a - KERNEL_BASE + of_nat i)"
    using kwin_translate [OF h(1), of "a + of_nat i"] h by (simp add: algebra_simps)
qed

lemma kwin_load: "kwin_at T F s \<Longrightarrow> in_win a n \<Longrightarrow> load a n s = (Inr (pread (mem s) (a - KERNEL_BASE) n), s)"
  by (rule load_mapped) (rule kwin_mapped)

lemma kwin_store:
  "kwin_at T F s \<Longrightarrow> in_win a (length bs) \<Longrightarrow>
     store a bs s = (Inr (), s\<lparr>mem := pwrite (mem s) (a - KERNEL_BASE) bs\<rparr>)"
  by (rule store_mapped) (auto simp: in_win_def intro: kwin_mapped)

lemma kwin_load8: "kwin_at T F s \<Longrightarrow> in_win a 1 \<Longrightarrow> load8 a s = (Inr (mem s (a - KERNEL_BASE)), s)"
  by (simp add: load8_def monad kwin_load pread_def)

lemma kwin_load64:
  "kwin_at T F s \<Longrightarrow> in_win a 8 \<Longrightarrow> load64 a s = (Inr (pread64 (mem s) (a - KERNEL_BASE)), s)"
  by (simp add: load64_def monad kwin_load pread64_def)

lemma kwin_store8:
  "kwin_at T F s \<Longrightarrow> in_win a 1 \<Longrightarrow>
     store8 a v s = (Inr (), s\<lparr>mem := (mem s)(a - KERNEL_BASE := v)\<rparr>)"
  by (simp add: store8_def kwin_store pwrite_def fun_upd_def unat_eq_0 cong: if_cong)

lemma kwin_store64:
  "kwin_at T F s \<Longrightarrow> in_win a 8 \<Longrightarrow>
     store64 a v s = (Inr (), s\<lparr>mem := pwrite64 (mem s) (a - KERNEL_BASE) v\<rparr>)"
  by (simp add: store64_def kwin_store pwrite64_def)

lemmas kwin_access = kwin_load8 kwin_load64 kwin_store8 kwin_store64

section \<open>The temporary page\<close>

text \<open>The frame that the entry of the temporary page holds.\<close>

definition temp_frame :: "kframes \<Rightarrow> pmem \<Rightarrow> u64 \<Rightarrow> bool" where
  "temp_frame F m p \<longleftrightarrow> leaf_frame m (kf_pt F + 0xFF8) = Some p"

lemma temp_translate:
  assumes "kwin_at T F s" "temp_frame F (mem s) p" "i < 4096"
  shows "translate s (TEMP_PAGE + of_nat i) = Inr (p + of_nat i)"
proof -
  have a: "TEMP_PAGE + of_nat i = KERNEL_BASE + of_nat (0x1FF000 + i)"
    by (simp add: kconst)
  have i: "0x1FF000 + i < 0x200000" using assms(3) by simp
  note ix = kernel_indices [OF i]
  have r: "(0x1FF000 + i) div 4096 = 511" "(0x1FF000 + i) mod 4096 = i"
    using assms(3) mod_mult_self3 [of 511 4096 i] by auto
  have "mmu_walk (mem s) (cr3 s) (TEMP_PAGE + of_nat i) = Some (p + of_nat i)"
    unfolding a using assms(1,2) ix r
    by (simp add: mmu_walk_def kmap_def slot_def temp_frame_def del: of_nat_add)
  then show ?thesis using ix by (simp add: translate_def a del: of_nat_add)
qed

lemma temp_mapped:
  "kwin_at T F s \<Longrightarrow> temp_frame F (mem s) p \<Longrightarrow> i + n \<le> 4096 \<Longrightarrow>
     mapped s (TEMP_PAGE + of_nat i) n (p + of_nat i)"
  unfolding mapped_def
proof (intro allI impI)
  fix j assume h: "kwin_at T F s" "temp_frame F (mem s) p" "i + n \<le> 4096" "j < n"
  then show "translate s (TEMP_PAGE + of_nat i + of_nat j) = Inr (p + of_nat i + of_nat j)"
    using temp_translate [OF h(1,2), of "i + j"] by (simp add: add.assoc)
qed

section \<open>Writes that keep the window\<close>

lemma next_table_pwrite:
  "apart p (length bs) q 8 \<Longrightarrow> next_table (pwrite m p bs) q = next_table m q"
  by (simp add: next_table_def pread64_pwrite_apart)

lemma leaf_frame_pwrite:
  "apart p (length bs) q 8 \<Longrightarrow> leaf_frame (pwrite m p bs) q = leaf_frame m q"
  by (simp add: leaf_frame_def pread64_pwrite_apart)

lemma apart_slot:
  assumes "apart p n q 0xFF8" "i < 511" "0 < n"
  shows "apart p n (q + 8 * of_nat i) 8"
  using apart_sub [OF assms(1), of 0 n "8 * i" 8] assms(2,3) by simp

lemma kmap_pwrite:
  assumes "kmap F m root ktop" "off_tables F p (length bs)"
  shows "kmap F (pwrite m p bs) root ktop"
proof (cases "bs = []")
  case True
  then show ?thesis using assms(1) by (simp add: pwrite_def)
next
  case False
  then show ?thesis using assms
    by (auto simp: kmap_def off_tables_def next_table_pwrite leaf_frame_pwrite apart_slot)
qed

lemma kmap_pwrite64:
  "kmap F m root ktop \<Longrightarrow> off_tables F p 8 \<Longrightarrow> kmap F (pwrite64 m p v) root ktop"
  by (simp add: pwrite64_def kmap_pwrite)

text \<open>Writing the entry of the temporary page redirects it and keeps everything else.\<close>

lemma apart_frames:
  assumes "page_aligned p" "page_aligned q" "p \<noteq> q"
  shows "apart p 4096 q 4096"
proof -
  have m: "unat p mod 4096 = 0" "unat q mod 4096 = 0"
    using assms(1,2) by (simp_all add: page_aligned_iff)
  have ne: "unat p \<noteq> unat q" using assms(3) by (simp add: word_unat_eq_iff)
  have "4096 \<le> unat (y - x)" if h: "unat x mod 4096 = 0" "unat y mod 4096 = 0" "unat x \<noteq> unat y" for x y :: u64
  proof -
    have "4096 dvd unat (y - x)"
      using h by (auto simp: unat_sub_if_size word_size mod_eq_0_iff_dvd intro!: dvd_diff_nat dvd_add)
    moreover have "unat (y - x) \<noteq> 0" using h(3) by (auto simp: unat_eq_0)
    ultimately show ?thesis by (simp add: dvd_imp_le)
  qed
  with m ne show ?thesis by (auto simp: apart_def)
qed

lemma low_frame_aligned: "low_frame p \<Longrightarrow> page_aligned p"
  by (simp add: low_frame_def)

lemma masked_aligned: "page_aligned (x AND PAGE_MASK)"
  by (simp add: page_aligned_def PAGE_MASK_def and.assoc)

lemma apart_in_frames:
  assumes "page_aligned p" "page_aligned q" "p \<noteq> q" "i + n \<le> 4096" "j + k \<le> 4096" "0 < n" "0 < k"
  shows "apart (p + of_nat i) n (q + of_nat j) k"
  using apart_sub [OF apart_frames [OF assms(1-3)]] assms by simp

lemma kmap_temp_update:
  assumes "kmap F m root ktop"
  shows "kmap F (pwrite64 m (kf_pt F + 0xFF8) v) root ktop"
proof (rule kmap_pwrite64 [OF assms])
  have al: "page_aligned (kf_root F)" "page_aligned (kf_pml4 F)" "page_aligned (kf_pdpt F)"
    "page_aligned (kf_pd F)" "page_aligned (kf_pt F)"
    using assms masked_aligned [of root] by (auto simp: kmap_def low_frame_aligned)
  have ne: "kf_pt F \<noteq> kf_root F" "kf_pt F \<noteq> kf_pml4 F" "kf_pt F \<noteq> kf_pdpt F" "kf_pt F \<noteq> kf_pd F"
    using assms by (auto simp: kmap_def)
  show "off_tables F (kf_pt F + 0xFF8) 8"
    unfolding off_tables_def
    using apart_in_frames [OF al(5,1) ne(1), of "0xFF8" 8 "0xFF8" 8]
      apart_in_frames [OF al(5,2) ne(2), of "0xFF8" 8 "0xFF8" 8]
      apart_in_frames [OF al(5,3) ne(3), of "0xFF8" 8 "0xFF0" 8]
      apart_in_frames [OF al(5,4) ne(4), of "0xFF8" 8 0 8]
      apart_sym [OF apart_offsets [of 0 "0xFF8" "0xFF8" 8 "kf_pt F"]]
    by simp
qed

lemma temp_frame_update:
  "v AND 1 \<noteq> 0 \<Longrightarrow> temp_frame F (pwrite64 m (kf_pt F + 0xFF8) v) (v AND PAGE_MASK)"
  by (simp add: temp_frame_def leaf_frame_def)

section \<open>Entries\<close>

text \<open>A frame address with flag bits below the page size is an entry that points to the frame.\<close>

lemma bit_PAGE_MASK: "bit PAGE_MASK n \<longleftrightarrow> 12 \<le> n \<and> n < 52"
proof -
  have e: "PAGE_MASK = push_bit 12 (mask 40)" by (simp add: PAGE_MASK_def mask_eq_exp_minus_1)
  show ?thesis unfolding e by (auto simp: bit_push_bit_iff bit_mask_iff)
qed

lemma page_aligned_bit: "page_aligned f \<Longrightarrow> n < 12 \<Longrightarrow> \<not> bit f n"
  by (metis page_aligned_def and_fff bit_take_bit_iff bit_0_eq bot_apply bot_bool_def)

lemma high_bits: "unat f < 2 ^ k \<Longrightarrow> bit f n \<Longrightarrow> n < k" for f :: "'a::len word"
proof -
  assume "unat f < 2 ^ k" "bit f n"
  then have "bit (unat f) n" by (simp add: bit_simps)
  then show "n < k" using \<open>unat f < 2 ^ k\<close>
    by (metis bit_take_bit_iff take_bit_nat_eq_self)
qed

lemma aligned_mask: "page_aligned f \<Longrightarrow> unat f < 2 ^ 52 \<Longrightarrow> f AND PAGE_MASK = f"
  using high_bits [of f 52] page_aligned_bit [of f]
  by (intro bit_word_eqI) (auto simp: bit_and_iff bit_PAGE_MASK not_le [symmetric])

lemma flags_mask: "unat g < 0x1000 \<Longrightarrow> g AND PAGE_MASK = 0"
  using high_bits [of g 12] by (intro bit_word_eqI) (fastforce simp: bit_and_iff bit_PAGE_MASK)

lemma entry_mask:
  "page_aligned f \<Longrightarrow> unat f < 2 ^ 52 \<Longrightarrow> unat g < 0x1000 \<Longrightarrow> (f OR g) AND PAGE_MASK = f"
  by (simp add: word_ao_dist aligned_mask flags_mask)

lemma and_eq_0_low: "page_aligned f \<Longrightarrow> unat g < 0x1000 \<Longrightarrow> f AND g = 0"
  using high_bits [of g 12] page_aligned_bit [of f]
  by (intro bit_word_eqI) (fastforce simp: bit_and_iff)

lemma entry_flag: "page_aligned f \<Longrightarrow> unat k < 0x1000 \<Longrightarrow> (f OR g) AND k = g AND k"
  by (simp add: word_ao_dist and_eq_0_low)

end
