(* ===== verification/Boot_State.thy ===== *)
theory Boot_State
  imports Window
begin

text \<open>
  A concrete machine state, the one the boot sequence reaches after \<open>paging_init\<close> with a memory
  map of at most 170 entries: the page tables at physical 0x22000 to 0x25000, the bitmap of the
  physical memory manager at 0x26000 with the first 512 frames in use out of 1024, the pool
  pointer above it. The theorems of the components are instantiated at it.
\<close>

section \<open>Memory given by its 64-bit words\<close>

definition word_mem :: "(u64 \<Rightarrow> u64) \<Rightarrow> pmem" where
  "word_mem w = (\<lambda>x. ucast (drop_bit (8 * (unat x mod 8)) (w (x AND - 8))))"

lemma unat_and_minus8: "unat (x AND - 8) = unat x div 8 * 8" for x :: u64
proof -
  have e: "(- 8 :: u64) = NOT (mask 3)" by (simp add: mask_eq_exp_minus_1)
  have "x AND - 8 = push_bit 3 (drop_bit 3 x)" unfolding e
    by (rule bit_word_eqI)
      (auto simp: bit_and_iff bit_not_iff bit_mask_iff bit_push_bit_iff bit_drop_bit_eq not_less)
  moreover have "unat x div 8 * 8 < 2 ^ 64"
    using div_times_less_eq_dividend [of "unat x" 8] u64_bound [of x] by simp
  then have "unat (x div 8 * 8) = unat x div 8 * 8"
    by (subst unat_word_ariths) (simp add: unat_div_distrib)
  ultimately show ?thesis by (simp add: push_bit_eq_mult drop_bit_eq_div)
qed

lemma aligned8_offset:
  fixes a :: u64
  assumes "unat a mod 8 = 0" "i < 8"
  shows "(a + of_nat i) AND - 8 = a" "unat (a + of_nat i) mod 8 = i"
proof -
  have b: "unat a + i < 2 ^ 64" using assms u64_bound [of a] by (auto simp: mod_eq_0_iff_dvd elim!: dvdE)
  then have u: "unat (a + of_nat i) = unat a + i" by (rule unat_add_of_nat)
  then show "unat (a + of_nat i) mod 8 = i" using assms by (simp add: mod_add_eq [symmetric])
  have "(unat a + i) div 8 = unat a div 8" using assms by (simp add: div_add1_eq)
  then show "(a + of_nat i) AND - 8 = a"
    using u assms(1) div_mult_mod_eq [of "unat a" 8]
    by (simp add: word_unat_eq_iff unat_and_minus8)
qed

lemma pread64_word_mem: "unat a mod 8 = 0 \<Longrightarrow> pread64 (word_mem w) a = w a"
proof -
  assume a: "unat a mod 8 = 0"
  have "pread (word_mem w) a 8 = le_bytes 8 (w a)"
    by (rule nth_equalityI) (auto simp: le_bytes_def word_mem_def aligned8_offset [OF a])
  then show ?thesis by (simp add: pread64_def le_word_le_bytes)
qed

section \<open>The state\<close>

definition boot_words :: "u64 \<Rightarrow> u64" where
  "boot_words a =
     (if a = 0x22FF8 then 0x23003
      else if a = 0x23FF0 then 0x24003
      else if a = 0x24000 then 0x25003
      else if unat (a - 0x25000) < 0x1000 then ((a - 0x25000) div 8 * 0x1000) OR 3
      else 0)"

definition boot_frames :: kframes where
  "boot_frames = \<lparr>kf_root = 0x22000, kf_pml4 = 0x22000, kf_pdpt = 0x23000,
     kf_pd = 0x24000, kf_pt = 0x25000\<rparr>"

definition null_idt :: "idt_entry list" where
  "null_idt = replicate 256 null_gate"

definition boot_machine :: machine where
  "boot_machine =
     \<lparr>mem = pwrite (word_mem boot_words) 0x26000 (replicate 64 0xFF), cr0 = 0x80000011, cr3 = 0x22000, cr4 = 0x20,
      msr = (\<lambda>_. 0), io_log = [], invlpg_log = [],
      idtr = \<lparr>limit = 0, base = 0\<rparr>, if_flag = False,
      next_free = 0xFFFFFFFF80027000, pml4t = 0xFFFFFFFF80022000,
      mem_bitmap = 0xFFFFFFFF80026000, mem_bitmap_size = 128, mem_bitmap_bit_size = 1024,
      heap_start = 0, heap_end = 0, heap = \<lparr>hi_start = 0, hi_avail = 0\<rparr>,
      idt = null_idt, idtp = \<lparr>limit = 0, base = 0\<rparr>\<rparr>"

lemma boot_leaf:
  assumes "i < 512"
  shows "leaf_frame (word_mem boot_words) (0x25000 + 8 * of_nat i) = Some (of_nat i * 0x1000)"
proof -
  have e: "0x25000 + 8 * of_nat i = (of_nat (0x25000 + 8 * i) :: u64)" by simp
  have u: "unat (0x25000 + 8 * of_nat i :: u64) = 0x25000 + 8 * i"
    unfolding e using assms by (subst unat_of_nat64) auto
  have "unat (8 * of_nat i :: u64) = 8 * i"
    using unat_of_nat64 [of "8 * i"] assms by simp
  then have q: "8 * of_nat i div 8 = (of_nat i :: u64)" "unat (8 * of_nat i :: u64) < 0x1000"
    using assms by (simp_all add: word_unat_eq_iff unat_div_distrib)
  have ne: "0x25000 + 8 * of_nat i \<noteq> (0x22FF8 :: u64)" "0x25000 + 8 * of_nat i \<noteq> (0x23FF0 :: u64)"
    "0x25000 + 8 * of_nat i \<noteq> (0x24000 :: u64)"
    using u by (auto simp: word_unat_eq_iff)
  have w: "boot_words (0x25000 + 8 * of_nat i) = (of_nat i * 0x1000) OR 3"
    using ne q by (simp add: boot_words_def)
  have "unat (0x25000 + 8 * of_nat i :: u64) mod 8 = 0"
    unfolding u by (simp add: mod_eq_0_iff_dvd)
  then have rd: "pread64 (word_mem boot_words) (0x25000 + 8 * of_nat i) = (of_nat i * 0x1000) OR 3"
    by (simp add: pread64_word_mem w)
  have f: "unat (of_nat i * 0x1000 :: u64) = i * 4096"
    using unat_of_nat64 [of "i * 4096"] assms by simp
  then have "page_aligned (of_nat i * 0x1000)" by (simp add: page_aligned_iff)
  then show ?thesis
    using f assms by (simp add: leaf_frame_def rd entry_mask entry_flag)
qed

lemma boot_upper:
  "next_table (word_mem boot_words) 0x22FF8 = Some 0x23000"
  "next_table (word_mem boot_words) 0x23FF0 = Some 0x24000"
  "next_table (word_mem boot_words) 0x24000 = Some 0x25000"
  by (simp_all add: next_table_def pread64_word_mem boot_words_def PAGE_MASK_def)

lemma boot_kmap: "kmap boot_frames (word_mem boot_words) 0x22000 0xFFFFFFFF80022000"
  using boot_leaf boot_upper
  by (simp add: kmap_def boot_frames_def low_frame_def page_aligned_def kconst)

lemma boot_off_tables: "unat p \<ge> 0x26000 \<Longrightarrow> unat p + n \<le> 2 ^ 64 \<Longrightarrow> 0 < n \<Longrightarrow> off_tables boot_frames p n"
  by (auto simp: off_tables_def apart_def boot_frames_def unat_sub_if_size word_size word_le_nat_alt)

lemma boot_kwin: "kwin boot_frames boot_machine"
  using kmap_pwrite [OF boot_kmap, of "0x26000" "replicate 64 0xFF"] boot_off_tables [of "0x26000" 64]
  by (simp add: boot_machine_def)

lemma boot_mem_high: "0x26000 \<le> unat x \<Longrightarrow> word_mem boot_words x = 0"
proof -
  assume "0x26000 \<le> unat x"
  then have "0x26000 \<le> unat x div 8 * 8" using div_le_mono [of "0x26000" "unat x" 8] by simp
  then have "0x26000 \<le> unat (x AND - 8)" by (simp only: unat_and_minus8)
  then have "boot_words (x AND - 8) = 0"
    by (auto simp: boot_words_def unat_sub_if_size word_size word_le_nat_alt)
  then show ?thesis by (simp add: word_mem_def)
qed

end
