(* ===== verification/Utils.thy ===== *)
theory Utils
  imports Boot_State
begin

text \<open>
  The kernel's utilities, \<open>utils.c\<close>: the bootstrap page allocator \<open>alloc_page\<close> over the pool
  between \<open>POOL_START\<close> and \<open>POOL_END\<close>, the byte loops \<open>memcpy\<close> and \<open>memset\<close>, the
  \<open>panic\<close> screen and the access to model-specific registers. The contract of an allocator that
  hands out fresh pages is stated as a locale, proved here for \<open>alloc_page\<close> and later for the
  physical memory manager.
\<close>

section \<open>Operations\<close>

definition alloc_page :: "u64 kern" where
  "alloc_page = (\<lambda>s.
     if POOL_END \<le> next_free s + PAGE_SIZE then (Inr 0, s)
     else (Inr (next_free s), s\<lparr>next_free := next_free s + PAGE_SIZE\<rparr>))"

text \<open>The counter of \<open>memcpy\<close> is a C \<open>int\<close>: incrementing it past \<open>2\<^sup>3\<^sup>1 - 1\<close> is undefined.\<close>

function memcpy_loop :: "nat \<Rightarrow> u64 \<Rightarrow> u64 \<Rightarrow> u64 \<Rightarrow> unit kern" where
  "memcpy_loop i d sp count s =
     (if i < unat count \<and> i < 2 ^ 31
      then (case bind (load8 (sp + of_nat i)) (\<lambda>b. store8 (d + of_nat i) b) s of
              (Inl e, s') \<Rightarrow> (Inl e, s')
            | (Inr _, s') \<Rightarrow>
                if i = 2 ^ 31 - 1 then (Inl (Undefined ''signed overflow in memcpy''), s')
                else memcpy_loop (i + 1) d sp count s')
      else (Inr (), s))"
  by pat_completeness auto
termination
  by (relation "measure (\<lambda>(i, d, sp, count, s). 2 ^ 31 - i)") auto

definition memcpy :: "u64 \<Rightarrow> u64 \<Rightarrow> u64 \<Rightarrow> u64 kern" where
  "memcpy dest src count = andthen (memcpy_loop 0 dest src count) (ret dest)"

definition memset :: "u64 \<Rightarrow> i32 \<Rightarrow> u64 \<Rightarrow> u64 kern" where
  "memset dest c count =
     andthen (for_up 0 count (\<lambda>i. store8 (dest + i) (ucast c))) (ret dest)"

definition VGA_MEMORY :: u64 where
  "VGA_MEMORY = KERNEL_BASE + 0xB8000"

lemmas [kconst] = VGA_MEMORY_def

text \<open>A character of a C string as the 16-bit cell \<open>attr | c\<close>; \<open>char\<close> is signed.\<close>

definition vga_cell :: "u16 \<Rightarrow> char \<Rightarrow> u16" where
  "vga_cell attr c = attr OR scast (of_char c :: u8)"

primrec panic_print :: "nat \<Rightarrow> string \<Rightarrow> unit kern" where
  "panic_print i [] = ret ()"
| "panic_print i (c # cs) =
     (if c = CHR 0x00 then ret ()
      else andthen (store16 (VGA_MEMORY + 2 * of_nat (i + 12 * 80)) (vga_cell 0x0F00 c))
             (panic_print (i + 1) cs))"

definition panic :: "string \<Rightarrow> 'a kern" where
  "panic message = andthen (panic_print 0 message) (raise (Panic message))"

definition rdmsr :: "u32 \<Rightarrow> (u32 \<times> u32) kern" where
  "rdmsr r = gets (\<lambda>s. (ucast (msr s r), ucast (drop_bit 32 (msr s r))))"

definition wrmsr :: "u32 \<Rightarrow> u32 \<Rightarrow> u32 \<Rightarrow> unit kern" where
  "wrmsr r low high =
     modify (\<lambda>s. s\<lparr>msr := (msr s)(r := push_bit 32 (ucast high) OR ucast low)\<rparr>)"

definition read_msr :: "u32 \<Rightarrow> u64 kern" where
  "read_msr r = bind (rdmsr r) (\<lambda>(low, high). ret (push_bit 32 (ucast high) OR ucast low))"

definition write_msr :: "u32 \<Rightarrow> u64 \<Rightarrow> unit kern" where
  "write_msr r val = wrmsr r (ucast (val AND 0xFFFFFFFF)) (ucast (drop_bit 32 val))"

section \<open>Model-specific registers\<close>

lemma msr_halves: "push_bit 32 (ucast (ucast (drop_bit 32 v) :: u32)) OR ucast (ucast v :: u32) = v"
  for v :: u64
  by (rule bit_word_eqI) (auto simp: bit_simps)

lemma msr_mask: "ucast (v AND 0xFFFFFFFF) = (ucast v :: u32)" for v :: u64
proof -
  have "v AND 0xFFFFFFFF = take_bit 32 v" by (simp add: take_bit_eq_mask mask_eq_exp_minus_1)
  then show ?thesis by (intro bit_word_eqI) (auto simp: bit_simps)
qed

lemma write_msr_run: "write_msr r v s = (Inr (), s\<lparr>msr := (msr s)(r := v)\<rparr>)"
  by (simp add: write_msr_def wrmsr_def monad msr_halves msr_mask)

lemma read_msr_run: "read_msr r s = (Inr (msr s r), s)"
  by (simp add: read_msr_def rdmsr_def monad msr_halves)

section \<open>The screen\<close>

text \<open>The characters of a C string up to its terminator, a run of 16-bit cells and the bytes it
  leaves in memory.\<close>

definition c_string :: "string \<Rightarrow> string" where
  "c_string cs = takeWhile (\<lambda>c. c \<noteq> CHR 0x00) cs"

primrec store_cells :: "u64 \<Rightarrow> u16 list \<Rightarrow> unit kern" where
  "store_cells a [] = ret ()"
| "store_cells a (w # ws) = andthen (store16 a w) (store_cells (a + 2) ws)"

definition cell_bytes :: "u16 list \<Rightarrow> u8 list" where
  "cell_bytes ws = concat (map (le_bytes 2) ws)"

lemma length_cell_bytes [simp]: "length (cell_bytes ws) = 2 * length ws"
  by (induction ws) (simp_all add: cell_bytes_def)

lemma cell_bytes_Cons: "cell_bytes (w # ws) = le_bytes 2 w @ cell_bytes ws"
  by (simp add: cell_bytes_def)

lemma off_tables_sub: "off_tables F p n \<Longrightarrow> i + k \<le> n \<Longrightarrow> 0 < k \<Longrightarrow> off_tables F (p + of_nat i) k"
  using apart_sub [of p n _ 8 i k 0 8] apart_sub [of p n _ "0xFF8" i k 0 "0xFF8"]
  by (simp add: off_tables_def)

lemma in_win_sub:
  assumes "in_win a n" "i + k \<le> n"
  shows "in_win (a + of_nat i) k"
proof -
  have "unat (a - KERNEL_BASE + of_nat i) = unat (a - KERNEL_BASE) + i"
    using assms by (intro unat_add_of_nat) (simp add: in_win_def)
  moreover have "a + of_nat i - KERNEL_BASE = a - KERNEL_BASE + of_nat i" by simp
  ultimately show ?thesis using assms by (simp only: in_win_def)
qed

lemma kwin_store_cells:
  assumes "kwin_at T F s" "in_win a (2 * length ws)" "off_tables F (a - KERNEL_BASE) (2 * length ws)"
  shows "store_cells a ws s
     = (Inr (), s\<lparr>mem := pwrite (mem s) (a - KERNEL_BASE) (cell_bytes ws)\<rparr>)"
  using assms
proof (induction ws arbitrary: s a)
  case (Cons w ws)
  let ?p = "a - KERNEL_BASE"
  let ?s = "s\<lparr>mem := pwrite (mem s) ?p (le_bytes 2 w)\<rparr>"
  have st: "store16 a w s = (Inr (), ?s)"
    using kwin_store [OF Cons(2), of a "le_bytes 2 w"] in_win_sub [OF Cons(3), of 0 2]
    by (simp add: store16_def)
  have k: "kwin_at T F ?s"
    using kmap_pwrite [OF Cons(2), of ?p "le_bytes 2 w"] off_tables_sub [OF Cons(4), of 0 2] by simp
  show ?case
  proof (cases "ws = []")
    case True
    then show ?thesis using st by (simp add: monad cell_bytes_def)
  next
    case False
    have p2: "a + 2 - KERNEL_BASE = ?p + 2" by simp
    have "store_cells (a + 2) ws ?s
        = (Inr (), ?s\<lparr>mem := pwrite (mem ?s) (?p + 2) (cell_bytes ws)\<rparr>)"
      using Cons(1) [OF k, of "a + 2"] in_win_sub [OF Cons(3), of 2 "2 * length ws"]
        off_tables_sub [OF Cons(4), of 2 "2 * length ws"] False by (simp add: p2)
    moreover have "2 * length (w # ws) \<le> 2 ^ 64" using Cons(3) by (simp add: in_win_def)
    ultimately show ?thesis
      using st pwrite_append [of "le_bytes 2 w" "cell_bytes ws" "mem s" ?p]
      by (simp add: monad cell_bytes_Cons)
  qed
qed (simp add: monad cell_bytes_def)

lemma panic_print_cells:
  "panic_print i cs = store_cells (VGA_MEMORY + 2 * of_nat (i + 12 * 80)) (map (vga_cell 0x0F00) (c_string cs))"
  by (induction cs arbitrary: i) (simp_all add: c_string_def algebra_simps)

lemma panic_run:
  assumes "kwin_at T F s" "length (c_string message) \<le> 1040" "off_tables F 0xB8780 (2 * length (c_string message))"
  shows "panic message s = (Inl (Panic message),
     s\<lparr>mem := pwrite (mem s) 0xB8780 (cell_bytes (map (vga_cell 0x0F00) (c_string message)))\<rparr>)"
proof -
  let ?ws = "map (vga_cell 0x0F00) (c_string message)"
  have "in_win (KERNEL_BASE + 0xB8780) (2 * length ?ws)" using assms(2) by (simp add: in_win_def)
  moreover have "panic_print 0 message = store_cells (KERNEL_BASE + 0xB8780) ?ws"
    unfolding panic_print_cells by (simp add: kconst)
  ultimately have "panic_print 0 message s = (Inr (), s\<lparr>mem := pwrite (mem s) 0xB8780 (cell_bytes ?ws)\<rparr>)"
    using kwin_store_cells [OF assms(1), of "KERNEL_BASE + 0xB8780" ?ws] assms(3) by simp
  then show ?thesis by (simp add: panic_def monad)
qed

section \<open>Filling and copying memory\<close>

lemma memset_mapped:
  assumes mapped: "\<And>m. I m \<Longrightarrow> mapped (s\<lparr>mem := m\<rparr>) dest n p"
    and keep: "\<And>m j b. I m \<Longrightarrow> j < n \<Longrightarrow> I (m(p + of_nat j := b))"
    and init: "I (mem s)" and n: "unat count = n"
  shows "memset dest c count s
       = (Inr dest, s\<lparr>mem := pwrite (mem s) p (replicate n (ucast c))\<rparr>)
     \<and> I (pwrite (mem s) p (replicate n (ucast c)))"
proof -
  let ?P = "\<lambda>j t. t = s\<lparr>mem := pwrite (mem s) p (replicate j (ucast c))\<rparr> \<and> I (mem t)"
  have "\<exists>t. for_up 0 count (\<lambda>i. store8 (dest + i) (ucast c)) s = (Inr (), t) \<and> ?P (unat count) t"
  proof (rule for_up_rule)
    show "?P (unat (0 :: u64)) s" using init by simp
    fix j t assume "j < unat count" and P: "?P j t"
    then have j: "j < n" "j < 2 ^ 64" using n u64_bound [of count] by auto
    have "t = s\<lparr>mem := mem t\<rparr>" using P by (metis machine.surjective machine.update_convs(1))
    then have "mapped t dest n p" using mapped [of "mem t"] P by metis
    moreover have "pwrite (mem s) p (replicate (Suc j) b)
        = (pwrite (mem s) p (replicate j b))(p + of_nat j := b)" for b
      using pwrite_snoc [of "replicate j b" "mem s" p b] j by (simp add: replicate_append_same)
    moreover have "I ((mem t)(p + of_nat j := ucast c))" using P keep j by blast
    ultimately show "\<exists>t'. store8 (dest + of_nat j) (ucast c) t = (Inr (), t') \<and> ?P (Suc j) t'"
      using store8_mapped [of t dest n p j] P j by (simp del: replicate_Suc)
  qed simp
  then show ?thesis by (auto simp: memset_def monad n)
qed

lemma memcpy_loop_step:
  "i < unat count \<Longrightarrow> i < 2 ^ 31 - 1 \<Longrightarrow> load8 (sp + of_nat i) s = (Inr b, s) \<Longrightarrow>
   store8 (d + of_nat i) b s = (Inr (), t) \<Longrightarrow>
     memcpy_loop i d sp count s = memcpy_loop (Suc i) d sp count t"
  by (subst memcpy_loop.simps) (simp add: monad)

lemma memcpy_loop_mapped:
  assumes mapped: "\<And>m. I m \<Longrightarrow> mapped (s\<lparr>mem := m\<rparr>) dest n p \<and> mapped (s\<lparr>mem := m\<rparr>) src n q"
    and keep: "\<And>m j b. I m \<Longrightarrow> j < n \<Longrightarrow> I (m(p + of_nat j := b))"
    and n: "unat count = n" "n < 2 ^ 31" and apart: "apart p n q n"
  shows "i \<le> n \<Longrightarrow> I (pwrite (mem s) p (take i (pread (mem s) q n))) \<Longrightarrow>
     memcpy_loop i dest src count (s\<lparr>mem := pwrite (mem s) p (take i (pread (mem s) q n))\<rparr>)
       = (Inr (), s\<lparr>mem := pwrite (mem s) p (pread (mem s) q n)\<rparr>)
     \<and> I (pwrite (mem s) p (pread (mem s) q n))"
proof (induction "n - i" arbitrary: i)
  case 0
  then show ?case using n by (subst memcpy_loop.simps) simp
next
  case (Suc k)
  let ?bs = "pread (mem s) q n" and ?b = "mem s (q + of_nat i)"
  let ?m = "pwrite (mem s) p (take i ?bs)"
  have i: "i < n" using Suc.hyps(2) by simp
  have m': "pwrite (mem s) p (take (Suc i) ?bs) = ?m(p + of_nat i := ?b)"
    using pwrite_snoc [of "take i ?bs" "mem s" p ?b] i n
    by (simp add: take_Suc_conv_app_nth)
  have "i \<le> unat (q + of_nat i - p)" using apart_outside [OF apart i] i by simp
  then have rd: "?m (q + of_nat i) = ?b" using i by (simp add: pwrite_outside)
  have "memcpy_loop i dest src count (s\<lparr>mem := ?m\<rparr>)
      = memcpy_loop (Suc i) dest src count (s\<lparr>mem := ?m(p + of_nat i := ?b)\<rparr>)"
    using mapped [OF Suc.prems(2)] i n rd
      load8_mapped [of "s\<lparr>mem := ?m\<rparr>" src n q i] store8_mapped [of "s\<lparr>mem := ?m\<rparr>" dest n p i]
    by (intro memcpy_loop_step) auto
  moreover have "I (pwrite (mem s) p (take (Suc i) ?bs))"
    using keep [OF Suc.prems(2) i] m' by simp
  ultimately show ?case using Suc.hyps(1) [of "Suc i"] Suc.hyps(2) i m' by simp
qed

lemma memcpy_mapped:
  assumes "\<And>m. I m \<Longrightarrow> mapped (s\<lparr>mem := m\<rparr>) dest n p \<and> mapped (s\<lparr>mem := m\<rparr>) src n q"
    and "\<And>m j b. I m \<Longrightarrow> j < n \<Longrightarrow> I (m(p + of_nat j := b))"
    and "I (mem s)" "unat count = n" "n < 2 ^ 31" "apart p n q n"
  shows "memcpy dest src count s = (Inr dest, s\<lparr>mem := pwrite (mem s) p (pread (mem s) q n)\<rparr>)
     \<and> I (pwrite (mem s) p (pread (mem s) q n))"
  using memcpy_loop_mapped [where I = I and i = 0, OF assms(1,2,4,5,6)] assms(3)
  by (simp add: memcpy_def monad)

section \<open>Inside the kernel window\<close>

text \<open>Single bytes of a range that is off the window's tables.\<close>

lemma off_tables_byte:
  "off_tables F p n \<Longrightarrow> i < n \<Longrightarrow> off_tables F (p + of_nat i) 1"
  unfolding off_tables_def using apart_sub [where i = i and n' = 1 and j = 0] by fastforce

lemma kmap_byte:
  "kmap F m root ktop \<Longrightarrow> off_tables F p n \<Longrightarrow> i < n \<Longrightarrow> kmap F (m(p + of_nat i := b)) root ktop"
  using kmap_pwrite [of F m root ktop "p + of_nat i" "[b]"] off_tables_byte [of F p n i]
  by (simp add: pwrite_single)

lemma kwin_memset:
  assumes "kwin_at T F s" "in_win dest (unat count)" "off_tables F (dest - KERNEL_BASE) (unat count)"
  shows "memset dest c count s = (Inr dest,
     s\<lparr>mem := pwrite (mem s) (dest - KERNEL_BASE) (replicate (unat count) (ucast c))\<rparr>)"
proof -
  let ?I = "\<lambda>m. kmap F m (cr3 s) T"
  have "mapped (s\<lparr>mem := m\<rparr>) dest (unat count) (dest - KERNEL_BASE)" if "?I m" for m
    using that assms(2) by (intro kwin_mapped [of F _ T]) auto
  with memset_mapped [where I = ?I and n = "unat count"] kmap_byte assms show ?thesis by blast
qed

lemma kwin_memcpy:
  assumes "kwin_at T F s" "in_win dest (unat count)" "in_win src (unat count)" "unat count < 2 ^ 31"
    and "off_tables F (dest - KERNEL_BASE) (unat count)" "apart dest (unat count) src (unat count)"
  shows "memcpy dest src count s = (Inr dest,
     s\<lparr>mem := pwrite (mem s) (dest - KERNEL_BASE) (pread (mem s) (src - KERNEL_BASE) (unat count))\<rparr>)"
proof -
  let ?I = "\<lambda>m. kmap F m (cr3 s) T"
  have "mapped (s\<lparr>mem := m\<rparr>) dest (unat count) (dest - KERNEL_BASE)
      \<and> mapped (s\<lparr>mem := m\<rparr>) src (unat count) (src - KERNEL_BASE)" if "?I m" for m
    using that assms(2,3) by (intro conjI kwin_mapped [of F _ T]) auto
  moreover have "apart (dest - KERNEL_BASE) (unat count) (src - KERNEL_BASE) (unat count)"
    using assms(6) by (simp add: apart_def)
  ultimately show ?thesis
    using memcpy_mapped [where I = ?I and n = "unat count"] kmap_byte assms by blast
qed

section \<open>Allocators of fresh pages\<close>

text \<open>The contract of an allocator: what it hands out was not in use and is in use afterwards,
  and a refusal changes nothing in use. A client that allocates \<open>n\<close> times in a row, stopping at
  the first refusal, gets distinct pages.\<close>

fun alloc_many :: "('s \<Rightarrow> 'a option \<times> 's) \<Rightarrow> nat \<Rightarrow> 's \<Rightarrow> 'a list \<times> 's" where
  "alloc_many alloc 0 s = ([], s)"
| "alloc_many alloc (Suc n) s =
     (case alloc s of
        (None, t) \<Rightarrow> ([], t)
      | (Some a, t) \<Rightarrow> (let (as, u) = alloc_many alloc n t in (a # as, u)))"

locale fresh_allocator =
  fixes alloc :: "'s \<Rightarrow> 'a option \<times> 's"
    and used :: "'s \<Rightarrow> 'a set"
    and invar :: "'s \<Rightarrow> bool"
  assumes alloc_some: "invar s \<Longrightarrow> alloc s = (Some a, t) \<Longrightarrow> a \<notin> used s \<and> used t = insert a (used s)"
    and alloc_none: "invar s \<Longrightarrow> alloc s = (None, t) \<Longrightarrow> used t = used s"
    and alloc_invar: "invar s \<Longrightarrow> alloc s = (r, t) \<Longrightarrow> invar t"
begin

lemma alloc_many_fresh:
  "invar s \<Longrightarrow> alloc_many alloc n s = (as, t) \<Longrightarrow>
     distinct as \<and> set as \<inter> used s = {} \<and> used t = used s \<union> set as \<and> invar t"
proof (induction n arbitrary: s as t)
  case 0
  then show ?case by simp
next
  case (Suc n)
  show ?case
  proof (cases "alloc s")
    case (Pair r u)
    show ?thesis
    proof (cases r)
      case None
      with Pair Suc.prems show ?thesis using alloc_none [of s u] alloc_invar [of s r u] by auto
    next
      case (Some a)
      obtain bs where bs: "alloc_many alloc n u = (bs, t)" "as = a # bs"
        using Pair Some Suc.prems(2) by (auto split: prod.splits)
      have "invar u" "a \<notin> used s" "used u = insert a (used s)"
        using Pair Some Suc.prems(1) alloc_some [of s a u] alloc_invar [of s r u] by auto
      with Suc.IH [OF _ bs(1)] bs(2) show ?thesis by auto
    qed
  qed
qed

end

text \<open>The callers of an allocator of the kernel test its result against the null pointer.\<close>

definition try_alloc :: "u64 kern \<Rightarrow> machine \<Rightarrow> u64 option \<times> machine" where
  "try_alloc f s =
     (case f s of (Inl _, t) \<Rightarrow> (None, t)
                | (Inr p, t) \<Rightarrow> (if p = 0 then None else Some p, t))"

text \<open>The pages of the pool that are handed out, and the invariant of the pool pointer.\<close>

definition pool_used :: "machine \<Rightarrow> u64 set" where
  "pool_used s = {p. page_aligned p \<and> POOL_START \<le> p \<and> p < next_free s}"

definition pool_ok :: "machine \<Rightarrow> bool" where
  "pool_ok s \<longleftrightarrow> page_aligned (next_free s) \<and> POOL_START \<le> next_free s \<and> next_free s < POOL_END"

lemma pool_ok_unat:
  "pool_ok s \<longleftrightarrow> unat (next_free s) mod 4096 = 0 \<and> 0xFFFFFFFF80020000 \<le> unat (next_free s)
     \<and> unat (next_free s) < 0xFFFFFFFF801FF000"
  by (simp add: pool_ok_def page_aligned_iff kconst word_le_nat_alt word_less_nat_alt)

lemma next_free_add:
  "pool_ok s \<Longrightarrow> unat (next_free s + PAGE_SIZE) = unat (next_free s) + 4096"
  using unat_add_of_nat [of "next_free s" 4096] by (simp add: pool_ok_unat kconst)

lemma alloc_page_full_iff:
  "pool_ok s \<Longrightarrow> POOL_END \<le> next_free s + PAGE_SIZE \<longleftrightarrow> 0xFFFFFFFF801FF000 \<le> unat (next_free s) + 4096"
  by (simp add: word_le_nat_alt next_free_add) (simp add: kconst)

lemma aligned_less_add:
  "x mod 4096 = 0 \<Longrightarrow> y mod 4096 = 0 \<Longrightarrow> x < y + 4096 \<longleftrightarrow> x = y \<or> x < y" for x y :: nat
proof -
  assume "x mod 4096 = 0" "y mod 4096 = 0"
  then obtain k l where "x = 4096 * k" "y = 4096 * l" by (auto elim!: dvdE simp: mod_eq_0_iff_dvd)
  then show ?thesis by auto
qed

lemma pool_used_advance:
  assumes "pool_ok s"
  shows "pool_used (s\<lparr>next_free := next_free s + PAGE_SIZE\<rparr>) = insert (next_free s) (pool_used s)"
proof -
  have "unat p < unat (next_free s) + 4096 \<longleftrightarrow> p = next_free s \<or> unat p < unat (next_free s)"
    if "page_aligned p" for p
    using that assms aligned_less_add [of "unat p" "unat (next_free s)"]
    by (simp add: page_aligned_iff pool_ok_unat word_unat_eq_iff)
  then show ?thesis using assms
    by (auto simp: pool_used_def word_less_nat_alt next_free_add pool_ok_def)
qed

lemma alloc_page_pool_ok:
  assumes "pool_ok s" "\<not> POOL_END \<le> next_free s + PAGE_SIZE"
  shows "pool_ok (s\<lparr>next_free := next_free s + PAGE_SIZE\<rparr>)"
  using assms by (simp add: alloc_page_full_iff) (simp add: pool_ok_unat next_free_add)

lemma pool_ok_nonnull: "pool_ok s \<Longrightarrow> next_free s \<noteq> 0"
  by (auto simp: pool_ok_unat)

interpretation pool: fresh_allocator "try_alloc alloc_page" pool_used pool_ok
proof
  fix s a t assume ok: "pool_ok s" and a: "try_alloc alloc_page s = (Some a, t)"
  then have "t = s\<lparr>next_free := next_free s + PAGE_SIZE\<rparr>" "a = next_free s"
    by (auto simp: try_alloc_def alloc_page_def split: if_splits)
  then show "a \<notin> pool_used s \<and> pool_used t = insert a (pool_used s)"
    using pool_used_advance [OF ok] by (simp add: pool_used_def)
next
  fix s t assume "pool_ok s" "try_alloc alloc_page s = (None, t)"
  then show "pool_used t = pool_used s"
    by (auto simp: try_alloc_def alloc_page_def pool_ok_unat unat_eq_0 split: if_splits)
next
  fix s r t assume "pool_ok s" "try_alloc alloc_page s = (r, t)"
  then show "pool_ok t"
    using pool_ok_nonnull [of s]
    by (auto simp: try_alloc_def alloc_page_def alloc_page_pool_ok split: if_splits)
qed

section \<open>Properties\<close>

lemma alloc_page_range:
  "pool_ok s \<Longrightarrow> try_alloc alloc_page s = (Some p, t) \<Longrightarrow>
     page_aligned p \<and> POOL_START \<le> p \<and> unat p + 4096 < unat POOL_END"
  using alloc_page_full_iff [of s]
  by (auto simp: try_alloc_def alloc_page_def pool_ok_def kconst split: if_splits)

lemma alloc_page_many_range:
  "pool_ok s \<Longrightarrow> alloc_many (try_alloc alloc_page) n s = (ps, t) \<Longrightarrow> p \<in> set ps \<Longrightarrow>
     page_aligned p \<and> POOL_START \<le> p \<and> unat p + 4096 < unat POOL_END"
proof (induction n arbitrary: s ps)
  case 0
  then show ?case by simp
next
  case (Suc n)
  then obtain r u where a: "try_alloc alloc_page s = (r, u)" by fastforce
  note u = pool.alloc_invar [OF Suc.prems(1) a]
  show ?case
  proof (cases r)
    case None
    with a Suc.prems show ?thesis by auto
  next
    case (Some x)
    with a Suc.prems(2) obtain bs where "alloc_many (try_alloc alloc_page) n u = (bs, t)" "ps = x # bs"
      by (auto split: prod.splits)
    with Suc.IH [OF u] Suc.prems(1,3) alloc_page_range [of s x u] a Some show ?thesis by auto
  qed
qed

text \<open>C36: however many pages the boot code takes from the bootstrap pool, the pages that
  \<open>alloc_page\<close> hands out are distinct, page-aligned, not handed out before and inside the pool,
  and the pool pointer stays well formed.\<close>

theorem alloc_page_fresh:
  assumes "pool_ok s" "alloc_many (try_alloc alloc_page) n s = (ps, t)"
  shows "distinct ps \<and> set ps \<inter> pool_used s = {} \<and> pool_used t = pool_used s \<union> set ps \<and> pool_ok t
    \<and> (\<forall>p\<in>set ps. page_aligned p \<and> POOL_START \<le> p \<and> unat p + 4096 < unat POOL_END)"
  using pool.alloc_many_fresh [OF assms] alloc_page_many_range [OF assms] by blast

lemma boot_pool_ok: "pool_ok boot_machine"
  by (simp add: pool_ok_unat boot_machine_def)

theorem alloc_page_fresh_witness:
  "pool_ok boot_machine
   \<and> distinct (fst (alloc_many (try_alloc alloc_page) 3 boot_machine))
   \<and> fst (alloc_many (try_alloc alloc_page) 3 boot_machine)
       = [0xFFFFFFFF80027000, 0xFFFFFFFF80028000, 0xFFFFFFFF80029000]"
proof -
  have "fst (alloc_many (try_alloc alloc_page) 3 boot_machine)
      = [0xFFFFFFFF80027000, 0xFFFFFFFF80028000, 0xFFFFFFFF80029000]"
    by (simp add: numeral_3_eq_3 try_alloc_def alloc_page_def boot_machine_def kconst)
  moreover have "distinct (fst (alloc_many (try_alloc alloc_page) 3 boot_machine))"
    using alloc_page_fresh [OF boot_pool_ok surjective_pairing] by blast
  ultimately show ?thesis using boot_pool_ok by blast
qed

text \<open>C37: filling and copying memory in the kernel window is exactly the byte-wise update: \<open>memset\<close>
  writes \<open>count\<close> copies of the low byte of its argument and \<open>memcpy\<close> the bytes of the source,
  neither faults, and no other byte of memory and no other part of the state changes.\<close>

theorem memcpy_memset_window:
  assumes "kwin F s" "in_win dest (unat count)" "off_tables F (dest - KERNEL_BASE) (unat count)"
    and "in_win src (unat count)" "unat count < 2 ^ 31" "apart dest (unat count) src (unat count)"
  shows "memset dest c count s = (Inr dest, s\<lparr>mem :=
       pwrite (mem s) (dest - KERNEL_BASE) (replicate (unat count) (ucast c))\<rparr>)
    \<and> memcpy dest src count s = (Inr dest, s\<lparr>mem :=
       pwrite (mem s) (dest - KERNEL_BASE) (pread (mem s) (src - KERNEL_BASE) (unat count))\<rparr>)"
  using kwin_memset [OF assms(1-3)] kwin_memcpy [OF assms(1,2,4,5,3,6)] by blast

theorem memcpy_memset_window_witness:
  "memset 0xFFFFFFFF80030000 7 2 boot_machine = (Inr 0xFFFFFFFF80030000, boot_machine\<lparr>mem :=
       pwrite (mem boot_machine) 0x30000 [7, 7]\<rparr>)
   \<and> memcpy 0xFFFFFFFF80030000 0xFFFFFFFF80026000 2 boot_machine = (Inr 0xFFFFFFFF80030000,
       boot_machine\<lparr>mem := pwrite (mem boot_machine) 0x30000 [0xFF, 0xFF]\<rparr>)"
proof -
  have "pread (mem boot_machine) 0x26000 2 = [0xFF, 0xFF]"
    by (simp add: pread_def boot_machine_def pwrite_def numeral_2_eq_2)
  moreover have "replicate 2 (7 :: u8) = [7, 7]" by (simp add: numeral_2_eq_2)
  moreover have "in_win 0xFFFFFFFF80030000 (unat (2 :: u64))" "in_win 0xFFFFFFFF80026000 (unat (2 :: u64))"
    "apart 0xFFFFFFFF80030000 (unat (2 :: u64)) 0xFFFFFFFF80026000 (unat (2 :: u64))"
    by (simp_all add: in_win_def apart_def kconst)
  moreover have "off_tables boot_frames (0xFFFFFFFF80030000 - KERNEL_BASE) (unat (2 :: u64))"
    by (rule boot_off_tables) (simp_all add: kconst)
  ultimately show ?thesis
    using memcpy_memset_window [OF boot_kwin, of "0xFFFFFFFF80030000" 2 "0xFFFFFFFF80026000" 7]
    by (simp add: KERNEL_BASE_def)
qed

text \<open>A model-specific register holds what was last written to it: \<open>write_msr\<close> splits the value
  over two 32-bit registers and \<open>read_msr\<close> puts it together again, and writing one register
  leaves every other one alone.\<close>

lemma msr_roundtrip:
  "read_msr r (snd (write_msr q v s)) = (Inr (if r = q then v else msr s r), s\<lparr>msr := (msr s)(q := v)\<rparr>)"
  by (simp add: write_msr_run read_msr_run)

end
