(* ===== verification/Pmm.thy ===== *)
theory Pmm
  imports Utils
begin

text \<open>
  The physical memory manager, \<open>pmm.c\<close>: a bitmap with one bit per 4 KiB frame, kept in the kernel
  window at \<open>mem_bitmap\<close>. \<open>pmm_init\<close> builds it from the memory map of the firmware,
  \<open>pmm_alloc\<close> takes the first free frame and \<open>pmm_free\<close> gives one back.
\<close>

section \<open>Operations\<close>

text \<open>The byte of the bitmap that holds the bit of a page and the mask of that bit.\<close>

definition bit_mask :: "u64 \<Rightarrow> u8" where
  "bit_mask i = push_bit (unat (i mod 8)) 1"

definition bitmap_mark :: "u64 \<Rightarrow> unit kern" where
  "bitmap_mark i =
     bind (gets mem_bitmap) (\<lambda>bm.
     bind (load8 (bm + i div 8)) (\<lambda>b.
     store8 (bm + i div 8) (b OR bit_mask i)))"

definition bitmap_clear :: "u64 \<Rightarrow> unit kern" where
  "bitmap_clear i =
     bind (gets mem_bitmap) (\<lambda>bm.
     bind (load8 (bm + i div 8)) (\<lambda>b.
     store8 (bm + i div 8) (b AND NOT (bit_mask i))))"

text \<open>The first loop of \<open>pmm_init\<close>: the end of the last usable range and the usable total. An entry
  of the map has the base at offset 0, the length at 8 and the type at 16 of its 24 bytes.\<close>

definition mmap_scan :: "u64 \<Rightarrow> u64 \<Rightarrow> u64 \<times> u64 \<Rightarrow> (u64 \<times> u64) kern" where
  "mmap_scan mmap i = (\<lambda>(last_usable_end, usable_ram).
     let entry = mmap + 24 * i in
     bind (load32 (entry + 16)) (\<lambda>typ.
     if typ = 1
     then bind (load64 entry) (\<lambda>base.
          bind (load64 (entry + 8)) (\<lambda>leng.
          let end = base + leng in
          ret (if last_usable_end < end then end else last_usable_end, usable_ram + leng)))
     else ret (last_usable_end, usable_ram)))"

text \<open>One iteration of the loop that marks usable memory as free.\<close>

definition mmap_release :: "u64 \<Rightarrow> u64 \<Rightarrow> u64 \<Rightarrow> unit kern" where
  "mmap_release mmap last_usable_end i =
     (let entry = mmap + 24 * i in
      bind (load32 (entry + 16)) (\<lambda>typ.
      if typ \<noteq> 1 then ret ()
      else bind (load64 entry) (\<lambda>base.
           if last_usable_end < base then ret ()
           else bind (load64 (entry + 8)) (\<lambda>leng.
                for_up ((base + PAGE_SIZE - 1) div PAGE_SIZE)
                  ((base + leng + PAGE_SIZE - 1) div PAGE_SIZE) bitmap_clear))))"

definition pmm_init :: "u64 \<Rightarrow> u64 \<Rightarrow> unit kern" where
  "pmm_init mmap mmap_count =
     bind (for_acc 0 mmap_count (mmap_scan mmap) (0, 0)) (\<lambda>(last_usable_end, usable_ram).
     let num_pages = (last_usable_end + PAGE_SIZE - 1) div PAGE_SIZE;
         bitmap_size = (num_pages + 7) div 8;
         page_count = (bitmap_size + PAGE_SIZE - 1) div PAGE_SIZE
     in
     andthen (modify (\<lambda>s. s\<lparr>mem_bitmap_size := bitmap_size, mem_bitmap_bit_size := num_pages\<rparr>)) (
     bind alloc_page (\<lambda>p.
     andthen (modify (\<lambda>s. s\<lparr>mem_bitmap := p\<rparr>)) (
     andthen (for_up 0 (page_count - 1) (\<lambda>_. andthen alloc_page (ret ()))) (
     andthen (memset p 0xFF bitmap_size) (
     andthen (for_up 0 mmap_count (mmap_release mmap last_usable_end)) (
     for_up 0 ((KERNEL_END - KERNEL_BASE + PAGE_SIZE - 1) div PAGE_SIZE) bitmap_mark)))))))"

text \<open>The search loop of \<open>pmm_alloc\<close> from page \<open>i\<close> on.\<close>

function pmm_scan :: "u64 \<Rightarrow> u64 kern" where
  "pmm_scan i s =
     (if i < mem_bitmap_bit_size s
      then (case load8 (mem_bitmap s + i div 8) s of
              (Inl e, s') \<Rightarrow> (Inl e, s')
            | (Inr b, s') \<Rightarrow>
                if b AND bit_mask i = 0
                then andthen (bitmap_mark i) (ret (i * PAGE_SIZE)) s'
                else pmm_scan (i + 1) s')
      else (Inr 0, s))"
  by pat_completeness auto
termination
  by (relation "measure (\<lambda>(i, s). unat (mem_bitmap_bit_size s) - unat i)")
    (auto simp: unat_Suc_less word_less_nat_alt dest!: load8_state [OF sym])

declare pmm_scan.simps [simp del]

definition pmm_alloc :: "u64 kern" where
  "pmm_alloc = pmm_scan 0"

definition pmm_free :: "u64 \<Rightarrow> unit kern" where
  "pmm_free block =
     (let page_index = block div PAGE_SIZE in
      bind (gets mem_bitmap_bit_size) (\<lambda>n.
      if n \<le> page_index then ret () else bitmap_clear page_index))"

section \<open>The bitmap as a set of frames\<close>

text \<open>The physical address of the bitmap, the bit of frame number \<open>i\<close>, and the invariant: the
  bitmap lies in the window, off the tables that map it, and has a bit for every frame it counts.\<close>

definition bm_base :: "machine \<Rightarrow> u64" where
  "bm_base s = mem_bitmap s - KERNEL_BASE"

definition frame_bit :: "pmem \<Rightarrow> u64 \<Rightarrow> nat \<Rightarrow> bool" where
  "frame_bit m p i \<longleftrightarrow> bit (m (p + of_nat (i div 8))) (i mod 8)"

definition bitmap_ok :: "kframes \<Rightarrow> machine \<Rightarrow> bool" where
  "bitmap_ok F s \<longleftrightarrow>
     kwin F s \<and> in_win (mem_bitmap s) (unat (mem_bitmap_size s)) \<and>
     off_tables F (bm_base s) (unat (mem_bitmap_size s)) \<and>
     unat (mem_bitmap_bit_size s) \<le> 8 * unat (mem_bitmap_size s)"

lemma unat_div8: "unat (of_nat i div 8 :: u64) = i div 8" if "i < 2 ^ 64"
  using that by (simp add: unat_div_distrib)

lemma div8_of_nat: "i < 2 ^ 64 \<Longrightarrow> (of_nat i div 8 :: u64) = of_nat (i div 8)"
  by (simp add: word_unat_eq_iff unat_div8)

lemma bit_mask_of_nat: "i < 2 ^ 64 \<Longrightarrow> bit_mask (of_nat i) = push_bit (i mod 8) 1"
  by (simp add: bit_mask_def unat_mod_distrib)

lemma and_bit_mask: "b AND 2 ^ k = 0 \<longleftrightarrow> \<not> bit b k" if "k < 8" for b :: u8
proof
  assume "b AND 2 ^ k = 0"
  then have "\<not> bit (b AND 2 ^ k) k" by simp
  then show "\<not> bit b k" using that by (simp add: bit_simps)
next
  assume "\<not> bit b k"
  then show "b AND 2 ^ k = 0"
    by (intro bit_word_eqI) (auto simp: bit_simps)
qed

definition set_frame :: "pmem \<Rightarrow> u64 \<Rightarrow> nat \<Rightarrow> pmem" where
  "set_frame m p i = m(p + of_nat (i div 8) := m (p + of_nat (i div 8)) OR push_bit (i mod 8) 1)"

definition clear_frame :: "pmem \<Rightarrow> u64 \<Rightarrow> nat \<Rightarrow> pmem" where
  "clear_frame m p i =
     m(p + of_nat (i div 8) := m (p + of_nat (i div 8)) AND NOT (push_bit (i mod 8) 1))"

lemma byte_index_eq:
  "i < 2 ^ 64 \<Longrightarrow> j < 2 ^ 64 \<Longrightarrow> (of_nat (i div 8) :: u64) = of_nat (j div 8) \<longleftrightarrow> i div 8 = j div 8"
  by (simp add: word_of_nat_eq_iff take_bit_nat_eq_self)

lemma same_byte: "i div 8 = j div 8 \<Longrightarrow> j mod 8 = i mod 8 \<longleftrightarrow> j = i" for i j :: nat
  by (metis div_mult_mod_eq)

lemma frame_bit_set_frame:
  assumes "i < 2 ^ 64" "j < 2 ^ 64"
  shows "frame_bit (set_frame m p i) p j \<longleftrightarrow> j = i \<or> frame_bit m p j"
proof (cases "i div 8 = j div 8")
  case True
  then show ?thesis using same_byte [OF True]
    by (auto simp: frame_bit_def set_frame_def bit_simps)
next
  case False
  then show ?thesis using byte_index_eq [OF assms]
    by (auto simp: frame_bit_def set_frame_def)
qed

lemma frame_bit_clear_frame:
  assumes "i < 2 ^ 64" "j < 2 ^ 64"
  shows "frame_bit (clear_frame m p i) p j \<longleftrightarrow> j \<noteq> i \<and> frame_bit m p j"
proof (cases "i div 8 = j div 8")
  case True
  then show ?thesis using same_byte [OF True]
    by (auto simp: frame_bit_def clear_frame_def bit_simps)
next
  case False
  then show ?thesis using byte_index_eq [OF assms]
    by (auto simp: frame_bit_def clear_frame_def)
qed

lemma bitmap_ok_bound:
  assumes "bitmap_ok F s"
  shows "unat (mem_bitmap_size s) \<le> 0x1FF000" "unat (mem_bitmap_bit_size s) \<le> 0xFF8000"
  using assms by (auto simp: bitmap_ok_def in_win_def)

lemma bitmap_ok_byte:
  assumes "bitmap_ok F s" "i < 8 * unat (mem_bitmap_size s)"
  shows "mem_bitmap s + of_nat (i div 8) - KERNEL_BASE = bm_base s + of_nat (i div 8)"
    and "i < 2 ^ 64"
    and "load8 (mem_bitmap s + of_nat (i div 8)) s = (Inr (mem s (bm_base s + of_nat (i div 8))), s)"
    and "store8 (mem_bitmap s + of_nat (i div 8)) v s
         = (Inr (), s\<lparr>mem := (mem s)(bm_base s + of_nat (i div 8) := v)\<rparr>)"
proof -
  have lt: "i div 8 < unat (mem_bitmap_size s)" using assms(2) by (simp add: less_mult_imp_div_less mult.commute)
  show "mem_bitmap s + of_nat (i div 8) - KERNEL_BASE = bm_base s + of_nat (i div 8)"
    by (simp add: bm_base_def)
  show "i < 2 ^ 64" using assms(2) bitmap_ok_bound [OF assms(1)] by simp
  have map: "mapped s (mem_bitmap s) (unat (mem_bitmap_size s)) (bm_base s)"
    using assms(1) unfolding bitmap_ok_def bm_base_def by (blast intro: kwin_mapped)
  show "load8 (mem_bitmap s + of_nat (i div 8)) s = (Inr (mem s (bm_base s + of_nat (i div 8))), s)"
    by (rule load8_mapped [OF map lt])
  show "store8 (mem_bitmap s + of_nat (i div 8)) v s
         = (Inr (), s\<lparr>mem := (mem s)(bm_base s + of_nat (i div 8) := v)\<rparr>)"
    by (rule store8_mapped [OF map lt])
qed

lemma bitmap_ok_upd:
  assumes "bitmap_ok F s" "i < 8 * unat (mem_bitmap_size s)"
  shows "bitmap_ok F (s\<lparr>mem := (mem s)(bm_base s + of_nat (i div 8) := v)\<rparr>)"
proof -
  have "i div 8 < unat (mem_bitmap_size s)" using assms(2) by (simp add: less_mult_imp_div_less mult.commute)
  with assms(1) show ?thesis by (auto simp: bitmap_ok_def bm_base_def intro: kmap_byte)
qed

lemma bitmap_ok_frames:
  assumes "bitmap_ok F s" "i < 8 * unat (mem_bitmap_size s)"
  shows "bitmap_ok F (s\<lparr>mem := set_frame (mem s) (bm_base s) i\<rparr>)"
    and "bitmap_ok F (s\<lparr>mem := clear_frame (mem s) (bm_base s) i\<rparr>)"
  using bitmap_ok_upd [OF assms] by (simp_all add: set_frame_def clear_frame_def)

lemma set_frame_outside:
  assumes "j < 8 * n" "n \<le> unat (x - p)"
  shows "set_frame m p j x = m x" "clear_frame m p j x = m x"
proof -
  have "j div 8 < n" using assms(1) by (simp add: less_mult_imp_div_less mult.commute)
  moreover have "unat (of_nat (j div 8) :: u64) \<le> j div 8" by (simp add: unat_of_nat)
  ultimately have "x \<noteq> p + of_nat (j div 8)" using assms(2) by auto
  then show "set_frame m p j x = m x" "clear_frame m p j x = m x"
    by (simp_all add: set_frame_def clear_frame_def)
qed

lemma bitmap_mark_run:
  assumes "bitmap_ok F s" "i < 8 * unat (mem_bitmap_size s)"
  shows "bitmap_mark (of_nat i) s = (Inr (), s\<lparr>mem := set_frame (mem s) (bm_base s) i\<rparr>)"
  using bitmap_ok_byte [OF assms]
  by (simp add: bitmap_mark_def monad div8_of_nat bit_mask_of_nat set_frame_def)

lemma bitmap_clear_run:
  assumes "bitmap_ok F s" "i < 8 * unat (mem_bitmap_size s)"
  shows "bitmap_clear (of_nat i) s = (Inr (), s\<lparr>mem := clear_frame (mem s) (bm_base s) i\<rparr>)"
  using bitmap_ok_byte [OF assms]
  by (simp add: bitmap_clear_def monad div8_of_nat bit_mask_of_nat clear_frame_def)

section \<open>Allocation and release\<close>

definition first_free :: "machine \<Rightarrow> nat \<Rightarrow> nat option" where
  "first_free s i = find (\<lambda>j. \<not> frame_bit (mem s) (bm_base s) j) [i..<unat (mem_bitmap_bit_size s)]"

lemma pmm_scan_run:
  assumes "bitmap_ok F s" "i < 2 ^ 64"
  shows "pmm_scan (of_nat i) s =
     (case first_free s i of
        None \<Rightarrow> (Inr 0, s)
      | Some j \<Rightarrow> (Inr (of_nat j * PAGE_SIZE), s\<lparr>mem := set_frame (mem s) (bm_base s) j\<rparr>))"
  using assms(2)
proof (induction "unat (mem_bitmap_bit_size s) - i" arbitrary: i)
  case 0
  then show ?case
    by (subst pmm_scan.simps) (simp add: first_free_def word_less_nat_alt)
next
  case (Suc k)
  let ?n = "unat (mem_bitmap_bit_size s)"
  have i: "i < ?n" "i < 8 * unat (mem_bitmap_size s)" and n: "?n \<le> 0xFF8000"
    using Suc.hyps(2) assms bitmap_ok_bound [OF assms(1)] by (auto simp: bitmap_ok_def)
  have lt: "(of_nat i :: u64) < mem_bitmap_bit_size s"
    using i(1) Suc.prems by (simp add: word_less_nat_alt)
  have ff: "first_free s i = (if frame_bit (mem s) (bm_base s) i then first_free s (Suc i) else Some i)"
    using i(1) by (simp add: first_free_def upt_conv_Cons)
  note b = bitmap_ok_byte(3) [OF assms(1) i(2)] bitmap_mark_run [OF assms(1) i(2)]
  show ?case
  proof (cases "frame_bit (mem s) (bm_base s) i")
    case True
    then have "pmm_scan (of_nat i) s = pmm_scan (of_nat (Suc i)) s"
      using lt b Suc.prems
      by (subst pmm_scan.simps)
        (simp add: div8_of_nat bit_mask_of_nat and_bit_mask frame_bit_def add.commute)
    with True show ?thesis
      using Suc.hyps(1) [of "Suc i"] Suc.hyps(2) i n by (simp add: ff)
  next
    case False
    then show ?thesis
      using lt b Suc.prems
      by (subst pmm_scan.simps)
        (simp add: ff div8_of_nat bit_mask_of_nat and_bit_mask frame_bit_def monad)
  qed
qed

lemma pmm_alloc_run:
  "bitmap_ok F s \<Longrightarrow> pmm_alloc s =
     (case first_free s 0 of
        None \<Rightarrow> (Inr 0, s)
      | Some j \<Rightarrow> (Inr (of_nat j * PAGE_SIZE), s\<lparr>mem := set_frame (mem s) (bm_base s) j\<rparr>))"
  using pmm_scan_run [of F s 0] by (simp add: pmm_alloc_def)

lemma pmm_free_run:
  assumes "bitmap_ok F s"
  shows "pmm_free block s =
     (if unat block div 4096 < unat (mem_bitmap_bit_size s)
      then (Inr (), s\<lparr>mem := clear_frame (mem s) (bm_base s) (unat block div 4096)\<rparr>)
      else (Inr (), s))"
proof -
  have u: "unat (block div PAGE_SIZE) = unat block div 4096"
    by (simp add: kconst unat_div_distrib)
  have e: "bitmap_clear (block div PAGE_SIZE) = bitmap_clear (of_nat (unat block div 4096))"
    by (simp flip: u)
  have "unat block div 4096 < unat (mem_bitmap_bit_size s) \<Longrightarrow>
      unat block div 4096 < 8 * unat (mem_bitmap_size s)"
    using assms by (simp add: bitmap_ok_def)
  then show ?thesis
    using bitmap_clear_run [OF assms]
    by (auto simp: pmm_free_def Let_def monad word_le_nat_alt u not_le e)
qed

section \<open>The contract of the frame allocator\<close>

text \<open>Frames can be given back: an allocator of fresh pages with a release operation. Releasing
  what a run of allocations handed out restores the set of frames in use.\<close>

locale frame_allocator = fresh_allocator alloc used invar
  for alloc :: "'s \<Rightarrow> 'a option \<times> 's" and used :: "'s \<Rightarrow> 'a set" and invar :: "'s \<Rightarrow> bool" +
  fixes free :: "'a \<Rightarrow> 's \<Rightarrow> 's"
    and allocatable :: "'s \<Rightarrow> 'a set"
  assumes alloc_allocatable: "invar s \<Longrightarrow> alloc s = (Some a, t) \<Longrightarrow> a \<in> allocatable s"
    and alloc_keeps: "invar s \<Longrightarrow> alloc s = (r, t) \<Longrightarrow> allocatable t = allocatable s"
    and free_used: "invar s \<Longrightarrow> a \<in> allocatable s \<Longrightarrow> used (free a s) = used s - {a}"
    and free_keeps: "invar s \<Longrightarrow> a \<in> allocatable s \<Longrightarrow> allocatable (free a s) = allocatable s"
    and free_invar: "invar s \<Longrightarrow> a \<in> allocatable s \<Longrightarrow> invar (free a s)"
begin

lemma alloc_many_allocatable:
  "invar s \<Longrightarrow> alloc_many alloc n s = (as, t) \<Longrightarrow> set as \<subseteq> allocatable s \<and> allocatable t = allocatable s"
proof (induction n arbitrary: s as t)
  case 0
  then show ?case by simp
next
  case (Suc n)
  obtain r u where a: "alloc s = (r, u)" by fastforce
  note keeps = alloc_keeps [OF Suc.prems(1) a] alloc_invar [OF Suc.prems(1) a]
  show ?case
  proof (cases r)
    case None
    with a Suc.prems keeps show ?thesis by auto
  next
    case (Some x)
    obtain bs where bs: "alloc_many alloc n u = (bs, t)" "as = x # bs"
      using a Some Suc.prems(2) by (auto split: prod.splits)
    with Suc.IH [OF keeps(2) bs(1)] keeps alloc_allocatable [of s x u] Suc.prems(1) a Some
    show ?thesis by auto
  qed
qed

lemma free_many:
  "invar s \<Longrightarrow> set as \<subseteq> allocatable s \<Longrightarrow>
     used (fold free as s) = used s - set as \<and> invar (fold free as s)"
proof (induction as arbitrary: s)
  case Nil
  then show ?case by simp
next
  case (Cons a as)
  then show ?case
    using Cons.IH [of "free a s"] free_used [of s a] free_keeps [of s a] free_invar [of s a] by auto
qed

lemma alloc_then_free:
  assumes "invar s" "alloc_many alloc n s = (as, t)"
  shows "used (fold free as t) = used s"
proof -
  have "invar t" "used t = used s \<union> set as" "set as \<inter> used s = {}"
    using alloc_many_fresh [OF assms] by auto
  moreover have "set as \<subseteq> allocatable t" using alloc_many_allocatable [OF assms] by simp
  ultimately show ?thesis using free_many [of t as] by auto
qed

end

text \<open>The frames that \<open>pmm.c\<close> manages, by physical address, those marked in use, and its invariant:
  frame 0, whose address is the null pointer, is always in use.\<close>

definition pmm_frames :: "machine \<Rightarrow> u64 set" where
  "pmm_frames s = {p. page_aligned p \<and> p \<noteq> 0 \<and> unat p div 4096 < unat (mem_bitmap_bit_size s)}"

definition pmm_used :: "machine \<Rightarrow> u64 set" where
  "pmm_used s = {p \<in> pmm_frames s. frame_bit (mem s) (bm_base s) (unat p div 4096)}"

definition pmm_ok :: "kframes \<Rightarrow> machine \<Rightarrow> bool" where
  "pmm_ok F s \<longleftrightarrow> bitmap_ok F s \<and> frame_bit (mem s) (bm_base s) 0"

definition pmm_state :: "machine \<Rightarrow> bool" where
  "pmm_state s \<longleftrightarrow> (\<exists>F. pmm_ok F s)"

definition pmm_release :: "u64 \<Rightarrow> machine \<Rightarrow> machine" where
  "pmm_release p s = snd (pmm_free p s)"

lemma first_free_Some:
  assumes "first_free s 0 = Some j"
  shows "j < unat (mem_bitmap_bit_size s)" "\<not> frame_bit (mem s) (bm_base s) j"
    "\<And>i. i < j \<Longrightarrow> frame_bit (mem s) (bm_base s) i"
proof -
  obtain k where "j = [0..<unat (mem_bitmap_bit_size s)] ! k" "k < unat (mem_bitmap_bit_size s)"
      "\<not> frame_bit (mem s) (bm_base s) j" "\<forall>i<k. frame_bit (mem s) (bm_base s) i"
    using assms by (fastforce simp: first_free_def find_Some_iff)
  then show "j < unat (mem_bitmap_bit_size s)" "\<not> frame_bit (mem s) (bm_base s) j"
    "\<And>i. i < j \<Longrightarrow> frame_bit (mem s) (bm_base s) i" by auto
qed

lemma first_free_None:
  "first_free s 0 = None \<longleftrightarrow>
     (\<forall>j<unat (mem_bitmap_bit_size s). frame_bit (mem s) (bm_base s) j)"
  by (auto simp: first_free_def find_None_iff)

lemma frame_addr:
  assumes "j < 0xFF8000"
  shows "unat (of_nat j * PAGE_SIZE) = j * 4096" "page_aligned (of_nat j * PAGE_SIZE)"
proof -
  have "of_nat j * PAGE_SIZE = (of_nat (j * 4096) :: u64)" by (simp add: kconst)
  then show u: "unat (of_nat j * PAGE_SIZE) = j * 4096" using assms by (simp del: of_nat_mult)
  show "page_aligned (of_nat j * PAGE_SIZE)" by (simp add: page_aligned_iff u)
qed

lemma frame_addr_eq:
  "page_aligned p \<Longrightarrow> j < 0xFF8000 \<Longrightarrow> p = of_nat j * PAGE_SIZE \<longleftrightarrow> unat p div 4096 = j"
  by (auto simp: word_unat_eq_iff frame_addr page_aligned_iff)

lemma first_free_range:
  assumes "pmm_ok F s" "first_free s 0 = Some j"
  shows "j < 0xFF8000" "j < 8 * unat (mem_bitmap_size s)" "j \<noteq> 0"
  using assms first_free_Some [OF assms(2)] bitmap_ok_bound [of F s]
  by (auto simp: pmm_ok_def bitmap_ok_def intro: ccontr)

lemma pmm_alloc_Some:
  assumes "pmm_ok F s" "first_free s 0 = Some j"
  defines "t \<equiv> s\<lparr>mem := set_frame (mem s) (bm_base s) j\<rparr>"
  shows "pmm_alloc s = (Inr (of_nat j * PAGE_SIZE), t)" "of_nat j * PAGE_SIZE \<noteq> (0 :: u64)"
    and "of_nat j * PAGE_SIZE \<in> pmm_frames s - pmm_used s"
    and "pmm_used t = insert (of_nat j * PAGE_SIZE) (pmm_used s)" "pmm_ok F t"
proof -
  note j = first_free_range [OF assms(1,2)] first_free_Some [OF assms(2)]
  have ok: "bitmap_ok F s" using assms(1) by (simp add: pmm_ok_def)
  show "pmm_alloc s = (Inr (of_nat j * PAGE_SIZE), t)"
    using pmm_alloc_run [OF ok] assms(2) by (simp add: t_def)
  have u: "unat (of_nat j * PAGE_SIZE) = j * 4096" by (rule frame_addr [OF j(1)])
  then show nz: "of_nat j * PAGE_SIZE \<noteq> (0 :: u64)" using j(3) by auto
  show fr: "of_nat j * PAGE_SIZE \<in> pmm_frames s - pmm_used s"
    using nz j u frame_addr [OF j(1)] by (simp add: pmm_frames_def pmm_used_def)
  have bits: "frame_bit (mem t) (bm_base t) i \<longleftrightarrow> i = j \<or> frame_bit (mem s) (bm_base s) i"
    if "i < 2 ^ 64" for i
    using that j(1) frame_bit_set_frame [of j i] by (simp add: t_def bm_base_def)
  have frs: "pmm_frames t = pmm_frames s" by (simp add: pmm_frames_def t_def)
  have b: "unat p div 4096 < 2 ^ 64" for p :: u64 using u64_bound [of p] by simp
  have "p \<in> pmm_used t \<longleftrightarrow> p = of_nat j * PAGE_SIZE \<or> p \<in> pmm_used s" for p
  proof (cases "p \<in> pmm_frames s")
    case True
    then have "p = of_nat j * PAGE_SIZE \<longleftrightarrow> unat p div 4096 = j"
      by (intro frame_addr_eq [OF _ j(1)]) (simp add: pmm_frames_def)
    with True show ?thesis by (simp add: pmm_used_def frs bits [OF b])
  next
    case False
    then show ?thesis using fr by (auto simp: pmm_used_def frs)
  qed
  then show "pmm_used t = insert (of_nat j * PAGE_SIZE) (pmm_used s)" by blast
  show "pmm_ok F t"
    using assms(1) bitmap_ok_frames(1) [OF ok j(2)] bits [of 0] by (simp add: pmm_ok_def t_def)
qed

lemma try_alloc_pmm:
  assumes "pmm_ok F s"
  shows "try_alloc pmm_alloc s =
     (case first_free s 0 of
        None \<Rightarrow> (None, s)
      | Some j \<Rightarrow> (Some (of_nat j * PAGE_SIZE), s\<lparr>mem := set_frame (mem s) (bm_base s) j\<rparr>))"
  using assms pmm_alloc_run [of F s] pmm_alloc_Some(2) [OF assms]
  by (auto simp: try_alloc_def pmm_ok_def split: option.splits)

lemma pmm_release_frame:
  assumes "pmm_ok F s" "p \<in> pmm_frames s"
  shows "pmm_used (pmm_release p s) = pmm_used s - {p}" "pmm_ok F (pmm_release p s)"
    "pmm_frames (pmm_release p s) = pmm_frames s"
proof -
  let ?i = "unat p div 4096"
  let ?t = "s\<lparr>mem := clear_frame (mem s) (bm_base s) ?i\<rparr>"
  have ok: "bitmap_ok F s" using assms(1) by (simp add: pmm_ok_def)
  have lt: "?i < unat (mem_bitmap_bit_size s)" "page_aligned p" "p \<noteq> 0"
    using assms(2) by (auto simp: pmm_frames_def)
  have t: "pmm_release p s = ?t" using pmm_free_run [OF ok, of p] lt by (simp add: pmm_release_def)
  show fr: "pmm_frames (pmm_release p s) = pmm_frames s" by (simp add: t pmm_frames_def)
  have nz: "?i \<noteq> 0"
    using lt(2,3) by (auto simp: page_aligned_iff word_unat_eq_iff mod_eq_self_iff_div_eq_0)
  have b: "unat q div 4096 < 2 ^ 64" for q :: u64 using u64_bound [of q] by simp
  have bits: "frame_bit (mem ?t) (bm_base ?t) k \<longleftrightarrow> k \<noteq> ?i \<and> frame_bit (mem s) (bm_base s) k"
    if "k < 2 ^ 64" for k
    using frame_bit_clear_frame [OF b that] by (simp add: bm_base_def)
  have inj: "page_aligned q \<Longrightarrow> unat q div 4096 = ?i \<longleftrightarrow> q = p" for q
    using lt(2) by (auto simp: page_aligned_iff word_unat_eq_iff elim!: dvdE simp: mod_eq_0_iff_dvd)
  show "pmm_used (pmm_release p s) = pmm_used s - {p}"
    using bits [OF b] inj fr by (auto simp: pmm_used_def t pmm_frames_def)
  have "?i < 8 * unat (mem_bitmap_size s)" using lt(1) ok by (simp add: bitmap_ok_def)
  then show "pmm_ok F (pmm_release p s)"
    using assms(1) bitmap_ok_frames(2) [OF ok] bits [of 0] nz by (simp add: pmm_ok_def t)
qed

interpretation pmm: frame_allocator "try_alloc pmm_alloc" pmm_used pmm_state pmm_release pmm_frames
proof
  fix s a t assume "pmm_state s" and a: "try_alloc pmm_alloc s = (Some a, t)"
  then obtain F j where "pmm_ok F s" "first_free s 0 = Some j"
    "a = of_nat j * PAGE_SIZE" "t = s\<lparr>mem := set_frame (mem s) (bm_base s) j\<rparr>"
    by (auto simp: pmm_state_def try_alloc_pmm split: option.splits)
  then show "a \<notin> pmm_used s \<and> pmm_used t = insert a (pmm_used s)" "a \<in> pmm_frames s"
    using pmm_alloc_Some(3,4) by auto
next
  fix s t assume "pmm_state s" "try_alloc pmm_alloc s = (None, t)"
  then show "pmm_used t = pmm_used s"
    by (auto simp: pmm_state_def try_alloc_pmm split: option.splits)
next
  fix s r t assume "pmm_state s" and r: "try_alloc pmm_alloc s = (r, t)"
  then obtain F where F: "pmm_ok F s" by (auto simp: pmm_state_def)
  show "pmm_state t" "pmm_frames t = pmm_frames s"
    using r try_alloc_pmm [OF F] pmm_alloc_Some(5) [OF F] F
    by (auto simp: pmm_state_def pmm_frames_def split: option.splits)
next
  fix s a assume "pmm_state s" and a: "a \<in> pmm_frames s"
  then obtain F where F: "pmm_ok F s" by (auto simp: pmm_state_def)
  note rel = pmm_release_frame [OF F a]
  show "pmm_used (pmm_release a s) = pmm_used s - {a}" by (rule rel)
  show "pmm_frames (pmm_release a s) = pmm_frames s" by (rule rel)
  show "pmm_state (pmm_release a s)" unfolding pmm_state_def using rel(2) by blast
qed

section \<open>The boot state\<close>

lemma boot_bits: "i < 1024 \<Longrightarrow> frame_bit (mem boot_machine) 0x26000 i \<longleftrightarrow> i < 512"
proof -
  assume i: "i < 1024"
  then have "i div 8 < 128" by simp
  then have u: "unat (of_nat (i div 8) :: u64) = i div 8" by simp
  show ?thesis
  proof (cases "i < 512")
    case True
    then have "i div 8 < 64" by simp
    moreover have "bit (0xFF :: u8) (i mod 8)"
    proof -
      have "(0xFF :: u8) = mask 8" by (simp add: mask_eq_exp_minus_1)
      then show ?thesis by (simp only: bit_mask_iff) simp
    qed
    ultimately show ?thesis using True u by (simp add: frame_bit_def boot_machine_def pwrite_def)
  next
    case False
    then have "\<not> i div 8 < 64" by simp
    moreover have "word_mem boot_words (0x26000 + of_nat (i div 8)) = 0"
      using unat_add_of_nat [of "0x26000" "i div 8"] i by (intro boot_mem_high) simp
    ultimately show ?thesis using False u by (simp add: frame_bit_def boot_machine_def pwrite_def)
  qed
qed

lemma boot_bitmap_ok: "bitmap_ok boot_frames boot_machine"
  using boot_kwin boot_off_tables [of "0x26000" 128]
  by (simp add: bitmap_ok_def bm_base_def in_win_def) (simp add: boot_machine_def kconst)

lemma boot_pmm_ok: "pmm_ok boot_frames boot_machine"
  using boot_bitmap_ok boot_bits [of 0]
  by (simp add: pmm_ok_def bm_base_def) (simp add: boot_machine_def kconst)

section \<open>Properties\<close>

text \<open>C32: \<open>pmm_alloc\<close> is first fit: it returns the physical address of the lowest-numbered frame
  whose bit is clear, sets that bit and changes nothing else; when every bit is set it returns the
  null pointer and changes nothing.\<close>

theorem pmm_alloc_first_fit:
  assumes "pmm_ok F s"
  shows "(\<forall>i. i < unat (mem_bitmap_bit_size s) \<longrightarrow> \<not> frame_bit (mem s) (bm_base s) i \<longrightarrow>
            (\<forall>k<i. frame_bit (mem s) (bm_base s) k) \<longrightarrow>
            pmm_alloc s = (Inr (of_nat i * PAGE_SIZE), s\<lparr>mem := set_frame (mem s) (bm_base s) i\<rparr>)
            \<and> of_nat i * PAGE_SIZE \<noteq> (0 :: u64))
       \<and> ((\<forall>i<unat (mem_bitmap_bit_size s). frame_bit (mem s) (bm_base s) i) \<longrightarrow>
            pmm_alloc s = (Inr 0, s))"
proof -
  have ok: "bitmap_ok F s" using assms by (simp add: pmm_ok_def)
  have "first_free s 0 = Some i" if "i < unat (mem_bitmap_bit_size s)"
    "\<not> frame_bit (mem s) (bm_base s) i" "\<forall>k<i. frame_bit (mem s) (bm_base s) k" for i
  proof (cases "first_free s 0")
    case None
    then show ?thesis using that by (simp add: first_free_None)
  next
    case (Some j)
    then show ?thesis using that first_free_Some [OF Some] by (metis linorder_neqE_nat)
  qed
  moreover have "first_free s 0 = None"
    if "\<forall>i<unat (mem_bitmap_bit_size s). frame_bit (mem s) (bm_base s) i"
    using that by (simp add: first_free_None)
  moreover have "first_free s 0 = None \<Longrightarrow> pmm_alloc s = (Inr 0, s)"
    using pmm_alloc_run [OF ok] by simp
  ultimately show ?thesis using pmm_alloc_Some(1,2) [OF assms] by blast
qed

theorem pmm_alloc_first_fit_witness:
  "pmm_alloc boot_machine
     = (Inr 0x200000, boot_machine\<lparr>mem := set_frame (mem boot_machine) 0x26000 512\<rparr>)"
proof -
  have "bm_base boot_machine = 0x26000" "unat (mem_bitmap_bit_size boot_machine) = 1024"
    by (simp_all add: bm_base_def boot_machine_def kconst)
  moreover have "\<forall>k<512. frame_bit (mem boot_machine) 0x26000 k"
    "\<not> frame_bit (mem boot_machine) 0x26000 512" using boot_bits by auto
  ultimately show ?thesis
    using pmm_alloc_first_fit [OF boot_pmm_ok, THEN conjunct1, THEN spec [of _ 512]]
    by (simp add: kconst)
qed

text \<open>C13: the frames that any number of successive calls of \<open>pmm_alloc\<close> hand out are distinct frames
  of the managed memory, none of which was in use, and afterwards exactly these are in use in
  addition; giving all of them back with \<open>pmm_free\<close> restores the set of frames in use.\<close>

theorem pmm_alloc_fresh_and_free:
  assumes "pmm_ok F s" "alloc_many (try_alloc pmm_alloc) n s = (ps, t)"
  shows "distinct ps \<and> set ps \<subseteq> pmm_frames s - pmm_used s \<and> pmm_used t = pmm_used s \<union> set ps
    \<and> pmm_used (fold pmm_release ps t) = pmm_used s"
proof -
  have st: "pmm_state s" using assms(1) by (auto simp: pmm_state_def)
  show ?thesis
    using pmm.alloc_many_fresh [OF st assms(2)] pmm.alloc_many_allocatable [OF st assms(2)]
      pmm.alloc_then_free [OF st assms(2)] by blast
qed

theorem pmm_alloc_fresh_and_free_witness:
  "\<exists>ps t. alloc_many (try_alloc pmm_alloc) 5 boot_machine = (ps, t) \<and> distinct ps
     \<and> pmm_used (fold pmm_release ps t) = pmm_used boot_machine"
  using pmm_alloc_fresh_and_free [OF boot_pmm_ok surjective_pairing] surjective_pairing by blast

text \<open>Releasing the null pointer is not harmless: \<open>pmm_free\<close> clears the bit of frame 0, and the
  next \<open>pmm_alloc\<close> then returns the null pointer, its out-of-memory answer, although frames may
  be free, and takes frame 0 again.\<close>

lemma pmm_free_null:
  assumes "pmm_ok F s" "0 < unat (mem_bitmap_bit_size s)"
  shows "\<exists>t. pmm_free 0 s = (Inr (), t) \<and> \<not> frame_bit (mem t) (bm_base t) 0
    \<and> pmm_alloc t = (Inr 0, t\<lparr>mem := set_frame (mem t) (bm_base t) 0\<rparr>)"
proof -
  let ?t = "s\<lparr>mem := clear_frame (mem s) (bm_base s) 0\<rparr>"
  have ok: "bitmap_ok F s" using assms(1) by (simp add: pmm_ok_def)
  have lt: "0 < 8 * unat (mem_bitmap_size s)" using assms(2) ok by (auto simp: bitmap_ok_def)
  have free: "pmm_free 0 s = (Inr (), ?t)" using pmm_free_run [OF ok, of 0] assms(2) by simp
  have bit: "\<not> frame_bit (mem ?t) (bm_base ?t) 0"
    using frame_bit_clear_frame [of 0 0] by (simp add: bm_base_def)
  then have "first_free ?t 0 = Some 0"
    using assms(2) by (simp add: first_free_def upt_conv_Cons)
  then have "pmm_alloc ?t = (Inr 0, ?t\<lparr>mem := set_frame (mem ?t) (bm_base ?t) 0\<rparr>)"
    using pmm_alloc_run [OF bitmap_ok_frames(2) [OF ok lt]] by simp
  with free bit show ?thesis by blast
qed

lemma pmm_free_null_witness:
  "\<exists>t. pmm_free 0 boot_machine = (Inr (), t) \<and> \<not> frame_bit (mem t) (bm_base t) 0
    \<and> pmm_alloc t = (Inr 0, t\<lparr>mem := set_frame (mem t) (bm_base t) 0\<rparr>)"
  by (rule pmm_free_null [OF boot_pmm_ok]) (simp add: boot_machine_def)

end
