(* ===== verification/Vmm.thy ===== *)
theory Vmm
  imports Pmm
begin

text \<open>
  The virtual memory manager, \<open>vmm.c\<close>: page tables are edited through the temporary page, whose
  entry \<open>temp_map\<close> points at one table after another. \<open>map_page\<close> walks down from the top table,
  adding the tables that are missing, \<open>unmap_page\<close> clears an entry and releases its frame and
  the tables that became empty, \<open>get_physical_address\<close> reads a mapping.
\<close>

section \<open>Operations\<close>

record page_table_t =
  ctx_pml4t :: u64
  is_kernel :: bool

definition tlb_invalidate :: "u64 \<Rightarrow> unit kern" where
  "tlb_invalidate addr = modify (\<lambda>s. s\<lparr>invlpg_log := invlpg_log s @ [addr]\<rparr>)"

definition temp_map :: "u64 \<Rightarrow> unit kern" where
  "temp_map physical_address =
     bind (gets pml4t) (\<lambda>top_table.
     bind (load64 (slot top_table (pml4_index TEMP_PAGE))) (\<lambda>e4.
     let pdpt = (e4 AND PAGE_MASK) + KERNEL_BASE in
     bind (load64 (slot pdpt (pdpt_index TEMP_PAGE))) (\<lambda>e3.
     let pd = (e3 AND PAGE_MASK) + KERNEL_BASE in
     bind (load64 (slot pd (pd_index TEMP_PAGE))) (\<lambda>e2.
     let pt = (e2 AND PAGE_MASK) + KERNEL_BASE in
     andthen (store64 (slot pt (pt_index TEMP_PAGE)) (physical_address OR 0x13))
       (tlb_invalidate TEMP_PAGE)))))"

text \<open>One level of \<open>map_page\<close>: read the entry at a virtual address, make a zeroed table if it is not
  present, and map the table it points to at the temporary page. The source repeats these lines
  for the top table and for the two levels below it.\<close>

definition map_level :: "u64 \<Rightarrow> u64 \<Rightarrow> unit kern" where
  "map_level entry_addr flags =
     bind (load64 entry_addr) (\<lambda>entry.
     if entry AND 1 = 0
     then bind pmm_alloc (\<lambda>check.
          if check = 0 then panic ''Out of physical memory for page table!''
          else andthen (store64 entry_addr (check OR flags OR 1)) (
               andthen (temp_map check) (
               andthen (memset TEMP_PAGE 0 0x1000) (ret ()))))
     else temp_map (entry AND PAGE_MASK))"

definition map_page :: "page_table_t \<Rightarrow> u64 \<Rightarrow> u64 \<Rightarrow> u64 \<Rightarrow> unit kern" where
  "map_page ctx virtual_address physical_address flags =
     andthen (map_level (slot (ctx_pml4t ctx) (pml4_index virtual_address)) flags) (
     andthen (map_level (slot TEMP_PAGE (pdpt_index virtual_address)) flags) (
     andthen (map_level (slot TEMP_PAGE (pd_index virtual_address)) flags) (
     store64 (slot TEMP_PAGE (pt_index virtual_address)) (physical_address OR flags))))"

text \<open>The loop that looks for a present entry in the table at the temporary page.\<close>

primrec no_entry_in :: "u64 list \<Rightarrow> bool kern" where
  "no_entry_in [] = ret True"
| "no_entry_in (i # is) =
     bind (load64 (slot TEMP_PAGE i)) (\<lambda>e.
     if e AND 1 \<noteq> 0 then ret False else no_entry_in is)"

definition table_empty :: "bool kern" where
  "table_empty = no_entry_in (map of_nat [0..<512])"

definition free_if_empty :: "u64 \<Rightarrow> unit kern" where
  "free_if_empty table_phys =
     andthen (temp_map table_phys) (
     bind table_empty (\<lambda>empty. if empty then pmm_free table_phys else ret ()))"

definition unmap_page :: "page_table_t \<Rightarrow> u64 \<Rightarrow> unit kern" where
  "unmap_page ctx virtual_address =
     bind (load64 (slot (ctx_pml4t ctx) (pml4_index virtual_address))) (\<lambda>e4.
     let pdpt_phys = e4 AND PAGE_MASK in
     andthen (temp_map pdpt_phys) (
     bind (load64 (slot TEMP_PAGE (pdpt_index virtual_address))) (\<lambda>e3.
     let pd_phys = e3 AND PAGE_MASK in
     andthen (temp_map pd_phys) (
     bind (load64 (slot TEMP_PAGE (pd_index virtual_address))) (\<lambda>e2.
     let pt_phys = e2 AND PAGE_MASK in
     andthen (temp_map pt_phys) (
     bind (load64 (slot TEMP_PAGE (pt_index virtual_address))) (\<lambda>e1.
     let pte = e1 AND PAGE_MASK in
     andthen (store64 (slot TEMP_PAGE (pt_index virtual_address)) 0) (
     andthen (pmm_free pte) (
     andthen (free_if_empty pt_phys) (
     andthen (free_if_empty pd_phys) (
     free_if_empty pdpt_phys))))))))))) "

definition get_physical_address :: "page_table_t \<Rightarrow> u64 \<Rightarrow> u64 kern" where
  "get_physical_address ctx virtual_address =
     bind (load64 (slot (ctx_pml4t ctx) (pml4_index virtual_address))) (\<lambda>e4.
     andthen (temp_map (e4 AND PAGE_MASK)) (
     bind (load64 (slot TEMP_PAGE (pdpt_index virtual_address))) (\<lambda>e3.
     andthen (temp_map (e3 AND PAGE_MASK)) (
     bind (load64 (slot TEMP_PAGE (pd_index virtual_address))) (\<lambda>e2.
     andthen (temp_map (e2 AND PAGE_MASK)) (
     bind (load64 (slot TEMP_PAGE (pt_index virtual_address))) (\<lambda>e1.
     ret ((e1 AND PAGE_MASK) + (virtual_address AND 0xFFF)))))))))"

section \<open>The temporary page\<close>

abbreviation temp_slot :: "kframes \<Rightarrow> u64" where
  "temp_slot F \<equiv> kf_pt F + 0xFF8"

text \<open>The state after \<open>temp_map\<close>.\<close>

definition temp_mapped_state :: "kframes \<Rightarrow> u64 \<Rightarrow> machine \<Rightarrow> machine" where
  "temp_mapped_state F pa s =
     s\<lparr>mem := pwrite64 (mem s) (temp_slot F) (pa OR 0x13), invlpg_log := invlpg_log s @ [TEMP_PAGE]\<rparr>"

lemma temp_indices:
  "pml4_index TEMP_PAGE = 511" "pdpt_index TEMP_PAGE = 510" "pd_index TEMP_PAGE = 0"
  "pt_index TEMP_PAGE = 511"
  using kernel_indices [of "0x1FF000"] by (simp_all add: kconst)

lemma low_frame_bound: "low_frame f \<Longrightarrow> unat f + 4096 \<le> 0x1FF000"
  using aligned_less_add [of "unat f" "0x1FE000"] by (auto simp: low_frame_def page_aligned_iff)

lemma low_frame_in_win:
  assumes "low_frame f" "i + n \<le> 4096"
  shows "in_win (KERNEL_BASE + f + of_nat i) n"
proof -
  have "unat (f + of_nat i) = unat f + i"
    using low_frame_bound [OF assms(1)] assms(2) by (intro unat_add_of_nat) simp
  then show ?thesis
    using low_frame_bound [OF assms(1)] assms(2) by (simp add: in_win_def add.assoc)
qed

lemma next_table_entry: "next_table m p = Some f \<Longrightarrow> pread64 m p AND PAGE_MASK = f"
  by (auto simp: next_table_def Let_def split: if_splits)

lemma temp_map_run:
  assumes "kwin F s"
  shows "temp_map pa s = (Inr (), temp_mapped_state F pa s)"
proof -
  have k: "pml4t s = KERNEL_BASE + kf_pml4 F" "low_frame (kf_pml4 F)" "low_frame (kf_pdpt F)"
    "low_frame (kf_pd F)" "low_frame (kf_pt F)"
    and e: "pread64 (mem s) (kf_pml4 F + 0xFF8) AND PAGE_MASK = kf_pdpt F"
    "pread64 (mem s) (kf_pdpt F + 0xFF0) AND PAGE_MASK = kf_pd F"
    "pread64 (mem s) (kf_pd F) AND PAGE_MASK = kf_pt F"
    using assms by (auto simp: kmap_def next_table_entry)
  have w: "in_win (KERNEL_BASE + kf_pml4 F + 0xFF8) 8" "in_win (KERNEL_BASE + kf_pdpt F + 0xFF0) 8"
    "in_win (KERNEL_BASE + kf_pd F) 8" "in_win (KERNEL_BASE + kf_pt F + 0xFF8) 8"
    using low_frame_in_win [OF k(2), of "0xFF8" 8] low_frame_in_win [OF k(3), of "0xFF0" 8]
      low_frame_in_win [OF k(4), of 0 8] low_frame_in_win [OF k(5), of "0xFF8" 8] by simp_all
  show ?thesis
    using kwin_load64 [OF assms w(1)] kwin_load64 [OF assms w(2)] kwin_load64 [OF assms w(3)]
      kwin_store64 [OF assms w(4)] k(1) e
    by (simp add: temp_map_def monad slot_def temp_indices tlb_invalidate_def temp_mapped_state_def
        Let_def add.commute add.left_commute)
qed

section \<open>The invariant\<close>

lemma apart_le: "0 < n \<Longrightarrow> unat a + n \<le> unat b \<Longrightarrow> unat b + k \<le> 2 ^ 64 \<Longrightarrow> apart a n b k"
  by (auto simp: apart_def unat_sub_if_size word_size word_le_nat_alt)

text \<open>Between operations: the window and the bitmap are in order, the frames of the first two
  mebibytes are in use, the current root is the kernel's top table or a frame in use, and the
  bitmap does not meet the pages of the kernel's tables.\<close>

definition vm_inv :: "kframes \<Rightarrow> machine \<Rightarrow> bool" where
  "vm_inv F s \<longleftrightarrow>
     pmm_ok F s \<and> 512 \<le> unat (mem_bitmap_bit_size s) \<and>
     (\<forall>i<512. frame_bit (mem s) (bm_base s) i) \<and>
     (\<forall>t\<in>{kf_pml4 F, kf_pdpt F, kf_pd F, kf_pt F}. apart (bm_base s) (unat (mem_bitmap_size s)) t 4096) \<and>
     (kf_root F = kf_pml4 F \<or> kf_root F \<in> pmm_used s)"

lemma vm_invD:
  assumes "vm_inv F s"
  shows "pmm_ok F s" "bitmap_ok F s" "kwin F s"
    "unat (bm_base s) + unat (mem_bitmap_size s) \<le> 0x1FF000"
    "unat (mem_bitmap_bit_size s) \<le> 8 * unat (mem_bitmap_size s)"
    "off_tables F (bm_base s) (unat (mem_bitmap_size s))" "0 < unat (mem_bitmap_size s)"
    "apart (bm_base s) (unat (mem_bitmap_size s)) (temp_slot F) 8"
proof -
  show "pmm_ok F s" "bitmap_ok F s" "kwin F s"
    "unat (bm_base s) + unat (mem_bitmap_size s) \<le> 0x1FF000"
    "unat (mem_bitmap_bit_size s) \<le> 8 * unat (mem_bitmap_size s)"
    "off_tables F (bm_base s) (unat (mem_bitmap_size s))"
    using assms by (auto simp: vm_inv_def pmm_ok_def bitmap_ok_def bm_base_def in_win_def)
  then show pos: "0 < unat (mem_bitmap_size s)" using assms by (auto simp: vm_inv_def)
  have "apart (bm_base s) (unat (mem_bitmap_size s)) (kf_pt F) 4096"
    using assms by (simp add: vm_inv_def)
  from apart_sub [OF this, of 0 _ "0xFF8" 8] pos
  show "apart (bm_base s) (unat (mem_bitmap_size s)) (temp_slot F) 8" by simp
qed

text \<open>A write that does not meet the bitmap keeps every bit of it.\<close>

lemma frame_bit_cong:
  assumes "\<And>j. j < n \<Longrightarrow> m' (p + of_nat j) = m (p + of_nat j)" "i < 8 * n"
  shows "frame_bit m' p i = frame_bit m p i"
  using assms by (simp add: frame_bit_def less_mult_imp_div_less mult.commute)

lemma frame_bit_pwrite:
  assumes "apart q (length bs) p n" "i < 8 * n"
  shows "frame_bit (pwrite m q bs) p i = frame_bit m p i"
  by (rule frame_bit_cong [OF _ assms(2)])
    (use apart_outside [OF assms(1)] in \<open>simp add: pwrite_outside\<close>)

lemma vm_inv_mem:
  assumes "vm_inv F s" "kmap F m (cr3 s) (pml4t s)"
    and "\<And>i. i < 8 * unat (mem_bitmap_size s) \<Longrightarrow>
           frame_bit m (bm_base s) i = frame_bit (mem s) (bm_base s) i"
  shows "vm_inv F (s\<lparr>mem := m\<rparr>)" "pmm_used (s\<lparr>mem := m\<rparr>) = pmm_used s"
proof -
  note d = vm_invD [OF assms(1)]
  show "pmm_used (s\<lparr>mem := m\<rparr>) = pmm_used s"
    using d(5) assms(3) by (auto simp: pmm_used_def pmm_frames_def bm_base_def)
  then show "vm_inv F (s\<lparr>mem := m\<rparr>)"
    using assms d(4,5) by (auto simp: vm_inv_def pmm_ok_def bitmap_ok_def bm_base_def)
qed

lemma vm_inv_pwrite:
  assumes "vm_inv F s" "off_tables F p (length bs)"
    and "apart p (length bs) (bm_base s) (unat (mem_bitmap_size s))"
  shows "vm_inv F (s\<lparr>mem := pwrite (mem s) p bs\<rparr>)"
    and "pmm_used (s\<lparr>mem := pwrite (mem s) p bs\<rparr>) = pmm_used s"
  using vm_inv_mem [OF assms(1) kmap_pwrite [OF vm_invD(3) [OF assms(1)] assms(2)]]
    frame_bit_pwrite [OF assms(3)] by auto

lemma vm_inv_log: "vm_inv F (s\<lparr>invlpg_log := l\<rparr>) \<longleftrightarrow> vm_inv F s"
  "pmm_used (s\<lparr>invlpg_log := l\<rparr>) = pmm_used s"
  by (simp_all add: vm_inv_def pmm_ok_def bitmap_ok_def bm_base_def pmm_used_def pmm_frames_def)

lemma vm_inv_temp:
  assumes "vm_inv F s"
  shows "vm_inv F (temp_mapped_state F pa s)" "pmm_used (temp_mapped_state F pa s) = pmm_used s"
proof -
  let ?m = "pwrite64 (mem s) (temp_slot F) (pa OR 0x13)"
  have ap: "apart (temp_slot F) 8 (bm_base s) (unat (mem_bitmap_size s))"
    by (rule apart_sym) (rule vm_invD [OF assms])
  then have "\<And>i. i < 8 * unat (mem_bitmap_size s) \<Longrightarrow>
      frame_bit ?m (bm_base s) i = frame_bit (mem s) (bm_base s) i"
    using frame_bit_pwrite [of "temp_slot F" "le_bytes 8 (pa OR 0x13)"] by (simp add: pwrite64_def)
  from vm_inv_mem [OF assms kmap_temp_update [OF vm_invD(3) [OF assms]] this]
  have "vm_inv F (s\<lparr>mem := ?m\<rparr>)" "pmm_used (s\<lparr>mem := ?m\<rparr>) = pmm_used s" by auto
  then show "vm_inv F (temp_mapped_state F pa s)" "pmm_used (temp_mapped_state F pa s) = pmm_used s"
    by (simp_all add: temp_mapped_state_def vm_inv_log)
qed

text \<open>A free frame lies above the window: it meets neither the tables nor the bitmap.\<close>

definition free_frames :: "machine \<Rightarrow> u64 set" where
  "free_frames s = pmm_frames s - pmm_used s"

lemma free_frame:
  assumes "vm_inv F s" "f \<in> free_frames s"
  shows "page_aligned f" "0x200000 \<le> unat f" "unat f < 2 ^ 52" "off_tables F f 4096"
    "apart f 4096 (bm_base s) (unat (mem_bitmap_size s))" "apart f 4096 (temp_slot F) 8"
proof -
  note d = vm_invD [OF assms(1)]
  have j: "unat f div 4096 < unat (mem_bitmap_bit_size s)"
    "\<not> frame_bit (mem s) (bm_base s) (unat f div 4096)" and al: "page_aligned f"
    using assms(2) by (auto simp: free_frames_def pmm_used_def pmm_frames_def)
  show "page_aligned f" by (rule al)
  have "\<not> unat f div 4096 < 512" using j(2) assms(1) by (auto simp: vm_inv_def)
  then show hi: "0x200000 \<le> unat f" by simp
  show lt: "unat f < 2 ^ 52" using j(1) bitmap_ok_bound(2) [OF d(2)] by simp
  have low: "apart f 4096 (g + of_nat i) n" if "low_frame g" "i + n \<le> 4096" "0 < n" for g i n
  proof (rule apart_in_frames [of f g 0 4096 i n, simplified])
    show "page_aligned f" "page_aligned g" "i + n \<le> 4096" "0 < n"
      using al that by (auto simp: low_frame_aligned)
    show "f \<noteq> g" using hi low_frame_bound [OF that(1)] by auto
  qed
  have k: "low_frame (kf_pml4 F)" "low_frame (kf_pdpt F)" "low_frame (kf_pd F)" "low_frame (kf_pt F)"
    "page_aligned (kf_root F)"
    using d(3) masked_aligned [of "cr3 s"] by (auto simp: kmap_def)
  have "f \<noteq> kf_root F"
    using assms(2) hi low_frame_bound [OF k(1)] assms(1) by (auto simp: vm_inv_def free_frames_def)
  then have "apart f 4096 (kf_root F + of_nat 0xFF8) 8"
    using apart_in_frames [OF al k(5), of 0 4096 "0xFF8" 8] by simp
  then show "off_tables F f 4096"
    using low [OF k(1), of "0xFF8" 8] low [OF k(2), of "0xFF0" 8] low [OF k(3), of 0 8]
      low [OF k(4), of 0 "0xFF8"] by (simp add: off_tables_def)
  show "apart f 4096 (temp_slot F) 8" using low [OF k(4), of "0xFF8" 8] by simp
  show "apart f 4096 (bm_base s) (unat (mem_bitmap_size s))"
    by (rule apart_sym, rule apart_le) (use d(4,5) hi lt assms(1) in \<open>auto simp: vm_inv_def\<close>)
qed

lemma fresh_frame:
  assumes "vm_inv F s" "first_free s 0 = Some j"
  defines "f \<equiv> of_nat j * PAGE_SIZE"
  shows "page_aligned f" "0x200000 \<le> unat f" "unat f < 2 ^ 52" "off_tables F f 4096"
    "apart f 4096 (bm_base s) (unat (mem_bitmap_size s))" "f \<in> free_frames s"
    "apart f 4096 (temp_slot F) 8"
proof -
  show "f \<in> free_frames s"
    using pmm_alloc_Some(3) [OF vm_invD(1) [OF assms(1)] assms(2)] by (simp add: f_def free_frames_def)
  from free_frame [OF assms(1) this]
  show "page_aligned f" "0x200000 \<le> unat f" "unat f < 2 ^ 52" "off_tables F f 4096"
    "apart f 4096 (bm_base s) (unat (mem_bitmap_size s))" "apart f 4096 (temp_slot F) 8" by auto
qed

section \<open>Entries of tables\<close>

text \<open>The eight bytes at a virtual address are those at a physical address, whatever the bitmap
  holds.\<close>

definition entry_at :: "machine \<Rightarrow> u64 \<Rightarrow> u64 \<Rightarrow> bool" where
  "entry_at s va p \<longleftrightarrow>
     (\<forall>m. (\<forall>x. unat (mem_bitmap_size s) \<le> unat (x - bm_base s) \<longrightarrow> m x = mem s x) \<longrightarrow>
        mapped (s\<lparr>mem := m\<rparr>) va 8 p)"

lemma entry_at_mapped: "entry_at s va p \<Longrightarrow> mapped s va 8 p"
  unfolding entry_at_def by (drule spec [of _ "mem s"]) simp

lemma agree_pwrite:
  assumes "\<And>x. n \<le> unat (x - p) \<Longrightarrow> m' x = m x"
  shows "m' = pwrite m p (pread m' p n)"
proof
  fix x
  show "m' x = pwrite m p (pread m' p n) x"
    using assms [of x] by (cases "unat (x - p) < n") (auto simp: pwrite_def)
qed

lemma kmap_agree:
  assumes "kmap F m r k" "off_tables F p n" "\<And>x. n \<le> unat (x - p) \<Longrightarrow> m' x = m x"
  shows "kmap F m' r k"
  using kmap_pwrite [OF assms(1), of p "pread m' p n"] assms(2) agree_pwrite [OF assms(3)] by simp

lemma temp_frame_agree:
  assumes "temp_frame F m f" "apart p n (temp_slot F) 8" "\<And>x. n \<le> unat (x - p) \<Longrightarrow> m' x = m x"
  shows "temp_frame F m' f"
proof -
  have "leaf_frame (pwrite m p (pread m' p n)) (temp_slot F) = leaf_frame m (temp_slot F)"
    using assms(2) by (simp add: leaf_frame_pwrite)
  then show ?thesis using assms(1) agree_pwrite [OF assms(3)] by (simp add: temp_frame_def)
qed

lemma entry_at_window: "vm_inv F s \<Longrightarrow> in_win va 8 \<Longrightarrow> entry_at s va (va - KERNEL_BASE)"
  unfolding entry_at_def
  using kmap_agree [OF vm_invD(3) vm_invD(6)] kwin_mapped [of F "s\<lparr>mem := _\<rparr>" "pml4t s"] by simp

lemma entry_at_temp:
  assumes "vm_inv F s" "temp_frame F (mem s) f" "i + 8 \<le> 4096"
  shows "entry_at s (TEMP_PAGE + of_nat i) (f + of_nat i)"
  unfolding entry_at_def
proof (intro allI impI)
  fix m assume "\<forall>x. unat (mem_bitmap_size s) \<le> unat (x - bm_base s) \<longrightarrow> m x = mem s x"
  then have "kwin F (s\<lparr>mem := m\<rparr>)" "temp_frame F m f"
    using kmap_agree [OF vm_invD(3,6) [OF assms(1)]] temp_frame_agree [OF assms(2) vm_invD(8) [OF assms(1)]]
    by auto
  then show "mapped (s\<lparr>mem := m\<rparr>) (TEMP_PAGE + of_nat i) 8 (f + of_nat i)"
    using temp_mapped [of F "s\<lparr>mem := m\<rparr>" "pml4t s" f i 8] assms(3) by simp
qed

text \<open>An entry of a table that is not a free frame, away from the bitmap and from the entry of the
  temporary page. The code may write it if it is also off the entries that map the window.\<close>

definition table_slot :: "kframes \<Rightarrow> machine \<Rightarrow> u64 \<Rightarrow> u64 \<Rightarrow> bool" where
  "table_slot F s t i \<longleftrightarrow>
     page_aligned t \<and> t \<notin> free_frames s \<and> unat i < 512 \<and>
     apart (slot t i) 8 (bm_base s) (unat (mem_bitmap_size s)) \<and> apart (slot t i) 8 (temp_slot F) 8"

text \<open>The bytes no level of \<open>map_page\<close> writes besides the entry it works on.\<close>

definition untouched :: "kframes \<Rightarrow> machine \<Rightarrow> u64 \<Rightarrow> bool" where
  "untouched F s x \<longleftrightarrow>
     unat (mem_bitmap_size s) \<le> unat (x - bm_base s) \<and> 8 \<le> unat (x - temp_slot F) \<and>
     (\<forall>g\<in>free_frames s. 4096 \<le> unat (x - g))"

lemma slot_offset: "slot t i = t + of_nat (8 * unat i)"
  by (simp add: slot_def)

lemma table_slot_untouched:
  assumes "table_slot F s t i" "k < 8"
  shows "untouched F s (slot t i + of_nat k)"
proof -
  have a: "apart (bm_base s) (unat (mem_bitmap_size s)) (slot t i) 8" "apart (temp_slot F) 8 (slot t i) 8"
    using assms(1) by (auto simp: table_slot_def intro: apart_sym)
  have "apart g 4096 (slot t i) 8" if "g \<in> free_frames s" for g
    using apart_in_frames [of g t 0 4096 "8 * unat i" 8] assms(1) that
    by (auto simp: table_slot_def free_frames_def pmm_frames_def slot_def)
  then show ?thesis
    unfolding untouched_def using apart_outside [OF a(1) assms(2)] apart_outside [OF a(2) assms(2)]
      apart_outside [OF _ assms(2)] by blast
qed

section \<open>One level of the walk\<close>

lemma temp_memset:
  assumes "kwin F s" "temp_frame F (mem s) f" "off_tables F f 4096" "apart f 4096 (temp_slot F) 8"
  shows "memset TEMP_PAGE 0 0x1000 s
      = (Inr TEMP_PAGE, s\<lparr>mem := pwrite (mem s) f (replicate 4096 0)\<rparr>)"
    and "temp_frame F (pwrite (mem s) f (replicate 4096 0)) f"
proof -
  let ?I = "\<lambda>m. kmap F m (cr3 s) (pml4t s) \<and> temp_frame F m f"
  have 1: "mapped (s\<lparr>mem := m\<rparr>) TEMP_PAGE 4096 f" if "?I m" for m
    using temp_mapped [of F "s\<lparr>mem := m\<rparr>" "pml4t s" f 0 4096] that by simp
  have 2: "?I (m(f + of_nat j := b))" if "?I m" "j < 4096" for m j b
  proof
    show "kmap F (m(f + of_nat j := b)) (cr3 s) (pml4t s)"
      using kmap_byte [OF _ assms(3) that(2)] that by blast
    show "temp_frame F (m(f + of_nat j := b)) f"
    proof (rule temp_frame_agree [where n = 1])
      show "temp_frame F m f" using that by blast
      show "apart (f + of_nat j) 1 (temp_slot F) 8"
        using apart_sub [OF assms(4), of j 1 0 8] that by simp
    qed auto
  qed
  have 3: "?I (mem s)" "unat (0x1000 :: u64) = 4096" using assms by auto
  from memset_mapped [where I = ?I and c = 0, OF 1 2 3]
  show "memset TEMP_PAGE 0 0x1000 s = (Inr TEMP_PAGE, s\<lparr>mem := pwrite (mem s) f (replicate 4096 0)\<rparr>)"
    "temp_frame F (pwrite (mem s) f (replicate 4096 0)) f" by simp_all
qed

text \<open>The state after a level that made a new table in frame \<open>f\<close>, number \<open>j\<close>.\<close>

definition level_new :: "kframes \<Rightarrow> u64 \<Rightarrow> u64 \<Rightarrow> nat \<Rightarrow> machine \<Rightarrow> machine" where
  "level_new F p flags j s =
     (let f = of_nat j * PAGE_SIZE;
          s1 = s\<lparr>mem := set_frame (mem s) (bm_base s) j\<rparr>;
          s2 = s1\<lparr>mem := pwrite64 (mem s1) p (f OR flags OR 1)\<rparr>;
          s3 = temp_mapped_state F f s2
      in s3\<lparr>mem := pwrite (mem s3) f (replicate 4096 0)\<rparr>)"

lemma vm_inv_alloc:
  assumes "vm_inv F s" "first_free s 0 = Some j"
  shows "vm_inv F (s\<lparr>mem := set_frame (mem s) (bm_base s) j\<rparr>)"
proof -
  note d = vm_invD [OF assms(1)]
  note a = pmm_alloc_Some [OF d(1) assms(2)]
  have j: "j < 2 ^ 64" using first_free_range [OF d(1) assms(2)] by simp
  have "frame_bit (set_frame (mem s) (bm_base s) j) (bm_base s) i" if "i < 512" for i
    using that assms(1) frame_bit_set_frame [OF j, of i] by (auto simp: vm_inv_def)
  moreover have "bm_base (s\<lparr>mem := m\<rparr>) = bm_base s" for m by (simp add: bm_base_def)
  ultimately show ?thesis
    using assms(1) a(4,5) unfolding vm_inv_def by auto
qed

lemma map_level_new:
  fixes flags :: u64
  assumes "vm_inv F s" "entry_at s va p" "off_tables F p 8"
    and "apart p 8 (bm_base s) (unat (mem_bitmap_size s))"
    and "pread64 (mem s) p AND 1 = 0" "first_free s 0 = Some j"
  defines "t \<equiv> level_new F p flags j s" and "f \<equiv> of_nat j * PAGE_SIZE"
  shows "map_level va flags s = (Inr (), t)" "vm_inv F t" "temp_frame F (mem t) f"
    "pmm_used t = insert f (pmm_used s)"
proof -
  note d = vm_invD [OF assms(1)] and a = pmm_alloc_Some [OF vm_invD(1) [OF assms(1)] assms(6)]
  note fr = fresh_frame [OF assms(1,6), folded f_def]
  define s1 where "s1 = s\<lparr>mem := set_frame (mem s) (bm_base s) j\<rparr>"
  define s2 where "s2 = s1\<lparr>mem := pwrite64 (mem s1) p (f OR flags OR 1)\<rparr>"
  define s3 where "s3 = temp_mapped_state F f s2"
  have t: "t = s3\<lparr>mem := pwrite (mem s3) f (replicate 4096 0)\<rparr>"
    by (simp add: t_def level_new_def Let_def s1_def s2_def s3_def f_def)
  have bm: "bm_base s1 = bm_base s" "bm_base s2 = bm_base s" "bm_base s3 = bm_base s"
    "mem_bitmap_size s1 = mem_bitmap_size s" "mem_bitmap_size s2 = mem_bitmap_size s"
    "mem_bitmap_size s3 = mem_bitmap_size s"
    by (simp_all add: s1_def s2_def s3_def bm_base_def temp_mapped_state_def)
  have i1: "vm_inv F s1" unfolding s1_def by (rule vm_inv_alloc [OF assms(1,6)])
  have i2: "vm_inv F s2" "pmm_used s2 = pmm_used s1"
    using vm_inv_pwrite [OF i1, of p "le_bytes 8 (f OR flags OR 1)"] assms(3,4) bm
    by (simp_all add: s2_def pwrite64_def)
  have i3: "vm_inv F s3" "pmm_used s3 = pmm_used s1"
    using vm_inv_temp [OF i2(1)] i2(2) by (simp_all add: s3_def)
  have "(f OR 0x13) AND PAGE_MASK = f" "(f OR 0x13) AND 1 \<noteq> 0"
    using fr by (simp_all add: entry_mask entry_flag)
  then have tf: "temp_frame F (mem s3) f"
    using temp_frame_update [of "f OR 0x13"] by (simp add: s3_def temp_mapped_state_def)
  have ms: "memset TEMP_PAGE 0 0x1000 s3 = (Inr TEMP_PAGE, t)" "temp_frame F (mem t) f"
    using temp_memset [OF vm_invD(3) [OF i3(1)] tf fr(4,7)] by (simp_all add: t)
  show "temp_frame F (mem t) f" by (rule ms)
  show "vm_inv F t" "pmm_used t = insert f (pmm_used s)"
    using vm_inv_pwrite [OF i3(1), of f "replicate 4096 0"] fr(4,5) bm i3(2) a(4)
    by (simp_all add: t s1_def f_def)
  have "\<forall>x. unat (mem_bitmap_size s) \<le> unat (x - bm_base s) \<longrightarrow> mem s1 x = mem s x"
    using set_frame_outside(1) first_free_range(2) [OF d(1) assms(6)] by (simp add: s1_def)
  then have map1: "mapped s1 va 8 p"
    using assms(2) unfolding entry_at_def s1_def by auto
  have st: "store64 va (f OR flags OR 1) s1 = (Inr (), s2)"
    using store64_mapped [OF map1] by (simp add: s2_def)
  show "map_level va flags s = (Inr (), t)"
    using load64_mapped [OF entry_at_mapped [OF assms(2)]] assms(5) a(1,2) st
      temp_map_run [OF vm_invD(3) [OF i2(1)], of f] ms(1)
    by (simp add: map_level_def monad f_def s1_def s3_def)
qed

lemma first_free_exists: "free_frames s \<noteq> {} \<Longrightarrow> \<exists>j. first_free s 0 = Some j"
  using first_free_None [of s] by (auto simp: free_frames_def pmm_used_def pmm_frames_def)

lemma pread64_agree: "(\<And>k. k < 8 \<Longrightarrow> m' (p + of_nat k) = m (p + of_nat k)) \<Longrightarrow> pread64 m' p = pread64 m p"
  unfolding pread64_def by (subst pread_cong) auto

lemma temp_mapped_outside:
  "8 \<le> unat (x - temp_slot F) \<Longrightarrow> mem (temp_mapped_state F pa s) x = mem s x"
  by (simp add: temp_mapped_state_def pwrite64_def pwrite_outside)

lemma level_new_outside:
  assumes "vm_inv F s" "first_free s 0 = Some j" "untouched F s x" "8 \<le> unat (x - p)"
  shows "mem (level_new F p flags j s) x = mem s x"
proof -
  have "of_nat j * PAGE_SIZE \<in> free_frames s"
    by (rule fresh_frame(6) [OF assms(1,2)])
  then have "4096 \<le> unat (x - of_nat j * PAGE_SIZE)" using assms(3) by (simp add: untouched_def)
  then show ?thesis
    using assms(3,4) set_frame_outside(1) [OF first_free_range(2) [OF vm_invD(1) [OF assms(1)] assms(2)]]
    by (simp add: level_new_def Let_def untouched_def pwrite_outside temp_mapped_outside pwrite64_def)
qed

lemma level_new_zeroed:
  assumes "k < 512"
  shows "pread64 (mem (level_new F p flags j s)) (slot (of_nat j * PAGE_SIZE) (of_nat k)) = 0"
proof -
  have e: "slot f (of_nat k) = f + of_nat (8 * k)" for f by (simp add: slot_def)
  have "pread (pwrite m f (replicate 4096 0)) (f + of_nat (8 * k)) 8 = replicate 8 0" for m f
    using assms pread_pwrite_sub [of "8 * k" 8 "replicate 4096 0" m f] by simp
  then show ?thesis unfolding e by (simp add: level_new_def Let_def pread64_def del: of_nat_mult)
qed

lemma or_bound: "unat a < 0x1000 \<Longrightarrow> unat b < 0x1000 \<Longrightarrow> unat (a OR b) < 0x1000" for a b :: u64
proof -
  assume "unat a < 0x1000" "unat b < 0x1000"
  then have "take_bit 12 (a OR b) = a OR b"
    using high_bits [of a 12] high_bits [of b 12]
    by (intro bit_word_eqI) (auto simp: bit_take_bit_iff bit_or_iff)
  then have "unat (a OR b) = take_bit 12 (unat (a OR b))" by (metis unsigned_take_bit_eq)
  also have "\<dots> < 2 ^ 12" by (rule take_bit_nat_less_exp)
  finally show ?thesis by simp
qed

lemma level_new_entry:
  assumes "vm_inv F s" "first_free s 0 = Some j" "table_slot F s t i"
    and "unat flags < 0x1000" "flags AND 0x80 = 0"
  shows "next_table (mem (level_new F (slot t i) flags j s)) (slot t i) = Some (of_nat j * PAGE_SIZE)"
proof -
  let ?f = "of_nat j * PAGE_SIZE :: u64" and ?p = "slot t i"
  note fr = fresh_frame [OF assms(1,2)]
  have "?f \<noteq> t" using fr(6) assms(3) by (auto simp: table_slot_def free_frames_def)
  then have "apart ?f 4096 ?p 8"
    using apart_in_frames [OF fr(1), of t 0 4096 "8 * unat i" 8] assms(3)
    by (simp add: table_slot_def slot_def)
  moreover have "apart (temp_slot F) 8 ?p 8" using assms(3) by (auto simp: table_slot_def intro: apart_sym)
  ultimately have "pread64 (mem (level_new F ?p flags j s)) ?p = ?f OR (flags OR 1)"
    by (simp add: level_new_def Let_def temp_mapped_state_def pread64_pwrite_apart
        pread64_pwrite64_apart or.assoc)
  moreover have "(?f OR (flags OR 1)) AND PAGE_MASK = ?f"
    using fr assms(4) by (intro entry_mask or_bound) auto
  moreover have "(flags OR 1) AND 1 \<noteq> 0" "(flags OR 1) AND 0x80 = 0"
    using assms(5) by (simp_all add: word_ao_dist)
  then have "(?f OR (flags OR 1)) AND 1 \<noteq> 0" "(?f OR (flags OR 1)) AND 0x80 = 0"
    using entry_flag [OF fr(1), of 1 "flags OR 1"] entry_flag [OF fr(1), of "0x80" "flags OR 1"]
    by simp_all
  ultimately show ?thesis by (simp add: next_table_def)
qed

text \<open>One level, whatever the entry holds: afterwards the entry points to a table, which the
  temporary page shows; a new table is a frame that was free, and it is empty; nothing but the
  entry, the bitmap, the entry of the temporary page and a free frame has changed.\<close>

lemma map_level_step:
  assumes inv: "vm_inv F s" and at: "entry_at s va (slot t i)" and ts: "table_slot F s t i"
    and flags: "unat flags < 0x1000" "flags AND 0x80 = 0"
    and ps: "pread64 (mem s) (slot t i) AND 1 \<noteq> 0 \<Longrightarrow> pread64 (mem s) (slot t i) AND 0x80 = 0"
    and free: "pread64 (mem s) (slot t i) AND 1 = 0 \<Longrightarrow> off_tables F (slot t i) 8 \<and> free_frames s \<noteq> {}"
  shows "\<exists>s' f. map_level va flags s = (Inr (), s') \<and> vm_inv F s' \<and> temp_frame F (mem s') f
     \<and> next_table (mem s') (slot t i) = Some f
     \<and> (case next_table (mem s) (slot t i) of
          Some g \<Rightarrow> f = g \<and> pmm_used s' = pmm_used s
             \<and> pread64 (mem s') (slot t i) = pread64 (mem s) (slot t i)
        | None \<Rightarrow> f \<in> free_frames s \<and> pmm_used s' = insert f (pmm_used s)
             \<and> (\<forall>k<512. pread64 (mem s') (slot f (of_nat k)) = 0))
     \<and> s' = s\<lparr>mem := mem s', invlpg_log := invlpg_log s'\<rparr>
     \<and> (\<forall>x. untouched F s x \<longrightarrow> 8 \<le> unat (x - slot t i) \<longrightarrow> mem s' x = mem s x)"
proof (cases "pread64 (mem s) (slot t i) AND 1 = 0")
  case True
  obtain j where j: "first_free s 0 = Some j" using first_free_exists free [OF True] by blast
  let ?t = "level_new F (slot t i) flags j s"
  have p: "off_tables F (slot t i) 8" "apart (slot t i) 8 (bm_base s) (unat (mem_bitmap_size s))"
    using ts free [OF True] by (auto simp: table_slot_def)
  note new = map_level_new [OF inv at p True j, of flags]
  have "next_table (mem s) (slot t i) = None" using True by (simp add: next_table_def)
  moreover have "?t = s\<lparr>mem := mem ?t, invlpg_log := invlpg_log ?t\<rparr>"
    by (simp add: level_new_def Let_def temp_mapped_state_def)
  ultimately show ?thesis
    using new level_new_outside [OF inv j] level_new_zeroed [of _ F "slot t i" flags j s]
      level_new_entry [OF inv j ts flags] fresh_frame(6) [OF inv j]
    by (intro exI [of _ ?t] exI [of _ "of_nat j * PAGE_SIZE"]) (simp add: free_frames_def)
next
  case False
  let ?e = "pread64 (mem s) (slot t i)"
  let ?t = "temp_mapped_state F (?e AND PAGE_MASK) s"
  have run: "map_level va flags s = (Inr (), ?t)"
    using False load64_mapped [OF entry_at_mapped [OF at]] temp_map_run [OF vm_invD(3) [OF inv]]
    by (simp add: map_level_def monad)
  have g: "next_table (mem s) (slot t i) = Some (?e AND PAGE_MASK)"
    using False ps by (simp add: next_table_def)
  have "apart (temp_slot F) 8 (slot t i) 8" using ts by (auto simp: table_slot_def intro: apart_sym)
  then have kept: "pread64 (mem ?t) (slot t i) = ?e"
    by (simp add: temp_mapped_state_def pread64_pwrite64_apart)
  then have g': "next_table (mem ?t) (slot t i) = Some (?e AND PAGE_MASK)"
    using g by (simp add: next_table_def)
  have "((?e AND PAGE_MASK) OR 0x13) AND PAGE_MASK = ?e AND PAGE_MASK"
    by (simp add: word_ao_dist and.assoc flags_mask)
  moreover have "((?e AND PAGE_MASK) OR 0x13) AND 1 \<noteq> 0"
    by (simp add: entry_flag masked_aligned)
  ultimately have tf: "temp_frame F (mem ?t) (?e AND PAGE_MASK)"
    using temp_frame_update [of "(?e AND PAGE_MASK) OR 0x13"] by (simp add: temp_mapped_state_def)
  have "?t = s\<lparr>mem := mem ?t, invlpg_log := invlpg_log ?t\<rparr>" by (simp add: temp_mapped_state_def)
  then show ?thesis
    using run g g' kept tf vm_inv_temp [OF inv] temp_mapped_outside
    by (intro exI [of _ ?t] exI [of _ "?e AND PAGE_MASK"]) (simp add: untouched_def)
qed

section \<open>The path to an entry\<close>

text \<open>The tables on the path of a virtual address, as far as they exist: no large pages, no table
  twice, and an entry that is not present, like the last one, is off the entries that map the
  window.\<close>

definition entry_ok :: "kframes \<Rightarrow> pmem \<Rightarrow> u64 \<Rightarrow> bool" where
  "entry_ok F m p \<longleftrightarrow> (if pread64 m p AND 1 = 0 then off_tables F p 8 else pread64 m p AND 0x80 = 0)"

fun path_ok :: "kframes \<Rightarrow> machine \<Rightarrow> u64 set \<Rightarrow> u64 \<Rightarrow> u64 list \<Rightarrow> bool" where
  "path_ok F s V t [] = True"
| "path_ok F s V t [i] = (t \<notin> V \<and> table_slot F s t i \<and> off_tables F (slot t i) 8)"
| "path_ok F s V t (i # j # is) =
     (t \<notin> V \<and> table_slot F s t i \<and> entry_ok F (mem s) (slot t i) \<and>
      (case next_table (mem s) (slot t i) of
         None \<Rightarrow> (\<forall>k\<in>set (j # is). unat k < 512)
       | Some u \<Rightarrow> path_ok F s (insert t V) u (j # is)))"

lemma path_ok_head: "path_ok F s V t (i # is) \<Longrightarrow> t \<notin> V \<and> table_slot F s t i"
  by (cases "is") auto

lemma path_ok_bound: "path_ok F s V t is \<Longrightarrow> k \<in> set is \<Longrightarrow> unat k < 512"
  by (induction F s V t "is" rule: path_ok.induct) (auto simp: table_slot_def split: option.splits)

text \<open>Entries of other tables survive a level.\<close>

lemma slots_apart:
  assumes "table_slot F s u k" "page_aligned t" "u \<noteq> t" "unat i < 512"
  shows "apart (slot t i) 8 (slot u k) 8"
  using apart_in_frames [of t u "8 * unat i" 8 "8 * unat k" 8] assms
  by (auto simp: table_slot_def slot_def)

lemma table_slot_mono:
  assumes "table_slot F s u k" "free_frames s' \<subseteq> free_frames s"
    and "s' = s\<lparr>mem := mem s', invlpg_log := invlpg_log s'\<rparr>"
  shows "table_slot F s' u k"
proof -
  have "mem_bitmap s' = mem_bitmap s" "mem_bitmap_size s' = mem_bitmap_size s"
    by (subst assms(3), simp)+
  then show ?thesis using assms(1,2) by (auto simp: table_slot_def bm_base_def)
qed

lemma other_slot_kept:
  assumes "table_slot F s u k" "u \<noteq> t" "table_slot F s t i"
    and "\<And>x. untouched F s x \<Longrightarrow> 8 \<le> unat (x - slot t i) \<Longrightarrow> m x = mem s x"
  shows "pread64 m (slot u k) = pread64 (mem s) (slot u k)"
proof (rule pread64_agree)
  fix b :: nat assume b: "b < 8"
  have "apart (slot t i) 8 (slot u k) 8"
    using assms by (intro slots_apart) (auto simp: table_slot_def)
  from apart_outside [OF this b] table_slot_untouched [OF assms(1) b] assms(4)
  show "m (slot u k + of_nat b) = mem s (slot u k + of_nat b)" by blast
qed

lemma path_ok_kept:
  assumes "path_ok F s V u is" "t \<in> V" "table_slot F s t i" "free_frames s' \<subseteq> free_frames s"
    and "s' = s\<lparr>mem := mem s', invlpg_log := invlpg_log s'\<rparr>"
    and "\<And>x. untouched F s x \<Longrightarrow> 8 \<le> unat (x - slot t i) \<Longrightarrow> mem s' x = mem s x"
  shows "path_ok F s' V u is"
  using assms(1,2)
proof (induction "is" arbitrary: u V rule: induct_list012)
  case (3 k l ls)
  have u: "u \<notin> V" "table_slot F s u k" using path_ok_head [OF 3(3)] by auto
  then have "u \<noteq> t" using 3(4) by auto
  then have e: "pread64 (mem s') (slot u k) = pread64 (mem s) (slot u k)"
    using other_slot_kept [OF u(2) _ assms(3,6)] by blast
  then have n: "next_table (mem s') (slot u k) = next_table (mem s) (slot u k)"
    by (simp add: next_table_def)
  show ?case
    using 3(2) [of "insert u V"] 3(3,4) u table_slot_mono [OF u(2) assms(4,5)] e n
    by (auto simp: entry_ok_def split: option.splits)
qed (use table_slot_mono [OF _ assms(4,5)] in auto)

lemma path_ok_new:
  assumes "vm_inv F s" "f \<in> free_frames s" "f \<notin> V" "\<And>k. k \<in> set is \<Longrightarrow> unat k < 512"
    and "f \<notin> free_frames s'" "s' = s\<lparr>mem := mem s', invlpg_log := invlpg_log s'\<rparr>"
    and "\<And>k. k < 512 \<Longrightarrow> pread64 (mem s') (slot f (of_nat k)) = 0"
  shows "path_ok F s' V f is"
proof -
  have bm: "bm_base s' = bm_base s" "mem_bitmap_size s' = mem_bitmap_size s"
    by (subst assms(6), simp add: bm_base_def)+
  have ts: "table_slot F s' f k" if "unat k < 512" for k
  proof -
    have part: "apart f 4096 q n \<Longrightarrow> 0 < n \<Longrightarrow> apart (slot f k) 8 q n" for q n
      using apart_sub [of f 4096 q n "8 * unat k" 8 0 n] that by (simp add: slot_def)
    show ?thesis
      using assms that vm_invD(7) [OF assms(1)] free_frame [OF assms(1,2)]
      by (auto simp: table_slot_def bm intro!: part)
  qed
  have off: "off_tables F (slot f k) 8" if "unat k < 512" for k
    using off_tables_sub [OF free_frame(4) [OF assms(1,2)], of "8 * unat k" 8] that
    by (simp add: slot_def)
  have z: "pread64 (mem s') (slot f k) = 0" if "unat k < 512" for k
    using assms(7) [OF that] by simp
  show ?thesis
    using assms(3,4)
    by (cases "(F, s', V, f, is)" rule: path_ok.cases)
      (auto simp: ts z off entry_ok_def next_table_def)
qed

end
