(* ===== verification/Vmm_Map.thy ===== *)
theory Vmm_Map
  imports Vmm
begin

text \<open>
  Mapping a page: the levels of \<open>map_page\<close> compose to a mapping that the hardware's walk finds and
  that \<open>get_physical_address\<close> reads back; out of memory ends in a panic.
\<close>

section \<open>A level leads to the next\<close>

text \<open>What a run keeps: all variables but the memory and the log of \<open>invlpg\<close>, the invariant, the
  frames in use, and the bytes outside the bitmap, the free frames, the temporary entry and the
  entries at the given addresses.\<close>

definition vm_step :: "kframes \<Rightarrow> u64 set \<Rightarrow> machine \<Rightarrow> machine \<Rightarrow> bool" where
  "vm_step F P s s' \<longleftrightarrow>
     vm_inv F s' \<and> s' = s\<lparr>mem := mem s', invlpg_log := invlpg_log s'\<rparr> \<and> pmm_used s \<subseteq> pmm_used s' \<and>
     (\<forall>x. untouched F s x \<longrightarrow> (\<forall>p\<in>P. 8 \<le> unat (x - p)) \<longrightarrow> mem s' x = mem s x)"

lemma step_fields:
  assumes "s' = s\<lparr>mem := mem s', invlpg_log := invlpg_log s'\<rparr>"
  shows "pmm_frames s' = pmm_frames s" "bm_base s' = bm_base s" "mem_bitmap_size s' = mem_bitmap_size s"
    "cr3 s' = cr3 s" "pml4t s' = pml4t s" "mem_bitmap_bit_size s' = mem_bitmap_bit_size s"
    "mem_bitmap s' = mem_bitmap s"
  by (subst assms, simp add: pmm_frames_def bm_base_def)+

lemma step_form_trans:
  assumes "s'' = s'\<lparr>mem := mem s'', invlpg_log := invlpg_log s''\<rparr>"
    "s' = s\<lparr>mem := mem s', invlpg_log := invlpg_log s'\<rparr>"
  shows "s'' = s\<lparr>mem := mem s'', invlpg_log := invlpg_log s''\<rparr>"
proof -
  obtain m l where 1: "s'' = s'\<lparr>mem := m, invlpg_log := l\<rparr>" using assms(1) by blast
  obtain m' l' where 2: "s' = s\<lparr>mem := m', invlpg_log := l'\<rparr>" using assms(2) by blast
  show ?thesis unfolding 1 2 by simp
qed

lemma vm_step_free:
  assumes "vm_step F P s s'"
  shows "free_frames s' \<subseteq> free_frames s"
proof -
  have "pmm_frames s' = pmm_frames s"
    by (rule step_fields) (use assms in \<open>auto simp: vm_step_def\<close>)
  then show ?thesis using assms by (auto simp: vm_step_def free_frames_def)
qed

lemma vm_step_untouched:
  assumes "vm_step F P s s'" "untouched F s x"
  shows "untouched F s' x"
proof -
  have "bm_base s' = bm_base s" "mem_bitmap_size s' = mem_bitmap_size s"
    by (rule step_fields; use assms in \<open>simp add: vm_step_def\<close>)+
  then show ?thesis using vm_step_free [OF assms(1)] assms(2) by (auto simp: untouched_def)
qed

lemma vm_step_trans:
  assumes "vm_step F P s s'" "vm_step F Q s' s''"
  shows "vm_step F (P \<union> Q) s s''"
proof -
  have "s'' = s'\<lparr>mem := mem s'', invlpg_log := invlpg_log s''\<rparr>"
    "s' = s\<lparr>mem := mem s', invlpg_log := invlpg_log s'\<rparr>" using assms by (auto simp: vm_step_def)
  then have "s'' = s\<lparr>mem := mem s'', invlpg_log := invlpg_log s''\<rparr>" by (rule step_form_trans)
  then show ?thesis using assms vm_step_untouched [OF assms(1)] by (auto simp: vm_step_def)
qed


lemma vm_step_slot:
  assumes "vm_step F {slot t i} s s'" "table_slot F s u k" "u \<noteq> t" "table_slot F s t i"
  shows "pread64 (mem s') (slot u k) = pread64 (mem s) (slot u k)" "table_slot F s' u k"
proof -
  show "pread64 (mem s') (slot u k) = pread64 (mem s) (slot u k)"
    by (rule other_slot_kept [OF assms(2-4)]) (use assms(1) in \<open>simp add: vm_step_def\<close>)
  show "table_slot F s' u k"
    by (rule table_slot_mono [OF assms(2) vm_step_free [OF assms(1)]])
      (use assms(1) in \<open>auto simp: vm_step_def\<close>)
qed

lemma finite_frames: "finite (free_frames s)"
  by (rule finite_subset [OF subset_UNIV]) simp

text \<open>The effect of a level on the entry it works on and on the table below.\<close>

definition level_step :: "kframes \<Rightarrow> machine \<Rightarrow> u64 \<Rightarrow> u64 \<Rightarrow> machine \<Rightarrow> u64 \<Rightarrow> bool" where
  "level_step F s t i s' f \<longleftrightarrow>
     vm_step F {slot t i} s s' \<and> next_table (mem s') (slot t i) = Some f \<and>
     (case next_table (mem s) (slot t i) of
        Some g \<Rightarrow> f = g \<and> free_frames s' = free_frames s
          \<and> pread64 (mem s') (slot t i) = pread64 (mem s) (slot t i)
      | None \<Rightarrow> f \<in> free_frames s \<and> free_frames s' = free_frames s - {f}
          \<and> (\<forall>k<512. pread64 (mem s') (slot f (of_nat k)) = 0))"

lemma level_descend:
  assumes inv: "vm_inv F s" and at: "entry_at s va (slot t i)"
    and path: "path_ok F s V t (i # j # is)" and V: "V \<inter> free_frames s = {}"
    and flags: "unat flags < 0x1000" "flags AND 0x80 = 0"
    and free: "next_table (mem s) (slot t i) = None \<Longrightarrow> free_frames s \<noteq> {}"
  shows "\<exists>s' f. map_level va flags s = (Inr (), s') \<and> level_step F s t i s' f
     \<and> entry_at s' (slot TEMP_PAGE j) (slot f j)
     \<and> path_ok F s' (insert t V) f (j # is) \<and> insert t V \<inter> free_frames s' = {}"
proof -
  have ts: "table_slot F s t i" and ok: "entry_ok F (mem s) (slot t i)"
    and below: "case next_table (mem s) (slot t i) of None \<Rightarrow> \<forall>k\<in>set (j # is). unat k < 512
       | Some u \<Rightarrow> path_ok F s (insert t V) u (j # is)" using path by auto
  obtain s' f where run: "map_level va flags s = (Inr (), s')" "vm_inv F s'" "temp_frame F (mem s') f"
      "next_table (mem s') (slot t i) = Some f"
    and cas: "case next_table (mem s) (slot t i) of
          Some g \<Rightarrow> f = g \<and> pmm_used s' = pmm_used s
             \<and> pread64 (mem s') (slot t i) = pread64 (mem s) (slot t i)
        | None \<Rightarrow> f \<in> free_frames s \<and> pmm_used s' = insert f (pmm_used s)
             \<and> (\<forall>k<512. pread64 (mem s') (slot f (of_nat k)) = 0)"
    and form: "s' = s\<lparr>mem := mem s', invlpg_log := invlpg_log s'\<rparr>"
    and out: "\<forall>x. untouched F s x \<longrightarrow> 8 \<le> unat (x - slot t i) \<longrightarrow> mem s' x = mem s x"
    using map_level_step [OF inv at ts flags] ok free by (auto simp: entry_ok_def next_table_def split: if_splits)
  have step: "vm_step F {slot t i} s s'"
    using run(2) form cas out by (auto simp: vm_step_def split: option.splits)
  note sub = vm_step_free [OF step]
  have j: "unat j < 512" using path_ok_bound [OF path] by simp
  have "entry_at s' (slot TEMP_PAGE j) (slot f j)"
    using entry_at_temp [OF run(2,3), of "8 * unat j"] j by (simp add: slot_def)
  moreover have "path_ok F s' (insert t V) f (j # is)"
  proof (cases "next_table (mem s) (slot t i)")
    case None
    then have "f \<noteq> t" "f \<notin> V" "f \<notin> free_frames s'"
      using cas ts V by (auto simp: table_slot_def free_frames_def)
    then show ?thesis
      using None cas below by (intro path_ok_new [OF inv _ _ _ _ form]) auto
  next
    case (Some g)
    then show ?thesis using path_ok_kept [OF _ _ ts sub form] out cas below by simp
  qed
  moreover have "insert t V \<inter> free_frames s' = {}"
    using sub V ts by (auto simp: table_slot_def)
  moreover have "level_step F s t i s' f"
    using step run(4) cas step_fields(1) [OF form]
    by (auto simp: level_step_def free_frames_def split: option.splits)
  ultimately show ?thesis using run(1) by blast
qed


section \<open>Mapping a page\<close>

abbreviation va_path :: "u64 \<Rightarrow> u64 list" where
  "va_path va \<equiv> [pml4_index va, pdpt_index va, pd_index va, pt_index va]"

text \<open>What \<open>map_page\<close> needs of an address space: its top table is a frame of physical memory that
  the pointer in the context reaches, and the tables on the path of the address are in order.\<close>

definition space_ok :: "kframes \<Rightarrow> machine \<Rightarrow> page_table_t \<Rightarrow> u64 \<Rightarrow> u64 \<Rightarrow> bool" where
  "space_ok F s ctx C va \<longleftrightarrow>
     C AND PAGE_MASK = C \<and> entry_at s (slot (ctx_pml4t ctx) (pml4_index va)) (slot C (pml4_index va)) \<and>
     path_ok F s {} C (va_path va)"

text \<open>The levels as a recursion over the indices, the entry the walk ends at, and the entries it
  passes.\<close>

fun descend :: "u64 \<Rightarrow> u64 list \<Rightarrow> u64 \<Rightarrow> u64 \<Rightarrow> unit kern" where
  "descend va (i # j # is) flags e = andthen (map_level va flags) (descend (slot TEMP_PAGE j) (j # is) flags e)"
| "descend va _ flags e = store64 va e"

fun walk_to :: "pmem \<Rightarrow> u64 \<Rightarrow> u64 list \<Rightarrow> u64 option" where
  "walk_to m t [] = None"
| "walk_to m t [i] = Some (slot t i)"
| "walk_to m t (i # j # is) =
     (case next_table m (slot t i) of None \<Rightarrow> None | Some u \<Rightarrow> walk_to m u (j # is))"

fun walk_slots :: "pmem \<Rightarrow> u64 \<Rightarrow> u64 list \<Rightarrow> u64 set" where
  "walk_slots m t [] = {}"
| "walk_slots m t [i] = {slot t i}"
| "walk_slots m t (i # j # is) =
     insert (slot t i) (case next_table m (slot t i) of None \<Rightarrow> {} | Some u \<Rightarrow> walk_slots m u (j # is))"

text \<open>The number of tables that the walk does not find.\<close>

fun missing :: "pmem \<Rightarrow> u64 \<Rightarrow> u64 list \<Rightarrow> nat" where
  "missing m t (i # j # is) =
     (case next_table m (slot t i) of None \<Rightarrow> length (j # is) | Some u \<Rightarrow> missing m u (j # is))"
| "missing m t _ = 0"

lemma map_page_descend:
  "map_page ctx va pa flags
     = descend (slot (ctx_pml4t ctx) (pml4_index va)) (va_path va) flags (pa OR flags)"
  by (simp add: map_page_def)

lemma mmu_walk_to:
  "mmu_walk m root va =
     (case walk_to m (root AND PAGE_MASK) (va_path va) of
        None \<Rightarrow> None
      | Some p \<Rightarrow> map_option (\<lambda>f. f + (va AND 0xFFF)) (leaf_frame m p))"
  by (auto simp: mmu_walk_def split: option.splits)

lemma leaf_store:
  fixes e :: u64
  assumes "vm_inv F s" "entry_at s va (slot t i)" "table_slot F s t i" "off_tables F (slot t i) 8"
  defines "s' \<equiv> s\<lparr>mem := pwrite64 (mem s) (slot t i) e\<rparr>"
  shows "store64 va e s = (Inr (), s')" "vm_step F {slot t i} s s'" "pread64 (mem s') (slot t i) = e"
    "pmm_used s' = pmm_used s"
proof -
  show "store64 va e s = (Inr (), s')"
    unfolding s'_def by (rule store64_mapped [OF entry_at_mapped [OF assms(2)]])
  show "vm_step F {slot t i} s s'" "pmm_used s' = pmm_used s"
    using vm_inv_pwrite [OF assms(1), of "slot t i" "le_bytes 8 e"] assms(3,4)
    by (simp_all add: vm_step_def s'_def table_slot_def pwrite64_def pwrite_outside)
  show "pread64 (mem s') (slot t i) = e" by (simp add: s'_def)
qed

lemma walk_to_kept:
  assumes "path_ok F s V u is" "t \<in> V" "table_slot F s t i" "vm_step F {slot t i} s s'"
  shows "walk_to (mem s') u is = walk_to (mem s) u is \<and> missing (mem s') u is = missing (mem s) u is"
  using assms(1,2)
proof (induction "is" arbitrary: u V rule: induct_list012)
  case (3 k l ls)
  have u: "u \<notin> V" "table_slot F s u k" using path_ok_head [OF 3(3)] by auto
  have "pread64 (mem s') (slot u k) = pread64 (mem s) (slot u k)"
    using vm_step_slot(1) [OF assms(4) u(2) _ assms(3)] u(1) 3(4) by blast
  then have "next_table (mem s') (slot u k) = next_table (mem s) (slot u k)"
    by (simp add: next_table_def)
  then show ?case using 3(2) [of "insert u V"] 3(3,4) by (auto split: option.splits)
qed simp_all

text \<open>Of a table other than a free frame, a level changes an entry only if it was not present.\<close>

lemma slot_eq_or_apart:
  assumes "page_aligned t" "page_aligned u" "unat i < 512" "unat k < 512" "slot t i \<noteq> slot u k"
  shows "apart (slot t i) 8 (slot u k) 8"
proof (cases "t = u")
  case True
  then have "unat i \<noteq> unat k" using assms(5) word_unat_eq_iff [of i k] by metis
  then have "8 * unat i + 8 \<le> 8 * unat k \<or> 8 * unat k + 8 \<le> 8 * unat i" by arith
  then have "apart (u + of_nat (8 * unat i)) 8 (u + of_nat (8 * unat k)) 8"
    using assms(3,4) apart_offsets [of "8 * unat i" 8 "8 * unat k" 8 u]
      apart_sym [OF apart_offsets [of "8 * unat k" 8 "8 * unat i" 8 u]] by auto
  then show ?thesis by (simp add: slot_offset True del: of_nat_mult)
next
  case False
  then show ?thesis
    using apart_in_frames [OF assms(1,2) False, of "8 * unat i" 8 "8 * unat k" 8] assms(3,4)
    by (simp add: slot_offset)
qed

lemma level_step_present:
  assumes "level_step F s t i s' f" "table_slot F s t i" "entry_ok F (mem s) (slot t i)"
    and "table_slot F s u k" "pread64 (mem s) (slot u k) AND 1 \<noteq> 0"
  shows "pread64 (mem s') (slot u k) = pread64 (mem s) (slot u k)"
proof (cases "slot t i = slot u k")
  case True
  then show ?thesis
    using assms(1,3,5) by (auto simp: level_step_def entry_ok_def next_table_def split: option.splits)
next
  case False
  then have ap: "apart (slot t i) 8 (slot u k) 8"
    using assms(2,4) by (intro slot_eq_or_apart) (auto simp: table_slot_def)
  show ?thesis
    by (rule pread64_agree)
      (use assms(1) apart_outside [OF ap] table_slot_untouched [OF assms(4)] in
        \<open>auto simp: level_step_def vm_step_def\<close>)
qed

text \<open>The whole descent: it returns, the walk of the final memory ends at the entry that was
  written, at most one frame per table was taken, and every present entry of a table in use keeps
  its value, the last one apart. The last entry is the one the walk found before, or lies in a frame
  that was free.\<close>

definition descent :: "kframes \<Rightarrow> machine \<Rightarrow> u64 \<Rightarrow> u64 list \<Rightarrow> u64 \<Rightarrow> machine \<Rightarrow> u64 \<Rightarrow> bool" where
  "descent F s t is e s' p \<longleftrightarrow>
     vm_step F (walk_slots (mem s') t is) s s' \<and>
     walk_to (mem s') t is = Some p \<and> pread64 (mem s') p = e \<and>
     card (free_frames s) = card (free_frames s') + missing (mem s) t is \<and>
     (walk_to (mem s) t is = Some p \<or> (\<exists>f\<in>free_frames s. \<exists>k. unat k < 512 \<and> p = slot f k)) \<and>
     (\<forall>u k. table_slot F s u k \<longrightarrow> pread64 (mem s) (slot u k) AND 1 \<noteq> 0 \<longrightarrow> slot u k \<noteq> p \<longrightarrow>
        pread64 (mem s') (slot u k) = pread64 (mem s) (slot u k))"

lemma slot_inj:
  assumes "page_aligned t" "page_aligned u" "unat i < 512" "unat k < 512" "slot t i = slot u k"
  shows "t = u"
proof (rule ccontr)
  assume "t \<noteq> u"
  from apart_in_frames [OF assms(1,2) this, of "8 * unat i" 8 "8 * unat k" 8] assms(3,4)
  have "apart (slot t i) 8 (slot u k) 8" by (simp add: slot_offset)
  then show False using assms(5) by (simp add: apart_def)
qed

lemma walk_to_slot:
  "path_ok F s V t is \<Longrightarrow> walk_to (mem s) t is = Some p \<Longrightarrow>
     \<exists>u i. p = slot u i \<and> u \<notin> V \<and> table_slot F s u i"
proof (induction "is" arbitrary: t V rule: induct_list012)
  case (3 i j ls)
  then obtain u where "path_ok F s (insert t V) u (j # ls)" "walk_to (mem s) u (j # ls) = Some p"
    by (auto split: option.splits)
  from 3(2) [OF this] show ?case by blast
qed auto

lemma table_slot_step: "table_slot F s u k \<Longrightarrow> vm_step F P s s' \<Longrightarrow> table_slot F s' u k"
  using table_slot_mono [of F s u k s'] vm_step_free [of F P s s'] by (simp add: vm_step_def)

lemma level_step_new:
  assumes "level_step F s t i s1 f" "next_table (mem s) (slot t i) = None" "unat j < 512"
  shows "f \<in> free_frames s" "free_frames s1 = free_frames s - {f}" "next_table (mem s1) (slot f j) = None"
proof -
  have *: "f \<in> free_frames s \<and> free_frames s1 = free_frames s - {f}
      \<and> (\<forall>k<512. pread64 (mem s1) (slot f (of_nat k)) = 0)"
    using assms(1,2) unfolding level_step_def by simp
  then show "f \<in> free_frames s" "free_frames s1 = free_frames s - {f}" by blast+
  have "\<forall>k<512. pread64 (mem s1) (slot f (of_nat k)) = 0" using * by blast
  from this [rule_format, OF assms(3)] have "pread64 (mem s1) (slot f j) = 0" by simp
  then show "next_table (mem s1) (slot f j) = None" by (simp add: next_table_def)
qed

lemma level_step_missing:
  assumes "path_ok F s V t (i # j # is)" "level_step F s t i s1 f"
  shows "card (free_frames s) + missing (mem s1) f (j # is)
     = card (free_frames s1) + missing (mem s) t (i # j # is)"
proof (cases "next_table (mem s) (slot t i)")
  case None
  have "unat j < 512" by (rule path_ok_bound [OF assms(1)]) simp
  note f = level_step_new [OF assms(2) None this]
  have "Suc (card (free_frames s1)) = card (free_frames s)"
    unfolding f(2) by (rule card.remove [OF finite_frames f(1), symmetric])
  then show ?thesis using None f(3) assms(1) by (cases "is") auto
next
  case (Some g)
  have ts: "table_slot F s t i" and st: "vm_step F {slot t i} s s1"
    using assms by (auto simp: level_step_def)
  show ?thesis
    using Some assms walk_to_kept [OF _ _ ts st, of "insert t V" f "j # is"]
    by (auto simp: level_step_def)
qed

lemma descent_cons:
  assumes path: "path_ok F s V t (i # j # is)" and lev: "level_step F s t i s1 f"
    and path1: "path_ok F s1 (insert t V) f (j # is)"
    and V: "t \<notin> free_frames s1"
    and desc: "descent F s1 f (j # is) e s' p"
  shows "descent F s t (i # j # is) e s' p \<and> next_table (mem s') (slot t i) = Some f"
proof -
  have ts: "table_slot F s t i" and ok: "entry_ok F (mem s) (slot t i)" using path by auto
  have st: "vm_step F {slot t i} s s1" using lev by (simp add: level_step_def)
  note sub = vm_step_free [OF st]
  have ts1: "table_slot F s1 t i" by (rule table_slot_step [OF ts st])
  have or: "walk_to (mem s1) f (j # is) = Some p \<or> (\<exists>g\<in>free_frames s1. \<exists>k. unat k < 512 \<and> p = slot g k)"
    using desc by (simp add: descent_def)
  have aligned: "page_aligned g" if "g \<in> free_frames s1" for g
    using that by (auto simp: free_frames_def pmm_frames_def)
  obtain u k where u: "p = slot u k" "page_aligned u" "unat k < 512" "u \<noteq> t"
    using or walk_to_slot [OF path1] V aligned by (auto simp: table_slot_def)
  have np: "slot t i \<noteq> p"
    using slot_inj [of t u i k] u ts by (auto simp: table_slot_def)
  have pres: "pread64 (mem s1) (slot t i) AND 1 \<noteq> 0"
    using lev by (auto simp: level_step_def next_table_def Let_def split: if_splits)
  then have e': "pread64 (mem s') (slot t i) = pread64 (mem s1) (slot t i)"
    using desc ts1 np by (simp add: descent_def)
  then have nt: "next_table (mem s') (slot t i) = Some f"
    using lev by (simp add: level_step_def next_table_def)
  have keep: "pread64 (mem s') (slot u k) = pread64 (mem s) (slot u k)"
    if u: "table_slot F s u k" "pread64 (mem s) (slot u k) AND 1 \<noteq> 0" "slot u k \<noteq> p" for u k
    using level_step_present [OF lev ts ok u(1,2)] table_slot_step [OF u(1) st] u desc
    by (simp add: descent_def)
  have "walk_to (mem s) t (i # j # is) = Some p \<or> (\<exists>g\<in>free_frames s. \<exists>k. unat k < 512 \<and> p = slot g k)"
  proof (cases "next_table (mem s) (slot t i)")
    case None
    have "unat j < 512" by (rule path_ok_bound [OF path]) simp
    then show ?thesis using or sub level_step_new [OF lev None] by (cases "is") auto
  next
    case (Some g)
    then have "walk_to (mem s1) f (j # is) = walk_to (mem s) f (j # is)" "f = g"
      using path lev walk_to_kept [OF _ _ ts st, of "insert t V" f "j # is"] by (auto simp: level_step_def)
    then show ?thesis using or sub Some by auto
  qed
  then show ?thesis
    using desc nt keep level_step_missing [OF path lev] vm_step_trans [OF st] unfolding descent_def by auto
qed

lemma descend_run:
  assumes "vm_inv F s" "entry_at s va (slot t (hd is))" "path_ok F s V t is" "is \<noteq> []"
    and "V \<inter> free_frames s = {}" "unat flags < 0x1000" "flags AND 0x80 = 0"
    and "missing (mem s) t is \<le> card (free_frames s)"
  shows "\<exists>s' p. descend va is flags e s = (Inr (), s') \<and> descent F s t is e s' p \<and> path_ok F s' V t is"
  using assms(1-5,8)
proof (induction "is" arbitrary: s va t V rule: induct_list012)
  case (2 i)
  then have ts: "table_slot F s t i" "off_tables F (slot t i) 8" and at: "entry_at s va (slot t i)" by auto
  note st = leaf_store [OF 2(1) at ts, of e]
  let ?s = "s\<lparr>mem := pwrite64 (mem s) (slot t i) e\<rparr>"
  have "free_frames ?s = free_frames s" using st(4) by (simp add: free_frames_def pmm_frames_def)
  moreover have "pread64 (mem ?s) (slot u k) = pread64 (mem s) (slot u k)"
    if "table_slot F s u k" "slot u k \<noteq> slot t i" for u k
    using slot_eq_or_apart [of t u i k] that ts by (auto simp: table_slot_def pread64_pwrite64_apart)
  ultimately show ?case
    using st ts 2(3) table_slot_step [OF ts(1) st(2)]
    by (intro exI [of _ ?s] exI [of _ "slot t i"]) (simp add: descent_def)
next
  case (3 i j "is")
  have at: "entry_at s va (slot t i)" using 3(4) by simp
  have "next_table (mem s) (slot t i) = None \<Longrightarrow> free_frames s \<noteq> {}" using 3(8) by auto
  from level_descend [OF 3(3) at 3(5,7) assms(6,7) this] obtain s1 f where
    s1: "map_level va flags s = (Inr (), s1)" "level_step F s t i s1 f"
      "entry_at s1 (slot TEMP_PAGE j) (slot f j)"
      "path_ok F s1 (insert t V) f (j # is)" "insert t V \<inter> free_frames s1 = {}" by blast
  have "vm_inv F s1" using s1(2) by (simp add: level_step_def vm_step_def)
  from 3(2) [OF this, of "slot TEMP_PAGE j" f "insert t V"] s1 3(8) level_step_missing [OF 3(5) s1(2)]
  obtain s' p where
    s': "descend (slot TEMP_PAGE j) (j # is) flags e s1 = (Inr (), s')"
      "descent F s1 f (j # is) e s' p" "path_ok F s' (insert t V) f (j # is)" by auto
  have d: "descent F s t (i # j # is) e s' p" "next_table (mem s') (slot t i) = Some f"
    using descent_cons [OF 3(5) s1(2,4) _ s'(2)] s1(5) by auto
  have "vm_step F (walk_slots (mem s') t (i # j # is)) s s'" using d(1) by (simp add: descent_def)
  with 3(5) have "table_slot F s' t i" using table_slot_step by auto
  then have "path_ok F s' V t (i # j # is)"
    using 3(5) d(2) s'(3) by (auto simp: entry_ok_def next_table_def Let_def split: if_splits)
  then show ?case using d(1) s'(1) s1(1) by (intro exI [of _ s'] exI [of _ p]) (simp add: monad)
qed simp

section \<open>Out of memory\<close>

lemma map_level_panic:
  assumes "vm_inv F s" "entry_at s va (slot t i)" "entry_ok F (mem s) (slot t i)"
    and "next_table (mem s) (slot t i) = None" "free_frames s = {}"
  shows "map_level va flags s = panic ''Out of physical memory for page table!'' s"
proof -
  have "first_free s 0 = None"
  proof (rule ccontr)
    assume "first_free s 0 \<noteq> None"
    then obtain j where "first_free s 0 = Some j" by blast
    from fresh_frame(6) [OF assms(1) this] show False using assms(5) by simp
  qed
  then have "pmm_alloc s = (Inr 0, s)" using pmm_alloc_run [OF vm_invD(2) [OF assms(1)]] by simp
  moreover have "pread64 (mem s) (slot t i) AND 1 = 0"
    using assms(3,4) by (auto simp: entry_ok_def next_table_def Let_def split: if_splits)
  ultimately show ?thesis
    using load64_mapped [OF entry_at_mapped [OF assms(2)]] by (simp add: map_level_def monad)
qed

lemma oom_panic:
  assumes "kwin F s" "off_tables F 0xB8000 4000"
  shows "fst ((panic ''Out of physical memory for page table!'' :: unit kern) s)
     = Inl (Panic ''Out of physical memory for page table!'')"
  using panic_run [where 'a = unit, OF assms(1), of "''Out of physical memory for page table!''"]
    off_tables_sub [OF assms(2), of 1920 76] by (simp add: c_string_def)

lemma descend_panic:
  assumes "vm_inv F s" "entry_at s va (slot t (hd is))" "path_ok F s V t is"
    and "V \<inter> free_frames s = {}" "unat flags < 0x1000" "flags AND 0x80 = 0"
    and "card (free_frames s) < missing (mem s) t is"
    and "off_tables F 0xB8000 4000"
  shows "fst (descend va is flags e s) = Inl (Panic ''Out of physical memory for page table!'')"
  using assms(1-4,7)
proof (induction "is" arbitrary: s va t V rule: induct_list012)
  case (3 i j "is")
  have at: "entry_at s va (slot t i)" and ok: "entry_ok F (mem s) (slot t i)" using 3(4,5) by auto
  show ?case
  proof (cases "next_table (mem s) (slot t i) = None \<and> free_frames s = {}")
    case True
    then show ?thesis
      using map_level_panic [OF 3(3) at ok] oom_panic [OF vm_invD(3) [OF 3(3)] assms(8)]
      by (auto simp: monad split: prod.splits)
  next
    case False
    then have "next_table (mem s) (slot t i) = None \<Longrightarrow> free_frames s \<noteq> {}" by blast
    from level_descend [OF 3(3) at 3(5,6) assms(5,6) this] obtain s1 f where
      s1: "map_level va flags s = (Inr (), s1)" "level_step F s t i s1 f"
        "entry_at s1 (slot TEMP_PAGE j) (slot f j)"
        "path_ok F s1 (insert t V) f (j # is)" "insert t V \<inter> free_frames s1 = {}" by blast
    have "vm_inv F s1" using s1(2) by (simp add: level_step_def vm_step_def)
    from 3(2) [OF this, of "slot TEMP_PAGE j" f "insert t V"] s1 3(7) level_step_missing [OF 3(5) s1(2)]
    show ?thesis by (simp add: monad)
  qed
qed simp_all

section \<open>Reading a mapping\<close>

text \<open>The levels of \<open>get_physical_address\<close> and \<open>unmap_page\<close> as a recursion: follow the entries
  through the temporary page to the last table.\<close>

fun read_down :: "u64 \<Rightarrow> u64 list \<Rightarrow> u64 kern" where
  "read_down va (i # j # is) =
     bind (load64 va) (\<lambda>e. andthen (temp_map (e AND PAGE_MASK)) (read_down (slot TEMP_PAGE j) (j # is)))"
| "read_down va _ = load64 va"

lemma get_physical_address_read:
  "get_physical_address ctx va =
     bind (read_down (slot (ctx_pml4t ctx) (pml4_index va)) (va_path va))
       (\<lambda>e. ret ((e AND PAGE_MASK) + (va AND 0xFFF)))"
  by (rule ext) (simp add: get_physical_address_def monad split: prod.splits sum.splits)

text \<open>Only the entry of the temporary page and the log differ.\<close>

definition temp_only :: "kframes \<Rightarrow> machine \<Rightarrow> machine \<Rightarrow> bool" where
  "temp_only F s s' \<longleftrightarrow>
     vm_inv F s' \<and> pmm_used s' = pmm_used s \<and> s' = s\<lparr>mem := mem s', invlpg_log := invlpg_log s'\<rparr> \<and>
     (\<forall>x. 8 \<le> unat (x - temp_slot F) \<longrightarrow> mem s' x = mem s x)"

lemma temp_only_step: "temp_only F s s' \<Longrightarrow> vm_step F P s s'"
  by (simp add: temp_only_def vm_step_def untouched_def)

lemma temp_only_trans: "temp_only F s s' \<Longrightarrow> temp_only F s' s'' \<Longrightarrow> temp_only F s s''"
  unfolding temp_only_def using step_form_trans [of s'' s' s] by simp

lemma temp_only_refl: "vm_inv F s \<Longrightarrow> temp_only F s s"
  by (simp add: temp_only_def)

lemma temp_only_slot:
  assumes "temp_only F s s'" "apart (slot t i) 8 (temp_slot F) 8"
  shows "pread64 (mem s') (slot t i) = pread64 (mem s) (slot t i)"
  by (rule pread64_agree) (use assms apart_outside [OF apart_sym [OF assms(2)]] in \<open>auto simp: temp_only_def\<close>)

text \<open>The tables of a walk are in use and apart from the bitmap.\<close>

fun walk_ok :: "kframes \<Rightarrow> machine \<Rightarrow> u64 \<Rightarrow> u64 list \<Rightarrow> bool" where
  "walk_ok F s t [] = True"
| "walk_ok F s t [i] = table_slot F s t i"
| "walk_ok F s t (i # j # is) =
     (table_slot F s t i \<and>
      (case next_table (mem s) (slot t i) of None \<Rightarrow> (\<forall>k\<in>set (j # is). unat k < 512)
       | Some u \<Rightarrow> walk_ok F s u (j # is)))"

lemma path_walk_ok: "path_ok F s V t is \<Longrightarrow> walk_ok F s t is"
  by (induction F s V t "is" rule: path_ok.induct) (auto split: option.splits)

lemma temp_only_walk:
  "walk_ok F s t is \<Longrightarrow> temp_only F s s' \<Longrightarrow>
     walk_ok F s' t is \<and> walk_to (mem s') t is = walk_to (mem s) t is"
proof (induction "is" arbitrary: t rule: induct_list012)
  case (2 i)
  then show ?case using table_slot_step [OF _ temp_only_step] by auto
next
  case (3 i j "is")
  have ts: "table_slot F s t i" using 3(3) by simp
  have "next_table (mem s') (slot t i) = next_table (mem s) (slot t i)"
    using temp_only_slot [OF 3(4)] ts by (simp add: table_slot_def next_table_def)
  then show ?case
    using 3 table_slot_step [OF ts temp_only_step [OF 3(4)]] by (auto split: option.splits)
qed simp

lemma table_shown:
  assumes "vm_inv F s" "f AND PAGE_MASK = f"
  shows "temp_map f s = (Inr (), temp_mapped_state F f s)" "temp_only F s (temp_mapped_state F f s)"
    "temp_frame F (mem (temp_mapped_state F f s)) f"
    "\<And>j. unat j < 512 \<Longrightarrow> entry_at (temp_mapped_state F f s) (slot TEMP_PAGE j) (slot f j)"
proof -
  show "temp_map f s = (Inr (), temp_mapped_state F f s)" by (rule temp_map_run [OF vm_invD(3) [OF assms(1)]])
  show "temp_only F s (temp_mapped_state F f s)"
    using vm_inv_temp [OF assms(1)] temp_mapped_outside by (simp add: temp_only_def temp_mapped_state_def)
  have "page_aligned f" using masked_aligned [of f] assms(2) by simp
  then have "(f OR 0x13) AND PAGE_MASK = f" "(f OR 0x13) AND 1 \<noteq> 0"
    using assms(2) by (simp_all add: word_ao_dist flags_mask entry_flag)
  then show tf: "temp_frame F (mem (temp_mapped_state F f s)) f"
    using temp_frame_update [of "f OR 0x13"] by (simp add: temp_mapped_state_def)
  show "entry_at (temp_mapped_state F f s) (slot TEMP_PAGE j) (slot f j)" if "unat j < 512" for j
    using entry_at_temp [OF vm_inv_temp(1) [OF assms(1)] tf, of "8 * unat j"] that by (simp add: slot_def)
qed

lemma next_table_mask: "next_table m p = Some g \<Longrightarrow> g AND PAGE_MASK = g"
  by (auto simp: next_table_def Let_def and.assoc split: if_splits)

lemma walk_ok_bound: "walk_ok F s t is \<Longrightarrow> k \<in> set is \<Longrightarrow> unat k < 512"
  by (induction "is" arbitrary: t rule: induct_list012) (auto simp: table_slot_def split: option.splits)

lemma temp_map_level:
  assumes inv: "vm_inv F s" and walk: "walk_ok F s t (i # j # is)"
    and g: "next_table (mem s) (slot t i) = Some g"
  shows "\<exists>s1. temp_map g s = (Inr (), s1) \<and> temp_only F s s1
     \<and> entry_at s1 (slot TEMP_PAGE j) (slot g j) \<and> walk_ok F s1 g (j # is)
     \<and> walk_to (mem s1) g (j # is) = walk_to (mem s) g (j # is)"
proof -
  note sh = table_shown [OF inv next_table_mask [OF g]]
  have "walk_ok F s g (j # is)" "unat j < 512" using walk g walk_ok_bound [OF walk, of j] by auto
  then show ?thesis using temp_only_walk [OF _ sh(2)] sh by blast
qed

lemma walk_to_leaf:
  "walk_ok F s t is \<Longrightarrow> walk_to (mem s) t is = Some p \<Longrightarrow> \<exists>u i. p = slot u i \<and> table_slot F s u i"
proof (induction "is" arbitrary: t rule: induct_list012)
  case (3 i j ls)
  then show ?case by (auto split: option.splits)
qed auto

lemma read_down_run:
  assumes "vm_inv F s" "entry_at s va (slot t (hd is))" "walk_ok F s t is"
    and "walk_to (mem s) t is = Some p"
  shows "\<exists>s'. read_down va is s = (Inr (pread64 (mem s) p), s') \<and> temp_only F s s'"
  using assms
proof (induction "is" arbitrary: s va t rule: induct_list012)
  case (2 i)
  then show ?case
    using load64_mapped [OF entry_at_mapped [OF 2(2)]] temp_only_refl by auto
next
  case (3 i j "is")
  obtain g where g: "next_table (mem s) (slot t i) = Some g" "walk_to (mem s) g (j # is) = Some p"
    using 3(6) by (auto split: option.splits)
  obtain s1 where s1: "temp_map g s = (Inr (), s1)" "temp_only F s s1"
     "entry_at s1 (slot TEMP_PAGE j) (slot g j)" "walk_ok F s1 g (j # is)"
     "walk_to (mem s1) g (j # is) = Some p"
    using temp_map_level [OF 3(3,5) g(1)] g(2) by auto
  have "vm_inv F s1" using s1(2) by (simp add: temp_only_def)
  from 3(2) [OF this _ s1(4,5)] s1(3) obtain s' where
    s': "read_down (slot TEMP_PAGE j) (j # is) s1 = (Inr (pread64 (mem s1) p), s')" "temp_only F s1 s'"
    by auto
  have "apart p 8 (temp_slot F) 8"
    using walk_to_leaf [OF s1(4,5)] by (auto simp: table_slot_def)
  then have "pread64 (mem s1) p = pread64 (mem s) p"
    using temp_only_slot [OF s1(2), of p 0] by (simp add: slot_def)
  moreover have "load64 va s = (Inr (pread64 (mem s) (slot t i)), s)"
    using load64_mapped [OF entry_at_mapped] 3(4) by simp
  ultimately show ?case
    using s' s1(1) next_table_entry [OF g(1)] temp_only_trans [OF s1(2)] by (simp add: monad)
qed simp

section \<open>Other mappings\<close>

lemma walk_slots_in_use:
  "walk_ok F s t is \<Longrightarrow> p \<in> walk_slots (mem s) t is \<Longrightarrow> \<exists>u k. table_slot F s u k \<and> p = slot u k"
  by (induction "is" arbitrary: t rule: induct_list012) (auto split: option.splits)

lemma walk_kept:
  assumes "walk_ok F s t is" "walk_to (mem s) t is = Some q" "p \<notin> walk_slots (mem s) t is"
    and "\<And>u k. table_slot F s u k \<Longrightarrow> pread64 (mem s) (slot u k) AND 1 \<noteq> 0 \<Longrightarrow> slot u k \<noteq> p \<Longrightarrow>
        pread64 m (slot u k) = pread64 (mem s) (slot u k)"
  shows "walk_to m t is = Some q \<and>
     (pread64 (mem s) q AND 1 \<noteq> 0 \<longrightarrow> pread64 m q = pread64 (mem s) q)"
  using assms(1-3)
proof (induction "is" arbitrary: t rule: induct_list012)
  case (3 i j "is")
  obtain u where u: "next_table (mem s) (slot t i) = Some u" "walk_to (mem s) u (j # is) = Some q"
    using 3(4) by (auto split: option.splits)
  then have "pread64 m (slot t i) = pread64 (mem s) (slot t i)"
    using 3(3,5) by (intro assms(4)) (auto simp: next_table_def Let_def split: if_splits)
  then have "next_table m (slot t i) = Some u" using u(1) by (simp add: next_table_def)
  then show ?case using 3(2) [of u] 3(3,5) u by simp
qed (use assms(4) in auto)

lemma fresh_slot:
  assumes "f \<in> free_frames s" "unat k < 512" "table_slot F s u l"
  shows "slot f k \<noteq> slot u l"
  using slot_inj [of f u k l] assms by (auto simp: table_slot_def free_frames_def pmm_frames_def)

lemma mapping_kept:
  assumes "descent F s C is e s' p"
    and "walk_ok F s D (va_path va)" "mmu_walk (mem s) D va = Some q" "D AND PAGE_MASK = D"
    and "walk_to (mem s) C is = Some p \<Longrightarrow> p \<notin> walk_slots (mem s) D (va_path va)"
  shows "mmu_walk (mem s') D va = Some q"
proof -
  have or: "walk_to (mem s) C is = Some p \<or> (\<exists>f\<in>free_frames s. \<exists>k. unat k < 512 \<and> p = slot f k)"
    and keep: "\<And>u k. table_slot F s u k \<Longrightarrow> pread64 (mem s) (slot u k) AND 1 \<noteq> 0 \<Longrightarrow> slot u k \<noteq> p \<Longrightarrow>
        pread64 (mem s') (slot u k) = pread64 (mem s) (slot u k)"
    using assms(1) by (auto simp: descent_def)
  have np: "p \<notin> walk_slots (mem s) D (va_path va)"
  proof
    assume "p \<in> walk_slots (mem s) D (va_path va)"
    with walk_slots_in_use [OF assms(2)] obtain u l where "table_slot F s u l" "p = slot u l" by blast
    then show False using or fresh_slot assms(5) \<open>p \<in> _\<close> by metis
  qed
  obtain w where w: "walk_to (mem s) D (va_path va) = Some w" "pread64 (mem s) w AND 1 \<noteq> 0"
    using assms(3,4) unfolding mmu_walk_to
    by (auto simp: leaf_frame_def Let_def split: option.splits if_splits)
  from walk_kept [OF assms(2) w(1) np keep] w assms(3,4) show ?thesis
    unfolding mmu_walk_to by (simp add: leaf_frame_def)
qed

section \<open>The boot state\<close>

lemma boot_vm_inv: "vm_inv boot_frames boot_machine"
proof -
  have bm: "bm_base boot_machine = 0x26000" by (simp add: bm_base_def boot_machine_def kconst)
  have "\<forall>t\<in>{0x22000, 0x23000, 0x24000, 0x25000}. apart (0x26000 :: u64) 128 t 4096"
    by (simp add: apart_def)
  then show ?thesis
    using boot_pmm_ok boot_bits unfolding vm_inv_def bm
    by (auto simp: boot_machine_def boot_frames_def)
qed

lemma boot_bitmap_fields:
  "bm_base boot_machine = 0x26000" "unat (mem_bitmap_size boot_machine) = 128"
  by (simp_all add: bm_base_def boot_machine_def kconst)

lemma boot_table_slot:
  assumes "page_aligned t" "unat t + 8 * unat i + 8 \<le> 0x25FF8" "unat i < 512"
  shows "table_slot boot_frames boot_machine t i"
proof -
  note bm = boot_bitmap_fields
  have "t \<notin> free_frames boot_machine"
    using free_frame(2) [OF boot_vm_inv, of t] assms(2) by auto
  moreover have u: "unat (slot t i) = unat t + 8 * unat i"
    unfolding slot_offset using assms(2) by (intro unat_add_of_nat) simp
  have "apart (slot t i) 8 0x26000 128" "apart (slot t i) 8 0x25FF8 8"
    by (rule apart_le; use u assms(2) in simp)+
  ultimately show ?thesis
    using assms(1,3) by (simp add: table_slot_def bm) (simp add: boot_frames_def)
qed

lemma boot_word:
  assumes "unat a mod 8 = 0" "unat a + 8 \<le> 0x26000"
  shows "pread64 (mem boot_machine) a = boot_words a"
proof -
  have "apart 0x26000 64 a 8" by (rule apart_sym, rule apart_le) (use assms(2) in auto)
  then show ?thesis
    using assms(1) by (simp add: boot_machine_def pread64_pwrite_apart pread64_word_mem)
qed

lemma boot_tables:
  "next_table (mem boot_machine) 0x22FF8 = Some 0x23000" "next_table (mem boot_machine) 0x23FF0 = Some 0x24000"
  "next_table (mem boot_machine) 0x24000 = Some 0x25000" "pread64 (mem boot_machine) 0x24008 = 0"
  by (simp_all add: next_table_def boot_word boot_words_def PAGE_MASK_def)

text \<open>The kernel's address space, and an address in the second two mebibytes of the kernel, where
  no table is yet.\<close>

definition boot_space :: page_table_t where
  "boot_space = \<lparr>ctx_pml4t = 0xFFFFFFFF80022000, is_kernel = True\<rparr>"

lemma boot_path: "va_path 0xFFFFFFFF80200000 = [511, 510, 1, 0]"
  by (simp add: pml4_index_def pdpt_index_def pd_index_def pt_index_def)

lemma boot_space_ok: "space_ok boot_frames boot_machine boot_space 0x22000 0xFFFFFFFF80200000"
proof -
  have "entry_at boot_machine (slot 0xFFFFFFFF80022000 511) (slot 0x22000 511)"
    using entry_at_window [OF boot_vm_inv, of "0xFFFFFFFF80022FF8"]
    by (simp add: slot_def in_win_def kconst)
  moreover have "path_ok boot_frames boot_machine {} 0x22000 [511, 510, 1, 0]"
    using boot_tables boot_table_slot
    by (simp add: page_aligned_def slot_def entry_ok_def boot_word boot_words_def next_table_def off_tables_def boot_frames_def apart_def)
  ultimately show ?thesis unfolding space_ok_def boot_path
    by (simp add: boot_space_def PAGE_MASK_def pml4_index_def)
qed

lemma boot_missing: "missing (mem boot_machine) 0x22000 (va_path 0xFFFFFFFF80200000) = 1"
  unfolding boot_path using boot_tables by (simp add: slot_def) (simp add: next_table_def)

lemma boot_free: "{0x200000, 0x201000} \<subseteq> free_frames boot_machine"
proof -
  have bm: "bm_base boot_machine = 0x26000" by (simp add: bm_base_def boot_machine_def kconst)
  show ?thesis
    using boot_bits [of 512] boot_bits [of 513]
    by (auto simp: free_frames_def pmm_frames_def pmm_used_def bm page_aligned_def) (simp_all add: boot_machine_def)
qed

lemma boot_free_card: "1 \<le> card (free_frames boot_machine)"
  using boot_free card_gt_0_iff [of "free_frames boot_machine"] finite_frames
  by (auto simp: Suc_le_eq simp del: card_gt_0_iff)

lemma boot_low_path: "va_path 0xFFFFFFFF80000000 = [511, 510, 0, 0]"
  by (simp add: pml4_index_def pdpt_index_def pd_index_def pt_index_def)

lemma boot_low_walk:
  "walk_ok boot_frames boot_machine 0x22000 (va_path 0xFFFFFFFF80000000)"
  "mmu_walk (mem boot_machine) 0x22000 0xFFFFFFFF80000000 = Some 0"
  unfolding mmu_walk_to boot_low_path using boot_tables
  by (simp_all add: boot_table_slot page_aligned_def slot_def leaf_frame_def boot_word boot_words_def PAGE_MASK_def)

text \<open>The same state with a bitmap of 512 frames, none of which is free.\<close>

definition full_machine :: machine where
  "full_machine = boot_machine\<lparr>mem_bitmap_size := 64, mem_bitmap_bit_size := 512\<rparr>"

lemma full_fields:
  "mem full_machine = mem boot_machine" "bm_base full_machine = 0x26000"
  "unat (mem_bitmap_size full_machine) = 64" "unat (mem_bitmap_bit_size full_machine) = 512"
  "cr3 full_machine = cr3 boot_machine" "pml4t full_machine = pml4t boot_machine"
  by (simp_all add: full_machine_def bm_base_def) (simp add: boot_machine_def kconst)

lemma full_no_free: "free_frames full_machine = {}"
  using boot_bits by (auto simp: free_frames_def pmm_frames_def pmm_used_def full_fields)

lemma full_vm_inv: "vm_inv boot_frames full_machine"
proof -
  have "in_win (mem_bitmap full_machine) 64" by (simp add: full_machine_def boot_machine_def in_win_def kconst)
  then have "bitmap_ok boot_frames full_machine"
    using boot_kwin boot_off_tables [of "0x26000" 64] by (simp add: bitmap_ok_def full_fields)
  moreover have "\<forall>t\<in>{0x22000, 0x23000, 0x24000, 0x25000}. apart (0x26000 :: u64) 64 t 4096"
    by (simp add: apart_def)
  ultimately show ?thesis
    using boot_bits by (simp add: vm_inv_def pmm_ok_def full_fields) (simp add: boot_frames_def)
qed

lemma full_space_ok: "space_ok boot_frames full_machine boot_space 0x22000 0xFFFFFFFF80200000"
proof -
  have "entry_at full_machine (slot 0xFFFFFFFF80022000 511) (slot 0x22000 511)"
    using entry_at_window [OF full_vm_inv, of "0xFFFFFFFF80022FF8"]
    by (simp add: slot_def in_win_def kconst)
  moreover have "table_slot boot_frames full_machine t i" if "table_slot boot_frames boot_machine t i" for t i
    using that apart_sub [of "slot t i" 8 "0x26000" 128 0 8 0 64] boot_bitmap_fields
    by (simp add: table_slot_def full_no_free full_fields)
  then have "path_ok boot_frames full_machine {} 0x22000 [511, 510, 1, 0]"
    using boot_space_ok unfolding space_ok_def boot_path by (auto simp: full_fields split: option.splits)
  ultimately show ?thesis unfolding space_ok_def boot_path
    by (simp add: boot_space_def PAGE_MASK_def pml4_index_def)
qed

section \<open>Properties\<close>

lemma map_page_descent:
  assumes "vm_inv F s" "space_ok F s ctx C va" "unat flags < 0x1000" "flags AND 0x80 = 0"
    and "missing (mem s) C (va_path va) \<le> card (free_frames s)"
  shows "\<exists>s' p. map_page ctx va pa flags s = (Inr (), s') \<and> path_ok F s' {} C (va_path va)
     \<and> descent F s C (va_path va) (pa OR flags) s' p"
  using descend_run [OF assms(1), of "slot (ctx_pml4t ctx) (pml4_index va)" C "va_path va" "{}" flags "pa OR flags"]
    assms unfolding map_page_descend space_ok_def by auto

lemma descent_maps:
  assumes "descent F s C (va_path va) (pa OR flags) t p" "C AND PAGE_MASK = C"
    and "page_aligned pa" "unat pa < 2 ^ 52" "unat flags < 0x1000" "flags AND 1 \<noteq> 0"
  shows "mmu_walk (mem t) C va = Some (pa + (va AND 0xFFF))"
proof -
  have "leaf_frame (mem t) p = Some pa"
    using assms by (simp add: descent_def leaf_frame_def entry_mask entry_flag)
  then show ?thesis using assms(1,2) unfolding mmu_walk_to by (simp add: descent_def)
qed

lemma get_physical_address_run:
  assumes "vm_inv F s" and C: "C AND PAGE_MASK = C"
    and "entry_at s (slot (ctx_pml4t ctx) (pml4_index va)) (slot C (pml4_index va))"
    and "walk_ok F s C (va_path va)" "mmu_walk (mem s) C va = Some q"
  shows "\<exists>t. get_physical_address ctx va s = (Inr q, t) \<and> temp_only F s t"
proof -
  obtain p f where p: "walk_to (mem s) C (va_path va) = Some p" "leaf_frame (mem s) p = Some f"
    "q = f + (va AND 0xFFF)" using assms(5) unfolding mmu_walk_to C by (auto split: option.splits)
  have f: "pread64 (mem s) p AND PAGE_MASK = f"
    using p(2) by (auto simp: leaf_frame_def Let_def split: if_splits)
  show ?thesis
    using read_down_run [OF assms(1) _ assms(4) p(1), of "slot (ctx_pml4t ctx) (pml4_index va)"] assms(3) p(3) f
    unfolding get_physical_address_read by (auto simp: monad)
qed

text \<open>C4: \<open>map_page\<close> maps: if the frames that are free are enough for the tables that are missing on
  the path of the address, it returns, afterwards the hardware's walk from the top table takes the
  address to the given frame, exactly the missing tables have been taken from the free frames, and
  nothing has changed besides the bitmap, the free frames, the temporary entry and the entries on
  the path.\<close>

theorem map_page_maps:
  assumes "vm_inv F s" "space_ok F s ctx C va"
    and "page_aligned pa" "unat pa < 2 ^ 52" "unat flags < 0x1000" "flags AND 1 \<noteq> 0" "flags AND 0x80 = 0"
    and "missing (mem s) C (va_path va) \<le> card (free_frames s)"
  shows "\<exists>t. map_page ctx va pa flags s = (Inr (), t) \<and> vm_inv F t
     \<and> mmu_walk (mem t) C va = Some (pa + (va AND 0xFFF))
     \<and> card (free_frames s) = card (free_frames t) + missing (mem s) C (va_path va)
     \<and> t = s\<lparr>mem := mem t, invlpg_log := invlpg_log t\<rparr>
     \<and> (\<forall>x. untouched F s x \<longrightarrow> (\<forall>p\<in>walk_slots (mem t) C (va_path va). 8 \<le> unat (x - p)) \<longrightarrow>
          mem t x = mem s x)"
proof -
  obtain t p where t: "map_page ctx va pa flags s = (Inr (), t)"
    and d: "descent F s C (va_path va) (pa OR flags) t p"
    using map_page_descent [OF assms(1,2,5,7,8)] by blast
  have "C AND PAGE_MASK = C" using assms(2) by (simp add: space_ok_def)
  from descent_maps [OF d this assms(3-6)]
  show ?thesis using t d unfolding descent_def vm_step_def by blast
qed

theorem map_page_maps_witness:
  "\<exists>t. map_page boot_space 0xFFFFFFFF80200000 0x300000 3 boot_machine = (Inr (), t) \<and> vm_inv boot_frames t
     \<and> mmu_walk (mem t) 0x22000 0xFFFFFFFF80200000 = Some 0x300000"
  using map_page_maps [OF boot_vm_inv boot_space_ok, of "0x300000" 3] boot_free_card boot_missing
  by (auto simp: page_aligned_def)

text \<open>C12: mapping a page leaves the other mappings alone, in this address space and in every other: an
  address that the walk from any top table translates through tables in use is translated the same
  way afterwards, unless its walk passes the very entry that is written.\<close>

theorem map_page_keeps_mappings:
  assumes "vm_inv F s" "space_ok F s ctx C va" "unat flags < 0x1000" "flags AND 0x80 = 0"
    and "missing (mem s) C (va_path va) \<le> card (free_frames s)"
    and "walk_ok F s D (va_path va')" "D AND PAGE_MASK = D" "mmu_walk (mem s) D va' = Some q"
    and "\<And>p. walk_to (mem s) C (va_path va) = Some p \<Longrightarrow> p \<notin> walk_slots (mem s) D (va_path va')"
  shows "mmu_walk (mem (snd (map_page ctx va pa flags s))) D va' = Some q"
  using map_page_descent [OF assms(1-5), of pa] mapping_kept [OF _ assms(6,8,7)] assms(9) by fastforce

theorem map_page_keeps_mappings_witness:
  "mmu_walk (mem (snd (map_page boot_space 0xFFFFFFFF80200000 0x300000 3 boot_machine))) 0x22000
     0xFFFFFFFF80000000 = Some 0"
proof (rule map_page_keeps_mappings [OF boot_vm_inv boot_space_ok])
  show "missing (mem boot_machine) 0x22000 (va_path 0xFFFFFFFF80200000) \<le> card (free_frames boot_machine)"
    using boot_free_card boot_missing by simp
  show "walk_ok boot_frames boot_machine 0x22000 (va_path 0xFFFFFFFF80000000)"
    "mmu_walk (mem boot_machine) 0x22000 0xFFFFFFFF80000000 = Some 0" by (rule boot_low_walk)+
  fix p assume "walk_to (mem boot_machine) 0x22000 (va_path 0xFFFFFFFF80200000) = Some p"
  then show "p \<notin> walk_slots (mem boot_machine) 0x22000 (va_path 0xFFFFFFFF80000000)"
    unfolding boot_path using boot_tables by (simp add: slot_def) (simp add: next_table_def)
qed (simp_all add: PAGE_MASK_def)

text \<open>C33: when the free frames are not enough for the missing tables, \<open>map_page\<close> stops in a panic.\<close>

theorem map_page_out_of_memory:
  assumes "vm_inv F s" "space_ok F s ctx C va" "unat flags < 0x1000" "flags AND 0x80 = 0"
    and "off_tables F 0xB8000 4000" "card (free_frames s) < missing (mem s) C (va_path va)"
  shows "fst (map_page ctx va pa flags s) = Inl (Panic ''Out of physical memory for page table!'')"
  using descend_panic [OF assms(1) _ _ _ assms(3,4,6,5), of "slot (ctx_pml4t ctx) (pml4_index va)" "{}"] assms(2)
  unfolding map_page_descend space_ok_def by simp

theorem map_page_out_of_memory_witness:
  "fst (map_page boot_space 0xFFFFFFFF80200000 0x300000 3 full_machine)
     = Inl (Panic ''Out of physical memory for page table!'')"
proof (rule map_page_out_of_memory [OF full_vm_inv full_space_ok])
  show "off_tables boot_frames 0xB8000 4000" by (rule boot_off_tables) simp_all
  show "card (free_frames full_machine) < missing (mem full_machine) 0x22000 (va_path 0xFFFFFFFF80200000)"
    unfolding full_no_free full_fields boot_missing by simp
qed simp_all

text \<open>C17: \<open>get_physical_address\<close> agrees with the hardware: for an address that the walk translates it
  returns that translation, and it changes nothing but the entry of the temporary page.\<close>

theorem get_physical_address_walk:
  assumes "vm_inv F s" "C AND PAGE_MASK = C"
    and "entry_at s (slot (ctx_pml4t ctx) (pml4_index va)) (slot C (pml4_index va))"
    and "walk_ok F s C (va_path va)" "mmu_walk (mem s) C va = Some q"
  shows "\<exists>t. get_physical_address ctx va s = (Inr q, t) \<and> vm_inv F t \<and> pmm_used t = pmm_used s
     \<and> (\<forall>x. 8 \<le> unat (x - temp_slot F) \<longrightarrow> mem t x = mem s x)"
  using get_physical_address_run [OF assms] unfolding temp_only_def by blast

theorem get_physical_address_walk_witness:
  "\<exists>t. get_physical_address boot_space 0xFFFFFFFF80000000 boot_machine = (Inr 0, t) \<and> vm_inv boot_frames t"
proof -
  have "slot (ctx_pml4t boot_space) (pml4_index 0xFFFFFFFF80000000) = 0xFFFFFFFF80022FF8"
    "slot 0x22000 (pml4_index 0xFFFFFFFF80000000) = 0x22FF8"
    by (simp_all add: boot_space_def pml4_index_def slot_def)
  then have "entry_at boot_machine (slot (ctx_pml4t boot_space) (pml4_index 0xFFFFFFFF80000000))
      (slot 0x22000 (pml4_index 0xFFFFFFFF80000000))"
    using entry_at_window [OF boot_vm_inv, of "0xFFFFFFFF80022FF8"] by (simp add: in_win_def kconst)
  from get_physical_address_walk [OF boot_vm_inv _ this boot_low_walk(1,2)]
  show ?thesis by (auto simp: PAGE_MASK_def)
qed

text \<open>What \<open>map_page\<close> mapped, \<open>get_physical_address\<close> finds, for the kernel's own address space and
  every other whose top table lies in the window.\<close>

lemma map_page_get_roundtrip:
  assumes "vm_inv F s" "space_ok F s ctx C va" "in_win (slot (ctx_pml4t ctx) (pml4_index va)) 8"
    and "ctx_pml4t ctx = KERNEL_BASE + C"
    and "page_aligned pa" "unat pa < 2 ^ 52" "unat flags < 0x1000" "flags AND 1 \<noteq> 0" "flags AND 0x80 = 0"
    and "missing (mem s) C (va_path va) \<le> card (free_frames s)"
  shows "\<exists>t u. map_page ctx va pa flags s = (Inr (), t)
     \<and> get_physical_address ctx va t = (Inr (pa + (va AND 0xFFF)), u)"
proof -
  obtain t p where t: "map_page ctx va pa flags s = (Inr (), t)" "path_ok F t {} C (va_path va)"
    and d: "descent F s C (va_path va) (pa OR flags) t p"
    using map_page_descent [OF assms(1,2,7,9,10)] by blast
  have C: "C AND PAGE_MASK = C" using assms(2) by (simp add: space_ok_def)
  have inv: "vm_inv F t" using d by (simp add: descent_def vm_step_def)
  have "slot (ctx_pml4t ctx) (pml4_index va) - KERNEL_BASE = slot C (pml4_index va)"
    using assms(4) by (simp add: slot_def)
  then have "space_ok F t ctx C va"
    using entry_at_window [OF inv assms(3)] C t(2) by (simp add: space_ok_def)
  then show ?thesis
    using get_physical_address_run [OF inv C _ path_walk_ok [OF t(2)] descent_maps [OF d C assms(5-8)]] t(1)
    by (auto simp: space_ok_def)
qed

end
