(* ===== verification/Vmm_Unmap.thy ===== *)
theory Vmm_Unmap
  imports Vmm_Map
begin

text \<open>
  Unmapping a page: \<open>unmap_page\<close> clears the last entry, releases the frame and, if it became empty,
  the last table. The entry that points to that table is not cleared.
\<close>

section \<open>Releasing frames\<close>

lemma vm_inv_free:
  assumes inv: "vm_inv F s" and f: "page_aligned f" "0x200000 \<le> unat f" "f \<noteq> kf_root F"
  shows "\<exists>t. pmm_free f s = (Inr (), t) \<and> vm_inv F t \<and> pmm_used t = pmm_used s - {f}
     \<and> t = s\<lparr>mem := mem t\<rparr>
     \<and> (\<forall>x. unat (mem_bitmap_size s) \<le> unat (x - bm_base s) \<longrightarrow> mem t x = mem s x)"
proof (cases "unat f div 4096 < unat (mem_bitmap_bit_size s)")
  case True
  note d = vm_invD [OF inv]
  let ?i = "unat f div 4096"
  let ?t = "s\<lparr>mem := clear_frame (mem s) (bm_base s) ?i\<rparr>"
  have run: "pmm_free f s = (Inr (), ?t)" using pmm_free_run [OF d(2)] True by simp
  have "f \<in> pmm_frames s" using f True by (auto simp: pmm_frames_def)
  from pmm_release_frame [OF d(1) this] run
  have rel: "pmm_used ?t = pmm_used s - {f}" "pmm_ok F ?t" by (simp_all add: pmm_release_def)
  have i: "512 \<le> ?i" "?i < 2 ^ 64" using f(2) u64_bound [of f] by auto
  then have "frame_bit (mem ?t) (bm_base s) k" if "k < 512" for k
    using that inv frame_bit_clear_frame [of ?i k] by (auto simp: vm_inv_def)
  then have "vm_inv F ?t" using inv rel f(3) by (auto simp: vm_inv_def bm_base_def)
  moreover have "\<forall>x. unat (mem_bitmap_size s) \<le> unat (x - bm_base s) \<longrightarrow> mem ?t x = mem s x"
    using set_frame_outside(2) [of ?i "unat (mem_bitmap_size s)"] True d(5) by simp
  ultimately show ?thesis using run rel(1) by (intro exI [of _ ?t]) simp
next
  case False
  then have "f \<notin> pmm_used s" by (auto simp: pmm_used_def pmm_frames_def)
  then show ?thesis using False pmm_free_run [OF vm_invD(2) [OF inv], of f] inv by auto
qed

text \<open>The scan of a table through the temporary page.\<close>

lemma no_entry_in_run:
  assumes "vm_inv F s" "temp_frame F (mem s) f" "\<And>k. k \<in> set ks \<Longrightarrow> k < 512"
  shows "no_entry_in (map of_nat ks) s
     = (Inr (\<forall>k\<in>set ks. pread64 (mem s) (slot f (of_nat k)) AND 1 = 0), s)"
  using assms(3)
proof (induction ks)
  case (Cons k ks)
  have e: "slot TEMP_PAGE (of_nat k) = TEMP_PAGE + of_nat (8 * k)" "slot f (of_nat k) = f + of_nat (8 * k)"
    by (simp_all add: slot_def)
  have "entry_at s (slot TEMP_PAGE (of_nat k)) (slot f (of_nat k))"
    unfolding e by (rule entry_at_temp [OF assms(1,2)]) (use Cons(2) [of k] in simp)
  then show ?case
    using load64_mapped [OF entry_at_mapped] Cons by (auto simp: monad)
qed (simp add: monad)

lemma table_empty_run:
  assumes "vm_inv F s" "temp_frame F (mem s) f"
  shows "table_empty s = (Inr (\<forall>k<512. pread64 (mem s) (slot f (of_nat k)) AND 1 = 0), s)"
  using no_entry_in_run [OF assms, of "[0..<512]"] by (simp add: table_empty_def atLeast0LessThan lessThan_def)

text \<open>A table with a present entry is kept.\<close>

lemma free_if_empty_kept:
  assumes "vm_inv F s" "f AND PAGE_MASK = f" "unat i < 512" "apart (slot f i) 8 (temp_slot F) 8"
    and "pread64 (mem s) (slot f i) AND 1 \<noteq> 0"
  shows "\<exists>t. free_if_empty f s = (Inr (), t) \<and> temp_only F s t"
proof -
  let ?t = "temp_mapped_state F f s"
  note sh = table_shown(1-3) [OF assms(1,2)]
  have "pread64 (mem ?t) (slot f (of_nat (unat i))) AND 1 \<noteq> 0"
    using temp_only_slot [OF sh(2) assms(4)] assms(5) by simp
  then have "\<not> (\<forall>k<512. pread64 (mem ?t) (slot f (of_nat k)) AND 1 = 0)" using assms(3) by blast
  moreover have "vm_inv F ?t" using sh(2) by (simp add: temp_only_def)
  ultimately show ?thesis
    using sh table_empty_run [of F ?t f] by (auto simp: free_if_empty_def monad)
qed

lemma free_if_empty_run:
  assumes "vm_inv F s" "f AND PAGE_MASK = f" "0x200000 \<le> unat f" "f \<noteq> kf_root F"
    and "\<And>k. k < 512 \<Longrightarrow> apart (slot f (of_nat k)) 8 (temp_slot F) 8"
  shows "\<exists>t. free_if_empty f s = (Inr (), t) \<and> vm_inv F t
     \<and> pmm_used t = (if \<forall>k<512. pread64 (mem s) (slot f (of_nat k)) AND 1 = 0
                    then pmm_used s - {f} else pmm_used s)
     \<and> t = s\<lparr>mem := mem t, invlpg_log := invlpg_log t\<rparr>
     \<and> (\<forall>x. unat (mem_bitmap_size s) \<le> unat (x - bm_base s) \<longrightarrow> 8 \<le> unat (x - temp_slot F) \<longrightarrow>
          mem t x = mem s x)"
proof -
  let ?t = "temp_mapped_state F f s"
  note sh = table_shown(1-3) [OF assms(1,2)]
  have inv: "vm_inv F ?t" and us: "pmm_used ?t = pmm_used s"
    and bm: "bm_base ?t = bm_base s" "mem_bitmap_size ?t = mem_bitmap_size s"
    using sh(2) by (auto simp: temp_only_def temp_mapped_state_def bm_base_def)
  have al: "page_aligned f" using masked_aligned [of f] assms(2) by simp
  let ?empty = "\<forall>k<512. pread64 (mem s) (slot f (of_nat k)) AND 1 = 0"
  have em: "table_empty ?t = (Inr ?empty, ?t)"
    using table_empty_run [OF inv sh(3)] temp_only_slot [OF sh(2) assms(5)] by simp
  obtain u where u: "pmm_free f ?t = (Inr (), u)" "vm_inv F u" "pmm_used u = pmm_used s - {f}"
      "u = ?t\<lparr>mem := mem u\<rparr>"
      "\<forall>x. unat (mem_bitmap_size s) \<le> unat (x - bm_base s) \<longrightarrow> mem u x = mem ?t x"
    using vm_inv_free [OF inv al assms(3,4)] us bm by auto
  have form: "u = s\<lparr>mem := mem u, invlpg_log := invlpg_log u\<rparr>"
    by (subst u(4)) (simp add: temp_mapped_state_def, subst u(4), simp add: temp_mapped_state_def)
  have out: "8 \<le> unat (x - temp_slot F) \<Longrightarrow> mem ?t x = mem s x" for x by (rule temp_mapped_outside)
  show ?thesis
  proof (cases ?empty)
    case True
    then show ?thesis
      using sh(1) em u out form by (intro exI [of _ u]) (auto simp: free_if_empty_def monad)
  next
    case False
    then show ?thesis
      using sh em inv us out
      by (intro exI [of _ ?t]) (auto simp: free_if_empty_def monad temp_only_def)
  qed
qed

section \<open>Unmapping\<close>

text \<open>What releasing frames and moving the temporary page keep: everything but the bitmap and the
  temporary entry.\<close>

definition edit_step :: "kframes \<Rightarrow> machine \<Rightarrow> machine \<Rightarrow> bool" where
  "edit_step F s t \<longleftrightarrow>
     vm_inv F t \<and> t = s\<lparr>mem := mem t, invlpg_log := invlpg_log t\<rparr> \<and>
     (\<forall>x. unat (mem_bitmap_size s) \<le> unat (x - bm_base s) \<longrightarrow> 8 \<le> unat (x - temp_slot F) \<longrightarrow>
        mem t x = mem s x)"

lemma edit_fields:
  assumes "edit_step F s t"
  shows "bm_base t = bm_base s" "mem_bitmap_size t = mem_bitmap_size s" "pmm_frames t = pmm_frames s"
  by (rule step_fields; use assms in \<open>simp add: edit_step_def\<close>)+

lemma edit_trans:
  assumes "edit_step F s t" "edit_step F t u"
  shows "edit_step F s u"
proof -
  have "u = s\<lparr>mem := mem u, invlpg_log := invlpg_log u\<rparr>"
    by (rule step_form_trans [of u t s]) (use assms in \<open>auto simp: edit_step_def\<close>)
  then show ?thesis using assms edit_fields [OF assms(1)] by (auto simp: edit_step_def)
qed

lemma edit_slot:
  assumes "edit_step F s t" "apart (slot u k) 8 (bm_base s) (unat (mem_bitmap_size s))"
    and "apart (slot u k) 8 (temp_slot F) 8"
  shows "pread64 (mem t) (slot u k) = pread64 (mem s) (slot u k)"
  by (rule pread64_agree)
    (use assms(1) apart_outside [OF apart_sym [OF assms(2)]] apart_outside [OF apart_sym [OF assms(3)]]
      in \<open>auto simp: edit_step_def\<close>)

lemma temp_only_edit: "temp_only F s t \<Longrightarrow> edit_step F s t"
  by (simp add: temp_only_def edit_step_def)

lemma free_edit:
  assumes "vm_inv F t" "t = s\<lparr>mem := mem t\<rparr>"
    and "\<forall>x. unat (mem_bitmap_size s) \<le> unat (x - bm_base s) \<longrightarrow> mem t x = mem s x"
  shows "edit_step F s t"
proof -
  have "t = s\<lparr>mem := mem t, invlpg_log := invlpg_log t\<rparr>" by (subst assms(2), subst (2) assms(2), simp)
  then show ?thesis using assms by (simp add: edit_step_def)
qed

lemma unat_mask_bound: "unat (x AND PAGE_MASK) < 2 ^ 52"
proof -
  have "take_bit 52 (x AND PAGE_MASK) = x AND PAGE_MASK"
    by (rule bit_word_eqI) (auto simp: bit_take_bit_iff bit_and_iff bit_PAGE_MASK)
  then have "unat (x AND PAGE_MASK) = take_bit 52 (unat (x AND PAGE_MASK))" by (metis unsigned_take_bit_eq)
  also have "\<dots> < 2 ^ 52" by (rule take_bit_nat_less_exp)
  finally show ?thesis .
qed

lemma high_page_apart:
  assumes "vm_inv F s" "f AND PAGE_MASK = f" "0x200000 \<le> unat f" "unat k < 512"
  shows "apart (slot f k) 8 (bm_base s) (unat (mem_bitmap_size s))" "apart (slot f k) 8 (temp_slot F) 8"
proof -
  note d = vm_invD [OF assms(1)]
  have "unat f < 2 ^ 52" using unat_mask_bound [of f] assms(2) by simp
  then have u: "unat (slot f k) = unat f + 8 * unat k"
    unfolding slot_offset using assms(4) by (intro unat_add_of_nat) simp
  show "apart (slot f k) 8 (bm_base s) (unat (mem_bitmap_size s))"
    by (rule apart_sym, rule apart_le) (use d(4,7) u assms(3,4) \<open>unat f < 2 ^ 52\<close> in auto)
  have "unat (temp_slot F) + 8 \<le> 0x200000"
  proof -
    have "low_frame (kf_pt F)" using d(3) by (simp add: kmap_def)
    from low_frame_bound [OF this] show ?thesis
      using unat_add_of_nat [of "kf_pt F" "0xFF8"] by simp
  qed
  then show "apart (slot f k) 8 (temp_slot F) 8"
    by (intro apart_sym [OF apart_le]) (use u assms(3,4) \<open>unat f < 2 ^ 52\<close> in auto)
qed

lemma slot_index:
  assumes "k < 512" "unat i < 512" "page_aligned f"
  shows "slot f (of_nat k) = slot f i \<longleftrightarrow> k = unat i"
proof
  assume e: "slot f (of_nat k) = slot f i"
  have "unat (of_nat (8 * k) :: u64) = 8 * k" "unat (of_nat (8 * unat i) :: u64) = 8 * unat i"
    using assms by (simp_all del: of_nat_mult)
  moreover have "of_nat (8 * k) = (of_nat (8 * unat i) :: u64)" using e by (simp add: slot_def)
  ultimately show "k = unat i" by (metis mult_left_cancel zero_neq_numeral)
qed simp

text \<open>The part of \<open>unmap_page\<close> after the walk.\<close>

definition unmap_tail :: "u64 \<Rightarrow> u64 \<Rightarrow> u64 \<Rightarrow> u64 \<Rightarrow> u64 \<Rightarrow> unit kern" where
  "unmap_tail i pte f1 f2 f3 =
     andthen (store64 (slot TEMP_PAGE i) 0) (
     andthen (pmm_free pte) (
     andthen (free_if_empty f1) (andthen (free_if_empty f2) (free_if_empty f3))))"

lemma unmap_front:
  assumes inv: "vm_inv F s" and sp: "space_ok F s ctx C va"
    and f: "next_table (mem s) (slot C (pml4_index va)) = Some f3"
      "next_table (mem s) (slot f3 (pdpt_index va)) = Some f2"
      "next_table (mem s) (slot f2 (pd_index va)) = Some f1"
  shows "\<exists>s'. unmap_page ctx va s
       = unmap_tail (pt_index va) (pread64 (mem s) (slot f1 (pt_index va)) AND PAGE_MASK) f1 f2 f3 s'
     \<and> temp_only F s s' \<and> entry_at s' (slot TEMP_PAGE (pt_index va)) (slot f1 (pt_index va))"
proof -
  let ?i4 = "pml4_index va" and ?i3 = "pdpt_index va" and ?i2 = "pd_index va" and ?i1 = "pt_index va"
  have at: "entry_at s (slot (ctx_pml4t ctx) ?i4) (slot C ?i4)" and w: "walk_ok F s C (va_path va)"
    using sp path_walk_ok unfolding space_ok_def by blast+
  have rd: "load64 a u = (Inr (pread64 (mem u) p), u)" if "entry_at u a p" for u a p
    by (rule load64_mapped [OF entry_at_mapped [OF that]])
  obtain s1 where 1: "temp_map f3 s = (Inr (), s1)" "temp_only F s s1"
     "entry_at s1 (slot TEMP_PAGE ?i3) (slot f3 ?i3)" "walk_ok F s1 f3 [?i3, ?i2, ?i1]"
    using temp_map_level [OF inv w f(1)] by auto
  have i1: "vm_inv F s1" using 1(2) by (simp add: temp_only_def)
  have ap: "apart (slot f3 ?i3) 8 (temp_slot F) 8" "apart (slot f2 ?i2) 8 (temp_slot F) 8"
    "apart (slot f1 ?i1) 8 (temp_slot F) 8"
    using w f by (auto simp: table_slot_def)
  have n1: "next_table (mem s1) (slot f3 ?i3) = Some f2"
    using temp_only_slot [OF 1(2) ap(1)] f(2) by (simp add: next_table_def)
  obtain s2 where 2: "temp_map f2 s1 = (Inr (), s2)" "temp_only F s1 s2"
     "entry_at s2 (slot TEMP_PAGE ?i2) (slot f2 ?i2)" "walk_ok F s2 f2 [?i2, ?i1]"
    using temp_map_level [OF i1 1(4) n1] by auto
  have i2: "vm_inv F s2" and t2: "temp_only F s s2"
    using 2(2) temp_only_trans [OF 1(2)] by (auto simp: temp_only_def)
  have n2: "next_table (mem s2) (slot f2 ?i2) = Some f1"
    using temp_only_slot [OF t2 ap(2)] f(3) by (simp add: next_table_def)
  obtain s3 where 3: "temp_map f1 s2 = (Inr (), s3)" "temp_only F s2 s3"
     "entry_at s3 (slot TEMP_PAGE ?i1) (slot f1 ?i1)"
    using temp_map_level [OF i2 2(4) n2] by auto
  have t3: "temp_only F s s3" using temp_only_trans [OF t2 3(2)] .
  have "unmap_page ctx va s = unmap_tail ?i1 (pread64 (mem s) (slot f1 ?i1) AND PAGE_MASK) f1 f2 f3 s3"
    by (simp add: unmap_page_def unmap_tail_def monad Let_def rd [OF at] rd [OF 1(3)] rd [OF 2(3)] rd [OF 3(3)]
        next_table_entry [OF f(1)] next_table_entry [OF n1] next_table_entry [OF n2] 1(1) 2(1) 3(1)
        temp_only_slot [OF t3 ap(3)] cong: prod.case_cong sum.case_cong)
  then show ?thesis using t3 3(3) by blast
qed

lemma unmap_tail_run:
  assumes inv: "vm_inv F s" and at: "entry_at s (slot TEMP_PAGE i) (slot f1 i)"
    and leaf: "table_slot F s f1 i" "off_tables F (slot f1 i) 8"
    and f1: "f1 AND PAGE_MASK = f1" "0x200000 \<le> unat f1" "f1 \<noteq> kf_root F"
    and q: "page_aligned q" "0x200000 \<le> unat q" "q \<noteq> kf_root F"
    and f2: "f2 AND PAGE_MASK = f2" "table_slot F s f2 i2" "pread64 (mem s) (slot f2 i2) AND 1 \<noteq> 0" "f2 \<noteq> f1"
    and f3: "f3 AND PAGE_MASK = f3" "table_slot F s f3 i3" "pread64 (mem s) (slot f3 i3) AND 1 \<noteq> 0" "f3 \<noteq> f1"
  defines "s1 \<equiv> s\<lparr>mem := pwrite64 (mem s) (slot f1 i) 0\<rparr>"
  shows "\<exists>t. unmap_tail i q f1 f2 f3 s = (Inr (), t) \<and> edit_step F s1 t
     \<and> pmm_used t = pmm_used s - {q} -
          (if \<forall>k<512. k \<noteq> unat i \<longrightarrow> pread64 (mem s) (slot f1 (of_nat k)) AND 1 = 0 then {f1} else {})"
proof -
  have i: "unat i < 512" "page_aligned f1" using leaf by (auto simp: table_slot_def)
  note st = leaf_store [OF inv at leaf, of 0, folded s1_def]
  have inv1: "vm_inv F s1" using st(2) by (simp add: vm_step_def)
  have slots: "pread64 (mem s1) (slot u k) = (if slot u k = slot f1 i then 0 else pread64 (mem s) (slot u k))"
    if "page_aligned u" "unat k < 512" for u k
    using slot_eq_or_apart [OF i(2) that(1) i(1) that(2)]
    by (simp add: s1_def pread64_pwrite64_apart)
  obtain s2 where s2: "pmm_free q s1 = (Inr (), s2)" "pmm_used s2 = pmm_used s - {q}" "edit_step F s1 s2"
    using vm_inv_free [OF inv1 q] st(4) free_edit by metis
  have inv2: "vm_inv F s2" using s2(3) by (simp add: edit_step_def)
  note ap = high_page_apart [OF inv1 f1(1,2)]
  have ne: "unat (of_nat k :: u64) < 512" if "k < 512" for k using that by simp
  obtain s3 where s3: "free_if_empty f1 s2 = (Inr (), s3)" "edit_step F s2 s3"
      "pmm_used s3 = (if \<forall>k<512. pread64 (mem s2) (slot f1 (of_nat k)) AND 1 = 0
         then pmm_used s2 - {f1} else pmm_used s2)"
    using free_if_empty_run [OF inv2 f1 ap(2) [OF ne]] unfolding edit_step_def by blast
  note e3 = edit_trans [OF s2(3) s3(2)]
  have ts: "table_slot F s1 g k" if "table_slot F s g k" for g k
    using that st(2) table_slot_step by blast
  have other: "pread64 (mem u) (slot g k) = pread64 (mem s) (slot g k)"
    if "edit_step F s1 u" "table_slot F s g k" "g \<noteq> f1" for u g k
    using edit_slot [OF that(1), of g k] ts [OF that(2)] slots [of g k] slot_inj [of g f1 k i] that i
    by (auto simp: table_slot_def)
  obtain s4 where s4: "free_if_empty f2 s3 = (Inr (), s4)" "temp_only F s3 s4"
    using free_if_empty_kept [OF _ f2(1), of F s3 i2] other [OF e3 f2(2,4)] f2(2,3) e3
    by (auto simp: edit_step_def table_slot_def)
  note e4 = edit_trans [OF e3 temp_only_edit [OF s4(2)]]
  obtain s5 where s5: "free_if_empty f3 s4 = (Inr (), s5)" "temp_only F s4 s5"
    using free_if_empty_kept [OF _ f3(1), of F s4 i3] other [OF e4 f3(2,4)] f3(2,3) e4
    by (auto simp: edit_step_def table_slot_def)
  note e5 = edit_trans [OF e4 temp_only_edit [OF s5(2)]]
  have "(pread64 (mem s2) (slot f1 (of_nat k)) AND 1 = 0) =
      (k \<noteq> unat i \<longrightarrow> pread64 (mem s) (slot f1 (of_nat k)) AND 1 = 0)" if "k < 512" for k
    using edit_slot [OF s2(3) ap [OF ne [OF that]]] slots [OF i(2) ne [OF that]] slot_index [OF that i]
    by auto
  then have "pmm_used s3 = pmm_used s - {q} -
      (if \<forall>k<512. k \<noteq> unat i \<longrightarrow> pread64 (mem s) (slot f1 (of_nat k)) AND 1 = 0 then {f1} else {})"
    using s3(3) s2(2) by auto
  moreover have "pmm_used s5 = pmm_used s3" using s4(2) s5(2) by (simp add: temp_only_def)
  moreover have "unmap_tail i q f1 f2 f3 s = (Inr (), s5)"
    using st(1) s2(1) s3(1) s4(1) s5(1) by (simp add: unmap_tail_def monad)
  ultimately show ?thesis using e5 by blast
qed

text \<open>The whole run: the entry is zero, and the bytes outside it, the bitmap and the temporary entry
  are kept.\<close>

lemma clear_edit:
  fixes p :: u64
  assumes "temp_only F s s0" "edit_step F (s0\<lparr>mem := pwrite64 (mem s0) p 0\<rparr>) u"
    and "apart p 8 (bm_base s) (unat (mem_bitmap_size s))" "apart p 8 (temp_slot F) 8"
  shows "pread64 (mem u) p = 0"
    and "\<forall>x. unat (mem_bitmap_size s) \<le> unat (x - bm_base s) \<longrightarrow> 8 \<le> unat (x - temp_slot F) \<longrightarrow>
          8 \<le> unat (x - p) \<longrightarrow> mem u x = mem s x"
proof -
  let ?s1 = "s0\<lparr>mem := pwrite64 (mem s0) p 0\<rparr>"
  have "s0 = s\<lparr>mem := mem s0, invlpg_log := invlpg_log s0\<rparr>" using assms(1) by (simp add: temp_only_def)
  from step_fields [OF this] have bm: "bm_base ?s1 = bm_base s" "mem_bitmap_size ?s1 = mem_bitmap_size s"
    by (simp_all add: bm_base_def)
  have "pread64 (mem u) (slot p 0) = pread64 (mem ?s1) (slot p 0)"
    by (rule edit_slot [OF assms(2)]) (use assms(3,4) bm in \<open>simp_all add: slot_def\<close>)
  then show "pread64 (mem u) p = 0" by (simp add: slot_def)
  show "\<forall>x. unat (mem_bitmap_size s) \<le> unat (x - bm_base s) \<longrightarrow> 8 \<le> unat (x - temp_slot F) \<longrightarrow>
      8 \<le> unat (x - p) \<longrightarrow> mem u x = mem s x"
    using assms(1,2) bm by (auto simp: edit_step_def temp_only_def pwrite64_def pwrite_outside)
qed

lemma kept_slot:
  assumes "\<forall>x. unat (mem_bitmap_size s) \<le> unat (x - bm_base s) \<longrightarrow> 8 \<le> unat (x - temp_slot F) \<longrightarrow>
      8 \<le> unat (x - slot f i) \<longrightarrow> m x = mem s x"
    and "table_slot F s f i" "table_slot F s u k" "u \<noteq> f"
  shows "pread64 m (slot u k) = pread64 (mem s) (slot u k)"
proof (rule pread64_agree)
  fix b :: nat assume b: "b < 8"
  have "apart (bm_base s) (unat (mem_bitmap_size s)) (slot u k) 8" "apart (temp_slot F) 8 (slot u k) 8"
    "apart (slot f i) 8 (slot u k) 8"
    using assms(2-4) slots_apart [OF assms(3) _ assms(4)] by (auto simp: table_slot_def intro: apart_sym)
  then show "m (slot u k + of_nat b) = mem s (slot u k + of_nat b)"
    using assms(1) apart_outside [OF _ b] by blast
qed

lemma unmap_page_run:
  assumes inv: "vm_inv F s" and sp: "space_ok F s ctx C va"
    and f: "next_table (mem s) (slot C (pml4_index va)) = Some f3"
      "next_table (mem s) (slot f3 (pdpt_index va)) = Some f2"
      "next_table (mem s) (slot f2 (pd_index va)) = Some f1"
    and q: "leaf_frame (mem s) (slot f1 (pt_index va)) = Some q"
    and high: "0x200000 \<le> unat f1" "0x200000 \<le> unat q" "kf_root F \<notin> {f1, q}"
  shows "\<exists>s0 t. unmap_page ctx va s = (Inr (), t) \<and> temp_only F s s0
     \<and> edit_step F (s0\<lparr>mem := pwrite64 (mem s0) (slot f1 (pt_index va)) 0\<rparr>) t
     \<and> pmm_used t = pmm_used s - {q} -
          (if \<forall>k<512. k \<noteq> unat (pt_index va) \<longrightarrow> pread64 (mem s) (slot f1 (of_nat k)) AND 1 = 0
           then {f1} else {})"
proof -
  let ?i1 = "pt_index va" and ?p = "slot f1 (pt_index va)"
  obtain s0 where s0: "unmap_page ctx va s = unmap_tail ?i1 (pread64 (mem s) ?p AND PAGE_MASK) f1 f2 f3 s0"
    "temp_only F s s0" "entry_at s0 (slot TEMP_PAGE ?i1) ?p"
    using unmap_front [OF inv sp f] by blast
  have path: "path_ok F s {} C (va_path va)" using sp by (auto simp: space_ok_def)
  have t: "table_slot F s f3 (pdpt_index va)" "table_slot F s f2 (pd_index va)"
    "table_slot F s f1 ?i1" "off_tables F ?p 8" "f2 \<noteq> f1" "f3 \<noteq> f1"
    using path f by auto
  have inv0: "vm_inv F s0" using s0(2) by (simp add: temp_only_def)
  note t0 = table_slot_step [OF _ temp_only_step [OF s0(2)]] and r0 = temp_only_slot [OF s0(2)]
  have pq: "pread64 (mem s) ?p AND PAGE_MASK = q"
    using q by (auto simp: leaf_frame_def Let_def split: if_splits)
  have al: "page_aligned q" using pq masked_aligned by auto
  have pres: "pread64 (mem s0) (slot f2 (pd_index va)) AND 1 \<noteq> 0" "pread64 (mem s0) (slot f3 (pdpt_index va)) AND 1 \<noteq> 0"
    using f(2,3) t(1,2) r0 by (auto simp: next_table_def table_slot_def Let_def split: if_splits)
  have nr: "f1 \<noteq> kf_root F" "q \<noteq> kf_root F" using high by auto
  note m = next_table_mask [OF f(3)] next_table_mask [OF f(2)] next_table_mask [OF f(1)]
  have "pread64 (mem s0) (slot f1 (of_nat k)) = pread64 (mem s) (slot f1 (of_nat k))" if "k < 512" for k
    by (rule r0 [OF high_page_apart(2) [OF inv m(1) high(1)]]) (use that in simp)
  then show ?thesis
    using unmap_tail_run [OF inv0 s0(3) t0 [OF t(3)] t(4) m(1) high(1) nr(1) al high(2) nr(2)
        m(2) t0 [OF t(2)] pres(1) t(5) m(3) t0 [OF t(1)] pres(2) t(6)] s0 pq
    by (auto simp: temp_only_def)
qed

section \<open>Properties\<close>

text \<open>C16: \<open>unmap_page\<close> unmaps: the hardware's walk no longer finds the address, the frame is free, and
  so is the last table if the entry was its only one; the invariant holds and nothing else has
  changed but the temporary entry. The entry above still points to the last table, also when that
  table has been released.\<close>

theorem unmap_page_unmaps:
  assumes inv: "vm_inv F s" and sp: "space_ok F s ctx C va"
    and f: "next_table (mem s) (slot C (pml4_index va)) = Some f3"
      "next_table (mem s) (slot f3 (pdpt_index va)) = Some f2"
      "next_table (mem s) (slot f2 (pd_index va)) = Some f1"
    and q: "leaf_frame (mem s) (slot f1 (pt_index va)) = Some q"
    and high: "0x200000 \<le> unat f1" "0x200000 \<le> unat q" "kf_root F \<notin> {f1, q}"
  shows "\<exists>t. unmap_page ctx va s = (Inr (), t) \<and> vm_inv F t \<and> mmu_walk (mem t) C va = None
     \<and> pmm_used t = pmm_used s - {q} -
          (if \<forall>k<512. k \<noteq> unat (pt_index va) \<longrightarrow> pread64 (mem s) (slot f1 (of_nat k)) AND 1 = 0
           then {f1} else {})
     \<and> next_table (mem t) (slot f2 (pd_index va)) = Some f1
     \<and> (\<forall>x. unat (mem_bitmap_size s) \<le> unat (x - bm_base s) \<longrightarrow> 8 \<le> unat (x - temp_slot F) \<longrightarrow>
          8 \<le> unat (x - slot f1 (pt_index va)) \<longrightarrow> mem t x = mem s x)"
proof -
  let ?p = "slot f1 (pt_index va)"
  obtain s0 t where run: "unmap_page ctx va s = (Inr (), t)" "temp_only F s s0"
      "edit_step F (s0\<lparr>mem := pwrite64 (mem s0) ?p 0\<rparr>) t"
      "pmm_used t = pmm_used s - {q} -
          (if \<forall>k<512. k \<noteq> unat (pt_index va) \<longrightarrow> pread64 (mem s) (slot f1 (of_nat k)) AND 1 = 0
           then {f1} else {})"
    using unmap_page_run [OF inv sp f q high] by blast
  have path: "path_ok F s {} C (va_path va)" and C: "C AND PAGE_MASK = C" using sp by (auto simp: space_ok_def)
  have ts: "table_slot F s C (pml4_index va)" "table_slot F s f3 (pdpt_index va)" "table_slot F s f2 (pd_index va)"
    "table_slot F s f1 (pt_index va)" "C \<noteq> f1" "f3 \<noteq> f1" "f2 \<noteq> f1"
    using path f by auto
  note cl = clear_edit [OF run(2,3)] and ap = ts(4) [unfolded table_slot_def]
  have out: "\<forall>x. unat (mem_bitmap_size s) \<le> unat (x - bm_base s) \<longrightarrow> 8 \<le> unat (x - temp_slot F) \<longrightarrow>
      8 \<le> unat (x - ?p) \<longrightarrow> mem t x = mem s x" and z: "pread64 (mem t) ?p = 0"
    using cl ap by auto
  note k = kept_slot [OF out ts(4)]
  have n: "next_table (mem t) (slot C (pml4_index va)) = Some f3"
    "next_table (mem t) (slot f3 (pdpt_index va)) = Some f2"
    "next_table (mem t) (slot f2 (pd_index va)) = Some f1"
    using f k [OF ts(1,5)] k [OF ts(2,6)] k [OF ts(3,7)] by (simp_all add: next_table_def)
  then have "mmu_walk (mem t) C va = None" using z C by (simp add: mmu_walk_def leaf_frame_def)
  moreover have "vm_inv F t" using run(3) by (simp add: edit_step_def)
  ultimately show ?thesis using run(1,4) n(3) out by blast
qed

lemma boot_mapped:
  "\<exists>s f3 f2 f1. map_page boot_space 0xFFFFFFFF80200000 0x300000 3 boot_machine = (Inr (), s)
     \<and> vm_inv boot_frames s \<and> space_ok boot_frames s boot_space 0x22000 0xFFFFFFFF80200000
     \<and> next_table (mem s) (slot 0x22000 (pml4_index 0xFFFFFFFF80200000)) = Some f3
     \<and> next_table (mem s) (slot f3 (pdpt_index 0xFFFFFFFF80200000)) = Some f2
     \<and> next_table (mem s) (slot f2 (pd_index 0xFFFFFFFF80200000)) = Some f1
     \<and> leaf_frame (mem s) (slot f1 (pt_index 0xFFFFFFFF80200000)) = Some 0x300000
     \<and> f1 \<in> free_frames boot_machine"
proof -
  let ?va = "0xFFFFFFFF80200000 :: u64"
  have "missing (mem boot_machine) 0x22000 (va_path ?va) \<le> card (free_frames boot_machine)"
    using boot_free_card boot_missing by simp
  then obtain s p where s: "map_page boot_space ?va 0x300000 3 boot_machine = (Inr (), s)"
      "path_ok boot_frames s {} 0x22000 (va_path ?va)"
    and d: "descent boot_frames boot_machine 0x22000 (va_path ?va) (0x300000 OR 3) s p"
    using map_page_descent [OF boot_vm_inv boot_space_ok, of 3 "0x300000"] by auto
  have inv: "vm_inv boot_frames s" using d by (simp add: descent_def vm_step_def)
  have "walk_to (mem boot_machine) 0x22000 (va_path ?va) = None"
    unfolding boot_path using boot_tables by (simp add: slot_def) (simp add: next_table_def)
  then obtain f k where fk: "f \<in> free_frames boot_machine" "unat k < 512" "p = slot f k"
    using d by (auto simp: descent_def)
  obtain f3 f2 f1 where n: "next_table (mem s) (slot 0x22000 (pml4_index ?va)) = Some f3"
     "next_table (mem s) (slot f3 (pdpt_index ?va)) = Some f2"
     "next_table (mem s) (slot f2 (pd_index ?va)) = Some f1" "p = slot f1 (pt_index ?va)"
    using d by (auto simp: descent_def split: option.splits)
  have "page_aligned f1" "unat (pt_index ?va) < 512"
    using path_ok_bound [OF s(2)] masked_aligned [of f1] next_table_mask [OF n(3)] by auto
  then have "f1 = f"
    using slot_inj [of f1 f "pt_index ?va" k] fk n(4) by (auto simp: free_frames_def pmm_frames_def)
  moreover have "leaf_frame (mem s) p = Some 0x300000"
    using d by (simp add: descent_def leaf_frame_def PAGE_MASK_def)
  moreover have "entry_at s (slot (ctx_pml4t boot_space) (pml4_index ?va)) (slot 0x22000 (pml4_index ?va))"
    using entry_at_window [OF inv, of "0xFFFFFFFF80022FF8"]
    by (simp add: slot_def in_win_def kconst boot_space_def pml4_index_def)
  then have "space_ok boot_frames s boot_space 0x22000 ?va"
    unfolding space_ok_def using s(2) by (simp add: PAGE_MASK_def)
  ultimately show ?thesis using s(1) inv n fk(1) by blast
qed

theorem unmap_page_unmaps_witness:
  "\<exists>s t. map_page boot_space 0xFFFFFFFF80200000 0x300000 3 boot_machine = (Inr (), s)
     \<and> unmap_page boot_space 0xFFFFFFFF80200000 s = (Inr (), t) \<and> vm_inv boot_frames t
     \<and> mmu_walk (mem t) 0x22000 0xFFFFFFFF80200000 = None"
proof -
  obtain s f3 f2 f1 where s: "map_page boot_space 0xFFFFFFFF80200000 0x300000 3 boot_machine = (Inr (), s)"
     "vm_inv boot_frames s" "space_ok boot_frames s boot_space 0x22000 0xFFFFFFFF80200000"
     "next_table (mem s) (slot 0x22000 (pml4_index 0xFFFFFFFF80200000)) = Some f3"
     "next_table (mem s) (slot f3 (pdpt_index 0xFFFFFFFF80200000)) = Some f2"
     "next_table (mem s) (slot f2 (pd_index 0xFFFFFFFF80200000)) = Some f1"
     "leaf_frame (mem s) (slot f1 (pt_index 0xFFFFFFFF80200000)) = Some 0x300000"
     "f1 \<in> free_frames boot_machine"
    using boot_mapped by blast
  have high: "0x200000 \<le> unat f1" using free_frame(2) [OF boot_vm_inv s(8)] .
  have root: "kf_root boot_frames \<notin> {f1, 0x300000}" using high by (auto simp: boot_frames_def)
  have "0x200000 \<le> unat (0x300000 :: u64)" by simp
  from unmap_page_unmaps [OF s(2-7) high this root] s(1) show ?thesis by blast
qed

end
