(* ===== verification/KHeap.thy ===== *)
theory KHeap
  imports Utils
begin

text \<open>
  The kernel heap, \<open>kheap.c\<close>: a list of chunks in one region of the window, each a header of 32
  bytes followed by its payload. \<open>kalloc\<close> takes the first free chunk that is large enough and
  splits it, \<open>kfree\<close> marks a chunk free and merges neighbours, \<open>krealloc\<close> resizes a block.
\<close>

section \<open>Operations\<close>

text \<open>The loops follow pointers and need not end: a run that does not end is \<open>None\<close>.\<close>

type_synonym 'a loop = "machine \<Rightarrow> ((fault + 'a) \<times> machine) option"

definition run :: "'a kern \<Rightarrow> 'a loop" where
  "run m = (\<lambda>s. Some (m s))"

definition lbind :: "'a loop \<Rightarrow> ('a \<Rightarrow> 'b loop) \<Rightarrow> 'b loop" where
  "lbind m f = (\<lambda>s. case m s of
       None \<Rightarrow> None
     | Some (Inl e, t) \<Rightarrow> Some (Inl e, t)
     | Some (Inr x, t) \<Rightarrow> f x t)"

lemmas [monad] = run_def lbind_def

text \<open>The header \<open>heapchunk_t\<close>, aligned to 16 bytes: the size at offset 0, the flag at 8, the pointer
  to the next chunk at 16.\<close>

definition CHUNK :: u64 where "CHUNK = 32"
definition MIN_CHUNK_SIZE :: u64 where "MIN_CHUNK_SIZE = CHUNK + 4"

lemmas [kconst] = CHUNK_def MIN_CHUNK_SIZE_def

definition get_size :: "u64 \<Rightarrow> u64 kern" where "get_size chunk = load64 chunk"
definition get_inuse :: "u64 \<Rightarrow> bool kern" where
  "get_inuse chunk = bind (load8 (chunk + 8)) (\<lambda>b. ret (b \<noteq> 0))"
definition get_next :: "u64 \<Rightarrow> u64 kern" where "get_next chunk = load64 (chunk + 16)"
definition set_size :: "u64 \<Rightarrow> u64 \<Rightarrow> unit kern" where "set_size chunk v = store64 chunk v"
definition set_inuse :: "u64 \<Rightarrow> bool \<Rightarrow> unit kern" where
  "set_inuse chunk b = store8 (chunk + 8) (if b then 1 else 0)"
definition set_next :: "u64 \<Rightarrow> u64 \<Rightarrow> unit kern" where "set_next chunk v = store64 (chunk + 16) v"

definition round16 :: "u64 \<Rightarrow> u64" where
  "round16 sz = (sz + 15) AND NOT 15"

definition heap_init :: "unit kern" where
  "heap_init =
     andthen (modify (\<lambda>s. s\<lparr>heap := \<lparr>hi_start = heap_start s, hi_avail = heap_end s - heap_start s\<rparr>\<rparr>)) (
     bind (gets heap) (\<lambda>h.
     andthen (set_size (hi_start h) (hi_avail h - CHUNK)) (
     andthen (set_inuse (hi_start h) False) (
     set_next (hi_start h) 0))))"

text \<open>The search of \<open>kalloc\<close>: the condition of a chunk, and the loop.\<close>

definition chunk_fits :: "u64 \<Rightarrow> u64 \<Rightarrow> bool kern" where
  "chunk_fits sz chunk =
     bind (get_inuse chunk) (\<lambda>u.
     if u then ret False else bind (get_size chunk) (\<lambda>z. ret (sz \<le> z)))"

partial_function (option) find_chunk :: "u64 \<Rightarrow> u64 \<Rightarrow> machine \<Rightarrow> ((fault + u64) \<times> machine) option" where
  "find_chunk sz chunk s =
     (if chunk = 0 then Some (Inr 0, s)
      else case chunk_fits sz chunk s of
             (Inl e, t) \<Rightarrow> Some (Inl e, t)
           | (Inr fits, t) \<Rightarrow>
               if fits then Some (Inr chunk, t)
               else (case get_next chunk t of
                       (Inl e, u) \<Rightarrow> Some (Inl e, u)
                     | (Inr nxt, u) \<Rightarrow> find_chunk sz nxt u))"

text \<open>Cutting a new free chunk from the end of a chunk, and taking a chunk for use.\<close>

definition split_chunk :: "u64 \<Rightarrow> u64 \<Rightarrow> u64 \<Rightarrow> unit kern" where
  "split_chunk chunk sz leftover =
     (let new_chunk = chunk + CHUNK + sz in
      andthen (set_size new_chunk (leftover - CHUNK)) (
      andthen (set_inuse new_chunk False) (
      bind (get_next chunk) (\<lambda>nxt.
      andthen (set_next new_chunk nxt) (
      andthen (set_next chunk new_chunk) (
      set_size chunk sz))))))"

definition take_chunk :: "u64 \<Rightarrow> u64 \<Rightarrow> u64 kern" where
  "take_chunk chunk sz =
     bind (get_size chunk) (\<lambda>z.
     let leftover = z - sz in
     andthen (if MIN_CHUNK_SIZE < leftover then split_chunk chunk sz leftover else ret ()) (
     andthen (set_inuse chunk True) (
     ret (chunk + CHUNK))))"

definition kalloc :: "u64 \<Rightarrow> u64 loop" where
  "kalloc size0 =
     (let sz = round16 size0 in
      lbind (run (gets heap)) (\<lambda>h.
      if hi_avail h < sz then run (ret 0)
      else lbind (find_chunk sz (hi_start h)) (\<lambda>chunk.
           if chunk = 0 then run (ret 0) else run (take_chunk chunk sz))))"

definition merge_next :: "u64 \<Rightarrow> unit kern" where
  "merge_next chunk =
     bind (get_size chunk) (\<lambda>z.
     bind (get_next chunk) (\<lambda>nxt.
     bind (get_size nxt) (\<lambda>z'.
     andthen (set_size chunk (z + (CHUNK + z'))) (
     bind (get_next chunk) (\<lambda>nxt.
     bind (get_next nxt) (\<lambda>after.
     set_next chunk after))))))"

definition both_free :: "u64 \<Rightarrow> bool kern" where
  "both_free chunk =
     bind (get_inuse chunk) (\<lambda>u.
     if u then ret False
     else bind (get_next chunk) (\<lambda>nxt. bind (get_inuse nxt) (\<lambda>v. ret (\<not> v))))"

partial_function (option) coalesce_loop :: "u64 \<Rightarrow> machine \<Rightarrow> ((fault + unit) \<times> machine) option" where
  "coalesce_loop chunk s =
     (if chunk = 0 then Some (Inr (), s)
      else case get_next chunk s of
             (Inl e, t) \<Rightarrow> Some (Inl e, t)
           | (Inr nxt, t) \<Rightarrow>
               if nxt = 0 then Some (Inr (), t)
               else (case both_free chunk t of
                       (Inl e, u) \<Rightarrow> Some (Inl e, u)
                     | (Inr free, u) \<Rightarrow>
                         if free
                         then (case merge_next chunk u of
                                 (Inl e, v) \<Rightarrow> Some (Inl e, v)
                               | (Inr _, v) \<Rightarrow> coalesce_loop chunk v)
                         else (case get_next chunk u of
                                 (Inl e, v) \<Rightarrow> Some (Inl e, v)
                               | (Inr nxt, v) \<Rightarrow> coalesce_loop nxt v)))"

definition coalesce_chunk :: "unit loop" where
  "coalesce_chunk = lbind (run (gets heap)) (\<lambda>h. coalesce_loop (hi_start h))"

definition kfree :: "u64 \<Rightarrow> unit loop" where
  "kfree ptr =
     (if ptr = 0 then run (ret ())
      else lbind (run (gets (\<lambda>s. ptr < heap_start s \<or> heap_end s \<le> ptr))) (\<lambda>outside.
           if outside then run (ret ())
           else let chunk = ptr - CHUNK in
                lbind (run (get_inuse chunk)) (\<lambda>u.
                if \<not> u then run (ret ())
                else lbind (run (set_inuse chunk False)) (\<lambda>_. coalesce_chunk))))"

definition extendChunkInPlace :: "u64 \<Rightarrow> u64 \<Rightarrow> u64 \<Rightarrow> u64 kern" where
  "extendChunkInPlace ptr new_size old_chunk =
     bind (get_next old_chunk) (\<lambda>nxt.
     bind (get_inuse nxt) (\<lambda>u.
     if \<not> u
     then bind (get_size old_chunk) (\<lambda>z.
          let extra_space_required = new_size - z in
          bind (get_next old_chunk) (\<lambda>nxt.
          bind (get_size nxt) (\<lambda>nz.
          if extra_space_required + CHUNK \<le> nz
          then bind (get_next old_chunk) (\<lambda>nxt.
               let split = nxt + CHUNK + extra_space_required in
               bind (get_size nxt) (\<lambda>nz.
               andthen (set_size split (nz - extra_space_required - CHUNK)) (
               andthen (set_inuse split False) (
               bind (get_next nxt) (\<lambda>after.
               andthen (set_next split after) (
               bind (get_size old_chunk) (\<lambda>z.
               andthen (set_size old_chunk (z + extra_space_required)) (
               andthen (set_next old_chunk split) (
               ret (old_chunk + CHUNK))))))))))
          else ret 0)))
     else ret 0))"

definition shrink_chunk :: "u64 \<Rightarrow> u64 \<Rightarrow> u64 \<Rightarrow> unit kern" where
  "shrink_chunk old_chunk new_size leftover =
     (let new_chunk = old_chunk + CHUNK + new_size in
      andthen (set_size new_chunk (leftover - CHUNK)) (
      andthen (set_inuse new_chunk False) (
      bind (get_next old_chunk) (\<lambda>nxt.
      andthen (set_next new_chunk nxt) (
      bind (get_size old_chunk) (\<lambda>z.
      andthen (set_size old_chunk (z - leftover)) (
      set_next old_chunk new_chunk)))))))"

text \<open>Moving a block to a new chunk; \<open>krealloc\<close> has these lines twice, with the two forms of the
  minimum of the old and the new size.\<close>

definition move_block :: "u64 \<Rightarrow> u64 \<Rightarrow> u64 \<Rightarrow> u64 loop" where
  "move_block ptr new_size old_chunk =
     lbind (kalloc new_size) (\<lambda>new_ptr.
     if new_ptr = 0 then run (ret 0)
     else lbind (run (get_size old_chunk)) (\<lambda>z.
          lbind (run (memcpy new_ptr ptr (if z < new_size then z else new_size))) (\<lambda>_.
          lbind (kfree ptr) (\<lambda>_. run (ret new_ptr)))))"

definition krealloc :: "u64 \<Rightarrow> u64 \<Rightarrow> u64 loop" where
  "krealloc ptr new_size0 =
     (let new_size = round16 new_size0 in
      if ptr = 0 then kalloc new_size
      else let old_chunk = ptr - CHUNK in
      lbind (run (get_size old_chunk)) (\<lambda>z.
      if z < new_size
      then lbind (run (extendChunkInPlace ptr new_size old_chunk)) (\<lambda>p.
           if p \<noteq> 0 then run (ret ptr) else move_block ptr new_size old_chunk)
      else if new_size < z
      then let leftover = z - new_size in
           if MIN_CHUNK_SIZE < leftover
           then lbind (run (shrink_chunk old_chunk new_size leftover)) (\<lambda>_.
                lbind coalesce_chunk (\<lambda>_. run (ret (old_chunk + CHUNK))))
           else if leftover < MIN_CHUNK_SIZE then move_block ptr new_size old_chunk
           else run (ret ptr)
      else run (ret ptr)))"

section \<open>The list of chunks\<close>

text \<open>A chunk as its physical address, the size of its payload and whether it is in use, with its
  virtual address and the address of its payload.\<close>

record chunk =
  cpos :: nat
  csize :: nat
  cused :: bool

definition c_addr :: "chunk \<Rightarrow> u64" where
  "c_addr c = KERNEL_BASE + of_nat (cpos c)"

definition c_ptr :: "chunk \<Rightarrow> u64" where
  "c_ptr c = c_addr c + CHUNK"

fun first_addr :: "chunk list \<Rightarrow> u64 \<Rightarrow> u64" where
  "first_addr [] e = e"
| "first_addr (c # cs) e = c_addr c"

lemma first_addr_append: "first_addr (xs @ ys) e = first_addr xs (first_addr ys e)"
  by (cases xs) simp_all

text \<open>The header of a chunk in memory, and the list.\<close>

definition header :: "pmem \<Rightarrow> chunk \<Rightarrow> u64 \<Rightarrow> bool" where
  "header m c nxt \<longleftrightarrow>
     pread64 m (of_nat (cpos c)) = of_nat (csize c) \<and>
     (m (of_nat (cpos c + 8)) \<noteq> 0 \<longleftrightarrow> cused c) \<and>
     pread64 m (of_nat (cpos c + 16)) = nxt"

fun chain :: "pmem \<Rightarrow> chunk list \<Rightarrow> u64 \<Rightarrow> bool" where
  "chain m [] e = True"
| "chain m (c # cs) e = (header m c (first_addr cs e) \<and> chain m cs e)"

text \<open>The chunks lie in a range in the order of their addresses, without overlap.\<close>

fun laid :: "nat \<Rightarrow> chunk list \<Rightarrow> nat \<Rightarrow> bool" where
  "laid lo [] hi = (lo \<le> hi)"
| "laid lo (c # cs) hi = (lo \<le> cpos c \<and> laid (cpos c + 32 + csize c) cs hi)"

lemma laid_le: "laid lo cs hi \<Longrightarrow> lo \<le> hi"
  by (induction lo cs hi rule: laid.induct) auto

lemma laid_append: "laid lo (xs @ ys) hi \<longleftrightarrow> (\<exists>mid. laid lo xs mid \<and> laid mid ys hi)"
proof (induction xs arbitrary: lo)
  case Nil
  then show ?case by (cases ys) (auto intro: le_trans)
qed auto

lemma laid_mono: "laid lo cs hi \<Longrightarrow> lo' \<le> lo \<Longrightarrow> hi \<le> hi' \<Longrightarrow> laid lo' cs hi'"
  by (induction lo cs hi arbitrary: lo' rule: laid.induct) auto

lemma laid_bounds: "laid lo cs hi \<Longrightarrow> c \<in> set cs \<Longrightarrow> lo \<le> cpos c \<and> cpos c + 32 + csize c \<le> hi"
proof (induction lo cs hi rule: laid.induct)
  case (2 lo c cs hi)
  then show ?case using laid_le by fastforce
qed simp

lemma chain_append: "chain m (xs @ ys) e \<longleftrightarrow> chain m xs (first_addr ys e) \<and> chain m ys e"
  by (induction xs) (auto simp: first_addr_append)

text \<open>Two memories that agree outside a range of physical addresses. Headers outside it are kept.\<close>

definition same_out :: "nat \<Rightarrow> nat \<Rightarrow> pmem \<Rightarrow> pmem \<Rightarrow> bool" where
  "same_out lo hi m m' \<longleftrightarrow> (\<forall>x. unat x < lo \<or> hi \<le> unat x \<longrightarrow> m' x = m x)"

lemma same_outD: "same_out lo hi m m' \<Longrightarrow> i < lo \<or> hi \<le> i \<Longrightarrow> i < 2 ^ 64 \<Longrightarrow> m' (of_nat i) = m (of_nat i)"
  by (auto simp: same_out_def)

lemma same_out_pread64:
  assumes "same_out lo hi m m'" "i + 8 \<le> lo \<or> hi \<le> i" "i + 8 \<le> 2 ^ 64"
  shows "pread64 m' (of_nat i) = pread64 m (of_nat i)"
proof -
  have "m' (of_nat i + of_nat k) = m (of_nat i + of_nat k)" if "k < 8" for k
    using same_outD [OF assms(1), of "i + k"] assms(2,3) that by auto
  then show ?thesis unfolding pread64_def by (subst pread_cong) auto
qed

lemma same_out_refl: "same_out lo hi m m"
  by (simp add: same_out_def)

lemma same_out_trans: "same_out lo hi m m' \<Longrightarrow> same_out lo hi m' m'' \<Longrightarrow> same_out lo hi m m''"
  by (simp add: same_out_def)

lemma same_out_mono: "same_out lo hi m m' \<Longrightarrow> lo' \<le> lo \<Longrightarrow> hi \<le> hi' \<Longrightarrow> same_out lo' hi' m m'"
  by (auto simp: same_out_def)

lemma same_out_pwrite:
  assumes "lo \<le> i" "i + length bs \<le> hi" "hi \<le> 2 ^ 64"
  shows "same_out lo hi m (pwrite m (of_nat i) bs)"
  unfolding same_out_def
proof (intro allI impI)
  fix x :: u64 assume x: "unat x < lo \<or> hi \<le> unat x"
  show "pwrite m (of_nat i) bs x = m x"
  proof (cases "bs = []")
    case False
    then have "0 < length bs" by simp
    then have i: "unat (of_nat i :: u64) = i" using assms by (intro unat_of_nat64) linarith
    have "length bs \<le> unat (x - of_nat i)"
      using x assms i u64_bound [of x] by (auto simp: unat_sub_if_size word_size)
    then show ?thesis by (simp add: pwrite_outside)
  qed simp
qed

lemma header_kept:
  assumes "header m c e" "same_out lo hi m m'" "cpos c + 32 \<le> lo \<or> hi \<le> cpos c" "cpos c + 32 \<le> 2 ^ 64"
  shows "header m' c e"
  using assms same_out_pread64 [OF assms(2), of "cpos c"] same_out_pread64 [OF assms(2), of "cpos c + 16"]
    same_outD [OF assms(2), of "cpos c + 8"] by (auto simp: header_def)

lemma chain_kept:
  assumes "chain m cs e" "same_out lo hi m m'" "laid a cs b" "b \<le> 2 ^ 64" "b \<le> lo \<or> hi \<le> a"
  shows "chain m' cs e"
  using assms(1,3,5)
proof (induction cs arbitrary: a)
  case (Cons c cs)
  have "cpos c + 32 + csize c \<le> b" "a \<le> cpos c" using Cons(3) laid_le by auto
  then have "header m' c (first_addr cs e)"
    using Cons(2,4) assms(4) by (intro header_kept [OF _ assms(2)]) auto
  then show ?case using Cons(1) [of "cpos c + 32 + csize c"] Cons(2-4) by auto
qed simp

text \<open>Replacing some neighbouring chunks by others in the same place.\<close>

lemma chain_splice:
  assumes "chain m (xs @ old @ ys) e" "laid lo xs a" "laid a old b" "laid b ys hi" "hi \<le> 2 ^ 64"
    and "same_out a b m m'" "chain m' new (first_addr ys e)" "laid a new b"
    and "first_addr new (first_addr ys e) = first_addr old (first_addr ys e)"
  shows "chain m' (xs @ new @ ys) e" "laid lo (xs @ new @ ys) hi"
proof -
  have "b \<le> 2 ^ 64" "a \<le> 2 ^ 64" using laid_le [OF assms(3)] laid_le [OF assms(4)] assms(5) by auto
  then have "chain m' xs (first_addr old (first_addr ys e))" "chain m' ys e"
    using chain_kept [OF _ assms(6,2)] chain_kept [OF _ assms(6,4,5)] assms(1)
    by (auto simp: chain_append first_addr_append)
  then show "chain m' (xs @ new @ ys) e"
    using assms(7,9) by (simp add: chain_append first_addr_append)
  show "laid lo (xs @ new @ ys) hi" using assms(2,4,8) by (auto simp: laid_append)
qed

section \<open>Access to headers\<close>

text \<open>Reads after writes at physical addresses given as numbers.\<close>

named_theorems nat_mem

lemma of_nat_eq64 [nat_mem]: "i < 2 ^ 64 \<Longrightarrow> j < 2 ^ 64 \<Longrightarrow> (of_nat i = (of_nat j :: u64)) \<longleftrightarrow> i = j"
  by (metis unat_of_nat64)

lemma apart_nat: "i + n \<le> j \<Longrightarrow> j + k \<le> 2 ^ 64 \<Longrightarrow> 0 < n \<Longrightarrow> 0 < k \<Longrightarrow> apart (of_nat i) n (of_nat j) k"
  using apart_offsets [of i n j k 0] by simp

lemma read64_write64 [nat_mem]:
  "i + 8 \<le> j \<Longrightarrow> j + 8 \<le> 2 ^ 64 \<Longrightarrow> pread64 (pwrite64 m (of_nat i) v) (of_nat j) = pread64 m (of_nat j)"
  "j + 8 \<le> i \<Longrightarrow> i + 8 \<le> 2 ^ 64 \<Longrightarrow> pread64 (pwrite64 m (of_nat i) v) (of_nat j) = pread64 m (of_nat j)"
  by (simp_all add: pread64_pwrite64_apart apart_nat apart_sym)

lemma read64_write8 [nat_mem]:
  "i < j \<Longrightarrow> j + 8 \<le> 2 ^ 64 \<Longrightarrow> pread64 (m(of_nat i := b)) (of_nat j) = pread64 m (of_nat j)"
  "j + 8 \<le> i \<Longrightarrow> i < 2 ^ 64 \<Longrightarrow> pread64 (m(of_nat i := b)) (of_nat j) = pread64 m (of_nat j)"
  using pread64_pwrite_apart [of "of_nat i" "[b]" "of_nat j" m]
    apart_nat [of i 1 j 8] apart_sym [OF apart_nat [of j 8 i 1]]
  by (simp_all add: pwrite_single)

lemma read8_write64 [nat_mem]:
  "i + 8 \<le> j \<Longrightarrow> j < 2 ^ 64 \<Longrightarrow> pwrite64 m (of_nat i) v (of_nat j) = m (of_nat j)"
  "j < i \<Longrightarrow> i + 8 \<le> 2 ^ 64 \<Longrightarrow> pwrite64 m (of_nat i) v (of_nat j) = m (of_nat j)"
  using same_outD [OF same_out_pwrite [of i i "le_bytes 8 v" "i + 8" m], of j]
  by (simp_all add: pwrite64_def)

lemma read8_write8 [nat_mem]:
  "i < j \<Longrightarrow> j < 2 ^ 64 \<Longrightarrow> (m(of_nat i := b)) (of_nat j :: u64) = m (of_nat j)"
  "j < i \<Longrightarrow> i < 2 ^ 64 \<Longrightarrow> (m(of_nat i := b)) (of_nat j :: u64) = m (of_nat j)"
  by (auto simp: of_nat_eq64)

lemma same_out_write:
  "same_out lo hi m m' \<Longrightarrow> lo \<le> i \<Longrightarrow> i + 8 \<le> hi \<Longrightarrow> hi \<le> 2 ^ 64 \<Longrightarrow> same_out lo hi m (pwrite64 m' (of_nat i) v)"
  "same_out lo hi m m' \<Longrightarrow> lo \<le> i \<Longrightarrow> i < hi \<Longrightarrow> hi \<le> 2 ^ 64 \<Longrightarrow> same_out lo hi m (m'(of_nat i := b))"
  using same_out_trans [OF _ same_out_pwrite [of lo i "le_bytes 8 v" hi]]
    same_out_trans [OF _ same_out_pwrite [of lo i "[b]" hi]]
  by (simp_all add: pwrite64_def pwrite_single)

text \<open>The region of the heap: in the window and off the tables.\<close>

definition region :: "kframes \<Rightarrow> nat \<Rightarrow> nat \<Rightarrow> bool" where
  "region F lo hi \<longleftrightarrow> lo < hi \<and> hi \<le> 0x1FF000 \<and> off_tables F (of_nat lo) (hi - lo)"

lemma region_off: "region F lo hi \<Longrightarrow> lo \<le> i \<Longrightarrow> i + n \<le> hi \<Longrightarrow> 0 < n \<Longrightarrow> off_tables F (of_nat i) n"
  using off_tables_sub [of F "of_nat lo" "hi - lo" "i - lo" n] by (simp add: region_def of_nat_diff)

lemma header_access:
  assumes "kwin F s" "region F lo hi" "lo \<le> i" "i + 32 \<le> hi"
  shows "get_size (KERNEL_BASE + of_nat i) s = (Inr (pread64 (mem s) (of_nat i)), s)"
    "get_inuse (KERNEL_BASE + of_nat i) s = (Inr (mem s (of_nat (i + 8)) \<noteq> 0), s)"
    "get_next (KERNEL_BASE + of_nat i) s = (Inr (pread64 (mem s) (of_nat (i + 16))), s)"
    "set_size (KERNEL_BASE + of_nat i) v s = (Inr (), s\<lparr>mem := pwrite64 (mem s) (of_nat i) v\<rparr>)"
    "set_inuse (KERNEL_BASE + of_nat i) b s
       = (Inr (), s\<lparr>mem := (mem s)(of_nat (i + 8) := if b then 1 else 0)\<rparr>)"
    "set_next (KERNEL_BASE + of_nat i) v s = (Inr (), s\<lparr>mem := pwrite64 (mem s) (of_nat (i + 16)) v\<rparr>)"
proof -
  have hi: "hi \<le> 0x1FF000" using assms(2) by (simp add: region_def)
  have w: "in_win (KERNEL_BASE + of_nat j) n" if "j + n \<le> 0x1FF000" for j n
    using that by (simp add: in_win_def)
  have k: "KERNEL_BASE + of_nat i + 8 = KERNEL_BASE + of_nat (i + 8)"
    "KERNEL_BASE + of_nat i + 16 = KERNEL_BASE + of_nat (i + 16)" by simp_all
  note w1 = w [of i 8] w [of "i + 8" 1] w [of "i + 16" 8]
  show "get_size (KERNEL_BASE + of_nat i) s = (Inr (pread64 (mem s) (of_nat i)), s)"
    "get_inuse (KERNEL_BASE + of_nat i) s = (Inr (mem s (of_nat (i + 8)) \<noteq> 0), s)"
    "get_next (KERNEL_BASE + of_nat i) s = (Inr (pread64 (mem s) (of_nat (i + 16))), s)"
    "set_size (KERNEL_BASE + of_nat i) v s = (Inr (), s\<lparr>mem := pwrite64 (mem s) (of_nat i) v\<rparr>)"
    "set_inuse (KERNEL_BASE + of_nat i) b s
       = (Inr (), s\<lparr>mem := (mem s)(of_nat (i + 8) := if b then 1 else 0)\<rparr>)"
    "set_next (KERNEL_BASE + of_nat i) v s = (Inr (), s\<lparr>mem := pwrite64 (mem s) (of_nat (i + 16)) v\<rparr>)"
    unfolding get_size_def get_inuse_def get_next_def set_size_def set_inuse_def set_next_def k
    using kwin_load64 [OF assms(1) w1(1)] kwin_load8 [OF assms(1) w1(2)] kwin_load64 [OF assms(1) w1(3)]
      kwin_store64 [OF assms(1) w1(1)] kwin_store8 [OF assms(1) w1(2)] kwin_store64 [OF assms(1) w1(3)]
      assms(4) hi
    by (simp_all add: monad)
qed

lemma header_kwin:
  assumes "kwin F s" "region F lo hi" "lo \<le> i" "i + 32 \<le> hi"
  shows "kwin F (s\<lparr>mem := pwrite64 (mem s) (of_nat i) v\<rparr>)"
    "kwin F (s\<lparr>mem := (mem s)(of_nat (i + 8) := b)\<rparr>)"
    "kwin F (s\<lparr>mem := pwrite64 (mem s) (of_nat (i + 16)) v\<rparr>)"
  using kmap_pwrite64 [OF assms(1), of "of_nat i"] kmap_pwrite64 [OF assms(1), of "of_nat (i + 16)"]
    kmap_pwrite [OF assms(1), of "of_nat (i + 8)" "[b]"]
    region_off [OF assms(2), of i 8] region_off [OF assms(2), of "i + 8" 1] region_off [OF assms(2), of "i + 16" 8]
    assms(3,4)
  by (simp_all add: pwrite_single)

section \<open>The invariant\<close>

definition heap_lo :: "machine \<Rightarrow> nat" where "heap_lo s = unat (heap_start s - KERNEL_BASE)"
definition heap_hi :: "machine \<Rightarrow> nat" where "heap_hi s = unat (heap_end s - KERNEL_BASE)"

definition chunk_ok :: "chunk \<Rightarrow> bool" where
  "chunk_ok c \<longleftrightarrow> 16 dvd cpos c \<and> 16 dvd csize c"

definition heap_ok :: "kframes \<Rightarrow> machine \<Rightarrow> chunk list \<Rightarrow> bool" where
  "heap_ok F s cs \<longleftrightarrow>
     kwin F s \<and> region F (heap_lo s) (heap_hi s) \<and>
     hi_start (heap s) = first_addr cs 0 \<and> chain (mem s) cs 0 \<and> laid (heap_lo s) cs (heap_hi s) \<and>
     (\<forall>c\<in>set cs. chunk_ok c)"

lemma c_addr_nonzero: "cpos c < 0x1FF000 \<Longrightarrow> c_addr c \<noteq> 0"
proof
  assume "cpos c < 0x1FF000" "c_addr c = 0"
  then show False using unat_kernel_addr [of "cpos c"] by (simp add: c_addr_def)
qed

lemma heap_okD:
  assumes "heap_ok F s cs"
  shows "kwin F s" "region F (heap_lo s) (heap_hi s)" "hi_start (heap s) = first_addr cs 0"
    "chain (mem s) cs 0" "laid (heap_lo s) cs (heap_hi s)" "heap_hi s \<le> 0x1FF000"
    "\<And>c. c \<in> set cs \<Longrightarrow> chunk_ok c"
  using assms by (auto simp: heap_ok_def region_def)

lemma heap_upd:
  "heap_lo (s\<lparr>mem := m\<rparr>) = heap_lo s" "heap_hi (s\<lparr>mem := m\<rparr>) = heap_hi s"
  by (simp_all add: heap_lo_def heap_hi_def)

text \<open>Reading the header of a chunk of the list.\<close>

lemma chunk_reads:
  assumes "kwin F s" "region F lo hi" "lo \<le> cpos c" "cpos c + 32 + csize c \<le> hi" "header (mem s) c e"
  shows "get_size (c_addr c) s = (Inr (of_nat (csize c)), s)" "get_inuse (c_addr c) s = (Inr (cused c), s)"
    "get_next (c_addr c) s = (Inr e, s)"
  using header_access(1-3) [OF assms(1-3)] assms(4,5) by (simp_all add: c_addr_def header_def)

section \<open>Allocation\<close>

text \<open>First fit on the list: the chunk that is taken, split if enough is left over.\<close>

definition fits :: "nat \<Rightarrow> chunk \<Rightarrow> bool" where
  "fits r c \<longleftrightarrow> \<not> cused c \<and> r \<le> csize c"

definition cut :: "nat \<Rightarrow> chunk \<Rightarrow> chunk list" where
  "cut r c =
     (if r + 36 < csize c
      then [c\<lparr>csize := r\<rparr>, \<lparr>cpos = cpos c + 32 + r, csize = csize c - r - 32, cused = False\<rparr>]
      else [c])"

lemma find_chunk_run:
  assumes "kwin F s" "region F lo hi" "chain (mem s) cs 0" "laid a cs hi" "lo \<le> a" "r < 2 ^ 64"
  shows "find_chunk (of_nat r) (first_addr cs 0) s
     = Some (Inr (case find (fits r) cs of None \<Rightarrow> 0 | Some c \<Rightarrow> c_addr c), s)"
  using assms(3-5)
proof (induction cs arbitrary: a)
  case Nil
  then show ?case by (simp add: find_chunk.simps)
next
  case (Cons c cs)
  have hi: "hi \<le> 0x1FF000" using assms(2) by (simp add: region_def)
  have b: "cpos c + 32 + csize c \<le> hi" "lo \<le> cpos c" using Cons(3,4) laid_le by auto
  note rd = chunk_reads [OF assms(1,2) b(2,1), of "first_addr cs 0"]
  have "(of_nat r \<le> (of_nat (csize c) :: u64)) \<longleftrightarrow> r \<le> csize c"
    using b(1) hi assms(6) by (simp add: word_le_nat_alt)
  then have f: "chunk_fits (of_nat r) (c_addr c) s = (Inr (fits r c), s)"
    using rd Cons(2) by (auto simp: chunk_fits_def monad fits_def)
  show ?case
    using f rd(3) Cons(1) [of "cpos c + 32 + csize c"] Cons(2-4) c_addr_nonzero [of c] b hi
    by (subst find_chunk.simps) simp
qed

lemma split_chunk_run:
  assumes k: "kwin F s" and R: "region F lo hi" and c: "lo \<le> cpos c" "cpos c + 32 + csize c \<le> hi"
    and h: "header (mem s) c e" and r: "r + 32 \<le> csize c"
  defines "d \<equiv> \<lparr>cpos = cpos c + 32 + r, csize = csize c - r - 32, cused = False\<rparr>"
  shows "\<exists>t. split_chunk (c_addr c) (of_nat r) (of_nat (csize c - r)) s = (Inr (), t) \<and> t = s\<lparr>mem := mem t\<rparr>
     \<and> kwin F t \<and> header (mem t) (c\<lparr>csize := r\<rparr>) (c_addr d) \<and> header (mem t) d e
     \<and> same_out (cpos c) (cpos c + 32 + csize c) (mem s) (mem t)"
proof -
  let ?p = "cpos c" and ?q = "cpos c + 32 + r"
  have hi: "hi \<le> 0x1FF000" using R by (simp add: region_def)
  have q: "lo \<le> ?q" "?q + 32 \<le> hi" and p: "lo \<le> ?p" "?p + 32 \<le> hi" using c r by auto
  have na: "c_addr c + CHUNK + of_nat r = KERNEL_BASE + of_nat ?q" by (simp add: c_addr_def kconst)
  have lz: "of_nat (csize c - r) - CHUNK = (of_nat (csize c - r - 32) :: u64)"
    using r by (simp add: kconst of_nat_diff)
  define m1 where "m1 = pwrite64 (mem s) (of_nat ?q) (of_nat (csize c - r - 32))"
  define m2 where "m2 = m1(of_nat (?q + 8) := 0)"
  define m3 where "m3 = pwrite64 m2 (of_nat (?q + 16)) e"
  define m4 where "m4 = pwrite64 m3 (of_nat (?p + 16)) (KERNEL_BASE + of_nat ?q)"
  define m5 where "m5 = pwrite64 m4 (of_nat ?p) (of_nat r)"
  have k1: "kwin F (s\<lparr>mem := m1\<rparr>)" using header_kwin(1) [OF k R q] by (simp add: m1_def)
  have k2: "kwin F (s\<lparr>mem := m2\<rparr>)" using header_kwin(2) [OF k1 R q, of 0] by (simp add: m2_def)
  have k3: "kwin F (s\<lparr>mem := m3\<rparr>)" using header_kwin(3) [OF k2 R q] by (simp add: m3_def)
  have k4: "kwin F (s\<lparr>mem := m4\<rparr>)" using header_kwin(3) [OF k3 R p] by (simp add: m4_def)
  have k5: "kwin F (s\<lparr>mem := m5\<rparr>)" using header_kwin(1) [OF k4 R p] by (simp add: m5_def)
  have e: "pread64 m2 (of_nat (?p + 16)) = e"
    using h q hi by (simp add: m2_def m1_def header_def nat_mem del: of_nat_add)
  have "split_chunk (c_addr c) (of_nat r) (of_nat (csize c - r)) s = (Inr (), s\<lparr>mem := m5\<rparr>)"
    unfolding split_chunk_def Let_def na lz
    using header_access [OF k R q] header_access [OF k1 R q] header_access [OF k2 R q] header_access(3) [OF k2 R p]
      header_access [OF k3 R p] header_access [OF k4 R p] e
    by (simp add: monad c_addr_def m1_def m2_def m3_def m4_def m5_def del: of_nat_add)
  moreover have "header m5 (c\<lparr>csize := r\<rparr>) (c_addr d)" "header m5 d e"
    using h q hi by (auto simp: header_def d_def c_addr_def m1_def m2_def m3_def m4_def m5_def nat_mem simp del: of_nat_add)
  moreover have "same_out ?p (?p + 32 + csize c) (mem s) m5"
    unfolding m1_def m2_def m3_def m4_def m5_def
    by (intro same_out_write same_out_refl) (use c r hi in auto)
  ultimately show ?thesis using k5 by (intro exI [of _ "s\<lparr>mem := m5\<rparr>"]) simp
qed

text \<open>Taking the chunk that was found.\<close>

lemma take_chunk_run:
  assumes k: "kwin F s" and R: "region F lo hi" and c: "lo \<le> cpos c" "cpos c + 32 + csize c \<le> hi"
    and h: "header (mem s) c e" and r: "fits r c"
  shows "\<exists>t. take_chunk (c_addr c) (of_nat r) s = (Inr (c_ptr c), t) \<and> t = s\<lparr>mem := mem t\<rparr> \<and> kwin F t
     \<and> chain (mem t) (cut r (c\<lparr>cused := True\<rparr>)) e
     \<and> same_out (cpos c) (cpos c + 32 + csize c) (mem s) (mem t)"
proof -
  let ?p = "cpos c"
  have hi: "hi \<le> 0x1FF000" using R by (simp add: region_def)
  have p: "lo \<le> ?p" "?p + 32 \<le> hi" and rc: "r \<le> csize c" using c r by (auto simp: fits_def)
  have left: "of_nat (csize c) - of_nat r = (of_nat (csize c - r) :: u64)" using rc by (simp add: of_nat_diff)
  have cmp: "(MIN_CHUNK_SIZE < (of_nat (csize c - r) :: u64)) \<longleftrightarrow> r + 36 < csize c"
    using c hi by (auto simp: kconst word_less_nat_alt)
  obtain t where t: "(if MIN_CHUNK_SIZE < (of_nat (csize c - r) :: u64)
        then split_chunk (c_addr c) (of_nat r) (of_nat (csize c - r)) else ret ()) s = (Inr (), t)"
      "t = s\<lparr>mem := mem t\<rparr>" "kwin F t" "chain (mem t) (cut r c) e"
      "same_out ?p (?p + 32 + csize c) (mem s) (mem t)"
  proof (cases "r + 36 < csize c")
    case True
    then show ?thesis
      using split_chunk_run [OF k R c h, of r] cmp that by (auto simp: cut_def)
  next
    case False
    then show ?thesis using that [of s] cmp k h by (simp add: cut_def same_out_refl monad)
  qed
  let ?u = "t\<lparr>mem := (mem t)(of_nat (?p + 8) := 1)\<rparr>"
  have "set_inuse (c_addr c) True t = (Inr (), ?u)"
    using header_access(5) [OF t(3) R p, of True] by (simp add: c_addr_def)
  then have "take_chunk (c_addr c) (of_nat r) s = (Inr (c_ptr c), ?u)"
    using chunk_reads(1) [OF k R c h] t(1)
    by (auto simp: take_chunk_def monad left Let_def c_ptr_def split: if_splits)
  moreover have "chain (mem ?u) (cut r (c\<lparr>cused := True\<rparr>)) e"
    using t(4) c rc hi
    by (auto simp: cut_def header_def c_addr_def nat_mem simp del: of_nat_add split: if_splits)
  moreover have "same_out ?p (?p + 32 + csize c) (mem s) (mem ?u)"
    using t(5) c hi by (auto intro!: same_out_write(2) simp del: of_nat_add)
  moreover have "?u = s\<lparr>mem := mem ?u\<rparr>" by (subst t(2)) simp
  ultimately show ?thesis using header_kwin(2) [OF t(3) R p, of 1] by blast
qed

text \<open>First fit on the list of chunks.\<close>

fun take_first :: "nat \<Rightarrow> chunk list \<Rightarrow> (chunk \<times> chunk list) option" where
  "take_first r [] = None"
| "take_first r (c # cs) =
     (if fits r c then Some (c, cut r (c\<lparr>cused := True\<rparr>) @ cs)
      else map_option (\<lambda>(d, ds). (d, c # ds)) (take_first r cs))"

lemma take_first_None: "take_first r cs = None \<longleftrightarrow> find (fits r) cs = None"
  by (induction cs) auto

lemma take_first_split:
  "take_first r cs = Some (c, ds) \<Longrightarrow>
     \<exists>xs ys. cs = xs @ c # ys \<and> ds = xs @ cut r (c\<lparr>cused := True\<rparr>) @ ys \<and> fits r c \<and> find (fits r) cs = Some c"
proof (induction cs arbitrary: ds)
  case (Cons d cs)
  show ?case
  proof (cases "fits r d")
    case True
    then show ?thesis using Cons(2) by (intro exI [of _ "[]"] exI [of _ cs]) auto
  next
    case False
    then obtain es where "take_first r cs = Some (c, es)" "ds = d # es" using Cons(2) by auto
    with Cons(1) obtain xs ys where "cs = xs @ c # ys" "es = xs @ cut r (c\<lparr>cused := True\<rparr>) @ ys"
      "fits r c" "find (fits r) cs = Some c" by blast
    then show ?thesis using False \<open>ds = d # es\<close> by (intro exI [of _ "d # xs"] exI [of _ ys]) auto
  qed
qed simp

lemma laid_cut: "r \<le> csize c \<Longrightarrow> laid (cpos c) (cut r c) (cpos c + 32 + csize c)"
  by (simp add: cut_def)

lemma laid_splice1:
  assumes "laid lo (xs @ c # ys) hi"
  shows "laid lo xs (cpos c)" "laid (cpos c) [c] (cpos c + 32 + csize c)" "laid (cpos c + 32 + csize c) ys hi"
  using assms by (auto simp: laid_append intro: laid_mono)

lemma heap_take:
  assumes ok: "heap_ok F s cs" and tk: "take_first r cs = Some (c, ds)" and r: "16 dvd r"
  shows "\<exists>t. take_chunk (c_addr c) (of_nat r) s = (Inr (c_ptr c), t) \<and> heap_ok F t ds \<and> t = s\<lparr>mem := mem t\<rparr>
     \<and> same_out (cpos c) (cpos c + 32 + csize c) (mem s) (mem t)"
proof -
  note d = heap_okD [OF ok]
  obtain xs ys where cs: "cs = xs @ c # ys" and ds: "ds = xs @ cut r (c\<lparr>cused := True\<rparr>) @ ys"
    and fit: "fits r c" using take_first_split [OF tk] by blast
  note l = laid_splice1 [OF d(5) [unfolded cs]]
  have c: "heap_lo s \<le> cpos c" "cpos c + 32 + csize c \<le> heap_hi s"
    using laid_bounds [OF d(5), of c] cs by auto
  have h: "header (mem s) c (first_addr ys 0)" using d(4) by (simp add: cs chain_append)
  obtain t where t: "take_chunk (c_addr c) (of_nat r) s = (Inr (c_ptr c), t)" "t = s\<lparr>mem := mem t\<rparr>" "kwin F t"
     "chain (mem t) (cut r (c\<lparr>cused := True\<rparr>)) (first_addr ys 0)"
     "same_out (cpos c) (cpos c + 32 + csize c) (mem s) (mem t)"
    using take_chunk_run [OF d(1,2) c h fit] by blast
  have hi: "heap_hi s \<le> 2 ^ 64" using d(6) by simp
  have lc: "laid (cpos c) (cut r (c\<lparr>cused := True\<rparr>)) (cpos c + 32 + csize c)"
    using laid_cut [of r "c\<lparr>cused := True\<rparr>"] fit by (simp add: fits_def)
  have fa: "first_addr (cut r (c\<lparr>cused := True\<rparr>)) (first_addr ys 0) = first_addr [c] (first_addr ys 0)"
    by (simp add: cut_def c_addr_def)
  note sp = chain_splice [of "mem s" xs "[c]" ys 0, OF _ l hi t(5,4) lc fa]
  have "\<forall>x\<in>set ds. chunk_ok x"
    using d(7) r fit by (auto simp: ds cs cut_def chunk_ok_def fits_def)
  moreover have "hi_start (heap t) = first_addr ds 0" "heap_lo t = heap_lo s" "heap_hi t = heap_hi s"
    using d(3) by (subst t(2), simp add: heap_upd ds cs first_addr_append cut_def c_addr_def)+
  ultimately have "heap_ok F t ds"
    using sp d(2,4) t(3) by (simp add: heap_ok_def ds cs)
  then show ?thesis using t(1,2,5) by blast
qed

section \<open>Merging\<close>

function merge_free :: "chunk list \<Rightarrow> chunk list" where
  "merge_free [] = []"
| "merge_free [c] = [c]"
| "merge_free (c # d # cs) =
     (if \<not> cused c \<and> \<not> cused d then merge_free (c\<lparr>csize := csize c + 32 + csize d\<rparr> # cs)
      else c # merge_free (d # cs))"
  by pat_completeness auto
termination by (relation "measure length") auto

lemma merge_free_first: "first_addr (merge_free cs) e = first_addr cs e"
  by (induction cs rule: merge_free.induct) (auto simp: c_addr_def)

lemma merge_free_ok: "\<forall>c\<in>set cs. chunk_ok c \<Longrightarrow> \<forall>c\<in>set (merge_free cs). chunk_ok c"
  by (induction cs rule: merge_free.induct) (auto simp: chunk_ok_def)

lemma merge_free_used: "filter cused (merge_free cs) = filter cused cs"
  by (induction cs rule: merge_free.induct) auto

lemma merge_free_head: "\<exists>d ds. merge_free (c # cs) = d # ds \<and> cused d = cused c"
proof (induction "c # cs" arbitrary: c cs rule: merge_free.induct)
  case (3 c d cs)
  then show ?case by (cases "\<not> cused c \<and> \<not> cused d") auto
qed auto

text \<open>No two neighbours are free afterwards.\<close>

lemma merge_free_no_free_pair:
  "merge_free cs = xs @ c # d # ys \<Longrightarrow> cused c \<or> cused d"
proof (induction cs arbitrary: xs rule: merge_free.induct)
  case (3 a b cs)
  show ?case
  proof (cases "\<not> cused a \<and> \<not> cused b")
    case True
    then show ?thesis using 3(1) [OF True] 3(3) by simp
  next
    case False
    then have e: "a # merge_free (b # cs) = xs @ c # d # ys" using 3(3) by (auto split: if_splits)
    show ?thesis
    proof (cases xs)
      case Nil
      have "cused d = cused b" using e Nil merge_free_head [of b cs] by auto
      then show ?thesis using False e Nil by auto
    next
      case (Cons x xs')
      then show ?thesis using 3(2) [OF False] e by simp
    qed
  qed
qed auto

lemma merge_next_run:
  assumes k: "kwin F s" and R: "region F lo hi" and c: "lo \<le> cpos c" "cpos c + 32 + csize c \<le> cpos d"
    and d: "cpos d + 32 + csize d \<le> hi" and h: "header (mem s) c (c_addr d)" "header (mem s) d e"
  shows "\<exists>t. merge_next (c_addr c) s = (Inr (), t) \<and> t = s\<lparr>mem := mem t\<rparr> \<and> kwin F t
     \<and> header (mem t) (c\<lparr>csize := csize c + 32 + csize d\<rparr>) e
     \<and> same_out (cpos c) (cpos c + 32) (mem s) (mem t)"
proof -
  let ?p = "cpos c"
  have hi: "hi \<le> 0x1FF000" using R by (simp add: region_def)
  have p: "lo \<le> ?p" "?p + 32 \<le> hi" "?p + 32 + csize c \<le> hi" "lo \<le> cpos d" using c d by auto
  define m1 where "m1 = pwrite64 (mem s) (of_nat ?p) (of_nat (csize c + 32 + csize d))"
  define m2 where "m2 = pwrite64 m1 (of_nat (?p + 16)) e"
  have k1: "kwin F (s\<lparr>mem := m1\<rparr>)" using header_kwin(1) [OF k R p(1,2)] by (simp add: m1_def)
  have k2: "kwin F (s\<lparr>mem := m2\<rparr>)" using header_kwin(3) [OF k1 R p(1,2)] by (simp add: m2_def)
  have h1: "header m1 d e" "pread64 m1 (of_nat (?p + 16)) = c_addr d"
    using h c d hi by (auto simp: header_def m1_def nat_mem simp del: of_nat_add)
  note r = chunk_reads [OF k R p(1,3) h(1)] chunk_reads [OF k R p(4) d h(2)]
  have w: "set_size (c_addr c) v s = (Inr (), s\<lparr>mem := pwrite64 (mem s) (of_nat ?p) v\<rparr>)"
    "get_next (c_addr c) (s\<lparr>mem := m1\<rparr>) = (Inr (c_addr d), s\<lparr>mem := m1\<rparr>)"
    "get_next (c_addr d) (s\<lparr>mem := m1\<rparr>) = (Inr e, s\<lparr>mem := m1\<rparr>)"
    "set_next (c_addr c) e (s\<lparr>mem := m1\<rparr>) = (Inr (), s\<lparr>mem := m2\<rparr>)" for v
    using header_access(4) [OF k R p(1,2), of v] header_access(3,6) [OF k1 R p(1,2)] h1
      chunk_reads(3) [OF k1 R p(4) d, of e]
    by (simp_all add: c_addr_def m2_def del: of_nat_add)
  have "of_nat (csize c) + (CHUNK + of_nat (csize d)) = (of_nat (csize c + 32 + csize d) :: u64)"
    by (simp add: kconst)
  then have "merge_next (c_addr c) s = (Inr (), s\<lparr>mem := m2\<rparr>)"
    using r w by (simp add: merge_next_def monad m1_def del: of_nat_add)
  moreover have "header m2 (c\<lparr>csize := csize c + 32 + csize d\<rparr>) e"
    using h c d hi by (auto simp: header_def m1_def m2_def nat_mem simp del: of_nat_add)
  moreover have "same_out ?p (?p + 32) (mem s) m2"
    unfolding m1_def m2_def by (intro same_out_write same_out_refl) (use p hi in auto)
  ultimately show ?thesis using k2 by (intro exI [of _ "s\<lparr>mem := m2\<rparr>"]) simp
qed

text \<open>The headers of free chunks are all that merging writes.\<close>

definition free_headers :: "chunk list \<Rightarrow> nat \<Rightarrow> bool" where
  "free_headers cs i \<longleftrightarrow> (\<exists>c\<in>set cs. \<not> cused c \<and> cpos c \<le> i \<and> i < cpos c + 32)"

lemma coalesce_loop_run:
  assumes "region F lo hi" "kwin F s" "chain (mem s) (xs @ ys) 0" "laid lo (xs @ ys) hi"
  shows "\<exists>t. coalesce_loop (first_addr ys 0) s = Some (Inr (), t) \<and> kwin F t \<and> t = s\<lparr>mem := mem t\<rparr>
     \<and> chain (mem t) (xs @ merge_free ys) 0 \<and> laid lo (xs @ merge_free ys) hi
     \<and> (\<forall>x. \<not> free_headers ys (unat x) \<longrightarrow> mem t x = mem s x)"
  using assms(2-4)
proof (induction ys arbitrary: xs s rule: merge_free.induct)
  case 1
  then show ?case by (intro exI [of _ s]) (simp add: coalesce_loop.simps)
next
  case (2 c)
  have hi: "hi \<le> 0x1FF000" using assms(1) by (simp add: region_def)
  have c: "lo \<le> cpos c" "cpos c + 32 + csize c \<le> hi" using laid_bounds [OF 2(3), of c] by auto
  have "header (mem s) c 0" using 2(2) by (simp add: chain_append)
  from chunk_reads(3) [OF 2(1) assms(1) c this]
  have "coalesce_loop (c_addr c) s = Some (Inr (), s)" by (subst coalesce_loop.simps) simp
  then show ?case using 2 by (intro exI [of _ s]) simp
next
  case (3 c d cs)
  have hi: "hi \<le> 0x1FF000" using assms(1) by (simp add: region_def)
  have bc: "lo \<le> cpos c" "cpos c + 32 + csize c \<le> hi" and bd: "lo \<le> cpos d" "cpos d + 32 + csize d \<le> hi"
    using laid_bounds [OF 3(5), of c] laid_bounds [OF 3(5), of d] by auto
  have cd: "cpos c + 32 + csize c \<le> cpos d" using 3(5) by (auto simp: laid_append)
  have hc: "header (mem s) c (c_addr d)" and hd: "header (mem s) d (first_addr cs 0)"
    using 3(4) by (auto simp: chain_append)
  note r = chunk_reads [OF 3(3) assms(1) bc hc] chunk_reads [OF 3(3) assms(1) bd hd]
  have nz: "c_addr c \<noteq> 0" "c_addr d \<noteq> 0" using c_addr_nonzero bc bd hi by auto
  have bf: "both_free (c_addr c) s = (Inr (\<not> cused c \<and> \<not> cused d), s)"
    using r by (simp add: both_free_def monad)
  show ?case
  proof (cases "\<not> cused c \<and> \<not> cused d")
    case True
    let ?c = "c\<lparr>csize := csize c + 32 + csize d\<rparr>"
    obtain t where t: "merge_next (c_addr c) s = (Inr (), t)" "t = s\<lparr>mem := mem t\<rparr>" "kwin F t"
      "header (mem t) ?c (first_addr cs 0)" "same_out (cpos c) (cpos c + 32) (mem s) (mem t)"
      using merge_next_run [OF 3(3) assms(1) bc(1) cd bd(2) hc hd] by blast
    obtain mid where l: "laid lo xs mid" "mid \<le> cpos c" "laid (cpos d + 32 + csize d) cs hi"
      using 3(5) by (auto simp: laid_append)
    have lay: "laid (cpos c) [c, d] (cpos d + 32 + csize d)" "laid (cpos c) [?c] (cpos d + 32 + csize d)"
      using cd by auto
    have "laid lo xs (cpos c)" using l laid_mono by blast
    note sp = chain_splice [of "mem s" xs "[c, d]" cs 0, OF _ this lay(1) l(3) _ _ _ lay(2)]
    have so: "same_out (cpos c) (cpos d + 32 + csize d) (mem s) (mem t)"
      by (rule same_out_mono [OF t(5)]) (use cd in auto)
    have ch: "chain (mem t) (xs @ ?c # cs) 0" "laid lo (xs @ ?c # cs) hi"
      using sp [OF _ _ so] 3(4) t(4) hi by (simp_all add: c_addr_def)
    obtain u where u: "coalesce_loop (c_addr c) t = Some (Inr (), u)" "kwin F u" "u = t\<lparr>mem := mem u\<rparr>"
      "chain (mem u) (xs @ merge_free (?c # cs)) 0" "laid lo (xs @ merge_free (?c # cs)) hi"
      "\<forall>x. \<not> free_headers (?c # cs) (unat x) \<longrightarrow> mem u x = mem t x"
      using 3(1) [OF True t(3) ch] by (auto simp: c_addr_def)
    have "coalesce_loop (c_addr c) s = Some (Inr (), u)"
      using r bf True nz t(1) u(1) by (subst coalesce_loop.simps) simp
    moreover have "u = s\<lparr>mem := mem u\<rparr>" by (subst u(3), subst t(2)) simp
    moreover have "mem u x = mem s x" if "\<not> free_headers (c # d # cs) (unat x)" for x
      using that True u(6) t(5) by (auto simp: free_headers_def same_out_def)
    ultimately show ?thesis using u(2,4,5) True by auto
  next
    case False
    obtain t where t: "coalesce_loop (c_addr d) s = Some (Inr (), t)" "kwin F t" "t = s\<lparr>mem := mem t\<rparr>"
      "chain (mem t) ((xs @ [c]) @ merge_free (d # cs)) 0" "laid lo ((xs @ [c]) @ merge_free (d # cs)) hi"
      "\<forall>x. \<not> free_headers (d # cs) (unat x) \<longrightarrow> mem t x = mem s x"
      using 3(2) [OF False 3(3), of "xs @ [c]"] 3(4,5) by auto
    have "coalesce_loop (c_addr c) s = Some (Inr (), t)"
      using r bf False nz t(1) by (subst coalesce_loop.simps) auto
    moreover have "merge_free (c # d # cs) = c # merge_free (d # cs)" using False by auto
    ultimately show ?thesis
      using t by (intro exI [of _ t]) (auto simp: free_headers_def)
  qed
qed

end
