(* ===== verification/KHeap_Alloc.thy ===== *)
theory KHeap_Alloc
  imports KHeap
begin

text \<open>
  The contract of the heap: \<open>kalloc\<close> and \<open>kfree\<close> refine first fit and merging on the list of chunks,
  they end, keep the invariant and the contents of the blocks in use.
\<close>

section \<open>Sizes\<close>

lemma unat_round16:
  "unat (round16 n) = (if unat n \<le> 2 ^ 64 - 16 then (unat n + 15) div 16 * 16 else 0)"
proof -
  have m: "(15 :: u64) = mask 4" by (simp add: mask_eq_exp_minus_1)
  have "x AND NOT 15 = push_bit 4 (drop_bit 4 x)" for x :: u64 unfolding m
    by (rule bit_word_eqI)
      (auto simp: bit_and_iff bit_not_iff bit_mask_iff bit_push_bit_iff bit_drop_bit_eq not_less)
  then have e: "round16 n = push_bit 4 (drop_bit 4 (n + 15))" by (simp only: round16_def)
  have "unat (push_bit 4 (drop_bit 4 x)) = unat x div 16 * 16" for x :: u64
  proof -
    have d: "unat (drop_bit 4 x) = unat x div 16" by (simp add: drop_bit_eq_div unat_div_distrib)
    have "push_bit 4 (drop_bit 4 x) = drop_bit 4 x * 16" by (simp add: push_bit_eq_mult)
    moreover have "unat (drop_bit 4 x * 16) = unat (drop_bit 4 x) * 16"
      using u64_bound [of x] d by (subst unat_mult_lem [THEN iffD1]) auto
    ultimately show ?thesis using d by simp
  qed
  moreover have "unat (n + 15) = (if unat n \<le> 2 ^ 64 - 16 then unat n + 15 else unat n + 15 - 2 ^ 64)"
    using u64_bound [of n] by (auto simp: unat_plus_if_size word_size)
  ultimately show ?thesis using u64_bound [of n] by (auto simp: e)
qed

lemma round16_dvd: "16 dvd unat (round16 n)"
  by (simp add: unat_round16)

lemma round16_ge: "unat n \<le> 2 ^ 64 - 16 \<Longrightarrow> unat n \<le> unat (round16 n)"
  by (simp add: unat_round16)

section \<open>Allocation\<close>

text \<open>Chunks do not overlap, so that a change within one chunk keeps the contents of the others.\<close>

definition contents :: "pmem \<Rightarrow> chunk \<Rightarrow> u8 list" where
  "contents m c = pread m (of_nat (cpos c + 32)) (csize c)"

lemma same_out_pread:
  assumes "same_out lo hi m m'" "i + n \<le> lo \<or> hi \<le> i" "i + n \<le> 2 ^ 64"
  shows "pread m' (of_nat i) n = pread m (of_nat i) n"
proof (rule pread_cong)
  fix k assume "k < n"
  then show "m' (of_nat i + of_nat k) = m (of_nat i + of_nat k)"
    using same_outD [OF assms(1), of "i + k"] assms(2,3) by auto
qed

lemma laid_disjoint:
  assumes "laid lo (xs @ c # ys) hi" "d \<in> set xs \<union> set ys"
  shows "cpos d + 32 + csize d \<le> cpos c \<or> cpos c + 32 + csize c \<le> cpos d"
  using laid_bounds [OF laid_splice1(1) [OF assms(1)], of d] laid_bounds [OF laid_splice1(3) [OF assms(1)], of d]
    assms(2) by auto

lemma contents_kept:
  assumes "laid lo (xs @ c # ys) hi" "d \<in> set xs \<union> set ys" "hi \<le> 2 ^ 64"
    and "same_out (cpos c) (cpos c + 32 + csize c) m m'"
  shows "contents m' d = contents m d"
  using laid_disjoint [OF assms(1,2)] laid_bounds [OF assms(1), of d] assms(2,3)
  unfolding contents_def by (intro same_out_pread [OF assms(4)]) auto

lemma kalloc_run:
  fixes n :: u64
  assumes ok: "heap_ok F s cs"
  defines "r \<equiv> unat (round16 n)"
  shows "if hi_avail (heap s) < round16 n \<or> take_first r cs = None then kalloc n s = Some (Inr 0, s)
     else \<exists>c ds t. take_first r cs = Some (c, ds) \<and> kalloc n s = Some (Inr (c_ptr c), t)
       \<and> heap_ok F t ds \<and> t = s\<lparr>mem := mem t\<rparr>
       \<and> same_out (cpos c) (cpos c + 32 + csize c) (mem s) (mem t)"
proof (cases "hi_avail (heap s) < round16 n")
  case True
  then show ?thesis by (simp add: kalloc_def monad Let_def)
next
  case False
  note d = heap_okD [OF ok]
  have sz: "round16 n = of_nat r" by (simp add: r_def)
  have find: "find_chunk (round16 n) (hi_start (heap s)) s
      = Some (Inr (case find (fits r) cs of None \<Rightarrow> 0 | Some c \<Rightarrow> c_addr c), s)"
    unfolding sz d(3) using u64_bound [of "round16 n"]
    by (intro find_chunk_run [OF d(1,2,4,5)]) (auto simp: r_def)
  show ?thesis
  proof (cases "take_first r cs")
    case None
    then show ?thesis using False find take_first_None [of r cs] by (simp add: kalloc_def monad Let_def)
  next
    case (Some x)
    then obtain c ds where x: "take_first r cs = Some (c, ds)" by (cases x) auto
    from take_first_split [OF this] have f: "find (fits r) cs = Some c" "c \<in> set cs" by auto
    have "c_addr c \<noteq> 0" using laid_bounds [OF d(5) f(2)] d(6) by (intro c_addr_nonzero) auto
    moreover obtain t where "take_chunk (c_addr c) (of_nat r) s = (Inr (c_ptr c), t)" "heap_ok F t ds"
        "t = s\<lparr>mem := mem t\<rparr>" "same_out (cpos c) (cpos c + 32 + csize c) (mem s) (mem t)"
      using heap_take [OF ok x] round16_dvd unfolding r_def by blast
    ultimately show ?thesis
      using False find f(1) x sz by (auto simp: kalloc_def monad Let_def)
  qed
qed

section \<open>Release\<close>

definition release :: "nat \<Rightarrow> chunk list \<Rightarrow> chunk list" where
  "release p cs = map (\<lambda>c. if cpos c = p then c\<lparr>cused := False\<rparr> else c) cs"

lemma laid_cpos_neq: "laid lo (xs @ c # ys) hi \<Longrightarrow> d \<in> set xs \<union> set ys \<Longrightarrow> cpos d \<noteq> cpos c"
  using laid_disjoint by fastforce

lemma release_split:
  assumes "laid lo (xs @ c # ys) hi"
  shows "release (cpos c) (xs @ c # ys) = xs @ c\<lparr>cused := False\<rparr> # ys"
proof -
  have "map (\<lambda>d. if cpos d = cpos c then d\<lparr>cused := False\<rparr> else d) xs = xs"
    "map (\<lambda>d. if cpos d = cpos c then d\<lparr>cused := False\<rparr> else d) ys = ys"
    using laid_cpos_neq [OF assms] by (auto intro!: map_idI)
  then show ?thesis by (simp add: release_def)
qed

lemma heap_addresses:
  assumes "heap_ok F s cs"
  shows "heap_start s = KERNEL_BASE + of_nat (heap_lo s)" "heap_end s = KERNEL_BASE + of_nat (heap_hi s)"
  by (simp_all add: heap_lo_def heap_hi_def)

lemma c_ptr_nonzero:
  assumes "heap_ok F s cs" "c \<in> set cs"
  shows "c_ptr c \<noteq> 0" "unat (c_ptr c) = 0xFFFFFFFF80000000 + (cpos c + 32)"
proof -
  note d = heap_okD [OF assms(1)]
  have p: "c_ptr c = KERNEL_BASE + of_nat (cpos c + 32)" by (simp add: c_ptr_def c_addr_def kconst)
  show "unat (c_ptr c) = 0xFFFFFFFF80000000 + (cpos c + 32)"
    unfolding p by (rule unat_kernel_addr) (use laid_bounds [OF d(5) assms(2)] d(6) in simp)
  then show "c_ptr c \<noteq> 0" by auto
qed

lemma ptr_inside:
  assumes ok: "heap_ok F s cs" and c: "c \<in> set cs" "cpos c + 32 < heap_hi s"
  shows "c_ptr c \<noteq> 0" "\<not> c_ptr c < heap_start s" "\<not> heap_end s \<le> c_ptr c" "c_ptr c - CHUNK = c_addr c"
proof -
  note d = heap_okD [OF ok]
  have b: "heap_lo s \<le> cpos c" "cpos c + 32 < heap_hi s" "heap_hi s \<le> 0x1FF000"
    using laid_bounds [OF d(5) c(1)] c(2) d(6) by auto
  note u = c_ptr_nonzero(2) [OF ok c(1)]
  show "c_ptr c \<noteq> 0" by (rule c_ptr_nonzero(1) [OF ok c(1)])
  have "unat (heap_start s) = 0xFFFFFFFF80000000 + heap_lo s" "unat (heap_end s) = 0xFFFFFFFF80000000 + heap_hi s"
    unfolding heap_addresses [OF ok] by (rule unat_kernel_addr; use b in simp)+
  with u b show "\<not> c_ptr c < heap_start s" "\<not> heap_end s \<le> c_ptr c"
    by (auto simp: word_less_nat_alt word_le_nat_alt)
  show "c_ptr c - CHUNK = c_addr c" by (simp add: c_ptr_def)
qed

lemma kfree_run:
  assumes ok: "heap_ok F s cs" and c: "c \<in> set cs" "cused c" "cpos c + 32 < heap_hi s"
  shows "\<exists>t. kfree (c_ptr c) s = Some (Inr (), t) \<and> heap_ok F t (merge_free (release (cpos c) cs))
     \<and> t = s\<lparr>mem := mem t\<rparr> \<and> (\<forall>x. \<not> free_headers (release (cpos c) cs) (unat x) \<longrightarrow> mem t x = mem s x)"
proof -
  note d = heap_okD [OF ok] and pi = ptr_inside [OF ok c(1,3)]
  obtain xs ys where cs: "cs = xs @ c # ys" using c(1) split_list by metis
  let ?c = "c\<lparr>cused := False\<rparr>" and ?rs = "release (cpos c) cs"
  note l = laid_splice1 [OF d(5) [unfolded cs]]
  have rs: "?rs = xs @ ?c # ys" using release_split [OF d(5) [unfolded cs]] cs by simp
  have b: "heap_lo s \<le> cpos c" "cpos c + 32 + csize c \<le> heap_hi s"
    using laid_bounds [OF d(5) c(1)] by auto
  have b': "cpos c + 32 \<le> heap_hi s" using b by simp
  have h: "header (mem s) c (first_addr ys 0)" using d(4) by (simp add: cs chain_append)
  let ?u = "s\<lparr>mem := (mem s)(of_nat (cpos c + 8) := 0)\<rparr>"
  have so: "same_out (cpos c) (cpos c + 32 + csize c) (mem s) (mem ?u)"
    using b d(6) by (auto intro!: same_out_write(2) same_out_refl simp del: of_nat_add)
  have ch: "chain (mem ?u) [?c] (first_addr ys 0)"
    using h b d(6) by (auto simp: header_def nat_mem simp del: of_nat_add)
  have "laid (cpos c) [?c] (cpos c + 32 + csize c)" "heap_hi s \<le> 2 ^ 64"
    "first_addr [?c] (first_addr ys 0) = first_addr [c] (first_addr ys 0)"
    using d(6) by (simp_all add: c_addr_def)
  from chain_splice [of "mem s" xs "[c]" ys 0, OF _ l this(2) so ch this(1,3)] d(4) rs
  have sp: "chain (mem ?u) ?rs 0" "laid (heap_lo s) ?rs (heap_hi s)" by (simp_all add: cs)
  have k: "kwin F ?u" by (rule header_kwin(2) [OF d(1,2) b(1) b'])
  have fa: "first_addr ?rs 0 = hi_start (heap s)" unfolding rs d(3) unfolding cs by (simp add: first_addr_append c_addr_def)
  obtain t where t: "coalesce_loop (hi_start (heap s)) ?u = Some (Inr (), t)" "kwin F t" "t = ?u\<lparr>mem := mem t\<rparr>"
     "chain (mem t) (merge_free ?rs) 0" "laid (heap_lo s) (merge_free ?rs) (heap_hi s)"
     "\<forall>x. \<not> free_headers ?rs (unat x) \<longrightarrow> mem t x = mem ?u x"
    using coalesce_loop_run [OF d(2) k, of "[]" ?rs] sp fa by auto
  have si: "set_inuse (c_addr c) False s = (Inr (), ?u)"
    using header_access(5) [OF d(1,2) b(1) b', of False] by (simp add: c_addr_def)
  have kf: "kfree (c_ptr c) s = Some (Inr (), t)"
    using pi chunk_reads(2) [OF d(1,2) b h] si c(2) t(1)
    by (simp add: kfree_def monad Let_def coalesce_chunk_def)
  have ts: "t = s\<lparr>mem := mem t\<rparr>" by (subst t(3)) simp
  have "hi_start (heap t) = hi_start (heap s)" "heap_lo t = heap_lo s" "heap_hi t = heap_hi s"
    by (subst ts, simp add: heap_upd)+
  moreover have "\<forall>c\<in>set ?rs. chunk_ok c" using d(7) d(7) [OF c(1)] by (auto simp: release_def chunk_ok_def)
  from merge_free_ok [OF this] have "\<forall>c\<in>set (merge_free ?rs). chunk_ok c" .
  ultimately have "heap_ok F t (merge_free ?rs)"
    using t(2,4,5) d(2) fa by (simp only: heap_ok_def merge_free_first)
  moreover have "mem t x = mem s x" if f: "\<not> free_headers ?rs (unat x)" for x
  proof -
    have "x \<noteq> of_nat (cpos c + 8)"
    proof
      assume "x = of_nat (cpos c + 8)"
      then have "unat x = cpos c + 8" using b' d(6) by (simp del: of_nat_add)
      then show False using f by (simp add: free_headers_def rs)
    qed
    then show ?thesis using t(6) f by simp
  qed
  ultimately show ?thesis using kf ts by blast
qed

section \<open>The heap as a map of blocks\<close>

text \<open>The contract of a heap: the blocks in use are a map from pointers to contents, an allocation
  adds a new pointer and keeps the other blocks, a release removes one.\<close>

datatype ('n, 'a) heap_op = Alloc 'n | Free 'a

locale block_heap =
  fixes alloc :: "'n \<Rightarrow> 's \<Rightarrow> 'a option \<times> 's" and free :: "'a \<Rightarrow> 's \<Rightarrow> 's"
    and blocks :: "'s \<Rightarrow> 'a \<rightharpoonup> 'c" and valid :: "'n \<Rightarrow> bool" and invar :: "'s \<Rightarrow> bool"
  assumes block_alloc: "invar s \<Longrightarrow> valid n \<Longrightarrow> alloc n s = (Some a, t) \<Longrightarrow>
      invar t \<and> a \<notin> dom (blocks s) \<and> (\<exists>v. blocks t = (blocks s)(a \<mapsto> v))"
    and block_full: "invar s \<Longrightarrow> valid n \<Longrightarrow> alloc n s = (None, t) \<Longrightarrow> t = s"
    and block_free: "invar s \<Longrightarrow> a \<in> dom (blocks s) \<Longrightarrow>
      invar (free a s) \<and> blocks (free a s) = (blocks s)(a := None)"
begin

text \<open>A sequence of requests, a release of a pointer that is not in use being left out.\<close>

definition do_op :: "('n, 'a) heap_op \<Rightarrow> 's \<Rightarrow> 's" where
  "do_op x s = (case x of Alloc n \<Rightarrow> if valid n then snd (alloc n s) else s
                        | Free a \<Rightarrow> if a \<in> dom (blocks s) then free a s else s)"

lemma do_op_step:
  assumes "invar s"
  shows "invar (do_op x s)" "a \<in> dom (blocks s) \<Longrightarrow> x \<noteq> Free a \<Longrightarrow> blocks (do_op x s) a = blocks s a"
proof -
  have "invar (do_op x s) \<and> (a \<in> dom (blocks s) \<longrightarrow> x \<noteq> Free a \<longrightarrow> blocks (do_op x s) a = blocks s a)"
  proof (cases x)
    case (Alloc n)
    obtain r t where r: "alloc n s = (r, t)" by fastforce
    show ?thesis
    proof (cases r)
      case None
      then show ?thesis using block_full [OF assms] r assms by (auto simp: do_op_def Alloc)
    next
      case (Some b)
      show ?thesis
      proof (cases "valid n")
        case True
        from block_alloc [OF assms True] r Some obtain v where
          "invar t" "b \<notin> dom (blocks s)" "blocks t = (blocks s)(b \<mapsto> v)" by auto
        then show ?thesis using True r by (auto simp: do_op_def Alloc)
      qed (simp add: do_op_def Alloc assms)
    qed
  next
    case (Free b)
    then show ?thesis using block_free [OF assms] assms by (auto simp: do_op_def)
  qed
  then show "invar (do_op x s)" "a \<in> dom (blocks s) \<Longrightarrow> x \<noteq> Free a \<Longrightarrow> blocks (do_op x s) a = blocks s a"
    by auto
qed

lemma do_ops_keep:
  "invar s \<Longrightarrow> a \<in> dom (blocks s) \<Longrightarrow> Free a \<notin> set xs \<Longrightarrow>
     invar (fold do_op xs s) \<and> blocks (fold do_op xs s) a = blocks s a"
proof (induction xs arbitrary: s)
  case (Cons x xs)
  have "x \<noteq> Free a" using Cons(4) by auto
  then have s: "invar (do_op x s)" "blocks (do_op x s) a = blocks s a"
    using do_op_step [OF Cons(2)] Cons(3) by blast+
  then have "a \<in> dom (blocks (do_op x s))" using Cons(3) by (auto simp: dom_def)
  then show ?case using Cons(1) [OF s(1)] Cons(4) s(2) by simp
qed simp

end

text \<open>The list of chunks is determined by the state.\<close>

lemma chain_unique:
  assumes "chain m cs 0" "chain m ds 0" "first_addr cs 0 = first_addr ds 0" "laid lo cs hi" "laid lo' ds hi"
    and "hi \<le> 0x1FF000"
  shows "cs = ds"
  using assms(1-5)
proof (induction cs arbitrary: ds lo lo')
  case Nil
  then show ?case
    using c_addr_nonzero laid_bounds [OF Nil(5)] assms(6) by (cases ds) fastforce+
next
  case (Cons c cs)
  have bc: "cpos c + 32 + csize c \<le> hi" using laid_bounds [OF Cons(5), of c] by simp
  obtain d es where ds: "ds = d # es"
    using Cons(4) c_addr_nonzero [of c] bc assms(6) by (cases ds) auto
  have bd: "cpos d + 32 + csize d \<le> hi" using laid_bounds [OF Cons(6), of d] ds by simp
  have "of_nat (cpos c) = (of_nat (cpos d) :: u64)" using Cons(4) ds by (simp add: c_addr_def)
  then have p: "cpos c = cpos d" using bc bd assms(6) by (simp add: of_nat_eq64)
  then have "of_nat (csize c) = (of_nat (csize d) :: u64)" "cused c = cused d" "first_addr cs 0 = first_addr es 0"
    using Cons(2,3) ds by (auto simp: header_def)
  moreover have z: "csize c = csize d"
    using calculation(1) bc bd assms(6) by (simp add: of_nat_eq64)
  ultimately have "c = d" using p by (intro chunk.equality) auto
  moreover have "cs = es"
  proof (rule Cons(1))
    show "chain m cs 0" "chain m es 0" "laid (cpos c + 32 + csize c) cs hi" "laid (cpos d + 32 + csize d) es hi"
      using Cons(2,3,5,6) ds by simp_all
  qed (rule \<open>first_addr cs 0 = first_addr es 0\<close>)
  ultimately show ?case using ds by simp
qed

definition heap_list :: "machine \<Rightarrow> chunk list" where
  "heap_list s = (THE cs. \<exists>F. heap_ok F s cs)"

lemma heap_list_eq: "heap_ok F s cs \<Longrightarrow> heap_list s = cs"
  unfolding heap_list_def
proof (rule the_equality)
  fix ds assume h: "heap_ok F s cs" "\<exists>F. heap_ok F s ds"
  then obtain G where "heap_ok G s ds" by blast
  note d = heap_okD [OF h(1)] and e = heap_okD [OF this]
  have "first_addr ds 0 = first_addr cs 0" using d(3) e(3) by simp
  from chain_unique [OF e(4) d(4) this e(5) d(5,6)] show "ds = cs" .
qed blast

definition heap_blocks :: "machine \<Rightarrow> u64 \<rightharpoonup> u8 list" where
  "heap_blocks s = map_of (map (\<lambda>c. (c_ptr c, contents (mem s) c)) (filter cused (heap_list s)))"

definition heap_state :: "machine \<Rightarrow> bool" where
  "heap_state s \<longleftrightarrow> (\<exists>F cs. heap_ok F s cs \<and> (\<forall>c\<in>set cs. cused c \<longrightarrow> 0 < csize c))"

definition try_kalloc :: "u64 \<Rightarrow> machine \<Rightarrow> u64 option \<times> machine" where
  "try_kalloc n s = (case kalloc n s of Some (Inr p, t) \<Rightarrow> (if p = 0 then None else Some p, t) | _ \<Rightarrow> (None, s))"

definition do_kfree :: "u64 \<Rightarrow> machine \<Rightarrow> machine" where
  "do_kfree p s = (case kfree p s of Some (Inr _, t) \<Rightarrow> t | _ \<Rightarrow> s)"

lemma laid_distinct: "laid lo cs hi \<Longrightarrow> distinct (map cpos cs)"
proof (induction cs arbitrary: lo)
  case (Cons c cs)
  then show ?case using laid_bounds [of "cpos c + 32 + csize c" cs hi] by fastforce
qed simp

lemma c_ptr_inj: "cpos c < 0x1FF000 \<Longrightarrow> cpos d < 0x1FF000 \<Longrightarrow> c_ptr c = c_ptr d \<longleftrightarrow> cpos c = cpos d"
  by (simp add: c_ptr_def c_addr_def of_nat_eq64)

lemma heap_blocks_iff:
  assumes ok: "heap_ok F s cs"
  shows "heap_blocks s p = Some v \<longleftrightarrow> (\<exists>c\<in>set cs. cused c \<and> p = c_ptr c \<and> v = contents (mem s) c)"
proof -
  note d = heap_okD [OF ok]
  have b: "cpos c < 0x1FF000" if "c \<in> set cs" for c using laid_bounds [OF d(5) that] d(6) by simp
  have "distinct (map cpos (filter cused cs))"
    using laid_distinct [OF d(5)] by (simp add: distinct_map inj_on_def)
  then have "distinct (map c_ptr (filter cused cs))"
    using c_ptr_inj b by (fastforce simp: distinct_map inj_on_def)
  then have "distinct (map fst (map (\<lambda>c. (c_ptr c, contents (mem s) c)) (filter cused cs)))"
    by (simp add: comp_def)
  from map_of_eq_Some_iff [OF this] show ?thesis
    by (auto simp: heap_blocks_def heap_list_eq [OF ok])
qed

lemma heap_blocks_dom: "heap_ok F s cs \<Longrightarrow> p \<in> dom (heap_blocks s) \<longleftrightarrow> (\<exists>c\<in>set cs. cused c \<and> p = c_ptr c)"
  using heap_blocks_iff [of F s cs p] by (auto simp: dom_def)

lemma map_eqI: "(\<And>x v. f x = Some v \<longleftrightarrow> g x = Some v) \<Longrightarrow> f = g"
  by (rule ext) (metis option.exhaust)

lemma cut_used: "d \<in> set (cut r (c\<lparr>cused := True\<rparr>)) \<and> cused d \<longleftrightarrow> d = hd (cut r (c\<lparr>cused := True\<rparr>))"
  "cpos (hd (cut r c)) = cpos c" "r \<le> csize c \<Longrightarrow> r \<le> csize (hd (cut r c))"
  by (auto simp: cut_def)

lemma take_first_used:
  assumes "take_first r cs = Some (c, ds)"
  shows "d \<in> set ds \<and> cused d \<longleftrightarrow> (d \<in> set cs \<and> cused d) \<or> d = hd (cut r (c\<lparr>cused := True\<rparr>))"
proof -
  obtain xs ys where cs: "cs = xs @ c # ys" and ds: "ds = xs @ cut r (c\<lparr>cused := True\<rparr>) @ ys"
    and "fits r c" using take_first_split [OF assms] by blast
  then have "d \<in> set cs \<and> cused d \<longleftrightarrow> d \<in> set xs \<union> set ys \<and> cused d" by (auto simp: fits_def)
  moreover have "d \<in> set ds \<and> cused d \<longleftrightarrow>
      (d \<in> set xs \<union> set ys \<and> cused d) \<or> (d \<in> set (cut r (c\<lparr>cused := True\<rparr>)) \<and> cused d)"
    by (auto simp: ds)
  ultimately show ?thesis using cut_used(1) [of d r c] by blast
qed

lemma kalloc_blocks:
  assumes ok: "heap_ok F s cs" and tk: "take_first r cs = Some (c, ds)" and ok': "heap_ok F t ds"
    and so: "same_out (cpos c) (cpos c + 32 + csize c) (mem s) (mem t)"
  shows "c_ptr c \<notin> dom (heap_blocks s)"
    "heap_blocks t = (heap_blocks s)(c_ptr c \<mapsto> contents (mem t) (hd (cut r (c\<lparr>cused := True\<rparr>))))"
proof -
  note d = heap_okD [OF ok]
  obtain xs ys where cs: "cs = xs @ c # ys" and ds: "ds = xs @ cut r (c\<lparr>cused := True\<rparr>) @ ys"
    and fit: "fits r c" using take_first_split [OF tk] by blast
  have l: "laid (heap_lo s) (xs @ c # ys) (heap_hi s)" using d(5) cs by simp
  have hi: "heap_hi s \<le> 2 ^ 64" using d(6) by simp
  have b: "cpos e < 0x1FF000" if "e \<in> set cs" for e using laid_bounds [OF d(5) that] d(6) by simp
  have ne: "c_ptr e \<noteq> c_ptr c" if "e \<in> set xs \<union> set ys" for e
    using c_ptr_inj [of e c] b laid_cpos_neq [OF l that] that cs by auto
  show "c_ptr c \<notin> dom (heap_blocks s)"
    using heap_blocks_dom [OF ok, of "c_ptr c"] ne fit by (fastforce simp: cs fits_def)
  let ?c = "hd (cut r (c\<lparr>cused := True\<rparr>))"
  have pc: "c_ptr ?c = c_ptr c" using cut_used(2) [of r "c\<lparr>cused := True\<rparr>"] by (simp add: c_ptr_def c_addr_def)
  have ct: "contents (mem t) e = contents (mem s) e" if "e \<in> set xs \<union> set ys" for e
    by (rule contents_kept [OF l that hi so])
  have used: "e \<in> set xs \<union> set ys" if "e \<in> set cs" "cused e" for e using that fit by (auto simp: cs fits_def)
  have "heap_blocks t p = Some v \<longleftrightarrow> ((heap_blocks s)(c_ptr c \<mapsto> contents (mem t) ?c)) p = Some v" for p v
  proof -
    have "heap_blocks t p = Some v \<longleftrightarrow>
        (\<exists>e. ((e \<in> set cs \<and> cused e) \<or> e = ?c) \<and> p = c_ptr e \<and> v = contents (mem t) e)"
      unfolding heap_blocks_iff [OF ok'] using take_first_used [OF tk] by blast
    also have "\<dots> \<longleftrightarrow> (\<exists>e\<in>set cs. cused e \<and> p = c_ptr e \<and> v = contents (mem t) e)
        \<or> (p = c_ptr c \<and> v = contents (mem t) ?c)"
      by (simp add: conj_disj_distribR ex_disj_distrib pc Bex_def conj_assoc)
    also have "(\<exists>e\<in>set cs. cused e \<and> p = c_ptr e \<and> v = contents (mem t) e) \<longleftrightarrow> heap_blocks s p = Some v"
      unfolding heap_blocks_iff [OF ok] by (rule bex_cong [OF refl]) (use ct used in auto)
    finally show ?thesis using \<open>c_ptr c \<notin> dom (heap_blocks s)\<close> by auto
  qed
  then show "heap_blocks t = (heap_blocks s)(c_ptr c \<mapsto> contents (mem t) ?c)" by (rule map_eqI)
qed

lemma used_contents_kept:
  assumes ok: "heap_ok F s cs" and c: "c \<in> set cs" and e: "e \<in> set cs" "cused e" "cpos e \<noteq> cpos c"
    and m: "\<forall>x. \<not> free_headers (release (cpos c) cs) (unat x) \<longrightarrow> m x = mem s x"
  shows "contents m e = contents (mem s) e"
  unfolding contents_def
proof (rule pread_cong)
  note d = heap_okD [OF ok]
  fix k assume k: "k < csize e"
  obtain xs ys where cs: "cs = xs @ e # ys" using e(1) split_list by metis
  have b: "cpos e + 32 + csize e \<le> heap_hi s" "heap_hi s \<le> 0x1FF000"
    using laid_bounds [OF d(5) e(1)] d(6) by auto
  have u: "unat (of_nat (cpos e + 32) + of_nat k :: u64) = cpos e + 32 + k"
    using b k by (subst of_nat_add [symmetric], subst unat_of_nat64) auto
  have "\<not> free_headers (release (cpos c) cs) (cpos e + 32 + k)"
  proof
    assume "free_headers (release (cpos c) cs) (cpos e + 32 + k)"
    then obtain f where f: "f \<in> set cs" "cpos f \<le> cpos e + 32 + k" "cpos e + 32 + k < cpos f + 32"
        "\<not> cused f \<or> cpos f = cpos c"
      by (auto simp: free_headers_def release_def split: if_splits)
    then have "f \<noteq> e" using e by auto
    then have "f \<in> set xs \<union> set ys" using f(1) cs by auto
    from laid_disjoint [OF d(5) [unfolded cs] this] f k show False by auto
  qed
  then show "m (of_nat (cpos e + 32) + of_nat k) = mem s (of_nat (cpos e + 32) + of_nat k)"
    using m u by metis
qed

lemma release_used:
  assumes "laid lo cs hi" "c \<in> set cs"
  shows "e \<in> set (release (cpos c) cs) \<and> cused e \<longleftrightarrow> e \<in> set cs \<and> cused e \<and> cpos e \<noteq> cpos c"
  by (auto simp: release_def split: if_splits)

lemma kfree_blocks:
  assumes ok: "heap_ok F s cs" and c: "c \<in> set cs" and ok': "heap_ok F t (merge_free (release (cpos c) cs))"
    and m: "\<forall>x. \<not> free_headers (release (cpos c) cs) (unat x) \<longrightarrow> mem t x = mem s x"
  shows "heap_blocks t = (heap_blocks s)(c_ptr c := None)"
proof (rule map_eqI)
  note d = heap_okD [OF ok]
  fix p v
  have used: "e \<in> set (merge_free (release (cpos c) cs)) \<and> cused e
      \<longleftrightarrow> e \<in> set cs \<and> cused e \<and> cpos e \<noteq> cpos c" for e
  proof -
    have "e \<in> set (filter cused (merge_free (release (cpos c) cs)))
        \<longleftrightarrow> e \<in> set (filter cused (release (cpos c) cs))" by (simp only: merge_free_used)
    then show ?thesis using release_used [OF d(5) c, of e] by auto
  qed
  have b: "cpos e < 0x1FF000" if "e \<in> set cs" for e using laid_bounds [OF d(5) that] d(6) by simp
  have pe: "c_ptr e = c_ptr c \<longleftrightarrow> cpos e = cpos c" if "e \<in> set cs" for e using c_ptr_inj b c that by blast
  have "heap_blocks t p = Some v \<longleftrightarrow>
      (\<exists>e\<in>set cs. cused e \<and> cpos e \<noteq> cpos c \<and> p = c_ptr e \<and> v = contents (mem t) e)"
    unfolding heap_blocks_iff [OF ok'] using used by blast
  also have "\<dots> \<longleftrightarrow> (\<exists>e\<in>set cs. cused e \<and> cpos e \<noteq> cpos c \<and> p = c_ptr e \<and> v = contents (mem s) e)"
    by (rule bex_cong [OF refl]) (use used_contents_kept [OF ok c _ _ _ m] in auto)
  also have "\<dots> \<longleftrightarrow> p \<noteq> c_ptr c \<and> heap_blocks s p = Some v"
    unfolding heap_blocks_iff [OF ok] by (metis pe)
  finally show "heap_blocks t p = Some v \<longleftrightarrow> ((heap_blocks s)(c_ptr c := None)) p = Some v" by simp
qed

text \<open>The requests whose rounded size does not wrap around to zero.\<close>

definition request_ok :: "u64 \<Rightarrow> bool" where
  "request_ok n \<longleftrightarrow> 0 < unat n \<and> unat n \<le> 2 ^ 64 - 16"

lemma request_ok_pos: "request_ok n \<Longrightarrow> 0 < unat (round16 n)"
  using round16_ge [of n] by (simp add: request_ok_def)

interpretation kheap: block_heap try_kalloc do_kfree heap_blocks request_ok heap_state
proof
  fix s n a t assume st: "heap_state s" and n: "request_ok n" and al: "try_kalloc n s = (Some a, t)"
  obtain F cs where ok: "heap_ok F s cs" and pos: "\<forall>c\<in>set cs. cused c \<longrightarrow> 0 < csize c"
    using st by (auto simp: heap_state_def)
  let ?r = "unat (round16 n)"
  have "\<not> (hi_avail (heap s) < round16 n \<or> take_first ?r cs = None)"
    using kalloc_run [OF ok, of n] al by (auto simp: try_kalloc_def split: if_splits)
  then obtain c ds u where c: "take_first ?r cs = Some (c, ds)" "kalloc n s = Some (Inr (c_ptr c), u)"
      "heap_ok F u ds" "same_out (cpos c) (cpos c + 32 + csize c) (mem s) (mem u)"
    using kalloc_run [OF ok, of n] by (auto split: if_splits)
  have t: "t = u" "a = c_ptr c" using al c(2) by (auto simp: try_kalloc_def split: if_splits)
  have "fits ?r c" using take_first_split [OF c(1)] by blast
  then have "0 < csize (hd (cut ?r (c\<lparr>cused := True\<rparr>)))"
    using cut_used(3) [of ?r "c\<lparr>cused := True\<rparr>"] request_ok_pos [OF n] by (simp add: fits_def)
  then have "\<forall>d\<in>set ds. cused d \<longrightarrow> 0 < csize d"
    using take_first_used [OF c(1)] pos by blast
  then have "heap_state t" using c(3) t by (auto simp: heap_state_def)
  then show "heap_state t \<and> a \<notin> dom (heap_blocks s) \<and> (\<exists>v. heap_blocks t = (heap_blocks s)(a \<mapsto> v))"
    using kalloc_blocks [OF ok c(1,3,4)] t by blast
next
  fix s n t assume st: "heap_state s" and al: "try_kalloc n s = (None, t)"
  then obtain F cs where ok: "heap_ok F s cs" by (auto simp: heap_state_def)
  show "t = s"
  proof (cases "hi_avail (heap s) < round16 n \<or> take_first (unat (round16 n)) cs = None")
    case True
    then show ?thesis using kalloc_run [OF ok, of n] al by (simp add: try_kalloc_def)
  next
    case False
    then obtain c ds u where c: "take_first (unat (round16 n)) cs = Some (c, ds)" "kalloc n s = Some (Inr (c_ptr c), u)"
      using kalloc_run [OF ok, of n] by (auto split: if_splits)
    have "c \<in> set cs" using take_first_split [OF c(1)] by auto
    then have "c_ptr c \<noteq> 0" using c_ptr_nonzero [OF ok] by blast
    then show ?thesis using al c(2) by (simp add: try_kalloc_def)
  qed
next
  fix s a assume st: "heap_state s" and a: "a \<in> dom (heap_blocks s)"
  obtain F cs where ok: "heap_ok F s cs" and pos: "\<forall>c\<in>set cs. cused c \<longrightarrow> 0 < csize c"
    using st by (auto simp: heap_state_def)
  obtain c where c: "c \<in> set cs" "cused c" "a = c_ptr c" using heap_blocks_dom [OF ok] a by blast
  have "cpos c + 32 < heap_hi s" using laid_bounds [OF heap_okD(5) [OF ok] c(1)] pos c by force
  from kfree_run [OF ok c(1,2) this] obtain t where t: "kfree a s = Some (Inr (), t)"
      "heap_ok F t (merge_free (release (cpos c) cs))"
      "\<forall>x. \<not> free_headers (release (cpos c) cs) (unat x) \<longrightarrow> mem t x = mem s x"
    using c(3) by blast
  have "\<forall>d\<in>set (merge_free (release (cpos c) cs)). cused d \<longrightarrow> 0 < csize d"
  proof (intro ballI impI)
    fix d assume "d \<in> set (merge_free (release (cpos c) cs))" "cused d"
    then have "d \<in> set (filter cused (release (cpos c) cs))" by (subst merge_free_used [symmetric]) simp
    then show "0 < csize d" using pos by (auto simp: release_def split: if_splits)
  qed
  then have "heap_state t" using t(2) by (auto simp: heap_state_def)
  then show "heap_state (do_kfree a s) \<and> heap_blocks (do_kfree a s) = (heap_blocks s)(a := None)"
    using t(1) kfree_blocks [OF ok c(1) t(2,3)] c(3) by (simp add: do_kfree_def)
qed

section \<open>The start\<close>

lemma heap_init_run:
  assumes k: "kwin F s" and R: "region F (heap_lo s) (heap_hi s)" and sz: "heap_lo s + 32 \<le> heap_hi s"
    and al: "16 dvd heap_lo s" "16 dvd heap_hi s"
  defines "c \<equiv> \<lparr>cpos = heap_lo s, csize = heap_hi s - heap_lo s - 32, cused = False\<rparr>"
  shows "\<exists>t. heap_init s = (Inr (), t) \<and> heap_ok F t [c]
     \<and> hi_avail (heap t) = of_nat (heap_hi s - heap_lo s) \<and> t = s\<lparr>mem := mem t, heap := heap t\<rparr>
     \<and> (\<forall>x. unat x < heap_lo s \<or> heap_hi s \<le> unat x \<longrightarrow> mem t x = mem s x)"
proof -
  let ?p = "heap_lo s" and ?q = "heap_hi s"
  have hi: "?q \<le> 0x1FF000" using R by (simp add: region_def)
  have st: "heap_start s = KERNEL_BASE + of_nat ?p" "heap_end s = KERNEL_BASE + of_nat ?q"
    by (simp_all add: heap_lo_def heap_hi_def)
  have av: "heap_end s - heap_start s = of_nat (?q - ?p)" using st sz by (simp add: of_nat_diff)
  define s0 where "s0 = s\<lparr>heap := \<lparr>hi_start = heap_start s, hi_avail = of_nat (?q - ?p)\<rparr>\<rparr>"
  have k0: "kwin F s0" using k by (simp add: s0_def)
  define m1 where "m1 = pwrite64 (mem s) (of_nat ?p) (of_nat (?q - ?p - 32))"
  define m2 where "m2 = m1(of_nat (?p + 8) := 0)"
  define m3 where "m3 = pwrite64 m2 (of_nat (?p + 16)) 0"
  have b: "?p \<le> ?p" "?p + 32 \<le> ?q" using sz by auto
  have k1: "kwin F (s0\<lparr>mem := m1\<rparr>)" using header_kwin(1) [OF k0 R b] by (simp add: m1_def s0_def)
  have k2: "kwin F (s0\<lparr>mem := m2\<rparr>)" using header_kwin(2) [OF k1 R b, of 0] by (simp add: m2_def)
  have k3: "kwin F (s0\<lparr>mem := m3\<rparr>)" using header_kwin(3) [OF k2 R b, of 0] by (simp add: m3_def)
  have lz: "of_nat (?q - ?p) - CHUNK = (of_nat (?q - ?p - 32) :: u64)" using sz by (simp add: kconst of_nat_diff)
  have m0: "mem s0 = mem s" by (simp add: s0_def)
  have "heap_init s = (Inr (), s0\<lparr>mem := m3\<rparr>)"
    using header_access(4) [OF k0 R b, of "of_nat (?q - ?p - 32)"] header_access(5) [OF k1 R b, of False]
      header_access(6) [OF k2 R b, of 0] m0
    by (simp add: heap_init_def monad av lz flip: s0_def)
       (simp add: s0_def st m1_def m2_def m3_def monad)
  moreover have "heap_ok F (s0\<lparr>mem := m3\<rparr>) [c]"
  proof -
    have "header m3 c 0"
      using sz hi by (auto simp: c_def header_def m1_def m2_def m3_def nat_mem simp del: of_nat_add)
    moreover have "heap_lo (s0\<lparr>mem := m3\<rparr>) = ?p" "heap_hi (s0\<lparr>mem := m3\<rparr>) = ?q"
      by (simp_all add: s0_def heap_lo_def heap_hi_def)
    moreover have "chunk_ok c" using al by (simp add: c_def chunk_ok_def)
    ultimately show ?thesis using k3 R sz st by (simp add: heap_ok_def c_addr_def) (simp add: s0_def c_def)
  qed
  moreover have "same_out ?p ?q (mem s) m3"
    unfolding m1_def m2_def m3_def by (intro same_out_write same_out_refl) (use sz hi in auto)
  ultimately show ?thesis
    by (intro exI [of _ "s0\<lparr>mem := m3\<rparr>"]) (simp add: s0_def same_out_def)
qed

text \<open>The boot state with a heap of three pages.\<close>

definition heap_boot :: machine where
  "heap_boot = boot_machine\<lparr>heap_start := 0xFFFFFFFF80100000, heap_end := 0xFFFFFFFF80103000\<rparr>"

lemma heap_boot_region:
  "kwin boot_frames heap_boot" "heap_lo heap_boot = 0x100000" "heap_hi heap_boot = 0x103000"
  "region boot_frames 0x100000 0x103000"
  using boot_kwin boot_off_tables [of "0x100000" "0x3000"]
  by (simp_all add: heap_boot_def heap_lo_def heap_hi_def region_def kconst)

definition boot_chunk :: chunk where
  "boot_chunk = \<lparr>cpos = 0x100000, csize = 0x2FE0, cused = False\<rparr>"

lemma heap_boot_ok:
  "\<exists>t. heap_init heap_boot = (Inr (), t) \<and> heap_ok boot_frames t [boot_chunk] \<and> hi_avail (heap t) = 0x3000"
  using heap_init_run [of boot_frames heap_boot] heap_boot_region by (auto simp: boot_chunk_def)

section \<open>Properties\<close>

text \<open>C14: \<open>kalloc\<close> returns, and refines first fit on the list of chunks. It answers with the null
  pointer and changes nothing if the rounded size exceeds the size of the heap or no free chunk is
  large enough. Otherwise the block lies in the heap, starts at a multiple of sixteen and has at
  least the requested size, and the blocks in use keep their contents.\<close>

theorem kalloc_first_fit:
  assumes "heap_ok F s cs" "unat n \<le> 2 ^ 64 - 16"
  shows "case (if hi_avail (heap s) < round16 n then None else take_first (unat (round16 n)) cs) of
       None \<Rightarrow> kalloc n s = Some (Inr 0, s)
     | Some (c, ds) \<Rightarrow>
         (\<exists>t. kalloc n s = Some (Inr (c_ptr c), t) \<and> heap_ok F t ds
            \<and> unat n \<le> csize c \<and> 16 dvd unat (c_ptr c) \<and> heap_lo s \<le> cpos c \<and> cpos c + 32 + csize c \<le> heap_hi s
            \<and> (\<forall>d\<in>set cs. cused d \<longrightarrow> contents (mem t) d = contents (mem s) d))"
proof -
  note d = heap_okD [OF assms(1)] and run = kalloc_run [OF assms(1), of n]
  show ?thesis
  proof (cases "hi_avail (heap s) < round16 n \<or> take_first (unat (round16 n)) cs = None")
    case True
    then show ?thesis using run by auto
  next
    case False
    then obtain c ds t where t: "take_first (unat (round16 n)) cs = Some (c, ds)"
        "kalloc n s = Some (Inr (c_ptr c), t)" "heap_ok F t ds"
        "same_out (cpos c) (cpos c + 32 + csize c) (mem s) (mem t)"
      using run by (auto split: if_splits)
    obtain xs ys where cs: "cs = xs @ c # ys" and fit: "fits (unat (round16 n)) c"
      using take_first_split [OF t(1)] by blast
    have c: "c \<in> set cs" by (simp add: cs)
    have "unat n \<le> csize c" using fit round16_ge [OF assms(2)] by (simp add: fits_def)
    moreover have "16 dvd unat (c_ptr c)"
      unfolding c_ptr_nonzero(2) [OF assms(1) c] using d(7) [OF c] by (simp add: chunk_ok_def dvd_add)
    moreover have "contents (mem t) e = contents (mem s) e" if "e \<in> set cs" "cused e" for e
      using contents_kept [OF d(5) [unfolded cs] _ _ t(4), of e] that fit d(6) cs by (auto simp: fits_def)
    ultimately show ?thesis using False t laid_bounds [OF d(5) c] by auto
  qed
qed

theorem kalloc_first_fit_witness:
  "\<exists>s t. heap_init heap_boot = (Inr (), s) \<and> kalloc 100 s = Some (Inr 0xFFFFFFFF80100020, t)"
proof -
  obtain s where s: "heap_init heap_boot = (Inr (), s)" "heap_ok boot_frames s [boot_chunk]" "hi_avail (heap s) = 0x3000"
    using heap_boot_ok by blast
  have r: "unat (round16 100) = 112" by (simp add: unat_round16)
  have le: "\<not> hi_avail (heap s) < round16 100" using s(3) r by (simp add: word_less_nat_alt)
  have "c_ptr boot_chunk = 0xFFFFFFFF80100020" by (simp add: c_ptr_def c_addr_def boot_chunk_def kconst)
  moreover have "fits 112 boot_chunk" by (simp add: fits_def boot_chunk_def)
  ultimately show ?thesis
    using kalloc_first_fit [OF s(2), of 100] s(1) le by (auto simp: r)
qed

text \<open>C15: \<open>kfree\<close> of a block in use returns; the block is released and neighbouring free chunks are
  merged, so that afterwards no two neighbours are both free; the other blocks keep their contents.\<close>

theorem kfree_merges:
  assumes "heap_ok F s cs" "c \<in> set cs" "cused c" "0 < csize c"
  shows "\<exists>t. kfree (c_ptr c) s = Some (Inr (), t) \<and> heap_ok F t (merge_free (release (cpos c) cs))
     \<and> (\<forall>xs a b ys. merge_free (release (cpos c) cs) = xs @ a # b # ys \<longrightarrow> cused a \<or> cused b)
     \<and> heap_blocks t = (heap_blocks s)(c_ptr c := None)"
proof -
  have "cpos c + 32 < heap_hi s" using laid_bounds [OF heap_okD(5) [OF assms(1)] assms(2)] assms(4) by simp
  from kfree_run [OF assms(1-3) this] obtain t where t: "kfree (c_ptr c) s = Some (Inr (), t)"
      "heap_ok F t (merge_free (release (cpos c) cs))"
      "\<forall>x. \<not> free_headers (release (cpos c) cs) (unat x) \<longrightarrow> mem t x = mem s x" by blast
  then show ?thesis using kfree_blocks [OF assms(1,2) t(2,3)] merge_free_no_free_pair by blast
qed

theorem kfree_merges_witness:
  "\<exists>s t u. heap_init heap_boot = (Inr (), s) \<and> kalloc 100 s = Some (Inr 0xFFFFFFFF80100020, t)
     \<and> kfree 0xFFFFFFFF80100020 t = Some (Inr (), u) \<and> heap_ok boot_frames u [boot_chunk]"
proof -
  obtain s where s: "heap_init heap_boot = (Inr (), s)" "heap_ok boot_frames s [boot_chunk]" "hi_avail (heap s) = 0x3000"
    using heap_boot_ok by blast
  have r: "unat (round16 100) = 112" by (simp add: unat_round16)
  have le: "\<not> hi_avail (heap s) < round16 100" using s(3) r by (simp add: word_less_nat_alt)
  let ?c = "\<lparr>cpos = 0x100000, csize = 112, cused = True\<rparr>" and ?d = "\<lparr>cpos = 0x100090, csize = 0x2F50, cused = False\<rparr>"
  have tf: "take_first 112 [boot_chunk] = Some (boot_chunk, [?c, ?d])"
    by (simp add: boot_chunk_def fits_def cut_def)
  have p: "c_ptr boot_chunk = 0xFFFFFFFF80100020" "c_ptr ?c = 0xFFFFFFFF80100020"
    by (simp_all add: c_ptr_def c_addr_def boot_chunk_def kconst)
  obtain t where t: "kalloc 100 s = Some (Inr 0xFFFFFFFF80100020, t)" "heap_ok boot_frames t [?c, ?d]"
    using kalloc_run [OF s(2), of 100] le tf p by (auto simp: r)
  have "merge_free (release (cpos ?c) [?c, ?d]) = [boot_chunk]" by (simp add: release_def boot_chunk_def)
  with kfree_merges [OF t(2), of ?c] p(2) s(1) t(1) show ?thesis by auto
qed

lemma kfree_ignored:
  assumes "heap_ok F s cs"
    and "ptr = 0 \<or> ptr < heap_start s \<or> heap_end s \<le> ptr \<or> (\<exists>c\<in>set cs. ptr = c_ptr c \<and> \<not> cused c)"
  shows "kfree ptr s = Some (Inr (), s)"
proof (cases "ptr = 0 \<or> ptr < heap_start s \<or> heap_end s \<le> ptr")
  case True
  then show ?thesis by (auto simp: kfree_def monad)
next
  case False
  then obtain c where c: "c \<in> set cs" "ptr = c_ptr c" "\<not> cused c" using assms(2) by blast
  note d = heap_okD [OF assms(1)]
  obtain xs ys where cs: "cs = xs @ c # ys" using c(1) split_list by metis
  have h: "header (mem s) c (first_addr ys 0)" using d(4) by (simp add: cs chain_append)
  have b: "heap_lo s \<le> cpos c" "cpos c + 32 + csize c \<le> heap_hi s" using laid_bounds [OF d(5) c(1)] by auto
  show ?thesis
    using False chunk_reads(2) [OF d(1,2) b h] c(2,3) by (simp add: kfree_def monad Let_def c_ptr_def)
qed

text \<open>C25: the loops over the list of chunks end: on a heap in order every request for memory returns, and
  so does \<open>kfree\<close> for the null pointer, for pointers outside the heap and for every block; it changes
  nothing unless the block is in use.\<close>

theorem heap_loops_end:
  assumes "heap_ok F s cs" "ptr = 0 \<or> ptr < heap_start s \<or> heap_end s \<le> ptr \<or> (\<exists>c\<in>set cs. ptr = c_ptr c)"
  shows "(\<exists>p t. kalloc n s = Some (Inr p, t)) \<and>
    (\<exists>t. kfree ptr s = Some (Inr (), t) \<and> ((\<exists>c\<in>set cs. ptr = c_ptr c \<and> cused c) \<or> t = s))"
proof
  show "\<exists>p t. kalloc n s = Some (Inr p, t)" using kalloc_run [OF assms(1), of n] by (auto split: if_splits)
  show "\<exists>t. kfree ptr s = Some (Inr (), t) \<and> ((\<exists>c\<in>set cs. ptr = c_ptr c \<and> cused c) \<or> t = s)"
  proof (cases "\<exists>c\<in>set cs. ptr = c_ptr c \<and> cused c \<and> cpos c + 32 < heap_hi s")
    case True
    then show ?thesis using kfree_run [OF assms(1)] by blast
  next
    case False
    have "heap_end s \<le> ptr" if c: "c \<in> set cs" "ptr = c_ptr c" "cused c" for c
    proof -
      have "cpos c + 32 = heap_hi s" using False c laid_bounds [OF heap_okD(5) [OF assms(1)] c(1)] by fastforce
      then have "c_ptr c = KERNEL_BASE + of_nat (heap_hi s)" by (simp add: c_ptr_def c_addr_def kconst flip: \<open>cpos c + 32 = heap_hi s\<close>)
      then show ?thesis using c(2) by (simp add: heap_hi_def)
    qed
    then show ?thesis using kfree_ignored [OF assms(1), of ptr] assms(2) by blast
  qed
qed

theorem heap_loops_end_witness:
  "\<exists>s p t. heap_init heap_boot = (Inr (), s) \<and> kalloc 100 s = Some (Inr p, t) \<and> kfree 0 s = Some (Inr (), s)"
proof -
  obtain s where s: "heap_init heap_boot = (Inr (), s)" "heap_ok boot_frames s [boot_chunk]" using heap_boot_ok by blast
  have "c_ptr boot_chunk \<noteq> 0" by (simp add: c_ptr_def c_addr_def boot_chunk_def kconst)
  then show ?thesis using heap_loops_end [OF s(2), of 0 100] s(1) by (auto simp: boot_chunk_def)
qed

definition heap_request :: "(u64, u64) heap_op \<Rightarrow> machine \<Rightarrow> machine" where
  "heap_request x s =
     (case x of Alloc n \<Rightarrow> if request_ok n then snd (try_kalloc n s) else s
              | Free p \<Rightarrow> if p \<in> dom (heap_blocks s) then do_kfree p s else s)"

lemma heap_request_op: "heap_request = kheap.do_op"
  by (intro ext) (simp add: heap_request_def kheap.do_op_def)

text \<open>C9: in any sequence of requests to the heap, a block that is not released keeps its contents: a
  new block never overlaps one in use.\<close>

theorem heap_blocks_kept:
  assumes "heap_state s" "p \<in> dom (heap_blocks s)" "Free p \<notin> set xs"
  shows "heap_state (fold heap_request xs s) \<and> heap_blocks (fold heap_request xs s) p = heap_blocks s p"
  unfolding heap_request_op by (rule kheap.do_ops_keep [OF assms])

theorem heap_blocks_kept_witness:
  "\<exists>s t. heap_init heap_boot = (Inr (), s) \<and> kalloc 100 s = Some (Inr 0xFFFFFFFF80100020, t)
     \<and> heap_blocks (fold heap_request [Alloc 64, Alloc 5000, Free 0xFFFFFFFF80100800] t) 0xFFFFFFFF80100020
       = heap_blocks t 0xFFFFFFFF80100020"
proof -
  obtain s where s: "heap_init heap_boot = (Inr (), s)" "heap_ok boot_frames s [boot_chunk]" "hi_avail (heap s) = 0x3000"
    using heap_boot_ok by blast
  have r: "unat (round16 100) = 112" by (simp add: unat_round16)
  have le: "\<not> hi_avail (heap s) < round16 100" using s(3) r by (simp add: word_less_nat_alt)
  have p: "c_ptr boot_chunk = 0xFFFFFFFF80100020" by (simp add: c_ptr_def c_addr_def boot_chunk_def kconst)
  have free: "\<not> cused boot_chunk" by (simp add: boot_chunk_def)
  have "\<forall>c\<in>set [boot_chunk]. cused c \<longrightarrow> 0 < csize c" using free by simp
  with s(2) have "heap_state s" unfolding heap_state_def by blast
  moreover have "request_ok 100" by (simp add: request_ok_def)
  moreover obtain t where t: "kalloc 100 s = Some (Inr 0xFFFFFFFF80100020, t)"
    using kalloc_run [OF s(2), of 100] le p by (auto simp: r boot_chunk_def fits_def)
  then have "try_kalloc 100 s = (Some 0xFFFFFFFF80100020, t)" by (simp add: try_kalloc_def)
  ultimately have "heap_state t" "0xFFFFFFFF80100020 \<in> dom (heap_blocks t)"
    using kheap.block_alloc [of s 100 "0xFFFFFFFF80100020" t] by auto
  from heap_blocks_kept [OF this, of "[Alloc 64, Alloc 5000, Free 0xFFFFFFFF80100800]"] s(1) t
  show ?thesis by auto
qed

text \<open>A request of almost the whole address space is not refused: its size rounds up to zero, and
  \<open>kalloc\<close> hands out a block of the first free chunk.\<close>

lemma kalloc_huge_request:
  assumes "heap_ok F s cs" "2 ^ 64 - 16 < unat n" "c \<in> set cs" "\<not> cused c"
  shows "round16 n = 0 \<and> (\<exists>p t. kalloc n s = Some (Inr p, t) \<and> p \<noteq> 0)"
proof -
  have r: "unat (round16 n) = 0" using assms(2) by (simp add: unat_round16)
  then have z: "round16 n = 0" by (simp add: unat_eq_0)
  have "find (fits 0) cs \<noteq> None" using assms(3,4) by (auto simp: find_None_iff fits_def)
  then have "take_first 0 cs \<noteq> None" by (simp add: take_first_None)
  then obtain d ds t where t: "take_first 0 cs = Some (d, ds)" "kalloc n s = Some (Inr (c_ptr d), t)"
    using kalloc_run [OF assms(1), of n] r z by (auto split: if_splits)
  have "d \<in> set cs" using take_first_split [OF t(1)] by auto
  then show ?thesis using z t(2) c_ptr_nonzero(1) [OF assms(1)] by blast
qed

lemma kalloc_huge_request_witness:
  "\<exists>s p t. heap_init heap_boot = (Inr (), s) \<and> kalloc 0xFFFFFFFFFFFFFFFF s = Some (Inr p, t) \<and> p \<noteq> 0"
proof -
  obtain s where s: "heap_init heap_boot = (Inr (), s)" "heap_ok boot_frames s [boot_chunk]"
    using heap_boot_ok by blast
  then show ?thesis
    using kalloc_huge_request [OF s(2), of "0xFFFFFFFFFFFFFFFF" boot_chunk] by (auto simp: boot_chunk_def)
qed

end
