(* ===== verification/KHeap_Realloc.thy ===== *)
theory KHeap_Realloc
  imports KHeap_Alloc
begin

text \<open>
  Resizing a block, \<open>krealloc\<close>: extension into a free neighbour, shrinking with the rest returned to
  the heap, and moving to a new block. In every case the bytes the old and the new block have in
  common are kept, and so are all other blocks.
\<close>

section \<open>Extension in place\<close>

text \<open>The chunk left over behind the extended one.\<close>

definition rest_chunk :: "chunk \<Rightarrow> nat \<Rightarrow> chunk" where
  "rest_chunk d x = \<lparr>cpos = cpos d + 32 + x, csize = csize d - x - 32, cused = False\<rparr>"

definition header_bytes :: "chunk \<Rightarrow> nat set" where
  "header_bytes c = {cpos c..<cpos c + 32}"

text \<open>Memories that differ in certain bytes only.\<close>

definition changed_in :: "nat set \<Rightarrow> pmem \<Rightarrow> pmem \<Rightarrow> bool" where
  "changed_in S m m' \<longleftrightarrow> (\<forall>y. unat y \<notin> S \<longrightarrow> m' y = m y)"

lemma changed_in_refl: "changed_in S m m"
  by (simp add: changed_in_def)

lemma changed_in_trans: "changed_in S m m' \<Longrightarrow> changed_in T m' m'' \<Longrightarrow> changed_in (S \<union> T) m m''"
  by (auto simp: changed_in_def)

lemma changed_in_mono: "changed_in S m m' \<Longrightarrow> S \<subseteq> T \<Longrightarrow> changed_in T m m'"
  by (auto simp: changed_in_def)

lemma changed_same_out: "changed_in {lo..<hi} m m' \<longleftrightarrow> same_out lo hi m m'"
  by (auto simp: changed_in_def same_out_def)

lemma changed_in_write:
  "changed_in S m m' \<Longrightarrow> {i..<i + 8} \<subseteq> S \<Longrightarrow> i + 8 \<le> 2 ^ 64 \<Longrightarrow> changed_in S m (pwrite64 m' (of_nat i) v)"
  "changed_in S m m' \<Longrightarrow> i \<in> S \<Longrightarrow> i < 2 ^ 64 \<Longrightarrow> changed_in S m (m'(of_nat i := b))"
proof -
  assume c: "changed_in S m m'" and s: "{i..<i + 8} \<subseteq> S" and i: "i + 8 \<le> 2 ^ 64"
  show "changed_in S m (pwrite64 m' (of_nat i) v)"
    unfolding changed_in_def
  proof (intro allI impI)
    fix y :: u64 assume y: "unat y \<notin> S"
    have "\<not> (i \<le> unat y \<and> unat y < i + 8)" using s y by fastforce
    then have "unat y < i \<or> i + 8 \<le> unat y" by linarith
    then show "pwrite64 m' (of_nat i) v y = m y"
      using same_out_write(1) [OF same_out_refl [of i "i + 8" m'], of i v] i c y
      by (auto simp: same_out_def changed_in_def)
  qed
next
  assume "changed_in S m m'" "i \<in> S" "i < 2 ^ 64"
  then show "changed_in S m (m'(of_nat i := b))" by (auto simp: changed_in_def)
qed

lemma changed_pread:
  assumes "changed_in S m m'" "{i..<i + n} \<inter> S = {}" "i + n \<le> 2 ^ 64"
  shows "pread m' (of_nat i) n = pread m (of_nat i) n"
proof (rule pread_cong)
  fix k assume k: "k < n"
  have u: "unat (of_nat i + of_nat k :: u64) = i + k"
    using k assms(3) by (subst of_nat_add [symmetric], subst unat_of_nat64) auto
  have "i + k \<in> {i..<i + n}" using k by simp
  then have "i + k \<notin> S" using assms(2) by blast
  then show "m' (of_nat i + of_nat k) = m (of_nat i + of_nat k)"
    using assms(1) by (simp add: changed_in_def u)
qed

lemma extend_run:
  assumes k: "kwin F s" and R: "region F lo hi" and c: "lo \<le> cpos c" "cpos c + 32 + csize c \<le> cpos d"
    and d: "cpos d + 32 + csize d \<le> hi" "\<not> cused d" and h: "header (mem s) c (c_addr d)" "header (mem s) d e"
    and x: "x + 32 \<le> csize d"
  shows "\<exists>t. extendChunkInPlace p (of_nat (csize c + x)) (c_addr c) s = (Inr (c_ptr c), t) \<and> t = s\<lparr>mem := mem t\<rparr>
     \<and> kwin F t \<and> header (mem t) (c\<lparr>csize := csize c + x\<rparr>) (c_addr (rest_chunk d x)) \<and> header (mem t) (rest_chunk d x) e
     \<and> changed_in (header_bytes c \<union> header_bytes (rest_chunk d x)) (mem s) (mem t)"
proof -
  let ?p = "cpos c" and ?q = "cpos d + 32 + x"
  have hi: "hi \<le> 0x1FF000" using R by (simp add: region_def)
  have p: "lo \<le> ?p" "?p + 32 \<le> hi" "?p + 32 + csize c \<le> hi" and q: "lo \<le> ?q" "?q + 32 \<le> hi" and dd: "lo \<le> cpos d"
    using c d x by auto
  define m1 where "m1 = pwrite64 (mem s) (of_nat ?q) (of_nat (csize d - x - 32))"
  define m2 where "m2 = m1(of_nat (?q + 8) := 0)"
  define m3 where "m3 = pwrite64 m2 (of_nat (?q + 16)) e"
  define m4 where "m4 = pwrite64 m3 (of_nat ?p) (of_nat (csize c + x))"
  define m5 where "m5 = pwrite64 m4 (of_nat (?p + 16)) (KERNEL_BASE + of_nat ?q)"
  have k1: "kwin F (s\<lparr>mem := m1\<rparr>)" using header_kwin(1) [OF k R q] by (simp add: m1_def)
  have k2: "kwin F (s\<lparr>mem := m2\<rparr>)" using header_kwin(2) [OF k1 R q, of 0] by (simp add: m2_def)
  have k3: "kwin F (s\<lparr>mem := m3\<rparr>)" using header_kwin(3) [OF k2 R q] by (simp add: m3_def)
  have k4: "kwin F (s\<lparr>mem := m4\<rparr>)" using header_kwin(1) [OF k3 R p(1,2)] by (simp add: m4_def)
  have k5: "kwin F (s\<lparr>mem := m5\<rparr>)" using header_kwin(3) [OF k4 R p(1,2)] by (simp add: m5_def)
  note r = chunk_reads [OF k R p(1,3) h(1)] chunk_reads [OF k R dd d(1) h(2)]
  have ex: "of_nat (csize c + x) - of_nat (csize c) = (of_nat x :: u64)" by simp
  have cmp: "(of_nat x + CHUNK \<le> (of_nat (csize d) :: u64))"
  proof -
    have "(of_nat x + CHUNK :: u64) = of_nat (x + 32)" by (simp add: kconst)
    then show ?thesis using x d(1) hi by (simp add: word_le_nat_alt del: of_nat_add)
  qed
  have na: "c_addr d + CHUNK + of_nat x = KERNEL_BASE + of_nat ?q" by (simp add: c_addr_def kconst)
  have lz: "of_nat (csize d) - of_nat x - CHUNK = (of_nat (csize d - x - 32) :: u64)"
    using x by (simp add: kconst of_nat_diff)
  have e: "get_next (c_addr d) (s\<lparr>mem := m2\<rparr>) = (Inr e, s\<lparr>mem := m2\<rparr>)"
    "get_size (c_addr c) (s\<lparr>mem := m3\<rparr>) = (Inr (of_nat (csize c)), s\<lparr>mem := m3\<rparr>)"
  proof -
    have "header m2 d e" using h(2) q hi by (auto simp: header_def m1_def m2_def nat_mem simp del: of_nat_add)
    then show "get_next (c_addr d) (s\<lparr>mem := m2\<rparr>) = (Inr e, s\<lparr>mem := m2\<rparr>)"
      using chunk_reads(3) [OF k2 R dd d(1), of e] by simp
    have "header m3 c (c_addr d)"
      using h(1) c q hi by (auto simp: header_def m1_def m2_def m3_def nat_mem simp del: of_nat_add)
    then show "get_size (c_addr c) (s\<lparr>mem := m3\<rparr>) = (Inr (of_nat (csize c)), s\<lparr>mem := m3\<rparr>)"
      using chunk_reads(1) [OF k3 R p(1,3), of "c_addr d"] by simp
  qed
  have w: "set_size (KERNEL_BASE + of_nat ?q) (of_nat (csize d - x - 32)) s = (Inr (), s\<lparr>mem := m1\<rparr>)"
    "set_inuse (KERNEL_BASE + of_nat ?q) False (s\<lparr>mem := m1\<rparr>) = (Inr (), s\<lparr>mem := m2\<rparr>)"
    "set_next (KERNEL_BASE + of_nat ?q) e (s\<lparr>mem := m2\<rparr>) = (Inr (), s\<lparr>mem := m3\<rparr>)"
    "set_size (c_addr c) (of_nat (csize c) + of_nat x) (s\<lparr>mem := m3\<rparr>) = (Inr (), s\<lparr>mem := m4\<rparr>)"
    "set_next (c_addr c) (KERNEL_BASE + of_nat ?q) (s\<lparr>mem := m4\<rparr>) = (Inr (), s\<lparr>mem := m5\<rparr>)"
    using header_access(4) [OF k R q] header_access(5) [OF k1 R q, of False] header_access(6) [OF k2 R q]
      header_access(4) [OF k3 R p(1,2)] header_access(6) [OF k4 R p(1,2)]
    by (simp_all add: c_addr_def m1_def m2_def m3_def m4_def m5_def)
  have "extendChunkInPlace p (of_nat (csize c + x)) (c_addr c) s = (Inr (c_ptr c), s\<lparr>mem := m5\<rparr>)"
    unfolding extendChunkInPlace_def
    using r e w d(2) cmp by (simp add: monad ex Let_def na lz c_ptr_def del: of_nat_add)
  moreover have "header m5 (c\<lparr>csize := csize c + x\<rparr>) (c_addr (rest_chunk d x))" "header m5 (rest_chunk d x) e"
    using h c q hi
    by (auto simp: header_def rest_chunk_def c_addr_def m1_def m2_def m3_def m4_def m5_def nat_mem simp del: of_nat_add)
  moreover have "changed_in (header_bytes c \<union> header_bytes (rest_chunk d x)) (mem s) m5"
    unfolding m1_def m2_def m3_def m4_def m5_def
    by (intro changed_in_write changed_in_refl) (use q p hi in \<open>auto simp: header_bytes_def rest_chunk_def\<close>)
  ultimately show ?thesis using k5 by (intro exI [of _ "s\<lparr>mem := m5\<rparr>"]) simp
qed

section \<open>Shrinking\<close>

lemma shrink_run:
  assumes k: "kwin F s" and R: "region F lo hi" and c: "lo \<le> cpos c" "cpos c + 32 + csize c \<le> hi"
    and h: "header (mem s) c e" and r: "r + 32 \<le> csize c"
  defines "d \<equiv> \<lparr>cpos = cpos c + 32 + r, csize = csize c - r - 32, cused = False\<rparr>"
  shows "\<exists>t. shrink_chunk (c_addr c) (of_nat r) (of_nat (csize c - r)) s = (Inr (), t) \<and> t = s\<lparr>mem := mem t\<rparr>
     \<and> kwin F t \<and> header (mem t) (c\<lparr>csize := r\<rparr>) (c_addr d) \<and> header (mem t) d e
     \<and> changed_in (header_bytes c \<union> header_bytes d) (mem s) (mem t)"
proof -
  let ?p = "cpos c" and ?q = "cpos c + 32 + r"
  have hi: "hi \<le> 0x1FF000" using R by (simp add: region_def)
  have q: "lo \<le> ?q" "?q + 32 \<le> hi" and p: "lo \<le> ?p" "?p + 32 \<le> hi" using c r by auto
  have na: "c_addr c + CHUNK + of_nat r = KERNEL_BASE + of_nat ?q" by (simp add: c_addr_def kconst)
  have lz: "of_nat (csize c - r) - CHUNK = (of_nat (csize c - r - 32) :: u64)"
    using r by (simp add: kconst of_nat_diff)
  have oz: "of_nat (csize c) - of_nat (csize c - r) = (of_nat r :: u64)" using r by (simp add: of_nat_diff)
  define m1 where "m1 = pwrite64 (mem s) (of_nat ?q) (of_nat (csize c - r - 32))"
  define m2 where "m2 = m1(of_nat (?q + 8) := 0)"
  define m3 where "m3 = pwrite64 m2 (of_nat (?q + 16)) e"
  define m4 where "m4 = pwrite64 m3 (of_nat ?p) (of_nat r)"
  define m5 where "m5 = pwrite64 m4 (of_nat (?p + 16)) (KERNEL_BASE + of_nat ?q)"
  have k1: "kwin F (s\<lparr>mem := m1\<rparr>)" using header_kwin(1) [OF k R q] by (simp add: m1_def)
  have k2: "kwin F (s\<lparr>mem := m2\<rparr>)" using header_kwin(2) [OF k1 R q, of 0] by (simp add: m2_def)
  have k3: "kwin F (s\<lparr>mem := m3\<rparr>)" using header_kwin(3) [OF k2 R q] by (simp add: m3_def)
  have k4: "kwin F (s\<lparr>mem := m4\<rparr>)" using header_kwin(1) [OF k3 R p] by (simp add: m4_def)
  have k5: "kwin F (s\<lparr>mem := m5\<rparr>)" using header_kwin(3) [OF k4 R p] by (simp add: m5_def)
  have e: "get_next (c_addr c) (s\<lparr>mem := m2\<rparr>) = (Inr e, s\<lparr>mem := m2\<rparr>)"
    "get_size (c_addr c) (s\<lparr>mem := m3\<rparr>) = (Inr (of_nat (csize c)), s\<lparr>mem := m3\<rparr>)"
  proof -
    have "header m2 c e" "header m3 c e"
      using h q hi by (auto simp: header_def m1_def m2_def m3_def nat_mem simp del: of_nat_add)
    then show "get_next (c_addr c) (s\<lparr>mem := m2\<rparr>) = (Inr e, s\<lparr>mem := m2\<rparr>)"
      "get_size (c_addr c) (s\<lparr>mem := m3\<rparr>) = (Inr (of_nat (csize c)), s\<lparr>mem := m3\<rparr>)"
      using chunk_reads(3) [OF k2 R c, of e] chunk_reads(1) [OF k3 R c, of e] by simp_all
  qed
  have w: "set_size (KERNEL_BASE + of_nat ?q) (of_nat (csize c - r - 32)) s = (Inr (), s\<lparr>mem := m1\<rparr>)"
    "set_inuse (KERNEL_BASE + of_nat ?q) False (s\<lparr>mem := m1\<rparr>) = (Inr (), s\<lparr>mem := m2\<rparr>)"
    "set_next (KERNEL_BASE + of_nat ?q) e (s\<lparr>mem := m2\<rparr>) = (Inr (), s\<lparr>mem := m3\<rparr>)"
    "set_size (c_addr c) (of_nat r) (s\<lparr>mem := m3\<rparr>) = (Inr (), s\<lparr>mem := m4\<rparr>)"
    "set_next (c_addr c) (KERNEL_BASE + of_nat ?q) (s\<lparr>mem := m4\<rparr>) = (Inr (), s\<lparr>mem := m5\<rparr>)"
    using header_access(4) [OF k R q] header_access(5) [OF k1 R q, of False] header_access(6) [OF k2 R q]
      header_access(4) [OF k3 R p] header_access(6) [OF k4 R p]
    by (simp_all add: c_addr_def m1_def m2_def m3_def m4_def m5_def)
  have "shrink_chunk (c_addr c) (of_nat r) (of_nat (csize c - r)) s = (Inr (), s\<lparr>mem := m5\<rparr>)"
    unfolding shrink_chunk_def Let_def na lz using e w by (simp add: monad oz del: of_nat_add)
  moreover have "header m5 (c\<lparr>csize := r\<rparr>) (c_addr d)" "header m5 d e"
    using h q hi by (auto simp: header_def d_def c_addr_def m1_def m2_def m3_def m4_def m5_def nat_mem simp del: of_nat_add)
  moreover have "changed_in (header_bytes c \<union> header_bytes d) (mem s) m5"
    unfolding m1_def m2_def m3_def m4_def m5_def
    by (intro changed_in_write changed_in_refl) (use q p hi in \<open>auto simp: header_bytes_def d_def\<close>)
  ultimately show ?thesis using k5 by (intro exI [of _ "s\<lparr>mem := m5\<rparr>"]) simp
qed

section \<open>Changes of the list\<close>

text \<open>Some neighbouring chunks are replaced by others in the same place.\<close>

lemma heap_splice:
  assumes ok: "heap_ok F s (xs @ old @ ys)"
    and l: "laid (heap_lo s) xs a" "laid a old b" "laid b ys (heap_hi s)"
    and t: "t = s\<lparr>mem := mem t\<rparr>" "kwin F t" "same_out a b (mem s) (mem t)"
    and new: "chain (mem t) new (first_addr ys 0)" "laid a new b"
      "first_addr new (first_addr ys 0) = first_addr old (first_addr ys 0)" "\<forall>c\<in>set new. chunk_ok c"
  shows "heap_ok F t (xs @ new @ ys)"
    and "\<And>e. e \<in> set xs \<union> set ys \<Longrightarrow> contents (mem t) e = contents (mem s) e"
proof -
  note d = heap_okD [OF ok]
  have hi: "heap_hi s \<le> 2 ^ 64" using d(6) by simp
  have e: "hi_start (heap t) = hi_start (heap s)" "heap_lo t = heap_lo s" "heap_hi t = heap_hi s"
    by (subst t(1), simp add: heap_upd)+
  have "\<forall>c\<in>set (xs @ new @ ys). chunk_ok c" using d(7) new(4) by auto
  moreover have "hi_start (heap t) = first_addr (xs @ new @ ys) 0"
    unfolding e d(3) using new(3) by (simp add: first_addr_append)
  ultimately show "heap_ok F t (xs @ new @ ys)"
    using chain_splice [OF d(4) l hi t(3) new(1-3)] d(2) t(2) e by (simp add: heap_ok_def)
  show "contents (mem t) e = contents (mem s) e" if "e \<in> set xs \<union> set ys" for e
  proof -
    have "cpos e + 32 + csize e \<le> a \<or> b \<le> cpos e" "cpos e + 32 + csize e \<le> 2 ^ 64"
      using that laid_bounds [OF l(1), of e] laid_bounds [OF l(3), of e] laid_le [OF l(2)] laid_le [OF l(3)] hi by force+
    then show ?thesis unfolding contents_def by (intro same_out_pread [OF t(3)]) auto
  qed
qed

text \<open>The used blocks when one chunk in use has been replaced.\<close>

lemma blocks_upd:
  assumes ok: "heap_ok F s cs" and ok': "heap_ok G t ds" and c: "c \<in> set cs" "cused c" "cpos c' = cpos c"
    and used: "\<And>e. e \<in> set ds \<and> cused e \<longleftrightarrow> (e \<in> set cs \<and> cused e \<and> cpos e \<noteq> cpos c) \<or> e = c'"
    and kept: "\<And>e. e \<in> set cs \<Longrightarrow> cused e \<Longrightarrow> cpos e \<noteq> cpos c \<Longrightarrow> contents (mem t) e = contents (mem s) e"
  shows "heap_blocks t = (heap_blocks s)(c_ptr c \<mapsto> contents (mem t) c')"
proof (rule map_eqI)
  note d = heap_okD [OF ok]
  fix p v
  have b: "cpos e < 0x1FF000" if "e \<in> set cs" for e using laid_bounds [OF d(5) that] d(6) by simp
  have pe: "c_ptr e = c_ptr c \<longleftrightarrow> cpos e = cpos c" if "e \<in> set cs" for e using c_ptr_inj b c(1) that by blast
  have pc: "c_ptr c' = c_ptr c" using c(3) by (simp add: c_ptr_def c_addr_def)
  have "heap_blocks t p = Some v \<longleftrightarrow>
      (\<exists>e. ((e \<in> set cs \<and> cused e \<and> cpos e \<noteq> cpos c) \<or> e = c') \<and> p = c_ptr e \<and> v = contents (mem t) e)"
    unfolding heap_blocks_iff [OF ok'] using used by blast
  also have "\<dots> \<longleftrightarrow> (\<exists>e\<in>set cs. cused e \<and> cpos e \<noteq> cpos c \<and> p = c_ptr e \<and> v = contents (mem t) e)
      \<or> (p = c_ptr c \<and> v = contents (mem t) c')"
    by (simp add: conj_disj_distribR ex_disj_distrib pc Bex_def conj_assoc)
  also have "(\<exists>e\<in>set cs. cused e \<and> cpos e \<noteq> cpos c \<and> p = c_ptr e \<and> v = contents (mem t) e)
      \<longleftrightarrow> (\<exists>e\<in>set cs. cused e \<and> cpos e \<noteq> cpos c \<and> p = c_ptr e \<and> v = contents (mem s) e)"
    by (rule bex_cong [OF refl]) (use kept in auto)
  also have "\<dots> \<longleftrightarrow> p \<noteq> c_ptr c \<and> heap_blocks s p = Some v"
    unfolding heap_blocks_iff [OF ok] by (metis pe)
  finally show "heap_blocks t p = Some v \<longleftrightarrow> ((heap_blocks s)(c_ptr c \<mapsto> contents (mem t) c')) p = Some v" by auto
qed

lemma contents_prefix:
  assumes "changed_in S m m'" "{cpos c + 32..<cpos c + 32 + n} \<inter> S = {}" "cpos c + 32 + n \<le> 2 ^ 64"
    and "cpos c' = cpos c" "n \<le> csize c" "n \<le> csize c'"
  shows "take n (contents m' c') = take n (contents m c)"
proof -
  have t: "take n (contents k d) = pread k (of_nat (cpos d + 32)) n" if "n \<le> csize d" for k d
    using that by (simp add: contents_def pread_def take_map)
  show ?thesis using changed_pread [OF assms(1-3)] assms(4-6) by (simp add: t)
qed

lemma laid_splice2:
  assumes "laid lo (xs @ c # d # ys) hi"
  shows "laid lo xs (cpos c)" "laid (cpos c) [c, d] (cpos d + 32 + csize d)" "laid (cpos d + 32 + csize d) ys hi"
    "cpos c + 32 + csize c \<le> cpos d" "cpos d + 32 + csize d \<le> hi" "lo \<le> cpos c"
  using assms laid_le by (fastforce simp: laid_append intro: laid_mono)+

text \<open>Extension: the chunk behind gives up its front; the space of its header is lost.\<close>

lemma heap_extend:
  assumes ok: "heap_ok F s (xs @ c # d # ys)" and c: "cused c" "\<not> cused d"
    and x: "x + 32 \<le> csize d" "16 dvd x"
  defines "c' \<equiv> c\<lparr>csize := csize c + x\<rparr>"
  shows "\<exists>t. extendChunkInPlace p (of_nat (csize c + x)) (c_addr c) s = (Inr (c_ptr c), t)
     \<and> heap_ok F t (xs @ c' # rest_chunk d x # ys) \<and> t = s\<lparr>mem := mem t\<rparr>
     \<and> take (csize c) (contents (mem t) c') = contents (mem s) c
     \<and> heap_blocks t = (heap_blocks s)(c_ptr c \<mapsto> contents (mem t) c')"
proof -
  note e = heap_okD [OF ok] and l = laid_splice2 [OF heap_okD(5) [OF ok]]
  have h: "header (mem s) c (c_addr d)" "header (mem s) d (first_addr ys 0)"
    using e(4) by (simp_all add: chain_append)
  obtain t where t: "extendChunkInPlace p (of_nat (csize c + x)) (c_addr c) s = (Inr (c_ptr c), t)"
      "t = s\<lparr>mem := mem t\<rparr>" "kwin F t" "header (mem t) c' (c_addr (rest_chunk d x))"
      "header (mem t) (rest_chunk d x) (first_addr ys 0)"
      "changed_in (header_bytes c \<union> header_bytes (rest_chunk d x)) (mem s) (mem t)"
    using extend_run [OF e(1,2) l(6,4,5) c(2) h x(1), of p] unfolding c'_def by blast
  have so: "same_out (cpos c) (cpos d + 32 + csize d) (mem s) (mem t)"
    unfolding changed_same_out [symmetric] by (rule changed_in_mono [OF t(6)])
      (use l(4) x in \<open>auto simp: header_bytes_def rest_chunk_def\<close>)
  have new: "chain (mem t) [c', rest_chunk d x] (first_addr ys 0)"
      "laid (cpos c) [c', rest_chunk d x] (cpos d + 32 + csize d)"
      "first_addr [c', rest_chunk d x] (first_addr ys 0) = first_addr [c, d] (first_addr ys 0)"
      "\<forall>e\<in>set [c', rest_chunk d x]. chunk_ok e"
    using t(4,5) l(4) x e(7) [of c] e(7) [of d]
    by (auto simp: c'_def rest_chunk_def c_addr_def chunk_ok_def)
  have ok0: "heap_ok F s (xs @ [c, d] @ ys)" using ok by simp
  note sp = heap_splice [OF ok0 l(1-3) t(2,3) so new]
  then have ok': "heap_ok F t (xs @ c' # rest_chunk d x # ys)" by simp
  have u: "e \<in> set xs \<union> set ys" if "e \<in> set (xs @ c # d # ys)" "cused e" "cpos e \<noteq> cpos c" for e
    using that c by auto
  have nc: "cpos e \<noteq> cpos c" if "e \<in> set xs \<union> set ys" for e
    using laid_cpos_neq [OF e(5), of e] that by auto
  have "heap_blocks t = (heap_blocks s)(c_ptr c \<mapsto> contents (mem t) c')"
    by (rule blocks_upd [OF ok ok' _ c(1)])
      (use sp(2) u nc c in \<open>auto simp: c'_def rest_chunk_def\<close>)
  moreover have "take (csize c) (contents (mem t) c') = take (csize c) (contents (mem s) c)"
    by (rule contents_prefix [OF t(6)])
      (use l(4,5) e(6) in \<open>auto simp: c'_def header_bytes_def rest_chunk_def\<close>)
  ultimately show ?thesis using t(1,2) ok' by (auto simp: contents_def)
qed

text \<open>The next chunk is in use or too small: nothing changes.\<close>

lemma extend_refused:
  assumes ok: "heap_ok F s (xs @ c # d # ys)" and r: "csize c \<le> r" "r + 32 < 2 ^ 64 + csize c"
    and no: "cused d \<or> csize d < r - csize c + 32"
  shows "extendChunkInPlace p (of_nat r) (c_addr c) s = (Inr 0, s)"
proof -
  note e = heap_okD [OF ok] and l = laid_splice2 [OF heap_okD(5) [OF ok]]
  have h: "header (mem s) c (c_addr d)" "header (mem s) d (first_addr ys 0)"
    using e(4) by (simp_all add: chain_append)
  have b: "cpos c + 32 + csize c \<le> heap_hi s" "heap_lo s \<le> cpos d" using l(4-6) by auto
  note rd = chunk_reads [OF e(1,2) l(6) b(1) h(1)] chunk_reads [OF e(1,2) b(2) l(5) h(2)]
  have cmp: "(of_nat x \<le> (of_nat y :: u64)) \<longleftrightarrow> x \<le> y" if "x < 2 ^ 64" "y < 2 ^ 64" for x y
    using that by (simp add: word_le_nat_alt)
  have eq: "(of_nat r - of_nat (csize c) + CHUNK :: u64) = of_nat (r - csize c + 32)"
    using r by (simp add: kconst of_nat_diff)
  have "(of_nat r - of_nat (csize c) + CHUNK \<le> (of_nat (csize d) :: u64)) \<longleftrightarrow> r - csize c + 32 \<le> csize d"
    unfolding eq by (rule cmp) (use r l(5) e(6) in auto)
  then show ?thesis using rd no by (auto simp: extendChunkInPlace_def monad Let_def)
qed

lemma coalesce_run:
  assumes ok: "heap_ok F s cs"
  shows "\<exists>t. coalesce_chunk s = Some (Inr (), t) \<and> heap_ok F t (merge_free cs) \<and> t = s\<lparr>mem := mem t\<rparr>
     \<and> (\<forall>x. \<not> free_headers cs (unat x) \<longrightarrow> mem t x = mem s x)"
proof -
  note d = heap_okD [OF ok]
  obtain t where t: "coalesce_loop (hi_start (heap s)) s = Some (Inr (), t)" "kwin F t" "t = s\<lparr>mem := mem t\<rparr>"
     "chain (mem t) (merge_free cs) 0" "laid (heap_lo s) (merge_free cs) (heap_hi s)"
     "\<forall>x. \<not> free_headers cs (unat x) \<longrightarrow> mem t x = mem s x"
    using coalesce_loop_run [OF d(2,1), of "[]" cs] d(3-5) by auto
  have "hi_start (heap t) = hi_start (heap s)" "heap_lo t = heap_lo s" "heap_hi t = heap_hi s"
    by (subst t(3), simp add: heap_upd)+
  moreover have "\<forall>c\<in>set (merge_free cs). chunk_ok c" using merge_free_ok d(7) by blast
  ultimately have "heap_ok F t (merge_free cs)"
    using t(2,4,5) d(2,3) by (simp only: heap_ok_def merge_free_first)
  moreover have "coalesce_chunk s = Some (Inr (), t)" using t(1) by (simp add: coalesce_chunk_def monad)
  ultimately show ?thesis using t(3,6) by blast
qed

lemma free_headers_off:
  assumes "laid lo cs hi" "e \<in> set cs" "cused e" "k < csize e"
  shows "\<not> free_headers cs (cpos e + 32 + k)"
proof
  assume "free_headers cs (cpos e + 32 + k)"
  then obtain f where f: "f \<in> set cs" "\<not> cused f" "cpos f \<le> cpos e + 32 + k" "cpos e + 32 + k < cpos f + 32"
    by (auto simp: free_headers_def)
  obtain xs ys where cs: "cs = xs @ e # ys" using assms(2) split_list by metis
  have "f \<in> set xs \<union> set ys" using f(1,2) assms(3) cs by auto
  from laid_disjoint [OF assms(1) [unfolded cs] this] f assms(4) show False by auto
qed

lemma coalesce_blocks:
  assumes ok: "heap_ok F s cs" and ok': "heap_ok F t (merge_free cs)"
    and m: "\<forall>x. \<not> free_headers cs (unat x) \<longrightarrow> mem t x = mem s x"
  shows "heap_blocks t = heap_blocks s" "\<And>e. e \<in> set cs \<Longrightarrow> cused e \<Longrightarrow> contents (mem t) e = contents (mem s) e"
proof -
  note d = heap_okD [OF ok]
  show ct: "contents (mem t) e = contents (mem s) e" if e: "e \<in> set cs" "cused e" for e
    unfolding contents_def
  proof (rule pread_cong)
    fix k assume k: "k < csize e"
    have "cpos e + 32 + csize e \<le> 0x1FF000" using laid_bounds [OF d(5) e(1)] d(6) by auto
    then have "unat (of_nat (cpos e + 32) + of_nat k :: u64) = cpos e + 32 + k"
      using k by (subst of_nat_add [symmetric], subst unat_of_nat64) auto
    then show "mem t (of_nat (cpos e + 32) + of_nat k) = mem s (of_nat (cpos e + 32) + of_nat k)"
      using m free_headers_off [OF d(5) e k] by simp
  qed
  have used: "e \<in> set (merge_free cs) \<and> cused e \<longleftrightarrow> e \<in> set cs \<and> cused e" for e
  proof -
    have "e \<in> set (filter cused (merge_free cs)) \<longleftrightarrow> e \<in> set (filter cused cs)" by (simp only: merge_free_used)
    then show ?thesis by auto
  qed
  show "heap_blocks t = heap_blocks s"
  proof (rule map_eqI)
    fix p v
    have "heap_blocks t p = Some v \<longleftrightarrow> (\<exists>e\<in>set cs. cused e \<and> p = c_ptr e \<and> v = contents (mem t) e)"
      unfolding heap_blocks_iff [OF ok'] using used by blast
    also have "\<dots> \<longleftrightarrow> heap_blocks s p = Some v"
      unfolding heap_blocks_iff [OF ok] by (rule bex_cong [OF refl]) (use ct in auto)
    finally show "heap_blocks t p = Some v \<longleftrightarrow> heap_blocks s p = Some v" .
  qed
qed

text \<open>Shrinking: the rest becomes a free chunk.\<close>

lemma heap_shrink:
  assumes ok: "heap_ok F s (xs @ c # ys)" and c: "cused c" and r: "r + 32 \<le> csize c" "16 dvd r"
  defines "c' \<equiv> c\<lparr>csize := r\<rparr>" and "d \<equiv> \<lparr>cpos = cpos c + 32 + r, csize = csize c - r - 32, cused = False\<rparr>"
  shows "\<exists>t. shrink_chunk (c_addr c) (of_nat r) (of_nat (csize c - r)) s = (Inr (), t)
     \<and> heap_ok F t (xs @ c' # d # ys) \<and> t = s\<lparr>mem := mem t\<rparr>
     \<and> contents (mem t) c' = take r (contents (mem s) c)
     \<and> heap_blocks t = (heap_blocks s)(c_ptr c \<mapsto> contents (mem t) c')"
proof -
  note e = heap_okD [OF ok] and l = laid_splice1 [OF heap_okD(5) [OF ok]]
  have b: "heap_lo s \<le> cpos c" "cpos c + 32 + csize c \<le> heap_hi s" using laid_bounds [OF e(5), of c] by auto
  have h: "header (mem s) c (first_addr ys 0)" using e(4) by (simp add: chain_append)
  obtain t where t: "shrink_chunk (c_addr c) (of_nat r) (of_nat (csize c - r)) s = (Inr (), t)"
      "t = s\<lparr>mem := mem t\<rparr>" "kwin F t" "header (mem t) c' (c_addr d)" "header (mem t) d (first_addr ys 0)"
      "changed_in (header_bytes c \<union> header_bytes d) (mem s) (mem t)"
    using shrink_run [OF e(1,2) b h r(1)] unfolding c'_def d_def by blast
  have so: "same_out (cpos c) (cpos c + 32 + csize c) (mem s) (mem t)"
    unfolding changed_same_out [symmetric] by (rule changed_in_mono [OF t(6)])
      (use r in \<open>auto simp: header_bytes_def d_def\<close>)
  have new: "chain (mem t) [c', d] (first_addr ys 0)" "laid (cpos c) [c', d] (cpos c + 32 + csize c)"
      "first_addr [c', d] (first_addr ys 0) = first_addr [c] (first_addr ys 0)" "\<forall>e\<in>set [c', d]. chunk_ok e"
    using t(4,5) r e(7) [of c] by (auto simp: c'_def d_def c_addr_def chunk_ok_def)
  have ok0: "heap_ok F s (xs @ [c] @ ys)" using ok by simp
  note sp = heap_splice [OF ok0 l t(2,3) so new]
  then have ok': "heap_ok F t (xs @ c' # d # ys)" by simp
  have nc: "cpos e \<noteq> cpos c" if "e \<in> set xs \<union> set ys" for e
    using laid_cpos_neq [OF e(5), of e] that by auto
  have "heap_blocks t = (heap_blocks s)(c_ptr c \<mapsto> contents (mem t) c')"
    by (rule blocks_upd [OF ok ok' _ c]) (use sp(2) nc c in \<open>auto simp: c'_def d_def\<close>)
  moreover have "take r (contents (mem t) c') = take r (contents (mem s) c)"
    by (rule contents_prefix [OF t(6)]) (use r b e(6) in \<open>auto simp: c'_def header_bytes_def d_def\<close>)
  ultimately show ?thesis using t(1,2) ok' by (auto simp: contents_def c'_def)
qed

section \<open>Moving a block\<close>

text \<open>Writing into a block in use.\<close>

lemma payload_write:
  assumes ok: "heap_ok F s cs" and e: "e \<in> set cs" "cused e" and bs: "0 < length bs" "length bs \<le> csize e"
  defines "t \<equiv> s\<lparr>mem := pwrite (mem s) (of_nat (cpos e + 32)) bs\<rparr>"
  shows "heap_ok F t cs" "take (length bs) (contents (mem t) e) = bs"
    "heap_blocks t = (heap_blocks s)(c_ptr e \<mapsto> contents (mem t) e)"
proof -
  obtain xs ys where cs: "cs = xs @ e # ys" using e(1) split_list by metis
  note d = heap_okD [OF ok] and l = laid_splice1 [OF heap_okD(5) [OF ok, unfolded cs]]
  have b: "heap_lo s \<le> cpos e" "cpos e + 32 + csize e \<le> heap_hi s" using laid_bounds [OF d(5) e(1)] by auto
  have so: "same_out (cpos e + 32) (cpos e + 32 + csize e) (mem s) (mem t)"
    unfolding t_def using same_out_pwrite [of "cpos e + 32" "cpos e + 32" bs "cpos e + 32 + csize e"] bs b d(6) by simp
  have so': "same_out (cpos e) (cpos e + 32 + csize e) (mem s) (mem t)" by (rule same_out_mono [OF so]) auto
  have "header (mem s) e (first_addr ys 0)" using d(4) by (simp add: cs chain_append)
  then have h: "header (mem t) e (first_addr ys 0)" using header_kept [OF _ so] b d(6) by auto
  have "off_tables F (of_nat (cpos e + 32)) (length bs)" by (rule region_off [OF d(2)]) (use b bs in auto)
  then have k: "kwin F t" unfolding t_def using kmap_pwrite [OF d(1)] by simp
  have ok0: "heap_ok F s (xs @ [e] @ ys)" using ok cs by simp
  have t: "t = s\<lparr>mem := mem t\<rparr>" by (simp add: t_def)
  have new: "chain (mem t) [e] (first_addr ys 0)" "\<forall>c\<in>set [e]. chunk_ok c" using h d(7) e(1) by auto
  note sp = heap_splice [OF ok0 l t k so' new(1) l(2) refl new(2)]
  then show ok': "heap_ok F t cs" by (simp add: cs)
  have nc: "f \<in> set cs \<Longrightarrow> cpos f \<noteq> cpos e \<Longrightarrow> f \<in> set xs \<union> set ys" for f by (auto simp: cs)
  have inj: "f \<in> set cs \<Longrightarrow> cpos f = cpos e \<Longrightarrow> f = e" for f
    using laid_cpos_neq [OF d(5) [unfolded cs], of f] by (auto simp: cs)
  show "heap_blocks t = (heap_blocks s)(c_ptr e \<mapsto> contents (mem t) e)"
    by (rule blocks_upd [OF ok ok' e refl]) (use sp(2) nc inj e in auto)
  have "take (length bs) (contents (mem t) e) = pread (mem t) (of_nat (cpos e + 32)) (length bs)"
    using bs by (simp add: contents_def pread_def take_map)
  also have "\<dots> = bs" unfolding t_def using bs b d(6) by (simp add: pread_pwrite_same del: of_nat_add)
  finally show "take (length bs) (contents (mem t) e) = bs" .
qed

lemma memcpy_chunks:
  assumes ok: "heap_ok F s cs" and c: "c \<in> set cs" "d \<in> set cs" "cpos c \<noteq> cpos d"
    and k: "0 < k" "k \<le> csize c" "k \<le> csize d"
  shows "memcpy (c_ptr d) (c_ptr c) (of_nat k) s = (Inr (c_ptr d),
     s\<lparr>mem := pwrite (mem s) (of_nat (cpos d + 32)) (take k (contents (mem s) c))\<rparr>)"
proof -
  note e = heap_okD [OF ok]
  have b: "heap_lo s \<le> cpos f" "cpos f + 32 + csize f \<le> heap_hi s" if "f \<in> set cs" for f
    using laid_bounds [OF e(5) that] by auto
  have p: "c_ptr f = KERNEL_BASE + of_nat (cpos f + 32)" for f by (simp add: c_ptr_def c_addr_def kconst)
  have w: "in_win (c_ptr f) k" if "f \<in> set cs" "k \<le> csize f" for f
    unfolding p using b [OF that(1)] that(2) e(6) by (simp add: in_win_def del: of_nat_add)
  obtain xs ys where cs: "cs = xs @ c # ys" using c(1) split_list by metis
  have "d \<in> set xs \<union> set ys" using c(2,3) cs by auto
  from laid_disjoint [OF e(5) [unfolded cs] this]
  have ap: "apart (c_ptr d) k (c_ptr c) k"
    unfolding p using apart_offsets [of "cpos d + 32" k "cpos c + 32" k KERNEL_BASE]
      apart_sym [OF apart_offsets [of "cpos c + 32" k "cpos d + 32" k KERNEL_BASE]] k b [OF c(1)] b [OF c(2)] e(6) by force
  have u: "unat (of_nat k :: u64) = k" using k(2) b [OF c(1)] e(6) by simp
  have off: "off_tables F (c_ptr d - KERNEL_BASE) k"
    unfolding p using region_off [OF e(2), of "cpos d + 32" k] b [OF c(2)] k by simp
  have "take k (contents (mem s) c) = pread (mem s) (c_ptr c - KERNEL_BASE) k"
    using k(2) by (simp add: contents_def pread_def take_map p)
  moreover have "k < 2 ^ 31" using k(2) b [OF c(1)] e(6) by simp
  ultimately show ?thesis
    using kwin_memcpy [OF e(1), of "c_ptr d" "of_nat k" "c_ptr c"] w [OF c(2) k(3)] w [OF c(1) k(2)] ap off u
    by (simp add: p)
qed

lemma move_block_run:
  assumes ok: "heap_ok F s cs" and c: "c \<in> set cs" "cused c" "0 < csize c" and sz: "round16 sz = sz" "0 < unat sz"
  defines "k \<equiv> min (csize c) (unat sz)"
  shows "kalloc sz s = Some (Inr 0, s) \<and> move_block (c_ptr c) sz (c_addr c) s = Some (Inr 0, s)
    \<or> (\<exists>p t ds v. move_block (c_ptr c) sz (c_addr c) s = Some (Inr p, t) \<and> p \<noteq> 0 \<and> p \<notin> dom (heap_blocks s)
        \<and> heap_ok F t ds \<and> t = s\<lparr>mem := mem t\<rparr> \<and> unat sz \<le> length v \<and> take k v = take k (contents (mem s) c)
        \<and> heap_blocks t = (heap_blocks s)(c_ptr c := None, p \<mapsto> v))"
proof (cases "hi_avail (heap s) < sz \<or> take_first (unat sz) cs = None")
  case True
  then have "kalloc sz s = Some (Inr 0, s)" using kalloc_run [OF ok, of sz] sz(1) by (simp split: if_splits)
  then show ?thesis by (simp add: move_block_def monad)
next
  case False
  then obtain d ds t where t: "take_first (unat sz) cs = Some (d, ds)" "kalloc sz s = Some (Inr (c_ptr d), t)"
      "heap_ok F t ds" "t = s\<lparr>mem := mem t\<rparr>" "same_out (cpos d) (cpos d + 32 + csize d) (mem s) (mem t)"
    using kalloc_run [OF ok, of sz] sz(1) by (auto split: if_splits)
  let ?d = "hd (cut (unat sz) (d\<lparr>cused := True\<rparr>))"
  note a = kalloc_blocks [OF ok t(1,3,5)] and tu = take_first_used [OF t(1)]
  have fit: "fits (unat sz) d" "d \<in> set cs" using take_first_split [OF t(1)] by auto
  have c1: "c \<in> set ds" and d1: "?d \<in> set ds" "cused ?d" using tu c by blast+
  have d2: "cpos ?d = cpos d" "unat sz \<le> csize ?d"
    using cut_used(2,3) [of "unat sz" "d\<lparr>cused := True\<rparr>"] fit by (auto simp: fits_def)
  have pd: "c_ptr ?d = c_ptr d" using d2(1) by (simp add: c_ptr_def c_addr_def)
  have "c_ptr c \<in> dom (heap_blocks s)" using heap_blocks_dom [OF ok] c by blast
  with a(1) have pne: "c_ptr c \<noteq> c_ptr d" by auto
  then have ne: "cpos c \<noteq> cpos ?d" using d2(1) by (auto simp: c_ptr_def c_addr_def)
  have ct: "contents (mem t) c = contents (mem s) c"
  proof -
    have "heap_blocks t (c_ptr c) = heap_blocks s (c_ptr c)" using a(2) pne by simp
    moreover have "heap_blocks t (c_ptr c) = Some (contents (mem t) c)" "heap_blocks s (c_ptr c) = Some (contents (mem s) c)"
      using heap_blocks_iff [OF t(3)] heap_blocks_iff [OF ok] c c1 by blast+
    ultimately show ?thesis by simp
  qed
  note e = heap_okD [OF t(3)]
  have b: "heap_lo t \<le> cpos c" "cpos c + 32 + csize c \<le> heap_hi t" using laid_bounds [OF e(5) c1] by auto
  obtain xs ys where ds: "ds = xs @ c # ys" using c1 split_list by metis
  have "header (mem t) c (first_addr ys 0)" using e(4) by (simp add: ds chain_append)
  from chunk_reads(1) [OF e(1,2) b this] have gs: "get_size (c_addr c) t = (Inr (of_nat (csize c)), t)" .
  have cnt: "(if of_nat (csize c) < sz then of_nat (csize c) else sz) = (of_nat k :: u64)"
    using b e(6) by (simp add: k_def word_less_nat_alt min_def)
  have k: "0 < k" "k \<le> csize c" "k \<le> csize ?d" using c(3) sz(2) d2(2) by (auto simp: k_def)
  let ?bs = "take k (contents (mem t) c)"
  define u where "u = t\<lparr>mem := pwrite (mem t) (of_nat (cpos ?d + 32)) ?bs\<rparr>"
  have mc: "memcpy (c_ptr d) (c_ptr c) (of_nat k) t = (Inr (c_ptr d), u)"
    using memcpy_chunks [OF t(3) c1 d1(1) ne k] by (simp add: u_def pd)
  have len: "length ?bs = k" using k(2) by (simp add: contents_def)
  have bs: "0 < length ?bs" "length ?bs \<le> csize ?d" using len k by simp_all
  have ub: "heap_ok F u ds" "take k (contents (mem u) ?d) = ?bs"
    "heap_blocks u = (heap_blocks t)(c_ptr d \<mapsto> contents (mem u) ?d)"
    using payload_write [OF t(3) d1 bs] unfolding len pd u_def [symmetric] by blast+
  have hu: "heap_hi u = heap_hi t" by (simp add: u_def heap_upd)
  have "cpos c + 32 < heap_hi u" using b c(3) hu by simp
  from kfree_run [OF ub(1) c1 c(2) this] obtain w where w: "kfree (c_ptr c) u = Some (Inr (), w)"
      "heap_ok F w (merge_free (release (cpos c) ds))" "w = u\<lparr>mem := mem w\<rparr>"
      "\<forall>x. \<not> free_headers (release (cpos c) ds) (unat x) \<longrightarrow> mem w x = mem u x" by blast
  have "heap_blocks w = (heap_blocks u)(c_ptr c := None)" by (rule kfree_blocks [OF ub(1) c1 w(2,4)])
  then have bl: "heap_blocks w = (heap_blocks s)(c_ptr c := None, c_ptr d \<mapsto> contents (mem u) ?d)"
    using ub(3) a(2) pne by (auto simp: fun_upd_twist)
  have nz: "c_ptr d \<noteq> 0" by (rule c_ptr_nonzero(1) [OF ok fit(2)])
  have mv: "move_block (c_ptr c) sz (c_addr c) s = Some (Inr (c_ptr d), w)"
    using t(2) nz gs mc w(1) cnt by (simp add: move_block_def monad)
  have us: "u = s\<lparr>mem := mem u\<rparr>" unfolding u_def by (subst t(4)) simp
  have ws: "w = s\<lparr>mem := mem w\<rparr>" by (subst w(3), subst us) simp
  have "unat sz \<le> length (contents (mem u) ?d)" using d2(2) by (simp add: contents_def)
  moreover have "take k (contents (mem u) ?d) = take k (contents (mem s) c)" using ub(2) ct by simp
  ultimately show ?thesis using mv nz a(1) w(2) ws bl by blast
qed

section \<open>All cases\<close>

lemma round16_idem: "round16 (round16 n) = round16 n"
proof -
  have "unat (round16 n) \<le> 2 ^ 64 - 16"
    using round16_dvd [of n] u64_bound [of "round16 n"] by (auto elim!: dvdE)
  then have "unat (round16 (round16 n)) = unat (round16 n)"
    using round16_dvd [of n] by (subst unat_round16) (auto elim!: dvdE)
  then show ?thesis by (simp only: word_unat_eq_iff)
qed

text \<open>What a resized block promises: the new block holds the common prefix of the old one, and the
  other blocks are as before.\<close>

definition resized :: "u64 \<Rightarrow> u64 \<Rightarrow> nat \<Rightarrow> (u64 \<rightharpoonup> u8 list) \<Rightarrow> (u64 \<rightharpoonup> u8 list) \<Rightarrow> bool" where
  "resized p q n B B' \<longleftrightarrow>
     (\<exists>old v. B p = Some old \<and> (q = p \<or> q \<notin> dom B) \<and> n \<le> length v
        \<and> take (min (length old) n) v = take (min (length old) n) old \<and> B' = B(p := None, q \<mapsto> v))"

lemma krealloc_run:
  assumes ok: "heap_ok F s (xs @ c # ys)" and c: "cused c" "0 < csize c" and n: "0 < unat n" "unat n \<le> 2 ^ 64 - 32"
    and last: "csize c < unat (round16 n) \<Longrightarrow> ys \<noteq> []"
  shows "\<exists>p t. krealloc (c_ptr c) n s = Some (Inr p, t)
     \<and> (if p = 0 then t = s
        else \<exists>ds. heap_ok F t ds \<and> resized (c_ptr c) p (unat (round16 n)) (heap_blocks s) (heap_blocks t))"
proof -
  let ?cs = "xs @ c # ys" and ?r = "unat (round16 n)"
  note d = heap_okD [OF ok]
  have cm: "c \<in> set ?cs" by simp
  note nz = c_ptr_nonzero(1) [OF ok cm]
  have b: "heap_lo s \<le> cpos c" "cpos c + 32 + csize c \<le> heap_hi s" using laid_bounds [OF d(5) cm] by auto
  have h: "header (mem s) c (first_addr ys 0)" using d(4) by (simp add: chain_append)
  note gs = chunk_reads(1) [OF d(1,2) b h]
  have r: "0 < ?r" "16 dvd ?r" "?r \<le> 2 ^ 64 - 32" using n round16_dvd round16_ge [of n] by (auto simp: unat_round16)
  have dvd: "16 dvd csize c" using d(7) [OF cm] by (simp add: chunk_ok_def)
  have pc: "c_ptr c - CHUNK = c_addr c" "c_addr c + CHUNK = c_ptr c" by (simp_all add: c_ptr_def)
  have lt: "((of_nat (csize c) :: u64) < round16 n) \<longleftrightarrow> csize c < ?r" "(round16 n < (of_nat (csize c) :: u64)) \<longleftrightarrow> ?r < csize c"
    using b d(6) by (simp_all add: word_less_nat_alt)
  have left: "of_nat (csize c) - round16 n = (of_nat (csize c - ?r) :: u64)"
    "(MIN_CHUNK_SIZE < (of_nat (csize c) - round16 n :: u64)) \<longleftrightarrow> 36 < csize c - ?r"
    "((of_nat (csize c) - round16 n :: u64) < MIN_CHUNK_SIZE) \<longleftrightarrow> csize c - ?r < 36" if "?r \<le> csize c"
  proof -
    show e: "of_nat (csize c) - round16 n = (of_nat (csize c - ?r) :: u64)" using that by (simp add: of_nat_diff)
    show "(MIN_CHUNK_SIZE < (of_nat (csize c) - round16 n :: u64)) \<longleftrightarrow> 36 < csize c - ?r"
      "((of_nat (csize c) - round16 n :: u64) < MIN_CHUNK_SIZE) \<longleftrightarrow> csize c - ?r < 36"
      unfolding e using b d(6) unat_of_nat64 [of "csize c - ?r"]
      by (simp_all add: kconst word_less_nat_alt del: of_nat_diff)
  qed
  have bc: "heap_blocks s (c_ptr c) = Some (contents (mem s) c)" using heap_blocks_iff [OF ok] c(1) cm by blast
  have len: "length (contents m f) = csize f" for m f by (simp add: contents_def)
  have move: ?thesis if "krealloc (c_ptr c) n s = move_block (c_ptr c) (round16 n) (c_addr c) s"
    using move_block_run [OF ok cm c round16_idem r(1)] that bc by (auto simp: resized_def len)
  consider (grow) "csize c < ?r" | (shrink) "?r < csize c" "36 < csize c - ?r"
    | (same) "?r \<le> csize c" "csize c - ?r = 0 \<or> csize c - ?r = 36" | (move) "?r < csize c" "csize c - ?r < 36"
    by linarith
  then show ?thesis
  proof cases
    case grow
    then obtain e zs where ys: "ys = e # zs" using last by (cases ys) auto
    have kr: "krealloc (c_ptr c) n s = lbind (run (extendChunkInPlace (c_ptr c) (round16 n) (c_addr c)))
        (\<lambda>p. if p \<noteq> 0 then run (ret (c_ptr c)) else move_block (c_ptr c) (round16 n) (c_addr c)) s"
      using nz grow gs lt by (simp add: krealloc_def Let_def pc monad)
    have ok1: "heap_ok F s (xs @ c # e # zs)" using ok ys by simp
    show ?thesis
    proof (cases "cused e \<or> csize e < ?r - csize c + 32")
      case True
      have "csize c \<ge> 16" using dvd c(2) by (auto elim!: dvdE)
      then have "?r + 32 < 2 ^ 64 + csize c" using r(3) by simp
      from extend_refused [OF ok1 less_imp_le [OF grow] this True, of "c_ptr c"]
      show ?thesis using kr by (intro move) (simp add: monad)
    next
      case False
      let ?x = "?r - csize c" and ?c = "c\<lparr>csize := ?r\<rparr>"
      have x: "?x + 32 \<le> csize e" "16 dvd ?x" "csize c + ?x = ?r" using False r(2) dvd grow by auto
      obtain t where t: "extendChunkInPlace (c_ptr c) (round16 n) (c_addr c) s = (Inr (c_ptr c), t)"
          "heap_ok F t (xs @ ?c # rest_chunk e ?x # zs)"
          "take (csize c) (contents (mem t) ?c) = contents (mem s) c"
          "heap_blocks t = (heap_blocks s)(c_ptr c \<mapsto> contents (mem t) ?c)"
        using heap_extend [OF ok1 c(1) _ x(1,2), of "c_ptr c"] False x(3) by auto
      have "resized (c_ptr c) (c_ptr c) ?r (heap_blocks s) (heap_blocks t)"
        using t(3,4) bc grow by (auto simp: resized_def len min_def intro!: exI [of _ "contents (mem t) ?c"])
      then show ?thesis using kr nz t(1,2) by (auto simp: monad)
    qed
  next
    case shrink
    let ?c = "c\<lparr>csize := ?r\<rparr>"
    have r32: "?r + 32 \<le> csize c" using shrink by simp
    from heap_shrink [OF ok c(1) r32 r(2)] obtain t ds where
      t: "shrink_chunk (c_addr c) (round16 n) (of_nat (csize c - ?r)) s = (Inr (), t)" "heap_ok F t ds"
        "contents (mem t) ?c = take ?r (contents (mem s) c)" "heap_blocks t = (heap_blocks s)(c_ptr c \<mapsto> contents (mem t) ?c)"
      by auto
    obtain u where u: "coalesce_chunk t = Some (Inr (), u)" "heap_ok F u (merge_free ds)"
        "\<forall>x. \<not> free_headers ds (unat x) \<longrightarrow> mem u x = mem t x" using coalesce_run [OF t(2)] by blast
    have "heap_blocks u = heap_blocks t" by (rule coalesce_blocks(1) [OF t(2) u(2,3)])
    then have "resized (c_ptr c) (c_ptr c) ?r (heap_blocks s) (heap_blocks u)"
      using t(3,4) bc shrink(1) len [of "mem t" ?c]
      by (auto simp: resized_def len min_def intro!: exI [of _ "take ?r (contents (mem s) c)"])
    moreover have "krealloc (c_ptr c) n s = Some (Inr (c_ptr c), u)"
      using nz shrink gs lt left(2,3) t(1) [folded left(1) [OF less_imp_le [OF shrink(1)]]] u(1)
      by (simp add: krealloc_def Let_def pc monad)
    ultimately show ?thesis using u(2) nz by auto
  next
    case same
    have "krealloc (c_ptr c) n s = Some (Inr (c_ptr c), s)"
      using nz same gs lt left(2,3) [OF same(1)] by (auto simp: krealloc_def Let_def pc monad)
    moreover have "resized (c_ptr c) (c_ptr c) ?r (heap_blocks s) (heap_blocks s)"
      using bc same(1) by (auto simp: resized_def len intro!: exI [of _ "contents (mem s) c"])
    ultimately show ?thesis using ok nz by auto
  next
    case move
    show ?thesis
      by (rule \<open>krealloc (c_ptr c) n s = move_block (c_ptr c) (round16 n) (c_addr c) s \<Longrightarrow> ?thesis\<close>)
        (use nz move gs lt left(2,3) in \<open>auto simp: krealloc_def Let_def pc monad\<close>)
  qed
qed

section \<open>Properties\<close>

text \<open>The heap of the boot state with one block.\<close>

definition boot_block :: chunk where
  "boot_block = \<lparr>cpos = 0x100000, csize = 112, cused = True\<rparr>"

definition boot_rest :: chunk where
  "boot_rest = \<lparr>cpos = 0x100090, csize = 0x2F50, cused = False\<rparr>"

lemma boot_ptr: "c_ptr boot_block = 0xFFFFFFFF80100020" "c_ptr boot_chunk = 0xFFFFFFFF80100020"
  by (simp_all add: c_ptr_def c_addr_def boot_block_def boot_chunk_def kconst)

lemma heap_boot_block:
  "\<exists>s t. heap_init heap_boot = (Inr (), s) \<and> kalloc 100 s = Some (Inr 0xFFFFFFFF80100020, t)
     \<and> heap_ok boot_frames t [boot_block, boot_rest]"
proof -
  obtain s where s: "heap_init heap_boot = (Inr (), s)" "heap_ok boot_frames s [boot_chunk]" "hi_avail (heap s) = 0x3000"
    using heap_boot_ok by blast
  have r: "unat (round16 100) = 112" by (simp add: unat_round16)
  have le: "\<not> hi_avail (heap s) < round16 100" using s(3) r by (simp add: word_less_nat_alt)
  have "take_first 112 [boot_chunk] = Some (boot_chunk, [boot_block, boot_rest])"
    by (simp add: boot_chunk_def boot_block_def boot_rest_def fits_def cut_def)
  then show ?thesis using kalloc_run [OF s(2), of 100] s(1) le boot_ptr by (auto simp: r)
qed

text \<open>C6: \<open>krealloc\<close> refines resizing on the map of blocks: it answers with the null pointer and
  changes nothing, or the block it returns has at least the requested size and the common prefix of
  the old contents, the old pointer is released unless it is the same, and all other blocks are as
  before. A block in the last chunk is not to grow.\<close>

theorem krealloc_refines:
  assumes "heap_ok F s (xs @ c # ys)" "cused c" "0 < csize c" "0 < unat n" "unat n \<le> 2 ^ 64 - 32"
    and "ys \<noteq> [] \<or> unat (round16 n) \<le> csize c"
  shows "\<exists>p t. krealloc (c_ptr c) n s = Some (Inr p, t) \<and> unat n \<le> unat (round16 n)
     \<and> (if p = 0 then t = s
        else \<exists>ds. heap_ok F t ds \<and> resized (c_ptr c) p (unat (round16 n)) (heap_blocks s) (heap_blocks t))"
proof -
  have "unat n \<le> unat (round16 n)" using assms(5) by (intro round16_ge) simp
  moreover have "csize c < unat (round16 n) \<Longrightarrow> ys \<noteq> []" using assms(6) by auto
  ultimately show ?thesis using krealloc_run [OF assms(1-5)] by blast
qed

theorem krealloc_refines_witness:
  "\<exists>s t u p. heap_init heap_boot = (Inr (), s) \<and> kalloc 100 s = Some (Inr 0xFFFFFFFF80100020, t)
     \<and> krealloc 0xFFFFFFFF80100020 200 t = Some (Inr p, u)"
proof -
  obtain s t where s: "heap_init heap_boot = (Inr (), s)" "kalloc 100 s = Some (Inr 0xFFFFFFFF80100020, t)"
      "heap_ok boot_frames t [boot_block, boot_rest]" using heap_boot_block by blast
  have "\<exists>p u. krealloc (c_ptr boot_block) 200 t = Some (Inr p, u)"
    using krealloc_refines [of boot_frames t "[]" boot_block "[boot_rest]" 200] s(3)
    by (auto simp: boot_block_def)
  then show ?thesis using s(1,2) boot_ptr by auto
qed

text \<open>C39: growing a block in the last chunk of the list reads the flag of a next chunk that is not
  there: with nothing mapped at address 8 the kernel faults.\<close>

theorem krealloc_last_faults:
  assumes "heap_ok F s (xs @ [c])" "csize c < unat (round16 n)" "mmu_walk (mem s) (cr3 s) 8 = None"
  shows "krealloc (c_ptr c) n s = Some (Inl (PageFault 8), s)"
proof -
  note d = heap_okD [OF assms(1)]
  have b: "heap_lo s \<le> cpos c" "cpos c + 32 + csize c \<le> heap_hi s" using laid_bounds [OF d(5), of c] by auto
  have h: "header (mem s) c 0" using d(4) by (simp add: chain_append)
  note rd = chunk_reads [OF d(1,2) b h]
  have "canonical 8" by (simp add: canonical_def)
  then have "get_inuse 0 s = (Inl (PageFault 8), s)"
    using assms(3) by (simp add: get_inuse_def load8_def load_def translate_def monad)
  then have "extendChunkInPlace (c_ptr c) (round16 n) (c_addr c) s = (Inl (PageFault 8), s)"
    using rd by (simp add: extendChunkInPlace_def monad)
  moreover have "(of_nat (csize c) :: u64) < round16 n" using assms(2) b d(6) by (simp add: word_less_nat_alt)
  moreover have "c_ptr c \<noteq> 0" using c_ptr_nonzero(1) [OF assms(1), of c] by simp
  ultimately show ?thesis using rd(1) by (simp add: krealloc_def Let_def monad c_ptr_def)
qed

lemma boot_null_page:
  assumes "heap_init heap_boot = (Inr (), s)" "t = s\<lparr>mem := mem t\<rparr>" "same_out 0x100000 0x103000 (mem s) (mem t)"
  shows "mmu_walk (mem t) (cr3 t) 8 = None"
proof -
  obtain u where u: "heap_init heap_boot = (Inr (), u)" "heap_ok boot_frames u [boot_chunk]"
    "\<forall>x. unat x < 0x100000 \<or> 0x103000 \<le> unat x \<longrightarrow> mem u x = mem heap_boot x"
    using heap_init_run [of boot_frames heap_boot] heap_boot_region by (auto simp: boot_chunk_def)
  have su: "s = u" using assms(1) u(1) by simp
  have "cr3 t = cr3 s" by (subst assms(2)) simp
  then have root: "cr3 t AND PAGE_MASK = 0x22000"
    using heap_okD(1) [OF u(2)] su by (simp add: kmap_def boot_frames_def)
  have "same_out 0x100000 0x103000 (mem heap_boot) (mem t)"
    using u(3) assms(3) su by (simp add: same_out_def)
  from same_out_pread64 [OF this, of "0x22000"]
  have "pread64 (mem t) 0x22000 = pread64 (mem heap_boot) 0x22000" by simp
  also have "\<dots> = pread64 (word_mem boot_words) 0x22000"
    using same_out_pread64 [OF same_out_pwrite [of "0x26000" "0x26000" "replicate 64 0xFF" "0x26040" "word_mem boot_words"], of "0x22000"]
    by (simp add: heap_boot_def boot_machine_def)
  also have "\<dots> = 0" by (simp add: pread64_word_mem boot_words_def)
  finally show ?thesis by (simp add: mmu_walk_def root pml4_index_def slot_def next_table_def)
qed

theorem krealloc_last_faults_witness:
  "\<exists>s t. heap_init heap_boot = (Inr (), s) \<and> kalloc 0x2FE0 s = Some (Inr 0xFFFFFFFF80100020, t)
     \<and> krealloc 0xFFFFFFFF80100020 0x3000 t = Some (Inl (PageFault 8), t)"
proof -
  obtain s where s: "heap_init heap_boot = (Inr (), s)" "heap_ok boot_frames s [boot_chunk]" "hi_avail (heap s) = 0x3000"
    using heap_boot_ok by blast
  have r: "unat (round16 0x2FE0) = 0x2FE0" "unat (round16 0x3000) = 0x3000" by (simp_all add: unat_round16)
  have le: "\<not> hi_avail (heap s) < round16 0x2FE0" using s(3) r by (simp add: word_less_nat_alt)
  let ?c = "boot_chunk\<lparr>cused := True\<rparr>"
  have "take_first 0x2FE0 [boot_chunk] = Some (boot_chunk, [?c])" by (simp add: boot_chunk_def fits_def cut_def)
  then obtain t where t: "kalloc 0x2FE0 s = Some (Inr 0xFFFFFFFF80100020, t)" "heap_ok boot_frames t [?c]"
      "t = s\<lparr>mem := mem t\<rparr>" "same_out 0x100000 0x103000 (mem s) (mem t)"
    using kalloc_run [OF s(2), of "0x2FE0"] le boot_ptr by (auto simp: r boot_chunk_def)
  have p: "c_ptr ?c = 0xFFFFFFFF80100020" by (simp add: c_ptr_def c_addr_def boot_chunk_def kconst)
  have "krealloc (c_ptr ?c) 0x3000 t = Some (Inl (PageFault 8), t)"
    by (rule krealloc_last_faults [of boot_frames t "[]"])
      (use t(2) boot_null_page [OF s(1) t(3,4)] r in \<open>simp_all add: boot_chunk_def\<close>)
  then show ?thesis using s(1) t(1) p by auto
qed

lemma krealloc_null: "krealloc 0 n = kalloc n"
  by (simp add: krealloc_def kalloc_def round16_idem)

text \<open>C40: a request of almost the whole address space for a block of sixteen bytes is granted, if the
  next chunk is free: the size that is missing and the size of a header add up to zero. The pointer
  is returned and the header records a size of all but sixteen bytes of the address space.\<close>

theorem krealloc_wraps:
  assumes "heap_ok F s (xs @ c # d # ys)" "csize c = 16" "\<not> cused d" "2 ^ 64 - 32 < unat n" "unat n \<le> 2 ^ 64 - 16"
  shows "\<exists>t. krealloc (c_ptr c) n s = Some (Inr (c_ptr c), t) \<and> pread64 (mem t) (of_nat (cpos c)) = - 16"
proof -
  note e = heap_okD [OF assms(1)] and l = laid_splice2 [OF heap_okD(5) [OF assms(1)]]
  have "unat (round16 n) = unat (- 16 :: u64)" using assms(4,5) by (simp add: unat_round16)
  then have r: "round16 n = - 16" by (simp only: word_unat_eq_iff)
  have h: "header (mem s) c (c_addr d)" "header (mem s) d (first_addr ys 0)"
    using e(4) by (simp_all add: chain_append)
  have b: "cpos c + 32 + csize c \<le> heap_hi s" "heap_lo s \<le> cpos d" "cpos d + 32 \<le> heap_hi s" "cpos c + 32 \<le> heap_hi s"
    using l(4-6) by auto
  let ?p = "cpos c" and ?q = "cpos d" and ?e = "first_addr ys 0"
  define m1 where "m1 = pwrite64 (mem s) (of_nat ?q) (of_nat (csize d))"
  define m2 where "m2 = m1(of_nat (?q + 8) := 0)"
  define m3 where "m3 = pwrite64 m2 (of_nat (?q + 16)) ?e"
  define m4 where "m4 = pwrite64 m3 (of_nat ?p) (- 16)"
  define m5 where "m5 = pwrite64 m4 (of_nat (?p + 16)) (c_addr d)"
  have k1: "kwin F (s\<lparr>mem := m1\<rparr>)" using header_kwin(1) [OF e(1,2) b(2,3)] by (simp add: m1_def)
  have k2: "kwin F (s\<lparr>mem := m2\<rparr>)" using header_kwin(2) [OF k1 e(2) b(2,3), of 0] by (simp add: m2_def)
  have k3: "kwin F (s\<lparr>mem := m3\<rparr>)" using header_kwin(3) [OF k2 e(2) b(2,3)] by (simp add: m3_def)
  have k4: "kwin F (s\<lparr>mem := m4\<rparr>)" using header_kwin(1) [OF k3 e(2) l(6) b(4)] by (simp add: m4_def)
  note rd = chunk_reads [OF e(1,2) l(6) b(1) h(1)] chunk_reads [OF e(1,2) b(2) l(5) h(2)]
  have h3: "header m2 d ?e" "header m3 c (c_addr d)"
    using h l assms(3) e(6) by (auto simp: header_def m1_def m2_def m3_def nat_mem simp del: of_nat_add)
  have g: "get_next (c_addr d) (s\<lparr>mem := m2\<rparr>) = (Inr ?e, s\<lparr>mem := m2\<rparr>)"
    "get_size (c_addr c) (s\<lparr>mem := m3\<rparr>) = (Inr 16, s\<lparr>mem := m3\<rparr>)"
    using chunk_reads(3) [OF k2 e(2) b(2) l(5), of ?e] chunk_reads(1) [OF k3 e(2) l(6) b(1), of "c_addr d"] h3 assms(2)
    by simp_all
  have w: "set_size (c_addr d) (of_nat (csize d)) s = (Inr (), s\<lparr>mem := m1\<rparr>)"
    "set_inuse (c_addr d) False (s\<lparr>mem := m1\<rparr>) = (Inr (), s\<lparr>mem := m2\<rparr>)"
    "set_next (c_addr d) ?e (s\<lparr>mem := m2\<rparr>) = (Inr (), s\<lparr>mem := m3\<rparr>)"
    "set_size (c_addr c) (- 16) (s\<lparr>mem := m3\<rparr>) = (Inr (), s\<lparr>mem := m4\<rparr>)"
    "set_next (c_addr c) (c_addr d) (s\<lparr>mem := m4\<rparr>) = (Inr (), s\<lparr>mem := m5\<rparr>)"
    using header_access(4) [OF e(1,2) b(2,3)] header_access(5) [OF k1 e(2) b(2,3), of False]
      header_access(6) [OF k2 e(2) b(2,3)] header_access(4) [OF k3 e(2) l(6) b(4)] header_access(6) [OF k4 e(2) l(6) b(4)]
    by (simp_all add: c_addr_def m1_def m2_def m3_def m4_def m5_def)
  have ext: "extendChunkInPlace p (- 16) (c_addr c) s = (Inr (c_ptr c), s\<lparr>mem := m5\<rparr>)" for p
    unfolding extendChunkInPlace_def
    using rd g w assms(2,3) by (simp add: monad Let_def kconst c_ptr_def)
  have "c_ptr c \<noteq> 0" using c_ptr_nonzero(1) [OF assms(1), of c] by simp
  moreover have "c_ptr c - CHUNK = c_addr c" by (simp add: c_ptr_def)
  ultimately have "krealloc (c_ptr c) n s = Some (Inr (c_ptr c), s\<lparr>mem := m5\<rparr>)"
    using rd(1) assms(2) ext by (simp add: krealloc_def Let_def monad r)
  moreover have "pread64 m5 (of_nat ?p) = - 16"
    using b e(6) by (simp add: m5_def m4_def nat_mem del: of_nat_add)
  ultimately show ?thesis by auto
qed

theorem krealloc_wraps_witness:
  "\<exists>s t u. heap_init heap_boot = (Inr (), s) \<and> kalloc 10 s = Some (Inr 0xFFFFFFFF80100020, t)
     \<and> krealloc 0xFFFFFFFF80100020 0xFFFFFFFFFFFFFFF0 t = Some (Inr 0xFFFFFFFF80100020, u)"
proof -
  obtain s where s: "heap_init heap_boot = (Inr (), s)" "heap_ok boot_frames s [boot_chunk]" "hi_avail (heap s) = 0x3000"
    using heap_boot_ok by blast
  have r: "unat (round16 10) = 16" by (simp add: unat_round16)
  have le: "\<not> hi_avail (heap s) < round16 10" using s(3) r by (simp add: word_less_nat_alt)
  let ?c = "\<lparr>cpos = 0x100000, csize = 16, cused = True\<rparr>" and ?d = "\<lparr>cpos = 0x100030, csize = 0x2FB0, cused = False\<rparr>"
  have "take_first 16 [boot_chunk] = Some (boot_chunk, [?c, ?d])" by (simp add: boot_chunk_def fits_def cut_def)
  then obtain t where t: "kalloc 10 s = Some (Inr 0xFFFFFFFF80100020, t)" "heap_ok boot_frames t [?c, ?d]"
    using kalloc_run [OF s(2), of 10] le boot_ptr by (auto simp: r)
  have "c_ptr ?c = 0xFFFFFFFF80100020" by (simp add: c_ptr_def c_addr_def kconst)
  then show ?thesis
    using krealloc_wraps [of boot_frames t "[]" ?c ?d "[]" "0xFFFFFFFFFFFFFFF0"] t s(1) by auto
qed

end
