(* ===== verification/Elf_Format.thy ===== *)
theory Elf_Format
  imports Prelude
begin

text \<open>
  The ELF format as \<open>headers/elf.h\<close> defines it, up to its processor-specific parts: the names of
  the C types, the tables of the legal values of each field in the order of the header, the macros
  that pack two numbers into one field, and the contract of a structure laid out in bytes. The
  structures themselves are in the theories \<open>Elf64\<close> and \<open>Elf32\<close>.
\<close>

section \<open>Types\<close>

type_synonym Elf32_Half = u16
type_synonym Elf64_Half = u16
type_synonym Elf32_Word = u32
type_synonym Elf32_Sword = u32
type_synonym Elf64_Word = u32
type_synonym Elf64_Sword = u32
type_synonym Elf32_Xword = u64
type_synonym Elf32_Sxword = u64
type_synonym Elf64_Xword = u64
type_synonym Elf64_Sxword = u64
type_synonym Elf32_Addr = u32
type_synonym Elf64_Addr = u64
type_synonym Elf32_Off = u32
type_synonym Elf64_Off = u64
type_synonym Elf32_Section = u16
type_synonym Elf64_Section = u16
type_synonym Elf32_Versym = Elf32_Half
type_synonym Elf64_Versym = Elf64_Half
type_synonym Elf32_Relr = Elf32_Word
type_synonym Elf64_Relr = Elf64_Xword

section \<open>Structures in bytes\<close>

text \<open>The little-endian field of \<open>n\<close> bytes at offset \<open>k\<close>.\<close>

definition field :: "nat \<Rightarrow> nat \<Rightarrow> u8 list \<Rightarrow> 'a::len word" where
  "field k n bs = le_word (take n (drop k bs))"

named_theorems elf_layout

lemma le_word_bytes [simp]:
  "le_word (le_bytes 1 w) = (w :: u8)" "le_word (le_bytes (Suc 0) w) = (w :: u8)"
  "le_word (le_bytes 2 w1) = (w1 :: u16)" "le_word (le_bytes 4 w2) = (w2 :: u32)"
  "le_word (le_bytes 8 w3) = (w3 :: u64)"
  using le_word_le_bytes [of 1 w] by (simp_all add: le_word_le_bytes)

lemma le_bytes_field:
  assumes "k + n \<le> length bs" "LENGTH('a) = 8 * n"
  shows "le_bytes n (field k n bs :: 'a::len word) = take n (drop k bs)"
proof -
  have "length (take n (drop k bs)) = n" using assms(1) by simp
  then show ?thesis using le_bytes_le_word [of "take n (drop k bs)", where 'a = 'a] assms(2)
    by (simp add: field_def)
qed

lemma bytes_field [elf_layout]:
  "Suc k \<le> length bs \<Longrightarrow> [field k (Suc 0) bs :: u8] = take (Suc 0) (drop k bs)"
  "k + 2 \<le> length bs \<Longrightarrow> le_bytes 2 (field k 2 bs :: u16) = take 2 (drop k bs)"
  "k + 4 \<le> length bs \<Longrightarrow> le_bytes 4 (field k 4 bs :: u32) = take 4 (drop k bs)"
  "k + 8 \<le> length bs \<Longrightarrow> le_bytes 8 (field k 8 bs :: u64) = take 8 (drop k bs)"
  using le_bytes_field [of k 1 bs, where 'a = 8] by (simp_all add: le_bytes_field)

lemma field_skip [elf_layout]:
  "length xs \<le> k \<Longrightarrow> field k n (xs @ ys) = field (k - length xs) n ys"
  "0 < k \<Longrightarrow> field k n (x # ys) = field (k - 1) n ys"
  by (simp_all add: field_def drop_Cons')

lemma field_hit [elf_layout]:
  "field 0 (Suc 0) (x # ys) = (x :: u8)"
  "field 0 2 (le_bytes 2 w1 @ ys) = (w1 :: u16)" "field 0 2 (le_bytes 2 w1) = (w1 :: u16)"
  "field 0 4 (le_bytes 4 w2 @ ys) = (w2 :: u32)" "field 0 4 (le_bytes 4 w2) = (w2 :: u32)"
  "field 0 8 (le_bytes 8 w3 @ ys) = (w3 :: u64)" "field 0 8 (le_bytes 8 w3) = (w3 :: u64)"
  by (simp_all add: field_def)

lemma take_join [elf_layout]: "k' = k + a \<Longrightarrow> take a (drop k bs) @ drop k' bs = drop k bs"
  using append_take_drop_id [of a "drop k bs"] by (simp add: add.commute)

text \<open>A structure type with its encoding in bytes and the reading of its fields. Reading back an
  encoded structure gives the structure, whatever follows it, so a table of structures can be read
  entry by entry. A structure without padding is determined by its bytes and conversely.\<close>

definition decode_array :: "(u8 list \<Rightarrow> 'a) \<Rightarrow> nat \<Rightarrow> nat \<Rightarrow> u8 list \<Rightarrow> 'a list" where
  "decode_array decode size_of n bs = map (\<lambda>i. decode (drop (i * size_of) bs)) [0..<n]"

locale binary_format =
  fixes wf :: "'a \<Rightarrow> bool" and encode :: "'a \<Rightarrow> u8 list" and decode :: "u8 list \<Rightarrow> 'a" and size_of :: nat
  assumes length_encode: "wf h \<Longrightarrow> length (encode h) = size_of"
    and decode_encode: "wf h \<Longrightarrow> decode (encode h @ rest) = h"
begin

lemma encode_inj: "wf g \<Longrightarrow> wf h \<Longrightarrow> encode g = encode h \<Longrightarrow> g = h"
  using decode_encode [of g "[]"] decode_encode [of h "[]"] by simp

lemma array_roundtrip:
  "\<forall>h\<in>set hs. wf h \<Longrightarrow>
     decode_array decode size_of (length hs) (concat (map encode hs) @ rest) = hs"
proof (induction hs)
  case (Cons h hs)
  then show ?case
    by (simp add: decode_array_def upt_conv_Cons map_Suc_upt [symmetric] decode_encode length_encode
        o_def del: upt_Suc map_Suc_upt)
qed (simp add: decode_array_def)

end

locale exact_format = binary_format +
  assumes decode_wf: "length bs = size_of \<Longrightarrow> wf (decode bs)"
    and encode_decode: "length bs = size_of \<Longrightarrow> encode (decode bs) = bs"
begin

lemma bytes_iff: "length bs = size_of \<Longrightarrow> wf h \<Longrightarrow> bs = encode h \<longleftrightarrow> decode bs = h"
  using decode_encode [of h "[]"] encode_decode by auto

end

section \<open>The values of the fields\<close>

text \<open>A value by its name in the header.\<close>

definition elf_val :: "(string \<times> int) list \<Rightarrow> string \<Rightarrow> int" where
  "elf_val table name = (case map_of table name of Some v \<Rightarrow> v | None \<Rightarrow> 0)"

definition EI_NIDENT :: int where "EI_NIDENT = 16"
definition ELFMAG :: "u8 list" where "ELFMAG = [0x7F, 0x45, 0x4C, 0x46]"
definition STN_UNDEF :: int where "STN_UNDEF = 0"
definition PN_XNUM :: int where "PN_XNUM = 0xFFFF"
definition ELF_NOTE_SOLARIS :: string where "ELF_NOTE_SOLARIS = ''SUNW Solaris''"
definition ELF_NOTE_GNU :: string where "ELF_NOTE_GNU = ''GNU''"
definition ELF_NOTE_FDO :: string where "ELF_NOTE_FDO = ''FDO''"
definition NOTE_GNU_PROPERTY_SECTION_NAME :: string where
  "NOTE_GNU_PROPERTY_SECTION_NAME = ''.note.gnu.property''"

text \<open>The identification bytes: the indices into \<open>e_ident\<close> and the values of the bytes.\<close>

definition EI_table :: "(string \<times> int) list" where
  "EI_table =
    [(''EI_MAG0'', 0), (''ELFMAG0'', 0x7F), (''EI_MAG1'', 1), (''ELFMAG1'', 69), (''EI_MAG2'', 2),
     (''ELFMAG2'', 76), (''EI_MAG3'', 3), (''ELFMAG3'', 70), (''SELFMAG'', 4), (''EI_CLASS'', 4),
     (''ELFCLASSNONE'', 0), (''ELFCLASS32'', 1), (''ELFCLASS64'', 2), (''ELFCLASSNUM'', 3), (''EI_DATA'', 5),
     (''ELFDATANONE'', 0), (''ELFDATA2LSB'', 1), (''ELFDATA2MSB'', 2), (''ELFDATANUM'', 3),
     (''EI_VERSION'', 6), (''EI_OSABI'', 7), (''ELFOSABI_NONE'', 0), (''ELFOSABI_SYSV'', 0),
     (''ELFOSABI_HPUX'', 1), (''ELFOSABI_NETBSD'', 2), (''ELFOSABI_GNU'', 3), (''ELFOSABI_LINUX'', 3),
     (''ELFOSABI_SOLARIS'', 6), (''ELFOSABI_AIX'', 7), (''ELFOSABI_IRIX'', 8), (''ELFOSABI_FREEBSD'', 9),
     (''ELFOSABI_TRU64'', 10), (''ELFOSABI_MODESTO'', 11), (''ELFOSABI_OPENBSD'', 12),
     (''ELFOSABI_ARM_AEABI'', 64), (''ELFOSABI_ARM'', 97), (''ELFOSABI_STANDALONE'', 255),
     (''EI_ABIVERSION'', 8), (''EI_PAD'', 9)]"

text \<open>Object file types, \<open>e_type\<close>.\<close>

definition ET_table :: "(string \<times> int) list" where
  "ET_table =
    [(''ET_NONE'', 0), (''ET_REL'', 1), (''ET_EXEC'', 2), (''ET_DYN'', 3), (''ET_CORE'', 4), (''ET_NUM'', 5),
     (''ET_LOOS'', 0xFE00), (''ET_HIOS'', 0xFEFF), (''ET_LOPROC'', 0xFF00), (''ET_HIPROC'', 0xFFFF)]"

text \<open>Architectures, \<open>e_machine\<close>, up to the reserved numbers 121 to 130.\<close>

definition EM_table_low :: "(string \<times> int) list" where
  "EM_table_low =
    [(''EM_NONE'', 0), (''EM_M32'', 1), (''EM_SPARC'', 2), (''EM_386'', 3), (''EM_68K'', 4), (''EM_88K'', 5),
     (''EM_IAMCU'', 6), (''EM_860'', 7), (''EM_MIPS'', 8), (''EM_S370'', 9), (''EM_MIPS_RS3_LE'', 10),
     (''EM_PARISC'', 15), (''EM_VPP500'', 17), (''EM_SPARC32PLUS'', 18), (''EM_960'', 19), (''EM_PPC'', 20),
     (''EM_PPC64'', 21), (''EM_S390'', 22), (''EM_SPU'', 23), (''EM_V800'', 36), (''EM_FR20'', 37),
     (''EM_RH32'', 38), (''EM_RCE'', 39), (''EM_ARM'', 40), (''EM_FAKE_ALPHA'', 41), (''EM_SH'', 42),
     (''EM_SPARCV9'', 43), (''EM_TRICORE'', 44), (''EM_ARC'', 45), (''EM_H8_300'', 46), (''EM_H8_300H'', 47),
     (''EM_H8S'', 48), (''EM_H8_500'', 49), (''EM_IA_64'', 50), (''EM_MIPS_X'', 51), (''EM_COLDFIRE'', 52),
     (''EM_68HC12'', 53), (''EM_MMA'', 54), (''EM_PCP'', 55), (''EM_NCPU'', 56), (''EM_NDR1'', 57),
     (''EM_STARCORE'', 58), (''EM_ME16'', 59), (''EM_ST100'', 60), (''EM_TINYJ'', 61), (''EM_X86_64'', 62),
     (''EM_PDSP'', 63), (''EM_PDP10'', 64), (''EM_PDP11'', 65), (''EM_FX66'', 66), (''EM_ST9PLUS'', 67),
     (''EM_ST7'', 68), (''EM_68HC16'', 69), (''EM_68HC11'', 70), (''EM_68HC08'', 71), (''EM_68HC05'', 72),
     (''EM_SVX'', 73), (''EM_ST19'', 74), (''EM_VAX'', 75), (''EM_CRIS'', 76), (''EM_JAVELIN'', 77),
     (''EM_FIREPATH'', 78), (''EM_ZSP'', 79), (''EM_MMIX'', 80), (''EM_HUANY'', 81), (''EM_PRISM'', 82),
     (''EM_AVR'', 83), (''EM_FR30'', 84), (''EM_D10V'', 85), (''EM_D30V'', 86), (''EM_V850'', 87),
     (''EM_M32R'', 88), (''EM_MN10300'', 89), (''EM_MN10200'', 90), (''EM_PJ'', 91), (''EM_OPENRISC'', 92),
     (''EM_ARC_COMPACT'', 93), (''EM_XTENSA'', 94), (''EM_VIDEOCORE'', 95), (''EM_TMM_GPP'', 96),
     (''EM_NS32K'', 97), (''EM_TPC'', 98), (''EM_SNP1K'', 99), (''EM_ST200'', 100), (''EM_IP2K'', 101),
     (''EM_MAX'', 102), (''EM_CR'', 103), (''EM_F2MC16'', 104), (''EM_MSP430'', 105), (''EM_BLACKFIN'', 106),
     (''EM_SE_C33'', 107), (''EM_SEP'', 108), (''EM_ARCA'', 109), (''EM_UNICORE'', 110), (''EM_EXCESS'', 111),
     (''EM_DXP'', 112), (''EM_ALTERA_NIOS2'', 113), (''EM_CRX'', 114), (''EM_XGATE'', 115),
     (''EM_C166'', 116), (''EM_M16C'', 117), (''EM_DSPIC30F'', 118), (''EM_CE'', 119), (''EM_M32C'', 120)]"

text \<open>The architectures after them, the old spellings and the unofficial numbers.\<close>

definition EM_table_high :: "(string \<times> int) list" where
  "EM_table_high =
    [(''EM_TSK3000'', 131), (''EM_RS08'', 132), (''EM_SHARC'', 133), (''EM_ECOG2'', 134),
     (''EM_SCORE7'', 135), (''EM_DSP24'', 136), (''EM_VIDEOCORE3'', 137), (''EM_LATTICEMICO32'', 138),
     (''EM_SE_C17'', 139), (''EM_TI_C6000'', 140), (''EM_TI_C2000'', 141), (''EM_TI_C5500'', 142),
     (''EM_TI_ARP32'', 143), (''EM_TI_PRU'', 144), (''EM_MMDSP_PLUS'', 160), (''EM_CYPRESS_M8C'', 161),
     (''EM_R32C'', 162), (''EM_TRIMEDIA'', 163), (''EM_QDSP6'', 164), (''EM_8051'', 165),
     (''EM_STXP7X'', 166), (''EM_NDS32'', 167), (''EM_ECOG1X'', 168), (''EM_MAXQ30'', 169),
     (''EM_XIMO16'', 170), (''EM_MANIK'', 171), (''EM_CRAYNV2'', 172), (''EM_RX'', 173), (''EM_METAG'', 174),
     (''EM_MCST_ELBRUS'', 175), (''EM_ECOG16'', 176), (''EM_CR16'', 177), (''EM_ETPU'', 178),
     (''EM_SLE9X'', 179), (''EM_L10M'', 180), (''EM_K10M'', 181), (''EM_AARCH64'', 183), (''EM_AVR32'', 185),
     (''EM_STM8'', 186), (''EM_TILE64'', 187), (''EM_TILEPRO'', 188), (''EM_MICROBLAZE'', 189),
     (''EM_CUDA'', 190), (''EM_TILEGX'', 191), (''EM_CLOUDSHIELD'', 192), (''EM_COREA_1ST'', 193),
     (''EM_COREA_2ND'', 194), (''EM_ARCV2'', 195), (''EM_OPEN8'', 196), (''EM_RL78'', 197),
     (''EM_VIDEOCORE5'', 198), (''EM_78KOR'', 199), (''EM_56800EX'', 200), (''EM_BA1'', 201),
     (''EM_BA2'', 202), (''EM_XCORE'', 203), (''EM_MCHP_PIC'', 204), (''EM_INTELGT'', 205),
     (''EM_KM32'', 210), (''EM_KMX32'', 211), (''EM_EMX16'', 212), (''EM_EMX8'', 213), (''EM_KVARC'', 214),
     (''EM_CDP'', 215), (''EM_COGE'', 216), (''EM_COOL'', 217), (''EM_NORC'', 218), (''EM_CSR_KALIMBA'', 219),
     (''EM_Z80'', 220), (''EM_VISIUM'', 221), (''EM_FT32'', 222), (''EM_MOXIE'', 223), (''EM_AMDGPU'', 224),
     (''EM_RISCV'', 243), (''EM_BPF'', 247), (''EM_CSKY'', 252), (''EM_LOONGARCH'', 258), (''EM_NUM'', 259),
     (''EM_ARC_A5'', 93), (''EM_ALPHA'', 0x9026)]"

text \<open>File versions.\<close>

definition EV_table :: "(string \<times> int) list" where
  "EV_table =
    [(''EV_NONE'', 0), (''EV_CURRENT'', 1), (''EV_NUM'', 2)]"

text \<open>Special section indices.\<close>

definition SHN_table :: "(string \<times> int) list" where
  "SHN_table =
    [(''SHN_UNDEF'', 0), (''SHN_LORESERVE'', 0xFF00), (''SHN_LOPROC'', 0xFF00), (''SHN_BEFORE'', 0xFF00),
     (''SHN_AFTER'', 0xFF01), (''SHN_HIPROC'', 0xFF1F), (''SHN_LOOS'', 0xFF20), (''SHN_HIOS'', 0xFF3F),
     (''SHN_ABS'', 0xFFF1), (''SHN_COMMON'', 0xFFF2), (''SHN_XINDEX'', 0xFFFF), (''SHN_HIRESERVE'', 0xFFFF)]"

text \<open>Section types.\<close>

definition SHT_table :: "(string \<times> int) list" where
  "SHT_table =
    [(''SHT_NULL'', 0), (''SHT_PROGBITS'', 1), (''SHT_SYMTAB'', 2), (''SHT_STRTAB'', 3), (''SHT_RELA'', 4),
     (''SHT_HASH'', 5), (''SHT_DYNAMIC'', 6), (''SHT_NOTE'', 7), (''SHT_NOBITS'', 8), (''SHT_REL'', 9),
     (''SHT_SHLIB'', 10), (''SHT_DYNSYM'', 11), (''SHT_INIT_ARRAY'', 14), (''SHT_FINI_ARRAY'', 15),
     (''SHT_PREINIT_ARRAY'', 16), (''SHT_GROUP'', 17), (''SHT_SYMTAB_SHNDX'', 18), (''SHT_RELR'', 19),
     (''SHT_NUM'', 20), (''SHT_LOOS'', 0x60000000), (''SHT_GNU_ATTRIBUTES'', 0x6FFFFFF5),
     (''SHT_GNU_HASH'', 0x6FFFFFF6), (''SHT_GNU_LIBLIST'', 0x6FFFFFF7), (''SHT_CHECKSUM'', 0x6FFFFFF8),
     (''SHT_LOSUNW'', 0x6FFFFFFA), (''SHT_SUNW_move'', 0x6FFFFFFA), (''SHT_SUNW_COMDAT'', 0x6FFFFFFB),
     (''SHT_SUNW_syminfo'', 0x6FFFFFFC), (''SHT_GNU_verdef'', 0x6FFFFFFD), (''SHT_GNU_verneed'', 0x6FFFFFFE),
     (''SHT_GNU_versym'', 0x6FFFFFFF), (''SHT_HISUNW'', 0x6FFFFFFF), (''SHT_HIOS'', 0x6FFFFFFF),
     (''SHT_LOPROC'', 0x70000000), (''SHT_HIPROC'', 0x7FFFFFFF), (''SHT_LOUSER'', 0x80000000),
     (''SHT_HIUSER'', 0x8FFFFFFF)]"

text \<open>Section flags.\<close>

definition SHF_table :: "(string \<times> int) list" where
  "SHF_table =
    [(''SHF_WRITE'', 1), (''SHF_ALLOC'', 2), (''SHF_EXECINSTR'', 4), (''SHF_MERGE'', 16),
     (''SHF_STRINGS'', 32), (''SHF_INFO_LINK'', 64), (''SHF_LINK_ORDER'', 128),
     (''SHF_OS_NONCONFORMING'', 256), (''SHF_GROUP'', 512), (''SHF_TLS'', 1024), (''SHF_COMPRESSED'', 2048),
     (''SHF_MASKOS'', 0xFF00000), (''SHF_MASKPROC'', 0xF0000000), (''SHF_GNU_RETAIN'', 2097152),
     (''SHF_ORDERED'', 1073741824), (''SHF_EXCLUDE'', 2147483648)]"

text \<open>Compression algorithms and the section group flag.\<close>

definition ELFCOMPRESS_table :: "(string \<times> int) list" where
  "ELFCOMPRESS_table =
    [(''ELFCOMPRESS_ZLIB'', 1), (''ELFCOMPRESS_ZSTD'', 2), (''ELFCOMPRESS_LOOS'', 0x60000000),
     (''ELFCOMPRESS_HIOS'', 0x6FFFFFFF), (''ELFCOMPRESS_LOPROC'', 0x70000000),
     (''ELFCOMPRESS_HIPROC'', 0x7FFFFFFF), (''GRP_COMDAT'', 0x1)]"

text \<open>Symbol information entries.\<close>

definition SYMINFO_table :: "(string \<times> int) list" where
  "SYMINFO_table =
    [(''SYMINFO_BT_SELF'', 0xFFFF), (''SYMINFO_BT_PARENT'', 0xFFFE), (''SYMINFO_BT_LOWRESERVE'', 0xFF00),
     (''SYMINFO_FLG_DIRECT'', 0x1), (''SYMINFO_FLG_PASSTHRU'', 0x2), (''SYMINFO_FLG_COPY'', 0x4),
     (''SYMINFO_FLG_LAZYLOAD'', 0x8), (''SYMINFO_NONE'', 0), (''SYMINFO_CURRENT'', 1), (''SYMINFO_NUM'', 2)]"

text \<open>Symbol bindings.\<close>

definition STB_table :: "(string \<times> int) list" where
  "STB_table =
    [(''STB_LOCAL'', 0), (''STB_GLOBAL'', 1), (''STB_WEAK'', 2), (''STB_NUM'', 3), (''STB_LOOS'', 10),
     (''STB_GNU_UNIQUE'', 10), (''STB_HIOS'', 12), (''STB_LOPROC'', 13), (''STB_HIPROC'', 15)]"

text \<open>Symbol types.\<close>

definition STT_table :: "(string \<times> int) list" where
  "STT_table =
    [(''STT_NOTYPE'', 0), (''STT_OBJECT'', 1), (''STT_FUNC'', 2), (''STT_SECTION'', 3), (''STT_FILE'', 4),
     (''STT_COMMON'', 5), (''STT_TLS'', 6), (''STT_NUM'', 7), (''STT_LOOS'', 10), (''STT_GNU_IFUNC'', 10),
     (''STT_HIOS'', 12), (''STT_LOPROC'', 13), (''STT_HIPROC'', 15)]"

text \<open>Symbol visibility.\<close>

definition STV_table :: "(string \<times> int) list" where
  "STV_table =
    [(''STV_DEFAULT'', 0), (''STV_INTERNAL'', 1), (''STV_HIDDEN'', 2), (''STV_PROTECTED'', 3)]"

text \<open>Segment types, \<open>p_type\<close>.\<close>

definition PT_table :: "(string \<times> int) list" where
  "PT_table =
    [(''PT_NULL'', 0), (''PT_LOAD'', 1), (''PT_DYNAMIC'', 2), (''PT_INTERP'', 3), (''PT_NOTE'', 4),
     (''PT_SHLIB'', 5), (''PT_PHDR'', 6), (''PT_TLS'', 7), (''PT_NUM'', 8), (''PT_LOOS'', 0x60000000),
     (''PT_GNU_EH_FRAME'', 0x6474E550), (''PT_GNU_STACK'', 0x6474E551), (''PT_GNU_RELRO'', 0x6474E552),
     (''PT_GNU_PROPERTY'', 0x6474E553), (''PT_GNU_SFRAME'', 0x6474E554), (''PT_LOSUNW'', 0x6FFFFFFA),
     (''PT_SUNWBSS'', 0x6FFFFFFA), (''PT_SUNWSTACK'', 0x6FFFFFFB), (''PT_HISUNW'', 0x6FFFFFFF),
     (''PT_HIOS'', 0x6FFFFFFF), (''PT_LOPROC'', 0x70000000), (''PT_HIPROC'', 0x7FFFFFFF)]"

text \<open>Segment flags, \<open>p_flags\<close>.\<close>

definition PF_table :: "(string \<times> int) list" where
  "PF_table =
    [(''PF_X'', 1), (''PF_W'', 2), (''PF_R'', 4), (''PF_MASKOS'', 0xFF00000), (''PF_MASKPROC'', 0xF0000000)]"

text \<open>Note types of core and object files.\<close>

definition NT_table :: "(string \<times> int) list" where
  "NT_table =
    [(''NT_PRSTATUS'', 1), (''NT_PRFPREG'', 2), (''NT_FPREGSET'', 2), (''NT_PRPSINFO'', 3),
     (''NT_PRXREG'', 4), (''NT_TASKSTRUCT'', 4), (''NT_PLATFORM'', 5), (''NT_AUXV'', 6), (''NT_GWINDOWS'', 7),
     (''NT_ASRS'', 8), (''NT_PSTATUS'', 10), (''NT_PSINFO'', 13), (''NT_PRCRED'', 14), (''NT_UTSNAME'', 15),
     (''NT_LWPSTATUS'', 16), (''NT_LWPSINFO'', 17), (''NT_PRFPXREG'', 20), (''NT_SIGINFO'', 0x53494749),
     (''NT_FILE'', 0x46494C45), (''NT_PRXFPREG'', 0x46E62B7F), (''NT_PPC_VMX'', 0x100),
     (''NT_PPC_SPE'', 0x101), (''NT_PPC_VSX'', 0x102), (''NT_PPC_TAR'', 0x103), (''NT_PPC_PPR'', 0x104),
     (''NT_PPC_DSCR'', 0x105), (''NT_PPC_EBB'', 0x106), (''NT_PPC_PMU'', 0x107), (''NT_PPC_TM_CGPR'', 0x108),
     (''NT_PPC_TM_CFPR'', 0x109), (''NT_PPC_TM_CVMX'', 0x10A), (''NT_PPC_TM_CVSX'', 0x10B),
     (''NT_PPC_TM_SPR'', 0x10C), (''NT_PPC_TM_CTAR'', 0x10D), (''NT_PPC_TM_CPPR'', 0x10E),
     (''NT_PPC_TM_CDSCR'', 0x10F), (''NT_PPC_PKEY'', 0x110), (''NT_PPC_DEXCR'', 0x111),
     (''NT_PPC_HASHKEYR'', 0x112), (''NT_386_TLS'', 0x200), (''NT_386_IOPERM'', 0x201),
     (''NT_X86_XSTATE'', 0x202), (''NT_X86_SHSTK'', 0x204), (''NT_S390_HIGH_GPRS'', 0x300),
     (''NT_S390_TIMER'', 0x301), (''NT_S390_TODCMP'', 0x302), (''NT_S390_TODPREG'', 0x303),
     (''NT_S390_CTRS'', 0x304), (''NT_S390_PREFIX'', 0x305), (''NT_S390_LAST_BREAK'', 0x306),
     (''NT_S390_SYSTEM_CALL'', 0x307), (''NT_S390_TDB'', 0x308), (''NT_S390_VXRS_LOW'', 0x309),
     (''NT_S390_VXRS_HIGH'', 0x30A), (''NT_S390_GS_CB'', 0x30B), (''NT_S390_GS_BC'', 0x30C),
     (''NT_S390_RI_CB'', 0x30D), (''NT_S390_PV_CPU_DATA'', 0x30E), (''NT_ARM_VFP'', 0x400),
     (''NT_ARM_TLS'', 0x401), (''NT_ARM_HW_BREAK'', 0x402), (''NT_ARM_HW_WATCH'', 0x403),
     (''NT_ARM_SYSTEM_CALL'', 0x404), (''NT_ARM_SVE'', 0x405), (''NT_ARM_PAC_MASK'', 0x406),
     (''NT_ARM_PACA_KEYS'', 0x407), (''NT_ARM_PACG_KEYS'', 0x408), (''NT_ARM_TAGGED_ADDR_CTRL'', 0x409),
     (''NT_ARM_PAC_ENABLED_KEYS'', 0x40A), (''NT_VMCOREDD'', 0x700), (''NT_MIPS_DSP'', 0x800),
     (''NT_MIPS_FP_MODE'', 0x801), (''NT_MIPS_MSA'', 0x802), (''NT_RISCV_CSR'', 0x900),
     (''NT_RISCV_VECTOR'', 0x901), (''NT_LOONGARCH_CPUCFG'', 0xA00), (''NT_LOONGARCH_CSR'', 0xA01),
     (''NT_LOONGARCH_LSX'', 0xA02), (''NT_LOONGARCH_LASX'', 0xA03), (''NT_LOONGARCH_LBT'', 0xA04),
     (''NT_LOONGARCH_HW_BREAK'', 0xA05), (''NT_LOONGARCH_HW_WATCH'', 0xA06), (''NT_VERSION'', 1)]"

text \<open>Dynamic section tags.\<close>

definition DT_table :: "(string \<times> int) list" where
  "DT_table =
    [(''DT_NULL'', 0), (''DT_NEEDED'', 1), (''DT_PLTRELSZ'', 2), (''DT_PLTGOT'', 3), (''DT_HASH'', 4),
     (''DT_STRTAB'', 5), (''DT_SYMTAB'', 6), (''DT_RELA'', 7), (''DT_RELASZ'', 8), (''DT_RELAENT'', 9),
     (''DT_STRSZ'', 10), (''DT_SYMENT'', 11), (''DT_INIT'', 12), (''DT_FINI'', 13), (''DT_SONAME'', 14),
     (''DT_RPATH'', 15), (''DT_SYMBOLIC'', 16), (''DT_REL'', 17), (''DT_RELSZ'', 18), (''DT_RELENT'', 19),
     (''DT_PLTREL'', 20), (''DT_DEBUG'', 21), (''DT_TEXTREL'', 22), (''DT_JMPREL'', 23),
     (''DT_BIND_NOW'', 24), (''DT_INIT_ARRAY'', 25), (''DT_FINI_ARRAY'', 26), (''DT_INIT_ARRAYSZ'', 27),
     (''DT_FINI_ARRAYSZ'', 28), (''DT_RUNPATH'', 29), (''DT_FLAGS'', 30), (''DT_ENCODING'', 32),
     (''DT_PREINIT_ARRAY'', 32), (''DT_PREINIT_ARRAYSZ'', 33), (''DT_SYMTAB_SHNDX'', 34), (''DT_RELRSZ'', 35),
     (''DT_RELR'', 36), (''DT_RELRENT'', 37), (''DT_NUM'', 38), (''DT_LOOS'', 0x6000000D),
     (''DT_HIOS'', 0x6FFFF000), (''DT_LOPROC'', 0x70000000), (''DT_HIPROC'', 0x7FFFFFFF), (''DT_PROCNUM'', 55)]"

text \<open>Tags of the value range.\<close>

definition DT_val_table :: "(string \<times> int) list" where
  "DT_val_table =
    [(''DT_VALRNGLO'', 0x6FFFFD00), (''DT_GNU_PRELINKED'', 0x6FFFFDF5), (''DT_GNU_CONFLICTSZ'', 0x6FFFFDF6),
     (''DT_GNU_LIBLISTSZ'', 0x6FFFFDF7), (''DT_CHECKSUM'', 0x6FFFFDF8), (''DT_PLTPADSZ'', 0x6FFFFDF9),
     (''DT_MOVEENT'', 0x6FFFFDFA), (''DT_MOVESZ'', 0x6FFFFDFB), (''DT_FEATURE_1'', 0x6FFFFDFC),
     (''DT_POSFLAG_1'', 0x6FFFFDFD), (''DT_SYMINSZ'', 0x6FFFFDFE), (''DT_SYMINENT'', 0x6FFFFDFF),
     (''DT_VALRNGHI'', 0x6FFFFDFF), (''DT_VALNUM'', 12)]"

text \<open>Tags of the address range.\<close>

definition DT_addr_table :: "(string \<times> int) list" where
  "DT_addr_table =
    [(''DT_ADDRRNGLO'', 0x6FFFFE00), (''DT_GNU_HASH'', 0x6FFFFEF5), (''DT_TLSDESC_PLT'', 0x6FFFFEF6),
     (''DT_TLSDESC_GOT'', 0x6FFFFEF7), (''DT_GNU_CONFLICT'', 0x6FFFFEF8), (''DT_GNU_LIBLIST'', 0x6FFFFEF9),
     (''DT_CONFIG'', 0x6FFFFEFA), (''DT_DEPAUDIT'', 0x6FFFFEFB), (''DT_AUDIT'', 0x6FFFFEFC),
     (''DT_PLTPAD'', 0x6FFFFEFD), (''DT_MOVETAB'', 0x6FFFFEFE), (''DT_SYMINFO'', 0x6FFFFEFF),
     (''DT_ADDRRNGHI'', 0x6FFFFEFF), (''DT_ADDRNUM'', 11)]"

text \<open>Versioning tags and the machine-independent extensions.\<close>

definition DT_version_table :: "(string \<times> int) list" where
  "DT_version_table =
    [(''DT_VERSYM'', 0x6FFFFFF0), (''DT_RELACOUNT'', 0x6FFFFFF9), (''DT_RELCOUNT'', 0x6FFFFFFA),
     (''DT_FLAGS_1'', 0x6FFFFFFB), (''DT_VERDEF'', 0x6FFFFFFC), (''DT_VERDEFNUM'', 0x6FFFFFFD),
     (''DT_VERNEED'', 0x6FFFFFFE), (''DT_VERNEEDNUM'', 0x6FFFFFFF), (''DT_VERSIONTAGNUM'', 16),
     (''DT_AUXILIARY'', 0x7FFFFFFD), (''DT_FILTER'', 0x7FFFFFFF), (''DT_EXTRANUM'', 3)]"

text \<open>Flags of \<open>DT_FLAGS\<close>.\<close>

definition DF_table :: "(string \<times> int) list" where
  "DF_table =
    [(''DF_ORIGIN'', 0x1), (''DF_SYMBOLIC'', 0x2), (''DF_TEXTREL'', 0x4), (''DF_BIND_NOW'', 0x8),
     (''DF_STATIC_TLS'', 0x10)]"

text \<open>Flags of \<open>DT_FLAGS_1\<close>.\<close>

definition DF_1_table :: "(string \<times> int) list" where
  "DF_1_table =
    [(''DF_1_NOW'', 0x1), (''DF_1_GLOBAL'', 0x2), (''DF_1_GROUP'', 0x4), (''DF_1_NODELETE'', 0x8),
     (''DF_1_LOADFLTR'', 0x10), (''DF_1_INITFIRST'', 0x20), (''DF_1_NOOPEN'', 0x40), (''DF_1_ORIGIN'', 0x80),
     (''DF_1_DIRECT'', 0x100), (''DF_1_TRANS'', 0x200), (''DF_1_INTERPOSE'', 0x400),
     (''DF_1_NODEFLIB'', 0x800), (''DF_1_NODUMP'', 0x1000), (''DF_1_CONFALT'', 0x2000),
     (''DF_1_ENDFILTEE'', 0x4000), (''DF_1_DISPRELDNE'', 0x8000), (''DF_1_DISPRELPND'', 0x10000),
     (''DF_1_NODIRECT'', 0x20000), (''DF_1_IGNMULDEF'', 0x40000), (''DF_1_NOKSYMS'', 0x80000),
     (''DF_1_NOHDR'', 0x100000), (''DF_1_EDITED'', 0x200000), (''DF_1_NORELOC'', 0x400000),
     (''DF_1_SYMINTPOSE'', 0x800000), (''DF_1_GLOBAUDIT'', 0x1000000), (''DF_1_SINGLETON'', 0x2000000),
     (''DF_1_STUB'', 0x4000000), (''DF_1_PIE'', 0x8000000), (''DF_1_KMOD'', 0x10000000),
     (''DF_1_WEAKFILTER'', 0x20000000), (''DF_1_NOCOMMON'', 0x40000000)]"

text \<open>Flags of \<open>DT_FEATURE_1\<close> and \<open>DT_POSFLAG_1\<close>.\<close>

definition DF_P1_table :: "(string \<times> int) list" where
  "DF_P1_table =
    [(''DTF_1_PARINIT'', 0x1), (''DTF_1_CONFEXP'', 0x2), (''DF_P1_LAZYLOAD'', 0x1), (''DF_P1_GROUPPERM'', 0x2)]"

text \<open>Version definitions.\<close>

definition VER_DEF_table :: "(string \<times> int) list" where
  "VER_DEF_table =
    [(''VER_DEF_NONE'', 0), (''VER_DEF_CURRENT'', 1), (''VER_DEF_NUM'', 2), (''VER_FLG_BASE'', 0x1),
     (''VER_FLG_WEAK'', 0x2), (''VER_NDX_LOCAL'', 0), (''VER_NDX_GLOBAL'', 1),
     (''VER_NDX_LORESERVE'', 0xFF00), (''VER_NDX_ELIMINATE'', 0xFF01)]"

text \<open>Version needs.\<close>

definition VER_NEED_table :: "(string \<times> int) list" where
  "VER_NEED_table =
    [(''VER_NEED_NONE'', 0), (''VER_NEED_CURRENT'', 1), (''VER_NEED_NUM'', 2)]"

text \<open>Entries of the auxiliary vector.\<close>

definition AT_table :: "(string \<times> int) list" where
  "AT_table =
    [(''AT_NULL'', 0), (''AT_IGNORE'', 1), (''AT_EXECFD'', 2), (''AT_PHDR'', 3), (''AT_PHENT'', 4),
     (''AT_PHNUM'', 5), (''AT_PAGESZ'', 6), (''AT_BASE'', 7), (''AT_FLAGS'', 8), (''AT_ENTRY'', 9),
     (''AT_NOTELF'', 10), (''AT_UID'', 11), (''AT_EUID'', 12), (''AT_GID'', 13), (''AT_EGID'', 14),
     (''AT_CLKTCK'', 17), (''AT_PLATFORM'', 15), (''AT_HWCAP'', 16), (''AT_FPUCW'', 18),
     (''AT_DCACHEBSIZE'', 19), (''AT_ICACHEBSIZE'', 20), (''AT_UCACHEBSIZE'', 21), (''AT_IGNOREPPC'', 22),
     (''AT_SECURE'', 23), (''AT_BASE_PLATFORM'', 24), (''AT_RANDOM'', 25), (''AT_HWCAP2'', 26),
     (''AT_RSEQ_FEATURE_SIZE'', 27), (''AT_RSEQ_ALIGN'', 28), (''AT_HWCAP3'', 29), (''AT_HWCAP4'', 30),
     (''AT_EXECFN'', 31), (''AT_SYSINFO'', 32), (''AT_SYSINFO_EHDR'', 33), (''AT_L1I_CACHESHAPE'', 34),
     (''AT_L1D_CACHESHAPE'', 35), (''AT_L2_CACHESHAPE'', 36), (''AT_L3_CACHESHAPE'', 37),
     (''AT_L1I_CACHESIZE'', 40), (''AT_L1I_CACHEGEOMETRY'', 41), (''AT_L1D_CACHESIZE'', 42),
     (''AT_L1D_CACHEGEOMETRY'', 43), (''AT_L2_CACHESIZE'', 44), (''AT_L2_CACHEGEOMETRY'', 45),
     (''AT_L3_CACHESIZE'', 46), (''AT_L3_CACHEGEOMETRY'', 47), (''AT_MINSIGSTKSZ'', 51)]"

text \<open>Solaris and GNU note types.\<close>

definition NT_GNU_table :: "(string \<times> int) list" where
  "NT_GNU_table =
    [(''ELF_NOTE_PAGESIZE_HINT'', 1), (''NT_GNU_ABI_TAG'', 1), (''ELF_NOTE_ABI'', 1),
     (''ELF_NOTE_OS_LINUX'', 0), (''ELF_NOTE_OS_GNU'', 1), (''ELF_NOTE_OS_SOLARIS2'', 2),
     (''ELF_NOTE_OS_FREEBSD'', 3), (''NT_GNU_HWCAP'', 2), (''NT_GNU_BUILD_ID'', 3),
     (''NT_GNU_GOLD_VERSION'', 4), (''NT_GNU_PROPERTY_TYPE_0'', 5),
     (''NT_FDO_PACKAGING_METADATA'', 0xCAFE1A7E)]"

text \<open>GNU program properties.\<close>

definition GNU_PROPERTY_table :: "(string \<times> int) list" where
  "GNU_PROPERTY_table =
    [(''GNU_PROPERTY_STACK_SIZE'', 1), (''GNU_PROPERTY_NO_COPY_ON_PROTECTED'', 2),
     (''GNU_PROPERTY_UINT32_AND_LO'', 0xB0000000), (''GNU_PROPERTY_UINT32_AND_HI'', 0xB0007FFF),
     (''GNU_PROPERTY_UINT32_OR_LO'', 0xB0008000), (''GNU_PROPERTY_UINT32_OR_HI'', 0xB000FFFF),
     (''GNU_PROPERTY_1_NEEDED'', 2952822784), (''GNU_PROPERTY_1_NEEDED_INDIRECT_EXTERN_ACCESS'', 1),
     (''GNU_PROPERTY_LOPROC'', 0xC0000000), (''GNU_PROPERTY_HIPROC'', 0xDFFFFFFF),
     (''GNU_PROPERTY_LOUSER'', 0xE0000000), (''GNU_PROPERTY_HIUSER'', 0xFFFFFFFF),
     (''GNU_PROPERTY_AARCH64_FEATURE_1_AND'', 0xC0000000), (''GNU_PROPERTY_AARCH64_FEATURE_1_BTI'', 1),
     (''GNU_PROPERTY_AARCH64_FEATURE_1_PAC'', 2), (''GNU_PROPERTY_X86_ISA_1_USED'', 0xC0010002),
     (''GNU_PROPERTY_X86_ISA_1_NEEDED'', 0xC0008002), (''GNU_PROPERTY_X86_FEATURE_1_AND'', 0xC0000002),
     (''GNU_PROPERTY_X86_ISA_1_BASELINE'', 1), (''GNU_PROPERTY_X86_ISA_1_V2'', 2),
     (''GNU_PROPERTY_X86_ISA_1_V3'', 4), (''GNU_PROPERTY_X86_ISA_1_V4'', 8),
     (''GNU_PROPERTY_X86_FEATURE_1_IBT'', 1), (''GNU_PROPERTY_X86_FEATURE_1_SHSTK'', 2)]"

section \<open>Packed fields\<close>

definition ELF32_ST_BIND :: "u32 \<Rightarrow> u32" where "ELF32_ST_BIND val = ucast (drop_bit 4 (ucast val :: u8))"
definition ELF32_ST_TYPE :: "u32 \<Rightarrow> u32" where "ELF32_ST_TYPE val = val AND 0xF"
definition ELF32_ST_INFO :: "u32 \<Rightarrow> u32 \<Rightarrow> u32" where
  "ELF32_ST_INFO b t = push_bit 4 b + (t AND 0xF)"
definition ELF64_ST_BIND :: "u32 \<Rightarrow> u32" where "ELF64_ST_BIND val = ELF32_ST_BIND val"
definition ELF64_ST_TYPE :: "u32 \<Rightarrow> u32" where "ELF64_ST_TYPE val = ELF32_ST_TYPE val"
definition ELF64_ST_INFO :: "u32 \<Rightarrow> u32 \<Rightarrow> u32" where "ELF64_ST_INFO b t = ELF32_ST_INFO b t"
definition ELF32_ST_VISIBILITY :: "u32 \<Rightarrow> u32" where "ELF32_ST_VISIBILITY other = other AND 0x03"
definition ELF64_ST_VISIBILITY :: "u32 \<Rightarrow> u32" where "ELF64_ST_VISIBILITY other = ELF32_ST_VISIBILITY other"

definition ELF32_R_SYM :: "Elf32_Word \<Rightarrow> Elf32_Word" where "ELF32_R_SYM val = drop_bit 8 val"
definition ELF32_R_TYPE :: "Elf32_Word \<Rightarrow> Elf32_Word" where "ELF32_R_TYPE val = val AND 0xFF"
definition ELF32_R_INFO :: "Elf32_Word \<Rightarrow> Elf32_Word \<Rightarrow> Elf32_Word" where
  "ELF32_R_INFO s t = push_bit 8 s + (t AND 0xFF)"
definition ELF64_R_SYM :: "Elf64_Xword \<Rightarrow> Elf64_Xword" where "ELF64_R_SYM i = drop_bit 32 i"
definition ELF64_R_TYPE :: "Elf64_Xword \<Rightarrow> Elf64_Xword" where "ELF64_R_TYPE i = i AND 0xFFFFFFFF"
definition ELF64_R_INFO :: "Elf64_Xword \<Rightarrow> Elf64_Xword \<Rightarrow> Elf64_Xword" where
  "ELF64_R_INFO s t = push_bit 32 s + t"

definition ELF32_M_SYM :: "'a::len word \<Rightarrow> 'a word" where "ELF32_M_SYM info = drop_bit 8 info"
definition ELF32_M_SIZE :: "'a::len word \<Rightarrow> u8" where "ELF32_M_SIZE info = ucast info"
definition ELF32_M_INFO :: "'a::len word \<Rightarrow> 'a word \<Rightarrow> 'a word" where
  "ELF32_M_INFO s n = push_bit 8 s + ucast (ucast n :: u8)"
definition ELF64_M_SYM :: "Elf64_Xword \<Rightarrow> Elf64_Xword" where "ELF64_M_SYM info = ELF32_M_SYM info"
definition ELF64_M_SIZE :: "Elf64_Xword \<Rightarrow> u8" where "ELF64_M_SIZE info = ELF32_M_SIZE info"
definition ELF64_M_INFO :: "Elf64_Xword \<Rightarrow> Elf64_Xword \<Rightarrow> Elf64_Xword" where
  "ELF64_M_INFO s n = ELF32_M_INFO s n"

text \<open>The positions of the tags of a range counted from its end. The shift pair of the last one
  drops the sign bit of the tag and extends its next bit; it is written on the 31-bit value.\<close>

definition DT_VALTAGIDX :: "u32 \<Rightarrow> u32" where
  "DT_VALTAGIDX tag = of_int (elf_val DT_val_table ''DT_VALRNGHI'') - tag"
definition DT_ADDRTAGIDX :: "u32 \<Rightarrow> u32" where
  "DT_ADDRTAGIDX tag = of_int (elf_val DT_addr_table ''DT_ADDRRNGHI'') - tag"
definition DT_VERSIONTAGIDX :: "u32 \<Rightarrow> u32" where
  "DT_VERSIONTAGIDX tag = of_int (elf_val DT_version_table ''DT_VERNEEDNUM'') - tag"
definition DT_EXTRATAGIDX :: "u32 \<Rightarrow> u32" where
  "DT_EXTRATAGIDX tag = - signed_drop_bit 1 (push_bit 1 tag) - 1"

section \<open>Properties\<close>

definition EM_table :: "(string \<times> int) list" where
  "EM_table = EM_table_low @ EM_table_high"

lemma ascending_distinct: "sorted_wrt (<) xs \<Longrightarrow> distinct xs" for xs :: "int list"
  by (simp add: strict_sorted_iff)

lemma EM_ascending:
  "map snd (filter (\<lambda>e. fst e \<noteq> ''EM_ARC_A5'') EM_table)
     = [0..10] @ [15] @ [17..23] @ [36..120] @ [131..144] @ [160..181] @ [183] @ [185..205]
       @ [210..224] @ [243, 247, 252, 258, 259, 0x9026]"
  by code_simp

text \<open>The values of the header are consistent: the architecture numbers are distinct but for
  one old spelling and fit the 16-bit field, official ones lie below \<open>EM_NUM\<close>; the identification
  indices lie in the array; the standard object and segment types are counted by \<open>ET_NUM\<close> and
  \<open>PT_NUM\<close>; the \<open>DF_1\<close> flags are the bits 0 to 30; bindings, types and visibility fit their parts
  of the symbol fields.\<close>

lemma elf_values_consistent:
  "distinct (map snd (filter (\<lambda>e. fst e \<noteq> ''EM_ARC_A5'') EM_table)) \<and>
   elf_val EM_table ''EM_ARC_A5'' = elf_val EM_table ''EM_ARC_COMPACT'' \<and>
   {v \<in> snd ` set EM_table. elf_val EM_table ''EM_NUM'' < v} = {elf_val EM_table ''EM_ALPHA''} \<and>
   list_all (\<lambda>n. elf_val EI_table n < EI_NIDENT)
     [''EI_MAG0'', ''EI_MAG1'', ''EI_MAG2'', ''EI_MAG3'', ''EI_CLASS'', ''EI_DATA'', ''EI_VERSION'', ''EI_OSABI'',
      ''EI_ABIVERSION'', ''EI_PAD''] \<and>
   map snd (take 5 ET_table) = [0..elf_val ET_table ''ET_NUM'' - 1] \<and>
   map snd (take 8 PT_table) = [0..elf_val PT_table ''PT_NUM'' - 1] \<and>
   map snd DF_1_table = map (\<lambda>i. 2 ^ i) [0..<31] \<and>
   list_all (\<lambda>e. snd e < 16) (STB_table @ STT_table) \<and> list_all (\<lambda>e. snd e < 4) STV_table"
proof (intro conjI)
  show "distinct (map snd (filter (\<lambda>e. fst e \<noteq> ''EM_ARC_A5'') EM_table))"
    unfolding EM_ascending by (rule ascending_distinct) code_simp
  show "elf_val EM_table ''EM_ARC_A5'' = elf_val EM_table ''EM_ARC_COMPACT''" by code_simp
  show "{v \<in> snd ` set EM_table. elf_val EM_table ''EM_NUM'' < v} = {elf_val EM_table ''EM_ALPHA''}" by code_simp
  show "list_all (\<lambda>n. elf_val EI_table n < EI_NIDENT)
     [''EI_MAG0'', ''EI_MAG1'', ''EI_MAG2'', ''EI_MAG3'', ''EI_CLASS'', ''EI_DATA'', ''EI_VERSION'', ''EI_OSABI'',
      ''EI_ABIVERSION'', ''EI_PAD'']" by code_simp
  show "map snd (take 5 ET_table) = [0..elf_val ET_table ''ET_NUM'' - 1]" by code_simp
  show "map snd (take 8 PT_table) = [0..elf_val PT_table ''PT_NUM'' - 1]" by code_simp
  show "map snd DF_1_table = map (\<lambda>i. 2 ^ i) [0..<31]" by code_simp
  show "list_all (\<lambda>e. snd e < 16) (STB_table @ STT_table)" by code_simp
  show "list_all (\<lambda>e. snd e < 4) STV_table" by code_simp
qed

text \<open>The tags of the value, address and version ranges and the extensions have distinct
  positions below the numbers the header gives for the ranges.\<close>

lemma elf_tag_positions:
  "map (\<lambda>e. unat (DT_VALTAGIDX (of_int (snd e)))) (take 11 (drop 1 DT_val_table)) = rev [0..<11] \<and>
   11 \<le> elf_val DT_val_table ''DT_VALNUM'' \<and>
   map (\<lambda>e. unat (DT_ADDRTAGIDX (of_int (snd e)))) (take 11 (drop 1 DT_addr_table)) = rev [0..<11] \<and>
   elf_val DT_addr_table ''DT_ADDRNUM'' = 11 \<and>
   map (\<lambda>e. unat (DT_VERSIONTAGIDX (of_int (snd e)))) (take 8 DT_version_table) = [15, 6, 5, 4, 3, 2, 1, 0] \<and>
   elf_val DT_version_table ''DT_VERSIONTAGNUM'' = 16 \<and>
   map (\<lambda>n. unat (DT_EXTRATAGIDX (of_int (elf_val DT_version_table n)))) [''DT_AUXILIARY'', ''DT_FILTER''] = [2, 0] \<and>
   elf_val DT_version_table ''DT_EXTRANUM'' = 3"
  by code_simp

lemma take_bit_self:
  fixes x :: "'a::len word"
  assumes "x < 2 ^ k" "k < LENGTH('a)"
  shows "take_bit k x = x"
proof -
  have "(2 :: nat) ^ k < 2 ^ LENGTH('a)" using assms(2) by simp
  then have "unat (2 ^ k :: 'a word) = 2 ^ k" using unat_of_nat [of "2 ^ k", where 'a = 'a] by simp
  then have "unat x < 2 ^ k" using assms(1) by (simp add: word_less_nat_alt)
  then show ?thesis by (simp only: word_unat_eq_iff unsigned_take_bit_eq) (simp add: take_bit_eq_mod)
qed

text \<open>Two numbers packed into one word, the lower one of \<open>k\<close> bits.\<close>

lemma packed:
  fixes a b :: "'a::len word"
  assumes "b < 2 ^ k" "a < 2 ^ (LENGTH('a) - k)" "0 < k" "k < LENGTH('a)"
  shows "drop_bit k (push_bit k a + b) = a" "(push_bit k a + b) AND mask k = b" "b AND mask k = b"
proof -
  have m: "take_bit k b = b" "take_bit (LENGTH('a) - k) a = a"
    using assms by (auto intro: take_bit_self)
  then have bb: "bit b n \<Longrightarrow> n < k" and aa: "bit a n \<Longrightarrow> n < LENGTH('a) - k" for n
    by (metis bit_take_bit_iff)+
  have "push_bit k a AND b = 0" using bb by (intro bit_word_eqI) (force simp: bit_simps)
  then have e: "push_bit k a + b = push_bit k a OR b" by (simp add: disjunctive_add_eq_or)
  show "drop_bit k (push_bit k a + b) = a" unfolding e
    by (rule bit_word_eqI) (use aa bb [of "k + n" for n] in \<open>force simp: bit_simps\<close>)
  show "(push_bit k a + b) AND mask k = b" unfolding e
    by (rule bit_word_eqI) (use bb in \<open>auto simp: bit_simps\<close>)
  show "b AND mask k = b" using m by (simp add: take_bit_eq_mask)
qed

text \<open>The packed fields read back: a binding and a type of four bits from \<open>st_info\<close>, a symbol and
  a relocation type from \<open>r_info\<close>, a symbol and a size from the information of a move record.\<close>

lemma elf_info_roundtrip:
  assumes "bind < 16" "type < 16" "sym32 < 2 ^ 24" "type32 < 2 ^ 8" "sym64 < 2 ^ 32" "type64 < 2 ^ 32"
    and "size64 < 2 ^ 8"
  shows "ELF64_ST_BIND (ELF64_ST_INFO bind type) = bind \<and> ELF64_ST_TYPE (ELF64_ST_INFO bind type) = type \<and>
    ELF32_R_SYM (ELF32_R_INFO sym32 type32) = sym32 \<and> ELF32_R_TYPE (ELF32_R_INFO sym32 type32) = type32 \<and>
    ELF64_R_SYM (ELF64_R_INFO sym64 type64) = sym64 \<and> ELF64_R_TYPE (ELF64_R_INFO sym64 type64) = type64 \<and>
    ELF64_M_SYM (ELF64_M_INFO sym64 size64) = sym64 \<and> ELF64_M_SIZE (ELF64_M_INFO sym64 size64) = ucast size64"
proof -
  have m: "(0xF :: u32) = mask 4" "(0xFF :: u32) = mask 8" "(0xFFFFFFFF :: u64) = mask 32"
    by (simp_all add: mask_eq_exp_minus_1)
  have st: "drop_bit 4 (push_bit 4 bind + type) = bind" "(push_bit 4 bind + type) AND mask 4 = type"
    "type AND mask 4 = type" "push_bit 4 bind + type < 256"
    using packed [of type 4 bind] assms(1,2)
    by (simp_all add: word_less_nat_alt push_bit_eq_mult unat_word_ariths)
  have u: "ucast (drop_bit 4 (ucast x :: u8)) = drop_bit 4 x" if "x < 256" for x :: u32
  proof -
    have "take_bit 8 x = x" using that take_bit_self [of x 8] by simp
    then have "bit x n \<Longrightarrow> n < 8" for n by (metis bit_take_bit_iff)
    then show ?thesis by (intro bit_word_eqI) (force simp: bit_simps)
  qed
  have sz: "ucast (ucast size64 :: u8) = size64"
  proof -
    have "take_bit 8 size64 = size64" using assms(7) take_bit_self [of size64 8] by simp
    then have "bit size64 n \<Longrightarrow> n < 8" for n by (metis bit_take_bit_iff)
    then show ?thesis by (intro bit_word_eqI) (force simp: bit_simps)
  qed
  have uc: "ucast (x AND mask 8) = (ucast x :: u8)" for x :: u64 by (rule bit_word_eqI) (auto simp: bit_simps)
  have "ELF64_ST_BIND (ELF64_ST_INFO bind type) = bind \<and> ELF64_ST_TYPE (ELF64_ST_INFO bind type) = type"
    using st u [OF st(4)]
    by (simp add: ELF64_ST_BIND_def ELF64_ST_TYPE_def ELF64_ST_INFO_def ELF32_ST_BIND_def ELF32_ST_TYPE_def
        ELF32_ST_INFO_def m)
  moreover have "ELF32_R_SYM (ELF32_R_INFO sym32 type32) = sym32 \<and> ELF32_R_TYPE (ELF32_R_INFO sym32 type32) = type32"
    using packed [of type32 8 sym32] assms(3,4) by (simp add: ELF32_R_SYM_def ELF32_R_TYPE_def ELF32_R_INFO_def m)
  moreover have "ELF64_R_SYM (ELF64_R_INFO sym64 type64) = sym64 \<and> ELF64_R_TYPE (ELF64_R_INFO sym64 type64) = type64"
    using packed [of type64 32 sym64] assms(5,6) by (simp add: ELF64_R_SYM_def ELF64_R_TYPE_def ELF64_R_INFO_def m)
  moreover have "ELF64_M_SYM (ELF64_M_INFO sym64 size64) = sym64 \<and> ELF64_M_SIZE (ELF64_M_INFO sym64 size64) = ucast size64"
  proof -
    have "sym64 < 2 ^ (LENGTH(64) - 8)" using assms(5) by (simp add: word_less_nat_alt)
    with packed [of size64 8 sym64] assms(7) sz uc [of "push_bit 8 sym64 + size64"] show ?thesis
      by (simp add: ELF64_M_SYM_def ELF64_M_SIZE_def ELF64_M_INFO_def ELF32_M_SYM_def ELF32_M_SIZE_def ELF32_M_INFO_def)
  qed
  ultimately show ?thesis by blast
qed

end
