(* ===== verification/Elf32.thy ===== *)
theory Elf32
  imports Elf_Format
begin

text \<open>
  The 32-bit structures of \<open>headers/elf.h\<close>, as the theory \<open>Elf64\<close> has the 64-bit ones.
\<close>

section \<open>Structures\<close>

record Elf32_Ehdr =
  e_ident :: "u8 list"
  e_type :: Elf32_Half
  e_machine :: Elf32_Half
  e_version :: Elf32_Word
  e_entry :: Elf32_Addr
  e_phoff :: Elf32_Off
  e_shoff :: Elf32_Off
  e_flags :: Elf32_Word
  e_ehsize :: Elf32_Half
  e_phentsize :: Elf32_Half
  e_phnum :: Elf32_Half
  e_shentsize :: Elf32_Half
  e_shnum :: Elf32_Half
  e_shstrndx :: Elf32_Half

definition encode_Elf32_Ehdr :: "Elf32_Ehdr \<Rightarrow> u8 list" where
  "encode_Elf32_Ehdr h =
    e_ident h @ le_bytes 2 (e_type h) @ le_bytes 2 (e_machine h) @ le_bytes 4 (e_version h)
      @ le_bytes 4 (e_entry h) @ le_bytes 4 (e_phoff h) @ le_bytes 4 (e_shoff h) @ le_bytes 4 (e_flags h)
      @ le_bytes 2 (e_ehsize h) @ le_bytes 2 (e_phentsize h) @ le_bytes 2 (e_phnum h)
      @ le_bytes 2 (e_shentsize h) @ le_bytes 2 (e_shnum h) @ le_bytes 2 (e_shstrndx h)"

definition decode_Elf32_Ehdr :: "u8 list \<Rightarrow> Elf32_Ehdr" where
  "decode_Elf32_Ehdr bs =
     \<lparr>e_ident = take 16 bs, e_type = field 16 2 bs, e_machine = field 18 2 bs,
      e_version = field 20 4 bs, e_entry = field 24 4 bs, e_phoff = field 28 4 bs,
      e_shoff = field 32 4 bs, e_flags = field 36 4 bs, e_ehsize = field 40 2 bs,
      e_phentsize = field 42 2 bs, e_phnum = field 44 2 bs, e_shentsize = field 46 2 bs,
      e_shnum = field 48 2 bs, e_shstrndx = field 50 2 bs\<rparr>"

lemmas [elf_layout] = encode_Elf32_Ehdr_def decode_Elf32_Ehdr_def

record Elf32_Shdr =
  sh_name :: Elf32_Word
  sh_type :: Elf32_Word
  sh_flags :: Elf32_Word
  sh_addr :: Elf32_Addr
  sh_offset :: Elf32_Off
  sh_size :: Elf32_Word
  sh_link :: Elf32_Word
  sh_info :: Elf32_Word
  sh_addralign :: Elf32_Word
  sh_entsize :: Elf32_Word

definition encode_Elf32_Shdr :: "Elf32_Shdr \<Rightarrow> u8 list" where
  "encode_Elf32_Shdr h =
    le_bytes 4 (sh_name h) @ le_bytes 4 (sh_type h) @ le_bytes 4 (sh_flags h) @ le_bytes 4 (sh_addr h)
      @ le_bytes 4 (sh_offset h) @ le_bytes 4 (sh_size h) @ le_bytes 4 (sh_link h)
      @ le_bytes 4 (sh_info h) @ le_bytes 4 (sh_addralign h) @ le_bytes 4 (sh_entsize h)"

definition decode_Elf32_Shdr :: "u8 list \<Rightarrow> Elf32_Shdr" where
  "decode_Elf32_Shdr bs =
     \<lparr>sh_name = field 0 4 bs, sh_type = field 4 4 bs, sh_flags = field 8 4 bs,
      sh_addr = field 12 4 bs, sh_offset = field 16 4 bs, sh_size = field 20 4 bs,
      sh_link = field 24 4 bs, sh_info = field 28 4 bs, sh_addralign = field 32 4 bs,
      sh_entsize = field 36 4 bs\<rparr>"

lemmas [elf_layout] = encode_Elf32_Shdr_def decode_Elf32_Shdr_def

record Elf32_Chdr =
  ch_type :: Elf32_Word
  ch_size :: Elf32_Word
  ch_addralign :: Elf32_Word

definition encode_Elf32_Chdr :: "Elf32_Chdr \<Rightarrow> u8 list" where
  "encode_Elf32_Chdr h =
    le_bytes 4 (ch_type h) @ le_bytes 4 (ch_size h) @ le_bytes 4 (ch_addralign h)"

definition decode_Elf32_Chdr :: "u8 list \<Rightarrow> Elf32_Chdr" where
  "decode_Elf32_Chdr bs =
     \<lparr>ch_type = field 0 4 bs, ch_size = field 4 4 bs, ch_addralign = field 8 4 bs\<rparr>"

lemmas [elf_layout] = encode_Elf32_Chdr_def decode_Elf32_Chdr_def

record Elf32_Sym =
  st_name :: Elf32_Word
  st_value :: Elf32_Addr
  st_size :: Elf32_Word
  st_info :: u8
  st_other :: u8
  st_shndx :: Elf32_Section

definition encode_Elf32_Sym :: "Elf32_Sym \<Rightarrow> u8 list" where
  "encode_Elf32_Sym h =
    le_bytes 4 (st_name h) @ le_bytes 4 (st_value h) @ le_bytes 4 (st_size h) @ le_bytes 1 (st_info h)
      @ le_bytes 1 (st_other h) @ le_bytes 2 (st_shndx h)"

definition decode_Elf32_Sym :: "u8 list \<Rightarrow> Elf32_Sym" where
  "decode_Elf32_Sym bs =
     \<lparr>st_name = field 0 4 bs, st_value = field 4 4 bs, st_size = field 8 4 bs,
      st_info = field 12 1 bs, st_other = field 13 1 bs, st_shndx = field 14 2 bs\<rparr>"

lemmas [elf_layout] = encode_Elf32_Sym_def decode_Elf32_Sym_def

record Elf32_Syminfo =
  si_boundto :: Elf32_Half
  si_flags :: Elf32_Half

definition encode_Elf32_Syminfo :: "Elf32_Syminfo \<Rightarrow> u8 list" where
  "encode_Elf32_Syminfo h =
    le_bytes 2 (si_boundto h) @ le_bytes 2 (si_flags h)"

definition decode_Elf32_Syminfo :: "u8 list \<Rightarrow> Elf32_Syminfo" where
  "decode_Elf32_Syminfo bs =
     \<lparr>si_boundto = field 0 2 bs, si_flags = field 2 2 bs\<rparr>"

lemmas [elf_layout] = encode_Elf32_Syminfo_def decode_Elf32_Syminfo_def

record Elf32_Rel =
  r_offset :: Elf32_Addr
  r_info :: Elf32_Word

definition encode_Elf32_Rel :: "Elf32_Rel \<Rightarrow> u8 list" where
  "encode_Elf32_Rel h =
    le_bytes 4 (r_offset h) @ le_bytes 4 (r_info h)"

definition decode_Elf32_Rel :: "u8 list \<Rightarrow> Elf32_Rel" where
  "decode_Elf32_Rel bs =
     \<lparr>r_offset = field 0 4 bs, r_info = field 4 4 bs\<rparr>"

lemmas [elf_layout] = encode_Elf32_Rel_def decode_Elf32_Rel_def

record Elf32_Rela = Elf32_Rel +
  r_addend :: Elf32_Sword

definition encode_Elf32_Rela :: "Elf32_Rela \<Rightarrow> u8 list" where
  "encode_Elf32_Rela h =
    le_bytes 4 (r_offset h) @ le_bytes 4 (r_info h) @ le_bytes 4 (r_addend h)"

definition decode_Elf32_Rela :: "u8 list \<Rightarrow> Elf32_Rela" where
  "decode_Elf32_Rela bs =
     \<lparr>r_offset = field 0 4 bs, r_info = field 4 4 bs, r_addend = field 8 4 bs\<rparr>"

lemmas [elf_layout] = encode_Elf32_Rela_def decode_Elf32_Rela_def

record Elf32_Phdr =
  p_type :: Elf32_Word
  p_offset :: Elf32_Off
  p_vaddr :: Elf32_Addr
  p_paddr :: Elf32_Addr
  p_filesz :: Elf32_Word
  p_memsz :: Elf32_Word
  p_flags :: Elf32_Word
  p_align :: Elf32_Word

definition encode_Elf32_Phdr :: "Elf32_Phdr \<Rightarrow> u8 list" where
  "encode_Elf32_Phdr h =
    le_bytes 4 (p_type h) @ le_bytes 4 (p_offset h) @ le_bytes 4 (p_vaddr h) @ le_bytes 4 (p_paddr h)
      @ le_bytes 4 (p_filesz h) @ le_bytes 4 (p_memsz h) @ le_bytes 4 (p_flags h)
      @ le_bytes 4 (p_align h)"

definition decode_Elf32_Phdr :: "u8 list \<Rightarrow> Elf32_Phdr" where
  "decode_Elf32_Phdr bs =
     \<lparr>p_type = field 0 4 bs, p_offset = field 4 4 bs, p_vaddr = field 8 4 bs,
      p_paddr = field 12 4 bs, p_filesz = field 16 4 bs, p_memsz = field 20 4 bs,
      p_flags = field 24 4 bs, p_align = field 28 4 bs\<rparr>"

lemmas [elf_layout] = encode_Elf32_Phdr_def decode_Elf32_Phdr_def

record Elf32_Dyn =
  d_tag :: Elf32_Sword
  d_un :: Elf32_Word

definition encode_Elf32_Dyn :: "Elf32_Dyn \<Rightarrow> u8 list" where
  "encode_Elf32_Dyn h =
    le_bytes 4 (d_tag h) @ le_bytes 4 (d_un h)"

definition decode_Elf32_Dyn :: "u8 list \<Rightarrow> Elf32_Dyn" where
  "decode_Elf32_Dyn bs =
     \<lparr>d_tag = field 0 4 bs, d_un = field 4 4 bs\<rparr>"

lemmas [elf_layout] = encode_Elf32_Dyn_def decode_Elf32_Dyn_def

record Elf32_Verdef =
  vd_version :: Elf32_Half
  vd_flags :: Elf32_Half
  vd_ndx :: Elf32_Half
  vd_cnt :: Elf32_Half
  vd_hash :: Elf32_Word
  vd_aux :: Elf32_Word
  vd_next :: Elf32_Word

definition encode_Elf32_Verdef :: "Elf32_Verdef \<Rightarrow> u8 list" where
  "encode_Elf32_Verdef h =
    le_bytes 2 (vd_version h) @ le_bytes 2 (vd_flags h) @ le_bytes 2 (vd_ndx h) @ le_bytes 2 (vd_cnt h)
      @ le_bytes 4 (vd_hash h) @ le_bytes 4 (vd_aux h) @ le_bytes 4 (vd_next h)"

definition decode_Elf32_Verdef :: "u8 list \<Rightarrow> Elf32_Verdef" where
  "decode_Elf32_Verdef bs =
     \<lparr>vd_version = field 0 2 bs, vd_flags = field 2 2 bs, vd_ndx = field 4 2 bs,
      vd_cnt = field 6 2 bs, vd_hash = field 8 4 bs, vd_aux = field 12 4 bs,
      vd_next = field 16 4 bs\<rparr>"

lemmas [elf_layout] = encode_Elf32_Verdef_def decode_Elf32_Verdef_def

record Elf32_Verdaux =
  vda_name :: Elf32_Word
  vda_next :: Elf32_Word

definition encode_Elf32_Verdaux :: "Elf32_Verdaux \<Rightarrow> u8 list" where
  "encode_Elf32_Verdaux h =
    le_bytes 4 (vda_name h) @ le_bytes 4 (vda_next h)"

definition decode_Elf32_Verdaux :: "u8 list \<Rightarrow> Elf32_Verdaux" where
  "decode_Elf32_Verdaux bs =
     \<lparr>vda_name = field 0 4 bs, vda_next = field 4 4 bs\<rparr>"

lemmas [elf_layout] = encode_Elf32_Verdaux_def decode_Elf32_Verdaux_def

record Elf32_Verneed =
  vn_version :: Elf32_Half
  vn_cnt :: Elf32_Half
  vn_file :: Elf32_Word
  vn_aux :: Elf32_Word
  vn_next :: Elf32_Word

definition encode_Elf32_Verneed :: "Elf32_Verneed \<Rightarrow> u8 list" where
  "encode_Elf32_Verneed h =
    le_bytes 2 (vn_version h) @ le_bytes 2 (vn_cnt h) @ le_bytes 4 (vn_file h) @ le_bytes 4 (vn_aux h)
      @ le_bytes 4 (vn_next h)"

definition decode_Elf32_Verneed :: "u8 list \<Rightarrow> Elf32_Verneed" where
  "decode_Elf32_Verneed bs =
     \<lparr>vn_version = field 0 2 bs, vn_cnt = field 2 2 bs, vn_file = field 4 4 bs,
      vn_aux = field 8 4 bs, vn_next = field 12 4 bs\<rparr>"

lemmas [elf_layout] = encode_Elf32_Verneed_def decode_Elf32_Verneed_def

record Elf32_Vernaux =
  vna_hash :: Elf32_Word
  vna_flags :: Elf32_Half
  vna_other :: Elf32_Half
  vna_name :: Elf32_Word
  vna_next :: Elf32_Word

definition encode_Elf32_Vernaux :: "Elf32_Vernaux \<Rightarrow> u8 list" where
  "encode_Elf32_Vernaux h =
    le_bytes 4 (vna_hash h) @ le_bytes 2 (vna_flags h) @ le_bytes 2 (vna_other h)
      @ le_bytes 4 (vna_name h) @ le_bytes 4 (vna_next h)"

definition decode_Elf32_Vernaux :: "u8 list \<Rightarrow> Elf32_Vernaux" where
  "decode_Elf32_Vernaux bs =
     \<lparr>vna_hash = field 0 4 bs, vna_flags = field 4 2 bs, vna_other = field 6 2 bs,
      vna_name = field 8 4 bs, vna_next = field 12 4 bs\<rparr>"

lemmas [elf_layout] = encode_Elf32_Vernaux_def decode_Elf32_Vernaux_def

record Elf32_auxv_t =
  a_type :: u32
  a_un :: u32

definition encode_Elf32_auxv_t :: "Elf32_auxv_t \<Rightarrow> u8 list" where
  "encode_Elf32_auxv_t h =
    le_bytes 4 (a_type h) @ le_bytes 4 (a_un h)"

definition decode_Elf32_auxv_t :: "u8 list \<Rightarrow> Elf32_auxv_t" where
  "decode_Elf32_auxv_t bs =
     \<lparr>a_type = field 0 4 bs, a_un = field 4 4 bs\<rparr>"

lemmas [elf_layout] = encode_Elf32_auxv_t_def decode_Elf32_auxv_t_def

record Elf32_Nhdr =
  n_namesz :: Elf32_Word
  n_descsz :: Elf32_Word
  n_type :: Elf32_Word

definition encode_Elf32_Nhdr :: "Elf32_Nhdr \<Rightarrow> u8 list" where
  "encode_Elf32_Nhdr h =
    le_bytes 4 (n_namesz h) @ le_bytes 4 (n_descsz h) @ le_bytes 4 (n_type h)"

definition decode_Elf32_Nhdr :: "u8 list \<Rightarrow> Elf32_Nhdr" where
  "decode_Elf32_Nhdr bs =
     \<lparr>n_namesz = field 0 4 bs, n_descsz = field 4 4 bs, n_type = field 8 4 bs\<rparr>"

lemmas [elf_layout] = encode_Elf32_Nhdr_def decode_Elf32_Nhdr_def

record Elf32_Move =
  m_value :: Elf32_Xword
  m_info :: Elf32_Word
  m_poffset :: Elf32_Word
  m_repeat :: Elf32_Half
  m_stride :: Elf32_Half

definition encode_Elf32_Move :: "Elf32_Move \<Rightarrow> u8 list" where
  "encode_Elf32_Move h =
    le_bytes 8 (m_value h) @ le_bytes 4 (m_info h) @ le_bytes 4 (m_poffset h) @ le_bytes 2 (m_repeat h)
      @ le_bytes 2 (m_stride h) @ replicate 4 0"

definition decode_Elf32_Move :: "u8 list \<Rightarrow> Elf32_Move" where
  "decode_Elf32_Move bs =
     \<lparr>m_value = field 0 8 bs, m_info = field 8 4 bs, m_poffset = field 12 4 bs,
      m_repeat = field 16 2 bs, m_stride = field 18 2 bs\<rparr>"

lemmas [elf_layout] = encode_Elf32_Move_def decode_Elf32_Move_def

section \<open>Layouts\<close>

interpretation ehdr32: exact_format "\<lambda>h. length (e_ident h) = 16" encode_Elf32_Ehdr decode_Elf32_Ehdr 52
  by unfold_locales (simp_all add: elf_layout)

interpretation shdr32: exact_format "\<lambda>_. True" encode_Elf32_Shdr decode_Elf32_Shdr 40
  by unfold_locales (simp_all add: elf_layout)

interpretation chdr32: exact_format "\<lambda>_. True" encode_Elf32_Chdr decode_Elf32_Chdr 12
  by unfold_locales (simp_all add: elf_layout)

interpretation sym32: exact_format "\<lambda>_. True" encode_Elf32_Sym decode_Elf32_Sym 16
  by unfold_locales (simp_all add: elf_layout)

interpretation syminfo32: exact_format "\<lambda>_. True" encode_Elf32_Syminfo decode_Elf32_Syminfo 4
  by unfold_locales (simp_all add: elf_layout)

interpretation rel32: exact_format "\<lambda>_. True" encode_Elf32_Rel decode_Elf32_Rel 8
  by unfold_locales (simp_all add: elf_layout)

interpretation rela32: exact_format "\<lambda>_. True" encode_Elf32_Rela decode_Elf32_Rela 12
  by unfold_locales (simp_all add: elf_layout)

interpretation phdr32: exact_format "\<lambda>_. True" encode_Elf32_Phdr decode_Elf32_Phdr 32
  by unfold_locales (simp_all add: elf_layout)

interpretation dyn32: exact_format "\<lambda>_. True" encode_Elf32_Dyn decode_Elf32_Dyn 8
  by unfold_locales (simp_all add: elf_layout)

interpretation verdef32: exact_format "\<lambda>_. True" encode_Elf32_Verdef decode_Elf32_Verdef 20
  by unfold_locales (simp_all add: elf_layout)

interpretation verdaux32: exact_format "\<lambda>_. True" encode_Elf32_Verdaux decode_Elf32_Verdaux 8
  by unfold_locales (simp_all add: elf_layout)

interpretation verneed32: exact_format "\<lambda>_. True" encode_Elf32_Verneed decode_Elf32_Verneed 16
  by unfold_locales (simp_all add: elf_layout)

interpretation vernaux32: exact_format "\<lambda>_. True" encode_Elf32_Vernaux decode_Elf32_Vernaux 16
  by unfold_locales (simp_all add: elf_layout)

interpretation auxv_t32: exact_format "\<lambda>_. True" encode_Elf32_auxv_t decode_Elf32_auxv_t 8
  by unfold_locales (simp_all add: elf_layout)

interpretation nhdr32: exact_format "\<lambda>_. True" encode_Elf32_Nhdr decode_Elf32_Nhdr 12
  by unfold_locales (simp_all add: elf_layout)

interpretation move32: binary_format "\<lambda>_. True" encode_Elf32_Move decode_Elf32_Move 24
  by unfold_locales (simp_all add: elf_layout)

section \<open>Properties\<close>

text \<open>Reading back an encoded ELF header gives the header, and reading back the tables of program
  and section headers, symbols, relocations and dynamic entries gives the tables, whatever follows
  them; conversely the bytes of a structure are the encoding of what is read from them.\<close>

lemma elf32_roundtrip:
  assumes "length (e_ident h) = 16"
  shows "decode_Elf32_Ehdr (encode_Elf32_Ehdr h @ rest) = h \<and> length (encode_Elf32_Ehdr h) = 52 \<and>
     decode_array decode_Elf32_Phdr 32 (length phs) (concat (map encode_Elf32_Phdr phs) @ rest) = phs \<and>
     decode_array decode_Elf32_Shdr 40 (length shs) (concat (map encode_Elf32_Shdr shs) @ rest) = shs \<and>
     decode_array decode_Elf32_Sym 16 (length sys) (concat (map encode_Elf32_Sym sys) @ rest) = sys \<and>
     decode_array decode_Elf32_Rela 12 (length ras) (concat (map encode_Elf32_Rela ras) @ rest) = ras \<and>
     decode_array decode_Elf32_Dyn 8 (length dys) (concat (map encode_Elf32_Dyn dys) @ rest) = dys \<and>
     (length bs = 52 \<longrightarrow> encode_Elf32_Ehdr (decode_Elf32_Ehdr bs) = bs) \<and>
     (length bs = 32 \<longrightarrow> encode_Elf32_Phdr (decode_Elf32_Phdr bs) = bs) \<and>
     (length bs = 40 \<longrightarrow> encode_Elf32_Shdr (decode_Elf32_Shdr bs) = bs) \<and>
     (length bs = 16 \<longrightarrow> encode_Elf32_Sym (decode_Elf32_Sym bs) = bs) \<and>
     (length bs = 12 \<longrightarrow> encode_Elf32_Rela (decode_Elf32_Rela bs) = bs) \<and>
     (length bs = 8 \<longrightarrow> encode_Elf32_Dyn (decode_Elf32_Dyn bs) = bs)"
  using ehdr32.decode_encode [OF assms] ehdr32.length_encode [OF assms] ehdr32.encode_decode phdr32.encode_decode
    shdr32.encode_decode sym32.encode_decode rela32.encode_decode dyn32.encode_decode
  by (intro conjI impI phdr32.array_roundtrip shdr32.array_roundtrip sym32.array_roundtrip
      rela32.array_roundtrip dyn32.array_roundtrip ballI TrueI) simp_all

end
