(* ===== verification/Elf_Machines.thy ===== *)
theory Elf_Machines
  imports Elf_Format
begin

text \<open>
  The processor-specific part of \<open>headers/elf.h\<close>: for each processor, in the order of the header,
  the flags of \<open>e_flags\<close>, the section, segment, symbol and dynamic values it adds to the common
  tables, its relocation types, and the macros that take a field apart. A value that the header
  writes as an alias of another is written as its number, one relative to a common range as the
  start of the range plus the offset. The structures of the MIPS sections are in \<open>Elf_Mips\<close>.

  The lemmas hold the numbers against what the format demands: the relocation types of a processor
  are distinct and end below its \<open>_NUM\<close> marker, they fit the type field of \<open>r_info\<close>, and the values of
  a field lie in the range or under the mask the common part reserves for them.
\<close>

section \<open>Values\<close>

subsection \<open>Motorola 68k\<close>

definition EF_CPU32 :: int where "EF_CPU32 = 0x810000"

definition R_68K_table :: "(string \<times> int) list" where
  "R_68K_table =
    [(''R_68K_NONE'', 0), (''R_68K_32'', 1), (''R_68K_16'', 2), (''R_68K_8'', 3), (''R_68K_PC32'', 4),
     (''R_68K_PC16'', 5), (''R_68K_PC8'', 6), (''R_68K_GOT32'', 7), (''R_68K_GOT16'', 8), (''R_68K_GOT8'', 9),
     (''R_68K_GOT32O'', 10), (''R_68K_GOT16O'', 11), (''R_68K_GOT8O'', 12), (''R_68K_PLT32'', 13),
     (''R_68K_PLT16'', 14), (''R_68K_PLT8'', 15), (''R_68K_PLT32O'', 16), (''R_68K_PLT16O'', 17),
     (''R_68K_PLT8O'', 18), (''R_68K_COPY'', 19), (''R_68K_GLOB_DAT'', 20), (''R_68K_JMP_SLOT'', 21),
     (''R_68K_RELATIVE'', 22), (''R_68K_TLS_GD32'', 25), (''R_68K_TLS_GD16'', 26), (''R_68K_TLS_GD8'', 27),
     (''R_68K_TLS_LDM32'', 28), (''R_68K_TLS_LDM16'', 29), (''R_68K_TLS_LDM8'', 30),
     (''R_68K_TLS_LDO32'', 31), (''R_68K_TLS_LDO16'', 32), (''R_68K_TLS_LDO8'', 33), (''R_68K_TLS_IE32'', 34),
     (''R_68K_TLS_IE16'', 35), (''R_68K_TLS_IE8'', 36), (''R_68K_TLS_LE32'', 37), (''R_68K_TLS_LE16'', 38),
     (''R_68K_TLS_LE8'', 39), (''R_68K_TLS_DTPMOD32'', 40), (''R_68K_TLS_DTPREL32'', 41),
     (''R_68K_TLS_TPREL32'', 42), (''R_68K_NUM'', 43)]"

subsection \<open>Intel 80386\<close>

definition R_386_table :: "(string \<times> int) list" where
  "R_386_table =
    [(''R_386_NONE'', 0), (''R_386_32'', 1), (''R_386_PC32'', 2), (''R_386_GOT32'', 3), (''R_386_PLT32'', 4),
     (''R_386_COPY'', 5), (''R_386_GLOB_DAT'', 6), (''R_386_JMP_SLOT'', 7), (''R_386_RELATIVE'', 8),
     (''R_386_GOTOFF'', 9), (''R_386_GOTPC'', 10), (''R_386_32PLT'', 11), (''R_386_TLS_TPOFF'', 14),
     (''R_386_TLS_IE'', 15), (''R_386_TLS_GOTIE'', 16), (''R_386_TLS_LE'', 17), (''R_386_TLS_GD'', 18),
     (''R_386_TLS_LDM'', 19), (''R_386_16'', 20), (''R_386_PC16'', 21), (''R_386_8'', 22),
     (''R_386_PC8'', 23), (''R_386_TLS_GD_32'', 24), (''R_386_TLS_GD_PUSH'', 25), (''R_386_TLS_GD_CALL'', 26),
     (''R_386_TLS_GD_POP'', 27), (''R_386_TLS_LDM_32'', 28), (''R_386_TLS_LDM_PUSH'', 29),
     (''R_386_TLS_LDM_CALL'', 30), (''R_386_TLS_LDM_POP'', 31), (''R_386_TLS_LDO_32'', 32),
     (''R_386_TLS_IE_32'', 33), (''R_386_TLS_LE_32'', 34), (''R_386_TLS_DTPMOD32'', 35),
     (''R_386_TLS_DTPOFF32'', 36), (''R_386_TLS_TPOFF32'', 37), (''R_386_SIZE32'', 38),
     (''R_386_TLS_GOTDESC'', 39), (''R_386_TLS_DESC_CALL'', 40), (''R_386_TLS_DESC'', 41),
     (''R_386_IRELATIVE'', 42), (''R_386_GOT32X'', 43), (''R_386_NUM'', 44)]"

subsection \<open>SPARC\<close>

definition STT_SPARC_REGISTER :: int where "STT_SPARC_REGISTER = 13"

definition EF_SPARC_table :: "(string \<times> int) list" where
  "EF_SPARC_table =
    [(''EF_SPARCV9_MM'', 3), (''EF_SPARCV9_TSO'', 0), (''EF_SPARCV9_PSO'', 1), (''EF_SPARCV9_RMO'', 2),
     (''EF_SPARC_LEDATA'', 0x800000), (''EF_SPARC_EXT_MASK'', 0xFFFF00), (''EF_SPARC_32PLUS'', 0x100),
     (''EF_SPARC_SUN_US1'', 0x200), (''EF_SPARC_HAL_R1'', 0x400), (''EF_SPARC_SUN_US3'', 0x800)]"

definition R_SPARC_table :: "(string \<times> int) list" where
  "R_SPARC_table =
    [(''R_SPARC_NONE'', 0), (''R_SPARC_8'', 1), (''R_SPARC_16'', 2), (''R_SPARC_32'', 3),
     (''R_SPARC_DISP8'', 4), (''R_SPARC_DISP16'', 5), (''R_SPARC_DISP32'', 6), (''R_SPARC_WDISP30'', 7),
     (''R_SPARC_WDISP22'', 8), (''R_SPARC_HI22'', 9), (''R_SPARC_22'', 10), (''R_SPARC_13'', 11),
     (''R_SPARC_LO10'', 12), (''R_SPARC_GOT10'', 13), (''R_SPARC_GOT13'', 14), (''R_SPARC_GOT22'', 15),
     (''R_SPARC_PC10'', 16), (''R_SPARC_PC22'', 17), (''R_SPARC_WPLT30'', 18), (''R_SPARC_COPY'', 19),
     (''R_SPARC_GLOB_DAT'', 20), (''R_SPARC_JMP_SLOT'', 21), (''R_SPARC_RELATIVE'', 22),
     (''R_SPARC_UA32'', 23), (''R_SPARC_PLT32'', 24), (''R_SPARC_HIPLT22'', 25), (''R_SPARC_LOPLT10'', 26),
     (''R_SPARC_PCPLT32'', 27), (''R_SPARC_PCPLT22'', 28), (''R_SPARC_PCPLT10'', 29), (''R_SPARC_10'', 30),
     (''R_SPARC_11'', 31), (''R_SPARC_64'', 32), (''R_SPARC_OLO10'', 33), (''R_SPARC_HH22'', 34),
     (''R_SPARC_HM10'', 35), (''R_SPARC_LM22'', 36), (''R_SPARC_PC_HH22'', 37), (''R_SPARC_PC_HM10'', 38),
     (''R_SPARC_PC_LM22'', 39), (''R_SPARC_WDISP16'', 40), (''R_SPARC_WDISP19'', 41),
     (''R_SPARC_GLOB_JMP'', 42), (''R_SPARC_7'', 43), (''R_SPARC_5'', 44), (''R_SPARC_6'', 45),
     (''R_SPARC_DISP64'', 46), (''R_SPARC_PLT64'', 47), (''R_SPARC_HIX22'', 48), (''R_SPARC_LOX10'', 49),
     (''R_SPARC_H44'', 50), (''R_SPARC_M44'', 51), (''R_SPARC_L44'', 52), (''R_SPARC_REGISTER'', 53),
     (''R_SPARC_UA64'', 54), (''R_SPARC_UA16'', 55), (''R_SPARC_TLS_GD_HI22'', 56),
     (''R_SPARC_TLS_GD_LO10'', 57), (''R_SPARC_TLS_GD_ADD'', 58), (''R_SPARC_TLS_GD_CALL'', 59),
     (''R_SPARC_TLS_LDM_HI22'', 60), (''R_SPARC_TLS_LDM_LO10'', 61), (''R_SPARC_TLS_LDM_ADD'', 62),
     (''R_SPARC_TLS_LDM_CALL'', 63), (''R_SPARC_TLS_LDO_HIX22'', 64), (''R_SPARC_TLS_LDO_LOX10'', 65),
     (''R_SPARC_TLS_LDO_ADD'', 66), (''R_SPARC_TLS_IE_HI22'', 67), (''R_SPARC_TLS_IE_LO10'', 68),
     (''R_SPARC_TLS_IE_LD'', 69), (''R_SPARC_TLS_IE_LDX'', 70), (''R_SPARC_TLS_IE_ADD'', 71),
     (''R_SPARC_TLS_LE_HIX22'', 72), (''R_SPARC_TLS_LE_LOX10'', 73), (''R_SPARC_TLS_DTPMOD32'', 74),
     (''R_SPARC_TLS_DTPMOD64'', 75), (''R_SPARC_TLS_DTPOFF32'', 76), (''R_SPARC_TLS_DTPOFF64'', 77),
     (''R_SPARC_TLS_TPOFF32'', 78), (''R_SPARC_TLS_TPOFF64'', 79), (''R_SPARC_GOTDATA_HIX22'', 80),
     (''R_SPARC_GOTDATA_LOX10'', 81), (''R_SPARC_GOTDATA_OP_HIX22'', 82), (''R_SPARC_GOTDATA_OP_LOX10'', 83),
     (''R_SPARC_GOTDATA_OP'', 84), (''R_SPARC_H34'', 85), (''R_SPARC_SIZE32'', 86), (''R_SPARC_SIZE64'', 87),
     (''R_SPARC_WDISP10'', 88), (''R_SPARC_JMP_IREL'', 248), (''R_SPARC_IRELATIVE'', 249),
     (''R_SPARC_GNU_VTINHERIT'', 250), (''R_SPARC_GNU_VTENTRY'', 251), (''R_SPARC_REV32'', 252),
     (''R_SPARC_NUM'', 253)]"

definition DT_SPARC_table :: "(string \<times> int) list" where
  "DT_SPARC_table =
    [(''DT_SPARC_REGISTER'', 0x70000001), (''DT_SPARC_NUM'', 2)]"

subsection \<open>MIPS\<close>

definition EF_MIPS_table :: "(string \<times> int) list" where
  "EF_MIPS_table =
    [(''EF_MIPS_NOREORDER'', 1), (''EF_MIPS_PIC'', 2), (''EF_MIPS_CPIC'', 4), (''EF_MIPS_XGOT'', 8),
     (''EF_MIPS_UCODE'', 16), (''EF_MIPS_ABI2'', 32), (''EF_MIPS_ABI_ON32'', 64),
     (''EF_MIPS_OPTIONS_FIRST'', 0x80), (''EF_MIPS_32BITMODE'', 0x100), (''EF_MIPS_FP64'', 512),
     (''EF_MIPS_NAN2008'', 1024), (''EF_MIPS_ARCH_ASE'', 0xF000000), (''EF_MIPS_ARCH_ASE_MDMX'', 0x8000000),
     (''EF_MIPS_ARCH_ASE_M16'', 0x4000000), (''EF_MIPS_ARCH_ASE_MICROMIPS'', 0x2000000),
     (''EF_MIPS_ARCH'', 0xF0000000), (''EF_MIPS_ARCH_1'', 0x0), (''EF_MIPS_ARCH_2'', 0x10000000),
     (''EF_MIPS_ARCH_3'', 0x20000000), (''EF_MIPS_ARCH_4'', 0x30000000), (''EF_MIPS_ARCH_5'', 0x40000000),
     (''EF_MIPS_ARCH_32'', 0x50000000), (''EF_MIPS_ARCH_64'', 0x60000000),
     (''EF_MIPS_ARCH_32R2'', 0x70000000), (''EF_MIPS_ARCH_64R2'', 0x80000000),
     (''EF_MIPS_ARCH_32R6'', 0x90000000), (''EF_MIPS_ARCH_64R6'', 0xA0000000), (''EF_MIPS_ABI'', 0xF000),
     (''EF_MIPS_ABI_O32'', 0x1000), (''EF_MIPS_ABI_O64'', 0x2000), (''EF_MIPS_ABI_EABI32'', 0x3000),
     (''EF_MIPS_ABI_EABI64'', 0x4000), (''EF_MIPS_MACH'', 0xFF0000), (''EF_MIPS_MACH_3900'', 0x810000),
     (''EF_MIPS_MACH_4010'', 0x820000), (''EF_MIPS_MACH_4100'', 0x830000),
     (''EF_MIPS_MACH_ALLEGREX'', 0x840000), (''EF_MIPS_MACH_4650'', 0x850000),
     (''EF_MIPS_MACH_4120'', 0x870000), (''EF_MIPS_MACH_4111'', 0x880000), (''EF_MIPS_MACH_SB1'', 0x8A0000),
     (''EF_MIPS_MACH_OCTEON'', 0x8B0000), (''EF_MIPS_MACH_XLR'', 0x8C0000),
     (''EF_MIPS_MACH_OCTEON2'', 0x8D0000), (''EF_MIPS_MACH_OCTEON3'', 0x8E0000),
     (''EF_MIPS_MACH_5400'', 0x910000), (''EF_MIPS_MACH_5900'', 0x920000), (''EF_MIPS_MACH_IAMR2'', 0x930000),
     (''EF_MIPS_MACH_5500'', 0x980000), (''EF_MIPS_MACH_9000'', 0x990000), (''EF_MIPS_MACH_LS2E'', 0xA00000),
     (''EF_MIPS_MACH_LS2F'', 0xA10000), (''EF_MIPS_MACH_GS464'', 0xA20000),
     (''EF_MIPS_MACH_GS464E'', 0xA30000), (''EF_MIPS_MACH_GS264E'', 0xA40000)]"

definition E_MIPS_table :: "(string \<times> int) list" where
  "E_MIPS_table =
    [(''E_MIPS_ARCH_1'', 0x0), (''E_MIPS_ARCH_2'', 0x10000000), (''E_MIPS_ARCH_3'', 0x20000000),
     (''E_MIPS_ARCH_4'', 0x30000000), (''E_MIPS_ARCH_5'', 0x40000000), (''E_MIPS_ARCH_32'', 0x50000000),
     (''E_MIPS_ARCH_64'', 0x60000000)]"

definition SHN_MIPS_table :: "(string \<times> int) list" where
  "SHN_MIPS_table =
    [(''SHN_MIPS_ACOMMON'', 0xFF00), (''SHN_MIPS_TEXT'', 0xFF01), (''SHN_MIPS_DATA'', 0xFF02),
     (''SHN_MIPS_SCOMMON'', 0xFF03), (''SHN_MIPS_SUNDEFINED'', 0xFF04)]"

definition SHT_MIPS_table :: "(string \<times> int) list" where
  "SHT_MIPS_table =
    [(''SHT_MIPS_LIBLIST'', 0x70000000), (''SHT_MIPS_MSYM'', 0x70000001), (''SHT_MIPS_CONFLICT'', 0x70000002),
     (''SHT_MIPS_GPTAB'', 0x70000003), (''SHT_MIPS_UCODE'', 0x70000004), (''SHT_MIPS_DEBUG'', 0x70000005),
     (''SHT_MIPS_REGINFO'', 0x70000006), (''SHT_MIPS_PACKAGE'', 0x70000007),
     (''SHT_MIPS_PACKSYM'', 0x70000008), (''SHT_MIPS_RELD'', 0x70000009), (''SHT_MIPS_IFACE'', 0x7000000B),
     (''SHT_MIPS_CONTENT'', 0x7000000C), (''SHT_MIPS_OPTIONS'', 0x7000000D), (''SHT_MIPS_SHDR'', 0x70000010),
     (''SHT_MIPS_FDESC'', 0x70000011), (''SHT_MIPS_EXTSYM'', 0x70000012), (''SHT_MIPS_DENSE'', 0x70000013),
     (''SHT_MIPS_PDESC'', 0x70000014), (''SHT_MIPS_LOCSYM'', 0x70000015), (''SHT_MIPS_AUXSYM'', 0x70000016),
     (''SHT_MIPS_OPTSYM'', 0x70000017), (''SHT_MIPS_LOCSTR'', 0x70000018), (''SHT_MIPS_LINE'', 0x70000019),
     (''SHT_MIPS_RFDESC'', 0x7000001A), (''SHT_MIPS_DELTASYM'', 0x7000001B),
     (''SHT_MIPS_DELTAINST'', 0x7000001C), (''SHT_MIPS_DELTACLASS'', 0x7000001D),
     (''SHT_MIPS_DWARF'', 0x7000001E), (''SHT_MIPS_DELTADECL'', 0x7000001F),
     (''SHT_MIPS_SYMBOL_LIB'', 0x70000020), (''SHT_MIPS_EVENTS'', 0x70000021),
     (''SHT_MIPS_TRANSLATE'', 0x70000022), (''SHT_MIPS_PIXIE'', 0x70000023), (''SHT_MIPS_XLATE'', 0x70000024),
     (''SHT_MIPS_XLATE_DEBUG'', 0x70000025), (''SHT_MIPS_WHIRL'', 0x70000026),
     (''SHT_MIPS_EH_REGION'', 0x70000027), (''SHT_MIPS_XLATE_OLD'', 0x70000028),
     (''SHT_MIPS_PDR_EXCEPTION'', 0x70000029), (''SHT_MIPS_ABIFLAGS'', 0x7000002A),
     (''SHT_MIPS_XHASH'', 0x7000002B)]"

definition SHF_MIPS_table :: "(string \<times> int) list" where
  "SHF_MIPS_table =
    [(''SHF_MIPS_GPREL'', 0x10000000), (''SHF_MIPS_MERGE'', 0x20000000), (''SHF_MIPS_ADDR'', 0x40000000),
     (''SHF_MIPS_STRINGS'', 0x80000000), (''SHF_MIPS_NOSTRIP'', 0x8000000), (''SHF_MIPS_LOCAL'', 0x4000000),
     (''SHF_MIPS_NAMES'', 0x2000000), (''SHF_MIPS_NODUPE'', 0x1000000)]"

definition STO_MIPS_table :: "(string \<times> int) list" where
  "STO_MIPS_table =
    [(''STO_MIPS_DEFAULT'', 0x0), (''STO_MIPS_INTERNAL'', 0x1), (''STO_MIPS_HIDDEN'', 0x2),
     (''STO_MIPS_PROTECTED'', 0x3), (''STO_MIPS_PLT'', 0x8), (''STO_MIPS_SC_ALIGN_UNUSED'', 0xFF)]"

definition STB_MIPS_SPLIT_COMMON :: int where "STB_MIPS_SPLIT_COMMON = 13"

definition ODK_table :: "(string \<times> int) list" where
  "ODK_table =
    [(''ODK_NULL'', 0), (''ODK_REGINFO'', 1), (''ODK_EXCEPTIONS'', 2), (''ODK_PAD'', 3), (''ODK_HWPATCH'', 4),
     (''ODK_FILL'', 5), (''ODK_TAGS'', 6), (''ODK_HWAND'', 7), (''ODK_HWOR'', 8)]"

definition OEX_table :: "(string \<times> int) list" where
  "OEX_table =
    [(''OEX_FPU_MIN'', 0x1F), (''OEX_FPU_MAX'', 0x1F00), (''OEX_PAGE0'', 0x10000), (''OEX_SMM'', 0x20000),
     (''OEX_FPDBUG'', 0x40000), (''OEX_PRECISEFP'', 0x40000), (''OEX_DISMISS'', 0x80000),
     (''OEX_FPU_INVAL'', 0x10), (''OEX_FPU_DIV0'', 0x8), (''OEX_FPU_OFLO'', 0x4), (''OEX_FPU_UFLO'', 0x2),
     (''OEX_FPU_INEX'', 0x1)]"

definition OHW_table :: "(string \<times> int) list" where
  "OHW_table =
    [(''OHW_R4KEOP'', 0x1), (''OHW_R8KPFETCH'', 0x2), (''OHW_R5KEOP'', 0x4), (''OHW_R5KCVTL'', 0x8)]"

definition OPAD_table :: "(string \<times> int) list" where
  "OPAD_table =
    [(''OPAD_PREFIX'', 0x1), (''OPAD_POSTFIX'', 0x2), (''OPAD_SYMBOL'', 0x4)]"

definition OHWA_table :: "(string \<times> int) list" where
  "OHWA_table =
    [(''OHWA0_R4KEOP_CHECKED'', 0x1), (''OHWA1_R4KEOP_CLEAN'', 0x2)]"

definition R_MIPS_table :: "(string \<times> int) list" where
  "R_MIPS_table =
    [(''R_MIPS_NONE'', 0), (''R_MIPS_16'', 1), (''R_MIPS_32'', 2), (''R_MIPS_REL32'', 3), (''R_MIPS_26'', 4),
     (''R_MIPS_HI16'', 5), (''R_MIPS_LO16'', 6), (''R_MIPS_GPREL16'', 7), (''R_MIPS_LITERAL'', 8),
     (''R_MIPS_GOT16'', 9), (''R_MIPS_PC16'', 10), (''R_MIPS_CALL16'', 11), (''R_MIPS_GPREL32'', 12),
     (''R_MIPS_SHIFT5'', 16), (''R_MIPS_SHIFT6'', 17), (''R_MIPS_64'', 18), (''R_MIPS_GOT_DISP'', 19),
     (''R_MIPS_GOT_PAGE'', 20), (''R_MIPS_GOT_OFST'', 21), (''R_MIPS_GOT_HI16'', 22),
     (''R_MIPS_GOT_LO16'', 23), (''R_MIPS_SUB'', 24), (''R_MIPS_INSERT_A'', 25), (''R_MIPS_INSERT_B'', 26),
     (''R_MIPS_DELETE'', 27), (''R_MIPS_HIGHER'', 28), (''R_MIPS_HIGHEST'', 29), (''R_MIPS_CALL_HI16'', 30),
     (''R_MIPS_CALL_LO16'', 31), (''R_MIPS_SCN_DISP'', 32), (''R_MIPS_REL16'', 33),
     (''R_MIPS_ADD_IMMEDIATE'', 34), (''R_MIPS_PJUMP'', 35), (''R_MIPS_RELGOT'', 36), (''R_MIPS_JALR'', 37),
     (''R_MIPS_TLS_DTPMOD32'', 38), (''R_MIPS_TLS_DTPREL32'', 39), (''R_MIPS_TLS_DTPMOD64'', 40),
     (''R_MIPS_TLS_DTPREL64'', 41), (''R_MIPS_TLS_GD'', 42), (''R_MIPS_TLS_LDM'', 43),
     (''R_MIPS_TLS_DTPREL_HI16'', 44), (''R_MIPS_TLS_DTPREL_LO16'', 45), (''R_MIPS_TLS_GOTTPREL'', 46),
     (''R_MIPS_TLS_TPREL32'', 47), (''R_MIPS_TLS_TPREL64'', 48), (''R_MIPS_TLS_TPREL_HI16'', 49),
     (''R_MIPS_TLS_TPREL_LO16'', 50), (''R_MIPS_GLOB_DAT'', 51), (''R_MIPS_PC21_S2'', 60),
     (''R_MIPS_PC26_S2'', 61), (''R_MIPS_PC18_S3'', 62), (''R_MIPS_PC19_S2'', 63), (''R_MIPS_PCHI16'', 64),
     (''R_MIPS_PCLO16'', 65), (''R_MIPS16_26'', 100), (''R_MIPS16_GPREL'', 101), (''R_MIPS16_GOT16'', 102),
     (''R_MIPS16_CALL16'', 103), (''R_MIPS16_HI16'', 104), (''R_MIPS16_LO16'', 105),
     (''R_MIPS16_TLS_GD'', 106), (''R_MIPS16_TLS_LDM'', 107), (''R_MIPS16_TLS_DTPREL_HI16'', 108),
     (''R_MIPS16_TLS_DTPREL_LO16'', 109), (''R_MIPS16_TLS_GOTTPREL'', 110),
     (''R_MIPS16_TLS_TPREL_HI16'', 111), (''R_MIPS16_TLS_TPREL_LO16'', 112), (''R_MIPS16_PC16_S1'', 113),
     (''R_MIPS_COPY'', 126), (''R_MIPS_JUMP_SLOT'', 127), (''R_MIPS_RELATIVE'', 128),
     (''R_MICROMIPS_26_S1'', 133), (''R_MICROMIPS_HI16'', 134), (''R_MICROMIPS_LO16'', 135),
     (''R_MICROMIPS_GPREL16'', 136), (''R_MICROMIPS_LITERAL'', 137), (''R_MICROMIPS_GOT16'', 138),
     (''R_MICROMIPS_PC7_S1'', 139), (''R_MICROMIPS_PC10_S1'', 140), (''R_MICROMIPS_PC16_S1'', 141),
     (''R_MICROMIPS_CALL16'', 142), (''R_MICROMIPS_GOT_DISP'', 145), (''R_MICROMIPS_GOT_PAGE'', 146),
     (''R_MICROMIPS_GOT_OFST'', 147), (''R_MICROMIPS_GOT_HI16'', 148), (''R_MICROMIPS_GOT_LO16'', 149),
     (''R_MICROMIPS_SUB'', 150), (''R_MICROMIPS_HIGHER'', 151), (''R_MICROMIPS_HIGHEST'', 152),
     (''R_MICROMIPS_CALL_HI16'', 153), (''R_MICROMIPS_CALL_LO16'', 154), (''R_MICROMIPS_SCN_DISP'', 155),
     (''R_MICROMIPS_JALR'', 156), (''R_MICROMIPS_HI0_LO16'', 157), (''R_MICROMIPS_TLS_GD'', 162),
     (''R_MICROMIPS_TLS_LDM'', 163), (''R_MICROMIPS_TLS_DTPREL_HI16'', 164),
     (''R_MICROMIPS_TLS_DTPREL_LO16'', 165), (''R_MICROMIPS_TLS_GOTTPREL'', 166),
     (''R_MICROMIPS_TLS_TPREL_HI16'', 169), (''R_MICROMIPS_TLS_TPREL_LO16'', 170),
     (''R_MICROMIPS_GPREL7_S2'', 172), (''R_MICROMIPS_PC23_S2'', 173), (''R_MIPS_PC32'', 248),
     (''R_MIPS_EH'', 249), (''R_MIPS_GNU_REL16_S2'', 250), (''R_MIPS_GNU_VTINHERIT'', 253),
     (''R_MIPS_GNU_VTENTRY'', 254), (''R_MIPS_NUM'', 255)]"

definition PT_MIPS_table :: "(string \<times> int) list" where
  "PT_MIPS_table =
    [(''PT_MIPS_REGINFO'', 0x70000000), (''PT_MIPS_RTPROC'', 0x70000001), (''PT_MIPS_OPTIONS'', 0x70000002),
     (''PT_MIPS_ABIFLAGS'', 0x70000003)]"

definition PF_MIPS_LOCAL :: int where "PF_MIPS_LOCAL = 0x10000000"

definition DT_MIPS_table :: "(string \<times> int) list" where
  "DT_MIPS_table =
    [(''DT_MIPS_RLD_VERSION'', 0x70000001), (''DT_MIPS_TIME_STAMP'', 0x70000002),
     (''DT_MIPS_ICHECKSUM'', 0x70000003), (''DT_MIPS_IVERSION'', 0x70000004), (''DT_MIPS_FLAGS'', 0x70000005),
     (''DT_MIPS_BASE_ADDRESS'', 0x70000006), (''DT_MIPS_MSYM'', 0x70000007),
     (''DT_MIPS_CONFLICT'', 0x70000008), (''DT_MIPS_LIBLIST'', 0x70000009),
     (''DT_MIPS_LOCAL_GOTNO'', 0x7000000A), (''DT_MIPS_CONFLICTNO'', 0x7000000B),
     (''DT_MIPS_LIBLISTNO'', 0x70000010), (''DT_MIPS_SYMTABNO'', 0x70000011),
     (''DT_MIPS_UNREFEXTNO'', 0x70000012), (''DT_MIPS_GOTSYM'', 0x70000013),
     (''DT_MIPS_HIPAGENO'', 0x70000014), (''DT_MIPS_RLD_MAP'', 0x70000016),
     (''DT_MIPS_DELTA_CLASS'', 0x70000017), (''DT_MIPS_DELTA_CLASS_NO'', 0x70000018),
     (''DT_MIPS_DELTA_INSTANCE'', 0x70000019), (''DT_MIPS_DELTA_INSTANCE_NO'', 0x7000001A),
     (''DT_MIPS_DELTA_RELOC'', 0x7000001B), (''DT_MIPS_DELTA_RELOC_NO'', 0x7000001C),
     (''DT_MIPS_DELTA_SYM'', 0x7000001D), (''DT_MIPS_DELTA_SYM_NO'', 0x7000001E),
     (''DT_MIPS_DELTA_CLASSSYM'', 0x70000020), (''DT_MIPS_DELTA_CLASSSYM_NO'', 0x70000021),
     (''DT_MIPS_CXX_FLAGS'', 0x70000022), (''DT_MIPS_PIXIE_INIT'', 0x70000023),
     (''DT_MIPS_SYMBOL_LIB'', 0x70000024), (''DT_MIPS_LOCALPAGE_GOTIDX'', 0x70000025),
     (''DT_MIPS_LOCAL_GOTIDX'', 0x70000026), (''DT_MIPS_HIDDEN_GOTIDX'', 0x70000027),
     (''DT_MIPS_PROTECTED_GOTIDX'', 0x70000028), (''DT_MIPS_OPTIONS'', 0x70000029),
     (''DT_MIPS_INTERFACE'', 0x7000002A), (''DT_MIPS_DYNSTR_ALIGN'', 0x7000002B),
     (''DT_MIPS_INTERFACE_SIZE'', 0x7000002C), (''DT_MIPS_RLD_TEXT_RESOLVE_ADDR'', 0x7000002D),
     (''DT_MIPS_PERF_SUFFIX'', 0x7000002E), (''DT_MIPS_COMPACT_SIZE'', 0x7000002F),
     (''DT_MIPS_GP_VALUE'', 0x70000030), (''DT_MIPS_AUX_DYNAMIC'', 0x70000031),
     (''DT_MIPS_PLTGOT'', 0x70000032), (''DT_MIPS_RWPLT'', 0x70000034), (''DT_MIPS_RLD_MAP_REL'', 0x70000035),
     (''DT_MIPS_XHASH'', 0x70000036), (''DT_MIPS_NUM'', 0x37)]"

definition RHF_table :: "(string \<times> int) list" where
  "RHF_table =
    [(''RHF_NONE'', 0), (''RHF_QUICKSTART'', push_bit 0 1), (''RHF_NOTPOT'', push_bit 1 1),
     (''RHF_NO_LIBRARY_REPLACEMENT'', push_bit 2 1), (''RHF_NO_MOVE'', push_bit 3 1),
     (''RHF_SGI_ONLY'', push_bit 4 1), (''RHF_GUARANTEE_INIT'', push_bit 5 1),
     (''RHF_DELTA_C_PLUS_PLUS'', push_bit 6 1), (''RHF_GUARANTEE_START_INIT'', push_bit 7 1),
     (''RHF_PIXIE'', push_bit 8 1), (''RHF_DEFAULT_DELAY_LOAD'', push_bit 9 1),
     (''RHF_REQUICKSTART'', push_bit 10 1), (''RHF_REQUICKSTARTED'', push_bit 11 1),
     (''RHF_CORD'', push_bit 12 1), (''RHF_NO_UNRES_UNDEF'', push_bit 13 1),
     (''RHF_RLD_ORDER_SAFE'', push_bit 14 1)]"

definition LL_table :: "(string \<times> int) list" where
  "LL_table =
    [(''LL_NONE'', 0), (''LL_EXACT_MATCH'', push_bit 0 1), (''LL_IGNORE_INT_VER'', push_bit 1 1),
     (''LL_REQUIRE_MINOR'', push_bit 2 1), (''LL_EXPORTS'', push_bit 3 1), (''LL_DELAY_LOAD'', push_bit 4 1),
     (''LL_DELTA'', push_bit 5 1)]"

definition MIPS_AFL_REG_table :: "(string \<times> int) list" where
  "MIPS_AFL_REG_table =
    [(''MIPS_AFL_REG_NONE'', 0x0), (''MIPS_AFL_REG_32'', 0x1), (''MIPS_AFL_REG_64'', 0x2),
     (''MIPS_AFL_REG_128'', 0x3)]"

definition MIPS_AFL_ASE_table :: "(string \<times> int) list" where
  "MIPS_AFL_ASE_table =
    [(''MIPS_AFL_ASE_DSP'', 0x1), (''MIPS_AFL_ASE_DSPR2'', 0x2), (''MIPS_AFL_ASE_EVA'', 0x4),
     (''MIPS_AFL_ASE_MCU'', 0x8), (''MIPS_AFL_ASE_MDMX'', 0x10), (''MIPS_AFL_ASE_MIPS3D'', 0x20),
     (''MIPS_AFL_ASE_MT'', 0x40), (''MIPS_AFL_ASE_SMARTMIPS'', 0x80), (''MIPS_AFL_ASE_VIRT'', 0x100),
     (''MIPS_AFL_ASE_MSA'', 0x200), (''MIPS_AFL_ASE_MIPS16'', 0x400), (''MIPS_AFL_ASE_MICROMIPS'', 0x800),
     (''MIPS_AFL_ASE_XPA'', 0x1000), (''MIPS_AFL_ASE_MASK'', 0x1FFF)]"

definition MIPS_AFL_EXT_table :: "(string \<times> int) list" where
  "MIPS_AFL_EXT_table =
    [(''MIPS_AFL_EXT_XLR'', 1), (''MIPS_AFL_EXT_OCTEON2'', 2), (''MIPS_AFL_EXT_OCTEONP'', 3),
     (''MIPS_AFL_EXT_LOONGSON_3A'', 4), (''MIPS_AFL_EXT_OCTEON'', 5), (''MIPS_AFL_EXT_5900'', 6),
     (''MIPS_AFL_EXT_4650'', 7), (''MIPS_AFL_EXT_4010'', 8), (''MIPS_AFL_EXT_4100'', 9),
     (''MIPS_AFL_EXT_3900'', 10), (''MIPS_AFL_EXT_10000'', 11), (''MIPS_AFL_EXT_SB1'', 12),
     (''MIPS_AFL_EXT_4111'', 13), (''MIPS_AFL_EXT_4120'', 14), (''MIPS_AFL_EXT_5400'', 15),
     (''MIPS_AFL_EXT_5500'', 16), (''MIPS_AFL_EXT_LOONGSON_2E'', 17), (''MIPS_AFL_EXT_LOONGSON_2F'', 18)]"

definition MIPS_AFL_FLAGS1_ODDSPREG :: int where "MIPS_AFL_FLAGS1_ODDSPREG = 1"

definition Val_GNU_MIPS_ABI_FP_table :: "(string \<times> int) list" where
  "Val_GNU_MIPS_ABI_FP_table =
    [(''Val_GNU_MIPS_ABI_FP_ANY'', 0), (''Val_GNU_MIPS_ABI_FP_DOUBLE'', 1),
     (''Val_GNU_MIPS_ABI_FP_SINGLE'', 2), (''Val_GNU_MIPS_ABI_FP_SOFT'', 3),
     (''Val_GNU_MIPS_ABI_FP_OLD_64'', 4), (''Val_GNU_MIPS_ABI_FP_XX'', 5), (''Val_GNU_MIPS_ABI_FP_64'', 6),
     (''Val_GNU_MIPS_ABI_FP_64A'', 7), (''Val_GNU_MIPS_ABI_FP_MAX'', 7)]"

subsection \<open>HPPA\<close>

definition EF_PARISC_table :: "(string \<times> int) list" where
  "EF_PARISC_table =
    [(''EF_PARISC_TRAPNIL'', 0x10000), (''EF_PARISC_EXT'', 0x20000), (''EF_PARISC_LSB'', 0x40000),
     (''EF_PARISC_WIDE'', 0x80000), (''EF_PARISC_NO_KABP'', 0x100000), (''EF_PARISC_LAZYSWAP'', 0x400000),
     (''EF_PARISC_ARCH'', 0xFFFF)]"

definition EFA_PARISC_table :: "(string \<times> int) list" where
  "EFA_PARISC_table =
    [(''EFA_PARISC_1_0'', 0x20B), (''EFA_PARISC_1_1'', 0x210), (''EFA_PARISC_2_0'', 0x214)]"

definition SHN_PARISC_table :: "(string \<times> int) list" where
  "SHN_PARISC_table =
    [(''SHN_PARISC_ANSI_COMMON'', 0xFF00), (''SHN_PARISC_HUGE_COMMON'', 0xFF01)]"

definition SHT_PARISC_table :: "(string \<times> int) list" where
  "SHT_PARISC_table =
    [(''SHT_PARISC_EXT'', 0x70000000), (''SHT_PARISC_UNWIND'', 0x70000001), (''SHT_PARISC_DOC'', 0x70000002)]"

definition SHF_PARISC_table :: "(string \<times> int) list" where
  "SHF_PARISC_table =
    [(''SHF_PARISC_SHORT'', 0x20000000), (''SHF_PARISC_HUGE'', 0x40000000), (''SHF_PARISC_SBP'', 0x80000000)]"

definition STT_PARISC_MILLICODE :: int where "STT_PARISC_MILLICODE = 13"

definition STT_HP_table :: "(string \<times> int) list" where
  "STT_HP_table =
    [(''STT_HP_OPAQUE'', 10 + 0x1), (''STT_HP_STUB'', 10 + 0x2)]"

definition R_PARISC_table :: "(string \<times> int) list" where
  "R_PARISC_table =
    [(''R_PARISC_NONE'', 0), (''R_PARISC_DIR32'', 1), (''R_PARISC_DIR21L'', 2), (''R_PARISC_DIR17R'', 3),
     (''R_PARISC_DIR17F'', 4), (''R_PARISC_DIR14R'', 6), (''R_PARISC_PCREL32'', 9),
     (''R_PARISC_PCREL21L'', 10), (''R_PARISC_PCREL17R'', 11), (''R_PARISC_PCREL17F'', 12),
     (''R_PARISC_PCREL14R'', 14), (''R_PARISC_DPREL21L'', 18), (''R_PARISC_DPREL14R'', 22),
     (''R_PARISC_GPREL21L'', 26), (''R_PARISC_GPREL14R'', 30), (''R_PARISC_LTOFF21L'', 34),
     (''R_PARISC_LTOFF14R'', 38), (''R_PARISC_SECREL32'', 41), (''R_PARISC_SEGBASE'', 48),
     (''R_PARISC_SEGREL32'', 49), (''R_PARISC_PLTOFF21L'', 50), (''R_PARISC_PLTOFF14R'', 54),
     (''R_PARISC_LTOFF_FPTR32'', 57), (''R_PARISC_LTOFF_FPTR21L'', 58), (''R_PARISC_LTOFF_FPTR14R'', 62),
     (''R_PARISC_FPTR64'', 64), (''R_PARISC_PLABEL32'', 65), (''R_PARISC_PLABEL21L'', 66),
     (''R_PARISC_PLABEL14R'', 70), (''R_PARISC_PCREL64'', 72), (''R_PARISC_PCREL22F'', 74),
     (''R_PARISC_PCREL14WR'', 75), (''R_PARISC_PCREL14DR'', 76), (''R_PARISC_PCREL16F'', 77),
     (''R_PARISC_PCREL16WF'', 78), (''R_PARISC_PCREL16DF'', 79), (''R_PARISC_DIR64'', 80),
     (''R_PARISC_DIR14WR'', 83), (''R_PARISC_DIR14DR'', 84), (''R_PARISC_DIR16F'', 85),
     (''R_PARISC_DIR16WF'', 86), (''R_PARISC_DIR16DF'', 87), (''R_PARISC_GPREL64'', 88),
     (''R_PARISC_GPREL14WR'', 91), (''R_PARISC_GPREL14DR'', 92), (''R_PARISC_GPREL16F'', 93),
     (''R_PARISC_GPREL16WF'', 94), (''R_PARISC_GPREL16DF'', 95), (''R_PARISC_LTOFF64'', 96),
     (''R_PARISC_LTOFF14WR'', 99), (''R_PARISC_LTOFF14DR'', 100), (''R_PARISC_LTOFF16F'', 101),
     (''R_PARISC_LTOFF16WF'', 102), (''R_PARISC_LTOFF16DF'', 103), (''R_PARISC_SECREL64'', 104),
     (''R_PARISC_SEGREL64'', 112), (''R_PARISC_PLTOFF14WR'', 115), (''R_PARISC_PLTOFF14DR'', 116),
     (''R_PARISC_PLTOFF16F'', 117), (''R_PARISC_PLTOFF16WF'', 118), (''R_PARISC_PLTOFF16DF'', 119),
     (''R_PARISC_LTOFF_FPTR64'', 120), (''R_PARISC_LTOFF_FPTR14WR'', 123), (''R_PARISC_LTOFF_FPTR14DR'', 124),
     (''R_PARISC_LTOFF_FPTR16F'', 125), (''R_PARISC_LTOFF_FPTR16WF'', 126),
     (''R_PARISC_LTOFF_FPTR16DF'', 127), (''R_PARISC_LORESERVE'', 128), (''R_PARISC_COPY'', 128),
     (''R_PARISC_IPLT'', 129), (''R_PARISC_EPLT'', 130), (''R_PARISC_TPREL32'', 153),
     (''R_PARISC_TPREL21L'', 154), (''R_PARISC_TPREL14R'', 158), (''R_PARISC_LTOFF_TP21L'', 162),
     (''R_PARISC_LTOFF_TP14R'', 166), (''R_PARISC_LTOFF_TP14F'', 167), (''R_PARISC_TPREL64'', 216),
     (''R_PARISC_TPREL14WR'', 219), (''R_PARISC_TPREL14DR'', 220), (''R_PARISC_TPREL16F'', 221),
     (''R_PARISC_TPREL16WF'', 222), (''R_PARISC_TPREL16DF'', 223), (''R_PARISC_LTOFF_TP64'', 224),
     (''R_PARISC_LTOFF_TP14WR'', 227), (''R_PARISC_LTOFF_TP14DR'', 228), (''R_PARISC_LTOFF_TP16F'', 229),
     (''R_PARISC_LTOFF_TP16WF'', 230), (''R_PARISC_LTOFF_TP16DF'', 231), (''R_PARISC_GNU_VTENTRY'', 232),
     (''R_PARISC_GNU_VTINHERIT'', 233), (''R_PARISC_TLS_GD21L'', 234), (''R_PARISC_TLS_GD14R'', 235),
     (''R_PARISC_TLS_GDCALL'', 236), (''R_PARISC_TLS_LDM21L'', 237), (''R_PARISC_TLS_LDM14R'', 238),
     (''R_PARISC_TLS_LDMCALL'', 239), (''R_PARISC_TLS_LDO21L'', 240), (''R_PARISC_TLS_LDO14R'', 241),
     (''R_PARISC_TLS_DTPMOD32'', 242), (''R_PARISC_TLS_DTPMOD64'', 243), (''R_PARISC_TLS_DTPOFF32'', 244),
     (''R_PARISC_TLS_DTPOFF64'', 245), (''R_PARISC_TLS_LE21L'', 154), (''R_PARISC_TLS_LE14R'', 158),
     (''R_PARISC_TLS_IE21L'', 162), (''R_PARISC_TLS_IE14R'', 166), (''R_PARISC_TLS_TPREL32'', 153),
     (''R_PARISC_TLS_TPREL64'', 216), (''R_PARISC_HIRESERVE'', 255)]"

definition PT_HP_table :: "(string \<times> int) list" where
  "PT_HP_table =
    [(''PT_HP_TLS'', 0x60000000 + 0x0), (''PT_HP_CORE_NONE'', 0x60000000 + 0x1),
     (''PT_HP_CORE_VERSION'', 0x60000000 + 0x2), (''PT_HP_CORE_KERNEL'', 0x60000000 + 0x3),
     (''PT_HP_CORE_COMM'', 0x60000000 + 0x4), (''PT_HP_CORE_PROC'', 0x60000000 + 0x5),
     (''PT_HP_CORE_LOADABLE'', 0x60000000 + 0x6), (''PT_HP_CORE_STACK'', 0x60000000 + 0x7),
     (''PT_HP_CORE_SHM'', 0x60000000 + 0x8), (''PT_HP_CORE_MMF'', 0x60000000 + 0x9),
     (''PT_HP_PARALLEL'', 0x60000000 + 0x10), (''PT_HP_FASTBIND'', 0x60000000 + 0x11),
     (''PT_HP_OPT_ANNOT'', 0x60000000 + 0x12), (''PT_HP_HSL_ANNOT'', 0x60000000 + 0x13),
     (''PT_HP_STACK'', 0x60000000 + 0x14)]"

definition PT_PARISC_table :: "(string \<times> int) list" where
  "PT_PARISC_table =
    [(''PT_PARISC_ARCHEXT'', 0x70000000), (''PT_PARISC_UNWIND'', 0x70000001)]"

definition PF_PARISC_SBP :: int where "PF_PARISC_SBP = 0x8000000"

definition PF_HP_table :: "(string \<times> int) list" where
  "PF_HP_table =
    [(''PF_HP_PAGE_SIZE'', 0x100000), (''PF_HP_FAR_SHARED'', 0x200000), (''PF_HP_NEAR_SHARED'', 0x400000),
     (''PF_HP_CODE'', 0x1000000), (''PF_HP_MODIFY'', 0x2000000), (''PF_HP_LAZYSWAP'', 0x4000000),
     (''PF_HP_SBP'', 0x8000000)]"

subsection \<open>Alpha\<close>

definition EF_ALPHA_table :: "(string \<times> int) list" where
  "EF_ALPHA_table =
    [(''EF_ALPHA_32BIT'', 1), (''EF_ALPHA_CANRELAX'', 2)]"

definition SHT_ALPHA_table :: "(string \<times> int) list" where
  "SHT_ALPHA_table =
    [(''SHT_ALPHA_DEBUG'', 0x70000001), (''SHT_ALPHA_REGINFO'', 0x70000002)]"

definition SHF_ALPHA_GPREL :: int where "SHF_ALPHA_GPREL = 0x10000000"

definition STO_ALPHA_table :: "(string \<times> int) list" where
  "STO_ALPHA_table =
    [(''STO_ALPHA_NOPV'', 0x80), (''STO_ALPHA_STD_GPLOAD'', 0x88)]"

definition R_ALPHA_table :: "(string \<times> int) list" where
  "R_ALPHA_table =
    [(''R_ALPHA_NONE'', 0), (''R_ALPHA_REFLONG'', 1), (''R_ALPHA_REFQUAD'', 2), (''R_ALPHA_GPREL32'', 3),
     (''R_ALPHA_LITERAL'', 4), (''R_ALPHA_LITUSE'', 5), (''R_ALPHA_GPDISP'', 6), (''R_ALPHA_BRADDR'', 7),
     (''R_ALPHA_HINT'', 8), (''R_ALPHA_SREL16'', 9), (''R_ALPHA_SREL32'', 10), (''R_ALPHA_SREL64'', 11),
     (''R_ALPHA_GPRELHIGH'', 17), (''R_ALPHA_GPRELLOW'', 18), (''R_ALPHA_GPREL16'', 19),
     (''R_ALPHA_COPY'', 24), (''R_ALPHA_GLOB_DAT'', 25), (''R_ALPHA_JMP_SLOT'', 26),
     (''R_ALPHA_RELATIVE'', 27), (''R_ALPHA_TLS_GD_HI'', 28), (''R_ALPHA_TLSGD'', 29),
     (''R_ALPHA_TLS_LDM'', 30), (''R_ALPHA_DTPMOD64'', 31), (''R_ALPHA_GOTDTPREL'', 32),
     (''R_ALPHA_DTPREL64'', 33), (''R_ALPHA_DTPRELHI'', 34), (''R_ALPHA_DTPRELLO'', 35),
     (''R_ALPHA_DTPREL16'', 36), (''R_ALPHA_GOTTPREL'', 37), (''R_ALPHA_TPREL64'', 38),
     (''R_ALPHA_TPRELHI'', 39), (''R_ALPHA_TPRELLO'', 40), (''R_ALPHA_TPREL16'', 41), (''R_ALPHA_NUM'', 46)]"

definition LITUSE_ALPHA_table :: "(string \<times> int) list" where
  "LITUSE_ALPHA_table =
    [(''LITUSE_ALPHA_ADDR'', 0), (''LITUSE_ALPHA_BASE'', 1), (''LITUSE_ALPHA_BYTOFF'', 2),
     (''LITUSE_ALPHA_JSR'', 3), (''LITUSE_ALPHA_TLS_GD'', 4), (''LITUSE_ALPHA_TLS_LDM'', 5)]"

definition DT_ALPHA_table :: "(string \<times> int) list" where
  "DT_ALPHA_table =
    [(''DT_ALPHA_PLTRO'', 0x70000000 + 0), (''DT_ALPHA_NUM'', 1)]"

subsection \<open>PowerPC\<close>

definition EF_PPC_table :: "(string \<times> int) list" where
  "EF_PPC_table =
    [(''EF_PPC_EMB'', 0x80000000), (''EF_PPC_RELOCATABLE'', 0x10000), (''EF_PPC_RELOCATABLE_LIB'', 0x8000)]"

definition R_PPC_table :: "(string \<times> int) list" where
  "R_PPC_table =
    [(''R_PPC_NONE'', 0), (''R_PPC_ADDR32'', 1), (''R_PPC_ADDR24'', 2), (''R_PPC_ADDR16'', 3),
     (''R_PPC_ADDR16_LO'', 4), (''R_PPC_ADDR16_HI'', 5), (''R_PPC_ADDR16_HA'', 6), (''R_PPC_ADDR14'', 7),
     (''R_PPC_ADDR14_BRTAKEN'', 8), (''R_PPC_ADDR14_BRNTAKEN'', 9), (''R_PPC_REL24'', 10),
     (''R_PPC_REL14'', 11), (''R_PPC_REL14_BRTAKEN'', 12), (''R_PPC_REL14_BRNTAKEN'', 13),
     (''R_PPC_GOT16'', 14), (''R_PPC_GOT16_LO'', 15), (''R_PPC_GOT16_HI'', 16), (''R_PPC_GOT16_HA'', 17),
     (''R_PPC_PLTREL24'', 18), (''R_PPC_COPY'', 19), (''R_PPC_GLOB_DAT'', 20), (''R_PPC_JMP_SLOT'', 21),
     (''R_PPC_RELATIVE'', 22), (''R_PPC_LOCAL24PC'', 23), (''R_PPC_UADDR32'', 24), (''R_PPC_UADDR16'', 25),
     (''R_PPC_REL32'', 26), (''R_PPC_PLT32'', 27), (''R_PPC_PLTREL32'', 28), (''R_PPC_PLT16_LO'', 29),
     (''R_PPC_PLT16_HI'', 30), (''R_PPC_PLT16_HA'', 31), (''R_PPC_SDAREL16'', 32), (''R_PPC_SECTOFF'', 33),
     (''R_PPC_SECTOFF_LO'', 34), (''R_PPC_SECTOFF_HI'', 35), (''R_PPC_SECTOFF_HA'', 36), (''R_PPC_TLS'', 67),
     (''R_PPC_DTPMOD32'', 68), (''R_PPC_TPREL16'', 69), (''R_PPC_TPREL16_LO'', 70),
     (''R_PPC_TPREL16_HI'', 71), (''R_PPC_TPREL16_HA'', 72), (''R_PPC_TPREL32'', 73),
     (''R_PPC_DTPREL16'', 74), (''R_PPC_DTPREL16_LO'', 75), (''R_PPC_DTPREL16_HI'', 76),
     (''R_PPC_DTPREL16_HA'', 77), (''R_PPC_DTPREL32'', 78), (''R_PPC_GOT_TLSGD16'', 79),
     (''R_PPC_GOT_TLSGD16_LO'', 80), (''R_PPC_GOT_TLSGD16_HI'', 81), (''R_PPC_GOT_TLSGD16_HA'', 82),
     (''R_PPC_GOT_TLSLD16'', 83), (''R_PPC_GOT_TLSLD16_LO'', 84), (''R_PPC_GOT_TLSLD16_HI'', 85),
     (''R_PPC_GOT_TLSLD16_HA'', 86), (''R_PPC_GOT_TPREL16'', 87), (''R_PPC_GOT_TPREL16_LO'', 88),
     (''R_PPC_GOT_TPREL16_HI'', 89), (''R_PPC_GOT_TPREL16_HA'', 90), (''R_PPC_GOT_DTPREL16'', 91),
     (''R_PPC_GOT_DTPREL16_LO'', 92), (''R_PPC_GOT_DTPREL16_HI'', 93), (''R_PPC_GOT_DTPREL16_HA'', 94),
     (''R_PPC_TLSGD'', 95), (''R_PPC_TLSLD'', 96), (''R_PPC_EMB_NADDR32'', 101), (''R_PPC_EMB_NADDR16'', 102),
     (''R_PPC_EMB_NADDR16_LO'', 103), (''R_PPC_EMB_NADDR16_HI'', 104), (''R_PPC_EMB_NADDR16_HA'', 105),
     (''R_PPC_EMB_SDAI16'', 106), (''R_PPC_EMB_SDA2I16'', 107), (''R_PPC_EMB_SDA2REL'', 108),
     (''R_PPC_EMB_SDA21'', 109), (''R_PPC_EMB_MRKREF'', 110), (''R_PPC_EMB_RELSEC16'', 111),
     (''R_PPC_EMB_RELST_LO'', 112), (''R_PPC_EMB_RELST_HI'', 113), (''R_PPC_EMB_RELST_HA'', 114),
     (''R_PPC_EMB_BIT_FLD'', 115), (''R_PPC_EMB_RELSDA'', 116), (''R_PPC_DIAB_SDA21_LO'', 180),
     (''R_PPC_DIAB_SDA21_HI'', 181), (''R_PPC_DIAB_SDA21_HA'', 182), (''R_PPC_DIAB_RELSDA_LO'', 183),
     (''R_PPC_DIAB_RELSDA_HI'', 184), (''R_PPC_DIAB_RELSDA_HA'', 185), (''R_PPC_IRELATIVE'', 248),
     (''R_PPC_REL16'', 249), (''R_PPC_REL16_LO'', 250), (''R_PPC_REL16_HI'', 251), (''R_PPC_REL16_HA'', 252),
     (''R_PPC_TOC16'', 255)]"

definition DT_PPC_table :: "(string \<times> int) list" where
  "DT_PPC_table =
    [(''DT_PPC_GOT'', 0x70000000 + 0), (''DT_PPC_OPT'', 0x70000000 + 1), (''DT_PPC_NUM'', 2)]"

definition PPC_OPT_TLS :: int where "PPC_OPT_TLS = 1"

subsection \<open>PowerPC64\<close>

definition R_PPC64_table :: "(string \<times> int) list" where
  "R_PPC64_table =
    [(''R_PPC64_NONE'', 0), (''R_PPC64_ADDR32'', 1), (''R_PPC64_ADDR24'', 2), (''R_PPC64_ADDR16'', 3),
     (''R_PPC64_ADDR16_LO'', 4), (''R_PPC64_ADDR16_HI'', 5), (''R_PPC64_ADDR16_HA'', 6),
     (''R_PPC64_ADDR14'', 7), (''R_PPC64_ADDR14_BRTAKEN'', 8), (''R_PPC64_ADDR14_BRNTAKEN'', 9),
     (''R_PPC64_REL24'', 10), (''R_PPC64_REL14'', 11), (''R_PPC64_REL14_BRTAKEN'', 12),
     (''R_PPC64_REL14_BRNTAKEN'', 13), (''R_PPC64_GOT16'', 14), (''R_PPC64_GOT16_LO'', 15),
     (''R_PPC64_GOT16_HI'', 16), (''R_PPC64_GOT16_HA'', 17), (''R_PPC64_COPY'', 19),
     (''R_PPC64_GLOB_DAT'', 20), (''R_PPC64_JMP_SLOT'', 21), (''R_PPC64_RELATIVE'', 22),
     (''R_PPC64_UADDR32'', 24), (''R_PPC64_UADDR16'', 25), (''R_PPC64_REL32'', 26), (''R_PPC64_PLT32'', 27),
     (''R_PPC64_PLTREL32'', 28), (''R_PPC64_PLT16_LO'', 29), (''R_PPC64_PLT16_HI'', 30),
     (''R_PPC64_PLT16_HA'', 31), (''R_PPC64_SECTOFF'', 33), (''R_PPC64_SECTOFF_LO'', 34),
     (''R_PPC64_SECTOFF_HI'', 35), (''R_PPC64_SECTOFF_HA'', 36), (''R_PPC64_ADDR30'', 37),
     (''R_PPC64_ADDR64'', 38), (''R_PPC64_ADDR16_HIGHER'', 39), (''R_PPC64_ADDR16_HIGHERA'', 40),
     (''R_PPC64_ADDR16_HIGHEST'', 41), (''R_PPC64_ADDR16_HIGHESTA'', 42), (''R_PPC64_UADDR64'', 43),
     (''R_PPC64_REL64'', 44), (''R_PPC64_PLT64'', 45), (''R_PPC64_PLTREL64'', 46), (''R_PPC64_TOC16'', 47),
     (''R_PPC64_TOC16_LO'', 48), (''R_PPC64_TOC16_HI'', 49), (''R_PPC64_TOC16_HA'', 50),
     (''R_PPC64_TOC'', 51), (''R_PPC64_PLTGOT16'', 52), (''R_PPC64_PLTGOT16_LO'', 53),
     (''R_PPC64_PLTGOT16_HI'', 54), (''R_PPC64_PLTGOT16_HA'', 55), (''R_PPC64_ADDR16_DS'', 56),
     (''R_PPC64_ADDR16_LO_DS'', 57), (''R_PPC64_GOT16_DS'', 58), (''R_PPC64_GOT16_LO_DS'', 59),
     (''R_PPC64_PLT16_LO_DS'', 60), (''R_PPC64_SECTOFF_DS'', 61), (''R_PPC64_SECTOFF_LO_DS'', 62),
     (''R_PPC64_TOC16_DS'', 63), (''R_PPC64_TOC16_LO_DS'', 64), (''R_PPC64_PLTGOT16_DS'', 65),
     (''R_PPC64_PLTGOT16_LO_DS'', 66), (''R_PPC64_TLS'', 67), (''R_PPC64_DTPMOD64'', 68),
     (''R_PPC64_TPREL16'', 69), (''R_PPC64_TPREL16_LO'', 70), (''R_PPC64_TPREL16_HI'', 71),
     (''R_PPC64_TPREL16_HA'', 72), (''R_PPC64_TPREL64'', 73), (''R_PPC64_DTPREL16'', 74),
     (''R_PPC64_DTPREL16_LO'', 75), (''R_PPC64_DTPREL16_HI'', 76), (''R_PPC64_DTPREL16_HA'', 77),
     (''R_PPC64_DTPREL64'', 78), (''R_PPC64_GOT_TLSGD16'', 79), (''R_PPC64_GOT_TLSGD16_LO'', 80),
     (''R_PPC64_GOT_TLSGD16_HI'', 81), (''R_PPC64_GOT_TLSGD16_HA'', 82), (''R_PPC64_GOT_TLSLD16'', 83),
     (''R_PPC64_GOT_TLSLD16_LO'', 84), (''R_PPC64_GOT_TLSLD16_HI'', 85), (''R_PPC64_GOT_TLSLD16_HA'', 86),
     (''R_PPC64_GOT_TPREL16_DS'', 87), (''R_PPC64_GOT_TPREL16_LO_DS'', 88), (''R_PPC64_GOT_TPREL16_HI'', 89),
     (''R_PPC64_GOT_TPREL16_HA'', 90), (''R_PPC64_GOT_DTPREL16_DS'', 91),
     (''R_PPC64_GOT_DTPREL16_LO_DS'', 92), (''R_PPC64_GOT_DTPREL16_HI'', 93),
     (''R_PPC64_GOT_DTPREL16_HA'', 94), (''R_PPC64_TPREL16_DS'', 95), (''R_PPC64_TPREL16_LO_DS'', 96),
     (''R_PPC64_TPREL16_HIGHER'', 97), (''R_PPC64_TPREL16_HIGHERA'', 98), (''R_PPC64_TPREL16_HIGHEST'', 99),
     (''R_PPC64_TPREL16_HIGHESTA'', 100), (''R_PPC64_DTPREL16_DS'', 101), (''R_PPC64_DTPREL16_LO_DS'', 102),
     (''R_PPC64_DTPREL16_HIGHER'', 103), (''R_PPC64_DTPREL16_HIGHERA'', 104),
     (''R_PPC64_DTPREL16_HIGHEST'', 105), (''R_PPC64_DTPREL16_HIGHESTA'', 106), (''R_PPC64_TLSGD'', 107),
     (''R_PPC64_TLSLD'', 108), (''R_PPC64_TOCSAVE'', 109), (''R_PPC64_ADDR16_HIGH'', 110),
     (''R_PPC64_ADDR16_HIGHA'', 111), (''R_PPC64_TPREL16_HIGH'', 112), (''R_PPC64_TPREL16_HIGHA'', 113),
     (''R_PPC64_DTPREL16_HIGH'', 114), (''R_PPC64_DTPREL16_HIGHA'', 115), (''R_PPC64_JMP_IREL'', 247),
     (''R_PPC64_IRELATIVE'', 248), (''R_PPC64_REL16'', 249), (''R_PPC64_REL16_LO'', 250),
     (''R_PPC64_REL16_HI'', 251), (''R_PPC64_REL16_HA'', 252)]"

definition EF_PPC64_ABI :: int where "EF_PPC64_ABI = 3"

definition DT_PPC64_table :: "(string \<times> int) list" where
  "DT_PPC64_table =
    [(''DT_PPC64_GLINK'', 0x70000000 + 0), (''DT_PPC64_OPD'', 0x70000000 + 1),
     (''DT_PPC64_OPDSZ'', 0x70000000 + 2), (''DT_PPC64_OPT'', 0x70000000 + 3), (''DT_PPC64_NUM'', 4)]"

definition PPC64_OPT_table :: "(string \<times> int) list" where
  "PPC64_OPT_table =
    [(''PPC64_OPT_TLS'', 1), (''PPC64_OPT_MULTI_TOC'', 2), (''PPC64_OPT_LOCALENTRY'', 4)]"

definition STO_PPC64_table :: "(string \<times> int) list" where
  "STO_PPC64_table =
    [(''STO_PPC64_LOCAL_BIT'', 5), (''STO_PPC64_LOCAL_MASK'', push_bit 5 7)]"

definition PPC64_LOCAL_ENTRY_OFFSET :: "u32 \<Rightarrow> u32" where
  "PPC64_LOCAL_ENTRY_OFFSET other =
     push_bit 2 (drop_bit 2 (push_bit (unat (drop_bit 5 (other AND push_bit 5 7))) 1))"

subsection \<open>ARM\<close>

definition EF_ARM_table :: "(string \<times> int) list" where
  "EF_ARM_table =
    [(''EF_ARM_RELEXEC'', 0x1), (''EF_ARM_HASENTRY'', 0x2), (''EF_ARM_INTERWORK'', 0x4),
     (''EF_ARM_APCS_26'', 0x8), (''EF_ARM_APCS_FLOAT'', 0x10), (''EF_ARM_PIC'', 0x20),
     (''EF_ARM_ALIGN8'', 0x40), (''EF_ARM_NEW_ABI'', 0x80), (''EF_ARM_OLD_ABI'', 0x100),
     (''EF_ARM_SOFT_FLOAT'', 0x200), (''EF_ARM_VFP_FLOAT'', 0x400), (''EF_ARM_MAVERICK_FLOAT'', 0x800),
     (''EF_ARM_ABI_FLOAT_SOFT'', 0x200), (''EF_ARM_ABI_FLOAT_HARD'', 0x400), (''EF_ARM_SYMSARESORTED'', 0x4),
     (''EF_ARM_DYNSYMSUSESEGIDX'', 0x8), (''EF_ARM_MAPSYMSFIRST'', 0x10), (''EF_ARM_EABIMASK'', 0xFF000000),
     (''EF_ARM_BE8'', 0x800000), (''EF_ARM_LE8'', 0x400000), (''EF_ARM_EABI_UNKNOWN'', 0x0),
     (''EF_ARM_EABI_VER1'', 0x1000000), (''EF_ARM_EABI_VER2'', 0x2000000), (''EF_ARM_EABI_VER3'', 0x3000000),
     (''EF_ARM_EABI_VER4'', 0x4000000), (''EF_ARM_EABI_VER5'', 0x5000000)]"

definition EF_ARM_EABI_VERSION :: "u32 \<Rightarrow> u32" where
  "EF_ARM_EABI_VERSION flags = flags AND 0xFF000000"

definition STT_ARM_table :: "(string \<times> int) list" where
  "STT_ARM_table =
    [(''STT_ARM_TFUNC'', 13), (''STT_ARM_16BIT'', 15)]"

definition SHF_ARM_table :: "(string \<times> int) list" where
  "SHF_ARM_table =
    [(''SHF_ARM_ENTRYSECT'', 0x10000000), (''SHF_ARM_COMDEF'', 0x80000000)]"

definition PF_ARM_table :: "(string \<times> int) list" where
  "PF_ARM_table =
    [(''PF_ARM_SB'', 0x10000000), (''PF_ARM_PI'', 0x20000000), (''PF_ARM_ABS'', 0x40000000)]"

definition PT_ARM_EXIDX :: int where "PT_ARM_EXIDX = 0x70000000 + 1"

definition SHT_ARM_table :: "(string \<times> int) list" where
  "SHT_ARM_table =
    [(''SHT_ARM_EXIDX'', 0x70000000 + 1), (''SHT_ARM_PREEMPTMAP'', 0x70000000 + 2),
     (''SHT_ARM_ATTRIBUTES'', 0x70000000 + 3)]"

subsection \<open>AArch64\<close>

definition R_AARCH64_table :: "(string \<times> int) list" where
  "R_AARCH64_table =
    [(''R_AARCH64_NONE'', 0), (''R_AARCH64_P32_ABS32'', 1), (''R_AARCH64_P32_COPY'', 180),
     (''R_AARCH64_P32_GLOB_DAT'', 181), (''R_AARCH64_P32_JUMP_SLOT'', 182), (''R_AARCH64_P32_RELATIVE'', 183),
     (''R_AARCH64_P32_TLS_DTPMOD'', 184), (''R_AARCH64_P32_TLS_DTPREL'', 185),
     (''R_AARCH64_P32_TLS_TPREL'', 186), (''R_AARCH64_P32_TLSDESC'', 187), (''R_AARCH64_P32_IRELATIVE'', 188),
     (''R_AARCH64_ABS64'', 257), (''R_AARCH64_ABS32'', 258), (''R_AARCH64_ABS16'', 259),
     (''R_AARCH64_PREL64'', 260), (''R_AARCH64_PREL32'', 261), (''R_AARCH64_PREL16'', 262),
     (''R_AARCH64_MOVW_UABS_G0'', 263), (''R_AARCH64_MOVW_UABS_G0_NC'', 264),
     (''R_AARCH64_MOVW_UABS_G1'', 265), (''R_AARCH64_MOVW_UABS_G1_NC'', 266),
     (''R_AARCH64_MOVW_UABS_G2'', 267), (''R_AARCH64_MOVW_UABS_G2_NC'', 268),
     (''R_AARCH64_MOVW_UABS_G3'', 269), (''R_AARCH64_MOVW_SABS_G0'', 270), (''R_AARCH64_MOVW_SABS_G1'', 271),
     (''R_AARCH64_MOVW_SABS_G2'', 272), (''R_AARCH64_LD_PREL_LO19'', 273), (''R_AARCH64_ADR_PREL_LO21'', 274),
     (''R_AARCH64_ADR_PREL_PG_HI21'', 275), (''R_AARCH64_ADR_PREL_PG_HI21_NC'', 276),
     (''R_AARCH64_ADD_ABS_LO12_NC'', 277), (''R_AARCH64_LDST8_ABS_LO12_NC'', 278),
     (''R_AARCH64_TSTBR14'', 279), (''R_AARCH64_CONDBR19'', 280), (''R_AARCH64_JUMP26'', 282),
     (''R_AARCH64_CALL26'', 283), (''R_AARCH64_LDST16_ABS_LO12_NC'', 284),
     (''R_AARCH64_LDST32_ABS_LO12_NC'', 285), (''R_AARCH64_LDST64_ABS_LO12_NC'', 286),
     (''R_AARCH64_MOVW_PREL_G0'', 287), (''R_AARCH64_MOVW_PREL_G0_NC'', 288),
     (''R_AARCH64_MOVW_PREL_G1'', 289), (''R_AARCH64_MOVW_PREL_G1_NC'', 290),
     (''R_AARCH64_MOVW_PREL_G2'', 291), (''R_AARCH64_MOVW_PREL_G2_NC'', 292),
     (''R_AARCH64_MOVW_PREL_G3'', 293), (''R_AARCH64_LDST128_ABS_LO12_NC'', 299),
     (''R_AARCH64_MOVW_GOTOFF_G0'', 300), (''R_AARCH64_MOVW_GOTOFF_G0_NC'', 301),
     (''R_AARCH64_MOVW_GOTOFF_G1'', 302), (''R_AARCH64_MOVW_GOTOFF_G1_NC'', 303),
     (''R_AARCH64_MOVW_GOTOFF_G2'', 304), (''R_AARCH64_MOVW_GOTOFF_G2_NC'', 305),
     (''R_AARCH64_MOVW_GOTOFF_G3'', 306), (''R_AARCH64_GOTREL64'', 307), (''R_AARCH64_GOTREL32'', 308),
     (''R_AARCH64_GOT_LD_PREL19'', 309), (''R_AARCH64_LD64_GOTOFF_LO15'', 310),
     (''R_AARCH64_ADR_GOT_PAGE'', 311), (''R_AARCH64_LD64_GOT_LO12_NC'', 312),
     (''R_AARCH64_LD64_GOTPAGE_LO15'', 313), (''R_AARCH64_TLSGD_ADR_PREL21'', 512),
     (''R_AARCH64_TLSGD_ADR_PAGE21'', 513), (''R_AARCH64_TLSGD_ADD_LO12_NC'', 514),
     (''R_AARCH64_TLSGD_MOVW_G1'', 515), (''R_AARCH64_TLSGD_MOVW_G0_NC'', 516),
     (''R_AARCH64_TLSLD_ADR_PREL21'', 517), (''R_AARCH64_TLSLD_ADR_PAGE21'', 518),
     (''R_AARCH64_TLSLD_ADD_LO12_NC'', 519), (''R_AARCH64_TLSLD_MOVW_G1'', 520),
     (''R_AARCH64_TLSLD_MOVW_G0_NC'', 521), (''R_AARCH64_TLSLD_LD_PREL19'', 522),
     (''R_AARCH64_TLSLD_MOVW_DTPREL_G2'', 523), (''R_AARCH64_TLSLD_MOVW_DTPREL_G1'', 524),
     (''R_AARCH64_TLSLD_MOVW_DTPREL_G1_NC'', 525), (''R_AARCH64_TLSLD_MOVW_DTPREL_G0'', 526),
     (''R_AARCH64_TLSLD_MOVW_DTPREL_G0_NC'', 527), (''R_AARCH64_TLSLD_ADD_DTPREL_HI12'', 528),
     (''R_AARCH64_TLSLD_ADD_DTPREL_LO12'', 529), (''R_AARCH64_TLSLD_ADD_DTPREL_LO12_NC'', 530),
     (''R_AARCH64_TLSLD_LDST8_DTPREL_LO12'', 531), (''R_AARCH64_TLSLD_LDST8_DTPREL_LO12_NC'', 532),
     (''R_AARCH64_TLSLD_LDST16_DTPREL_LO12'', 533), (''R_AARCH64_TLSLD_LDST16_DTPREL_LO12_NC'', 534),
     (''R_AARCH64_TLSLD_LDST32_DTPREL_LO12'', 535), (''R_AARCH64_TLSLD_LDST32_DTPREL_LO12_NC'', 536),
     (''R_AARCH64_TLSLD_LDST64_DTPREL_LO12'', 537), (''R_AARCH64_TLSLD_LDST64_DTPREL_LO12_NC'', 538),
     (''R_AARCH64_TLSIE_MOVW_GOTTPREL_G1'', 539), (''R_AARCH64_TLSIE_MOVW_GOTTPREL_G0_NC'', 540),
     (''R_AARCH64_TLSIE_ADR_GOTTPREL_PAGE21'', 541), (''R_AARCH64_TLSIE_LD64_GOTTPREL_LO12_NC'', 542),
     (''R_AARCH64_TLSIE_LD_GOTTPREL_PREL19'', 543), (''R_AARCH64_TLSLE_MOVW_TPREL_G2'', 544),
     (''R_AARCH64_TLSLE_MOVW_TPREL_G1'', 545), (''R_AARCH64_TLSLE_MOVW_TPREL_G1_NC'', 546),
     (''R_AARCH64_TLSLE_MOVW_TPREL_G0'', 547), (''R_AARCH64_TLSLE_MOVW_TPREL_G0_NC'', 548),
     (''R_AARCH64_TLSLE_ADD_TPREL_HI12'', 549), (''R_AARCH64_TLSLE_ADD_TPREL_LO12'', 550),
     (''R_AARCH64_TLSLE_ADD_TPREL_LO12_NC'', 551), (''R_AARCH64_TLSLE_LDST8_TPREL_LO12'', 552),
     (''R_AARCH64_TLSLE_LDST8_TPREL_LO12_NC'', 553), (''R_AARCH64_TLSLE_LDST16_TPREL_LO12'', 554),
     (''R_AARCH64_TLSLE_LDST16_TPREL_LO12_NC'', 555), (''R_AARCH64_TLSLE_LDST32_TPREL_LO12'', 556),
     (''R_AARCH64_TLSLE_LDST32_TPREL_LO12_NC'', 557), (''R_AARCH64_TLSLE_LDST64_TPREL_LO12'', 558),
     (''R_AARCH64_TLSLE_LDST64_TPREL_LO12_NC'', 559), (''R_AARCH64_TLSDESC_LD_PREL19'', 560),
     (''R_AARCH64_TLSDESC_ADR_PREL21'', 561), (''R_AARCH64_TLSDESC_ADR_PAGE21'', 562),
     (''R_AARCH64_TLSDESC_LD64_LO12'', 563), (''R_AARCH64_TLSDESC_ADD_LO12'', 564),
     (''R_AARCH64_TLSDESC_OFF_G1'', 565), (''R_AARCH64_TLSDESC_OFF_G0_NC'', 566),
     (''R_AARCH64_TLSDESC_LDR'', 567), (''R_AARCH64_TLSDESC_ADD'', 568), (''R_AARCH64_TLSDESC_CALL'', 569),
     (''R_AARCH64_TLSLE_LDST128_TPREL_LO12'', 570), (''R_AARCH64_TLSLE_LDST128_TPREL_LO12_NC'', 571),
     (''R_AARCH64_TLSLD_LDST128_DTPREL_LO12'', 572), (''R_AARCH64_TLSLD_LDST128_DTPREL_LO12_NC'', 573),
     (''R_AARCH64_COPY'', 1024), (''R_AARCH64_GLOB_DAT'', 1025), (''R_AARCH64_JUMP_SLOT'', 1026),
     (''R_AARCH64_RELATIVE'', 1027), (''R_AARCH64_TLS_DTPMOD'', 1028), (''R_AARCH64_TLS_DTPREL'', 1029),
     (''R_AARCH64_TLS_TPREL'', 1030), (''R_AARCH64_TLSDESC'', 1031), (''R_AARCH64_IRELATIVE'', 1032)]"

definition PT_AARCH64_MEMTAG_MTE :: int where "PT_AARCH64_MEMTAG_MTE = 0x70000000 + 2"

definition DT_AARCH64_table :: "(string \<times> int) list" where
  "DT_AARCH64_table =
    [(''DT_AARCH64_BTI_PLT'', 0x70000000 + 1), (''DT_AARCH64_PAC_PLT'', 0x70000000 + 3),
     (''DT_AARCH64_VARIANT_PCS'', 0x70000000 + 5), (''DT_AARCH64_NUM'', 6)]"

definition STO_AARCH64_VARIANT_PCS :: int where "STO_AARCH64_VARIANT_PCS = 0x80"

subsection \<open>ARM relocations\<close>

definition R_ARM_table_low :: "(string \<times> int) list" where
  "R_ARM_table_low =
    [(''R_ARM_NONE'', 0), (''R_ARM_PC24'', 1), (''R_ARM_ABS32'', 2), (''R_ARM_REL32'', 3),
     (''R_ARM_PC13'', 4), (''R_ARM_ABS16'', 5), (''R_ARM_ABS12'', 6), (''R_ARM_THM_ABS5'', 7),
     (''R_ARM_ABS8'', 8), (''R_ARM_SBREL32'', 9), (''R_ARM_THM_PC22'', 10), (''R_ARM_THM_PC8'', 11),
     (''R_ARM_AMP_VCALL9'', 12), (''R_ARM_SWI24'', 13), (''R_ARM_TLS_DESC'', 13), (''R_ARM_THM_SWI8'', 14),
     (''R_ARM_XPC25'', 15), (''R_ARM_THM_XPC22'', 16), (''R_ARM_TLS_DTPMOD32'', 17),
     (''R_ARM_TLS_DTPOFF32'', 18), (''R_ARM_TLS_TPOFF32'', 19), (''R_ARM_COPY'', 20),
     (''R_ARM_GLOB_DAT'', 21), (''R_ARM_JUMP_SLOT'', 22), (''R_ARM_RELATIVE'', 23), (''R_ARM_GOTOFF'', 24),
     (''R_ARM_GOTPC'', 25), (''R_ARM_GOT32'', 26), (''R_ARM_PLT32'', 27), (''R_ARM_CALL'', 28),
     (''R_ARM_JUMP24'', 29), (''R_ARM_THM_JUMP24'', 30), (''R_ARM_BASE_ABS'', 31),
     (''R_ARM_ALU_PCREL_7_0'', 32), (''R_ARM_ALU_PCREL_15_8'', 33), (''R_ARM_ALU_PCREL_23_15'', 34),
     (''R_ARM_LDR_SBREL_11_0'', 35), (''R_ARM_ALU_SBREL_19_12'', 36), (''R_ARM_ALU_SBREL_27_20'', 37),
     (''R_ARM_TARGET1'', 38), (''R_ARM_SBREL31'', 39), (''R_ARM_V4BX'', 40), (''R_ARM_TARGET2'', 41),
     (''R_ARM_PREL31'', 42), (''R_ARM_MOVW_ABS_NC'', 43), (''R_ARM_MOVT_ABS'', 44),
     (''R_ARM_MOVW_PREL_NC'', 45), (''R_ARM_MOVT_PREL'', 46), (''R_ARM_THM_MOVW_ABS_NC'', 47),
     (''R_ARM_THM_MOVT_ABS'', 48), (''R_ARM_THM_MOVW_PREL_NC'', 49), (''R_ARM_THM_MOVT_PREL'', 50),
     (''R_ARM_THM_JUMP19'', 51), (''R_ARM_THM_JUMP6'', 52), (''R_ARM_THM_ALU_PREL_11_0'', 53),
     (''R_ARM_THM_PC12'', 54), (''R_ARM_ABS32_NOI'', 55), (''R_ARM_REL32_NOI'', 56),
     (''R_ARM_ALU_PC_G0_NC'', 57), (''R_ARM_ALU_PC_G0'', 58), (''R_ARM_ALU_PC_G1_NC'', 59),
     (''R_ARM_ALU_PC_G1'', 60), (''R_ARM_ALU_PC_G2'', 61), (''R_ARM_LDR_PC_G1'', 62)]"

definition R_ARM_table_high :: "(string \<times> int) list" where
  "R_ARM_table_high =
    [(''R_ARM_LDR_PC_G2'', 63), (''R_ARM_LDRS_PC_G0'', 64), (''R_ARM_LDRS_PC_G1'', 65),
     (''R_ARM_LDRS_PC_G2'', 66), (''R_ARM_LDC_PC_G0'', 67), (''R_ARM_LDC_PC_G1'', 68),
     (''R_ARM_LDC_PC_G2'', 69), (''R_ARM_ALU_SB_G0_NC'', 70), (''R_ARM_ALU_SB_G0'', 71),
     (''R_ARM_ALU_SB_G1_NC'', 72), (''R_ARM_ALU_SB_G1'', 73), (''R_ARM_ALU_SB_G2'', 74),
     (''R_ARM_LDR_SB_G0'', 75), (''R_ARM_LDR_SB_G1'', 76), (''R_ARM_LDR_SB_G2'', 77),
     (''R_ARM_LDRS_SB_G0'', 78), (''R_ARM_LDRS_SB_G1'', 79), (''R_ARM_LDRS_SB_G2'', 80),
     (''R_ARM_LDC_SB_G0'', 81), (''R_ARM_LDC_SB_G1'', 82), (''R_ARM_LDC_SB_G2'', 83),
     (''R_ARM_MOVW_BREL_NC'', 84), (''R_ARM_MOVT_BREL'', 85), (''R_ARM_MOVW_BREL'', 86),
     (''R_ARM_THM_MOVW_BREL_NC'', 87), (''R_ARM_THM_MOVT_BREL'', 88), (''R_ARM_THM_MOVW_BREL'', 89),
     (''R_ARM_TLS_GOTDESC'', 90), (''R_ARM_TLS_CALL'', 91), (''R_ARM_TLS_DESCSEQ'', 92),
     (''R_ARM_THM_TLS_CALL'', 93), (''R_ARM_PLT32_ABS'', 94), (''R_ARM_GOT_ABS'', 95),
     (''R_ARM_GOT_PREL'', 96), (''R_ARM_GOT_BREL12'', 97), (''R_ARM_GOTOFF12'', 98), (''R_ARM_GOTRELAX'', 99),
     (''R_ARM_GNU_VTENTRY'', 100), (''R_ARM_GNU_VTINHERIT'', 101), (''R_ARM_THM_PC11'', 102),
     (''R_ARM_THM_PC9'', 103), (''R_ARM_TLS_GD32'', 104), (''R_ARM_TLS_LDM32'', 105),
     (''R_ARM_TLS_LDO32'', 106), (''R_ARM_TLS_IE32'', 107), (''R_ARM_TLS_LE32'', 108),
     (''R_ARM_TLS_LDO12'', 109), (''R_ARM_TLS_LE12'', 110), (''R_ARM_TLS_IE12GP'', 111),
     (''R_ARM_ME_TOO'', 128), (''R_ARM_THM_TLS_DESCSEQ'', 129), (''R_ARM_THM_TLS_DESCSEQ16'', 129),
     (''R_ARM_THM_TLS_DESCSEQ32'', 130), (''R_ARM_THM_GOT_BREL12'', 131), (''R_ARM_IRELATIVE'', 160),
     (''R_ARM_RXPC25'', 249), (''R_ARM_RSBREL32'', 250), (''R_ARM_THM_RPC22'', 251), (''R_ARM_RREL32'', 252),
     (''R_ARM_RABS22'', 253), (''R_ARM_RPC24'', 254), (''R_ARM_RBASE'', 255), (''R_ARM_NUM'', 256)]"

definition R_ARM_table :: "(string \<times> int) list" where
  "R_ARM_table = R_ARM_table_low @ R_ARM_table_high"

subsection \<open>C-SKY\<close>

definition R_CKCORE_table :: "(string \<times> int) list" where
  "R_CKCORE_table =
    [(''R_CKCORE_NONE'', 0), (''R_CKCORE_ADDR32'', 1), (''R_CKCORE_PCRELIMM8BY4'', 2),
     (''R_CKCORE_PCRELIMM11BY2'', 3), (''R_CKCORE_PCREL32'', 5), (''R_CKCORE_PCRELJSR_IMM11BY2'', 6),
     (''R_CKCORE_RELATIVE'', 9), (''R_CKCORE_COPY'', 10), (''R_CKCORE_GLOB_DAT'', 11),
     (''R_CKCORE_JUMP_SLOT'', 12), (''R_CKCORE_GOTOFF'', 13), (''R_CKCORE_GOTPC'', 14),
     (''R_CKCORE_GOT32'', 15), (''R_CKCORE_PLT32'', 16), (''R_CKCORE_ADDRGOT'', 17),
     (''R_CKCORE_ADDRPLT'', 18), (''R_CKCORE_PCREL_IMM26BY2'', 19), (''R_CKCORE_PCREL_IMM16BY2'', 20),
     (''R_CKCORE_PCREL_IMM16BY4'', 21), (''R_CKCORE_PCREL_IMM10BY2'', 22), (''R_CKCORE_PCREL_IMM10BY4'', 23),
     (''R_CKCORE_ADDR_HI16'', 24), (''R_CKCORE_ADDR_LO16'', 25), (''R_CKCORE_GOTPC_HI16'', 26),
     (''R_CKCORE_GOTPC_LO16'', 27), (''R_CKCORE_GOTOFF_HI16'', 28), (''R_CKCORE_GOTOFF_LO16'', 29),
     (''R_CKCORE_GOT12'', 30), (''R_CKCORE_GOT_HI16'', 31), (''R_CKCORE_GOT_LO16'', 32),
     (''R_CKCORE_PLT12'', 33), (''R_CKCORE_PLT_HI16'', 34), (''R_CKCORE_PLT_LO16'', 35),
     (''R_CKCORE_ADDRGOT_HI16'', 36), (''R_CKCORE_ADDRGOT_LO16'', 37), (''R_CKCORE_ADDRPLT_HI16'', 38),
     (''R_CKCORE_ADDRPLT_LO16'', 39), (''R_CKCORE_PCREL_JSR_IMM26BY2'', 40), (''R_CKCORE_TOFFSET_LO16'', 41),
     (''R_CKCORE_DOFFSET_LO16'', 42), (''R_CKCORE_PCREL_IMM18BY2'', 43), (''R_CKCORE_DOFFSET_IMM18'', 44),
     (''R_CKCORE_DOFFSET_IMM18BY2'', 45), (''R_CKCORE_DOFFSET_IMM18BY4'', 46),
     (''R_CKCORE_GOT_IMM18BY4'', 48), (''R_CKCORE_PLT_IMM18BY4'', 49), (''R_CKCORE_PCREL_IMM7BY4'', 50),
     (''R_CKCORE_TLS_LE32'', 51), (''R_CKCORE_TLS_IE32'', 52), (''R_CKCORE_TLS_GD32'', 53),
     (''R_CKCORE_TLS_LDM32'', 54), (''R_CKCORE_TLS_LDO32'', 55), (''R_CKCORE_TLS_DTPMOD32'', 56),
     (''R_CKCORE_TLS_DTPOFF32'', 57), (''R_CKCORE_TLS_TPOFF32'', 58)]"

definition EF_CSKY_table :: "(string \<times> int) list" where
  "EF_CSKY_table =
    [(''EF_CSKY_ABIMASK'', 0xF0000000), (''EF_CSKY_OTHER'', 0xFFF0000), (''EF_CSKY_PROCESSOR'', 0xFFFF),
     (''EF_CSKY_ABIV1'', 0x10000000), (''EF_CSKY_ABIV2'', 0x20000000)]"

definition SHT_CSKY_ATTRIBUTES :: int where "SHT_CSKY_ATTRIBUTES = 0x70000000 + 1"

subsection \<open>IA-64\<close>

definition EF_IA_64_table :: "(string \<times> int) list" where
  "EF_IA_64_table =
    [(''EF_IA_64_MASKOS'', 0xF), (''EF_IA_64_ABI64'', 0x10), (''EF_IA_64_ARCH'', 0xFF000000)]"

definition PT_IA_64_table :: "(string \<times> int) list" where
  "PT_IA_64_table =
    [(''PT_IA_64_ARCHEXT'', 0x70000000 + 0), (''PT_IA_64_UNWIND'', 0x70000000 + 1),
     (''PT_IA_64_HP_OPT_ANOT'', 0x60000000 + 0x12), (''PT_IA_64_HP_HSL_ANOT'', 0x60000000 + 0x13),
     (''PT_IA_64_HP_STACK'', 0x60000000 + 0x14)]"

definition PF_IA_64_NORECOV :: int where "PF_IA_64_NORECOV = 0x80000000"

definition SHT_IA_64_table :: "(string \<times> int) list" where
  "SHT_IA_64_table =
    [(''SHT_IA_64_EXT'', 0x70000000 + 0), (''SHT_IA_64_UNWIND'', 0x70000000 + 1)]"

definition SHF_IA_64_table :: "(string \<times> int) list" where
  "SHF_IA_64_table =
    [(''SHF_IA_64_SHORT'', 0x10000000), (''SHF_IA_64_NORECOV'', 0x20000000)]"

definition DT_IA_64_table :: "(string \<times> int) list" where
  "DT_IA_64_table =
    [(''DT_IA_64_PLT_RESERVE'', 0x70000000 + 0), (''DT_IA_64_NUM'', 1)]"

definition R_IA64_table :: "(string \<times> int) list" where
  "R_IA64_table =
    [(''R_IA64_NONE'', 0x0), (''R_IA64_IMM14'', 0x21), (''R_IA64_IMM22'', 0x22), (''R_IA64_IMM64'', 0x23),
     (''R_IA64_DIR32MSB'', 0x24), (''R_IA64_DIR32LSB'', 0x25), (''R_IA64_DIR64MSB'', 0x26),
     (''R_IA64_DIR64LSB'', 0x27), (''R_IA64_GPREL22'', 0x2A), (''R_IA64_GPREL64I'', 0x2B),
     (''R_IA64_GPREL32MSB'', 0x2C), (''R_IA64_GPREL32LSB'', 0x2D), (''R_IA64_GPREL64MSB'', 0x2E),
     (''R_IA64_GPREL64LSB'', 0x2F), (''R_IA64_LTOFF22'', 0x32), (''R_IA64_LTOFF64I'', 0x33),
     (''R_IA64_PLTOFF22'', 0x3A), (''R_IA64_PLTOFF64I'', 0x3B), (''R_IA64_PLTOFF64MSB'', 0x3E),
     (''R_IA64_PLTOFF64LSB'', 0x3F), (''R_IA64_FPTR64I'', 0x43), (''R_IA64_FPTR32MSB'', 0x44),
     (''R_IA64_FPTR32LSB'', 0x45), (''R_IA64_FPTR64MSB'', 0x46), (''R_IA64_FPTR64LSB'', 0x47),
     (''R_IA64_PCREL60B'', 0x48), (''R_IA64_PCREL21B'', 0x49), (''R_IA64_PCREL21M'', 0x4A),
     (''R_IA64_PCREL21F'', 0x4B), (''R_IA64_PCREL32MSB'', 0x4C), (''R_IA64_PCREL32LSB'', 0x4D),
     (''R_IA64_PCREL64MSB'', 0x4E), (''R_IA64_PCREL64LSB'', 0x4F), (''R_IA64_LTOFF_FPTR22'', 0x52),
     (''R_IA64_LTOFF_FPTR64I'', 0x53), (''R_IA64_LTOFF_FPTR32MSB'', 0x54), (''R_IA64_LTOFF_FPTR32LSB'', 0x55),
     (''R_IA64_LTOFF_FPTR64MSB'', 0x56), (''R_IA64_LTOFF_FPTR64LSB'', 0x57), (''R_IA64_SEGREL32MSB'', 0x5C),
     (''R_IA64_SEGREL32LSB'', 0x5D), (''R_IA64_SEGREL64MSB'', 0x5E), (''R_IA64_SEGREL64LSB'', 0x5F),
     (''R_IA64_SECREL32MSB'', 0x64), (''R_IA64_SECREL32LSB'', 0x65), (''R_IA64_SECREL64MSB'', 0x66),
     (''R_IA64_SECREL64LSB'', 0x67), (''R_IA64_REL32MSB'', 0x6C), (''R_IA64_REL32LSB'', 0x6D),
     (''R_IA64_REL64MSB'', 0x6E), (''R_IA64_REL64LSB'', 0x6F), (''R_IA64_LTV32MSB'', 0x74),
     (''R_IA64_LTV32LSB'', 0x75), (''R_IA64_LTV64MSB'', 0x76), (''R_IA64_LTV64LSB'', 0x77),
     (''R_IA64_PCREL21BI'', 0x79), (''R_IA64_PCREL22'', 0x7A), (''R_IA64_PCREL64I'', 0x7B),
     (''R_IA64_IPLTMSB'', 0x80), (''R_IA64_IPLTLSB'', 0x81), (''R_IA64_COPY'', 0x84), (''R_IA64_SUB'', 0x85),
     (''R_IA64_LTOFF22X'', 0x86), (''R_IA64_LDXMOV'', 0x87), (''R_IA64_TPREL14'', 0x91),
     (''R_IA64_TPREL22'', 0x92), (''R_IA64_TPREL64I'', 0x93), (''R_IA64_TPREL64MSB'', 0x96),
     (''R_IA64_TPREL64LSB'', 0x97), (''R_IA64_LTOFF_TPREL22'', 0x9A), (''R_IA64_DTPMOD64MSB'', 0xA6),
     (''R_IA64_DTPMOD64LSB'', 0xA7), (''R_IA64_LTOFF_DTPMOD22'', 0xAA), (''R_IA64_DTPREL14'', 0xB1),
     (''R_IA64_DTPREL22'', 0xB2), (''R_IA64_DTPREL64I'', 0xB3), (''R_IA64_DTPREL32MSB'', 0xB4),
     (''R_IA64_DTPREL32LSB'', 0xB5), (''R_IA64_DTPREL64MSB'', 0xB6), (''R_IA64_DTPREL64LSB'', 0xB7),
     (''R_IA64_LTOFF_DTPREL22'', 0xBA)]"

subsection \<open>SuperH\<close>

definition EF_SH_table :: "(string \<times> int) list" where
  "EF_SH_table =
    [(''EF_SH_MACH_MASK'', 0x1F), (''EF_SH_UNKNOWN'', 0x0), (''EF_SH1'', 0x1), (''EF_SH2'', 0x2),
     (''EF_SH3'', 0x3), (''EF_SH_DSP'', 0x4), (''EF_SH3_DSP'', 0x5), (''EF_SH4AL_DSP'', 0x6),
     (''EF_SH3E'', 0x8), (''EF_SH4'', 0x9), (''EF_SH2E'', 0xB), (''EF_SH4A'', 0xC), (''EF_SH2A'', 0xD),
     (''EF_SH4_NOFPU'', 0x10), (''EF_SH4A_NOFPU'', 0x11), (''EF_SH4_NOMMU_NOFPU'', 0x12),
     (''EF_SH2A_NOFPU'', 0x13), (''EF_SH3_NOMMU'', 0x14), (''EF_SH2A_SH4_NOFPU'', 0x15),
     (''EF_SH2A_SH3_NOFPU'', 0x16), (''EF_SH2A_SH4'', 0x17), (''EF_SH2A_SH3E'', 0x18)]"

definition R_SH_table :: "(string \<times> int) list" where
  "R_SH_table =
    [(''R_SH_NONE'', 0), (''R_SH_DIR32'', 1), (''R_SH_REL32'', 2), (''R_SH_DIR8WPN'', 3),
     (''R_SH_IND12W'', 4), (''R_SH_DIR8WPL'', 5), (''R_SH_DIR8WPZ'', 6), (''R_SH_DIR8BP'', 7),
     (''R_SH_DIR8W'', 8), (''R_SH_DIR8L'', 9), (''R_SH_SWITCH16'', 25), (''R_SH_SWITCH32'', 26),
     (''R_SH_USES'', 27), (''R_SH_COUNT'', 28), (''R_SH_ALIGN'', 29), (''R_SH_CODE'', 30),
     (''R_SH_DATA'', 31), (''R_SH_LABEL'', 32), (''R_SH_SWITCH8'', 33), (''R_SH_GNU_VTINHERIT'', 34),
     (''R_SH_GNU_VTENTRY'', 35), (''R_SH_TLS_GD_32'', 144), (''R_SH_TLS_LD_32'', 145),
     (''R_SH_TLS_LDO_32'', 146), (''R_SH_TLS_IE_32'', 147), (''R_SH_TLS_LE_32'', 148),
     (''R_SH_TLS_DTPMOD32'', 149), (''R_SH_TLS_DTPOFF32'', 150), (''R_SH_TLS_TPOFF32'', 151),
     (''R_SH_GOT32'', 160), (''R_SH_PLT32'', 161), (''R_SH_COPY'', 162), (''R_SH_GLOB_DAT'', 163),
     (''R_SH_JMP_SLOT'', 164), (''R_SH_RELATIVE'', 165), (''R_SH_GOTOFF'', 166), (''R_SH_GOTPC'', 167),
     (''R_SH_NUM'', 256)]"

subsection \<open>S/390\<close>

definition EF_S390_HIGH_GPRS :: int where "EF_S390_HIGH_GPRS = 0x1"

definition R_390_table :: "(string \<times> int) list" where
  "R_390_table =
    [(''R_390_NONE'', 0), (''R_390_8'', 1), (''R_390_12'', 2), (''R_390_16'', 3), (''R_390_32'', 4),
     (''R_390_PC32'', 5), (''R_390_GOT12'', 6), (''R_390_GOT32'', 7), (''R_390_PLT32'', 8),
     (''R_390_COPY'', 9), (''R_390_GLOB_DAT'', 10), (''R_390_JMP_SLOT'', 11), (''R_390_RELATIVE'', 12),
     (''R_390_GOTOFF32'', 13), (''R_390_GOTPC'', 14), (''R_390_GOT16'', 15), (''R_390_PC16'', 16),
     (''R_390_PC16DBL'', 17), (''R_390_PLT16DBL'', 18), (''R_390_PC32DBL'', 19), (''R_390_PLT32DBL'', 20),
     (''R_390_GOTPCDBL'', 21), (''R_390_64'', 22), (''R_390_PC64'', 23), (''R_390_GOT64'', 24),
     (''R_390_PLT64'', 25), (''R_390_GOTENT'', 26), (''R_390_GOTOFF16'', 27), (''R_390_GOTOFF64'', 28),
     (''R_390_GOTPLT12'', 29), (''R_390_GOTPLT16'', 30), (''R_390_GOTPLT32'', 31), (''R_390_GOTPLT64'', 32),
     (''R_390_GOTPLTENT'', 33), (''R_390_PLTOFF16'', 34), (''R_390_PLTOFF32'', 35), (''R_390_PLTOFF64'', 36),
     (''R_390_TLS_LOAD'', 37), (''R_390_TLS_GDCALL'', 38), (''R_390_TLS_LDCALL'', 39),
     (''R_390_TLS_GD32'', 40), (''R_390_TLS_GD64'', 41), (''R_390_TLS_GOTIE12'', 42),
     (''R_390_TLS_GOTIE32'', 43), (''R_390_TLS_GOTIE64'', 44), (''R_390_TLS_LDM32'', 45),
     (''R_390_TLS_LDM64'', 46), (''R_390_TLS_IE32'', 47), (''R_390_TLS_IE64'', 48), (''R_390_TLS_IEENT'', 49),
     (''R_390_TLS_LE32'', 50), (''R_390_TLS_LE64'', 51), (''R_390_TLS_LDO32'', 52), (''R_390_TLS_LDO64'', 53),
     (''R_390_TLS_DTPMOD'', 54), (''R_390_TLS_DTPOFF'', 55), (''R_390_TLS_TPOFF'', 56), (''R_390_20'', 57),
     (''R_390_GOT20'', 58), (''R_390_GOTPLT20'', 59), (''R_390_TLS_GOTIE20'', 60), (''R_390_IRELATIVE'', 61),
     (''R_390_NUM'', 62)]"

subsection \<open>CRIS\<close>

definition R_CRIS_table :: "(string \<times> int) list" where
  "R_CRIS_table =
    [(''R_CRIS_NONE'', 0), (''R_CRIS_8'', 1), (''R_CRIS_16'', 2), (''R_CRIS_32'', 3), (''R_CRIS_8_PCREL'', 4),
     (''R_CRIS_16_PCREL'', 5), (''R_CRIS_32_PCREL'', 6), (''R_CRIS_GNU_VTINHERIT'', 7),
     (''R_CRIS_GNU_VTENTRY'', 8), (''R_CRIS_COPY'', 9), (''R_CRIS_GLOB_DAT'', 10), (''R_CRIS_JUMP_SLOT'', 11),
     (''R_CRIS_RELATIVE'', 12), (''R_CRIS_16_GOT'', 13), (''R_CRIS_32_GOT'', 14), (''R_CRIS_16_GOTPLT'', 15),
     (''R_CRIS_32_GOTPLT'', 16), (''R_CRIS_32_GOTREL'', 17), (''R_CRIS_32_PLT_GOTREL'', 18),
     (''R_CRIS_32_PLT_PCREL'', 19), (''R_CRIS_NUM'', 20)]"

subsection \<open>AMD x86-64\<close>

definition R_X86_64_table :: "(string \<times> int) list" where
  "R_X86_64_table =
    [(''R_X86_64_NONE'', 0), (''R_X86_64_64'', 1), (''R_X86_64_PC32'', 2), (''R_X86_64_GOT32'', 3),
     (''R_X86_64_PLT32'', 4), (''R_X86_64_COPY'', 5), (''R_X86_64_GLOB_DAT'', 6), (''R_X86_64_JUMP_SLOT'', 7),
     (''R_X86_64_RELATIVE'', 8), (''R_X86_64_GOTPCREL'', 9), (''R_X86_64_32'', 10), (''R_X86_64_32S'', 11),
     (''R_X86_64_16'', 12), (''R_X86_64_PC16'', 13), (''R_X86_64_8'', 14), (''R_X86_64_PC8'', 15),
     (''R_X86_64_DTPMOD64'', 16), (''R_X86_64_DTPOFF64'', 17), (''R_X86_64_TPOFF64'', 18),
     (''R_X86_64_TLSGD'', 19), (''R_X86_64_TLSLD'', 20), (''R_X86_64_DTPOFF32'', 21),
     (''R_X86_64_GOTTPOFF'', 22), (''R_X86_64_TPOFF32'', 23), (''R_X86_64_PC64'', 24),
     (''R_X86_64_GOTOFF64'', 25), (''R_X86_64_GOTPC32'', 26), (''R_X86_64_GOT64'', 27),
     (''R_X86_64_GOTPCREL64'', 28), (''R_X86_64_GOTPC64'', 29), (''R_X86_64_GOTPLT64'', 30),
     (''R_X86_64_PLTOFF64'', 31), (''R_X86_64_SIZE32'', 32), (''R_X86_64_SIZE64'', 33),
     (''R_X86_64_GOTPC32_TLSDESC'', 34), (''R_X86_64_TLSDESC_CALL'', 35), (''R_X86_64_TLSDESC'', 36),
     (''R_X86_64_IRELATIVE'', 37), (''R_X86_64_RELATIVE64'', 38), (''R_X86_64_GOTPCRELX'', 41),
     (''R_X86_64_REX_GOTPCRELX'', 42), (''R_X86_64_NUM'', 43)]"

definition SHT_X86_64_UNWIND :: int where "SHT_X86_64_UNWIND = 0x70000001"

definition DT_X86_64_table :: "(string \<times> int) list" where
  "DT_X86_64_table =
    [(''DT_X86_64_PLT'', 0x70000000 + 0), (''DT_X86_64_PLTSZ'', 0x70000000 + 1),
     (''DT_X86_64_PLTENT'', 0x70000000 + 3), (''DT_X86_64_NUM'', 4)]"

subsection \<open>MN10300\<close>

definition R_MN10300_table :: "(string \<times> int) list" where
  "R_MN10300_table =
    [(''R_MN10300_NONE'', 0), (''R_MN10300_32'', 1), (''R_MN10300_16'', 2), (''R_MN10300_8'', 3),
     (''R_MN10300_PCREL32'', 4), (''R_MN10300_PCREL16'', 5), (''R_MN10300_PCREL8'', 6),
     (''R_MN10300_GNU_VTINHERIT'', 7), (''R_MN10300_GNU_VTENTRY'', 8), (''R_MN10300_24'', 9),
     (''R_MN10300_GOTPC32'', 10), (''R_MN10300_GOTPC16'', 11), (''R_MN10300_GOTOFF32'', 12),
     (''R_MN10300_GOTOFF24'', 13), (''R_MN10300_GOTOFF16'', 14), (''R_MN10300_PLT32'', 15),
     (''R_MN10300_PLT16'', 16), (''R_MN10300_GOT32'', 17), (''R_MN10300_GOT24'', 18),
     (''R_MN10300_GOT16'', 19), (''R_MN10300_COPY'', 20), (''R_MN10300_GLOB_DAT'', 21),
     (''R_MN10300_JMP_SLOT'', 22), (''R_MN10300_RELATIVE'', 23), (''R_MN10300_TLS_GD'', 24),
     (''R_MN10300_TLS_LD'', 25), (''R_MN10300_TLS_LDO'', 26), (''R_MN10300_TLS_GOTIE'', 27),
     (''R_MN10300_TLS_IE'', 28), (''R_MN10300_TLS_LE'', 29), (''R_MN10300_TLS_DTPMOD'', 30),
     (''R_MN10300_TLS_DTPOFF'', 31), (''R_MN10300_TLS_TPOFF'', 32), (''R_MN10300_SYM_DIFF'', 33),
     (''R_MN10300_ALIGN'', 34), (''R_MN10300_NUM'', 35)]"

subsection \<open>M32R\<close>

definition R_M32R_table :: "(string \<times> int) list" where
  "R_M32R_table =
    [(''R_M32R_NONE'', 0), (''R_M32R_16'', 1), (''R_M32R_32'', 2), (''R_M32R_24'', 3),
     (''R_M32R_10_PCREL'', 4), (''R_M32R_18_PCREL'', 5), (''R_M32R_26_PCREL'', 6), (''R_M32R_HI16_ULO'', 7),
     (''R_M32R_HI16_SLO'', 8), (''R_M32R_LO16'', 9), (''R_M32R_SDA16'', 10), (''R_M32R_GNU_VTINHERIT'', 11),
     (''R_M32R_GNU_VTENTRY'', 12), (''R_M32R_16_RELA'', 33), (''R_M32R_32_RELA'', 34),
     (''R_M32R_24_RELA'', 35), (''R_M32R_10_PCREL_RELA'', 36), (''R_M32R_18_PCREL_RELA'', 37),
     (''R_M32R_26_PCREL_RELA'', 38), (''R_M32R_HI16_ULO_RELA'', 39), (''R_M32R_HI16_SLO_RELA'', 40),
     (''R_M32R_LO16_RELA'', 41), (''R_M32R_SDA16_RELA'', 42), (''R_M32R_RELA_GNU_VTINHERIT'', 43),
     (''R_M32R_RELA_GNU_VTENTRY'', 44), (''R_M32R_REL32'', 45), (''R_M32R_GOT24'', 48),
     (''R_M32R_26_PLTREL'', 49), (''R_M32R_COPY'', 50), (''R_M32R_GLOB_DAT'', 51), (''R_M32R_JMP_SLOT'', 52),
     (''R_M32R_RELATIVE'', 53), (''R_M32R_GOTOFF'', 54), (''R_M32R_GOTPC24'', 55),
     (''R_M32R_GOT16_HI_ULO'', 56), (''R_M32R_GOT16_HI_SLO'', 57), (''R_M32R_GOT16_LO'', 58),
     (''R_M32R_GOTPC_HI_ULO'', 59), (''R_M32R_GOTPC_HI_SLO'', 60), (''R_M32R_GOTPC_LO'', 61),
     (''R_M32R_GOTOFF_HI_ULO'', 62), (''R_M32R_GOTOFF_HI_SLO'', 63), (''R_M32R_GOTOFF_LO'', 64),
     (''R_M32R_NUM'', 256)]"

subsection \<open>MicroBlaze\<close>

definition R_MICROBLAZE_table :: "(string \<times> int) list" where
  "R_MICROBLAZE_table =
    [(''R_MICROBLAZE_NONE'', 0), (''R_MICROBLAZE_32'', 1), (''R_MICROBLAZE_32_PCREL'', 2),
     (''R_MICROBLAZE_64_PCREL'', 3), (''R_MICROBLAZE_32_PCREL_LO'', 4), (''R_MICROBLAZE_64'', 5),
     (''R_MICROBLAZE_32_LO'', 6), (''R_MICROBLAZE_SRO32'', 7), (''R_MICROBLAZE_SRW32'', 8),
     (''R_MICROBLAZE_64_NONE'', 9), (''R_MICROBLAZE_32_SYM_OP_SYM'', 10),
     (''R_MICROBLAZE_GNU_VTINHERIT'', 11), (''R_MICROBLAZE_GNU_VTENTRY'', 12),
     (''R_MICROBLAZE_GOTPC_64'', 13), (''R_MICROBLAZE_GOT_64'', 14), (''R_MICROBLAZE_PLT_64'', 15),
     (''R_MICROBLAZE_REL'', 16), (''R_MICROBLAZE_JUMP_SLOT'', 17), (''R_MICROBLAZE_GLOB_DAT'', 18),
     (''R_MICROBLAZE_GOTOFF_64'', 19), (''R_MICROBLAZE_GOTOFF_32'', 20), (''R_MICROBLAZE_COPY'', 21),
     (''R_MICROBLAZE_TLS'', 22), (''R_MICROBLAZE_TLSGD'', 23), (''R_MICROBLAZE_TLSLD'', 24),
     (''R_MICROBLAZE_TLSDTPMOD32'', 25), (''R_MICROBLAZE_TLSDTPREL32'', 26),
     (''R_MICROBLAZE_TLSDTPREL64'', 27), (''R_MICROBLAZE_TLSGOTTPREL32'', 28),
     (''R_MICROBLAZE_TLSTPREL32'', 29)]"

subsection \<open>Nios II\<close>

definition DT_NIOS2_GP :: int where "DT_NIOS2_GP = 0x70000002"

definition R_NIOS2_table :: "(string \<times> int) list" where
  "R_NIOS2_table =
    [(''R_NIOS2_NONE'', 0), (''R_NIOS2_S16'', 1), (''R_NIOS2_U16'', 2), (''R_NIOS2_PCREL16'', 3),
     (''R_NIOS2_CALL26'', 4), (''R_NIOS2_IMM5'', 5), (''R_NIOS2_CACHE_OPX'', 6), (''R_NIOS2_IMM6'', 7),
     (''R_NIOS2_IMM8'', 8), (''R_NIOS2_HI16'', 9), (''R_NIOS2_LO16'', 10), (''R_NIOS2_HIADJ16'', 11),
     (''R_NIOS2_BFD_RELOC_32'', 12), (''R_NIOS2_BFD_RELOC_16'', 13), (''R_NIOS2_BFD_RELOC_8'', 14),
     (''R_NIOS2_GPREL'', 15), (''R_NIOS2_GNU_VTINHERIT'', 16), (''R_NIOS2_GNU_VTENTRY'', 17),
     (''R_NIOS2_UJMP'', 18), (''R_NIOS2_CJMP'', 19), (''R_NIOS2_CALLR'', 20), (''R_NIOS2_ALIGN'', 21),
     (''R_NIOS2_GOT16'', 22), (''R_NIOS2_CALL16'', 23), (''R_NIOS2_GOTOFF_LO'', 24),
     (''R_NIOS2_GOTOFF_HA'', 25), (''R_NIOS2_PCREL_LO'', 26), (''R_NIOS2_PCREL_HA'', 27),
     (''R_NIOS2_TLS_GD16'', 28), (''R_NIOS2_TLS_LDM16'', 29), (''R_NIOS2_TLS_LDO16'', 30),
     (''R_NIOS2_TLS_IE16'', 31), (''R_NIOS2_TLS_LE16'', 32), (''R_NIOS2_TLS_DTPMOD'', 33),
     (''R_NIOS2_TLS_DTPREL'', 34), (''R_NIOS2_TLS_TPREL'', 35), (''R_NIOS2_COPY'', 36),
     (''R_NIOS2_GLOB_DAT'', 37), (''R_NIOS2_JUMP_SLOT'', 38), (''R_NIOS2_RELATIVE'', 39),
     (''R_NIOS2_GOTOFF'', 40), (''R_NIOS2_CALL26_NOAT'', 41), (''R_NIOS2_GOT_LO'', 42),
     (''R_NIOS2_GOT_HA'', 43), (''R_NIOS2_CALL_LO'', 44), (''R_NIOS2_CALL_HA'', 45)]"

subsection \<open>TILEPro\<close>

definition R_TILEPRO_table :: "(string \<times> int) list" where
  "R_TILEPRO_table =
    [(''R_TILEPRO_NONE'', 0), (''R_TILEPRO_32'', 1), (''R_TILEPRO_16'', 2), (''R_TILEPRO_8'', 3),
     (''R_TILEPRO_32_PCREL'', 4), (''R_TILEPRO_16_PCREL'', 5), (''R_TILEPRO_8_PCREL'', 6),
     (''R_TILEPRO_LO16'', 7), (''R_TILEPRO_HI16'', 8), (''R_TILEPRO_HA16'', 9), (''R_TILEPRO_COPY'', 10),
     (''R_TILEPRO_GLOB_DAT'', 11), (''R_TILEPRO_JMP_SLOT'', 12), (''R_TILEPRO_RELATIVE'', 13),
     (''R_TILEPRO_BROFF_X1'', 14), (''R_TILEPRO_JOFFLONG_X1'', 15), (''R_TILEPRO_JOFFLONG_X1_PLT'', 16),
     (''R_TILEPRO_IMM8_X0'', 17), (''R_TILEPRO_IMM8_Y0'', 18), (''R_TILEPRO_IMM8_X1'', 19),
     (''R_TILEPRO_IMM8_Y1'', 20), (''R_TILEPRO_MT_IMM15_X1'', 21), (''R_TILEPRO_MF_IMM15_X1'', 22),
     (''R_TILEPRO_IMM16_X0'', 23), (''R_TILEPRO_IMM16_X1'', 24), (''R_TILEPRO_IMM16_X0_LO'', 25),
     (''R_TILEPRO_IMM16_X1_LO'', 26), (''R_TILEPRO_IMM16_X0_HI'', 27), (''R_TILEPRO_IMM16_X1_HI'', 28),
     (''R_TILEPRO_IMM16_X0_HA'', 29), (''R_TILEPRO_IMM16_X1_HA'', 30), (''R_TILEPRO_IMM16_X0_PCREL'', 31),
     (''R_TILEPRO_IMM16_X1_PCREL'', 32), (''R_TILEPRO_IMM16_X0_LO_PCREL'', 33),
     (''R_TILEPRO_IMM16_X1_LO_PCREL'', 34), (''R_TILEPRO_IMM16_X0_HI_PCREL'', 35),
     (''R_TILEPRO_IMM16_X1_HI_PCREL'', 36), (''R_TILEPRO_IMM16_X0_HA_PCREL'', 37),
     (''R_TILEPRO_IMM16_X1_HA_PCREL'', 38), (''R_TILEPRO_IMM16_X0_GOT'', 39),
     (''R_TILEPRO_IMM16_X1_GOT'', 40), (''R_TILEPRO_IMM16_X0_GOT_LO'', 41),
     (''R_TILEPRO_IMM16_X1_GOT_LO'', 42), (''R_TILEPRO_IMM16_X0_GOT_HI'', 43),
     (''R_TILEPRO_IMM16_X1_GOT_HI'', 44), (''R_TILEPRO_IMM16_X0_GOT_HA'', 45),
     (''R_TILEPRO_IMM16_X1_GOT_HA'', 46), (''R_TILEPRO_MMSTART_X0'', 47), (''R_TILEPRO_MMEND_X0'', 48),
     (''R_TILEPRO_MMSTART_X1'', 49), (''R_TILEPRO_MMEND_X1'', 50), (''R_TILEPRO_SHAMT_X0'', 51),
     (''R_TILEPRO_SHAMT_X1'', 52), (''R_TILEPRO_SHAMT_Y0'', 53), (''R_TILEPRO_SHAMT_Y1'', 54),
     (''R_TILEPRO_DEST_IMM8_X1'', 55), (''R_TILEPRO_TLS_GD_CALL'', 60),
     (''R_TILEPRO_IMM8_X0_TLS_GD_ADD'', 61), (''R_TILEPRO_IMM8_X1_TLS_GD_ADD'', 62),
     (''R_TILEPRO_IMM8_Y0_TLS_GD_ADD'', 63), (''R_TILEPRO_IMM8_Y1_TLS_GD_ADD'', 64),
     (''R_TILEPRO_TLS_IE_LOAD'', 65), (''R_TILEPRO_IMM16_X0_TLS_GD'', 66),
     (''R_TILEPRO_IMM16_X1_TLS_GD'', 67), (''R_TILEPRO_IMM16_X0_TLS_GD_LO'', 68),
     (''R_TILEPRO_IMM16_X1_TLS_GD_LO'', 69), (''R_TILEPRO_IMM16_X0_TLS_GD_HI'', 70),
     (''R_TILEPRO_IMM16_X1_TLS_GD_HI'', 71), (''R_TILEPRO_IMM16_X0_TLS_GD_HA'', 72),
     (''R_TILEPRO_IMM16_X1_TLS_GD_HA'', 73), (''R_TILEPRO_IMM16_X0_TLS_IE'', 74),
     (''R_TILEPRO_IMM16_X1_TLS_IE'', 75), (''R_TILEPRO_IMM16_X0_TLS_IE_LO'', 76),
     (''R_TILEPRO_IMM16_X1_TLS_IE_LO'', 77), (''R_TILEPRO_IMM16_X0_TLS_IE_HI'', 78),
     (''R_TILEPRO_IMM16_X1_TLS_IE_HI'', 79), (''R_TILEPRO_IMM16_X0_TLS_IE_HA'', 80),
     (''R_TILEPRO_IMM16_X1_TLS_IE_HA'', 81), (''R_TILEPRO_TLS_DTPMOD32'', 82),
     (''R_TILEPRO_TLS_DTPOFF32'', 83), (''R_TILEPRO_TLS_TPOFF32'', 84), (''R_TILEPRO_IMM16_X0_TLS_LE'', 85),
     (''R_TILEPRO_IMM16_X1_TLS_LE'', 86), (''R_TILEPRO_IMM16_X0_TLS_LE_LO'', 87),
     (''R_TILEPRO_IMM16_X1_TLS_LE_LO'', 88), (''R_TILEPRO_IMM16_X0_TLS_LE_HI'', 89),
     (''R_TILEPRO_IMM16_X1_TLS_LE_HI'', 90), (''R_TILEPRO_IMM16_X0_TLS_LE_HA'', 91),
     (''R_TILEPRO_IMM16_X1_TLS_LE_HA'', 92), (''R_TILEPRO_GNU_VTINHERIT'', 128),
     (''R_TILEPRO_GNU_VTENTRY'', 129), (''R_TILEPRO_NUM'', 130)]"

subsection \<open>TILE-Gx\<close>

definition R_TILEGX_table :: "(string \<times> int) list" where
  "R_TILEGX_table =
    [(''R_TILEGX_NONE'', 0), (''R_TILEGX_64'', 1), (''R_TILEGX_32'', 2), (''R_TILEGX_16'', 3),
     (''R_TILEGX_8'', 4), (''R_TILEGX_64_PCREL'', 5), (''R_TILEGX_32_PCREL'', 6), (''R_TILEGX_16_PCREL'', 7),
     (''R_TILEGX_8_PCREL'', 8), (''R_TILEGX_HW0'', 9), (''R_TILEGX_HW1'', 10), (''R_TILEGX_HW2'', 11),
     (''R_TILEGX_HW3'', 12), (''R_TILEGX_HW0_LAST'', 13), (''R_TILEGX_HW1_LAST'', 14),
     (''R_TILEGX_HW2_LAST'', 15), (''R_TILEGX_COPY'', 16), (''R_TILEGX_GLOB_DAT'', 17),
     (''R_TILEGX_JMP_SLOT'', 18), (''R_TILEGX_RELATIVE'', 19), (''R_TILEGX_BROFF_X1'', 20),
     (''R_TILEGX_JUMPOFF_X1'', 21), (''R_TILEGX_JUMPOFF_X1_PLT'', 22), (''R_TILEGX_IMM8_X0'', 23),
     (''R_TILEGX_IMM8_Y0'', 24), (''R_TILEGX_IMM8_X1'', 25), (''R_TILEGX_IMM8_Y1'', 26),
     (''R_TILEGX_DEST_IMM8_X1'', 27), (''R_TILEGX_MT_IMM14_X1'', 28), (''R_TILEGX_MF_IMM14_X1'', 29),
     (''R_TILEGX_MMSTART_X0'', 30), (''R_TILEGX_MMEND_X0'', 31), (''R_TILEGX_SHAMT_X0'', 32),
     (''R_TILEGX_SHAMT_X1'', 33), (''R_TILEGX_SHAMT_Y0'', 34), (''R_TILEGX_SHAMT_Y1'', 35),
     (''R_TILEGX_IMM16_X0_HW0'', 36), (''R_TILEGX_IMM16_X1_HW0'', 37), (''R_TILEGX_IMM16_X0_HW1'', 38),
     (''R_TILEGX_IMM16_X1_HW1'', 39), (''R_TILEGX_IMM16_X0_HW2'', 40), (''R_TILEGX_IMM16_X1_HW2'', 41),
     (''R_TILEGX_IMM16_X0_HW3'', 42), (''R_TILEGX_IMM16_X1_HW3'', 43), (''R_TILEGX_IMM16_X0_HW0_LAST'', 44),
     (''R_TILEGX_IMM16_X1_HW0_LAST'', 45), (''R_TILEGX_IMM16_X0_HW1_LAST'', 46),
     (''R_TILEGX_IMM16_X1_HW1_LAST'', 47), (''R_TILEGX_IMM16_X0_HW2_LAST'', 48),
     (''R_TILEGX_IMM16_X1_HW2_LAST'', 49), (''R_TILEGX_IMM16_X0_HW0_PCREL'', 50),
     (''R_TILEGX_IMM16_X1_HW0_PCREL'', 51), (''R_TILEGX_IMM16_X0_HW1_PCREL'', 52),
     (''R_TILEGX_IMM16_X1_HW1_PCREL'', 53), (''R_TILEGX_IMM16_X0_HW2_PCREL'', 54),
     (''R_TILEGX_IMM16_X1_HW2_PCREL'', 55), (''R_TILEGX_IMM16_X0_HW3_PCREL'', 56),
     (''R_TILEGX_IMM16_X1_HW3_PCREL'', 57), (''R_TILEGX_IMM16_X0_HW0_LAST_PCREL'', 58),
     (''R_TILEGX_IMM16_X1_HW0_LAST_PCREL'', 59), (''R_TILEGX_IMM16_X0_HW1_LAST_PCREL'', 60),
     (''R_TILEGX_IMM16_X1_HW1_LAST_PCREL'', 61), (''R_TILEGX_IMM16_X0_HW2_LAST_PCREL'', 62),
     (''R_TILEGX_IMM16_X1_HW2_LAST_PCREL'', 63), (''R_TILEGX_IMM16_X0_HW0_GOT'', 64),
     (''R_TILEGX_IMM16_X1_HW0_GOT'', 65), (''R_TILEGX_IMM16_X0_HW0_PLT_PCREL'', 66),
     (''R_TILEGX_IMM16_X1_HW0_PLT_PCREL'', 67), (''R_TILEGX_IMM16_X0_HW1_PLT_PCREL'', 68),
     (''R_TILEGX_IMM16_X1_HW1_PLT_PCREL'', 69), (''R_TILEGX_IMM16_X0_HW2_PLT_PCREL'', 70),
     (''R_TILEGX_IMM16_X1_HW2_PLT_PCREL'', 71), (''R_TILEGX_IMM16_X0_HW0_LAST_GOT'', 72),
     (''R_TILEGX_IMM16_X1_HW0_LAST_GOT'', 73), (''R_TILEGX_IMM16_X0_HW1_LAST_GOT'', 74),
     (''R_TILEGX_IMM16_X1_HW1_LAST_GOT'', 75), (''R_TILEGX_IMM16_X0_HW3_PLT_PCREL'', 76),
     (''R_TILEGX_IMM16_X1_HW3_PLT_PCREL'', 77), (''R_TILEGX_IMM16_X0_HW0_TLS_GD'', 78),
     (''R_TILEGX_IMM16_X1_HW0_TLS_GD'', 79), (''R_TILEGX_IMM16_X0_HW0_TLS_LE'', 80),
     (''R_TILEGX_IMM16_X1_HW0_TLS_LE'', 81), (''R_TILEGX_IMM16_X0_HW0_LAST_TLS_LE'', 82),
     (''R_TILEGX_IMM16_X1_HW0_LAST_TLS_LE'', 83), (''R_TILEGX_IMM16_X0_HW1_LAST_TLS_LE'', 84),
     (''R_TILEGX_IMM16_X1_HW1_LAST_TLS_LE'', 85), (''R_TILEGX_IMM16_X0_HW0_LAST_TLS_GD'', 86),
     (''R_TILEGX_IMM16_X1_HW0_LAST_TLS_GD'', 87), (''R_TILEGX_IMM16_X0_HW1_LAST_TLS_GD'', 88),
     (''R_TILEGX_IMM16_X1_HW1_LAST_TLS_GD'', 89), (''R_TILEGX_IMM16_X0_HW0_TLS_IE'', 92),
     (''R_TILEGX_IMM16_X1_HW0_TLS_IE'', 93), (''R_TILEGX_IMM16_X0_HW0_LAST_PLT_PCREL'', 94),
     (''R_TILEGX_IMM16_X1_HW0_LAST_PLT_PCREL'', 95), (''R_TILEGX_IMM16_X0_HW1_LAST_PLT_PCREL'', 96),
     (''R_TILEGX_IMM16_X1_HW1_LAST_PLT_PCREL'', 97), (''R_TILEGX_IMM16_X0_HW2_LAST_PLT_PCREL'', 98),
     (''R_TILEGX_IMM16_X1_HW2_LAST_PLT_PCREL'', 99), (''R_TILEGX_IMM16_X0_HW0_LAST_TLS_IE'', 100),
     (''R_TILEGX_IMM16_X1_HW0_LAST_TLS_IE'', 101), (''R_TILEGX_IMM16_X0_HW1_LAST_TLS_IE'', 102),
     (''R_TILEGX_IMM16_X1_HW1_LAST_TLS_IE'', 103), (''R_TILEGX_TLS_DTPMOD64'', 106),
     (''R_TILEGX_TLS_DTPOFF64'', 107), (''R_TILEGX_TLS_TPOFF64'', 108), (''R_TILEGX_TLS_DTPMOD32'', 109),
     (''R_TILEGX_TLS_DTPOFF32'', 110), (''R_TILEGX_TLS_TPOFF32'', 111), (''R_TILEGX_TLS_GD_CALL'', 112),
     (''R_TILEGX_IMM8_X0_TLS_GD_ADD'', 113), (''R_TILEGX_IMM8_X1_TLS_GD_ADD'', 114),
     (''R_TILEGX_IMM8_Y0_TLS_GD_ADD'', 115), (''R_TILEGX_IMM8_Y1_TLS_GD_ADD'', 116),
     (''R_TILEGX_TLS_IE_LOAD'', 117), (''R_TILEGX_IMM8_X0_TLS_ADD'', 118),
     (''R_TILEGX_IMM8_X1_TLS_ADD'', 119), (''R_TILEGX_IMM8_Y0_TLS_ADD'', 120),
     (''R_TILEGX_IMM8_Y1_TLS_ADD'', 121), (''R_TILEGX_GNU_VTINHERIT'', 128), (''R_TILEGX_GNU_VTENTRY'', 129),
     (''R_TILEGX_NUM'', 130)]"

subsection \<open>RISC-V\<close>

definition EF_RISCV_table :: "(string \<times> int) list" where
  "EF_RISCV_table =
    [(''EF_RISCV_RVC'', 0x1), (''EF_RISCV_FLOAT_ABI'', 0x6), (''EF_RISCV_FLOAT_ABI_SOFT'', 0x0),
     (''EF_RISCV_FLOAT_ABI_SINGLE'', 0x2), (''EF_RISCV_FLOAT_ABI_DOUBLE'', 0x4),
     (''EF_RISCV_FLOAT_ABI_QUAD'', 0x6), (''EF_RISCV_RVE'', 0x8), (''EF_RISCV_TSO'', 0x10)]"

definition R_RISCV_table :: "(string \<times> int) list" where
  "R_RISCV_table =
    [(''R_RISCV_NONE'', 0), (''R_RISCV_32'', 1), (''R_RISCV_64'', 2), (''R_RISCV_RELATIVE'', 3),
     (''R_RISCV_COPY'', 4), (''R_RISCV_JUMP_SLOT'', 5), (''R_RISCV_TLS_DTPMOD32'', 6),
     (''R_RISCV_TLS_DTPMOD64'', 7), (''R_RISCV_TLS_DTPREL32'', 8), (''R_RISCV_TLS_DTPREL64'', 9),
     (''R_RISCV_TLS_TPREL32'', 10), (''R_RISCV_TLS_TPREL64'', 11), (''R_RISCV_BRANCH'', 16),
     (''R_RISCV_JAL'', 17), (''R_RISCV_CALL'', 18), (''R_RISCV_CALL_PLT'', 19), (''R_RISCV_GOT_HI20'', 20),
     (''R_RISCV_TLS_GOT_HI20'', 21), (''R_RISCV_TLS_GD_HI20'', 22), (''R_RISCV_PCREL_HI20'', 23),
     (''R_RISCV_PCREL_LO12_I'', 24), (''R_RISCV_PCREL_LO12_S'', 25), (''R_RISCV_HI20'', 26),
     (''R_RISCV_LO12_I'', 27), (''R_RISCV_LO12_S'', 28), (''R_RISCV_TPREL_HI20'', 29),
     (''R_RISCV_TPREL_LO12_I'', 30), (''R_RISCV_TPREL_LO12_S'', 31), (''R_RISCV_TPREL_ADD'', 32),
     (''R_RISCV_ADD8'', 33), (''R_RISCV_ADD16'', 34), (''R_RISCV_ADD32'', 35), (''R_RISCV_ADD64'', 36),
     (''R_RISCV_SUB8'', 37), (''R_RISCV_SUB16'', 38), (''R_RISCV_SUB32'', 39), (''R_RISCV_SUB64'', 40),
     (''R_RISCV_GNU_VTINHERIT'', 41), (''R_RISCV_GNU_VTENTRY'', 42), (''R_RISCV_ALIGN'', 43),
     (''R_RISCV_RVC_BRANCH'', 44), (''R_RISCV_RVC_JUMP'', 45), (''R_RISCV_RVC_LUI'', 46),
     (''R_RISCV_GPREL_I'', 47), (''R_RISCV_GPREL_S'', 48), (''R_RISCV_TPREL_I'', 49),
     (''R_RISCV_TPREL_S'', 50), (''R_RISCV_RELAX'', 51), (''R_RISCV_SUB6'', 52), (''R_RISCV_SET6'', 53),
     (''R_RISCV_SET8'', 54), (''R_RISCV_SET16'', 55), (''R_RISCV_SET32'', 56), (''R_RISCV_32_PCREL'', 57),
     (''R_RISCV_IRELATIVE'', 58), (''R_RISCV_PLT32'', 59), (''R_RISCV_SET_ULEB128'', 60),
     (''R_RISCV_SUB_ULEB128'', 61), (''R_RISCV_NUM'', 62)]"

definition STO_RISCV_VARIANT_CC :: int where "STO_RISCV_VARIANT_CC = 0x80"
definition SHT_RISCV_ATTRIBUTES :: int where "SHT_RISCV_ATTRIBUTES = 0x70000000 + 3"
definition PT_RISCV_ATTRIBUTES :: int where "PT_RISCV_ATTRIBUTES = 0x70000000 + 3"
definition DT_RISCV_VARIANT_CC :: int where "DT_RISCV_VARIANT_CC = 0x70000000 + 1"

subsection \<open>BPF\<close>

definition R_BPF_table :: "(string \<times> int) list" where
  "R_BPF_table =
    [(''R_BPF_NONE'', 0), (''R_BPF_64_64'', 1), (''R_BPF_64_32'', 10)]"

subsection \<open>Imagination Meta\<close>

definition R_METAG_table :: "(string \<times> int) list" where
  "R_METAG_table =
    [(''R_METAG_HIADDR16'', 0), (''R_METAG_LOADDR16'', 1), (''R_METAG_ADDR32'', 2), (''R_METAG_NONE'', 3),
     (''R_METAG_RELBRANCH'', 4), (''R_METAG_GETSETOFF'', 5), (''R_METAG_REG32OP1'', 6),
     (''R_METAG_REG32OP2'', 7), (''R_METAG_REG32OP3'', 8), (''R_METAG_REG16OP1'', 9),
     (''R_METAG_REG16OP2'', 10), (''R_METAG_REG16OP3'', 11), (''R_METAG_REG32OP4'', 12),
     (''R_METAG_HIOG'', 13), (''R_METAG_LOOG'', 14), (''R_METAG_REL8'', 15), (''R_METAG_REL16'', 16),
     (''R_METAG_GNU_VTINHERIT'', 30), (''R_METAG_GNU_VTENTRY'', 31), (''R_METAG_HI16_GOTOFF'', 32),
     (''R_METAG_LO16_GOTOFF'', 33), (''R_METAG_GETSET_GOTOFF'', 34), (''R_METAG_GETSET_GOT'', 35),
     (''R_METAG_HI16_GOTPC'', 36), (''R_METAG_LO16_GOTPC'', 37), (''R_METAG_HI16_PLT'', 38),
     (''R_METAG_LO16_PLT'', 39), (''R_METAG_RELBRANCH_PLT'', 40), (''R_METAG_GOTOFF'', 41),
     (''R_METAG_PLT'', 42), (''R_METAG_COPY'', 43), (''R_METAG_JMP_SLOT'', 44), (''R_METAG_RELATIVE'', 45),
     (''R_METAG_GLOB_DAT'', 46), (''R_METAG_TLS_GD'', 47), (''R_METAG_TLS_LDM'', 48),
     (''R_METAG_TLS_LDO_HI16'', 49), (''R_METAG_TLS_LDO_LO16'', 50), (''R_METAG_TLS_LDO'', 51),
     (''R_METAG_TLS_IE'', 52), (''R_METAG_TLS_IENONPIC'', 53), (''R_METAG_TLS_IENONPIC_HI16'', 54),
     (''R_METAG_TLS_IENONPIC_LO16'', 55), (''R_METAG_TLS_TPOFF'', 56), (''R_METAG_TLS_DTPMOD'', 57),
     (''R_METAG_TLS_DTPOFF'', 58), (''R_METAG_TLS_LE'', 59), (''R_METAG_TLS_LE_HI16'', 60),
     (''R_METAG_TLS_LE_LO16'', 61)]"

subsection \<open>Andes NDS32\<close>

definition R_NDS32_table :: "(string \<times> int) list" where
  "R_NDS32_table =
    [(''R_NDS32_NONE'', 0), (''R_NDS32_32_RELA'', 20), (''R_NDS32_COPY'', 39), (''R_NDS32_GLOB_DAT'', 40),
     (''R_NDS32_JMP_SLOT'', 41), (''R_NDS32_RELATIVE'', 42), (''R_NDS32_TLS_TPOFF'', 102),
     (''R_NDS32_TLS_DESC'', 119)]"

subsection \<open>LoongArch\<close>

definition EF_LARCH_table :: "(string \<times> int) list" where
  "EF_LARCH_table =
    [(''EF_LARCH_ABI_MODIFIER_MASK'', 0x7), (''EF_LARCH_ABI_SOFT_FLOAT'', 0x1),
     (''EF_LARCH_ABI_SINGLE_FLOAT'', 0x2), (''EF_LARCH_ABI_DOUBLE_FLOAT'', 0x3),
     (''EF_LARCH_OBJABI_V1'', 0x40)]"

definition R_LARCH_table :: "(string \<times> int) list" where
  "R_LARCH_table =
    [(''R_LARCH_NONE'', 0), (''R_LARCH_32'', 1), (''R_LARCH_64'', 2), (''R_LARCH_RELATIVE'', 3),
     (''R_LARCH_COPY'', 4), (''R_LARCH_JUMP_SLOT'', 5), (''R_LARCH_TLS_DTPMOD32'', 6),
     (''R_LARCH_TLS_DTPMOD64'', 7), (''R_LARCH_TLS_DTPREL32'', 8), (''R_LARCH_TLS_DTPREL64'', 9),
     (''R_LARCH_TLS_TPREL32'', 10), (''R_LARCH_TLS_TPREL64'', 11), (''R_LARCH_IRELATIVE'', 12),
     (''R_LARCH_MARK_LA'', 20), (''R_LARCH_MARK_PCREL'', 21), (''R_LARCH_SOP_PUSH_PCREL'', 22),
     (''R_LARCH_SOP_PUSH_ABSOLUTE'', 23), (''R_LARCH_SOP_PUSH_DUP'', 24), (''R_LARCH_SOP_PUSH_GPREL'', 25),
     (''R_LARCH_SOP_PUSH_TLS_TPREL'', 26), (''R_LARCH_SOP_PUSH_TLS_GOT'', 27),
     (''R_LARCH_SOP_PUSH_TLS_GD'', 28), (''R_LARCH_SOP_PUSH_PLT_PCREL'', 29), (''R_LARCH_SOP_ASSERT'', 30),
     (''R_LARCH_SOP_NOT'', 31), (''R_LARCH_SOP_SUB'', 32), (''R_LARCH_SOP_SL'', 33), (''R_LARCH_SOP_SR'', 34),
     (''R_LARCH_SOP_ADD'', 35), (''R_LARCH_SOP_AND'', 36), (''R_LARCH_SOP_IF_ELSE'', 37),
     (''R_LARCH_SOP_POP_32_S_10_5'', 38), (''R_LARCH_SOP_POP_32_U_10_12'', 39),
     (''R_LARCH_SOP_POP_32_S_10_12'', 40), (''R_LARCH_SOP_POP_32_S_10_16'', 41),
     (''R_LARCH_SOP_POP_32_S_10_16_S2'', 42), (''R_LARCH_SOP_POP_32_S_5_20'', 43),
     (''R_LARCH_SOP_POP_32_S_0_5_10_16_S2'', 44), (''R_LARCH_SOP_POP_32_S_0_10_10_16_S2'', 45),
     (''R_LARCH_SOP_POP_32_U'', 46), (''R_LARCH_ADD8'', 47), (''R_LARCH_ADD16'', 48), (''R_LARCH_ADD24'', 49),
     (''R_LARCH_ADD32'', 50), (''R_LARCH_ADD64'', 51), (''R_LARCH_SUB8'', 52), (''R_LARCH_SUB16'', 53),
     (''R_LARCH_SUB24'', 54), (''R_LARCH_SUB32'', 55), (''R_LARCH_SUB64'', 56),
     (''R_LARCH_GNU_VTINHERIT'', 57), (''R_LARCH_GNU_VTENTRY'', 58), (''R_LARCH_B16'', 64),
     (''R_LARCH_B21'', 65), (''R_LARCH_B26'', 66), (''R_LARCH_ABS_HI20'', 67), (''R_LARCH_ABS_LO12'', 68),
     (''R_LARCH_ABS64_LO20'', 69), (''R_LARCH_ABS64_HI12'', 70), (''R_LARCH_PCALA_HI20'', 71),
     (''R_LARCH_PCALA_LO12'', 72), (''R_LARCH_PCALA64_LO20'', 73), (''R_LARCH_PCALA64_HI12'', 74),
     (''R_LARCH_GOT_PC_HI20'', 75), (''R_LARCH_GOT_PC_LO12'', 76), (''R_LARCH_GOT64_PC_LO20'', 77),
     (''R_LARCH_GOT64_PC_HI12'', 78), (''R_LARCH_GOT_HI20'', 79), (''R_LARCH_GOT_LO12'', 80),
     (''R_LARCH_GOT64_LO20'', 81), (''R_LARCH_GOT64_HI12'', 82), (''R_LARCH_TLS_LE_HI20'', 83),
     (''R_LARCH_TLS_LE_LO12'', 84), (''R_LARCH_TLS_LE64_LO20'', 85), (''R_LARCH_TLS_LE64_HI12'', 86),
     (''R_LARCH_TLS_IE_PC_HI20'', 87), (''R_LARCH_TLS_IE_PC_LO12'', 88), (''R_LARCH_TLS_IE64_PC_LO20'', 89),
     (''R_LARCH_TLS_IE64_PC_HI12'', 90), (''R_LARCH_TLS_IE_HI20'', 91), (''R_LARCH_TLS_IE_LO12'', 92),
     (''R_LARCH_TLS_IE64_LO20'', 93), (''R_LARCH_TLS_IE64_HI12'', 94), (''R_LARCH_TLS_LD_PC_HI20'', 95),
     (''R_LARCH_TLS_LD_HI20'', 96), (''R_LARCH_TLS_GD_PC_HI20'', 97), (''R_LARCH_TLS_GD_HI20'', 98),
     (''R_LARCH_32_PCREL'', 99), (''R_LARCH_RELAX'', 100), (''R_LARCH_DELETE'', 101),
     (''R_LARCH_ALIGN'', 102), (''R_LARCH_PCREL20_S2'', 103), (''R_LARCH_CFA'', 104), (''R_LARCH_ADD6'', 105),
     (''R_LARCH_SUB6'', 106), (''R_LARCH_ADD_ULEB128'', 107), (''R_LARCH_SUB_ULEB128'', 108),
     (''R_LARCH_64_PCREL'', 109)]"

subsection \<open>ARC\<close>

definition EF_ARC_table :: "(string \<times> int) list" where
  "EF_ARC_table =
    [(''EF_ARC_MACH_MSK'', 0xFF), (''EF_ARC_OSABI_MSK'', 0xF00), (''EF_ARC_ALL_MSK'', 0xFF OR 0xF00)]"

definition SHT_ARC_ATTRIBUTES :: int where "SHT_ARC_ATTRIBUTES = 0x70000000 + 1"

definition R_ARC_table :: "(string \<times> int) list" where
  "R_ARC_table =
    [(''R_ARC_NONE'', 0x0), (''R_ARC_8'', 0x1), (''R_ARC_16'', 0x2), (''R_ARC_24'', 0x3), (''R_ARC_32'', 0x4),
     (''R_ARC_B22_PCREL'', 0x6), (''R_ARC_H30'', 0x7), (''R_ARC_N8'', 0x8), (''R_ARC_N16'', 0x9),
     (''R_ARC_N24'', 0xA), (''R_ARC_N32'', 0xB), (''R_ARC_SDA'', 0xC), (''R_ARC_SECTOFF'', 0xD),
     (''R_ARC_S21H_PCREL'', 0xE), (''R_ARC_S21W_PCREL'', 0xF), (''R_ARC_S25H_PCREL'', 0x10),
     (''R_ARC_S25W_PCREL'', 0x11), (''R_ARC_SDA32'', 0x12), (''R_ARC_SDA_LDST'', 0x13),
     (''R_ARC_SDA_LDST1'', 0x14), (''R_ARC_SDA_LDST2'', 0x15), (''R_ARC_SDA16_LD'', 0x16),
     (''R_ARC_SDA16_LD1'', 0x17), (''R_ARC_SDA16_LD2'', 0x18), (''R_ARC_S13_PCREL'', 0x19),
     (''R_ARC_W'', 0x1A), (''R_ARC_32_ME'', 0x1B), (''R_ARC_N32_ME'', 0x1C), (''R_ARC_SECTOFF_ME'', 0x1D),
     (''R_ARC_SDA32_ME'', 0x1E), (''R_ARC_W_ME'', 0x1F), (''R_ARC_H30_ME'', 0x20),
     (''R_ARC_SECTOFF_U8'', 0x21), (''R_ARC_SECTOFF_S9'', 0x22), (''R_AC_SECTOFF_U8'', 0x23),
     (''R_AC_SECTOFF_U8_1'', 0x24), (''R_AC_SECTOFF_U8_2'', 0x25), (''R_AC_SECTOFF_S9'', 0x26),
     (''R_AC_SECTOFF_S9_1'', 0x27), (''R_AC_SECTOFF_S9_2'', 0x28), (''R_ARC_SECTOFF_ME_1'', 0x29),
     (''R_ARC_SECTOFF_ME_2'', 0x2A), (''R_ARC_SECTOFF_1'', 0x2B), (''R_ARC_SECTOFF_2'', 0x2C),
     (''R_ARC_SDA_12'', 0x2D), (''R_ARC_SDA16_ST2'', 0x30), (''R_ARC_32_PCREL'', 0x31),
     (''R_ARC_PC32'', 0x32), (''R_ARC_GOTPC32'', 0x33), (''R_ARC_PLT32'', 0x34), (''R_ARC_COPY'', 0x35),
     (''R_ARC_GLOB_DAT'', 0x36), (''R_ARC_JMP_SLOT'', 0x37), (''R_ARC_RELATIVE'', 0x38),
     (''R_ARC_GOTOFF'', 0x39), (''R_ARC_GOTPC'', 0x3A), (''R_ARC_GOT32'', 0x3B),
     (''R_ARC_S21W_PCREL_PLT'', 0x3C), (''R_ARC_S25H_PCREL_PLT'', 0x3D), (''R_ARC_JLI_SECTOFF'', 0x3F),
     (''R_ARC_TLS_DTPMOD'', 0x42), (''R_ARC_TLS_DTPOFF'', 0x43), (''R_ARC_TLS_TPOFF'', 0x44),
     (''R_ARC_TLS_GD_GOT'', 0x45), (''R_ARC_TLS_GD_LD'', 0x46), (''R_ARC_TLS_GD_CALL'', 0x47),
     (''R_ARC_TLS_IE_GOT'', 0x48), (''R_ARC_TLS_DTPOFF_S9'', 0x49), (''R_ARC_TLS_LE_S9'', 0x4A),
     (''R_ARC_TLS_LE_32'', 0x4B), (''R_ARC_S25W_PCREL_PLT'', 0x4C), (''R_ARC_S21H_PCREL_PLT'', 0x4D),
     (''R_ARC_NPS_CMEM16'', 0x4E)]"

subsection \<open>OpenRISC 1000\<close>

definition R_OR1K_table :: "(string \<times> int) list" where
  "R_OR1K_table =
    [(''R_OR1K_NONE'', 0), (''R_OR1K_32'', 1), (''R_OR1K_16'', 2), (''R_OR1K_8'', 3),
     (''R_OR1K_LO_16_IN_INSN'', 4), (''R_OR1K_HI_16_IN_INSN'', 5), (''R_OR1K_INSN_REL_26'', 6),
     (''R_OR1K_GNU_VTENTRY'', 7), (''R_OR1K_GNU_VTINHERIT'', 8), (''R_OR1K_32_PCREL'', 9),
     (''R_OR1K_16_PCREL'', 10), (''R_OR1K_8_PCREL'', 11), (''R_OR1K_GOTPC_HI16'', 12),
     (''R_OR1K_GOTPC_LO16'', 13), (''R_OR1K_GOT16'', 14), (''R_OR1K_PLT26'', 15),
     (''R_OR1K_GOTOFF_HI16'', 16), (''R_OR1K_GOTOFF_LO16'', 17), (''R_OR1K_COPY'', 18),
     (''R_OR1K_GLOB_DAT'', 19), (''R_OR1K_JMP_SLOT'', 20), (''R_OR1K_RELATIVE'', 21),
     (''R_OR1K_TLS_GD_HI16'', 22), (''R_OR1K_TLS_GD_LO16'', 23), (''R_OR1K_TLS_LDM_HI16'', 24),
     (''R_OR1K_TLS_LDM_LO16'', 25), (''R_OR1K_TLS_LDO_HI16'', 26), (''R_OR1K_TLS_LDO_LO16'', 27),
     (''R_OR1K_TLS_IE_HI16'', 28), (''R_OR1K_TLS_IE_LO16'', 29), (''R_OR1K_TLS_LE_HI16'', 30),
     (''R_OR1K_TLS_LE_LO16'', 31), (''R_OR1K_TLS_TPOFF'', 32), (''R_OR1K_TLS_DTPOFF'', 33),
     (''R_OR1K_TLS_DTPMOD'', 34)]"

section \<open>Relocation types\<close>

text \<open>The relocation types of each architecture, with the names that repeat a number: an old and a
  new name of one type, or the start of a reserved range.\<close>

definition R_PARISC_aliases :: "string list" where
  "R_PARISC_aliases =
    [''R_PARISC_LORESERVE'', ''R_PARISC_TLS_TPREL32'', ''R_PARISC_TLS_LE21L'', ''R_PARISC_TLS_LE14R'',
     ''R_PARISC_TLS_IE21L'', ''R_PARISC_TLS_IE14R'', ''R_PARISC_TLS_TPREL64'']"

definition R_ARM_aliases :: "string list" where
  "R_ARM_aliases = [''R_ARM_TLS_DESC'', ''R_ARM_THM_TLS_DESCSEQ16'']"

definition relocation_tables :: "(string \<times> (string \<times> int) list \<times> string list) list" where
  "relocation_tables =
    [(''EM_68K'', R_68K_table, []), (''EM_386'', R_386_table, []), (''EM_SPARC'', R_SPARC_table, []),
     (''EM_MIPS'', R_MIPS_table, []), (''EM_PARISC'', R_PARISC_table, R_PARISC_aliases),
     (''EM_ALPHA'', R_ALPHA_table, []), (''EM_PPC'', R_PPC_table, []), (''EM_PPC64'', R_PPC64_table, []),
     (''EM_AARCH64'', R_AARCH64_table, []), (''EM_ARM'', R_ARM_table, R_ARM_aliases),
     (''EM_CSKY'', R_CKCORE_table, []), (''EM_IA_64'', R_IA64_table, []), (''EM_SH'', R_SH_table, []),
     (''EM_S390'', R_390_table, []), (''EM_CRIS'', R_CRIS_table, []), (''EM_X86_64'', R_X86_64_table, []),
     (''EM_MN10300'', R_MN10300_table, []), (''EM_M32R'', R_M32R_table, []),
     (''EM_MICROBLAZE'', R_MICROBLAZE_table, []), (''EM_ALTERA_NIOS2'', R_NIOS2_table, []),
     (''EM_TILEPRO'', R_TILEPRO_table, []), (''EM_TILEGX'', R_TILEGX_table, []),
     (''EM_RISCV'', R_RISCV_table, []), (''EM_BPF'', R_BPF_table, []), (''EM_METAG'', R_METAG_table, []),
     (''EM_NDS32'', R_NDS32_table, []), (''EM_LOONGARCH'', R_LARCH_table, []),
     (''EM_ARC_COMPACT'', R_ARC_table, []), (''EM_OPENRISC'', R_OR1K_table, [])]"

text \<open>A last name that ends in \<open>_NUM\<close> is no type: it marks the end of the types before it.\<close>

definition end_marker :: "string \<Rightarrow> bool" where
  "end_marker name = (drop (length name - 4) name = ''_NUM'')"

definition relocation_types :: "(string \<times> int) list \<Rightarrow> (string \<times> int) list" where
  "relocation_types table = (if table \<noteq> [] \<and> end_marker (fst (last table)) then butlast table else table)"

text \<open>The check of a table in one pass: up to the names \<open>a\<close> the numbers ascend from \<open>v\<close> on, all types
  lie below \<open>b\<close>, and an end marker is larger than the types.\<close>

fun ascending_table :: "string list \<Rightarrow> int \<Rightarrow> int \<Rightarrow> (string \<times> int) list \<Rightarrow> bool" where
  "ascending_table a b v [] = True"
| "ascending_table a b v [e] = (if end_marker (fst e) then v < snd e else
     if fst e \<in> set a then 0 \<le> snd e \<and> snd e < b else v < snd e \<and> snd e < b)"
| "ascending_table a b v (e # e' # t) = (if fst e \<in> set a then 0 \<le> snd e \<and> snd e < b \<and> ascending_table a b v (e' # t)
     else v < snd e \<and> snd e < b \<and> ascending_table a b (snd e) (e' # t))"

text \<open>The rest of a table is not looked at before its turn.\<close>

lemma keep_rest: "v = v' \<Longrightarrow> ascending_table a b v t = ascending_table a b v' t"
  by simp

lemmas R_tables =
  R_68K_table_def R_386_table_def R_SPARC_table_def R_MIPS_table_def R_PARISC_table_def R_ALPHA_table_def
  R_PPC_table_def R_PPC64_table_def R_AARCH64_table_def R_ARM_table_low_def R_ARM_table_high_def
  R_ARM_table_def R_CKCORE_table_def R_IA64_table_def R_SH_table_def R_390_table_def R_CRIS_table_def
  R_X86_64_table_def R_MN10300_table_def R_M32R_table_def R_MICROBLAZE_table_def R_NIOS2_table_def
  R_TILEPRO_table_def R_TILEGX_table_def R_RISCV_table_def R_BPF_table_def R_METAG_table_def
  R_NDS32_table_def R_LARCH_table_def R_ARC_table_def R_OR1K_table_def R_PARISC_aliases_def
  R_ARM_aliases_def

lemma relocation_tables_ascend:
  "list_all (\<lambda>(m, t, a). ascending_table a (if m = ''EM_AARCH64'' then 2048 else 256) (- 1) t) relocation_tables"
  unfolding relocation_tables_def list.pred_inject prod.case R_tables append.simps
  by (intro conjI TrueI) (simp_all add: R_PARISC_aliases_def R_ARM_aliases_def end_marker_def cong: keep_rest)

lemma ascending_table_marker:
  "ascending_table a b v t \<Longrightarrow> e \<in> set t \<Longrightarrow> e \<notin> set (relocation_types t) \<Longrightarrow>
     end_marker (fst e) \<and> v < snd e \<and> (\<forall>x\<in>set (relocation_types t). fst x \<notin> set a \<longrightarrow> snd x < snd e)"
  by (induction a b v t rule: ascending_table.induct) (auto simp: relocation_types_def split: if_splits)

lemma ascending_table_types:
  "ascending_table a b v t \<Longrightarrow> - 1 \<le> v \<Longrightarrow> x \<in> set (relocation_types t) \<Longrightarrow>
     0 \<le> snd x \<and> snd x < b \<and> (fst x \<notin> set a \<longrightarrow> v < snd x)"
  by (induction a b v t rule: ascending_table.induct) (auto simp: relocation_types_def split: if_splits)

lemma ascending_table_inj:
  "ascending_table a b v t \<Longrightarrow> - 1 \<le> v \<Longrightarrow> x \<in> set (relocation_types t) \<Longrightarrow> y \<in> set (relocation_types t) \<Longrightarrow>
     fst x \<notin> set a \<Longrightarrow> fst y \<notin> set a \<Longrightarrow> snd x = snd y \<Longrightarrow> x = y"
proof (induction a b v t rule: ascending_table.induct)
  case (3 a b v e e' t)
  have types: "relocation_types (e # e' # t) = e # relocation_types (e' # t)" by (simp add: relocation_types_def)
  show ?case
  proof (cases "fst e \<in> set a")
    case True
    with 3 types show ?thesis by auto
  next
    case False
    then have rest: "ascending_table a b (snd e) (e' # t)" and e: "v < snd e" using 3(3) by auto
    have "snd e < snd z" if "z \<in> set (relocation_types (e' # t))" "fst z \<notin> set a" for z
      using ascending_table_types [OF rest _ that(1)] that(2) e 3(4) by auto
    then show ?thesis using 3 types rest False e by fastforce
  qed
qed (auto simp: relocation_types_def split: if_splits)

text \<open>Packing a relocation type with a symbol, for any type that fits the field.\<close>

lemma r_info_parts:
  assumes "sym32 < 2 ^ 24" "t32 < 2 ^ 8" "sym64 < 2 ^ 32" "t64 < 2 ^ 32"
  shows "ELF32_R_SYM (ELF32_R_INFO sym32 t32) = sym32" "ELF32_R_TYPE (ELF32_R_INFO sym32 t32) = t32"
    "ELF64_R_SYM (ELF64_R_INFO sym64 t64) = sym64" "ELF64_R_TYPE (ELF64_R_INFO sym64 t64) = t64"
  using elf_info_roundtrip [of 0 0 sym32 t32 sym64 t64 0] assms by simp_all

lemma uint_of_type:
  "0 \<le> type \<Longrightarrow> type < 2048 \<Longrightarrow> uint (of_int type :: u32) = type \<and> uint (of_int type :: u64) = type \<and>
     (of_int type :: u64) < 2 ^ 32"
  "0 \<le> type \<Longrightarrow> type < 256 \<Longrightarrow> (of_int type :: u32) < 2 ^ 8"
  by (simp_all add: unsigned_of_int take_bit_eq_mod word_less_def)

text \<open>C23: the relocation types of every processor are consistent: a number names one type only, up to
  the names the header gives twice; a name that is no type is a \<open>_NUM\<close> marker above them; and each
  type reads back from the \<open>r_info\<close> it is packed into with a symbol, from the 64-bit form always, and
  from the 32-bit form, which has eight bits for it, for every processor but 64-bit AArch64.\<close>

theorem relocation_types_consistent:
  assumes "(machine, table, aliases) \<in> set relocation_tables" "(name, type) \<in> set (relocation_types table)"
    and "sym32 < 2 ^ 24" "sym64 < 2 ^ 32"
  shows "(name \<notin> set aliases \<longrightarrow>
      (\<forall>name'. (name', type) \<in> set (relocation_types table) \<longrightarrow> name' = name \<or> name' \<in> set aliases) \<and>
      (\<forall>(marker, number) \<in> set table - set (relocation_types table). end_marker marker \<and> type < number)) \<and>
    uint (ELF64_R_TYPE (ELF64_R_INFO sym64 (of_int type))) = type \<and>
    ELF64_R_SYM (ELF64_R_INFO sym64 (of_int type)) = sym64 \<and>
    (machine \<noteq> ''EM_AARCH64'' \<longrightarrow> uint (ELF32_R_TYPE (ELF32_R_INFO sym32 (of_int type))) = type \<and>
      ELF32_R_SYM (ELF32_R_INFO sym32 (of_int type)) = sym32)"
proof -
  define b where "b = (if machine = ''EM_AARCH64'' then 2048 else 256 :: int)"
  have check: "ascending_table aliases b (- 1) table"
    using relocation_tables_ascend assms(1) by (auto simp: b_def list_all_iff)
  have type: "0 \<le> type" "type < b" "b \<le> 2048"
    using ascending_table_types [OF check _ assms(2)] by (simp_all add: b_def)
  then have "type < 2048" by simp
  note bits = uint_of_type(1) [OF type(1) this]
  have wide: "uint (ELF64_R_TYPE (ELF64_R_INFO sym64 (of_int type))) = type"
    "ELF64_R_SYM (ELF64_R_INFO sym64 (of_int type)) = sym64"
    using r_info_parts(3,4) [of 0 0 sym64 "of_int type"] assms(4) bits by simp_all
  have narrow: "uint (ELF32_R_TYPE (ELF32_R_INFO sym32 (of_int type))) = type \<and>
      ELF32_R_SYM (ELF32_R_INFO sym32 (of_int type)) = sym32" if "machine \<noteq> ''EM_AARCH64''"
    using r_info_parts(1,2) [of sym32 "of_int type" 0 0] assms(3) bits uint_of_type(2) [OF type(1)] type(2) that
    by (simp add: b_def)
  have one: "name' = name \<or> name' \<in> set aliases"
    if "name \<notin> set aliases" "(name', type) \<in> set (relocation_types table)" for name'
    using ascending_table_inj [OF check _ assms(2) that(2)] that(1) by auto
  have marker: "end_marker n \<and> type < v"
    if "name \<notin> set aliases" "(n, v) \<in> set table" "(n, v) \<notin> set (relocation_types table)" for n v
    using ascending_table_marker [OF check that(2,3)] assms(2) that(1) by auto
  show ?thesis using wide narrow one marker by blast
qed

theorem relocation_types_consistent_witness:
  "uint (ELF64_R_TYPE (ELF64_R_INFO 5 8)) = 8 \<and> (8 :: int) < 43"
proof -
  have t: "(''EM_X86_64'', R_X86_64_table, []) \<in> set relocation_tables" by (simp add: relocation_tables_def)
  have n: "(''R_X86_64_RELATIVE'', 8) \<in> set (relocation_types R_X86_64_table)"
    "(''R_X86_64_NUM'', 43) \<in> set R_X86_64_table - set (relocation_types R_X86_64_table)"
    by (simp_all add: R_X86_64_table_def relocation_types_def end_marker_def)
  show ?thesis using relocation_types_consistent [OF t n(1), of 0 5] n(2) by auto
qed

section \<open>Ranges and masks\<close>

text \<open>The dynamic tags of a processor start at \<open>DT_LOPROC\<close> and are counted by its \<open>_NUM\<close> name, which
  \<open>DT_PROCNUM\<close> bounds, so that a table with \<open>DT_PROCNUM\<close> places has one for each of them.\<close>

lemma processor_tags:
  "list_all (\<lambda>t. list_all (\<lambda>e. elf_val DT_table ''DT_LOPROC'' \<le> snd e \<and>
       snd e - elf_val DT_table ''DT_LOPROC'' < snd (last t)) (butlast t) \<and> snd (last t) \<le> elf_val DT_table ''DT_PROCNUM'')
     [DT_SPARC_table, DT_MIPS_table, DT_ALPHA_table, DT_PPC_table, DT_PPC64_table, DT_AARCH64_table,
      DT_IA_64_table, DT_X86_64_table]"
  "snd (last DT_MIPS_table) = elf_val DT_table ''DT_PROCNUM''"
proof -
  have e: "elf_val DT_table ''DT_LOPROC'' = 0x70000000" "elf_val DT_table ''DT_PROCNUM'' = 55" by code_simp+
  show "list_all (\<lambda>t. list_all (\<lambda>e. elf_val DT_table ''DT_LOPROC'' \<le> snd e \<and>
       snd e - elf_val DT_table ''DT_LOPROC'' < snd (last t)) (butlast t) \<and> snd (last t) \<le> elf_val DT_table ''DT_PROCNUM'')
     [DT_SPARC_table, DT_MIPS_table, DT_ALPHA_table, DT_PPC_table, DT_PPC64_table, DT_AARCH64_table,
      DT_IA_64_table, DT_X86_64_table]"
    unfolding e by (simp add: DT_SPARC_table_def DT_MIPS_table_def DT_ALPHA_table_def DT_PPC_table_def
        DT_PPC64_table_def DT_AARCH64_table_def DT_IA_64_table_def DT_X86_64_table_def)
  show "snd (last DT_MIPS_table) = elf_val DT_table ''DT_PROCNUM''"
    unfolding e by (simp add: DT_MIPS_table_def)
qed

text \<open>The section and segment types of a processor lie in the ranges kept for processors.\<close>

lemma processor_section_types:
  "list_all (\<lambda>v. elf_val SHT_table ''SHT_LOPROC'' \<le> v \<and> v \<le> elf_val SHT_table ''SHT_HIPROC'')
     (map snd (SHT_MIPS_table @ SHT_PARISC_table @ SHT_ALPHA_table @ SHT_ARM_table @ SHT_IA_64_table)
       @ [SHT_CSKY_ATTRIBUTES, SHT_X86_64_UNWIND, SHT_RISCV_ATTRIBUTES, SHT_ARC_ATTRIBUTES])"
proof -
  have e: "elf_val SHT_table ''SHT_LOPROC'' = 0x70000000" "elf_val SHT_table ''SHT_HIPROC'' = 0x7FFFFFFF"
    by code_simp+
  show ?thesis
    unfolding e by (simp add: SHT_MIPS_table_def SHT_PARISC_table_def SHT_ALPHA_table_def SHT_ARM_table_def
        SHT_IA_64_table_def SHT_CSKY_ATTRIBUTES_def SHT_X86_64_UNWIND_def SHT_RISCV_ATTRIBUTES_def
        SHT_ARC_ATTRIBUTES_def)
qed

lemma processor_segment_types:
  "list_all (\<lambda>v. elf_val PT_table ''PT_LOPROC'' \<le> v \<and> v \<le> elf_val PT_table ''PT_HIPROC'')
     (map snd (PT_MIPS_table @ PT_PARISC_table @ take 2 PT_IA_64_table)
       @ [PT_ARM_EXIDX, PT_AARCH64_MEMTAG_MTE, PT_RISCV_ATTRIBUTES])"
  "list_all (\<lambda>v. elf_val PT_table ''PT_LOOS'' \<le> v \<and> v \<le> elf_val PT_table ''PT_HIOS'')
     (map snd (PT_HP_table @ drop 2 PT_IA_64_table))"
proof -
  have e: "elf_val PT_table ''PT_LOPROC'' = 0x70000000" "elf_val PT_table ''PT_HIPROC'' = 0x7FFFFFFF"
    "elf_val PT_table ''PT_LOOS'' = 0x60000000" "elf_val PT_table ''PT_HIOS'' = 0x6FFFFFFF" by code_simp+
  show "list_all (\<lambda>v. elf_val PT_table ''PT_LOPROC'' \<le> v \<and> v \<le> elf_val PT_table ''PT_HIPROC'')
     (map snd (PT_MIPS_table @ PT_PARISC_table @ take 2 PT_IA_64_table)
       @ [PT_ARM_EXIDX, PT_AARCH64_MEMTAG_MTE, PT_RISCV_ATTRIBUTES])"
    unfolding e by (simp add: PT_MIPS_table_def PT_PARISC_table_def PT_IA_64_table_def PT_ARM_EXIDX_def
        PT_AARCH64_MEMTAG_MTE_def PT_RISCV_ATTRIBUTES_def)
  show "list_all (\<lambda>v. elf_val PT_table ''PT_LOOS'' \<le> v \<and> v \<le> elf_val PT_table ''PT_HIOS'')
     (map snd (PT_HP_table @ drop 2 PT_IA_64_table))"
    unfolding e by (simp add: PT_HP_table_def PT_IA_64_table_def)
qed

text \<open>The macros: an ABI version of ARM is taken out of the flags by its mask, and the three bits of
  \<open>st_other\<close> give the distance of the local entry point in powers of two from four on.\<close>

lemma arm_eabi_versions:
  "list_all (\<lambda>v. EF_ARM_EABI_VERSION (of_int v OR 0x00FFFFFF) = of_int v) (map snd (drop 20 EF_ARM_table))"
  by (simp add: EF_ARM_table_def EF_ARM_EABI_VERSION_def)

lemma ppc64_local_entries:
  "map (\<lambda>k. unat (PPC64_LOCAL_ENTRY_OFFSET (push_bit 5 (of_nat k)))) [0..<8] = [0, 0, 4, 8, 16, 32, 64, 128]"
  by (simp add: PPC64_LOCAL_ENTRY_OFFSET_def upt_rec)

end
