(* ===== verification/Elf_Mips.thy ===== *)
theory Elf_Mips
  imports Elf_Format
begin

text \<open>
  The structures of \<open>headers/elf.h\<close> for the sections of MIPS files, as \<open>Elf64\<close> has the common ones: a
  record with its encoding and its reading for each. The fields \<open>size\<close> and \<open>section\<close> of \<open>Elf_Options\<close> have a
  prime. \<open>Elf64_Lib\<close> has the layout of \<open>Elf32_Lib\<close>. A member of the union \<open>Elf32_gptab\<close> is a reading of
  its eight bytes.
\<close>

section \<open>Structures\<close>

definition gt_current_g_value :: "u8 list \<Rightarrow> Elf32_Word" where "gt_current_g_value bs = field 0 4 bs"
definition gt_unused :: "u8 list \<Rightarrow> Elf32_Word" where "gt_unused bs = field 4 4 bs"
definition gt_g_value :: "u8 list \<Rightarrow> Elf32_Word" where "gt_g_value bs = field 0 4 bs"
definition gt_bytes :: "u8 list \<Rightarrow> Elf32_Word" where "gt_bytes bs = field 4 4 bs"

record Elf32_RegInfo =
  ri_gprmask :: Elf32_Word
  ri_cprmask :: "Elf32_Word list"
  ri_gp_value :: Elf32_Sword

definition encode_Elf32_RegInfo :: "Elf32_RegInfo \<Rightarrow> u8 list" where
  "encode_Elf32_RegInfo h =
     le_bytes 4 (ri_gprmask h) @ concat (map (le_bytes 4) (ri_cprmask h)) @ le_bytes 4 (ri_gp_value h)"

definition decode_Elf32_RegInfo :: "u8 list \<Rightarrow> Elf32_RegInfo" where
  "decode_Elf32_RegInfo bs =
     \<lparr>ri_gprmask = field 0 4 bs, ri_cprmask = map (\<lambda>i. field (4 + 4 * i) 4 bs) [0..<4],
      ri_gp_value = field 20 4 bs\<rparr>"

lemmas [elf_layout] = encode_Elf32_RegInfo_def decode_Elf32_RegInfo_def

record Elf_Options =
  kind :: u8
  size' :: u8
  section' :: Elf32_Section
  info :: Elf32_Word

definition encode_Elf_Options :: "Elf_Options \<Rightarrow> u8 list" where
  "encode_Elf_Options h =
     le_bytes 1 (kind h) @ le_bytes 1 (size' h) @ le_bytes 2 (section' h) @ le_bytes 4 (info h)"

definition decode_Elf_Options :: "u8 list \<Rightarrow> Elf_Options" where
  "decode_Elf_Options bs =
     \<lparr>kind = field 0 1 bs, size' = field 1 1 bs, section' = field 2 2 bs, info = field 4 4 bs\<rparr>"

lemmas [elf_layout] = encode_Elf_Options_def decode_Elf_Options_def

record Elf_Options_Hw =
  hwp_flags1 :: Elf32_Word
  hwp_flags2 :: Elf32_Word

definition encode_Elf_Options_Hw :: "Elf_Options_Hw \<Rightarrow> u8 list" where
  "encode_Elf_Options_Hw h =
     le_bytes 4 (hwp_flags1 h) @ le_bytes 4 (hwp_flags2 h)"

definition decode_Elf_Options_Hw :: "u8 list \<Rightarrow> Elf_Options_Hw" where
  "decode_Elf_Options_Hw bs =
     \<lparr>hwp_flags1 = field 0 4 bs, hwp_flags2 = field 4 4 bs\<rparr>"

lemmas [elf_layout] = encode_Elf_Options_Hw_def decode_Elf_Options_Hw_def

record Elf32_Lib =
  l_name :: Elf32_Word
  l_time_stamp :: Elf32_Word
  l_checksum :: Elf32_Word
  l_version :: Elf32_Word
  l_flags :: Elf32_Word

definition encode_Elf32_Lib :: "Elf32_Lib \<Rightarrow> u8 list" where
  "encode_Elf32_Lib h =
     le_bytes 4 (l_name h) @ le_bytes 4 (l_time_stamp h) @ le_bytes 4 (l_checksum h)
      @ le_bytes 4 (l_version h) @ le_bytes 4 (l_flags h)"

definition decode_Elf32_Lib :: "u8 list \<Rightarrow> Elf32_Lib" where
  "decode_Elf32_Lib bs =
     \<lparr>l_name = field 0 4 bs, l_time_stamp = field 4 4 bs, l_checksum = field 8 4 bs
      , l_version = field 12 4 bs, l_flags = field 16 4 bs\<rparr>"

lemmas [elf_layout] = encode_Elf32_Lib_def decode_Elf32_Lib_def

type_synonym Elf64_Lib = Elf32_Lib
type_synonym Elf32_Conflict = Elf32_Addr

record Elf_MIPS_ABIFlags_v0 =
  version :: Elf32_Half
  isa_level :: u8
  isa_rev :: u8
  gpr_size :: u8
  cpr1_size :: u8
  cpr2_size :: u8
  fp_abi :: u8
  isa_ext :: Elf32_Word
  ases :: Elf32_Word
  flags1 :: Elf32_Word
  flags2 :: Elf32_Word

definition encode_Elf_MIPS_ABIFlags_v0 :: "Elf_MIPS_ABIFlags_v0 \<Rightarrow> u8 list" where
  "encode_Elf_MIPS_ABIFlags_v0 h =
     le_bytes 2 (version h) @ le_bytes 1 (isa_level h) @ le_bytes 1 (isa_rev h)
      @ le_bytes 1 (gpr_size h) @ le_bytes 1 (cpr1_size h) @ le_bytes 1 (cpr2_size h)
      @ le_bytes 1 (fp_abi h) @ le_bytes 4 (isa_ext h) @ le_bytes 4 (ases h) @ le_bytes 4 (flags1 h)
      @ le_bytes 4 (flags2 h)"

definition decode_Elf_MIPS_ABIFlags_v0 :: "u8 list \<Rightarrow> Elf_MIPS_ABIFlags_v0" where
  "decode_Elf_MIPS_ABIFlags_v0 bs =
     \<lparr>version = field 0 2 bs, isa_level = field 2 1 bs, isa_rev = field 3 1 bs
      , gpr_size = field 4 1 bs, cpr1_size = field 5 1 bs, cpr2_size = field 6 1 bs
      , fp_abi = field 7 1 bs, isa_ext = field 8 4 bs, ases = field 12 4 bs, flags1 = field 16 4 bs
      , flags2 = field 20 4 bs\<rparr>"

lemmas [elf_layout] = encode_Elf_MIPS_ABIFlags_v0_def decode_Elf_MIPS_ABIFlags_v0_def

section \<open>Layouts\<close>

lemma four_words: "length xs = 4 \<longleftrightarrow> (\<exists>a b c d. xs = [a, b, c, d])"
  by (auto simp: numeral_eq_Suc length_Suc_conv)

lemma upto_four: "[0..<4] = [0, 1, 2, Suc 2]"
  by (simp add: upt_rec)

interpretation reginfo32: exact_format "\<lambda>h. length (ri_cprmask h) = 4" encode_Elf32_RegInfo
    decode_Elf32_RegInfo 24
  by unfold_locales (auto simp: elf_layout four_words upto_four)

interpretation mips_options: exact_format "\<lambda>_. True" encode_Elf_Options decode_Elf_Options 8
  by unfold_locales (simp_all add: elf_layout)

interpretation mips_options_hw: exact_format "\<lambda>_. True" encode_Elf_Options_Hw decode_Elf_Options_Hw 8
  by unfold_locales (simp_all add: elf_layout)

interpretation mips_lib: exact_format "\<lambda>_. True" encode_Elf32_Lib decode_Elf32_Lib 20
  by unfold_locales (simp_all add: elf_layout)

interpretation mips_abiflags: exact_format "\<lambda>_. True" encode_Elf_MIPS_ABIFlags_v0 decode_Elf_MIPS_ABIFlags_v0 24
  by unfold_locales (simp_all add: elf_layout)

end
