(* ===== verification/User_Space.thy ===== *)
theory User_Space
  imports Vmm_Map
begin

text \<open>
  User address spaces. The tables below a top table form a tree: every table and every page has one
  parent entry, and a level. The invariant \<open>uspace\<close> describes this tree, and \<open>map_page\<close> is shown to
  refine the update of a map from paths of indices to pages.
\<close>

section \<open>The tree of tables\<close>

fun find_page :: "pmem \<Rightarrow> u64 \<Rightarrow> u64 list \<Rightarrow> u64 option" where
  "find_page m t [] = Some t"
| "find_page m t (i # is) = (case next_table m (slot t i) of None \<Rightarrow> None | Some u \<Rightarrow> find_page m u is)"

lemma find_page_append:
  "find_page m t (is @ js) = (case find_page m t is of None \<Rightarrow> None | Some u \<Rightarrow> find_page m u js)"
  by (induction "is" arbitrary: t) (auto split: option.splits)

text \<open>The entries of the lower half of the top table and all entries of the other tables belong to
  the user; a path of indices is a user path if it starts in the lower half.\<close>

definition user_slot :: "u64 \<Rightarrow> u64 \<Rightarrow> u64 \<Rightarrow> bool" where
  "user_slot C u k \<longleftrightarrow> unat k < 512 \<and> (u = C \<longrightarrow> unat k < 256)"

definition user_path :: "u64 list \<Rightarrow> bool" where
  "user_path is \<longleftrightarrow> length is \<le> 4 \<and> (\<forall>k\<in>set is. unat k < 512) \<and> (is \<noteq> [] \<longrightarrow> unat (hd is) < 256)"

text \<open>A frame in use above the window.\<close>

definition user_frame :: "machine \<Rightarrow> u64 \<Rightarrow> bool" where
  "user_frame s u \<longleftrightarrow> page_aligned u \<and> u \<notin> free_frames s \<and> 0x200000 \<le> unat u \<and> unat u < 2 ^ 52"

text \<open>The level of a table is the number of indices that lead from it to a page; a page has level
  zero.\<close>

definition uspace :: "kframes \<Rightarrow> machine \<Rightarrow> u64 \<Rightarrow> (u64 \<rightharpoonup> nat) \<Rightarrow> bool" where
  "uspace F s C L \<longleftrightarrow>
     kf_root F = C \<and> L C = Some 4 \<and> (\<forall>u l. L u = Some l \<longrightarrow> l \<le> 4 \<and> user_frame s u) \<and>
     (\<forall>u l k. L u = Some (Suc l) \<longrightarrow> user_slot C u k \<longrightarrow> pread64 (mem s) (slot u k) AND 1 \<noteq> 0 \<longrightarrow>
        (\<exists>v. next_table (mem s) (slot u k) = Some v \<and> L v = Some l)) \<and>
     (\<forall>u k u' k' l l' v. L u = Some (Suc l) \<longrightarrow> L u' = Some (Suc l') \<longrightarrow> user_slot C u k \<longrightarrow> user_slot C u' k' \<longrightarrow>
        next_table (mem s) (slot u k) = Some v \<longrightarrow> next_table (mem s) (slot u' k') = Some v \<longrightarrow> u = u' \<and> k = k')"

lemma uspaceD:
  assumes "uspace F s C L"
  shows "kf_root F = C" "L C = Some 4" "\<And>u l. L u = Some l \<Longrightarrow> l \<le> 4 \<and> user_frame s u"
    "\<And>u l k. L u = Some (Suc l) \<Longrightarrow> user_slot C u k \<Longrightarrow> pread64 (mem s) (slot u k) AND 1 \<noteq> 0 \<Longrightarrow>
        \<exists>v. next_table (mem s) (slot u k) = Some v \<and> L v = Some l"
    "\<And>u k u' k' l l' v. L u = Some (Suc l) \<Longrightarrow> L u' = Some (Suc l') \<Longrightarrow> user_slot C u k \<Longrightarrow> user_slot C u' k' \<Longrightarrow>
        next_table (mem s) (slot u k) = Some v \<Longrightarrow> next_table (mem s) (slot u' k') = Some v \<Longrightarrow> u = u' \<and> k = k'"
  using assms unfolding uspace_def by blast+

lemma next_present: "next_table m p = Some v \<Longrightarrow> pread64 m p AND 1 \<noteq> 0"
  by (auto simp: next_table_def Let_def split: if_splits)

lemma uspace_child:
  "uspace F s C L \<Longrightarrow> L u = Some (Suc l) \<Longrightarrow> user_slot C u k \<Longrightarrow> next_table (mem s) (slot u k) = Some v \<Longrightarrow>
     L v = Some l"
  using uspaceD(4) [of F s C L u l k] next_present [of "mem s" "slot u k" v] by auto

text \<open>No entry of the tree points back to the top table.\<close>

lemma uspace_not_top: "uspace F s C L \<Longrightarrow> L u = Some l \<Longrightarrow> l < 4 \<Longrightarrow> u \<noteq> C"
  using uspaceD(2) by fastforce

lemma user_path_Cons: "user_path (is @ [k]) \<Longrightarrow> user_path is \<and> unat k < 512 \<and> length is < 4 \<and> (is = [] \<longrightarrow> unat k < 256)"
  by (cases "is") (auto simp: user_path_def)

lemma find_level:
  "uspace F s C L \<Longrightarrow> user_path is \<Longrightarrow> find_page (mem s) C is = Some f \<Longrightarrow> L f = Some (4 - length is)"
proof (induction "is" arbitrary: f rule: rev_induct)
  case Nil
  then show ?case using uspaceD(2) by auto
next
  case (snoc k "is")
  note p = user_path_Cons [OF snoc(3)]
  obtain u where u: "find_page (mem s) C is = Some u" "next_table (mem s) (slot u k) = Some f"
    using snoc(4) by (auto simp: find_page_append split: option.splits)
  have "4 - length is = Suc (3 - length is)" using p by linarith
  then have l: "L u = Some (Suc (3 - length is))" using snoc(1) [OF snoc(2) _ u(1)] p by simp
  have "u = C \<longrightarrow> is = []" using l uspaceD(2) [OF snoc(2)] p by (cases "is") auto
  then have "user_slot C u k" using p by (auto simp: user_slot_def)
  from uspace_child [OF snoc(2) l this u(2)] show ?case by simp
qed

lemma find_slot:
  assumes "uspace F s C L" "user_path (is @ [k])" "find_page (mem s) C is = Some u"
  shows "L u = Some (Suc (3 - length is))" "user_slot C u k"
proof -
  note p = user_path_Cons [OF assms(2)]
  have "4 - length is = Suc (3 - length is)" using p by linarith
  then show l: "L u = Some (Suc (3 - length is))" using find_level [OF assms(1) _ assms(3)] p by simp
  have "u = C \<longrightarrow> is = []" using l uspaceD(2) [OF assms(1)] p by (cases "is") auto
  then show "user_slot C u k" using p by (auto simp: user_slot_def)
qed

text \<open>Different paths lead to different tables and pages.\<close>

lemma find_inj:
  assumes "uspace F s C L"
  shows "user_path is \<Longrightarrow> user_path js \<Longrightarrow> length is = length js \<Longrightarrow>
     find_page (mem s) C is = Some f \<Longrightarrow> find_page (mem s) C js = Some f \<Longrightarrow> is = js"
proof (induction "is" arbitrary: js f rule: rev_induct)
  case Nil
  then show ?case by simp
next
  case (snoc k "is")
  obtain l ls where js: "js = ls @ [l]" using snoc(4) by (cases js rule: rev_exhaust) auto
  obtain u where u: "find_page (mem s) C is = Some u" "next_table (mem s) (slot u k) = Some f"
    using snoc(5) by (auto simp: find_page_append split: option.splits)
  obtain v where v: "find_page (mem s) C ls = Some v" "next_table (mem s) (slot v l) = Some f"
    using snoc(6) js by (auto simp: find_page_append split: option.splits)
  note fu = find_slot [OF assms snoc(2) u(1)] and fv = find_slot [OF assms snoc(3) [unfolded js] v(1)]
  have e: "u = v" "k = l" using uspaceD(5) [OF assms fu(1) fv(1) fu(2) fv(2) u(2) v(2)] by auto
  have "is = ls"
    using snoc(1) [of ls u] u(1) v(1) e(1) user_path_Cons [OF snoc(2)] user_path_Cons [OF snoc(3) [unfolded js]]
      snoc(4) js by simp
  then show ?case using js e(2) by simp
qed

section \<open>Entries of the tree\<close>

lemma user_frame_apart:
  assumes "user_frame s u" "0 < n" "unat q + n \<le> 0x200000"
  shows "apart u 4096 q n"
proof -
  have "unat u + 4096 \<le> 2 ^ 64" using assms(1) by (auto simp: user_frame_def)
  then show ?thesis
    using assms by (intro apart_sym [OF apart_le]) (auto simp: user_frame_def)
qed

lemma slot_in_frame:
  assumes "apart u 4096 q n" "unat k < 512" "0 < n"
  shows "apart (slot u k) 8 q n"
  using apart_sub [OF assms(1), of "8 * unat k" 8 0 n] assms(2,3) by (simp add: slot_def)

lemma low_page: "low_frame g \<Longrightarrow> i + n \<le> 4096 \<Longrightarrow> unat (g + of_nat i) + n \<le> 0x200000"
proof -
  assume "low_frame g" "i + n \<le> 4096"
  moreover from this have "unat (g + of_nat i) = unat g + i"
    using low_frame_bound [of g] by (intro unat_add_of_nat) simp
  ultimately show ?thesis using low_frame_bound [of g] by simp
qed

lemma user_table_slot:
  assumes "vm_inv F s" "user_frame s u" "unat k < 512"
  shows "table_slot F s u k"
proof -
  note d = vm_invD [OF assms(1)]
  have "low_frame (kf_pt F)" using d(3) by (simp add: kmap_def)
  from low_page [OF this, of "0xFF8" 8] have "unat (temp_slot F) + 8 \<le> 0x200000" by simp
  then show ?thesis
    using assms(2,3) d(4,7) slot_in_frame [OF user_frame_apart [OF assms(2)] assms(3)]
    by (auto simp: table_slot_def user_frame_def)
qed

lemma user_off_tables:
  assumes "vm_inv F s" "kf_root F = C" "page_aligned C" "user_frame s u" "user_slot C u k"
  shows "off_tables F (slot u k) 8"
proof -
  note d = vm_invD [OF assms(1)]
  have k: "unat k < 512" using assms(5) by (simp add: user_slot_def)
  have low: "low_frame (kf_pml4 F)" "low_frame (kf_pdpt F)" "low_frame (kf_pd F)" "low_frame (kf_pt F)"
    using d(3) by (auto simp: kmap_def)
  have lo: "apart (slot u k) 8 (g + of_nat i) n" if "low_frame g" "i + n \<le> 4096" "0 < n" for g i n
    by (rule slot_in_frame [OF user_frame_apart [OF assms(4) that(3) low_page [OF that(1,2)]] k that(3)])
  have "apart (slot u k) 8 (C + 0xFF8) 8"
  proof (cases "u = C")
    case True
    then have "unat k < 256" using assms(5) by (simp add: user_slot_def)
    then show ?thesis
      using apart_offsets [of "8 * unat k" 8 "0xFF8" 8 C] by (simp add: True slot_def)
  next
    case False
    then show ?thesis
      using apart_in_frames [of u C "8 * unat k" 8 "0xFF8" 8] assms(3,4) k by (simp add: user_frame_def slot_def)
  qed
  then show ?thesis
    using lo [OF low(1), of "0xFF8" 8] lo [OF low(2), of "0xFF0" 8] lo [OF low(3), of 0 8] lo [OF low(4), of 0 "0xFF8"] assms(2)
    by (simp add: off_tables_def)
qed

lemma uspace_slots:
  assumes "vm_inv F s" "uspace F s C L" "L u = Some l" "user_slot C u k"
  shows "table_slot F s u k" "off_tables F (slot u k) 8"
proof -
  note d = uspaceD [OF assms(2)]
  have u: "user_frame s u" "unat k < 512" using d(3) [OF assms(3)] assms(4) by (auto simp: user_slot_def)
  show "table_slot F s u k" by (rule user_table_slot [OF assms(1) u])
  have "page_aligned C" using d(3) [OF d(2)] by (simp add: user_frame_def)
  from user_off_tables [OF assms(1) d(1) this u(1) assms(4)] show "off_tables F (slot u k) 8" .
qed

text \<open>The tree is a path in the sense of \<open>map_page\<close>.\<close>

lemma uspace_path_ok:
  assumes inv: "vm_inv F s" and sp: "uspace F s C L"
  shows "L t = Some (length is) \<Longrightarrow> is \<noteq> [] \<Longrightarrow> user_slot C t (hd is) \<Longrightarrow> \<forall>k\<in>set is. unat k < 512 \<Longrightarrow>
     \<forall>v\<in>V. \<exists>l. L v = Some l \<and> length is < l \<Longrightarrow> path_ok F s V t is"
proof (induction "is" arbitrary: t V rule: induct_list012)
  case (2 i)
  then show ?case using uspace_slots [OF inv sp, of t 1 i] by fastforce
next
  case (3 i j "is")
  have t: "L t = Some (Suc (length (j # is)))" using 3(3) by simp
  note ts = uspace_slots [OF inv sp t, of i]
  have tV: "t \<notin> V" using 3(3,7) by fastforce
  show ?case
  proof (cases "pread64 (mem s) (slot t i) AND 1 = 0")
    case True
    then have "next_table (mem s) (slot t i) = None" by (simp add: next_table_def)
    then show ?thesis using ts True tV 3(5,6) by (simp add: entry_ok_def)
  next
    case False
    obtain v where v: "next_table (mem s) (slot t i) = Some v" "L v = Some (length (j # is))"
      using uspaceD(4) [OF sp t] False 3(5) by auto
    have "v \<noteq> C" using 3(3) v(2) uspaceD(2,3) [OF sp] by fastforce
    then have "user_slot C v j" using 3(6) by (simp add: user_slot_def)
    moreover have "\<forall>w\<in>insert t V. \<exists>l. L w = Some l \<and> length (j # is) < l" using 3(7) t by fastforce
    ultimately have "path_ok F s (insert t V) v (j # is)" using 3(2) [OF v(2)] 3(6) by simp
    moreover have "entry_ok F (mem s) (slot t i)"
      using v(1) by (auto simp: entry_ok_def next_table_def Let_def split: if_splits)
    ultimately show ?thesis using v ts(1) 3(5) tV by simp
  qed
qed simp_all

section \<open>Changing one entry\<close>

text \<open>The bytes a run on the tree leaves alone.\<close>

definition off_user :: "u64 \<Rightarrow> (u64 \<rightharpoonup> nat) \<Rightarrow> u64 \<Rightarrow> bool" where
  "off_user C L x \<longleftrightarrow> (\<forall>u l k. L u = Some (Suc l) \<longrightarrow> user_slot C u k \<longrightarrow> 8 \<le> unat (x - slot u k))"

definition ustep :: "kframes \<Rightarrow> u64 \<Rightarrow> machine \<Rightarrow> (u64 \<rightharpoonup> nat) \<Rightarrow> machine \<Rightarrow> (u64 \<rightharpoonup> nat) \<Rightarrow> bool" where
  "ustep F C s L s' L' \<longleftrightarrow>
     vm_inv F s' \<and> uspace F s' C L' \<and> L \<subseteq>\<^sub>m L' \<and> dom L' \<subseteq> dom L \<union> free_frames s \<and>
     free_frames s' \<subseteq> free_frames s \<and>
     s' = s\<lparr>mem := mem s', invlpg_log := invlpg_log s'\<rparr> \<and>
     (\<forall>x. untouched F s x \<longrightarrow> off_user C L x \<longrightarrow> mem s' x = mem s x)"

lemma slot_user_inj:
  assumes "user_frame s u" "page_aligned t" "unat k < 512" "unat i < 512"
  shows "slot u k = slot t i \<longleftrightarrow> u = t \<and> k = i"
proof
  assume e: "slot u k = slot t i"
  have u: "u = t" by (rule slot_inj [OF _ assms(2-4) e]) (use assms(1) in \<open>simp add: user_frame_def\<close>)
  then have "8 * k = 8 * i" using e by (simp add: slot_def)
  then have "unat (8 * k) = unat (8 * i)" by simp
  then have "unat k = unat i" using assms(3,4) by (simp add: unat_word_ariths)
  then show "u = t \<and> k = i" using u by (simp add: word_unat_eq_iff)
qed simp

lemma step_entry_kept:
  assumes "vm_inv F s" "user_frame s u" "unat k < 512" "table_slot F s t i" "vm_step F {slot t i} s s'"
    and "(u, k) \<noteq> (t, i)"
  shows "pread64 (mem s') (slot u k) = pread64 (mem s) (slot u k)"
proof (rule pread64_agree)
  fix b :: nat assume b: "b < 8"
  have t: "page_aligned t" "unat i < 512" using assms(4) by (auto simp: table_slot_def)
  have "slot t i \<noteq> slot u k" using slot_user_inj [OF assms(2) t(1) assms(3) t(2)] assms(6) by auto
  then have "apart (slot t i) 8 (slot u k) 8"
    using t assms(2,3) by (intro slot_eq_or_apart) (auto simp: user_frame_def)
  from apart_outside [OF this b] table_slot_untouched [OF user_table_slot [OF assms(1-3)] b] assms(5)
  show "mem s' (slot u k + of_nat b) = mem s (slot u k + of_nat b)" by (simp add: vm_step_def)
qed

lemma user_frame_mono: "user_frame s u \<Longrightarrow> free_frames s' \<subseteq> free_frames s \<Longrightarrow> user_frame s' u"
  by (auto simp: user_frame_def)

lemma free_user_frame:
  assumes "vm_inv F s" "f \<in> free_frames s" "f \<notin> free_frames s'"
  shows "user_frame s' f"
  using free_frame [OF assms(1,2)] assms(3) by (simp add: user_frame_def)

text \<open>A new empty table.\<close>

lemma uspace_new:
  assumes inv: "vm_inv F s" and sp: "uspace F s C L" and t: "L t = Some (Suc (Suc l))" "user_slot C t i"
    and st: "level_step F s t i s' f" and new: "next_table (mem s) (slot t i) = None"
  shows "uspace F s' C (L(f \<mapsto> Suc l))" "f \<notin> dom L"
proof -
  note d = uspaceD [OF sp] and ts = uspace_slots(1) [OF inv sp t]
  let ?L = "L(f \<mapsto> Suc l)"
  have vs: "vm_step F {slot t i} s s'" and nt: "next_table (mem s') (slot t i) = Some f"
    and f: "f \<in> free_frames s" "free_frames s' = free_frames s - {f}"
    and z: "\<forall>k<512. pread64 (mem s') (slot f (of_nat k)) = 0"
    using st new by (auto simp: level_step_def)
  have z': "pread64 (mem s') (slot f k) = 0" if "unat k < 512" for k using z [rule_format, OF that] by simp
  show fL: "f \<notin> dom L" using d(3) f(1) by (auto simp: user_frame_def)
  have kept: "pread64 (mem s') (slot u k) = pread64 (mem s) (slot u k)"
    if "L u = Some m" "user_slot C u k" "(u, k) \<noteq> (t, i)" for u k m
    by (rule step_entry_kept [OF inv _ _ ts vs that(3)]) (use d(3) [OF that(1)] that(2) in \<open>auto simp: user_slot_def\<close>)
  have nx: "next_table (mem s') (slot u k) = (if (u, k) = (t, i) then Some f else next_table (mem s) (slot u k))"
    if "L u = Some m" "user_slot C u k" for u k m
    using kept [OF that] nt by (auto simp: next_table_def)
  have nf: "next_table (mem s') (slot f k) = None" "pread64 (mem s') (slot f k) AND 1 = 0" if "user_slot C f k" for k
    using z' that by (auto simp: user_slot_def next_table_def)
  have fr: "m \<le> 4 \<and> user_frame s' u" if "?L u = Some m" for u m
    using that d(3) [of u m] d(3) [OF t(1)] free_user_frame [OF inv f(1), of s'] f(2) user_frame_mono [of s u s']
    by (auto split: if_splits)
  have ch: "\<exists>v. next_table (mem s') (slot u k) = Some v \<and> ?L v = Some m"
    if u: "?L u = Some (Suc m)" "user_slot C u k" "pread64 (mem s') (slot u k) AND 1 \<noteq> 0" for u m k
  proof -
    have uf: "u \<noteq> f" using u(2,3) nf by auto
    then have Lu: "L u = Some (Suc m)" using u(1) by simp
    show ?thesis
    proof (cases "(u, k) = (t, i)")
      case True
      then show ?thesis using nt t(1) Lu by auto
    next
      case False
      then obtain v where "next_table (mem s) (slot u k) = Some v" "L v = Some m"
        using d(4) [OF Lu u(2)] kept [OF Lu u(2)] u(3) by auto
      then show ?thesis using nx [OF Lu u(2)] False fL by auto
    qed
  qed
  have inj: "u = u' \<and> k = k'"
    if u: "?L u = Some (Suc m)" "?L u' = Some (Suc m')" "user_slot C u k" "user_slot C u' k'"
      "next_table (mem s') (slot u k) = Some v" "next_table (mem s') (slot u' k') = Some v" for u u' k k' m m' v
  proof -
    have "u \<noteq> f" "u' \<noteq> f" using u nf by auto
    then have Lu: "L u = Some (Suc m)" "L u' = Some (Suc m')" using u(1,2) by auto
    have nof: "next_table (mem s) (slot w j) \<noteq> Some f" if "L w = Some (Suc n)" "user_slot C w j" for w j n
      using uspace_child [OF sp that] fL by blast
    show ?thesis
      using u(5,6) nx [OF Lu(1) u(3)] nx [OF Lu(2) u(4)] nof [OF Lu(1) u(3)] nof [OF Lu(2) u(4)]
        d(5) [OF Lu u(3,4)] by (auto split: if_splits)
  qed
  have "?L C = Some 4" using d(2) fL by auto
  then show "uspace F s' C ?L" unfolding uspace_def using d(1) fr ch inj by blast
qed

lemma find_new:
  assumes sp: "uspace F s C L" and t: "L t = Some (Suc (Suc l))"
    and kept: "\<And>u l k. L u = Some (Suc l) \<Longrightarrow> user_slot C u k \<Longrightarrow> (u, k) \<noteq> (t, i) \<Longrightarrow>
        next_table m (slot u k) = next_table (mem s) (slot u k)"
    and new: "next_table (mem s) (slot t i) = None" "next_table m (slot t i) = Some f"
      "\<And>k. unat k < 512 \<Longrightarrow> next_table m (slot f k) = None"
  shows "L u = Some (length js) \<Longrightarrow> js \<noteq> [] \<Longrightarrow> user_slot C u (hd js) \<Longrightarrow> \<forall>k\<in>set js. unat k < 512 \<Longrightarrow>
     find_page m u js = find_page (mem s) u js"
proof (induction js arbitrary: u)
  case (Cons k ks)
  have u: "L u = Some (Suc (length ks))" "user_slot C u k" using Cons(2,4) by auto
  show ?case
  proof (cases "(u, k) = (t, i)")
    case True
    then have "ks \<noteq> []" using u(1) t by auto
    then show ?thesis using True new Cons(5) by (cases ks) auto
  next
    case False
    show ?thesis
    proof (cases "ks = [] \<or> next_table (mem s) (slot u k) = None")
      case True
      then show ?thesis using kept [OF u False] by (auto split: option.splits)
    next
      case ks: False
      then obtain v where v: "next_table (mem s) (slot u k) = Some v" by auto
      have lv: "L v = Some (length ks)" by (rule uspace_child [OF sp u v])
      have "v \<noteq> C" using uspace_not_top [OF sp lv] uspaceD(3) [OF sp u(1)] by simp
      then have "user_slot C v (hd ks)" using ks Cons(5) by (cases ks) (auto simp: user_slot_def)
      then show ?thesis using Cons(1) [of v] lv kept [OF u False] v ks Cons(5) by simp
    qed
  qed
qed simp

lemma find_same:
  assumes sp: "uspace F s C L"
  shows "user_path js \<Longrightarrow>
     (\<And>u l k. L u = Some (Suc l) \<Longrightarrow> 4 < Suc l + length js \<Longrightarrow> user_slot C u k \<Longrightarrow>
        next_table m (slot u k) = next_table (mem s) (slot u k)) \<Longrightarrow>
     find_page m C js = find_page (mem s) C js"
proof (induction js rule: rev_induct)
  case (snoc k js)
  note p = user_path_Cons [OF snoc(2)]
  have e: "find_page m C js = find_page (mem s) C js" using snoc(1) p snoc(3) by simp
  show ?case
  proof (cases "find_page (mem s) C js")
    case (Some u)
    note u = find_slot [OF sp snoc(2) Some]
    have "4 < Suc (3 - length js) + length (js @ [k])" using p by auto
    then show ?thesis using e Some snoc(3) [OF u(1) _ u(2)] by (simp add: find_page_append split: option.split)
  qed (simp add: e find_page_append)
qed simp

text \<open>The last entry.\<close>

lemma uspace_leaf:
  assumes inv: "vm_inv F s" and sp: "uspace F s C L" and t: "L t = Some 1" "user_slot C t i"
    and pa: "L pa = Some 0" "\<And>u l k. L u = Some (Suc l) \<Longrightarrow> user_slot C u k \<Longrightarrow> next_table (mem s) (slot u k) \<noteq> Some pa"
    and e: "unat flags < 0x1000" "flags AND 1 \<noteq> 0" "flags AND 0x80 = 0"
  defines "s' \<equiv> s\<lparr>mem := pwrite64 (mem s) (slot t i) (pa OR flags)\<rparr>"
  shows "uspace F s' C L"
    and "\<And>u l k. L u = Some (Suc l) \<Longrightarrow> user_slot C u k \<Longrightarrow> next_table (mem s') (slot u k) =
        (if (u, k) = (t, i) then Some pa else next_table (mem s) (slot u k))"
proof -
  note d = uspaceD [OF sp] and ts = uspace_slots [OF inv sp t]
  have paf: "page_aligned pa" "unat pa < 2 ^ 52" using d(3) [OF pa(1)] by (auto simp: user_frame_def)
  have wr: "pread64 (mem s') (slot t i) = pa OR flags" by (simp add: s'_def)
  have nt: "next_table (mem s') (slot t i) = Some pa"
    using wr entry_mask [OF paf e(1)] entry_flag [OF paf(1), of 1 flags] entry_flag [OF paf(1), of "0x80" flags] e(2,3)
    by (simp add: next_table_def)
  have kept: "pread64 (mem s') (slot u k) = pread64 (mem s) (slot u k)"
    if "L u = Some m" "user_slot C u k" "(u, k) \<noteq> (t, i)" for u k m
  proof -
    have u: "user_frame s u" "unat k < 512" and tt: "page_aligned t" "unat i < 512"
      using d(3) [OF that(1)] that(2) ts(1) by (auto simp: user_slot_def table_slot_def)
    have "slot t i \<noteq> slot u k" using slot_user_inj [OF u(1) tt(1) u(2) tt(2)] that(3) by auto
    then have "apart (slot t i) 8 (slot u k) 8"
      using u tt by (intro slot_eq_or_apart) (auto simp: user_frame_def)
    then show ?thesis by (simp add: s'_def pread64_pwrite64_apart)
  qed
  show nx: "next_table (mem s') (slot u k) = (if (u, k) = (t, i) then Some pa else next_table (mem s) (slot u k))"
    if "L u = Some (Suc l)" "user_slot C u k" for u l k
    using kept [OF that] nt by (auto simp: next_table_def)
  have free: "free_frames s' = free_frames s"
    using leaf_store(4) [OF inv _ ts, of "slot t i" "pa OR flags"] vm_inv_pwrite(2) [OF inv, of "slot t i" "le_bytes 8 (pa OR flags)"] ts
    by (simp add: free_frames_def pmm_frames_def s'_def table_slot_def pwrite64_def)
  have fr: "m \<le> 4 \<and> user_frame s' u" if "L u = Some m" for u m
    using d(3) [OF that] free by (simp add: user_frame_def)
  have ch: "\<exists>v. next_table (mem s') (slot u k) = Some v \<and> L v = Some m"
    if u: "L u = Some (Suc m)" "user_slot C u k" "pread64 (mem s') (slot u k) AND 1 \<noteq> 0" for u m k
    using nx [OF u(1,2)] d(4) [OF u(1,2)] kept [OF u(1,2)] u t(1) pa(1) by (cases "(u, k) = (t, i)") auto
  have inj: "u = u' \<and> k = k'"
    if u: "L u = Some (Suc m)" "L u' = Some (Suc m')" "user_slot C u k" "user_slot C u' k'"
      "next_table (mem s') (slot u k) = Some v" "next_table (mem s') (slot u' k') = Some v" for u u' k k' m m' v
    using u(5,6) nx [OF u(1,3)] nx [OF u(2,4)] pa(2) [OF u(1,3)] pa(2) [OF u(2,4)] d(5) [OF u(1-4)]
    by (auto split: if_splits)
  show "uspace F s' C L" unfolding uspace_def using d(1,2) fr ch inj by blast
qed

section \<open>One level\<close>

definition orphan :: "u64 \<Rightarrow> (u64 \<rightharpoonup> nat) \<Rightarrow> pmem \<Rightarrow> u64 \<Rightarrow> bool" where
  "orphan C L m pa \<longleftrightarrow>
     (\<forall>u l k. L u = Some (Suc l) \<longrightarrow> user_slot C u k \<longrightarrow> next_table m (slot u k) \<noteq> Some pa)"

lemma uspace_same:
  assumes "uspace F s C L" "free_frames s' \<subseteq> free_frames s"
    and "\<And>u l k. L u = Some (Suc l) \<Longrightarrow> user_slot C u k \<Longrightarrow> pread64 (mem s') (slot u k) = pread64 (mem s) (slot u k)"
  shows "uspace F s' C L"
    and "\<And>u l k. L u = Some (Suc l) \<Longrightarrow> user_slot C u k \<Longrightarrow> next_table (mem s') (slot u k) = next_table (mem s) (slot u k)"
proof -
  note d = uspaceD [OF assms(1)]
  show nx: "next_table (mem s') (slot u k) = next_table (mem s) (slot u k)" if "L u = Some (Suc l)" "user_slot C u k" for u l k
    using assms(3) [OF that] by (simp add: next_table_def)
  have fr: "l \<le> 4 \<and> user_frame s' u" if "L u = Some l" for u l
    using d(3) [OF that] user_frame_mono [OF _ assms(2)] by blast
  have ch: "\<exists>v. next_table (mem s') (slot u k) = Some v \<and> L v = Some l"
    if u: "L u = Some (Suc l)" "user_slot C u k" "pread64 (mem s') (slot u k) AND 1 \<noteq> 0" for u l k
    using d(4) [OF u(1,2)] u(3) assms(3) [OF u(1,2)] nx [OF u(1,2)] by simp
  have inj: "u = u' \<and> k = k'"
    if u: "L u = Some (Suc m)" "L u' = Some (Suc m')" "user_slot C u k" "user_slot C u' k'"
      "next_table (mem s') (slot u k) = Some v" "next_table (mem s') (slot u' k') = Some v" for u u' k k' m m' v
    using u(5,6) nx [OF u(1,3)] nx [OF u(2,4)] d(5) [OF u(1-4)] by simp
  show "uspace F s' C L" unfolding uspace_def using d(1,2) fr ch inj by blast
qed

lemma off_userD: "off_user C L x \<Longrightarrow> L u = Some (Suc l) \<Longrightarrow> user_slot C u k \<Longrightarrow> 8 \<le> unat (x - slot u k)"
  unfolding off_user_def by blast

lemma level_ustep:
  assumes inv: "vm_inv F s" and sp: "uspace F s C L" and t: "L t = Some (Suc (Suc l))" "user_slot C t i"
    and st: "level_step F s t i s' f"
    and ps: "user_path ps" "length ps + Suc (Suc l) = 4" "find_page (mem s) C ps = Some t"
  shows "\<exists>L'. ustep F C s L s' L' \<and> L' f = Some (Suc l) \<and> card (free_frames s) \<le> Suc (card (free_frames s'))
     \<and> (\<forall>js. user_path js \<longrightarrow> length js = 4 \<longrightarrow> find_page (mem s') C js = find_page (mem s) C js)
     \<and> find_page (mem s') C (ps @ [i]) = Some f \<and> (\<forall>pa. L pa \<noteq> None \<longrightarrow> orphan C L (mem s) pa \<longrightarrow> orphan C L' (mem s') pa)"
proof -
  note ts = uspace_slots(1) [OF inv sp t] and d = uspaceD [OF sp]
  have vs: "vm_step F {slot t i} s s'" and nt: "next_table (mem s') (slot t i) = Some f"
    using st by (auto simp: level_step_def)
  have bytes: "untouched F s x \<longrightarrow> off_user C L x \<longrightarrow> mem s' x = mem s x" for x
    using vs off_userD [of C L x, OF _ t] by (auto simp: vm_step_def)
  have base: "vm_inv F s'" "free_frames s' \<subseteq> free_frames s" "s' = s\<lparr>mem := mem s', invlpg_log := invlpg_log s'\<rparr>"
    using vs vm_step_free [OF vs] by (simp_all add: vm_step_def)
  have kept: "next_table (mem s') (slot u k) = next_table (mem s) (slot u k)"
    if "L u = Some (Suc m)" "user_slot C u k" "(u, k) \<noteq> (t, i)" for u m k
    using step_entry_kept [OF inv _ _ ts vs that(3)] d(3) [OF that(1)] that(2) by (simp add: next_table_def user_slot_def)
  have pre: "find_page (mem s') C ps = find_page (mem s) C ps"
  proof (rule find_same [OF sp ps(1)])
    fix u m k assume u: "L u = Some (Suc m)" "4 < Suc m + length ps" "user_slot C u k"
    then have "u \<noteq> t" using t(1) ps(2) by auto
    then show "next_table (mem s') (slot u k) = next_table (mem s) (slot u k)" using kept u by auto
  qed
  have fp: "find_page (mem s') C (ps @ [i]) = Some f" using pre ps(3) nt by (simp add: find_page_append)
  show ?thesis
  proof (cases "next_table (mem s) (slot t i)")
    case None
    let ?L = "L(f \<mapsto> Suc l)"
    have f: "f \<in> free_frames s" "free_frames s' = free_frames s - {f}"
      and z: "\<forall>k<512. pread64 (mem s') (slot f (of_nat k)) = 0"
      using st None by (auto simp: level_step_def)
    note new = uspace_new [OF inv sp t st None]
    have z': "next_table (mem s') (slot f k) = None" if "unat k < 512" for k
      using z [rule_format, OF that] by (simp add: next_table_def)
    have "find_page (mem s') C js = find_page (mem s) C js" if "user_path js" "length js = 4" for js
      by (rule find_new [OF sp t(1) kept None nt z'])
        (use that d(2) in \<open>cases js; auto simp: user_path_def user_slot_def\<close>)+
    moreover have "ustep F C s L s' ?L"
      using base new f bytes by (auto simp: ustep_def map_le_def split: if_splits)
    moreover have "card (free_frames s) \<le> Suc (card (free_frames s'))"
      unfolding f(2) using card.remove [OF finite_frames f(1)] by simp
    moreover have "orphan C ?L (mem s') pa" if "L pa \<noteq> None" "orphan C L (mem s) pa" for pa
      unfolding orphan_def
    proof (intro allI impI)
      fix u m k assume u: "?L u = Some (Suc m)" "user_slot C u k"
      have "pa \<noteq> f" using that(1) new(2) by auto
      moreover have "next_table (mem s') (slot u k) = next_table (mem s) (slot u k)" "L u = Some (Suc m)"
        if "u \<noteq> f" "(u, k) \<noteq> (t, i)" using kept [of u m k] u that by auto
      moreover have "next_table (mem s') (slot f k) = None" using z' u(2) by (simp add: user_slot_def)
      ultimately show "next_table (mem s') (slot u k) \<noteq> Some pa"
        using nt that(2) u(2) by (cases "u = f"; cases "(u, k) = (t, i)") (auto simp: orphan_def)
    qed
    ultimately show ?thesis using fp by (intro exI [of _ ?L]) simp
  next
    case (Some g)
    have g: "f = g" "free_frames s' = free_frames s" "pread64 (mem s') (slot t i) = pread64 (mem s) (slot t i)"
      using st Some by (auto simp: level_step_def)
    have same: "pread64 (mem s') (slot u k) = pread64 (mem s) (slot u k)" if "L u = Some (Suc m)" "user_slot C u k" for u m k
      using step_entry_kept [OF inv _ _ ts vs, of u k] d(3) [OF that(1)] that(2) g(3)
      by (cases "(u, k) = (t, i)") (auto simp: user_slot_def)
    note us = uspace_same [OF sp base(2) same]
    have "find_page (mem s') C js = find_page (mem s) C js" if "user_path js" for js
      by (rule find_same [OF sp that]) (use us(2) in auto)
    moreover have "ustep F C s L s' L" using base us(1) bytes by (simp add: ustep_def)
    moreover have "L f = Some (Suc l)" using uspace_child [OF sp t Some] g(1) by simp
    moreover have "orphan C L (mem s') pa" if "orphan C L (mem s) pa" for pa
      using that us(2) by (simp add: orphan_def)
    ultimately show ?thesis using fp g(2) by (intro exI [of _ L]) simp
  qed
qed

lemma off_frame: "4096 \<le> unat (x - u) \<Longrightarrow> unat k < 512 \<Longrightarrow> 8 \<le> unat (x - slot u k)"
proof -
  assume h: "4096 \<le> unat (x - u)" "unat k < 512"
  have k: "unat (8 * k) = 8 * unat k" using h(2) by (simp add: unat_word_ariths)
  have "8 * k \<le> x - u" using h k by (simp add: word_le_nat_alt)
  then have "unat (x - u - 8 * k) = unat (x - u) - 8 * unat k" using k by (simp add: unat_sub)
  moreover have e: "x - slot u k = x - u - 8 * k" by (simp add: slot_def)
  ultimately show ?thesis unfolding e using h by simp
qed

lemma ustep_off:
  assumes "ustep F C s L s' L'" "untouched F s x" "off_user C L x"
  shows "untouched F s' x" "off_user C L' x"
proof -
  have "bm_base s' = bm_base s" "mem_bitmap_size s' = mem_bitmap_size s"
    by (rule step_fields; use assms in \<open>simp add: ustep_def\<close>)+
  then show "untouched F s' x" using assms by (auto simp: ustep_def untouched_def)
  show "off_user C L' x"
    unfolding off_user_def
  proof (intro allI impI)
    fix u l k assume u: "L' u = Some (Suc l)" "user_slot C u k"
    show "8 \<le> unat (x - slot u k)"
    proof (cases "u \<in> dom L")
      case True
      then have "L u = Some (Suc l)" using assms(1) u(1) by (auto simp: ustep_def map_le_def)
      then show ?thesis using off_userD [OF assms(3) _ u(2)] by blast
    next
      case False
      then have "u \<in> free_frames s" using assms(1) u(1) by (auto simp: ustep_def)
      then show ?thesis using assms(2) u(2) off_frame by (simp add: untouched_def user_slot_def)
    qed
  qed
qed

lemma ustep_trans:
  assumes "ustep F C s L s1 L1" "ustep F C s1 L1 s2 L2"
  shows "ustep F C s L s2 L2"
proof -
  have "s2 = s\<lparr>mem := mem s2, invlpg_log := invlpg_log s2\<rparr>"
    using step_form_trans [of s2 s1 s] assms by (simp add: ustep_def)
  moreover have "\<forall>x. untouched F s x \<longrightarrow> off_user C L x \<longrightarrow> mem s2 x = mem s x"
    using ustep_off [OF assms(1)] assms by (simp add: ustep_def)
  moreover have "L \<subseteq>\<^sub>m L2" using assms map_le_trans by (auto simp: ustep_def)
  moreover have "dom L1 \<subseteq> dom L \<union> free_frames s" "dom L2 \<subseteq> dom L1 \<union> free_frames s1"
    "free_frames s1 \<subseteq> free_frames s" "free_frames s2 \<subseteq> free_frames s1" using assms by (simp_all add: ustep_def)
  then have "dom L2 \<subseteq> dom L \<union> free_frames s" "free_frames s2 \<subseteq> free_frames s" by blast+
  ultimately show ?thesis using assms by (simp add: ustep_def)
qed

section \<open>The descent\<close>

lemma find_leaf:
  assumes sp: "uspace F s C L" and t: "L t = Some 1" "user_path (ps @ [i])" "length ps = 3" "find_page (mem s) C ps = Some t"
    and nx: "\<And>u l k. L u = Some (Suc l) \<Longrightarrow> user_slot C u k \<Longrightarrow> next_table m (slot u k) =
        (if (u, k) = (t, i) then Some pa else next_table (mem s) (slot u k))"
    and js: "user_path js" "length js = 4"
  shows "find_page m C js = (if js = ps @ [i] then Some pa else find_page (mem s) C js)"
proof -
  obtain ls k where k: "js = ls @ [k]" "length ls = 3" using js(2) by (cases js rule: rev_exhaust) auto
  note p = user_path_Cons [OF js(1) [unfolded k(1)]]
  have pre: "find_page m C ls = find_page (mem s) C ls"
  proof (rule find_same [OF sp])
    fix u l k' assume u: "L u = Some (Suc l)" "4 < Suc l + length ls" "user_slot C u k'"
    then have "u \<noteq> t" using t(1) k(2) by auto
    then show "next_table m (slot u k') = next_table (mem s) (slot u k')" using nx [OF u(1,3)] by simp
  qed (use p in blast)
  show ?thesis
  proof (cases "find_page (mem s) C ls")
    case None
    then have "ls \<noteq> ps" using t(4) by auto
    then show ?thesis using None pre k(1) by (simp add: find_page_append)
  next
    case (Some u)
    note u = find_slot [OF sp js(1) [unfolded k(1)] Some]
    have "(u, k) = (t, i) \<longleftrightarrow> js = ps @ [i]"
      using find_inj [OF sp _ _ _ Some, of ps] p user_path_Cons [OF t(2)] t(3,4) k Some by auto
    then show ?thesis using nx [OF u] pre Some k(1) by (simp add: find_page_append split: option.split)
  qed
qed

lemma descend_ustep:
  assumes e: "unat flags < 0x1000" "flags AND 1 \<noteq> 0" "flags AND 0x80 = 0"
  shows "vm_inv F s \<Longrightarrow> entry_at s va (slot t (hd is)) \<Longrightarrow> uspace F s C L \<Longrightarrow> L t = Some (length is) \<Longrightarrow> is \<noteq> [] \<Longrightarrow>
    user_path (ps @ is) \<Longrightarrow> length (ps @ is) = 4 \<Longrightarrow> find_page (mem s) C ps = Some t \<Longrightarrow> L pa = Some 0 \<Longrightarrow>
    orphan C L (mem s) pa \<Longrightarrow> length is \<le> Suc (card (free_frames s)) \<Longrightarrow>
    \<exists>s' L'. descend va is flags (pa OR flags) s = (Inr (), s') \<and> ustep F C s L s' L'
      \<and> card (free_frames s) < card (free_frames s') + length is
      \<and> (\<forall>js. user_path js \<longrightarrow> length js = 4 \<longrightarrow>
           find_page (mem s') C js = (if js = ps @ is then Some pa else find_page (mem s) C js))"
proof (induction "is" arbitrary: s va t L ps rule: induct_list012)
  case (2 i)
  have t: "L t = Some 1" "user_slot C t i" using 2(4) find_slot(2) [OF 2(3,6,8)] by auto
  note ts = uspace_slots [OF 2(1,3) t]
  let ?s = "s\<lparr>mem := pwrite64 (mem s) (slot t i) (pa OR flags)\<rparr>"
  have at: "entry_at s va (slot t i)" using 2(2) by simp
  note st = leaf_store [OF 2(1) at ts, of "pa OR flags"]
  have orp: "next_table (mem s) (slot u k) \<noteq> Some pa" if "L u = Some (Suc l)" "user_slot C u k" for u l k
    using 2(10) that by (simp add: orphan_def)
  note leaf = uspace_leaf [OF 2(1,3) t 2(9) orp e]
  have fr: "free_frames ?s = free_frames s" using st(4) by (simp add: free_frames_def pmm_frames_def)
  have "mem ?s x = mem s x" if "untouched F s x" "off_user C L x" for x
    using st(2) that off_userD [of C L x t 0 i] t by (simp add: vm_step_def)
  then have "ustep F C s L ?s L" using st(2) leaf(1) fr by (simp add: ustep_def vm_step_def)
  moreover have "find_page (mem ?s) C js = (if js = ps @ [i] then Some pa else find_page (mem s) C js)"
    if "user_path js" "length js = 4" for js
    by (rule find_leaf [OF 2(3) t(1) 2(6) _ 2(8) leaf(2) that]) (use 2(7) in auto)
  ultimately show ?case using st(1) fr by (intro exI [of _ ?s] exI [of _ L]) simp
next
  case (3 i j "is")
  let ?l = "length is"
  have t: "L t = Some (Suc (Suc ?l))" using 3(6) by simp
  have up: "user_path (ps @ [i])" using 3(8) by (cases ps) (auto simp: user_path_def)
  note sl = find_slot(2) [OF 3(5) up 3(10)]
  have path: "path_ok F s {} t (i # j # is)"
    by (rule uspace_path_ok [OF 3(3,5,6)]) (use 3(8) sl in \<open>auto simp: user_path_def\<close>)
  have at: "entry_at s va (slot t i)" using 3(4) by simp
  have "next_table (mem s) (slot t i) = None \<Longrightarrow> free_frames s \<noteq> {}" using 3(13) by auto
  from level_descend [OF 3(3) at path _ e(1,3) this] obtain s1 f where
    s1: "map_level va flags s = (Inr (), s1)" "level_step F s t i s1 f" "entry_at s1 (slot TEMP_PAGE j) (slot f j)"
    by blast
  have ps: "user_path ps" "length ps + Suc (Suc ?l) = 4" using user_path_Cons [OF up] 3(9) by auto
  obtain L1 where L1: "ustep F C s L s1 L1" "L1 f = Some (Suc ?l)" "card (free_frames s) \<le> Suc (card (free_frames s1))"
     "\<forall>js. user_path js \<longrightarrow> length js = 4 \<longrightarrow> find_page (mem s1) C js = find_page (mem s) C js"
     "find_page (mem s1) C (ps @ [i]) = Some f" "L pa \<noteq> None \<longrightarrow> orphan C L (mem s) pa \<longrightarrow> orphan C L1 (mem s1) pa"
    using level_ustep [OF 3(3,5) t sl s1(2) ps 3(10)] by blast
  have u: "vm_inv F s1" "uspace F s1 C L1" "L1 pa = Some 0"
    using L1(1) 3(11) by (auto simp: ustep_def map_le_def dom_def)
  have "orphan C L1 (mem s1) pa" "length (j # is) \<le> Suc (card (free_frames s1))"
    using L1(3,6) 3(11-13) by auto
  with 3(2) [of s1 "slot TEMP_PAGE j" f L1 "ps @ [i]"] u s1(3) L1(2,5) 3(8,9) obtain s' L' where
    s': "descend (slot TEMP_PAGE j) (j # is) flags (pa OR flags) s1 = (Inr (), s')" "ustep F C s1 L1 s' L'"
      "card (free_frames s1) < card (free_frames s') + length (j # is)"
      "\<forall>js. user_path js \<longrightarrow> length js = 4 \<longrightarrow>
         find_page (mem s') C js = (if js = ps @ i # j # is then Some pa else find_page (mem s1) C js)" by auto
  have "descend va (i # j # is) flags (pa OR flags) s = (Inr (), s')" using s1(1) s'(1) by (simp add: monad)
  moreover have "ustep F C s L s' L'" by (rule ustep_trans [OF L1(1) s'(2)])
  moreover have "card (free_frames s) < card (free_frames s') + length (i # j # is)" using s'(3) L1(3) by simp
  ultimately show ?case using s'(4) L1(4) by (intro exI [of _ s'] exI [of _ L']) simp
qed simp

section \<open>The pointer to the top table\<close>

lemma page_offset:
  assumes "page_aligned a" "i < 4096"
  shows "unat (a + of_nat i) = unat a + i" "va_path (a + of_nat i) = va_path a"
    "(a + of_nat i) AND 0xFFF = of_nat i" "canonical (a + of_nat i) = canonical a"
proof -
  have m: "unat a mod 4096 = 0" using assms(1) by (simp add: page_aligned_iff)
  have "unat a + 4096 \<le> 2 ^ 64"
    using aligned_less_add [of "unat a" "2 ^ 64 - 4096"] m u64_bound [of a] by auto
  then show u: "unat (a + of_nat i) = unat a + i" using assms(2) by (intro unat_add_of_nat) simp
  have d12: "(unat a + i) div 4096 = unat a div 4096"
    using m assms(2) by (metis add.right_neutral div_eq_0_iff div_plus_div_distrib_dvd_left mod_eq_0_iff_dvd)
  have dk: "(unat a + i) div 2 ^ k = unat a div 2 ^ k" if "12 \<le> k" for k
  proof -
    have "(2 :: nat) ^ k = 2 ^ 12 * 2 ^ (k - 12)" using that by (simp only: power_add [symmetric] le_add_diff_inverse)
    then have "(2 :: nat) ^ k = 4096 * 2 ^ (k - 12)" by simp
    then show ?thesis using d12 by (simp add: div_mult2_eq)
  qed
  have ix: "drop_bit k (a + of_nat i) AND 0x1FF = drop_bit k a AND 0x1FF" if "12 \<le> k" for k
    unfolding word_unat_eq_iff unat_index u dk [OF that] by simp
  show "va_path (a + of_nat i) = va_path a"
    using ix [of 39] ix [of 30] ix [of 21] ix [of 12] by (simp add: pml4_index_def pdpt_index_def pd_index_def pt_index_def)
  have "(unat a + i) mod 4096 = i" using m assms(2) by (simp add: mod_add_left_eq [symmetric])
  then show "(a + of_nat i) AND 0xFFF = of_nat i"
    using assms(2) unfolding word_unat_eq_iff unat_and_fff u by simp
  have "drop_bit 47 (a + of_nat i) = drop_bit 47 a"
    unfolding word_unat_eq_iff unat_drop_bit_eq using dk [of 47] u by (simp add: drop_bit_eq_div)
  then show "canonical (a + of_nat i) = canonical a" by (simp add: canonical_def)
qed

text \<open>The entries on a walk determine it.\<close>

lemma walk_same:
  assumes "\<And>p. p \<in> walk_slots m t is \<Longrightarrow> pread64 m' p = pread64 m p"
  shows "walk_to m' t is = walk_to m t is \<and> walk_slots m' t is = walk_slots m t is"
  using assms
proof (induction "is" arbitrary: t rule: induct_list012)
  case (3 i j "is")
  have e: "next_table m' (slot t i) = next_table m (slot t i)" using 3(3) by (simp add: next_table_def)
  show ?case
  proof (cases "next_table m (slot t i)")
    case (Some u)
    then show ?thesis using e 3(2) [of u] 3(3) by simp
  qed (simp add: e)
qed simp_all

lemma walk_to_last: "is \<noteq> [] \<Longrightarrow> walk_to m t is = Some p \<Longrightarrow> p \<in> walk_slots m t is"
  by (induction "is" arbitrary: t rule: induct_list012) (auto split: option.splits)

lemma mmu_walk_same:
  assumes "\<And>p. p \<in> walk_slots m C (va_path va) \<Longrightarrow> pread64 m' p = pread64 m p" "C AND PAGE_MASK = C"
  shows "mmu_walk m' C va = mmu_walk m C va"
proof -
  have w: "walk_to m' C (va_path va) = walk_to m C (va_path va)" using walk_same [OF assms(1)] by blast
  have "leaf_frame m' p = leaf_frame m p" if "walk_to m C (va_path va) = Some p" for p
    using assms(1) [OF walk_to_last [OF _ that]] by (simp add: leaf_frame_def)
  then show ?thesis unfolding mmu_walk_to assms(2) w by (simp split: option.split)
qed

lemma walk_ok_same:
  assumes "walk_ok F s t is" "\<And>p. p \<in> walk_slots (mem s) t is \<Longrightarrow> pread64 (mem s') p = pread64 (mem s) p"
    and "\<And>u k. table_slot F s u k \<Longrightarrow> table_slot F s' u k"
  shows "walk_ok F s' t is"
  using assms(1,2)
proof (induction "is" arbitrary: t rule: induct_list012)
  case (3 i j "is")
  have e: "next_table (mem s') (slot t i) = next_table (mem s) (slot t i)" using 3(4) by (simp add: next_table_def)
  show ?case
  proof (cases "next_table (mem s) (slot t i)")
    case (Some u)
    then show ?thesis using e 3(2) [of u] 3(3,4) assms(3) by simp
  qed (use e 3(3) assms(3) in simp)
qed (use assms(3) in auto)

lemma entry_at_walk:
  assumes inv: "vm_inv F s" and C: "cr3 s AND PAGE_MASK = C" and walk: "walk_ok F s C (va_path va)"
    and q: "mmu_walk (mem s) C va = Some q" and va: "page_aligned va" "canonical va" and k: "k + 8 \<le> 4096"
  shows "entry_at s (va + of_nat k) (q + of_nat k)"
  unfolding entry_at_def mapped_def
proof (intro allI impI)
  fix m i assume m: "\<forall>x. unat (mem_bitmap_size s) \<le> unat (x - bm_base s) \<longrightarrow> m x = mem s x" and i: "i < (8 :: nat)"
  have CC: "C AND PAGE_MASK = C" using C by (auto simp: and.assoc)
  have ki: "k + i < 4096" using k i by simp
  note po = page_offset [OF va(1) ki]
  have "pread64 m p = pread64 (mem s) p" if p: "p \<in> walk_slots (mem s) C (va_path (va + of_nat (k + i)))" for p
  proof (rule pread64_agree)
    fix b :: nat assume b: "b < 8"
    obtain u j where u: "table_slot F s u j" "p = slot u j"
      using walk_slots_in_use [OF walk] p unfolding po(2) by blast
    from table_slot_untouched [OF u(1) b] m show "m (p + of_nat b) = mem s (p + of_nat b)"
      by (simp add: untouched_def u(2))
  qed
  from mmu_walk_same [OF this CC]
  have w: "mmu_walk m C (va + of_nat (k + i)) = mmu_walk (mem s) C (va + of_nat (k + i))" by blast
  have "va AND 0xFFF = 0" using va(1) by (simp add: page_aligned_def)
  then have "mmu_walk (mem s) C (va + of_nat (k + i)) = Some (q + of_nat (k + i))"
    using q unfolding mmu_walk_to po(2,3) by (auto split: option.splits)
  moreover have "mmu_walk m (cr3 s) a = mmu_walk m C a" for a by (simp add: mmu_walk_def C CC)
  ultimately show "translate (s\<lparr>mem := m\<rparr>) (va + of_nat k + of_nat i) = Inr (q + of_nat k + of_nat i)"
    using w po(4) va(2) by (simp add: translate_def add.assoc)
qed

definition top_shown :: "kframes \<Rightarrow> machine \<Rightarrow> u64 \<Rightarrow> (u64 \<rightharpoonup> nat) \<Rightarrow> bool" where
  "top_shown F s C L \<longleftrightarrow>
     canonical (KERNEL_BASE + C) \<and> walk_ok F s C (va_path (KERNEL_BASE + C)) \<and>
     mmu_walk (mem s) C (KERNEL_BASE + C) = Some C \<and>
     (\<forall>p\<in>walk_slots (mem s) C (va_path (KERNEL_BASE + C)). \<forall>u l k. L u = Some l \<longrightarrow> user_slot C u k \<longrightarrow> p \<noteq> slot u k)"

lemma top_shownD:
  assumes "top_shown F s C L"
  shows "canonical (KERNEL_BASE + C)" "walk_ok F s C (va_path (KERNEL_BASE + C))"
    "mmu_walk (mem s) C (KERNEL_BASE + C) = Some C"
    "\<And>p u l k. p \<in> walk_slots (mem s) C (va_path (KERNEL_BASE + C)) \<Longrightarrow> L u = Some l \<Longrightarrow> user_slot C u k \<Longrightarrow> p \<noteq> slot u k"
  using assms unfolding top_shown_def by blast+

text \<open>All that the loader relies on, between its steps.\<close>

definition uctx :: "kframes \<Rightarrow> machine \<Rightarrow> u64 \<Rightarrow> (u64 \<rightharpoonup> nat) \<Rightarrow> bool" where
  "uctx F s C L \<longleftrightarrow> vm_inv F s \<and> uspace F s C L \<and> top_shown F s C L"

lemma uctxD:
  assumes "uctx F s C L"
  shows "vm_inv F s" "uspace F s C L" "top_shown F s C L" "cr3 s AND PAGE_MASK = C" "C AND PAGE_MASK = C"
    "page_aligned C"
proof -
  show d: "vm_inv F s" "uspace F s C L" "top_shown F s C L" using assms by (simp_all add: uctx_def)
  show c: "cr3 s AND PAGE_MASK = C" using vm_invD(3) [OF d(1)] uspaceD(1) [OF d(2)] by (simp add: kmap_def)
  then show "C AND PAGE_MASK = C" "page_aligned C" using masked_aligned [of "cr3 s"] by (auto simp: and.assoc)
qed

lemma kernel_base_aligned: "page_aligned C \<Longrightarrow> page_aligned (KERNEL_BASE + C)"
proof -
  assume "page_aligned C"
  then have "4096 dvd unat C" by (simp add: page_aligned_iff mod_eq_0_iff_dvd)
  then have "4096 dvd unat (KERNEL_BASE + C)"
    by (auto simp: unat_plus_if_size word_size kconst intro!: dvd_diff_nat dvd_add)
  then show ?thesis by (simp add: page_aligned_iff mod_eq_0_iff_dvd)
qed

lemma uctx_entry:
  assumes "uctx F s C L" "unat i < 512"
  shows "entry_at s (slot (KERNEL_BASE + C) i) (slot C i)"
proof -
  note d = uctxD [OF assms(1)]
  note t = top_shownD [OF d(3)]
  have "entry_at s (KERNEL_BASE + C + of_nat (8 * unat i)) (C + of_nat (8 * unat i))"
    by (rule entry_at_walk [OF d(1,4) t(2,3) kernel_base_aligned [OF d(6)] t(1)]) (use assms(2) in simp)
  then show ?thesis by (simp add: slot_def)
qed

text \<open>The way to the top table is kept when its entries are.\<close>

lemma top_shown_kept:
  assumes ctx: "uctx F s C L" and new: "vm_inv F s'" "uspace F s' C L'" "dom L' \<subseteq> dom L \<union> free_frames s"
    and form: "s' = s\<lparr>mem := mem s', invlpg_log := invlpg_log s'\<rparr>" "free_frames s' \<subseteq> free_frames s"
    and bytes: "\<And>v i b. table_slot F s v i \<Longrightarrow> (\<And>u l k. L u = Some l \<Longrightarrow> user_slot C u k \<Longrightarrow> slot v i \<noteq> slot u k) \<Longrightarrow>
        b < 8 \<Longrightarrow> mem s' (slot v i + of_nat b) = mem s (slot v i + of_nat b)"
  shows "uctx F s' C L'"
proof -
  note d = uctxD [OF ctx]
  let ?va = "KERNEL_BASE + C"
  let ?W = "walk_slots (mem s) C (va_path ?va)"
  note top = top_shownD(1-3) [OF d(3)] and far = top_shownD(4) [OF d(3)]
  have W: "\<exists>u k. table_slot F s u k \<and> p = slot u k" if "p \<in> ?W" for p by (rule walk_slots_in_use [OF top(2) that])
  have kept: "pread64 (mem s') p = pread64 (mem s) p" if p: "p \<in> ?W" for p
  proof (rule pread64_agree)
    fix b :: nat assume b: "b < 8"
    obtain v i where v: "table_slot F s v i" "p = slot v i" using W [OF p] by blast
    show "mem s' (p + of_nat b) = mem s (p + of_nat b)"
      using bytes [OF v(1) _ b] far [OF p] unfolding v(2) by blast
  qed
  have ts: "table_slot F s' u k" if "table_slot F s u k" for u k by (rule table_slot_mono [OF that form(2,1)])
  have ws: "walk_slots (mem s') C (va_path ?va) = ?W" using walk_same [OF kept] by blast
  have "p \<noteq> slot u k" if p: "p \<in> ?W" and u: "L' u = Some l" "user_slot C u k" for p u l k
  proof (cases "u \<in> dom L")
    case True
    then show ?thesis using far [OF p _ u(2)] by auto
  next
    case False
    then have f: "u \<in> free_frames s" using new(3) u(1) by auto
    obtain v i where v: "table_slot F s v i" "p = slot v i" using W [OF p] by blast
    then show ?thesis using fresh_slot [OF f _ v(1), of k] u(2) by (auto simp: user_slot_def)
  qed
  then have "top_shown F s' C L'"
    unfolding top_shown_def ws using top walk_ok_same [OF top(2) kept ts] mmu_walk_same [OF kept d(5)] by auto
  then show ?thesis using new by (simp add: uctx_def)
qed

lemma top_shown_step:
  assumes ctx: "uctx F s C L" and st: "ustep F C s L s' L'"
  shows "uctx F s' C L'"
proof -
  note d = uctxD [OF ctx]
  have "mem s' (slot v i + of_nat b) = mem s (slot v i + of_nat b)"
    if v: "table_slot F s v i" "\<And>u l k. L u = Some l \<Longrightarrow> user_slot C u k \<Longrightarrow> slot v i \<noteq> slot u k" and b: "b < 8" for v i b
  proof -
    have "off_user C L (slot v i + of_nat b)"
      unfolding off_user_def
    proof (intro allI impI)
      fix u l k assume u: "L u = Some (Suc l)" "user_slot C u k"
      have "apart (slot u k) 8 (slot v i) 8"
        using v(2) [OF u] v(1) uspaceD(3) [OF d(2) u(1)] u(2)
        by (intro slot_eq_or_apart) (auto simp: table_slot_def user_frame_def user_slot_def)
      from apart_outside [OF this b] show "8 \<le> unat (slot v i + of_nat b - slot u k)" .
    qed
    then show ?thesis using st table_slot_untouched [OF v(1) b] by (simp add: ustep_def)
  qed
  then show ?thesis using st by (intro top_shown_kept [OF ctx]) (auto simp: ustep_def)
qed

section \<open>Allocating and mapping a page\<close>

lemma uspace_page:
  assumes "uspace F s C L" "pa \<notin> dom L" "user_frame s pa"
  shows "uspace F s C (L(pa \<mapsto> 0))" "orphan C (L(pa \<mapsto> 0)) (mem s) pa"
proof -
  note d = uspaceD [OF assms(1)]
  have ne: "next_table (mem s) (slot u k) \<noteq> Some pa" if "L u = Some (Suc l)" "user_slot C u k" for u l k
    using uspace_child [OF assms(1) that] assms(2) by blast
  then show "orphan C (L(pa \<mapsto> 0)) (mem s) pa" by (auto simp: orphan_def split: if_splits)
  have 1: "l \<le> 4 \<and> user_frame s u" if "(L(pa \<mapsto> 0)) u = Some l" for u l
    using that d(3) assms(3) by (auto split: if_splits)
  have 2: "\<exists>v. next_table (mem s) (slot u k) = Some v \<and> (L(pa \<mapsto> 0)) v = Some l"
    if u: "(L(pa \<mapsto> 0)) u = Some (Suc l)" "user_slot C u k" "pread64 (mem s) (slot u k) AND 1 \<noteq> 0" for u l k
  proof -
    have Lu: "L u = Some (Suc l)" using u(1) by (auto split: if_splits)
    from d(4) [OF Lu u(2,3)] ne [OF Lu u(2)] show ?thesis by auto
  qed
  have 3: "u = u' \<and> k = k'"
    if "(L(pa \<mapsto> 0)) u = Some (Suc m)" "(L(pa \<mapsto> 0)) u' = Some (Suc m')" "user_slot C u k" "user_slot C u' k'"
      "next_table (mem s) (slot u k) = Some v" "next_table (mem s) (slot u' k') = Some v" for u u' k k' m m' v
    using that d(5) by (auto split: if_splits)
  have "(L(pa \<mapsto> 0)) C = Some 4" using d(2) assms(2) by auto
  then show "uspace F s C (L(pa \<mapsto> 0))" unfolding uspace_def using d(1) 1 2 3 by blast
qed

lemma pmm_alloc_ustep:
  assumes ctx: "uctx F s C L" and free: "free_frames s \<noteq> {}"
  shows "\<exists>pa t. pmm_alloc s = (Inr pa, t) \<and> pa \<in> free_frames s \<and> free_frames t = free_frames s - {pa}
     \<and> ustep F C s L t (L(pa \<mapsto> 0)) \<and> orphan C (L(pa \<mapsto> 0)) (mem t) pa
     \<and> (\<forall>js. user_path js \<longrightarrow> find_page (mem t) C js = find_page (mem s) C js)"
proof -
  note d = uctxD [OF ctx]
  obtain j where j: "first_free s 0 = Some j" using first_free_exists free by blast
  define pa where "pa = of_nat j * PAGE_SIZE"
  define t where "t = s\<lparr>mem := set_frame (mem s) (bm_base s) j\<rparr>"
  note a = pmm_alloc_Some [OF vm_invD(1) [OF d(1)] j, folded pa_def t_def]
  have inv: "vm_inv F t" unfolding t_def by (rule vm_inv_alloc [OF d(1) j])
  have fr: "free_frames t = free_frames s - {pa}" "pa \<in> free_frames s"
    using a(3,4) by (auto simp: free_frames_def t_def pmm_frames_def)
  have out: "mem t x = mem s x" if "untouched F s x" for x
    using that set_frame_outside(1) [OF first_free_range(2) [OF vm_invD(1) [OF d(1)] j]] by (simp add: t_def untouched_def)
  have same: "pread64 (mem t) (slot u k) = pread64 (mem s) (slot u k)" if "L u = Some (Suc l)" "user_slot C u k" for u l k
    by (rule pread64_agree) (rule out [OF table_slot_untouched [OF uspace_slots(1) [OF d(1,2) that]]])
  have sub: "free_frames t \<subseteq> free_frames s" using fr by blast
  have us: "uspace F t C L" using uspace_same(1) [OF d(2) sub] same by blast
  have dL: "pa \<notin> dom L" using uspaceD(3) [OF d(2)] fr(2) by (auto simp: user_frame_def)
  have "user_frame t pa" by (rule free_user_frame [OF d(1) fr(2)]) (simp add: fr(1))
  note pg = uspace_page [OF us dL this]
  have fp: "find_page (mem t) C js = find_page (mem s) C js" if "user_path js" for js
    by (rule find_same [OF d(2) that]) (use same in \<open>auto simp: next_table_def\<close>)
  have "L \<subseteq>\<^sub>m L(pa \<mapsto> 0)" "dom (L(pa \<mapsto> 0)) \<subseteq> dom L \<union> free_frames s" using dL fr(2) by (auto simp: map_le_def)
  moreover have "t = s\<lparr>mem := mem t, invlpg_log := invlpg_log t\<rparr>" by (simp add: t_def)
  ultimately have "ustep F C s L t (L(pa \<mapsto> 0))"
    unfolding ustep_def using inv pg(1) sub out by blast
  then show ?thesis using a(1) fr pg(2) fp by blast
qed

text \<open>The addresses of the lower half.\<close>

definition user_addr :: "u64 \<Rightarrow> bool" where
  "user_addr va \<longleftrightarrow> unat va < 2 ^ 47"

abbreviation page_of :: "u64 \<Rightarrow> nat" where
  "page_of va \<equiv> unat va div 4096"

lemma div_digits:
  "x div 4096 div 512 = x div 0x200000" "x div 0x200000 div 512 = x div 0x40000000"
  "x div 0x40000000 div 512 = x div 0x8000000000" for x :: nat
proof -
  have m: "(0x200000 :: nat) = 4096 * 512" "(0x40000000 :: nat) = 0x200000 * 512" "(0x8000000000 :: nat) = 0x40000000 * 512"
    by simp_all
  show "x div 4096 div 512 = x div 0x200000" unfolding m(1) by (rule div_mult2_eq [symmetric])
  show "x div 0x200000 div 512 = x div 0x40000000" unfolding m(2) by (rule div_mult2_eq [symmetric])
  show "x div 0x40000000 div 512 = x div 0x8000000000" unfolding m(3) by (rule div_mult2_eq [symmetric])
qed

lemma path_digits:
  "unat (pt_index va) = page_of va mod 512" "unat (pd_index va) = page_of va div 512 mod 512"
  "unat (pdpt_index va) = page_of va div 512 div 512 mod 512"
  "unat (pml4_index va) = page_of va div 512 div 512 div 512 mod 512"
  unfolding div_digits pt_index_def pd_index_def pdpt_index_def pml4_index_def unat_index by simp_all

lemma user_addr_top: "user_addr va \<Longrightarrow> page_of va div 512 div 512 div 512 < 256"
  unfolding div_digits user_addr_def by (simp add: div_less_iff_less_mult)

lemma user_addr_path:
  assumes "user_addr va"
  shows "user_path (va_path va)" "length (va_path va) = 4" "canonical va"
proof -
  have "page_of va div 512 div 512 div 512 mod 512 < 256" using user_addr_top [OF assms] by (meson le_less_trans mod_less_eq_dividend)
  then show "user_path (va_path va)"
    unfolding user_path_def using path_digits [of va] by (simp del: One_nat_def)
  have "unat (drop_bit 47 va) = 0" using assms unfolding unat_drop_bit_eq by (simp add: drop_bit_eq_div user_addr_def)
  then show "canonical va" by (simp add: canonical_def unat_eq_0)
qed simp

lemma va_path_eq:
  assumes "user_addr a" "user_addr b"
  shows "va_path a = va_path b \<longleftrightarrow> page_of a = page_of b"
proof
  assume "va_path a = va_path b"
  then have e: "pt_index a = pt_index b" "pd_index a = pd_index b" "pdpt_index a = pdpt_index b" "pml4_index a = pml4_index b"
    by auto
  let ?x = "page_of a" and ?y = "page_of b"
  have eq: "v = w" if "v div 512 = w div 512" "v mod 512 = w mod 512" for v w :: nat
    using that div_mult_mod_eq [of v 512] div_mult_mod_eq [of w 512] by metis
  have m: "?x mod 512 = ?y mod 512" "?x div 512 mod 512 = ?y div 512 mod 512"
    "?x div 512 div 512 mod 512 = ?y div 512 div 512 mod 512"
    "?x div 512 div 512 div 512 mod 512 = ?y div 512 div 512 div 512 mod 512"
    using e path_digits [of a] path_digits [of b] by metis+
  have "?x div 512 div 512 div 512 < 512" "?y div 512 div 512 div 512 < 512"
    using user_addr_top [OF assms(1)] user_addr_top [OF assms(2)] by linarith+
  then have "?x div 512 div 512 div 512 = ?y div 512 div 512 div 512" using m(4) by (metis mod_less)
  from eq [OF eq [OF eq [OF this m(3)] m(2)] m(1)] show "?x = ?y" .
next
  assume "page_of a = page_of b"
  then show "va_path a = va_path b" using path_digits [of a] path_digits [of b] by (simp only: word_unat_eq_iff list.inject)
qed

lemma user_walk:
  assumes sp: "uspace F s C L" and C: "C AND PAGE_MASK = C" and va: "user_addr va"
  shows "mmu_walk (mem s) C va = map_option (\<lambda>f. f + (va AND 0xFFF)) (find_page (mem s) C (va_path va))"
proof -
  let ?ps = "[pml4_index va, pdpt_index va, pd_index va]"
  have w: "mmu_walk (mem s) C va = (case find_page (mem s) C ?ps of None \<Rightarrow> None
      | Some u \<Rightarrow> map_option (\<lambda>f. f + (va AND 0xFFF)) (leaf_frame (mem s) (slot u (pt_index va))))"
    unfolding mmu_walk_def C by (auto split: option.splits)
  have up: "user_path (?ps @ [pt_index va])" using user_addr_path(1) [OF va] by simp
  have "leaf_frame (mem s) (slot u (pt_index va)) = next_table (mem s) (slot u (pt_index va))"
    if "find_page (mem s) C ?ps = Some u" for u
  proof -
    note f = find_slot [OF sp up that]
    show ?thesis using uspaceD(4) [OF sp f] by (auto simp: leaf_frame_def next_table_def Let_def split: if_splits)
  qed
  then show ?thesis
    unfolding w using find_page_append [of "mem s" C ?ps "[pt_index va]"] by (auto split: option.splits)
qed

lemma map_user_page:
  assumes ctx: "uctx F s C L" and va: "user_addr va" and free: "4 \<le> card (free_frames s)"
    and flags: "unat flags < 0x1000" "flags AND 1 \<noteq> 0" "flags AND 0x80 = 0"
  shows "\<exists>pa t L'. bind pmm_alloc (\<lambda>pa. map_page \<lparr>ctx_pml4t = KERNEL_BASE + C, is_kernel = False\<rparr> va pa flags) s = (Inr (), t)
     \<and> ustep F C s L t L' \<and> uctx F t C L' \<and> L' pa = Some 0 \<and> pa \<notin> dom L
     \<and> card (free_frames s) \<le> card (free_frames t) + 4
     \<and> (\<forall>va'. user_addr va' \<longrightarrow> mmu_walk (mem t) C va' =
          (if page_of va' = page_of va then Some (pa + (va' AND 0xFFF)) else mmu_walk (mem s) C va'))"
proof -
  note d = uctxD [OF ctx]
  obtain pa s1 where a: "pmm_alloc s = (Inr pa, s1)" "pa \<in> free_frames s" "free_frames s1 = free_frames s - {pa}"
      "ustep F C s L s1 (L(pa \<mapsto> 0))" "orphan C (L(pa \<mapsto> 0)) (mem s1) pa"
      "\<forall>js. user_path js \<longrightarrow> find_page (mem s1) C js = find_page (mem s) C js"
    using pmm_alloc_ustep [OF ctx] free by fastforce
  have ctx1: "uctx F s1 C (L(pa \<mapsto> 0))" by (rule top_shown_step [OF ctx a(4)])
  note d1 = uctxD [OF ctx1] and up = user_addr_path [OF va]
  have c: "card (free_frames s) = Suc (card (free_frames s1))"
    unfolding a(3) by (rule card.remove [OF finite_frames a(2)])
  have pL: "pa \<notin> dom L" using uspaceD(3) [OF d(2)] a(2) by (auto simp: user_frame_def)
  have i: "unat (pml4_index va) < 512" using up(1) by (simp add: user_path_def)
  have "\<exists>t L'. descend (slot (KERNEL_BASE + C) (pml4_index va)) (va_path va) flags (pa OR flags) s1 = (Inr (), t)
      \<and> ustep F C s1 (L(pa \<mapsto> 0)) t L' \<and> card (free_frames s1) < card (free_frames t) + length (va_path va)
      \<and> (\<forall>js. user_path js \<longrightarrow> length js = 4 \<longrightarrow>
           find_page (mem t) C js = (if js = [] @ va_path va then Some pa else find_page (mem s1) C js))"
    by (rule descend_ustep [OF flags d1(1) _ d1(2)])
      (use uctx_entry [OF ctx1 i] uspaceD(2) [OF d(2)] pL up(1) a(5) free c in auto)
  then obtain t L' where t: "map_page \<lparr>ctx_pml4t = KERNEL_BASE + C, is_kernel = False\<rparr> va pa flags s1 = (Inr (), t)"
      "ustep F C s1 (L(pa \<mapsto> 0)) t L'" "card (free_frames s1) < card (free_frames t) + 4"
      "\<And>js. user_path js \<Longrightarrow> length js = 4 \<Longrightarrow> find_page (mem t) C js = (if js = va_path va then Some pa else find_page (mem s1) C js)"
    unfolding map_page_descend by auto
  have ctx2: "uctx F t C L'" by (rule top_shown_step [OF ctx1 t(2)])
  have "mmu_walk (mem t) C va' = (if page_of va' = page_of va then Some (pa + (va' AND 0xFFF)) else mmu_walk (mem s) C va')"
    if va': "user_addr va'" for va'
    unfolding user_walk [OF uctxD(2) [OF ctx2] d(5) va'] user_walk [OF d(2,5) va'] t(4) [OF user_addr_path(1,2) [OF va']]
    using va_path_eq [OF va' va] a(6) user_addr_path(1) [OF va'] by (simp del: find_page.simps)
  moreover have "L' pa = Some 0" using t(2) by (auto simp: ustep_def map_le_def)
  moreover have "ustep F C s L t L'" by (rule ustep_trans [OF a(4) t(2)])
  ultimately show ?thesis using a(1) t(1,3) c ctx2 pL
    by (intro exI [of _ pa] exI [of _ t] exI [of _ L']) (simp add: monad)
qed

end
