(* ===== verification/User_Memory.thy ===== *)
theory User_Memory
  imports User_Space
begin

text \<open>
  The memory of a user program: the bytes its addresses show through the page tables. Mapping a page
  adds a page to it, and a write of the kernel through a user address changes just that byte.
\<close>

section \<open>The bytes a program sees\<close>

definition umem :: "pmem \<Rightarrow> u64 \<Rightarrow> u64 \<rightharpoonup> u8" where
  "umem m C va = (if user_addr va then map_option m (mmu_walk m C va) else None)"

lemma user_walk_page:
  assumes "uctx F s C L" "user_addr va" "mmu_walk (mem s) C va = Some p"
  shows "\<exists>f. L f = Some 0 \<and> p = f + of_nat (unat va mod 4096) \<and> find_page (mem s) C (va_path va) = Some f"
proof -
  note d = uctxD [OF assms(1)] and up = user_addr_path [OF assms(2)]
  obtain f where f: "find_page (mem s) C (va_path va) = Some f" "p = f + (va AND 0xFFF)"
    using assms(3) unfolding user_walk [OF d(2,5) assms(2)] by auto
  have "va AND 0xFFF = of_nat (unat va mod 4096)" by (simp add: word_unat_eq_iff unat_and_fff unat_of_nat64)
  then show ?thesis using find_level [OF d(2) up(1) f(1)] f up(2) by auto
qed

lemma frame_offset_inj:
  assumes "page_aligned f" "page_aligned g" "i < 4096" "j < 4096" "f + of_nat i = g + of_nat j"
  shows "f = g \<and> i = j"
proof -
  have "unat f + i = unat g + j" using page_offset(1) assms by metis
  moreover have "unat f mod 4096 = 0" "unat g mod 4096 = 0" using assms(1,2) by (simp_all add: page_aligned_iff)
  moreover have "(unat f + i) mod 4096 = i" "(unat g + j) mod 4096 = j" using calculation(2,3) assms(3,4) by (simp_all add: mod_add_left_eq [symmetric])
  ultimately have "i = j" "unat f = unat g" by auto
  then show ?thesis by (simp add: word_unat_eq_iff)
qed

text \<open>Different user addresses are different bytes of memory.\<close>

lemma user_walk_inj:
  assumes ctx: "uctx F s C L" and a: "user_addr a" "mmu_walk (mem s) C a = Some p"
    and b: "user_addr b" "mmu_walk (mem s) C b = Some p"
  shows "a = b"
proof -
  note d = uctxD [OF ctx]
  obtain f where f: "L f = Some 0" "p = f + of_nat (unat a mod 4096)" "find_page (mem s) C (va_path a) = Some f"
    using user_walk_page [OF ctx a] by blast
  obtain g where g: "L g = Some 0" "p = g + of_nat (unat b mod 4096)" "find_page (mem s) C (va_path b) = Some g"
    using user_walk_page [OF ctx b] by blast
  have "page_aligned f" "page_aligned g" using uspaceD(3) [OF d(2)] f(1) g(1) by (auto simp: user_frame_def)
  from frame_offset_inj [OF this, of "unat a mod 4096" "unat b mod 4096"] f(2) g(2)
  have e: "f = g" "unat a mod 4096 = unat b mod 4096" by auto
  have "va_path a = va_path b"
    using find_inj [OF d(2) user_addr_path(1) [OF a(1)] user_addr_path(1) [OF b(1)] _ f(3)] g(3) e(1) by simp
  then have "page_of a = page_of b" using va_path_eq [OF a(1) b(1)] by blast
  then have "unat a = unat b" using e(2) div_mult_mod_eq [of "unat a" 4096] div_mult_mod_eq [of "unat b" 4096] by metis
  then show ?thesis by (simp only: word_unat_eq_iff)
qed

text \<open>The bytes of pages, and those of the window off the bitmap and the temporary entry, are not
  touched by steps on the tree.\<close>

lemma page_byte_off:
  assumes ctx: "uctx F s C L" and f: "L f = Some 0" and i: "i < 4096"
  shows "untouched F s (f + of_nat i)" "off_user C L (f + of_nat i)"
proof -
  note d = uctxD [OF ctx]
  have fr: "user_frame s f" using uspaceD(3) [OF d(2) f] by simp
  have k: "unat (of_nat (i div 8) :: u64) < 512" "unat (of_nat (i div 8) :: u64) = i div 8" using i by auto
  have x: "f + of_nat i = slot f (of_nat (i div 8)) + of_nat (i mod 8)"
  proof -
    have "(of_nat i :: u64) = of_nat (8 * (i div 8) + i mod 8)" by simp
    then show ?thesis by (simp only: slot_def of_nat_add of_nat_mult of_nat_numeral add.assoc)
  qed
  show "untouched F s (f + of_nat i)"
    unfolding x by (rule table_slot_untouched [OF user_table_slot [OF d(1) fr k(1)]]) simp
  show "off_user C L (f + of_nat i)"
    unfolding off_user_def
  proof (intro allI impI)
    fix u l j assume u: "L u = Some (Suc l)" "user_slot C u j"
    have "u \<noteq> f" using u(1) f by auto
    then have "apart u 4096 f 4096"
      using uspaceD(3) [OF d(2) u(1)] fr by (intro apart_frames) (auto simp: user_frame_def)
    from apart_outside [OF this i] u(2) show "8 \<le> unat (f + of_nat i - slot u j)"
      by (intro off_frame) (auto simp: user_slot_def)
  qed
qed

lemma low_byte_off:
  assumes ctx: "uctx F s C L" and x: "unat x < 0x200000" "unat (mem_bitmap_size s) \<le> unat (x - bm_base s)"
    "8 \<le> unat (x - temp_slot F)"
  shows "untouched F s x" "off_user C L x"
proof -
  note d = uctxD [OF ctx]
  have far: "4096 \<le> unat (x - u)" if "0x200000 \<le> unat u" "unat u < 2 ^ 52" for u
    using that x(1) by (auto simp: unat_sub_if_size word_size)
  show "untouched F s x"
    using x(2,3) free_frame(2,3) [OF d(1)] far by (simp add: untouched_def)
  show "off_user C L x"
    unfolding off_user_def
    using uspaceD(3) [OF d(2)] far off_frame by (auto simp: user_frame_def user_slot_def)
qed

lemma ustep_umem:
  assumes ctx: "uctx F s C L" and st: "ustep F C s L t L'" and va: "user_addr va"
    and w: "mmu_walk (mem t) C va = mmu_walk (mem s) C va"
  shows "umem (mem t) C va = umem (mem s) C va"
proof (cases "mmu_walk (mem s) C va")
  case (Some p)
  obtain f where f: "L f = Some 0" "p = f + of_nat (unat va mod 4096)" using user_walk_page [OF ctx va Some] by blast
  have "mem t p = mem s p"
    using page_byte_off [OF ctx f(1), of "unat va mod 4096"] st by (simp add: f(2) ustep_def)
  then show ?thesis using w Some by (simp add: umem_def)
qed (simp add: umem_def w)

section \<open>Writes through user addresses\<close>

lemma user_frame_off:
  assumes "vm_inv F s" "kf_root F = C" "page_aligned C" "user_frame s u" "u \<noteq> C"
  shows "off_tables F u 4096"
proof -
  note d = vm_invD [OF assms(1)]
  have low: "low_frame (kf_pml4 F)" "low_frame (kf_pdpt F)" "low_frame (kf_pd F)" "low_frame (kf_pt F)"
    using d(3) by (auto simp: kmap_def)
  have lo: "apart u 4096 (g + of_nat i) n" if "low_frame g" "i + n \<le> 4096" "0 < n" for g i n
    by (rule user_frame_apart [OF assms(4) that(3) low_page [OF that(1,2)]])
  have "apart u 4096 (C + 0xFF8) 8"
    using apart_in_frames [of u C 0 4096 "0xFF8" 8] assms(3-5) by (simp add: user_frame_def)
  then show ?thesis
    using lo [OF low(1), of "0xFF8" 8] lo [OF low(2), of "0xFF0" 8] lo [OF low(3), of 0 8] lo [OF low(4), of 0 "0xFF8"] assms(2)
    by (simp add: off_tables_def)
qed

lemma user_byte_write:
  fixes b :: u8
  assumes ctx: "uctx F s C L" and f: "L f = Some 0" and i: "i < 4096"
  defines "t \<equiv> s\<lparr>mem := (mem s)(f + of_nat i := b)\<rparr>"
  shows "uctx F t C L" "free_frames t = free_frames s"
    "\<And>va. user_addr va \<Longrightarrow> mmu_walk (mem t) C va = mmu_walk (mem s) C va"
proof -
  note d = uctxD [OF ctx]
  have fr: "user_frame s f" "f \<noteq> C" using uspaceD(2,3) [OF d(2)] f by auto
  have pw: "t = s\<lparr>mem := pwrite (mem s) (f + of_nat i) [b]\<rparr>" by (simp add: t_def pwrite_single)
  have off: "off_tables F (f + of_nat i) 1"
    using off_tables_sub [OF user_frame_off [OF d(1) uspaceD(1) [OF d(2)] d(6) fr], of i 1] i by simp
  have "apart (f + of_nat i) 1 (bm_base s) (unat (mem_bitmap_size s))"
    using apart_sub [OF user_frame_apart [OF fr(1), of "unat (mem_bitmap_size s)" "bm_base s"], of i 1 0 "unat (mem_bitmap_size s)"]
      vm_invD(4,7) [OF d(1)] i by simp
  then have inv: "vm_inv F t" "pmm_used t = pmm_used s"
    using vm_inv_pwrite [OF d(1), of "f + of_nat i" "[b]"] off by (simp_all add: pw)
  then show free: "free_frames t = free_frames s" by (simp add: free_frames_def pmm_frames_def t_def)
  have far: "mem t (slot v k + of_nat c) = mem s (slot v k + of_nat c)" if "page_aligned v" "v \<noteq> f" "unat k < 512" "c < 8" for v k c
  proof -
    have "8 * unat k + c < 4096" using that(3,4) by simp
    from frame_offset_inj [of v f "8 * unat k + c" i, OF that(1) _ this i] fr(1) that(2)
    have "v + of_nat (8 * unat k + c) \<noteq> f + of_nat i" by (auto simp: user_frame_def)
    then show ?thesis by (simp add: t_def slot_def add.assoc)
  qed
  have same: "pread64 (mem t) (slot u k) = pread64 (mem s) (slot u k)" if "L u = Some (Suc l)" "user_slot C u k" for u l k
  proof (rule pread64_agree)
    fix c :: nat assume "c < 8"
    moreover have "u \<noteq> f" using that(1) f by auto
    ultimately show "mem t (slot u k + of_nat c) = mem s (slot u k + of_nat c)"
      using uspaceD(3) [OF d(2) that(1)] that(2) by (intro far) (auto simp: user_frame_def user_slot_def)
  qed
  have us: "uspace F t C L" using uspace_same(1) [OF d(2), of t] free same by blast
  show "uctx F t C L"
  proof (rule top_shown_kept [OF ctx inv(1) us])
    fix v k c assume v: "table_slot F s v k" "\<And>u l j. L u = Some l \<Longrightarrow> user_slot C u j \<Longrightarrow> slot v k \<noteq> slot u j" "c < (8 :: nat)"
    have "v \<noteq> f" using v(1) v(2) [OF f, of k] fr(2) by (auto simp: table_slot_def user_slot_def)
    then show "mem t (slot v k + of_nat c) = mem s (slot v k + of_nat c)"
      using far [of v k c] v(1,3) by (simp add: table_slot_def)
  qed (use free in \<open>auto simp: t_def\<close>)
  show "mmu_walk (mem t) C va = mmu_walk (mem s) C va" if va: "user_addr va" for va
    unfolding user_walk [OF us d(5) va] user_walk [OF d(2,5) va]
    using find_same [OF d(2) user_addr_path(1) [OF va], of "mem t"] same by (simp add: next_table_def del: find_page.simps)
qed

lemma user_store8:
  assumes ctx: "uctx F s C L" and va: "user_addr va" "mmu_walk (mem s) C va = Some p"
  shows "store8 va b s = (Inr (), s\<lparr>mem := (mem s)(p := b)\<rparr>)" "uctx F (s\<lparr>mem := (mem s)(p := b)\<rparr>) C L"
    "free_frames (s\<lparr>mem := (mem s)(p := b)\<rparr>) = free_frames s" "0x200000 \<le> unat p"
    "\<And>va. user_addr va \<Longrightarrow> mmu_walk ((mem s)(p := b)) C va = mmu_walk (mem s) C va"
proof -
  note d = uctxD [OF ctx]
  obtain f where f: "L f = Some 0" "p = f + of_nat (unat va mod 4096)" using user_walk_page [OF ctx va] by blast
  have m: "unat va mod 4096 < 4096" by simp
  note w = user_byte_write [where b = b, OF ctx f(1) m, folded f(2)]
  show "uctx F (s\<lparr>mem := (mem s)(p := b)\<rparr>) C L" "free_frames (s\<lparr>mem := (mem s)(p := b)\<rparr>) = free_frames s"
    "\<And>va. user_addr va \<Longrightarrow> mmu_walk ((mem s)(p := b)) C va = mmu_walk (mem s) C va" using w by simp_all
  have fr: "user_frame s f" using uspaceD(3) [OF d(2) f(1)] by simp
  then show "0x200000 \<le> unat p"
    unfolding f(2) using page_offset(1) [of f "unat va mod 4096"] m by (simp add: user_frame_def)
  have "mmu_walk (mem s) (cr3 s) va = mmu_walk (mem s) C va" by (simp add: mmu_walk_def d(4,5))
  then have "mapped s va 1 p" using va user_addr_path(3) [OF va(1)] by (simp add: mapped_def translate_def)
  from store8_mapped [OF this, of 0 b] show "store8 va b s = (Inr (), s\<lparr>mem := (mem s)(p := b)\<rparr>)" by simp
qed

section \<open>Copying to user memory\<close>

lemma window_byte:
  assumes "uctx F s C L" "in_win src n" "i < n"
  shows "load8 (src + of_nat i) s = (Inr (mem s (src - KERNEL_BASE + of_nat i)), s)"
    "unat (src - KERNEL_BASE + of_nat i) < 0x200000"
proof -
  note w = in_win_sub [OF assms(2), of i 1] and k = vm_invD(3) [OF uctxD(1) [OF assms(1)]]
  have e: "src + of_nat i - KERNEL_BASE = src - KERNEL_BASE + of_nat i" by simp
  show "load8 (src + of_nat i) s = (Inr (mem s (src - KERNEL_BASE + of_nat i)), s)"
    using kwin_load8 [OF k w] assms(3) unfolding e by simp
  show "unat (src - KERNEL_BASE + of_nat i) < 0x200000" using w assms(3) unfolding in_win_def e by simp
qed

text \<open>The memory after a copy: the bytes at user addresses hold the source, all others are as
  before.\<close>

definition copied :: "pmem \<Rightarrow> u64 \<Rightarrow> u64 \<Rightarrow> u64 \<Rightarrow> nat \<Rightarrow> pmem \<Rightarrow> bool" where
  "copied m C dest q n m' \<longleftrightarrow>
     (\<forall>i<n. \<forall>p. mmu_walk m C (dest + of_nat i) = Some p \<longrightarrow> m' p = m (q + of_nat i)) \<and>
     (\<forall>x. (\<forall>i<n. mmu_walk m C (dest + of_nat i) \<noteq> Some x) \<longrightarrow> m' x = m x)"

definition copy_inv :: "kframes \<Rightarrow> machine \<Rightarrow> u64 \<Rightarrow> (u64 \<rightharpoonup> nat) \<Rightarrow> u64 \<Rightarrow> u64 \<Rightarrow> nat \<Rightarrow> machine \<Rightarrow> bool" where
  "copy_inv F s C L dest q i t \<longleftrightarrow>
     t = s\<lparr>mem := mem t\<rparr> \<and> uctx F t C L \<and> free_frames t = free_frames s \<and>
     (\<forall>va. user_addr va \<longrightarrow> mmu_walk (mem t) C va = mmu_walk (mem s) C va) \<and> copied (mem s) C dest q i (mem t)"

lemma offset_inj: "unat a + n \<le> 2 ^ 64 \<Longrightarrow> i < n \<Longrightarrow> k < n \<Longrightarrow> a + of_nat i = a + of_nat k \<Longrightarrow> i = k" for a :: u64
proof -
  assume h: "unat a + n \<le> 2 ^ 64" "i < n" "k < n" "a + of_nat i = a + of_nat k"
  have "unat (a + of_nat i) = unat a + i" "unat (a + of_nat k) = unat a + k"
    by (rule unat_add_of_nat; use h in simp)+
  then show "i = k" using arg_cong [OF h(4), of unat] by linarith
qed

lemma copied_step:
  assumes "copied m C dest q i m'" "mmu_walk m C (dest + of_nat i) = Some p" "i < n" "unat dest + n \<le> 2 ^ 47"
    and inj: "\<And>a b x. user_addr a \<Longrightarrow> user_addr b \<Longrightarrow> mmu_walk m C a = Some x \<Longrightarrow> mmu_walk m C b = Some x \<Longrightarrow> a = b"
  shows "copied m C dest q (Suc i) (m'(p := m (q + of_nat i)))"
proof -
  have ua: "user_addr (dest + of_nat k)" if "k < n" for k
    using that assms(4) unat_add_of_nat [of dest k] by (simp add: user_addr_def)
  have ne: "x \<noteq> p" if "mmu_walk m C (dest + of_nat k) = Some x" "k < i" for k x
  proof
    assume "x = p"
    then have "dest + of_nat k = dest + of_nat i" using inj [OF ua ua that(1)] assms(2,3) that(2) by auto
    from offset_inj [of dest n k i, OF _ _ _ this] that(2) assms(3,4) show False by simp
  qed
  show ?thesis
    unfolding copied_def
  proof (intro conjI allI impI)
    fix k x assume k: "k < Suc i" "mmu_walk m C (dest + of_nat k) = Some x"
    show "(m'(p := m (q + of_nat i))) x = m (q + of_nat k)"
    proof (cases "k = i")
      case True
      then show ?thesis using k(2) assms(2) by simp
    next
      case False
      then have "k < i" using k(1) by simp
      then show ?thesis using ne [OF k(2)] assms(1) k(2) by (simp add: copied_def)
    qed
  next
    fix x assume x: "\<forall>k<Suc i. mmu_walk m C (dest + of_nat k) \<noteq> Some x"
    then have "x \<noteq> p" "\<forall>k<i. mmu_walk m C (dest + of_nat k) \<noteq> Some x" using assms(2) by auto
    then show "(m'(p := m (q + of_nat i))) x = m x" using assms(1) by (simp add: copied_def)
  qed
qed

lemma copy_step:
  assumes ctx: "uctx F s C L" and src: "in_win src n" and dest: "unat dest + n \<le> 2 ^ 47" "n < 2 ^ 31" "unat count = n"
    and mapped: "\<And>i. i < n \<Longrightarrow> mmu_walk (mem s) C (dest + of_nat i) \<noteq> None"
    and i: "i < n" and inv: "copy_inv F s C L dest (src - KERNEL_BASE) i t"
  shows "\<exists>u. memcpy_loop i dest src count t = memcpy_loop (Suc i) dest src count u
     \<and> copy_inv F s C L dest (src - KERNEL_BASE) (Suc i) u"
proof -
  let ?q = "src - KERNEL_BASE"
  have t: "t = s\<lparr>mem := mem t\<rparr>" "uctx F t C L" "free_frames t = free_frames s"
      "\<And>va. user_addr va \<Longrightarrow> mmu_walk (mem t) C va = mmu_walk (mem s) C va" "copied (mem s) C dest ?q i (mem t)"
    using inv by (simp_all add: copy_inv_def)
  have ua: "user_addr (dest + of_nat k)" if "k < n" for k
    using that dest(1) unat_add_of_nat [of dest k] by (simp add: user_addr_def)
  obtain p where p: "mmu_walk (mem s) C (dest + of_nat i) = Some p" using mapped [OF i] by blast
  then have pt: "mmu_walk (mem t) C (dest + of_nat i) = Some p" using t(4) [OF ua [OF i]] by simp
  note st = user_store8 [OF t(2) ua [OF i] pt]
  have high: "0x200000 \<le> unat x" if "mmu_walk (mem s) C (dest + of_nat k) = Some x" "k < n" for k x
    using user_store8(4) [OF ctx ua [OF that(2)] that(1)] .
  have "mem t (?q + of_nat i) = mem s (?q + of_nat i)"
  proof -
    have "mmu_walk (mem s) C (dest + of_nat k) \<noteq> Some (?q + of_nat i)" if "k < i" for k
      using high [of k "?q + of_nat i"] window_byte(2) [OF ctx src i] that i by auto
    then show ?thesis using t(5) by (simp add: copied_def)
  qed
  then have ld: "load8 (src + of_nat i) t = (Inr (mem s (?q + of_nat i)), t)"
    using window_byte(1) [OF t(2) src i] by simp
  define u where "u = t\<lparr>mem := (mem t)(p := mem s (?q + of_nat i))\<rparr>"
  have run: "memcpy_loop i dest src count t = memcpy_loop (Suc i) dest src count u"
    unfolding u_def by (rule memcpy_loop_step [OF _ _ ld st(1)]) (use i dest in auto)
  have "copied (mem s) C dest ?q (Suc i) (mem u)"
    using copied_step [OF t(5) p i dest(1)] user_walk_inj [OF ctx] by (simp add: u_def)
  moreover have "u = s\<lparr>mem := mem u\<rparr>" unfolding u_def by (subst t(1)) simp
  moreover have "uctx F u C L" "free_frames u = free_frames s" unfolding u_def using st(2,3) t(3) by simp_all
  moreover have "mmu_walk (mem u) C va = mmu_walk (mem s) C va" if "user_addr va" for va
    using st(5) [OF that] t(4) [OF that] by (simp add: u_def)
  ultimately have "copy_inv F s C L dest ?q (Suc i) u" unfolding copy_inv_def by blast
  then show ?thesis using run by blast
qed

lemma memcpy_user:
  assumes ctx: "uctx F s C L" and src: "in_win src n" and dest: "unat dest + n \<le> 2 ^ 47" "n < 2 ^ 31" "unat count = n"
    and mapped: "\<And>i. i < n \<Longrightarrow> mmu_walk (mem s) C (dest + of_nat i) \<noteq> None"
  shows "\<exists>t. memcpy dest src count s = (Inr dest, t) \<and> copy_inv F s C L dest (src - KERNEL_BASE) n t"
proof -
  have "\<exists>t. memcpy_loop i dest src count u = (Inr (), t) \<and> copy_inv F s C L dest (src - KERNEL_BASE) n t"
    if "i \<le> n" "copy_inv F s C L dest (src - KERNEL_BASE) i u" for i u
    using that
  proof (induction "n - i" arbitrary: i u)
    case 0
    then show ?case using dest by (subst memcpy_loop.simps) auto
  next
    case (Suc k)
    then have i: "i < n" by simp
    from copy_step [OF ctx src dest mapped i Suc(4)] Suc(1) [of "Suc i"] Suc(2) i show ?case by auto
  qed
  from this [of 0 s] obtain t where "memcpy_loop 0 dest src count s = (Inr (), t)"
      "copy_inv F s C L dest (src - KERNEL_BASE) n t"
    using ctx by (auto simp: copy_inv_def copied_def simp del: memcpy_loop.simps)
  then show ?thesis by (auto simp: memcpy_def monad simp del: memcpy_loop.simps)
qed

lemma copy_umem:
  assumes ctx: "uctx F s C L" and inv: "copy_inv F s C L dest q n t" and va: "user_addr va"
    and dest: "unat dest + n \<le> 2 ^ 47" and mapped: "\<And>i. i < n \<Longrightarrow> mmu_walk (mem s) C (dest + of_nat i) \<noteq> None"
  shows "umem (mem t) C va =
     (if unat dest \<le> unat va \<and> unat va < unat dest + n then Some (mem s (q + of_nat (unat va - unat dest)))
      else umem (mem s) C va)"
proof -
  have w: "mmu_walk (mem t) C va = mmu_walk (mem s) C va" and cp: "copied (mem s) C dest q n (mem t)"
    using inv va by (simp_all add: copy_inv_def)
  show ?thesis
  proof (cases "unat dest \<le> unat va \<and> unat va < unat dest + n")
    case True
    define i where "i = unat va - unat dest"
    have i: "i < n" "unat va = unat dest + i" using True by (auto simp: i_def)
    have "unat (dest + of_nat i) = unat dest + i" using i dest by (intro unat_add_of_nat) simp
    then have e: "va = dest + of_nat i" using i(2) by (simp add: word_unat_eq_iff)
    obtain p where p: "mmu_walk (mem s) C va = Some p" using mapped [OF i(1)] e by auto
    then have "mem t p = mem s (q + of_nat i)" using cp i(1) e by (auto simp: copied_def)
    then show ?thesis using True w p va by (simp add: umem_def i_def)
  next
    case False
    have "mem t p = mem s p" if p: "mmu_walk (mem s) C va = Some p" for p
    proof -
      have "mmu_walk (mem s) C (dest + of_nat i) \<noteq> Some p" if i: "i < n" for i
      proof
        assume a: "mmu_walk (mem s) C (dest + of_nat i) = Some p"
        have u: "unat (dest + of_nat i) = unat dest + i" using i dest by (intro unat_add_of_nat) simp
        then have "user_addr (dest + of_nat i)" using i dest by (simp add: user_addr_def)
        from user_walk_inj [OF ctx va p this a] u i False show False by simp
      qed
      then show ?thesis using cp by (simp add: copied_def)
    qed
    then show ?thesis using False w va by (cases "mmu_walk (mem s) C va") (auto simp: umem_def)
  qed
qed

section \<open>Loading\<close>

text \<open>What the steps of the loader keep: the context, the kernel's own memory but for the bitmap and
  the temporary entry, and all variables; at most \<open>n\<close> frames are taken.\<close>

definition uload :: "kframes \<Rightarrow> u64 \<Rightarrow> nat \<Rightarrow> machine \<Rightarrow> machine \<Rightarrow> bool" where
  "uload F C n s t \<longleftrightarrow>
     (\<exists>L. uctx F t C L) \<and> t = s\<lparr>mem := mem t, invlpg_log := invlpg_log t\<rparr> \<and>
     card (free_frames s) \<le> card (free_frames t) + n \<and>
     (\<forall>x. unat x < 0x200000 \<longrightarrow> unat (mem_bitmap_size s) \<le> unat (x - bm_base s) \<longrightarrow> 8 \<le> unat (x - temp_slot F) \<longrightarrow>
        mem t x = mem s x)"

lemma uload_refl: "uctx F s C L \<Longrightarrow> uload F C 0 s s"
  by (auto simp: uload_def)

lemma uload_trans:
  assumes "uload F C n s t" "uload F C k t u"
  shows "uload F C (n + k) s u"
proof -
  have f: "t = s\<lparr>mem := mem t, invlpg_log := invlpg_log t\<rparr>" "u = t\<lparr>mem := mem u, invlpg_log := invlpg_log u\<rparr>"
    using assms by (simp_all add: uload_def)
  have "bm_base t = bm_base s" "mem_bitmap_size t = mem_bitmap_size s" by (rule step_fields [OF f(1)])+
  then show ?thesis using assms step_form_trans [OF f(2,1)] by (auto simp: uload_def)
qed

lemma ustep_uload:
  assumes "uctx F s C L" "ustep F C s L t L'" "uctx F t C L'" "card (free_frames s) \<le> card (free_frames t) + n"
  shows "uload F C n s t"
  using assms low_byte_off [OF assms(1)] by (auto simp: uload_def ustep_def)

lemma copy_uload:
  assumes ctx: "uctx F s C L" and inv: "copy_inv F s C L dest q n t" and dest: "unat dest + n \<le> 2 ^ 47"
  shows "uload F C 0 s t"
proof -
  have t: "t = s\<lparr>mem := mem t\<rparr>" "uctx F t C L" "free_frames t = free_frames s" "copied (mem s) C dest q n (mem t)"
    using inv by (simp_all add: copy_inv_def)
  have "mem t x = mem s x" if x: "unat x < 0x200000" for x
  proof -
    have "mmu_walk (mem s) C (dest + of_nat i) \<noteq> Some x" if i: "i < n" for i
    proof
      assume a: "mmu_walk (mem s) C (dest + of_nat i) = Some x"
      have "unat (dest + of_nat i) = unat dest + i" using i dest by (intro unat_add_of_nat) simp
      then have "user_addr (dest + of_nat i)" using i dest by (simp add: user_addr_def)
      from user_store8(4) [OF ctx this a] x show False by simp
    qed
    then show ?thesis using t(4) by (simp add: copied_def)
  qed
  moreover have l: "invlpg_log t = invlpg_log s" by (subst t(1)) simp
  have "t = s\<lparr>mem := mem t, invlpg_log := invlpg_log t\<rparr>" unfolding l by (subst t(1)) simp
  ultimately show ?thesis using t(2,3) unfolding uload_def by auto
qed

end
