(* ===== verification/Elf64.thy ===== *)
theory Elf64
  imports Elf_Format
begin

text \<open>
  The 64-bit structures of \<open>headers/elf.h\<close>: each C structure as a record of its fields, and the fields
  as they are read from bytes, at the offsets the C compiler gives them. The kernel only reads such structures;
  the inverse, the bytes of a structure, is no code of it and serves to show that the fields cover the
  structure without meeting. The two members of the union of a dynamic entry, and the one of an auxiliary vector entry,
  share one field. Every structure is shown to be a \<open>binary_format\<close>, and an \<open>exact_format\<close> unless it
  ends in padding.
\<close>

section \<open>Structures\<close>

record Elf64_Ehdr =
  e_ident :: "u8 list"
  e_type :: Elf64_Half
  e_machine :: Elf64_Half
  e_version :: Elf64_Word
  e_entry :: Elf64_Addr
  e_phoff :: Elf64_Off
  e_shoff :: Elf64_Off
  e_flags :: Elf64_Word
  e_ehsize :: Elf64_Half
  e_phentsize :: Elf64_Half
  e_phnum :: Elf64_Half
  e_shentsize :: Elf64_Half
  e_shnum :: Elf64_Half
  e_shstrndx :: Elf64_Half

definition encode_Elf64_Ehdr :: "Elf64_Ehdr \<Rightarrow> u8 list" where
  "encode_Elf64_Ehdr h =
    e_ident h @ le_bytes 2 (e_type h) @ le_bytes 2 (e_machine h) @ le_bytes 4 (e_version h)
      @ le_bytes 8 (e_entry h) @ le_bytes 8 (e_phoff h) @ le_bytes 8 (e_shoff h) @ le_bytes 4 (e_flags h)
      @ le_bytes 2 (e_ehsize h) @ le_bytes 2 (e_phentsize h) @ le_bytes 2 (e_phnum h)
      @ le_bytes 2 (e_shentsize h) @ le_bytes 2 (e_shnum h) @ le_bytes 2 (e_shstrndx h)"

definition decode_Elf64_Ehdr :: "u8 list \<Rightarrow> Elf64_Ehdr" where
  "decode_Elf64_Ehdr bs =
     \<lparr>e_ident = take 16 bs, e_type = field 16 2 bs, e_machine = field 18 2 bs,
      e_version = field 20 4 bs, e_entry = field 24 8 bs, e_phoff = field 32 8 bs,
      e_shoff = field 40 8 bs, e_flags = field 48 4 bs, e_ehsize = field 52 2 bs,
      e_phentsize = field 54 2 bs, e_phnum = field 56 2 bs, e_shentsize = field 58 2 bs,
      e_shnum = field 60 2 bs, e_shstrndx = field 62 2 bs\<rparr>"

lemmas [elf_layout] = encode_Elf64_Ehdr_def decode_Elf64_Ehdr_def

record Elf64_Shdr =
  sh_name :: Elf64_Word
  sh_type :: Elf64_Word
  sh_flags :: Elf64_Xword
  sh_addr :: Elf64_Addr
  sh_offset :: Elf64_Off
  sh_size :: Elf64_Xword
  sh_link :: Elf64_Word
  sh_info :: Elf64_Word
  sh_addralign :: Elf64_Xword
  sh_entsize :: Elf64_Xword

definition encode_Elf64_Shdr :: "Elf64_Shdr \<Rightarrow> u8 list" where
  "encode_Elf64_Shdr h =
    le_bytes 4 (sh_name h) @ le_bytes 4 (sh_type h) @ le_bytes 8 (sh_flags h) @ le_bytes 8 (sh_addr h)
      @ le_bytes 8 (sh_offset h) @ le_bytes 8 (sh_size h) @ le_bytes 4 (sh_link h)
      @ le_bytes 4 (sh_info h) @ le_bytes 8 (sh_addralign h) @ le_bytes 8 (sh_entsize h)"

definition decode_Elf64_Shdr :: "u8 list \<Rightarrow> Elf64_Shdr" where
  "decode_Elf64_Shdr bs =
     \<lparr>sh_name = field 0 4 bs, sh_type = field 4 4 bs, sh_flags = field 8 8 bs,
      sh_addr = field 16 8 bs, sh_offset = field 24 8 bs, sh_size = field 32 8 bs,
      sh_link = field 40 4 bs, sh_info = field 44 4 bs, sh_addralign = field 48 8 bs,
      sh_entsize = field 56 8 bs\<rparr>"

lemmas [elf_layout] = encode_Elf64_Shdr_def decode_Elf64_Shdr_def

record Elf64_Chdr =
  ch_type :: Elf64_Word
  ch_reserved :: Elf64_Word
  ch_size :: Elf64_Xword
  ch_addralign :: Elf64_Xword

definition encode_Elf64_Chdr :: "Elf64_Chdr \<Rightarrow> u8 list" where
  "encode_Elf64_Chdr h =
    le_bytes 4 (ch_type h) @ le_bytes 4 (ch_reserved h) @ le_bytes 8 (ch_size h)
      @ le_bytes 8 (ch_addralign h)"

definition decode_Elf64_Chdr :: "u8 list \<Rightarrow> Elf64_Chdr" where
  "decode_Elf64_Chdr bs =
     \<lparr>ch_type = field 0 4 bs, ch_reserved = field 4 4 bs, ch_size = field 8 8 bs,
      ch_addralign = field 16 8 bs\<rparr>"

lemmas [elf_layout] = encode_Elf64_Chdr_def decode_Elf64_Chdr_def

record Elf64_Sym =
  st_name :: Elf64_Word
  st_info :: u8
  st_other :: u8
  st_shndx :: Elf64_Section
  st_value :: Elf64_Addr
  st_size :: Elf64_Xword

definition encode_Elf64_Sym :: "Elf64_Sym \<Rightarrow> u8 list" where
  "encode_Elf64_Sym h =
    le_bytes 4 (st_name h) @ le_bytes 1 (st_info h) @ le_bytes 1 (st_other h) @ le_bytes 2 (st_shndx h)
      @ le_bytes 8 (st_value h) @ le_bytes 8 (st_size h)"

definition decode_Elf64_Sym :: "u8 list \<Rightarrow> Elf64_Sym" where
  "decode_Elf64_Sym bs =
     \<lparr>st_name = field 0 4 bs, st_info = field 4 1 bs, st_other = field 5 1 bs,
      st_shndx = field 6 2 bs, st_value = field 8 8 bs, st_size = field 16 8 bs\<rparr>"

lemmas [elf_layout] = encode_Elf64_Sym_def decode_Elf64_Sym_def

record Elf64_Syminfo =
  si_boundto :: Elf64_Half
  si_flags :: Elf64_Half

definition encode_Elf64_Syminfo :: "Elf64_Syminfo \<Rightarrow> u8 list" where
  "encode_Elf64_Syminfo h =
    le_bytes 2 (si_boundto h) @ le_bytes 2 (si_flags h)"

definition decode_Elf64_Syminfo :: "u8 list \<Rightarrow> Elf64_Syminfo" where
  "decode_Elf64_Syminfo bs =
     \<lparr>si_boundto = field 0 2 bs, si_flags = field 2 2 bs\<rparr>"

lemmas [elf_layout] = encode_Elf64_Syminfo_def decode_Elf64_Syminfo_def

record Elf64_Rel =
  r_offset :: Elf64_Addr
  r_info :: Elf64_Xword

definition encode_Elf64_Rel :: "Elf64_Rel \<Rightarrow> u8 list" where
  "encode_Elf64_Rel h =
    le_bytes 8 (r_offset h) @ le_bytes 8 (r_info h)"

definition decode_Elf64_Rel :: "u8 list \<Rightarrow> Elf64_Rel" where
  "decode_Elf64_Rel bs =
     \<lparr>r_offset = field 0 8 bs, r_info = field 8 8 bs\<rparr>"

lemmas [elf_layout] = encode_Elf64_Rel_def decode_Elf64_Rel_def

record Elf64_Rela = Elf64_Rel +
  r_addend :: Elf64_Sxword

definition encode_Elf64_Rela :: "Elf64_Rela \<Rightarrow> u8 list" where
  "encode_Elf64_Rela h =
    le_bytes 8 (r_offset h) @ le_bytes 8 (r_info h) @ le_bytes 8 (r_addend h)"

definition decode_Elf64_Rela :: "u8 list \<Rightarrow> Elf64_Rela" where
  "decode_Elf64_Rela bs =
     \<lparr>r_offset = field 0 8 bs, r_info = field 8 8 bs, r_addend = field 16 8 bs\<rparr>"

lemmas [elf_layout] = encode_Elf64_Rela_def decode_Elf64_Rela_def

record Elf64_Phdr =
  p_type :: Elf64_Word
  p_flags :: Elf64_Word
  p_offset :: Elf64_Off
  p_vaddr :: Elf64_Addr
  p_paddr :: Elf64_Addr
  p_filesz :: Elf64_Xword
  p_memsz :: Elf64_Xword
  p_align :: Elf64_Xword

definition encode_Elf64_Phdr :: "Elf64_Phdr \<Rightarrow> u8 list" where
  "encode_Elf64_Phdr h =
    le_bytes 4 (p_type h) @ le_bytes 4 (p_flags h) @ le_bytes 8 (p_offset h) @ le_bytes 8 (p_vaddr h)
      @ le_bytes 8 (p_paddr h) @ le_bytes 8 (p_filesz h) @ le_bytes 8 (p_memsz h)
      @ le_bytes 8 (p_align h)"

definition decode_Elf64_Phdr :: "u8 list \<Rightarrow> Elf64_Phdr" where
  "decode_Elf64_Phdr bs =
     \<lparr>p_type = field 0 4 bs, p_flags = field 4 4 bs, p_offset = field 8 8 bs,
      p_vaddr = field 16 8 bs, p_paddr = field 24 8 bs, p_filesz = field 32 8 bs,
      p_memsz = field 40 8 bs, p_align = field 48 8 bs\<rparr>"

lemmas [elf_layout] = encode_Elf64_Phdr_def decode_Elf64_Phdr_def

record Elf64_Dyn =
  d_tag :: Elf64_Sxword
  d_un :: Elf64_Xword

definition encode_Elf64_Dyn :: "Elf64_Dyn \<Rightarrow> u8 list" where
  "encode_Elf64_Dyn h =
    le_bytes 8 (d_tag h) @ le_bytes 8 (d_un h)"

definition decode_Elf64_Dyn :: "u8 list \<Rightarrow> Elf64_Dyn" where
  "decode_Elf64_Dyn bs =
     \<lparr>d_tag = field 0 8 bs, d_un = field 8 8 bs\<rparr>"

lemmas [elf_layout] = encode_Elf64_Dyn_def decode_Elf64_Dyn_def

record Elf64_Verdef =
  vd_version :: Elf64_Half
  vd_flags :: Elf64_Half
  vd_ndx :: Elf64_Half
  vd_cnt :: Elf64_Half
  vd_hash :: Elf64_Word
  vd_aux :: Elf64_Word
  vd_next :: Elf64_Word

definition encode_Elf64_Verdef :: "Elf64_Verdef \<Rightarrow> u8 list" where
  "encode_Elf64_Verdef h =
    le_bytes 2 (vd_version h) @ le_bytes 2 (vd_flags h) @ le_bytes 2 (vd_ndx h) @ le_bytes 2 (vd_cnt h)
      @ le_bytes 4 (vd_hash h) @ le_bytes 4 (vd_aux h) @ le_bytes 4 (vd_next h)"

definition decode_Elf64_Verdef :: "u8 list \<Rightarrow> Elf64_Verdef" where
  "decode_Elf64_Verdef bs =
     \<lparr>vd_version = field 0 2 bs, vd_flags = field 2 2 bs, vd_ndx = field 4 2 bs,
      vd_cnt = field 6 2 bs, vd_hash = field 8 4 bs, vd_aux = field 12 4 bs,
      vd_next = field 16 4 bs\<rparr>"

lemmas [elf_layout] = encode_Elf64_Verdef_def decode_Elf64_Verdef_def

record Elf64_Verdaux =
  vda_name :: Elf64_Word
  vda_next :: Elf64_Word

definition encode_Elf64_Verdaux :: "Elf64_Verdaux \<Rightarrow> u8 list" where
  "encode_Elf64_Verdaux h =
    le_bytes 4 (vda_name h) @ le_bytes 4 (vda_next h)"

definition decode_Elf64_Verdaux :: "u8 list \<Rightarrow> Elf64_Verdaux" where
  "decode_Elf64_Verdaux bs =
     \<lparr>vda_name = field 0 4 bs, vda_next = field 4 4 bs\<rparr>"

lemmas [elf_layout] = encode_Elf64_Verdaux_def decode_Elf64_Verdaux_def

record Elf64_Verneed =
  vn_version :: Elf64_Half
  vn_cnt :: Elf64_Half
  vn_file :: Elf64_Word
  vn_aux :: Elf64_Word
  vn_next :: Elf64_Word

definition encode_Elf64_Verneed :: "Elf64_Verneed \<Rightarrow> u8 list" where
  "encode_Elf64_Verneed h =
    le_bytes 2 (vn_version h) @ le_bytes 2 (vn_cnt h) @ le_bytes 4 (vn_file h) @ le_bytes 4 (vn_aux h)
      @ le_bytes 4 (vn_next h)"

definition decode_Elf64_Verneed :: "u8 list \<Rightarrow> Elf64_Verneed" where
  "decode_Elf64_Verneed bs =
     \<lparr>vn_version = field 0 2 bs, vn_cnt = field 2 2 bs, vn_file = field 4 4 bs,
      vn_aux = field 8 4 bs, vn_next = field 12 4 bs\<rparr>"

lemmas [elf_layout] = encode_Elf64_Verneed_def decode_Elf64_Verneed_def

record Elf64_Vernaux =
  vna_hash :: Elf64_Word
  vna_flags :: Elf64_Half
  vna_other :: Elf64_Half
  vna_name :: Elf64_Word
  vna_next :: Elf64_Word

definition encode_Elf64_Vernaux :: "Elf64_Vernaux \<Rightarrow> u8 list" where
  "encode_Elf64_Vernaux h =
    le_bytes 4 (vna_hash h) @ le_bytes 2 (vna_flags h) @ le_bytes 2 (vna_other h)
      @ le_bytes 4 (vna_name h) @ le_bytes 4 (vna_next h)"

definition decode_Elf64_Vernaux :: "u8 list \<Rightarrow> Elf64_Vernaux" where
  "decode_Elf64_Vernaux bs =
     \<lparr>vna_hash = field 0 4 bs, vna_flags = field 4 2 bs, vna_other = field 6 2 bs,
      vna_name = field 8 4 bs, vna_next = field 12 4 bs\<rparr>"

lemmas [elf_layout] = encode_Elf64_Vernaux_def decode_Elf64_Vernaux_def

record Elf64_auxv_t =
  a_type :: u64
  a_un :: u64

definition encode_Elf64_auxv_t :: "Elf64_auxv_t \<Rightarrow> u8 list" where
  "encode_Elf64_auxv_t h =
    le_bytes 8 (a_type h) @ le_bytes 8 (a_un h)"

definition decode_Elf64_auxv_t :: "u8 list \<Rightarrow> Elf64_auxv_t" where
  "decode_Elf64_auxv_t bs =
     \<lparr>a_type = field 0 8 bs, a_un = field 8 8 bs\<rparr>"

lemmas [elf_layout] = encode_Elf64_auxv_t_def decode_Elf64_auxv_t_def

record Elf64_Nhdr =
  n_namesz :: Elf64_Word
  n_descsz :: Elf64_Word
  n_type :: Elf64_Word

definition encode_Elf64_Nhdr :: "Elf64_Nhdr \<Rightarrow> u8 list" where
  "encode_Elf64_Nhdr h =
    le_bytes 4 (n_namesz h) @ le_bytes 4 (n_descsz h) @ le_bytes 4 (n_type h)"

definition decode_Elf64_Nhdr :: "u8 list \<Rightarrow> Elf64_Nhdr" where
  "decode_Elf64_Nhdr bs =
     \<lparr>n_namesz = field 0 4 bs, n_descsz = field 4 4 bs, n_type = field 8 4 bs\<rparr>"

lemmas [elf_layout] = encode_Elf64_Nhdr_def decode_Elf64_Nhdr_def

record Elf64_Move =
  m_value :: Elf64_Xword
  m_info :: Elf64_Xword
  m_poffset :: Elf64_Xword
  m_repeat :: Elf64_Half
  m_stride :: Elf64_Half

definition encode_Elf64_Move :: "Elf64_Move \<Rightarrow> u8 list" where
  "encode_Elf64_Move h =
    le_bytes 8 (m_value h) @ le_bytes 8 (m_info h) @ le_bytes 8 (m_poffset h) @ le_bytes 2 (m_repeat h)
      @ le_bytes 2 (m_stride h) @ replicate 4 0"

definition decode_Elf64_Move :: "u8 list \<Rightarrow> Elf64_Move" where
  "decode_Elf64_Move bs =
     \<lparr>m_value = field 0 8 bs, m_info = field 8 8 bs, m_poffset = field 16 8 bs,
      m_repeat = field 24 2 bs, m_stride = field 26 2 bs\<rparr>"

lemmas [elf_layout] = encode_Elf64_Move_def decode_Elf64_Move_def

section \<open>Layouts\<close>

interpretation ehdr64: exact_format "\<lambda>h. length (e_ident h) = 16" encode_Elf64_Ehdr decode_Elf64_Ehdr 64
  by unfold_locales (simp_all add: elf_layout)

interpretation shdr64: exact_format "\<lambda>_. True" encode_Elf64_Shdr decode_Elf64_Shdr 64
  by unfold_locales (simp_all add: elf_layout)

interpretation chdr64: exact_format "\<lambda>_. True" encode_Elf64_Chdr decode_Elf64_Chdr 24
  by unfold_locales (simp_all add: elf_layout)

interpretation sym64: exact_format "\<lambda>_. True" encode_Elf64_Sym decode_Elf64_Sym 24
  by unfold_locales (simp_all add: elf_layout)

interpretation syminfo64: exact_format "\<lambda>_. True" encode_Elf64_Syminfo decode_Elf64_Syminfo 4
  by unfold_locales (simp_all add: elf_layout)

interpretation rel64: exact_format "\<lambda>_. True" encode_Elf64_Rel decode_Elf64_Rel 16
  by unfold_locales (simp_all add: elf_layout)

interpretation rela64: exact_format "\<lambda>_. True" encode_Elf64_Rela decode_Elf64_Rela 24
  by unfold_locales (simp_all add: elf_layout)

interpretation phdr64: exact_format "\<lambda>_. True" encode_Elf64_Phdr decode_Elf64_Phdr 56
  by unfold_locales (simp_all add: elf_layout)

interpretation dyn64: exact_format "\<lambda>_. True" encode_Elf64_Dyn decode_Elf64_Dyn 16
  by unfold_locales (simp_all add: elf_layout)

interpretation verdef64: exact_format "\<lambda>_. True" encode_Elf64_Verdef decode_Elf64_Verdef 20
  by unfold_locales (simp_all add: elf_layout)

interpretation verdaux64: exact_format "\<lambda>_. True" encode_Elf64_Verdaux decode_Elf64_Verdaux 8
  by unfold_locales (simp_all add: elf_layout)

interpretation verneed64: exact_format "\<lambda>_. True" encode_Elf64_Verneed decode_Elf64_Verneed 16
  by unfold_locales (simp_all add: elf_layout)

interpretation vernaux64: exact_format "\<lambda>_. True" encode_Elf64_Vernaux decode_Elf64_Vernaux 16
  by unfold_locales (simp_all add: elf_layout)

interpretation auxv_t64: exact_format "\<lambda>_. True" encode_Elf64_auxv_t decode_Elf64_auxv_t 16
  by unfold_locales (simp_all add: elf_layout)

interpretation nhdr64: exact_format "\<lambda>_. True" encode_Elf64_Nhdr decode_Elf64_Nhdr 12
  by unfold_locales (simp_all add: elf_layout)

interpretation move64: binary_format "\<lambda>_. True" encode_Elf64_Move decode_Elf64_Move 32
  by unfold_locales (simp_all add: elf_layout)

section \<open>Properties\<close>

text \<open>Reading back an encoded ELF header gives the header, and reading back the tables of program
  and section headers, symbols, relocations and dynamic entries gives the tables, whatever follows
  them; conversely the bytes of a structure are the encoding of what is read from them.\<close>

lemma elf64_roundtrip:
  assumes "length (e_ident h) = 16"
  shows "decode_Elf64_Ehdr (encode_Elf64_Ehdr h @ rest) = h \<and> length (encode_Elf64_Ehdr h) = 64 \<and>
     decode_array decode_Elf64_Phdr 56 (length phs) (concat (map encode_Elf64_Phdr phs) @ rest) = phs \<and>
     decode_array decode_Elf64_Shdr 64 (length shs) (concat (map encode_Elf64_Shdr shs) @ rest) = shs \<and>
     decode_array decode_Elf64_Sym 24 (length sys) (concat (map encode_Elf64_Sym sys) @ rest) = sys \<and>
     decode_array decode_Elf64_Rela 24 (length ras) (concat (map encode_Elf64_Rela ras) @ rest) = ras \<and>
     decode_array decode_Elf64_Dyn 16 (length dys) (concat (map encode_Elf64_Dyn dys) @ rest) = dys \<and>
     (length bs = 64 \<longrightarrow> encode_Elf64_Ehdr (decode_Elf64_Ehdr bs) = bs) \<and>
     (length bs = 56 \<longrightarrow> encode_Elf64_Phdr (decode_Elf64_Phdr bs) = bs) \<and>
     (length bs = 64 \<longrightarrow> encode_Elf64_Shdr (decode_Elf64_Shdr bs) = bs) \<and>
     (length bs = 24 \<longrightarrow> encode_Elf64_Sym (decode_Elf64_Sym bs) = bs) \<and>
     (length bs = 24 \<longrightarrow> encode_Elf64_Rela (decode_Elf64_Rela bs) = bs) \<and>
     (length bs = 16 \<longrightarrow> encode_Elf64_Dyn (decode_Elf64_Dyn bs) = bs)"
  using ehdr64.decode_encode [OF assms] ehdr64.length_encode [OF assms] ehdr64.encode_decode phdr64.encode_decode
    shdr64.encode_decode sym64.encode_decode rela64.encode_decode dyn64.encode_decode
  by (intro conjI impI phdr64.array_roundtrip shdr64.array_roundtrip sym64.array_roundtrip
      rela64.array_roundtrip dyn64.array_roundtrip ballI TrueI) simp_all

lemma elf64_roundtrip_witness:
  "\<exists>h. length (e_ident h) = 16 \<and> decode_Elf64_Ehdr (encode_Elf64_Ehdr h @ [1, 2, 3]) = h"
proof -
  have w: "length (e_ident (decode_Elf64_Ehdr (replicate 64 7))) = 16" by (simp add: ehdr64.decode_wf)
  from elf64_roundtrip [OF w, of "[1, 2, 3]"] w show ?thesis by blast
qed

end
