(* ===== verification/Elf_Parser.thy ===== *)
theory Elf_Parser
  imports Elf64 Vmm_Map
begin

text \<open>
  The program loader, \<open>elf_parser/elf_parser.c\<close>: the checks of the ELF header, the mapping and
  filling of each loadable segment, the user stack and the jump to user mode. The header's fields
  are read from memory at their offsets in \<open>Elf64_Ehdr\<close> and \<open>Elf64_Phdr\<close>, at the moment the code
  reads them.
\<close>

section \<open>Operations\<close>

definition magic :: "u8 list" where
  "magic = [0x7F, of_char (CHR ''E''), of_char (CHR ''L''), of_char (CHR ''F'')]"

definition EI_CLASS :: u64 where "EI_CLASS = of_int (elf_val EI_table ''EI_CLASS'')"
definition EI_DATA :: u64 where "EI_DATA = of_int (elf_val EI_table ''EI_DATA'')"
definition ELFCLASS64 :: u8 where "ELFCLASS64 = of_int (elf_val EI_table ''ELFCLASS64'')"
definition ELFDATA2LSB :: u8 where "ELFDATA2LSB = of_int (elf_val EI_table ''ELFDATA2LSB'')"
definition EM_X86_64 :: u16 where "EM_X86_64 = of_int (elf_val EM_table ''EM_X86_64'')"
definition PT_LOAD :: u32 where "PT_LOAD = of_int (elf_val PT_table ''PT_LOAD'')"
definition PF_W :: u64 where "PF_W = of_int (elf_val PF_table ''PF_W'')"

text \<open>The loop over the magic bytes; false when it leaves the function.\<close>

primrec check_magic :: "u64 \<Rightarrow> u8 list \<Rightarrow> bool kern" where
  "check_magic a [] = ret True"
| "check_magic a (b # bs) =
     bind (load8 a) (\<lambda>v. if v \<noteq> b then ret False else check_magic (a + 1) bs)"

definition page_flags :: "u64 \<Rightarrow> u64" where
  "page_flags flags = (if flags AND PF_W \<noteq> 0 then 0x5 OR 0x2 else 0x5)"

definition segment_pages :: "u64 \<Rightarrow> u64 \<Rightarrow> u64" where
  "segment_pages va_start mem_size =
     (let start = va_start AND NOT 0xFFF;
          stop = ((va_start + mem_size) AND NOT 0xFFF) + PAGE_SIZE
      in (stop - start) div 4096)"

definition map_segment :: "task \<Rightarrow> u64 \<Rightarrow> u64 \<Rightarrow> u64 \<Rightarrow> unit kern" where
  "map_segment task va_start page_count flags =
     for_up 0 page_count (\<lambda>j.
       bind pmm_alloc (\<lambda>phys_addr.
       map_page \<lparr>ctx_pml4t = task_pml4t task, is_kernel = False\<rparr>
         ((va_start AND NOT 0xFFF) + 0x1000 * j) phys_addr flags))"

definition load_segment :: "task \<Rightarrow> u64 \<Rightarrow> u64 \<Rightarrow> unit kern" where
  "load_segment task elf_data phdr =
     bind (load32 phdr) (\<lambda>ty.
     if ty = PT_LOAD
     then bind (load64 (phdr + 16)) (\<lambda>va_start.
          bind (load64 (phdr + 40)) (\<lambda>mem_size.
          bind (load64 (phdr + 32)) (\<lambda>f_size.
          bind (load64 (phdr + 8)) (\<lambda>offset.
          bind (load32 (phdr + 4)) (\<lambda>flags.
          andthen (map_segment task va_start (segment_pages va_start mem_size) (page_flags (ucast flags))) (
          andthen (memcpy va_start (elf_data + offset) f_size) (ret ())))))))
     else ret ())"

text \<open>The loop over the program headers reads \<open>e_phnum\<close> again before every turn.\<close>

function load_segments :: "task \<Rightarrow> u64 \<Rightarrow> u64 \<Rightarrow> nat \<Rightarrow> unit kern" where
  "load_segments task elf_data phdrs i s =
     (case load16 (elf_data + 56) s of
        (Inl e, s') \<Rightarrow> (Inl e, s')
      | (Inr phnum, s') \<Rightarrow>
          if i < unat phnum
          then (case load_segment task elf_data (phdrs + 56 * of_nat i) s' of
                  (Inl e, t) \<Rightarrow> (Inl e, t)
                | (Inr _, t) \<Rightarrow> load_segments task elf_data phdrs (i + 1) t)
          else (Inr (), s'))"
  by pat_completeness auto

lemma half_bound: "unat (w :: u16) < 65536"
  using unsigned_less [of w] by simp

termination load_segments
proof (relation "measure (\<lambda>(task, elf_data, phdrs, i, s). 65536 - i)")
  fix task elf_data phdrs i s p y b q z c t
  assume "i < unat (b :: u16)"
  then have "i < 65536" using half_bound [of b] by linarith
  then show "((task, elf_data, phdrs, i + 1, t), task, elf_data, phdrs, i, s)
      \<in> measure (\<lambda>(task, elf_data, phdrs, i, s). 65536 - i)" by simp
qed simp

declare load_segments.simps [simp del]

definition user_stack :: u64 where "user_stack = 0x700000000000"

text \<open>The stack and the jump. The first \<open>asm\<close> overwrites \<open>RSP\<close> and \<open>RBP\<close> with the address of the user's
  stack, without telling the compiler. The second takes the local variable \<open>entry\<close> as its operand: the
  build is without optimisation, so the compiler loads it from its place in the frame, \<open>place\<close> bytes
  below \<open>RBP\<close>, which is now below the user's stack. The value stored in the frame of the kernel's stack is
  not what is loaded. The \<open>sysret\<close> behind it has no suffix.\<close>

definition enter_user :: "u64 \<Rightarrow> task \<Rightarrow> u32 kern" where
  "enter_user place task =
     bind pmm_alloc (\<lambda>user_stack_phys.
     andthen (map_page \<lparr>ctx_pml4t = task_pml4t task, is_kernel = False\<rparr> user_stack user_stack_phys 0x7) (
     bind (load64 (user_stack - place)) (\<lambda>entry.
     raise (Sysret (entry AND 0xFFFFFFFF) user_stack 0))))"

definition load_elf :: "u64 \<Rightarrow> task \<Rightarrow> u64 \<Rightarrow> u32 kern" where
  "load_elf place task elf_data =
     bind (check_magic elf_data magic) (\<lambda>ok. if \<not> ok then ret 0x10 else
     bind (load8 (elf_data + EI_CLASS)) (\<lambda>cls. if cls \<noteq> ELFCLASS64 then ret 0x11 else
     bind (load8 (elf_data + EI_DATA)) (\<lambda>dat. if dat \<noteq> ELFDATA2LSB then ret 0x12 else
     bind (load16 (elf_data + 18)) (\<lambda>mach. if mach \<noteq> EM_X86_64 then ret 0x13 else
     bind (load64 (elf_data + 32)) (\<lambda>phoff.
     andthen (load_segments task elf_data (elf_data + phoff) 0) (
     andthen (load64 (elf_data + 24)) (
     enter_user place task)))))))"

text \<open>A task with every field zero.\<close>

definition zero_task :: task where
  "zero_task = \<lparr>pid = 0, task_pml4t = 0,
     task_regs = \<lparr>rax = 0, rbx = 0, rcx = 0, rdx = 0, rsi = 0, rdi = 0, rsp = 0, rbp = 0,
       r8 = 0, r9 = 0, r10 = 0, r11 = 0, r12 = 0, r13 = 0, r14 = 0, r15 = 0\<rparr>, task_state = 0\<rparr>"

section \<open>Checks of the header\<close>

lemma loader_constants [kconst]:
  "EI_CLASS = 4" "EI_DATA = 5" "ELFCLASS64 = 2" "ELFDATA2LSB = 1" "EM_X86_64 = 62" "PT_LOAD = 1" "PF_W = 2"
proof -
  have "elf_val EI_table ''EI_CLASS'' = 4" "elf_val EI_table ''EI_DATA'' = 5" "elf_val EI_table ''ELFCLASS64'' = 2"
    "elf_val EI_table ''ELFDATA2LSB'' = 1" "elf_val EM_table ''EM_X86_64'' = 62" "elf_val PT_table ''PT_LOAD'' = 1"
    "elf_val PF_table ''PF_W'' = 2" by code_simp+
  then show "EI_CLASS = 4" "EI_DATA = 5" "ELFCLASS64 = 2" "ELFDATA2LSB = 1" "EM_X86_64 = 62" "PT_LOAD = 1" "PF_W = 2"
    by (simp_all add: EI_CLASS_def EI_DATA_def ELFCLASS64_def ELFDATA2LSB_def EM_X86_64_def PT_LOAD_def PF_W_def)
qed

text \<open>What the loader thinks of a header: an error code, or zero.\<close>

definition elf_verdict :: "Elf64_Ehdr \<Rightarrow> u32" where
  "elf_verdict h =
     (if take 4 (e_ident h) \<noteq> magic then 0x10
      else if e_ident h ! 4 \<noteq> 2 then 0x11
      else if e_ident h ! 5 \<noteq> 1 then 0x12
      else if e_machine h \<noteq> 62 then 0x13
      else 0)"

lemma kwin_load16: "kwin F s \<Longrightarrow> in_win a 2 \<Longrightarrow> load16 a s = (Inr (le_word (pread (mem s) (a - KERNEL_BASE) 2)), s)"
  by (simp add: load16_def monad kwin_load)

lemma kwin_load32: "kwin F s \<Longrightarrow> in_win a 4 \<Longrightarrow> load32 a s = (Inr (le_word (pread (mem s) (a - KERNEL_BASE) 4)), s)"
  by (simp add: load32_def monad kwin_load)

lemma check_magic_run:
  assumes "kwin F s" "in_win a (length bs)"
  shows "check_magic a bs s = (Inr (pread (mem s) (a - KERNEL_BASE) (length bs) = bs), s)"
  using assms(2)
proof (induction bs arbitrary: a)
  case (Cons b bs)
  have "in_win a 1" "in_win (a + 1) (length bs)"
    using in_win_sub [OF Cons.prems, of 0 1] in_win_sub [OF Cons.prems, of 1 "length bs"] by simp_all
  moreover have "pread m p (Suc n) = m p # pread m (p + 1) n" for m p n
    by (simp add: pread_def upt_conv_Cons map_Suc_upt [symmetric] algebra_simps del: upt_Suc map_Suc_upt)
  moreover have "a + 1 - KERNEL_BASE = a - KERNEL_BASE + 1" by simp
  ultimately show ?case using Cons.IH [of "a + 1"] kwin_load8 [OF assms(1), of a] by (simp add: monad algebra_simps)
qed (simp add: monad pread_def)

text \<open>A field of a structure in the window.\<close>

lemma pread_field: "k + n \<le> m \<Longrightarrow> le_word (pread M (p + of_nat k) n) = field k n (pread M p m)"
proof -
  assume "k + n \<le> m"
  then have "take n (drop k (pread M p m)) = pread M (p + of_nat k) n"
    by (intro nth_equalityI) (auto simp: pread_def add.assoc)
  then show ?thesis by (simp add: field_def)
qed

lemma window_field:
  assumes "kwin F s" "in_win a m"
  shows "k + 2 \<le> m \<Longrightarrow> load16 (a + of_nat k) s = (Inr (field k 2 (pread (mem s) (a - KERNEL_BASE) m)), s)"
    and "k + 4 \<le> m \<Longrightarrow> load32 (a + of_nat k) s = (Inr (field k 4 (pread (mem s) (a - KERNEL_BASE) m)), s)"
    and "k + 8 \<le> m \<Longrightarrow> load64 (a + of_nat k) s = (Inr (field k 8 (pread (mem s) (a - KERNEL_BASE) m)), s)"
proof -
  have e: "a + of_nat k - KERNEL_BASE = a - KERNEL_BASE + of_nat k" by simp
  have w: "in_win (a + of_nat k) n" if "k + n \<le> m" for n by (rule in_win_sub [OF assms(2) that])
  show "k + 2 \<le> m \<Longrightarrow> load16 (a + of_nat k) s = (Inr (field k 2 (pread (mem s) (a - KERNEL_BASE) m)), s)"
    using kwin_load16 [OF assms(1) w [of 2]] unfolding e by (simp add: pread_field)
  show "k + 4 \<le> m \<Longrightarrow> load32 (a + of_nat k) s = (Inr (field k 4 (pread (mem s) (a - KERNEL_BASE) m)), s)"
    using kwin_load32 [OF assms(1) w [of 4]] unfolding e by (simp add: pread_field)
  show "k + 8 \<le> m \<Longrightarrow> load64 (a + of_nat k) s = (Inr (field k 8 (pread (mem s) (a - KERNEL_BASE) m)), s)"
    using kwin_load64 [OF assms(1) w [of 8]] unfolding e by (simp add: pread64_def pread_field)
qed

lemma load_elf_rejects_run:
  assumes "kwin F s" "in_win elf_data 64"
    and "h = decode_Elf64_Ehdr (pread (mem s) (elf_data - KERNEL_BASE) 64)"
  shows "elf_verdict h \<noteq> 0 \<Longrightarrow> load_elf place task elf_data s = (Inr (elf_verdict h), s)"
    and "elf_verdict h = 0 \<Longrightarrow> load_elf place task elf_data s =
       andthen (load_segments task elf_data (elf_data + e_phoff h) 0)
        (andthen (load64 (elf_data + 24)) (enter_user place task)) s"
proof -
  let ?p = "elf_data - KERNEL_BASE"
  let ?bs = "pread (mem s) ?p 64"
  have w: "in_win (elf_data + of_nat k) n" if "k + n \<le> 64" for k n by (rule in_win_sub [OF assms(2) that])
  have sub: "elf_data + of_nat k - KERNEL_BASE = ?p + of_nat k" for k by simp
  have byte: "load8 (elf_data + of_nat k) s = (Inr (?bs ! k), s)" if "k < 64" for k
    using kwin_load8 [OF assms(1) w [of k 1]] that unfolding sub by (simp add: pread_def)
  have magic: "check_magic elf_data magic s = (Inr (take 4 (e_ident h) = magic), s)"
  proof -
    have "length magic = 4" by (simp add: magic_def)
    moreover have "pread (mem s) ?p 4 = take 4 (e_ident h)"
      by (simp add: pread_def take_map assms(3) decode_Elf64_Ehdr_def)
    ultimately show ?thesis using check_magic_run [OF assms(1), of elf_data magic] w [of 0 4] by simp
  qed
  have ident: "e_ident h ! 4 = ?bs ! 4" "e_ident h ! 5 = ?bs ! 5" by (simp_all add: assms(3) decode_Elf64_Ehdr_def)
  have machine: "load16 (elf_data + 18) s = (Inr (e_machine h), s)" and phoff: "load64 (elf_data + 32) s = (Inr (e_phoff h), s)"
    using window_field(1) [OF assms(1,2), of 18] window_field(3) [OF assms(1,2), of 32]
    by (simp_all add: assms(3) decode_Elf64_Ehdr_def)
  note run = magic byte [of 4, simplified] byte [of 5, simplified] machine phoff
  show "elf_verdict h \<noteq> 0 \<Longrightarrow> load_elf place task elf_data s = (Inr (elf_verdict h), s)"
    using ident by (simp add: load_elf_def bind_def ret_def run elf_verdict_def loader_constants split: if_splits)
  show "elf_verdict h = 0 \<Longrightarrow> load_elf place task elf_data s =
       andthen (load_segments task elf_data (elf_data + e_phoff h) 0)
        (andthen (load64 (elf_data + 24)) (enter_user place task)) s"
    using ident by (simp add: load_elf_def run elf_verdict_def loader_constants bind_def ret_def andthen_def split: if_splits)
qed

section \<open>The pages of a segment\<close>

lemma page_start: "unat (x AND NOT 0xFFF) = unat x div 4096 * 4096" for x :: u64
proof -
  have m: "(0xFFF :: u64) = mask 12" by (simp add: mask_eq_exp_minus_1)
  have "x AND NOT 0xFFF = push_bit 12 (drop_bit 12 x)"
    unfolding m by (rule bit_word_eqI) (auto simp: bit_simps)
  moreover have "unat (push_bit 12 (drop_bit 12 x)) = unat x div 4096 * 4096"
  proof -
    have b: "unat x div 4096 * 4096 < 2 ^ 64"
      using le_less_trans [OF div_times_less_eq_dividend [of "unat x" 4096] u64_bound [of x]] by simp
    have "unat (drop_bit 12 x) = unat x div 4096" by (simp add: drop_bit_eq_div unat_div_distrib)
    then show ?thesis using b by (simp add: push_bit_eq_mult unat_word_ariths mult.commute)
  qed
  ultimately show ?thesis by simp
qed

lemma segment_pages_count:
  assumes "unat va + n < 2 ^ 64 - 4096" "n = unat mem_size"
  shows "unat (segment_pages va mem_size) = (unat va + n) div 4096 - unat va div 4096 + 1"
proof -
  have s: "unat (va + mem_size) = unat va + n" using assms by (simp add: unat_word_ariths)
  let ?a = "unat va div 4096" and ?b = "(unat va + n) div 4096"
  have le: "?a \<le> ?b" by (simp add: div_le_mono)
  have "?b * 4096 \<le> unat va + n" by simp
  then have b: "?b * 4096 + 4096 < 2 ^ 64" using assms(1) by linarith
  have "unat (((va + mem_size) AND NOT 0xFFF) + of_nat 4096) = ?b * 4096 + 4096"
    using b unfolding page_start s [symmetric] by (subst unat_add_of_nat) (simp_all only: page_start)
  then have "unat (((va + mem_size) AND NOT 0xFFF) + 0x1000) = ?b * 4096 + 4096" by simp
  moreover have "unat (va AND NOT 0xFFF) = ?a * 4096" by (rule page_start)
  moreover have "?a * 4096 \<le> ?b * 4096 + 4096" using le by simp
  ultimately have "unat (((va + mem_size) AND NOT 0xFFF) + 0x1000 - (va AND NOT 0xFFF)) = (?b - ?a + 1) * 4096"
    using le by (subst unat_sub) (simp_all add: word_le_nat_alt algebra_simps)
  then show ?thesis by (simp add: segment_pages_def PAGE_SIZE_def unat_div_distrib)
qed

section \<open>Properties\<close>

text \<open>C31: a file whose header does not name a little-endian 64-bit x86-64 ELF file is refused with the
  code of the first check that fails, and nothing is changed.\<close>

theorem load_elf_rejects:
  assumes "kwin F s" "in_win elf_data 64"
    and "elf_verdict (decode_Elf64_Ehdr (pread (mem s) (elf_data - KERNEL_BASE) 64)) = code" "code \<noteq> 0"
  shows "load_elf place task elf_data s = (Inr code, s)"
  using load_elf_rejects_run(1) [OF assms(1,2) refl] assms(3,4) by blast

theorem load_elf_rejects_witness:
  "load_elf 0x38 zero_task 0xFFFFFFFF80027000 boot_machine = (Inr 0x10, boot_machine)"
proof (rule load_elf_rejects [OF boot_kwin])
  have z: "mem boot_machine (0x27000 + of_nat i) = 0" if "i < 64" for i
  proof -
    have u: "unat (0x27000 + of_nat i :: u64) = 0x27000 + i" using that by (subst unat_add_of_nat) simp_all
    then have "64 \<le> unat (0x27000 + of_nat i - 0x26000 :: u64)"
      by (subst unat_sub) (simp_all add: word_le_nat_alt)
    then show ?thesis using boot_mem_high [of "0x27000 + of_nat i"] u
      by (simp add: boot_machine_def pwrite_outside)
  qed
  have "pread (mem boot_machine) 0x27000 64 = replicate 64 0"
    by (rule nth_equalityI) (simp_all add: pread_def z)
  moreover have "replicate 4 (0 :: u8) \<noteq> magic"
  proof
    assume "replicate 4 (0 :: u8) = magic"
    then have "replicate 4 (0 :: u8) ! 0 = magic ! 0" by (rule arg_cong)
    then show False by (simp add: magic_def)
  qed
  ultimately show "elf_verdict (decode_Elf64_Ehdr (pread (mem boot_machine) (0xFFFFFFFF80027000 - KERNEL_BASE) 64)) = 0x10"
    by (simp add: kconst elf_verdict_def decode_Elf64_Ehdr_def)
qed (simp_all add: in_win_def kconst)

text \<open>C35: the pages mapped for a segment, counted from the page of its first address, contain every
  byte of the segment; there is one page more than needed exactly when the segment ends at a page
  boundary.\<close>

theorem segment_pages_cover:
  assumes "unat va + unat mem_size < 2 ^ 64 - 4096"
  shows "unat va div 4096 * 4096 + unat (segment_pages va mem_size) * 4096 > unat va + unat mem_size \<and>
    (unat va div 4096 * 4096 + (unat (segment_pages va mem_size) - 1) * 4096 \<ge> unat va + unat mem_size \<longleftrightarrow>
     (unat va + unat mem_size) mod 4096 = 0)"
proof -
  let ?e = "unat va + unat mem_size"
  have "unat va div 4096 \<le> ?e div 4096" by (simp add: div_le_mono)
  then have *: "unat va div 4096 * 4096 + unat (segment_pages va mem_size) * 4096 = ?e div 4096 * 4096 + 4096"
    "unat va div 4096 * 4096 + (unat (segment_pages va mem_size) - 1) * 4096 = ?e div 4096 * 4096"
    using segment_pages_count [OF assms refl] by (simp_all add: algebra_simps)
  define q r where qr: "q = ?e div 4096 * 4096" "r = ?e mod 4096"
  have "?e = q + r" "r < 4096" by (simp_all add: qr)
  then show ?thesis unfolding * qr [symmetric] by linarith
qed

theorem segment_pages_cover_witness: "0x1000 < unat (segment_pages 0x400000 0x1000) * 4096"
proof -
  have u: "unat (0x400000 :: u64) = 0x400000" "unat (0x1000 :: u64) = 0x1000" by simp_all
  have "unat (0x400000 :: u64) + unat (0x1000 :: u64) < 2 ^ 64 - 4096" by simp
  from conjunct1 [OF segment_pages_cover [OF this]] show ?thesis unfolding u by simp
qed

end
