(* ===== verification/Elf_Load.thy ===== *)
theory Elf_Load
  imports User_Memory Elf_Parser
begin

text \<open>
  Loading a program: for a well-formed ELF file whose segments lie in the lower half of the address
  space, on pages of their own, \<open>load_elf\<close> maps the segments and the stack, copies the bytes of the file
  to where the program headers say, and enters the program.
\<close>

section \<open>The pages of a segment\<close>

lemma page_flags_ok: "unat (page_flags w) < 0x1000" "page_flags w AND 1 \<noteq> 0" "page_flags w AND 0x80 = 0"
  by (simp_all add: page_flags_def)

lemma segment_page_addr:
  assumes "page_of va + c \<le> 2 ^ 35" "j < c"
  shows "user_addr ((va AND NOT 0xFFF) + 0x1000 * of_nat j)"
    "page_of ((va AND NOT 0xFFF) + 0x1000 * of_nat j) = page_of va + j"
proof -
  have u: "unat (va AND NOT 0xFFF) = page_of va * 4096" by (rule page_start)
  have e: "0x1000 * of_nat j = (of_nat (4096 * j) :: u64)" by simp
  have "unat ((va AND NOT 0xFFF) + of_nat (4096 * j)) = page_of va * 4096 + 4096 * j"
    unfolding u [symmetric] by (rule unat_add_of_nat) (use assms u in simp)
  then have v: "unat ((va AND NOT 0xFFF) + 0x1000 * of_nat j) = (page_of va + j) * 4096" unfolding e by (simp add: algebra_simps)
  show "page_of ((va AND NOT 0xFFF) + 0x1000 * of_nat j) = page_of va + j" unfolding v by simp
  show "user_addr ((va AND NOT 0xFFF) + 0x1000 * of_nat j)" unfolding user_addr_def v using assms by simp
qed

lemma map_segment_run:
  assumes ctx: "uctx F s C L" and task: "task_pml4t task = KERNEL_BASE + C"
    and c: "page_of va + unat c \<le> 2 ^ 35" "4 * unat c \<le> card (free_frames s)"
  shows "\<exists>t. map_segment task va c (page_flags w) s = (Inr (), t) \<and> uload F C (4 * unat c) s t
     \<and> (\<forall>a. user_addr a \<longrightarrow> (if page_of va \<le> page_of a \<and> page_of a < page_of va + unat c then umem (mem t) C a \<noteq> None
          else umem (mem t) C a = umem (mem s) C a))"
proof -
  let ?body = "\<lambda>j. bind pmm_alloc (\<lambda>phys_addr. map_page \<lparr>ctx_pml4t = task_pml4t task, is_kernel = False\<rparr>
      ((va AND NOT 0xFFF) + 0x1000 * j) phys_addr (page_flags w))"
  let ?P = "\<lambda>j t. uload F C (4 * j) s t \<and>
      (\<forall>a. user_addr a \<longrightarrow> (if page_of va \<le> page_of a \<and> page_of a < page_of va + j then umem (mem t) C a \<noteq> None
          else umem (mem t) C a = umem (mem s) C a))"
  have "\<exists>t. for_up 0 c ?body s = (Inr (), t) \<and> ?P (unat c) t"
  proof (rule for_up_rule)
    show "?P (unat (0 :: u64)) s" using uload_refl [OF ctx] by auto
    fix j t assume j: "j < unat c" and P: "?P j t"
    then obtain K where K: "uctx F t C K" and ld: "uload F C (4 * j) s t" by (auto simp: uload_def)
    have free: "4 \<le> card (free_frames t)" using ld c(2) j by (simp add: uload_def)
    note sa = segment_page_addr [OF c(1) j]
    obtain pa u K' where u: "?body (of_nat j) t = (Inr (), u)" "ustep F C t K u K'" "uctx F u C K'"
        "card (free_frames t) \<le> card (free_frames u) + 4"
        "\<forall>a. user_addr a \<longrightarrow> mmu_walk (mem u) C a = (if page_of a = page_of va + j then Some (pa + (a AND 0xFFF)) else mmu_walk (mem t) C a)"
      using map_user_page [OF K sa(1) free page_flags_ok [of w]] unfolding task sa(2) by blast
    have "uload F C (4 * Suc j) s u" using uload_trans [OF ld ustep_uload [OF K u(2-4)]] by (simp add: add.commute)
    moreover have "if page_of va \<le> page_of a \<and> page_of a < page_of va + Suc j then umem (mem u) C a \<noteq> None
        else umem (mem u) C a = umem (mem s) C a" if a: "user_addr a" for a
    proof (cases "page_of a = page_of va + j")
      case True
      then show ?thesis using u(5) a by (simp add: umem_def)
    next
      case False
      then have "umem (mem u) C a = umem (mem t) C a" using ustep_umem [OF K u(2) a] u(5) a by simp
      then show ?thesis using P a False by (auto split: if_splits)
    qed
    ultimately show "\<exists>t'. ?body (of_nat j) t = (Inr (), t') \<and> ?P (Suc j) t'" using u(1) by auto
  qed simp
  then show ?thesis by (simp add: map_segment_def)
qed

section \<open>Segments\<close>

definition seg_pages :: "Elf64_Phdr \<Rightarrow> nat set" where
  "seg_pages p = {page_of (p_vaddr p)..(unat (p_vaddr p) + unat (p_memsz p)) div 4096}"

definition seg_ok :: "u8 list \<Rightarrow> Elf64_Phdr \<Rightarrow> bool" where
  "seg_ok img p \<longleftrightarrow>
     unat (p_vaddr p) + unat (p_memsz p) < 2 ^ 47 \<and> unat (p_filesz p) \<le> unat (p_memsz p) \<and>
     unat (p_offset p) + unat (p_filesz p) \<le> length img"

text \<open>The program sees the segment: the bytes of the file, and memory for the rest.\<close>

definition seg_shown :: "u8 list \<Rightarrow> Elf64_Phdr \<Rightarrow> (u64 \<rightharpoonup> u8) \<Rightarrow> bool" where
  "seg_shown img p U \<longleftrightarrow>
     (\<forall>k<unat (p_filesz p). U (p_vaddr p + of_nat k) = Some (img ! (unat (p_offset p) + k))) \<and>
     (\<forall>k<unat (p_memsz p). U (p_vaddr p + of_nat k) \<noteq> None)"

text \<open>Bytes in the window, off the bitmap and the temporary entry.\<close>

definition kernel_bytes :: "kframes \<Rightarrow> machine \<Rightarrow> u64 \<Rightarrow> u8 list \<Rightarrow> bool" where
  "kernel_bytes F s a bs \<longleftrightarrow>
     in_win a (length bs) \<and> pread (mem s) (a - KERNEL_BASE) (length bs) = bs \<and>
     apart (bm_base s) (unat (mem_bitmap_size s)) (a - KERNEL_BASE) (length bs) \<and>
     apart (temp_slot F) 8 (a - KERNEL_BASE) (length bs)"

lemma kernel_bytes_kept:
  assumes "kernel_bytes F s a bs" "uload F C n s t"
  shows "kernel_bytes F t a bs"
proof -
  have f: "bm_base t = bm_base s" "mem_bitmap_size t = mem_bitmap_size s"
    by (rule step_fields; use assms(2) in \<open>simp add: uload_def\<close>)+
  have "mem t (a - KERNEL_BASE + of_nat i) = mem s (a - KERNEL_BASE + of_nat i)" if i: "i < length bs" for i
  proof -
    have "unat (a - KERNEL_BASE + of_nat i) = unat (a - KERNEL_BASE) + i"
      using assms(1) i by (intro unat_add_of_nat) (simp add: kernel_bytes_def in_win_def)
    then have "unat (a - KERNEL_BASE + of_nat i) < 0x200000"
      using assms(1) i by (simp add: kernel_bytes_def in_win_def)
    then show ?thesis using assms apart_outside [OF _ i] by (simp add: kernel_bytes_def uload_def)
  qed
  then have "pread (mem t) (a - KERNEL_BASE) (length bs) = pread (mem s) (a - KERNEL_BASE) (length bs)"
    by (rule pread_cong)
  then show ?thesis using assms(1) f by (simp add: kernel_bytes_def)
qed

text \<open>A structure inside a block of bytes.\<close>

lemma kernel_bytes_part:
  assumes "kernel_bytes F s a bs" "k + n \<le> length bs"
  shows "in_win (a + of_nat k) n" "pread (mem s) (a + of_nat k - KERNEL_BASE) n = take n (drop k bs)"
proof -
  show "in_win (a + of_nat k) n" using assms by (auto simp: kernel_bytes_def intro: in_win_sub)
  have e: "a + of_nat k - KERNEL_BASE = a - KERNEL_BASE + of_nat k" by simp
  have "take n (drop k (pread (mem s) (a - KERNEL_BASE) (length bs))) = pread (mem s) (a + of_nat k - KERNEL_BASE) n"
    unfolding e using assms(2) by (intro nth_equalityI) (auto simp: pread_def add.assoc)
  then show "pread (mem s) (a + of_nat k - KERNEL_BASE) n = take n (drop k bs)"
    using assms(1) by (simp add: kernel_bytes_def)
qed

lemma phdr_reads:
  assumes k: "kwin F s" and w: "in_win a 56" and p: "p = decode_Elf64_Phdr (pread (mem s) (a - KERNEL_BASE) 56)"
  shows "load32 a s = (Inr (p_type p), s)" "load32 (a + 4) s = (Inr (p_flags p), s)"
    "load64 (a + 8) s = (Inr (p_offset p), s)" "load64 (a + 16) s = (Inr (p_vaddr p), s)"
    "load64 (a + 32) s = (Inr (p_filesz p), s)" "load64 (a + 40) s = (Inr (p_memsz p), s)"
  using window_field(2) [OF k w, of 0] window_field(2) [OF k w, of 4] window_field(3) [OF k w, of 8]
    window_field(3) [OF k w, of 16] window_field(3) [OF k w, of 32] window_field(3) [OF k w, of 40]
  by (simp_all add: p decode_Elf64_Phdr_def)

lemma seg_addr:
  assumes "seg_ok img p" "k < unat (p_memsz p)"
  shows "unat (p_vaddr p + of_nat k) = unat (p_vaddr p) + k" "user_addr (p_vaddr p + of_nat k)"
    "page_of (p_vaddr p + of_nat k) \<in> seg_pages p"
proof -
  show u: "unat (p_vaddr p + of_nat k) = unat (p_vaddr p) + k"
    using assms by (intro unat_add_of_nat) (simp add: seg_ok_def)
  show "user_addr (p_vaddr p + of_nat k)" unfolding user_addr_def u using assms by (simp add: seg_ok_def)
  show "page_of (p_vaddr p + of_nat k) \<in> seg_pages p"
    unfolding seg_pages_def u using assms(2) by (auto intro: div_le_mono)
qed

lemma seg_page_count:
  assumes "seg_ok img p"
  shows "unat (segment_pages (p_vaddr p) (p_memsz p)) = card (seg_pages p)"
    "page_of (p_vaddr p) + card (seg_pages p) \<le> 2 ^ 35"
    "a \<in> seg_pages p \<longleftrightarrow> page_of (p_vaddr p) \<le> a \<and> a < page_of (p_vaddr p) + card (seg_pages p)"
proof -
  let ?v = "unat (p_vaddr p)" and ?e = "unat (p_vaddr p) + unat (p_memsz p)"
  have le: "?v div 4096 \<le> ?e div 4096" by (simp add: div_le_mono)
  have c: "card (seg_pages p) = ?e div 4096 - ?v div 4096 + 1" using le by (simp add: seg_pages_def)
  show "unat (segment_pages (p_vaddr p) (p_memsz p)) = card (seg_pages p)"
    unfolding c by (rule segment_pages_count) (use assms in \<open>auto simp: seg_ok_def\<close>)
  have "?e div 4096 < 2 ^ 35" using assms by (simp add: seg_ok_def div_less_iff_less_mult)
  then show "page_of (p_vaddr p) + card (seg_pages p) \<le> 2 ^ 35" using le unfolding c by linarith
  show "a \<in> seg_pages p \<longleftrightarrow> page_of (p_vaddr p) \<le> a \<and> a < page_of (p_vaddr p) + card (seg_pages p)"
    using le unfolding c by (auto simp: seg_pages_def)
qed

lemma load_segment_run:
  assumes ctx: "uctx F s C L" and task: "task_pml4t task = KERNEL_BASE + C"
    and fl: "kernel_bytes F s elf img" and ph: "in_win a 56" "p = decode_Elf64_Phdr (pread (mem s) (a - KERNEL_BASE) 56)"
    and seg: "p_type p = PT_LOAD" "seg_ok img p" and free: "4 * card (seg_pages p) \<le> card (free_frames s)"
  shows "\<exists>t. load_segment task elf a s = (Inr (), t) \<and> uload F C (4 * card (seg_pages p)) s t
     \<and> seg_shown img p (umem (mem t) C)
     \<and> (\<forall>va. page_of va \<notin> seg_pages p \<longrightarrow> umem (mem t) C va = umem (mem s) C va)"
proof -
  note d = uctxD [OF ctx] and pc = seg_page_count [OF seg(2)]
  note rd = phdr_reads [OF vm_invD(3) [OF d(1)] ph]
  let ?v = "p_vaddr p" and ?n = "unat (p_filesz p)" and ?o = "p_offset p"
  have fit: "page_of ?v + unat (segment_pages ?v (p_memsz p)) \<le> 2 ^ 35"
      "4 * unat (segment_pages ?v (p_memsz p)) \<le> card (free_frames s)" using pc(1,2) free by simp_all
  obtain t where t: "map_segment task ?v (segment_pages ?v (p_memsz p)) (page_flags (ucast (p_flags p))) s = (Inr (), t)"
      "uload F C (4 * card (seg_pages p)) s t"
      "\<And>x. user_addr x \<Longrightarrow> if page_of x \<in> seg_pages p then umem (mem t) C x \<noteq> None else umem (mem t) C x = umem (mem s) C x"
    using map_segment_run [OF ctx task fit, of "ucast (p_flags p)"] unfolding pc(1) pc(3) by blast
  obtain K where K: "uctx F t C K" using t(2) by (auto simp: uload_def)
  have fl': "kernel_bytes F t elf img" by (rule kernel_bytes_kept [OF fl t(2)])
  have sz: "unat ?o + ?n \<le> length img" "?n \<le> unat (p_memsz p)" "unat ?v + ?n \<le> 2 ^ 47" using seg(2) by (auto simp: seg_ok_def)
  have win: "in_win (elf + ?o) ?n" and src: "pread (mem t) (elf + ?o - KERNEL_BASE) ?n = take ?n (drop (unat ?o) img)"
    using kernel_bytes_part [OF fl' sz(1)] by simp_all
  have mp: "mmu_walk (mem t) C (?v + of_nat i) \<noteq> None" if "i < ?n" for i
  proof -
    have i: "i < unat (p_memsz p)" using that sz(2) by simp
    have "umem (mem t) C (?v + of_nat i) \<noteq> None" using t(3) seg_addr [OF seg(2) i] by (auto split: if_splits)
    then show ?thesis by (auto simp: umem_def split: if_splits)
  qed
  have n31: "?n < 2 ^ 31" using win by (simp add: in_win_def)
  obtain u where u: "memcpy ?v (elf + ?o) (p_filesz p) t = (Inr ?v, u)" "copy_inv F t C K ?v (elf + ?o - KERNEL_BASE) ?n u"
    using memcpy_user [OF K win sz(3) n31 refl mp] by blast
  note um = copy_umem [OF K u(2) _ sz(3) mp]
  have run: "load_segment task elf a s = (Inr (), u)"
    using rd seg(1) t(1) u(1) by (simp add: load_segment_def monad)
  have ld: "uload F C (4 * card (seg_pages p)) s u"
    using uload_trans [OF t(2) copy_uload [OF K u(2) sz(3)]] by simp
  have shown: "seg_shown img p (umem (mem u) C)"
    unfolding seg_shown_def
  proof (intro conjI allI impI)
    fix k assume k: "k < ?n"
    then have km: "k < unat (p_memsz p)" using sz(2) by simp
    have "mem t (elf + ?o - KERNEL_BASE + of_nat k) = img ! (unat ?o + k)"
      using arg_cong [OF src, of "\<lambda>bs. bs ! k"] k sz(1) by simp
    then show "umem (mem u) C (?v + of_nat k) = Some (img ! (unat ?o + k))"
      using um [OF seg_addr(2) [OF seg(2) km]] k unfolding seg_addr(1) [OF seg(2) km] by simp
  next
    fix k assume k: "k < unat (p_memsz p)"
    then show "umem (mem u) C (?v + of_nat k) \<noteq> None"
      using um [OF seg_addr(2) [OF seg(2) k]] t(3) [OF seg_addr(2) [OF seg(2) k]] seg_addr(3) [OF seg(2) k]
      by (auto split: if_splits)
  qed
  have kept: "umem (mem u) C x = umem (mem s) C x" if x: "page_of x \<notin> seg_pages p" for x
  proof (cases "user_addr x")
    case True
    have "\<not> (unat ?v \<le> unat x \<and> unat x < unat ?v + ?n)"
    proof
      assume h: "unat ?v \<le> unat x \<and> unat x < unat ?v + ?n"
      then have "page_of ?v \<le> page_of x" "page_of x \<le> (unat ?v + unat (p_memsz p)) div 4096"
        using sz(2) by (auto intro: div_le_mono)
      then show False using x by (simp add: seg_pages_def)
    qed
    then show ?thesis using um [OF True] t(3) [OF True] x by auto
  qed (simp add: umem_def)
  show ?thesis using run ld shown kept by blast
qed

section \<open>The program headers\<close>

definition elf_header :: "u8 list \<Rightarrow> Elf64_Ehdr" where
  "elf_header img = decode_Elf64_Ehdr (take 64 img)"

definition phdr_at :: "u8 list \<Rightarrow> nat \<Rightarrow> Elf64_Phdr" where
  "phdr_at img i = decode_Elf64_Phdr (take 56 (drop (unat (e_phoff (elf_header img)) + 56 * i) img))"

text \<open>The loadable segments from a position on.\<close>

definition segments_from :: "u8 list \<Rightarrow> nat \<Rightarrow> Elf64_Phdr list" where
  "segments_from img i =
     filter (\<lambda>p. p_type p = PT_LOAD) (map (phdr_at img) [i..<unat (e_phnum (elf_header img))])"

abbreviation segments :: "u8 list \<Rightarrow> Elf64_Phdr list" where
  "segments img \<equiv> segments_from img 0"

definition pages_of :: "Elf64_Phdr list \<Rightarrow> nat set" where
  "pages_of ps = (\<Union>p\<in>set ps. seg_pages p)"

fun own_pages :: "Elf64_Phdr list \<Rightarrow> bool" where
  "own_pages [] = True"
| "own_pages (p # ps) = (seg_pages p \<inter> pages_of ps = {} \<and> own_pages ps)"

definition page_total :: "Elf64_Phdr list \<Rightarrow> nat" where
  "page_total ps = sum_list (map (\<lambda>p. card (seg_pages p)) ps)"

lemma seg_shown_kept:
  assumes "seg_shown img p U" "seg_ok img p" "\<And>va. page_of va \<in> seg_pages p \<Longrightarrow> U' va = U va"
  shows "seg_shown img p U'"
proof -
  have e: "U' (p_vaddr p + of_nat k) = U (p_vaddr p + of_nat k)" if "k < unat (p_memsz p)" for k
    using assms(3) seg_addr(3) [OF assms(2) that] .
  have "unat (p_filesz p) \<le> unat (p_memsz p)" using assms(2) by (simp add: seg_ok_def)
  then show ?thesis using assms(1) e by (simp add: seg_shown_def)
qed

lemma segments_step:
  assumes "i < unat (e_phnum (elf_header img))"
  shows "segments_from img i = (if p_type (phdr_at img i) = PT_LOAD then [phdr_at img i] else []) @ segments_from img (Suc i)"
  using assms by (simp add: segments_from_def upt_conv_Cons)

text \<open>The loop.\<close>

lemma ehdr_field:
  assumes "kernel_bytes F s elf img" "64 \<le> length img" "kwin F s"
  shows "load16 (elf + 56) s = (Inr (e_phnum (elf_header img)), s)" "load64 (elf + 24) s = (Inr (e_entry (elf_header img)), s)"
proof -
  have w: "in_win elf 64" "pread (mem s) (elf - KERNEL_BASE) 64 = take 64 img"
    using kernel_bytes_part [OF assms(1), of 0 64] assms(2) by simp_all
  show "load16 (elf + 56) s = (Inr (e_phnum (elf_header img)), s)" "load64 (elf + 24) s = (Inr (e_entry (elf_header img)), s)"
    using window_field(1) [OF assms(3) w(1), of 56] window_field(3) [OF assms(3) w(1), of 24] w(2)
    by (simp_all add: elf_header_def decode_Elf64_Ehdr_def)
qed

lemma load_segments_run:
  fixes img :: "u8 list"
  defines "h \<equiv> elf_header img"
  assumes task: "task_pml4t task = KERNEL_BASE + C" and len: "64 \<le> length img"
    and tab: "unat (e_phoff h) + 56 * unat (e_phnum h) \<le> length img"
  shows "uctx F s C L \<Longrightarrow> kernel_bytes F s elf img \<Longrightarrow> i \<le> unat (e_phnum h) \<Longrightarrow>
    (\<forall>p\<in>set (segments_from img i). seg_ok img p) \<Longrightarrow> own_pages (segments_from img i) \<Longrightarrow>
    4 * page_total (segments_from img i) \<le> card (free_frames s) \<Longrightarrow>
    \<exists>t. load_segments task elf (elf + e_phoff h) i s = (Inr (), t) \<and> uload F C (4 * page_total (segments_from img i)) s t
     \<and> (\<forall>p\<in>set (segments_from img i). seg_shown img p (umem (mem t) C))
     \<and> (\<forall>va. page_of va \<notin> pages_of (segments_from img i) \<longrightarrow> umem (mem t) C va = umem (mem s) C va)"
proof (induction "unat (e_phnum h) - i" arbitrary: i s L)
  case 0
  then have e: "i = unat (e_phnum h)" by simp
  note rd = ehdr_field(1) [OF 0(3) len vm_invD(3) [OF uctxD(1) [OF 0(2)]], folded h_def]
  have "load_segments task elf (elf + e_phoff h) i s = (Inr (), s)"
    using rd e by (subst load_segments.simps) simp
  moreover have "segments_from img i = []" by (simp add: segments_from_def e h_def)
  ultimately show ?case using uload_refl [OF 0(2)] by (simp add: page_total_def)
next
  case (Suc n)
  have i: "i < unat (e_phnum h)" using Suc(2) by simp
  let ?p = "phdr_at img i" and ?a = "elf + e_phoff h + 56 * of_nat i"
  let ?k = "unat (e_phoff h) + 56 * i"
  note rd = ehdr_field(1) [OF Suc(4) len vm_invD(3) [OF uctxD(1) [OF Suc(3)]], folded h_def]
  have "56 * Suc i \<le> 56 * unat (e_phnum h)" using i by (intro mult_le_mono2) simp
  then have k: "?k + 56 \<le> length img" using tab by simp
  have a: "?a = elf + of_nat ?k" by (simp add: add.assoc)
  have w: "in_win ?a 56" "?p = decode_Elf64_Phdr (pread (mem s) (?a - KERNEL_BASE) 56)"
    using kernel_bytes_part [OF Suc(4) k] unfolding a by (simp_all add: phdr_at_def h_def)
  note sg = segments_step [OF i [unfolded h_def]]
  have step: "\<exists>t. load_segment task elf ?a s = (Inr (), t) \<and> uload F C (4 * page_total (if p_type ?p = PT_LOAD then [?p] else [])) s t
      \<and> (p_type ?p = PT_LOAD \<longrightarrow> seg_shown img ?p (umem (mem t) C))
      \<and> (\<forall>va. page_of va \<notin> pages_of (if p_type ?p = PT_LOAD then [?p] else []) \<longrightarrow> umem (mem t) C va = umem (mem s) C va)"
  proof (cases "p_type ?p = PT_LOAD")
    case True
    then have "seg_ok img ?p" "4 * card (seg_pages ?p) \<le> card (free_frames s)" using Suc(6,8) sg by (auto simp: page_total_def)
    from load_segment_run [OF Suc(3) task Suc(4) w True this] True show ?thesis by (simp add: page_total_def pages_of_def)
  next
    case False
    have "load32 ?a s = (Inr (p_type ?p), s)" by (rule phdr_reads(1) [OF vm_invD(3) [OF uctxD(1) [OF Suc(3)]] w])
    then have "load_segment task elf ?a s = (Inr (), s)" using False by (simp add: load_segment_def monad)
    then show ?thesis using False uload_refl [OF Suc(3)] by (simp add: page_total_def)
  qed
  then obtain t where t: "load_segment task elf ?a s = (Inr (), t)"
      "uload F C (4 * page_total (if p_type ?p = PT_LOAD then [?p] else [])) s t"
      "p_type ?p = PT_LOAD \<Longrightarrow> seg_shown img ?p (umem (mem t) C)"
      "\<And>va. page_of va \<notin> pages_of (if p_type ?p = PT_LOAD then [?p] else []) \<Longrightarrow> umem (mem t) C va = umem (mem s) C va" by blast
  let ?ss = "segments_from img (Suc i)"
  obtain K where K: "uctx F t C K" using t(2) by (auto simp: uload_def)
  have fl: "kernel_bytes F t elf img" by (rule kernel_bytes_kept [OF Suc(4) t(2)])
  have free: "4 * page_total ?ss \<le> card (free_frames t)"
    using t(2) Suc(8) sg by (auto simp: uload_def page_total_def split: if_splits)
  have own: "own_pages ?ss" "\<forall>p\<in>set ?ss. seg_ok img p" using Suc(6,7) sg by (auto split: if_splits)
  have ih: "n = unat (e_phnum h) - Suc i" "Suc i \<le> unat (e_phnum h)" using Suc(2) i by simp_all
  obtain u where u: "load_segments task elf (elf + e_phoff h) (Suc i) t = (Inr (), u)" "uload F C (4 * page_total ?ss) t u"
      "\<forall>p\<in>set ?ss. seg_shown img p (umem (mem u) C)"
      "\<And>va. page_of va \<notin> pages_of ?ss \<Longrightarrow> umem (mem u) C va = umem (mem t) C va"
    using Suc(1) [OF ih(1) K fl ih(2) own(2,1) free] by blast
  have run: "load_segments task elf (elf + e_phoff h) i s = (Inr (), u)"
    using rd i t(1) u(1) by (subst load_segments.simps) simp
  have ld: "uload F C (4 * page_total (segments_from img i)) s u"
    using uload_trans [OF t(2) u(2)] sg by (simp add: page_total_def algebra_simps split: if_splits)
  have shown: "seg_shown img p (umem (mem u) C)" if p: "p \<in> set (segments_from img i)" for p
  proof (cases "p \<in> set ?ss")
    case False
    then have q: "p = ?p" "p_type ?p = PT_LOAD" using p sg by (auto split: if_splits)
    have "seg_pages ?p \<inter> pages_of ?ss = {}" "seg_ok img ?p" using Suc(6,7) sg q(2) by auto
    then show ?thesis using seg_shown_kept [OF t(3) [OF q(2)]] u(4) q(1) by (metis disjoint_iff)
  qed (use u(3) in blast)
  have "umem (mem u) C va = umem (mem s) C va" if va: "page_of va \<notin> pages_of (segments_from img i)" for va
    using va u(4) [of va] t(4) [of va] sg by (auto simp: pages_of_def split: if_splits)
  then show ?case using run ld shown by blast
qed


section \<open>The whole program\<close>

lemma user_stack_addr: "user_addr user_stack" "page_of user_stack = 0x700000000"
  by (simp_all add: user_addr_def user_stack_def)

text \<open>A program the loader can load: the header passes the checks, the table of program headers lies in
  the file, every segment is in order, no two segments share a page and none has the page of the stack.\<close>

definition program_ok :: "u8 list \<Rightarrow> bool" where
  "program_ok img \<longleftrightarrow>
     64 \<le> length img \<and> elf_verdict (elf_header img) = 0 \<and>
     unat (e_phoff (elf_header img)) + 56 * unat (e_phnum (elf_header img)) \<le> length img \<and>
     (\<forall>p\<in>set (segments img). seg_ok img p) \<and> own_pages (segments img) \<and>
     page_of user_stack \<notin> pages_of (segments img)"

text \<open>What the program finds: its segments and its stack, and what was there before elsewhere.\<close>

definition program_shown :: "u8 list \<Rightarrow> (u64 \<rightharpoonup> u8) \<Rightarrow> (u64 \<rightharpoonup> u8) \<Rightarrow> bool" where
  "program_shown img U U' \<longleftrightarrow>
     (\<forall>p\<in>set (segments img). seg_shown img p U') \<and>
     (\<forall>va. page_of va = page_of user_stack \<longrightarrow> U' va \<noteq> None) \<and>
     (\<forall>va. page_of va \<notin> insert (page_of user_stack) (pages_of (segments img)) \<longrightarrow> U' va = U va)"

text \<open>What comes of the jump once the stack is switched: the fault of reloading \<open>entry\<close>, or \<open>sysret\<close> to
  whatever was found there.\<close>

definition after_switch :: "u64 \<Rightarrow> machine \<Rightarrow> fault" where
  "after_switch place t =
     (case fst (load64 (user_stack - place) t) of Inl e \<Rightarrow> e | Inr v \<Rightarrow> Sysret (v AND 0xFFFFFFFF) user_stack 0)"

lemma after_switch_unmapped:
  assumes "cr3 t AND PAGE_MASK = C AND PAGE_MASK" "user_addr (user_stack - place)" "umem (mem t) C (user_stack - place) = None"
  shows "after_switch place t = PageFault (user_stack - place)"
proof -
  have "mmu_walk (mem t) C (user_stack - place) = None" using assms(2,3) by (simp add: umem_def)
  then have "mmu_walk (mem t) (cr3 t) (user_stack - place) = None" by (simp add: mmu_walk_def assms(1))
  then have "translate t (user_stack - place) = Inl (PageFault (user_stack - place))"
    using user_addr_path(3) [OF assms(2)] by (simp add: translate_def)
  then show ?thesis by (simp add: after_switch_def load64_fault)
qed

text \<open>A place in a frame of at most 64 kilobytes.\<close>

definition frame_place :: "u64 \<Rightarrow> bool" where
  "frame_place place \<longleftrightarrow> 0 < unat place \<and> unat place \<le> 0x10000"

lemma frame_place_addr:
  assumes "frame_place place"
  shows "user_addr (user_stack - place)" "page_of (user_stack - place) < 0x700000000" "0x6FFFFFFF0 \<le> page_of (user_stack - place)"
proof -
  have u: "unat (user_stack - place) = 0x700000000000 - unat place" "0 < unat place" "unat place \<le> 0x10000"
    using assms by (simp_all add: frame_place_def user_stack_def unat_sub_if_size word_size)
  then show "user_addr (user_stack - place)" by (simp add: user_addr_def)
  show "page_of (user_stack - place) < 0x700000000" unfolding u(1) by (rule less_mult_imp_div_less) (use u(2,3) in simp)
  show "0x6FFFFFFF0 \<le> page_of (user_stack - place)" unfolding u(1) using u(2,3) by (simp add: less_eq_div_iff_mult_less_eq)
qed

lemma enter_user_run:
  assumes ctx: "uctx F s C L" and task: "task_pml4t task = KERNEL_BASE + C" and free: "4 \<le> card (free_frames s)"
  shows "\<exists>t. enter_user place task s = (Inl (after_switch place t), t) \<and> uload F C 4 s t
     \<and> (\<forall>va. if page_of va = page_of user_stack then umem (mem t) C va \<noteq> None else umem (mem t) C va = umem (mem s) C va)"
proof -
  obtain pa t L' where t: "bind pmm_alloc (\<lambda>pa. map_page \<lparr>ctx_pml4t = KERNEL_BASE + C, is_kernel = False\<rparr> user_stack pa 7) s = (Inr (), t)"
      "ustep F C s L t L'" "uctx F t C L'" "card (free_frames s) \<le> card (free_frames t) + 4"
      "\<And>va. user_addr va \<Longrightarrow> mmu_walk (mem t) C va =
          (if page_of va = page_of user_stack then Some (pa + (va AND 0xFFF)) else mmu_walk (mem s) C va)"
    using map_user_page [OF ctx user_stack_addr(1) free, of 7] by auto
  have run: "enter_user place task s = (Inl (after_switch place t), t)"
  proof -
    have "enter_user place task s = bind (load64 (user_stack - place)) (\<lambda>v. raise (Sysret (v AND 0xFFFFFFFF) user_stack 0)) t"
      using t(1) by (auto simp: enter_user_def task monad split: prod.splits sum.splits)
    then show ?thesis using load64_state [of "user_stack - place" t]
      by (auto simp: after_switch_def monad split: prod.splits sum.splits)
  qed
  have "if page_of va = page_of user_stack then umem (mem t) C va \<noteq> None else umem (mem t) C va = umem (mem s) C va" for va
  proof (cases "user_addr va")
    case True
    then show ?thesis using t(5) [OF True] ustep_umem [OF ctx t(2) True] by (auto simp: umem_def)
  next
    case False
    then have "page_of va \<noteq> page_of user_stack" by (auto simp: user_addr_def user_stack_addr)
    then show ?thesis using False by (simp add: umem_def)
  qed
  then show ?thesis using run ustep_uload [OF ctx t(2-4)] by blast
qed

lemma load_elf_run:
  assumes ctx: "uctx F s C L" and task: "task_pml4t task = KERNEL_BASE + C"
    and fl: "kernel_bytes F s elf img" and ok: "program_ok img"
    and free: "4 * (page_total (segments img) + 1) \<le> card (free_frames s)"
  shows "\<exists>t. load_elf place task elf s = (Inl (after_switch place t), t)
     \<and> uload F C (4 * (page_total (segments img) + 1)) s t
     \<and> program_shown img (umem (mem s) C) (umem (mem t) C)"
proof -
  note o = ok [unfolded program_ok_def]
  let ?h = "elf_header img"
  have k: "kwin F s" by (rule vm_invD(3) [OF uctxD(1) [OF ctx]])
  have w: "in_win elf 64" "elf_header img = decode_Elf64_Ehdr (pread (mem s) (elf - KERNEL_BASE) 64)"
    using kernel_bytes_part [OF fl, of 0 64] o by (simp_all add: elf_header_def)
  have start: "load_elf place task elf s =
       andthen (load_segments task elf (elf + e_phoff ?h) 0) (andthen (load64 (elf + 24)) (enter_user place task)) s"
    by (rule load_elf_rejects_run(2) [OF k w]) (use o in blast)
  obtain t where t: "load_segments task elf (elf + e_phoff ?h) 0 s = (Inr (), t)" "uload F C (4 * page_total (segments img)) s t"
      "\<forall>p\<in>set (segments img). seg_shown img p (umem (mem t) C)"
      "\<And>va. page_of va \<notin> pages_of (segments img) \<Longrightarrow> umem (mem t) C va = umem (mem s) C va"
    using load_segments_run [OF task _ _ ctx fl, of 0] o free by auto
  obtain K where K: "uctx F t C K" using t(2) by (auto simp: uload_def)
  note fl' = kernel_bytes_kept [OF fl t(2)]
  have fr: "4 \<le> card (free_frames t)" using t(2) free by (simp add: uload_def)
  obtain u where u: "enter_user place task t = (Inl (after_switch place u), u)" "uload F C 4 t u"
      "\<And>va. if page_of va = page_of user_stack then umem (mem u) C va \<noteq> None else umem (mem u) C va = umem (mem t) C va"
    using enter_user_run [OF K task fr] by blast
  have "load_elf place task elf s = (Inl (after_switch place u), u)"
    using start t(1) u(1) ehdr_field(2) [OF fl' _ vm_invD(3) [OF uctxD(1) [OF K]]] o by (simp add: monad)
  moreover have "uload F C (4 * (page_total (segments img) + 1)) s u"
    using uload_trans [OF t(2) u(2)] by (simp add: add.commute)
  moreover have "seg_shown img p (umem (mem u) C)" if p: "p \<in> set (segments img)" for p
  proof (rule seg_shown_kept)
    show "seg_shown img p (umem (mem t) C)" "seg_ok img p" using t(3) o p by blast+
    fix va assume "page_of va \<in> seg_pages p"
    then have "page_of va \<noteq> page_of user_stack" using o p by (auto simp: pages_of_def)
    then show "umem (mem u) C va = umem (mem t) C va" using u(3) [of va] by simp
  qed
  moreover have "umem (mem u) C va = umem (mem s) C va"
    if "page_of va \<noteq> page_of user_stack" "page_of va \<notin> pages_of (segments img)" for va
    using that t(4) [of va] u(3) [of va] by simp
  moreover have "umem (mem u) C va \<noteq> None" if "page_of va = page_of user_stack" for va using that u(3) [of va] by simp
  ultimately show ?thesis unfolding program_shown_def by blast
qed

end
