(* ===== verification/Pmm_Init.thy ===== *)
theory Pmm_Init
  imports Pmm
begin

text \<open>
  The start of the physical memory manager: after \<open>pmm_init\<close> the bitmap holds exactly the
  frames of the usable ranges of the firmware's memory map as free, less the first two mebibytes.
\<close>

section \<open>The memory map\<close>

text \<open>Entry number \<open>i\<close> of the map at physical address \<open>p\<close>.\<close>

definition mmap_entry :: "pmem \<Rightarrow> u64 \<Rightarrow> nat \<Rightarrow> bios_mmap_entry" where
  "mmap_entry m p i =
     (let a = p + 24 * of_nat i in
      \<lparr>base_addr = pread64 m a, len = pread64 m (a + 8), mtype = le_word (pread m (a + 16) 4),
       acpi_ext = le_word (pread m (a + 20) 4)\<rparr>)"

abbreviation range_end :: "bios_mmap_entry \<Rightarrow> u64" where
  "range_end e \<equiv> base_addr e + len e"

primrec last_end :: "pmem \<Rightarrow> u64 \<Rightarrow> nat \<Rightarrow> u64" where
  "last_end m p 0 = 0"
| "last_end m p (Suc i) =
     (let e = mmap_entry m p i in
      if mtype e = 1 \<and> last_end m p i < range_end e then range_end e else last_end m p i)"

text \<open>The frames a range covers, its first and its last frame rounded up.\<close>

definition covers :: "bios_mmap_entry \<Rightarrow> nat \<Rightarrow> bool" where
  "covers e i \<longleftrightarrow> mtype e = 1 \<and>
     (unat (base_addr e) + 4095) div 4096 \<le> i \<and> i < (unat (base_addr e) + unat (len e) + 4095) div 4096"

lemma last_end_max: "k < n \<Longrightarrow> mtype (mmap_entry m p k) = 1 \<Longrightarrow> range_end (mmap_entry m p k) \<le> last_end m p n"
  by (induction n) (fastforce simp: Let_def less_Suc_eq)+

lemma entry_loads:
  assumes "kwin F s" "in_win mmap (24 * n)" "i < n"
  defines "e \<equiv> mmap_entry (mem s) (mmap - KERNEL_BASE) i"
  shows "load32 (mmap + 24 * of_nat i + 16) s = (Inr (mtype e), s)"
    "load64 (mmap + 24 * of_nat i) s = (Inr (base_addr e), s)"
    "load64 (mmap + 24 * of_nat i + 8) s = (Inr (len e), s)"
proof -
  have w: "in_win (mmap + of_nat (24 * i + j)) k" if "j + k \<le> 24" for j k
    by (rule in_win_sub [OF assms(2)]) (use assms(3) that in linarith)
  show "load32 (mmap + 24 * of_nat i + 16) s = (Inr (mtype e), s)"
    using kwin_load [OF assms(1) w [of 16 4]]
    by (simp add: load32_def monad e_def mmap_entry_def Let_def algebra_simps)
  show "load64 (mmap + 24 * of_nat i) s = (Inr (base_addr e), s)"
    using kwin_load64 [OF assms(1) w [of 0 8]] by (simp add: e_def mmap_entry_def Let_def algebra_simps)
  show "load64 (mmap + 24 * of_nat i + 8) s = (Inr (len e), s)"
    using kwin_load64 [OF assms(1) w [of 8 8]]
    by (simp add: e_def mmap_entry_def Let_def algebra_simps)
qed

lemma mmap_scan_run:
  assumes "kwin F s" "in_win mmap (24 * unat n)"
  shows "\<exists>u. for_acc 0 n (mmap_scan mmap) (0, 0) s
     = (Inr (last_end (mem s) (mmap - KERNEL_BASE) (unat n), u), s)"
proof -
  let ?P = "\<lambda>j (x :: u64 \<times> u64) t. t = s \<and> fst x = last_end (mem s) (mmap - KERNEL_BASE) j"
  have "\<exists>y t. for_acc 0 n (mmap_scan mmap) (0, 0) s = (Inr y, t) \<and> ?P (unat n) y t"
  proof (rule for_acc_rule)
    fix j x t assume "j < unat n" "?P j x t"
    then show "\<exists>y t'. mmap_scan mmap (of_nat j) x t = (Inr y, t') \<and> ?P (Suc j) y t'"
      using entry_loads [OF assms, of j] by (cases x) (auto simp: mmap_scan_def monad Let_def)
  qed auto
  then show ?thesis by auto
qed

section \<open>Runs of bits\<close>

text \<open>The state with the bits of a set of frames, all else as before.\<close>

definition bits_state :: "kframes \<Rightarrow> machine \<Rightarrow> (nat \<Rightarrow> bool) \<Rightarrow> machine \<Rightarrow> bool" where
  "bits_state F s Q t \<longleftrightarrow>
     t = s\<lparr>mem := mem t\<rparr> \<and> bitmap_ok F t \<and>
     (\<forall>i < 8 * unat (mem_bitmap_size s). frame_bit (mem t) (bm_base s) i \<longleftrightarrow> Q i) \<and>
     (\<forall>x. unat (mem_bitmap_size s) \<le> unat (x - bm_base s) \<longrightarrow> mem t x = mem s x)"

lemma bits_state_fields:
  assumes "bits_state F s Q t"
  shows "bm_base t = bm_base s" "mem_bitmap_size t = mem_bitmap_size s"
    "mem_bitmap_bit_size t = mem_bitmap_bit_size s" "kwin F t" "cr3 t = cr3 s" "pml4t t = pml4t s"
proof -
  have t: "t = s\<lparr>mem := mem t\<rparr>" using assms by (simp add: bits_state_def)
  show "bm_base t = bm_base s" "mem_bitmap_size t = mem_bitmap_size s"
    "mem_bitmap_bit_size t = mem_bitmap_bit_size s" "cr3 t = cr3 s" "pml4t t = pml4t s"
    by (subst t, simp add: bm_base_def)+
  show "kwin F t" using assms by (simp add: bits_state_def bitmap_ok_def)
qed

lemma bits_state_upd:
  assumes "bits_state F s Q t" "i < 8 * unat (mem_bitmap_size s)"
  shows "bitmap_clear (of_nat i) t = (Inr (), t\<lparr>mem := clear_frame (mem t) (bm_base s) i\<rparr>)"
    "bits_state F s (\<lambda>j. Q j \<and> j \<noteq> i) (t\<lparr>mem := clear_frame (mem t) (bm_base s) i\<rparr>)"
    "bitmap_mark (of_nat i) t = (Inr (), t\<lparr>mem := set_frame (mem t) (bm_base s) i\<rparr>)"
    "bits_state F s (\<lambda>j. Q j \<or> j = i) (t\<lparr>mem := set_frame (mem t) (bm_base s) i\<rparr>)"
proof -
  note fd = bits_state_fields [OF assms(1)]
  have ok: "bitmap_ok F t" and t: "t = s\<lparr>mem := mem t\<rparr>" using assms(1) by (auto simp: bits_state_def)
  have i: "i < 8 * unat (mem_bitmap_size t)" using assms(2) fd by simp
  show "bitmap_clear (of_nat i) t = (Inr (), t\<lparr>mem := clear_frame (mem t) (bm_base s) i\<rparr>)"
    "bitmap_mark (of_nat i) t = (Inr (), t\<lparr>mem := set_frame (mem t) (bm_base s) i\<rparr>)"
    using bitmap_clear_run [OF ok i] bitmap_mark_run [OF ok i] fd by simp_all
  have b: "8 * unat (mem_bitmap_size s) \<le> 2 ^ 64" using bitmap_ok_bound(1) [OF ok] fd by simp
  have form: "t\<lparr>mem := m\<rparr> = s\<lparr>mem := m\<rparr>" for m by (subst t) simp
  note out = set_frame_outside
  show "bits_state F s (\<lambda>j. Q j \<and> j \<noteq> i) (t\<lparr>mem := clear_frame (mem t) (bm_base s) i\<rparr>)"
    "bits_state F s (\<lambda>j. Q j \<or> j = i) (t\<lparr>mem := set_frame (mem t) (bm_base s) i\<rparr>)"
    using assms b bitmap_ok_frames [OF ok i] fd frame_bit_clear_frame [of i] frame_bit_set_frame [of i]
      out [OF assms(2)]
    by (auto simp: bits_state_def form)
qed

lemma clear_range:
  assumes "bits_state F s Q t" "unat b \<le> 8 * unat (mem_bitmap_size s)"
  shows "\<exists>t'. for_up a b bitmap_clear t = (Inr (), t')
     \<and> bits_state F s (\<lambda>i. Q i \<and> \<not> (unat a \<le> i \<and> i < unat b)) t'"
proof (cases "unat a \<le> unat b")
  case True
  let ?P = "\<lambda>j. bits_state F s (\<lambda>i. Q i \<and> \<not> (unat a \<le> i \<and> i < j))"
  show ?thesis
  proof (rule for_up_rule [OF _ True, of ?P])
    show "?P (unat a) t" using assms(1) by (simp add: bits_state_def)
    fix j u assume j: "unat a \<le> j" "j < unat b" and P: "?P j u"
    have "j < 8 * unat (mem_bitmap_size s)" using j assms(2) by simp
    note u = bits_state_upd(1,2) [OF P this]
    have "(\<lambda>i. (Q i \<and> \<not> (unat a \<le> i \<and> i < j)) \<and> i \<noteq> j) = (\<lambda>i. Q i \<and> \<not> (unat a \<le> i \<and> i < Suc j))"
      using j by (auto simp: fun_eq_iff less_Suc_eq)
    with u show "\<exists>t'. bitmap_clear (of_nat j) u = (Inr (), t') \<and> ?P (Suc j) t'" by metis
  qed
next
  case False
  then show ?thesis
    using assms(1) by (auto simp: for_up_def for_acc_done word_less_nat_alt bits_state_def)
qed

lemma mark_range:
  assumes "bits_state F s Q t" "unat b \<le> 8 * unat (mem_bitmap_size s)"
  shows "\<exists>t'. for_up 0 b bitmap_mark t = (Inr (), t') \<and> bits_state F s (\<lambda>i. Q i \<or> i < unat b) t'"
proof -
  let ?P = "\<lambda>j. bits_state F s (\<lambda>i. Q i \<or> i < j)"
  show ?thesis
  proof (rule for_up_rule [of ?P])
    show "?P (unat (0 :: u64)) t" using assms(1) by simp
    fix j u assume j: "j < unat b" and P: "?P j u"
    have "j < 8 * unat (mem_bitmap_size s)" using j assms(2) by simp
    note u = bits_state_upd(3,4) [OF P this]
    have "(\<lambda>i. (Q i \<or> i < j) \<or> i = j) = (\<lambda>i. Q i \<or> i < Suc j)" by (auto simp: fun_eq_iff)
    with u show "\<exists>t'. bitmap_mark (of_nat j) u = (Inr (), t') \<and> ?P (Suc j) t'" by metis
  qed simp
qed

text \<open>The entries of the map are read again while the bitmap changes.\<close>

lemma mmap_entry_kept:
  assumes "bits_state F s Q t" "apart (bm_base s) (unat (mem_bitmap_size s)) p (24 * n)" "i < n"
  shows "mmap_entry (mem t) p i = mmap_entry (mem s) p i"
proof -
  have b: "mem t (p + of_nat (24 * i + j)) = mem s (p + of_nat (24 * i + j))" if "j < 24" for j
    using assms(1) apart_outside [OF assms(2), of "24 * i + j"] assms(3) that
    by (auto simp: bits_state_def)
  have r: "pread (mem t) (p + 24 * of_nat i + of_nat j) k = pread (mem s) (p + 24 * of_nat i + of_nat j) k"
    if "j + k \<le> 24" for j k
  proof (rule pread_cong)
    fix l assume "l < k"
    then show "mem t (p + 24 * of_nat i + of_nat j + of_nat l) = mem s (p + 24 * of_nat i + of_nat j + of_nat l)"
      using b [of "j + l"] that by (simp add: algebra_simps)
  qed
  show ?thesis
    using r [of 0 8] r [of 8 8] r [of 16 4] r [of 20 4]
    by (simp add: mmap_entry_def Let_def pread64_def)
qed

lemma round_up:
  assumes "unat a + 4095 < 2 ^ 64"
  shows "unat ((a + PAGE_SIZE - 1) div PAGE_SIZE) = (unat a + 4095) div 4096"
proof -
  have e: "a + PAGE_SIZE - 1 = a + of_nat 4095" by (simp add: kconst)
  have "unat (a + PAGE_SIZE - 1) = unat a + 4095" unfolding e by (rule unat_add_of_nat [OF assms])
  moreover have "unat PAGE_SIZE = 4096" by (simp add: PAGE_SIZE_def)
  ultimately show ?thesis by (simp only: unat_div_distrib)
qed

section \<open>The start\<close>

text \<open>What the start needs: a memory map in the window whose usable ranges do not wrap around and
  reach beyond two mebibytes, and room in the bootstrap pool for the bitmap, apart from the tables
  and from the map.\<close>

definition map_pages :: "pmem \<Rightarrow> u64 \<Rightarrow> nat \<Rightarrow> nat" where
  "map_pages m p n = (unat (last_end m p n) + 4095) div 4096"

definition map_bytes :: "pmem \<Rightarrow> u64 \<Rightarrow> nat \<Rightarrow> nat" where
  "map_bytes m p n = (map_pages m p n + 7) div 8"

definition init_ok :: "kframes \<Rightarrow> machine \<Rightarrow> u64 \<Rightarrow> nat \<Rightarrow> bool" where
  "init_ok F s mmap n \<longleftrightarrow>
     (let p = mmap - KERNEL_BASE; B = map_bytes (mem s) p n; b = next_free s - KERNEL_BASE in
      kwin F s \<and> in_win mmap (24 * n) \<and>
      (\<forall>i<n. mtype (mmap_entry (mem s) p i) = 1 \<longrightarrow>
         unat (base_addr (mmap_entry (mem s) p i)) + unat (len (mmap_entry (mem s) p i)) + 4095 < 2 ^ 64) \<and>
      512 \<le> map_pages (mem s) p n \<and>
      unat b + (B + 4095) div 4096 * 4096 < 0x1FF000 \<and>
      off_tables F b B \<and> apart b B p (24 * n))"

lemma mmap_release_run:
  assumes bs: "bits_state F s Q t" and win: "in_win mmap (24 * n)" and i: "i < n"
    and ap: "apart (bm_base s) (unat (mem_bitmap_size s)) (mmap - KERNEL_BASE) (24 * n)"
  defines "e \<equiv> mmap_entry (mem s) (mmap - KERNEL_BASE) i"
  assumes wf: "mtype e = 1 \<Longrightarrow> unat (base_addr e) + unat (len e) + 4095 < 2 ^ 64"
    and L: "mtype e = 1 \<Longrightarrow> range_end e \<le> L"
    and size: "(unat L + 4095) div 4096 \<le> 8 * unat (mem_bitmap_size s)"
  shows "\<exists>t'. mmap_release mmap L (of_nat i) t = (Inr (), t') \<and> bits_state F s (\<lambda>j. Q j \<and> \<not> covers e j) t'"
proof -
  have e: "mmap_entry (mem t) (mmap - KERNEL_BASE) i = e"
    unfolding e_def by (rule mmap_entry_kept [OF bs ap i])
  note ld = entry_loads [OF bits_state_fields(4) [OF bs] win i, unfolded e]
  show ?thesis
  proof (cases "mtype e = 1")
    case False
    then show ?thesis using ld(1) bs by (auto simp: mmap_release_def monad Let_def covers_def)
  next
    case True
    have u: "unat (range_end e) = unat (base_addr e) + unat (len e)"
      using wf [OF True] by (intro unat_add_nowrap) simp
    have "\<not> L < base_addr e" using L [OF True] u by (simp add: word_le_nat_alt word_less_nat_alt)
    moreover have r: "unat ((base_addr e + PAGE_SIZE - 1) div PAGE_SIZE) = (unat (base_addr e) + 4095) div 4096"
      "unat ((range_end e + PAGE_SIZE - 1) div PAGE_SIZE) = (unat (base_addr e) + unat (len e) + 4095) div 4096"
      using wf [OF True] u by (simp_all add: round_up)
    moreover have "(unat (base_addr e) + unat (len e) + 4095) div 4096 \<le> 8 * unat (mem_bitmap_size s)"
      using L [OF True] u size by (intro order_trans [OF div_le_mono size]) (simp add: word_le_nat_alt)
    ultimately show ?thesis
      using ld True clear_range [OF bs, of "(range_end e + PAGE_SIZE - 1) div PAGE_SIZE" "(base_addr e + PAGE_SIZE - 1) div PAGE_SIZE"]
      by (simp add: mmap_release_def monad Let_def covers_def)
  qed
qed

lemma alloc_page_run:
  assumes "unat (next_free s - KERNEL_BASE) + 4096 < 0x1FF000"
  shows "alloc_page s = (Inr (next_free s), s\<lparr>next_free := next_free s + PAGE_SIZE\<rparr>)"
proof -
  have "next_free s + PAGE_SIZE = KERNEL_BASE + of_nat (unat (next_free s - KERNEL_BASE) + 4096)"
    by (simp add: PAGE_SIZE_def)
  then have "unat (next_free s + PAGE_SIZE) = 0xFFFFFFFF80000000 + (unat (next_free s - KERNEL_BASE) + 4096)"
    using unat_kernel_addr assms by (simp del: of_nat_add)
  then show ?thesis using assms by (simp add: alloc_page_def word_le_nat_alt) (simp add: POOL_END_def)
qed

lemma alloc_pages_run:
  assumes "unat (next_free s - KERNEL_BASE) + unat n * 4096 < 0x1FF000"
  shows "for_up 0 n (\<lambda>_. andthen alloc_page (ret ())) s
     = (Inr (), s\<lparr>next_free := next_free s + of_nat (unat n * 4096)\<rparr>)"
proof -
  let ?P = "\<lambda>j t. t = s\<lparr>next_free := next_free s + of_nat (j * 4096)\<rparr>"
  have "\<exists>t. for_up 0 n (\<lambda>_. andthen alloc_page (ret ())) s = (Inr (), t) \<and> ?P (unat n) t"
  proof (rule for_up_rule)
    fix j t assume j: "j < unat n" and t: "?P j t"
    have "unat (next_free s - KERNEL_BASE + of_nat (j * 4096)) = unat (next_free s - KERNEL_BASE) + j * 4096"
      by (rule unat_add_of_nat) (use assms j in simp)
    moreover have "next_free t - KERNEL_BASE = next_free s - KERNEL_BASE + of_nat (j * 4096)" by (simp add: t)
    ultimately have "unat (next_free t - KERNEL_BASE) = unat (next_free s - KERNEL_BASE) + j * 4096"
      by (simp only:)
    moreover have "j * 4096 + 4096 \<le> unat n * 4096" using j by simp
    ultimately have "unat (next_free t - KERNEL_BASE) + 4096 < 0x1FF000" using assms by linarith
    from alloc_page_run [OF this] show "\<exists>t'. andthen alloc_page (ret ()) t = (Inr (), t') \<and> ?P (Suc j) t'"
      unfolding t by (simp add: monad kconst algebra_simps)
  qed auto
  then show ?thesis by simp
qed

lemma last_end_bound:
  assumes "\<And>i. i < n \<Longrightarrow> mtype (mmap_entry m p i) = 1 \<Longrightarrow>
     unat (base_addr (mmap_entry m p i)) + unat (len (mmap_entry m p i)) + 4095 < 2 ^ 64"
  shows "unat (last_end m p n) + 4095 < 2 ^ 64"
  using assms
proof (induction n)
  case (Suc n)
  let ?e = "mmap_entry m p n"
  have "unat (range_end ?e) + 4095 < 2 ^ 64" if "mtype ?e = 1"
    using Suc(2) [OF lessI that] unat_add_nowrap [of "base_addr ?e" "len ?e"] by simp
  then show ?case using Suc by (simp add: Let_def)
qed simp

text \<open>Filling the bitmap, releasing the usable ranges and marking the kernel's frames.\<close>

lemma filled_bits:
  assumes "i < 8 * B" "B \<le> 2 ^ 61"
  shows "frame_bit (pwrite m p (replicate B 0xFF)) p i"
proof -
  have "i div 8 < B" using assms(1) by (simp add: less_mult_imp_div_less mult.commute)
  then have "unat (of_nat (i div 8) :: u64) = i div 8" using assms(2) by simp
  moreover have "bit (0xFF :: u8) (i mod 8)"
  proof -
    have "(0xFF :: u8) = - 1" by simp
    then show ?thesis by (simp only: bit_minus_1_iff) simp
  qed
  ultimately show ?thesis using \<open>i div 8 < B\<close> by (simp add: frame_bit_def pwrite_def)
qed

lemma bitmap_fill:
  assumes "kwin F s" "in_win (mem_bitmap s) (unat (mem_bitmap_size s))"
    "off_tables F (bm_base s) (unat (mem_bitmap_size s))"
    "unat (mem_bitmap_bit_size s) \<le> 8 * unat (mem_bitmap_size s)"
  shows "\<exists>t. memset (mem_bitmap s) 0xFF (mem_bitmap_size s) s = (Inr (mem_bitmap s), t)
     \<and> bits_state F s (\<lambda>_. True) t"
proof -
  let ?B = "unat (mem_bitmap_size s)"
  let ?t = "s\<lparr>mem := pwrite (mem s) (bm_base s) (replicate ?B 0xFF)\<rparr>"
  have "memset (mem_bitmap s) 0xFF (mem_bitmap_size s) s = (Inr (mem_bitmap s), ?t)"
    using kwin_memset [OF assms(1,2)] assms(3) by (simp add: bm_base_def)
  moreover have "kwin F ?t" using kmap_pwrite [OF assms(1), of "bm_base s" "replicate ?B 0xFF"] assms(3) by simp
  moreover have "?B \<le> 2 ^ 61" using assms(2) by (simp add: in_win_def)
  ultimately show ?thesis
    using assms(2-4) filled_bits [of _ ?B]
    by (intro exI [of _ ?t]) (simp add: bits_state_def bitmap_ok_def bm_base_def pwrite_outside)
qed

lemma bitmap_fill_release:
  assumes bs: "bits_state F s (\<lambda>_. True) t" and win: "in_win mmap (24 * unat n)"
    and ap: "apart (bm_base s) (unat (mem_bitmap_size s)) (mmap - KERNEL_BASE) (24 * unat n)"
  defines "e \<equiv> mmap_entry (mem s) (mmap - KERNEL_BASE)" and "L \<equiv> last_end (mem s) (mmap - KERNEL_BASE) (unat n)"
  assumes wf: "\<And>i. i < unat n \<Longrightarrow> mtype (e i) = 1 \<Longrightarrow> unat (base_addr (e i)) + unat (len (e i)) + 4095 < 2 ^ 64"
    and size: "(unat L + 4095) div 4096 \<le> 8 * unat (mem_bitmap_size s)"
  shows "\<exists>t'. for_up 0 n (mmap_release mmap L) t = (Inr (), t')
     \<and> bits_state F s (\<lambda>i. \<forall>k<unat n. \<not> covers (e k) i) t'"
proof (rule for_up_rule [of "\<lambda>j. bits_state F s (\<lambda>i. \<forall>k<j. \<not> covers (e k) i)"])
  show "bits_state F s (\<lambda>i. \<forall>k<unat (0 :: u64). \<not> covers (e k) i) t" using bs by simp
  fix j u assume j: "j < unat n" and P: "bits_state F s (\<lambda>i. \<forall>k<j. \<not> covers (e k) i) u"
  have "range_end (e j) \<le> L" if "mtype (e j) = 1"
    unfolding e_def L_def by (rule last_end_max [OF j]) (use that in \<open>simp add: e_def\<close>)
  with mmap_release_run [OF P win j ap, folded e_def, OF wf [OF j] _ size]
  obtain u' where "mmap_release mmap L (of_nat j) u = (Inr (), u')"
    "bits_state F s (\<lambda>i. (\<forall>k<j. \<not> covers (e k) i) \<and> \<not> covers (e j) i) u'" by blast
  moreover have "(\<lambda>i. (\<forall>k<j. \<not> covers (e k) i) \<and> \<not> covers (e j) i) = (\<lambda>i. \<forall>k<Suc j. \<not> covers (e k) i)"
    by (auto simp: fun_eq_iff less_Suc_eq)
  ultimately show "\<exists>t'. mmap_release mmap L (of_nat j) u = (Inr (), t')
      \<and> bits_state F s (\<lambda>i. \<forall>k<Suc j. \<not> covers (e k) i) t'" by auto
qed simp

text \<open>The sizes the code computes do not wrap around.\<close>

lemma init_sizes:
  fixes L :: u64
  assumes L: "unat L + 4095 < 2 ^ 64" and h: "512 \<le> N"
    and N: "N = (unat L + 4095) div 4096" and B: "B = (N + 7) div 8" and G: "G = (B + 4095) div 4096"
  shows "N \<le> 8 * B" "B \<le> G * 4096" "1 \<le> G" "64 \<le> B"
    and "unat (of_nat N :: u64) = N" "unat (of_nat B :: u64) = B" "unat (of_nat (G - 1) :: u64) = G - 1"
    and "(L + PAGE_SIZE - 1) div PAGE_SIZE = of_nat N" "(of_nat N + 7) div 8 = (of_nat B :: u64)"
    and "(of_nat B + PAGE_SIZE - 1) div PAGE_SIZE = (of_nat G :: u64)" "of_nat G - 1 = (of_nat (G - 1) :: u64)"
proof -
  have n: "N < 2 ^ 53" using L unfolding N by (simp add: less_mult_imp_div_less)
  have le: "64 \<le> B" "N \<le> 8 * B" "B \<le> G * 4096" "1 \<le> G" "B < 2 ^ 53" "G < 2 ^ 53"
    using h n unfolding B G by linarith+
  then show "N \<le> 8 * B" "B \<le> G * 4096" "1 \<le> G" "64 \<le> B" by auto
  show u: "unat (of_nat N :: u64) = N" "unat (of_nat B :: u64) = B" "unat (of_nat (G - 1) :: u64) = G - 1"
    by (rule unat_of_nat64; use n le in simp)+
  have uG: "unat (of_nat G :: u64) = G" by (rule unat_of_nat64) (use le in simp)
  show "(L + PAGE_SIZE - 1) div PAGE_SIZE = of_nat N"
    unfolding word_unat_eq_iff u using round_up [OF L] by (simp only: N)
  have "of_nat N + 7 = (of_nat (N + 7) :: u64)" by simp
  then have "unat (of_nat N + 7 :: u64) = N + 7" using n by (simp del: of_nat_add)
  then show "(of_nat N + 7) div 8 = (of_nat B :: u64)"
    unfolding word_unat_eq_iff u by (simp add: unat_div_distrib B)
  show "(of_nat B + PAGE_SIZE - 1) div PAGE_SIZE = (of_nat G :: u64)"
    unfolding word_unat_eq_iff uG using round_up [of "of_nat B"] le(5) u(2) G by simp
  show "of_nat G - 1 = (of_nat (G - 1) :: u64)" using le(4) by (simp add: of_nat_diff)
qed

lemma init_pages:
  assumes "unat (next_free s - KERNEL_BASE) + G * 4096 < 0x1FF000" "1 \<le> G"
  shows "alloc_page s = (Inr (next_free s), s\<lparr>next_free := next_free s + PAGE_SIZE\<rparr>)"
    and "for_up 0 (of_nat (G - 1)) (\<lambda>_. andthen alloc_page (ret ())) (s\<lparr>next_free := next_free s + PAGE_SIZE\<rparr>)
       = (Inr (), s\<lparr>next_free := next_free s + of_nat (G * 4096)\<rparr>)"
proof -
  let ?b = "next_free s - KERNEL_BASE" and ?s = "s\<lparr>next_free := next_free s + PAGE_SIZE\<rparr>"
  show "alloc_page s = (Inr (next_free s), ?s)" by (rule alloc_page_run) (use assms in linarith)
  have u: "unat (?b + of_nat 4096) = unat ?b + 4096" by (rule unat_add_of_nat) (use assms in simp)
  have g: "unat (of_nat (G - 1) :: u64) = G - 1" by (rule unat_of_nat64) (use assms in simp)
  have nf: "next_free ?s - KERNEL_BASE = ?b + of_nat 4096" by (simp add: PAGE_SIZE_def)
  have "unat (next_free ?s - KERNEL_BASE) + unat (of_nat (G - 1) :: u64) * 4096 < 0x1FF000"
    unfolding nf u g using assms by (simp add: algebra_simps)
  from alloc_pages_run [OF this]
  show "for_up 0 (of_nat (G - 1)) (\<lambda>_. andthen alloc_page (ret ())) ?s
      = (Inr (), s\<lparr>next_free := next_free s + of_nat (G * 4096)\<rparr>)"
    unfolding g using assms(2) by (simp add: PAGE_SIZE_def of_nat_diff algebra_simps)
qed

lemma pmm_init_run:
  assumes ok: "init_ok F s mmap (unat n)"
  defines "p \<equiv> mmap - KERNEL_BASE"
  defines "N \<equiv> map_pages (mem s) p (unat n)" and "B \<equiv> map_bytes (mem s) p (unat n)"
  defines "s1 \<equiv> s\<lparr>mem_bitmap_size := of_nat B, mem_bitmap_bit_size := of_nat N, mem_bitmap := next_free s,
       next_free := next_free s + of_nat ((B + 4095) div 4096 * 4096)\<rparr>"
  shows "\<exists>t. pmm_init mmap n s = (Inr (), t)
     \<and> bits_state F s1 (\<lambda>i. i < 512 \<or> (\<forall>k<unat n. \<not> covers (mmap_entry (mem s) p k) i)) t"
proof -
  let ?L = "last_end (mem s) p (unat n)"
  let ?b = "next_free s - KERNEL_BASE" and ?G = "(B + 4095) div 4096"
  have h: "kwin F s" "in_win mmap (24 * unat n)" "512 \<le> N"
    "\<And>i. i < unat n \<Longrightarrow> mtype (mmap_entry (mem s) p i) = 1 \<Longrightarrow>
       unat (base_addr (mmap_entry (mem s) p i)) + unat (len (mmap_entry (mem s) p i)) + 4095 < 2 ^ 64"
    "unat ?b + ?G * 4096 < 0x1FF000" "off_tables F ?b B" "apart ?b B p (24 * unat n)"
    using ok by (auto simp: init_ok_def Let_def p_def N_def B_def)
  have "unat ?L + 4095 < 2 ^ 64" by (rule last_end_bound [OF h(4)])
  note z = init_sizes [OF this h(3) N_def [unfolded map_pages_def, THEN meta_eq_to_obj_eq]
      B_def [unfolded map_bytes_def, folded N_def, THEN meta_eq_to_obj_eq] refl]
  obtain u where scan: "for_acc 0 n (mmap_scan mmap) (0, 0) s = (Inr (?L, u), s)"
    using mmap_scan_run [OF h(1,2)] unfolding p_def by blast
  let ?s0 = "s\<lparr>mem_bitmap_size := of_nat B, mem_bitmap_bit_size := of_nat N\<rparr>"
  define body where "body = (\<lambda>_ :: u64. andthen alloc_page (ret ()))"
  have swap: "u\<lparr>next_free := a, mem_bitmap := b\<rparr> = u\<lparr>mem_bitmap := b, next_free := a\<rparr>" for u a b by simp
  have pages: "alloc_page ?s0 = (Inr (next_free s), ?s0\<lparr>next_free := next_free s + PAGE_SIZE\<rparr>)"
    "for_up 0 (of_nat (?G - 1)) body
       (?s0\<lparr>next_free := next_free s + PAGE_SIZE, mem_bitmap := next_free s\<rparr>) = (Inr (), s1)"
    using init_pages(1) [of ?s0 ?G] init_pages(2) [of "?s0\<lparr>mem_bitmap := next_free s\<rparr>" ?G] h(5) z(3)
    unfolding swap body_def by (simp_all add: s1_def)
  have k1: "kwin F s1" "mem s1 = mem s" "mem_bitmap s1 = next_free s" "bm_base s1 = ?b"
    "unat (mem_bitmap_size s1) = B" "unat (mem_bitmap_bit_size s1) = N" "mem_bitmap_size s1 = of_nat B"
    using h(1) z(5,6) by (simp_all add: s1_def bm_base_def)
  have "in_win (next_free s) B" using h(5) z(2) by (simp add: in_win_def)
  then obtain t1 where t1: "memset (next_free s) 0xFF (of_nat B) s1 = (Inr (next_free s), t1)" "bits_state F s1 (\<lambda>_. True) t1"
    using bitmap_fill [OF k1(1)] h(6) z(1) k1 by auto
  obtain t2 where t2: "for_up 0 n (mmap_release mmap ?L) t1 = (Inr (), t2)"
    "bits_state F s1 (\<lambda>i. \<forall>k<unat n. \<not> covers (mmap_entry (mem s) p k) i) t2"
    using bitmap_fill_release [OF t1(2) h(2)] h(4,7) z(1) unfolding k1(2,4,5) p_def [symmetric]
    by (auto simp: N_def map_pages_def)
  have "unat (512 :: u64) \<le> 8 * unat (mem_bitmap_size s1)" using z(4) k1(5) by simp
  from mark_range [OF t2(2) this] obtain t3 where t3: "for_up 0 512 bitmap_mark t2 = (Inr (), t3)"
    "bits_state F s1 (\<lambda>i. (\<forall>k<unat n. \<not> covers (mmap_entry (mem s) p k) i) \<or> i < 512) t3" by auto
  have "(KERNEL_END - KERNEL_BASE + PAGE_SIZE - 1) div PAGE_SIZE = 512" by (simp add: kconst)
  then have "pmm_init mmap n s = (Inr (), t3)"
    unfolding pmm_init_def body_def [symmetric]
    by (simp add: monad Let_def scan z(8-11) pages t1(1) t2(1) t3(1) del: One_nat_def
        cong: prod.case_cong sum.case_cong)
  then show ?thesis using t3(2) by (auto simp: disj_commute)
qed

lemma bm_field: "t = s\<lparr>mem_bitmap_size := b, mem_bitmap_bit_size := n, mem_bitmap := p, next_free := q\<rparr>\<lparr>mem := m\<rparr>
    \<Longrightarrow> mem_bitmap t = p"
  by simp

lemma pmm_init_result:
  assumes "init_ok F s mmap (unat n)"
  defines "p \<equiv> mmap - KERNEL_BASE"
  shows "\<exists>t. pmm_init mmap n s = (Inr (), t) \<and> pmm_ok F t \<and> mem_bitmap t = next_free s
     \<and> unat (mem_bitmap_bit_size t) = map_pages (mem s) p (unat n) \<and> unat (mem_bitmap_size t) = map_bytes (mem s) p (unat n)
     \<and> (\<forall>i < unat (mem_bitmap_bit_size t). \<not> frame_bit (mem t) (bm_base t) i \<longleftrightarrow>
          512 \<le> i \<and> (\<exists>k<unat n. covers (mmap_entry (mem s) p k) i))
     \<and> (\<forall>x. unat (mem_bitmap_size t) \<le> unat (x - bm_base t) \<longrightarrow> mem t x = mem s x)
     \<and> t = s\<lparr>mem := mem t, mem_bitmap_size := mem_bitmap_size t, mem_bitmap_bit_size := mem_bitmap_bit_size t,
          mem_bitmap := next_free s, next_free := next_free s + of_nat ((map_bytes (mem s) p (unat n) + 4095) div 4096 * 4096)\<rparr>"
proof -
  let ?p = "p"
  let ?B = "map_bytes (mem s) ?p (unat n)" and ?N = "map_pages (mem s) ?p (unat n)"
  let ?s1 = "s\<lparr>mem_bitmap_size := of_nat ?B, mem_bitmap_bit_size := of_nat ?N, mem_bitmap := next_free s,
       next_free := next_free s + of_nat ((?B + 4095) div 4096 * 4096)\<rparr>"
  obtain t where t: "pmm_init mmap n s = (Inr (), t)"
    "bits_state F ?s1 (\<lambda>i. i < 512 \<or> (\<forall>k<unat n. \<not> covers (mmap_entry (mem s) ?p k) i)) t"
    using pmm_init_run [OF assms(1)] unfolding p_def by blast
  have "unat (last_end (mem s) ?p (unat n)) + 4095 < 2 ^ 64"
    by (rule last_end_bound) (use assms(1) in \<open>auto simp: init_ok_def Let_def p_def\<close>)
  moreover have "512 \<le> ?N" using assms(1) by (auto simp: init_ok_def Let_def p_def)
  ultimately have z: "unat (of_nat ?N :: u64) = ?N" "unat (of_nat ?B :: u64) = ?B" "?N \<le> 8 * ?B"
    using init_sizes [OF _ _ refl refl refl] by (simp_all only: map_pages_def map_bytes_def)
  note f = bits_state_fields [OF t(2)]
  have s1: "t = ?s1\<lparr>mem := mem t\<rparr>" using t(2) by (simp add: bits_state_def)
  then have bm: "mem_bitmap t = next_free s" by (rule bm_field)
  have form: "t = s\<lparr>mem := mem t, mem_bitmap_size := mem_bitmap_size t, mem_bitmap_bit_size := mem_bitmap_bit_size t,
      mem_bitmap := next_free s, next_free := next_free s + of_nat ((?B + 4095) div 4096 * 4096)\<rparr>"
    using f by (subst s1) simp
  have ok: "bitmap_ok F t" using t(2) by (simp add: bits_state_def)
  have bits: "frame_bit (mem t) (bm_base t) i \<longleftrightarrow> i < 512 \<or> (\<forall>k<unat n. \<not> covers (mmap_entry (mem s) ?p k) i)"
    if "i < ?N" for i
    using t(2) that z f by (simp add: bits_state_def)
  moreover have "unat (mem_bitmap_bit_size t) = ?N" using f z by simp
  moreover have "pmm_ok F t" using ok bits [of 0] \<open>512 \<le> ?N\<close> by (simp add: pmm_ok_def)
  moreover have "\<forall>x. unat (mem_bitmap_size t) \<le> unat (x - bm_base t) \<longrightarrow> mem t x = mem s x"
    using t(2) f by (simp add: bits_state_def)
  moreover have "unat (mem_bitmap_size t) = ?B" using f z by simp
  moreover have "\<forall>i < unat (mem_bitmap_bit_size t). \<not> frame_bit (mem t) (bm_base t) i \<longleftrightarrow>
      512 \<le> i \<and> (\<exists>k<unat n. covers (mmap_entry (mem s) p k) i)"
    using bits f z by (simp add: not_less)
  ultimately show ?thesis using t(1) bm form by (intro exI [of _ t]) blast
qed

section \<open>Properties\<close>

text \<open>C22: after \<open>pmm_init\<close> the bitmap lies where the pool began and has a bit for every frame up to the
  end of the last usable range; the bit of a frame is clear exactly if the frame is outside the
  first two mebibytes and some usable range of the memory map covers it (from its base rounded up to
  its end rounded up). The memory outside the bitmap is unchanged, and the manager's invariant
  holds.\<close>

theorem pmm_init_marks:
  assumes "init_ok F s mmap (unat n)"
  shows "\<exists>t. pmm_init mmap n s = (Inr (), t) \<and> pmm_ok F t \<and> mem_bitmap t = next_free s
     \<and> unat (mem_bitmap_bit_size t) = map_pages (mem s) (mmap - KERNEL_BASE) (unat n)
     \<and> (\<forall>i < unat (mem_bitmap_bit_size t). \<not> frame_bit (mem t) (bm_base t) i \<longleftrightarrow>
          512 \<le> i \<and> (\<exists>k<unat n. covers (mmap_entry (mem s) (mmap - KERNEL_BASE) k) i))
     \<and> (\<forall>x. unat (mem_bitmap_size t) \<le> unat (x - bm_base t) \<longrightarrow> mem t x = mem s x)"
  using pmm_init_result [OF assms] by blast

text \<open>A memory map with one usable range, from one to four mebibytes.\<close>

definition map_machine :: machine where
  "map_machine = boot_machine\<lparr>mem := pwrite64 (pwrite64 (pwrite64 (mem boot_machine)
     0x30000 0x100000) 0x30008 0x300000) 0x30010 1\<rparr>"

lemma map_machine_entry:
  "mmap_entry (mem map_machine) 0x30000 0 = \<lparr>base_addr = 0x100000, len = 0x300000, mtype = 1, acpi_ext = 0\<rparr>"
proof -
  let ?m = "pwrite64 (pwrite64 (mem boot_machine) 0x30000 0x100000) 0x30008 0x300000"
  have "pread64 (mem map_machine) 0x30000 = 0x100000" "pread64 (mem map_machine) 0x30008 = 0x300000"
    by (simp_all add: map_machine_def pread64_pwrite64_apart apart_def)
  moreover have "pread (pwrite64 ?m 0x30010 1) (0x30010 + of_nat 0) 4 = take 4 (le_bytes 8 (1 :: u64))"
    "pread (pwrite64 ?m 0x30010 1) (0x30010 + of_nat 4) 4 = take 4 (drop 4 (le_bytes 8 (1 :: u64)))"
    unfolding pwrite64_def by (subst pread_pwrite_sub; simp)+
  then have "pread (mem map_machine) 0x30010 4 = [1, 0, 0, 0]" "pread (mem map_machine) 0x30014 4 = [0, 0, 0, 0]"
    by (simp_all add: map_machine_def le_bytes_def upt_rec)
  ultimately show ?thesis by (simp add: mmap_entry_def le_word_def)
qed

lemma map_machine_pages:
  "map_pages (mem map_machine) 0x30000 1 = 1024" "map_bytes (mem map_machine) 0x30000 1 = 128"
  using map_machine_entry by (simp_all add: map_bytes_def map_pages_def)

lemma map_machine_init: "init_ok boot_frames map_machine 0xFFFFFFFF80030000 1"
proof -
  have "kwin boot_frames map_machine"
    unfolding map_machine_def by (simp add: kmap_pwrite64 boot_kwin boot_off_tables)
  moreover have "off_tables boot_frames 0x27000 128" by (rule boot_off_tables) simp_all
  moreover have "next_free map_machine = 0xFFFFFFFF80027000" by (simp add: map_machine_def boot_machine_def)
  ultimately show ?thesis
    using map_machine_pages map_machine_entry
    by (simp add: init_ok_def Let_def in_win_def kconst apart_def)
qed

theorem pmm_init_marks_witness:
  "\<exists>t. pmm_init 0xFFFFFFFF80030000 1 map_machine = (Inr (), t) \<and> pmm_ok boot_frames t
     \<and> \<not> frame_bit (mem t) (bm_base t) 512 \<and> frame_bit (mem t) (bm_base t) 511"
proof -
  have *: "mmap_entry (mem map_machine) (0xFFFFFFFF80030000 - KERNEL_BASE) 0
      = \<lparr>base_addr = 0x100000, len = 0x300000, mtype = 1, acpi_ext = 0\<rparr>"
    "map_pages (mem map_machine) (0xFFFFFFFF80030000 - KERNEL_BASE) 1 = 1024"
    using map_machine_entry map_machine_pages by (simp_all add: kconst)
  obtain t where t: "pmm_init 0xFFFFFFFF80030000 1 map_machine = (Inr (), t)" "pmm_ok boot_frames t"
    "unat (mem_bitmap_bit_size t) = 1024"
    "\<forall>i < unat (mem_bitmap_bit_size t). \<not> frame_bit (mem t) (bm_base t) i \<longleftrightarrow>
          512 \<le> i \<and> (\<exists>k<1. covers (mmap_entry (mem map_machine) (0xFFFFFFFF80030000 - KERNEL_BASE) k) i)"
    using pmm_init_marks [of boot_frames map_machine "0xFFFFFFFF80030000" 1] map_machine_init *(2) by auto
  show ?thesis using t(1-3) t(4) [rule_format, of 512] t(4) [rule_format, of 511] *
    by (auto simp: covers_def)
qed

end
