(* ===== verification/Idt.thy ===== *)
theory Idt
  imports Utils
begin

text \<open>
  Interrupts: the descriptor table and the interrupt controllers set up by \<open>idt.c\<close>, and the
  handlers of \<open>isr.c\<close> with their debug output. The addresses of the assembly entry points and of
  the table are fixed by the linker, so they are parameters. The two interrupt controllers are
  modelled as far as the code programs them, by the effect of the logged port writes.
\<close>

section \<open>The descriptor table, \<open>idt.c\<close>\<close>

definition IDT_ENTRIES :: nat where "IDT_ENTRIES = 256"

record isr_symbols =
  isr0 :: u64
  isr1 :: u64
  isr2 :: u64
  isr3 :: u64
  isr4 :: u64
  isr5 :: u64
  isr6 :: u64
  isr7 :: u64
  isr8 :: u64
  isr9 :: u64
  isr10 :: u64
  isr11 :: u64
  isr12 :: u64
  isr13 :: u64
  isr14 :: u64
  isr15 :: u64
  isr16 :: u64
  isr17 :: u64
  isr18 :: u64
  isr19 :: u64
  isr20 :: u64
  isr21 :: u64
  isr22 :: u64
  isr23 :: u64
  isr24 :: u64
  isr25 :: u64
  isr26 :: u64
  isr27 :: u64
  isr28 :: u64
  isr29 :: u64
  isr30 :: u64
  isr31 :: u64
  irq0 :: u64
  irq1 :: u64

text \<open>The index is a C \<open>int\<close>; outside the array the assignments are undefined.\<close>

definition idt_set_gate :: "int \<Rightarrow> u64 \<Rightarrow> unit kern" where
  "idt_set_gate n handler =
     (if n < 0 \<or> int IDT_ENTRIES \<le> n then raise (Undefined ''idt index'')
      else modify (\<lambda>s. s\<lparr>idt := (idt s)[nat n :=
        \<lparr>offset_low = ucast (handler AND 0xFFFF), selector = 0x18, ist = 0, type_attr = 0x8E,
         offset_mid = ucast (drop_bit 16 handler AND 0xFFFF),
         offset_high = ucast (drop_bit 32 handler AND 0xFFFFFFFF), zero_field = 0\<rparr>]\<rparr>))"

definition outb :: "u8 \<Rightarrow> u16 \<Rightarrow> unit kern" where
  "outb v port = modify (\<lambda>s. s\<lparr>io_log := io_log s @ [Outb port v]\<rparr>)"

definition inb :: "u16 \<Rightarrow> unit kern" where
  "inb port = modify (\<lambda>s. s\<lparr>io_log := io_log s @ [Inb port]\<rparr>)"

definition pic_remap :: "unit kern" where
  "pic_remap =
     andthen (outb 0x11 0x20) (andthen (outb 0x11 0xA0)
    (andthen (outb 0x20 0x21) (andthen (outb 0x28 0xA1)
    (andthen (outb 0x04 0x21) (andthen (outb 0x02 0xA1)
    (andthen (outb 0x01 0x21) (andthen (outb 0x01 0xA1)
    (andthen (outb 0xFD 0x21) (outb 0xFF 0xA1)))))))))"

primrec set_gates :: "(int \<times> u64) list \<Rightarrow> unit kern" where
  "set_gates [] = ret ()"
| "set_gates (g # gs) = andthen (idt_set_gate (fst g) (snd g)) (set_gates gs)"

definition exception_gates :: "isr_symbols \<Rightarrow> (int \<times> u64) list" where
  "exception_gates e =
      [(0, isr0 e), (1, isr1 e), (2, isr2 e), (3, isr3 e),
       (4, isr4 e), (5, isr5 e), (6, isr6 e), (7, isr7 e),
       (8, isr8 e), (9, isr9 e), (10, isr10 e), (11, isr11 e),
       (12, isr12 e), (13, isr13 e), (14, isr14 e), (15, isr15 e),
       (16, isr16 e), (17, isr17 e), (18, isr18 e), (19, isr19 e),
       (20, isr20 e), (21, isr21 e), (22, isr22 e), (23, isr23 e),
       (24, isr24 e), (25, isr25 e), (26, isr26 e), (27, isr27 e),
       (28, isr28 e), (29, isr29 e), (30, isr30 e), (31, isr31 e)]"

definition lidt :: "idt_ptr \<Rightarrow> unit kern" where
  "lidt p = modify (\<lambda>s. s\<lparr>idtr := p\<rparr>)"

definition sti :: "unit kern" where
  "sti = modify (\<lambda>s. s\<lparr>if_flag := True\<rparr>)"

definition idt_init :: "isr_symbols \<Rightarrow> u64 \<Rightarrow> unit kern" where
  "idt_init e idt_addr =
     andthen (set_gates (exception_gates e))
    (andthen pic_remap
    (andthen (idt_set_gate 32 (irq0 e))
    (andthen (idt_set_gate 33 (irq1 e))
    (andthen (modify (\<lambda>s. s\<lparr>idtp := (idtp s)\<lparr>limit := of_nat (16 * IDT_ENTRIES) - 1\<rparr>\<rparr>))
    (andthen (modify (\<lambda>s. s\<lparr>idtp := (idtp s)\<lparr>base := idt_addr\<rparr>\<rparr>))
    (andthen (bind (gets idtp) lidt) sti))))))"

section \<open>The handlers, \<open>isr.c\<close>\<close>

definition video :: u64 where "video = 0xFFFFFFFF80000000 + 0xB8000"
definition SCREEN_WIDTH :: int where "SCREEN_WIDTH = 80"

text \<open>The C expressions on \<open>int\<close> are undefined when they leave the type's range.\<close>

definition c_int :: "int \<Rightarrow> bool" where
  "c_int k \<longleftrightarrow> - (2 ^ 31) \<le> k \<and> k < 2 ^ 31"

primrec print_chars :: "u64 \<Rightarrow> string \<Rightarrow> u8 \<Rightarrow> unit kern" where
  "print_chars pos [] color = ret ()"
| "print_chars pos (c # cs) color =
     (if c = CHR 0x00 then ret ()
      else andthen (store16 pos (vga_cell (push_bit 8 (ucast color)) c))
             (print_chars (pos + 2) cs color))"

definition print_at :: "string \<Rightarrow> int \<Rightarrow> int \<Rightarrow> u8 \<Rightarrow> unit kern" where
  "print_at str x y color =
     (if \<not> c_int (y * SCREEN_WIDTH) then raise (Undefined ''signed overflow in print_at'')
      else print_chars (video + 2 * of_int (y * SCREEN_WIDTH) + 2 * of_int x) str color)"

definition digits :: string where "digits = ''0123456789ABCDEF''"

text \<open>The loop of \<open>print_hex\<close> from position \<open>i + 1\<close> down to position 2.\<close>

primrec hex_loop :: "nat \<Rightarrow> u64 \<Rightarrow> string \<Rightarrow> string" where
  "hex_loop 0 n hex = hex"
| "hex_loop (Suc i) n hex =
     hex_loop i (drop_bit 4 n) (hex[i + 2 := digits ! unat (n AND 0xF)])"

definition print_hex :: "u64 \<Rightarrow> int \<Rightarrow> int \<Rightarrow> unit kern" where
  "print_hex n x y = print_at (hex_loop 16 n ''0x0000000000000000'') x y 0x0F"

definition exception_names :: "string list" where
  "exception_names =
    [''Division by Zero'',
     ''Debug'',
     ''NMI'',
     ''Breakpoint'',
     ''Overflow'',
     ''Bound Range Exceeded'',
     ''Invalid Opcode'',
     ''Device Not Available'',
     ''Double Fault'',
     ''Coprocessor Segment Overrun'',
     ''Invalid TSS'',
     ''Segment Not Present'',
     ''Stack Fault'',
     ''General Protection Fault'',
     ''Page Fault'',
     ''Reserved'',
     ''x87 FPU Error'',
     ''Alignment Check'',
     ''Machine Check'',
     ''SIMD Floating Point'',
     ''Virtualization'',
     ''Control Protection'',
     ''Reserved'', ''Reserved'', ''Reserved'', ''Reserved'', ''Reserved'', ''Reserved'', ''Reserved'', ''Reserved'', ''Reserved'', ''Reserved'']"

definition isr_handler :: "u64 \<Rightarrow> unit kern" where
  "isr_handler int_no =
     andthen (print_at ''EXCEPTION: '' 0 10 0x0C)
    (andthen (if int_no < 32 then print_at (exception_names ! unat int_no) 11 10 0x0C else ret ())
    (andthen (print_at ''INT#: '' 0 11 0x0C)
    (andthen (print_hex int_no 6 11)
     (raise Halt))))"

definition irq_handler :: "u64 \<Rightarrow> unit kern" where
  "irq_handler int_no =
     andthen (if int_no = 33 then inb 0x60 else ret ())
    (andthen (if 40 \<le> int_no then outb 0x20 0xA0 else ret ())
     (outb 0x20 0x20))"

section \<open>The interrupt controllers\<close>

text \<open>An 8259 controller as the kernel programs it. \<open>pic_next\<close> is the initialisation word it waits
  for, zero in normal operation; \<open>pic_service\<close> holds the interrupts being served. A command with
  bit 4 starts the initialisation and clears the mask; the command 0x20 ends the served interrupt
  of the highest priority, the lowest bit set.\<close>

record pic =
  pic_next :: nat
  pic_base :: u8
  pic_link :: u8
  pic_mode :: u8
  pic_mask :: u8
  pic_service :: u8

definition pic_command :: "u8 \<Rightarrow> pic \<Rightarrow> pic" where
  "pic_command v p =
     (if v AND 0x10 \<noteq> 0 then p\<lparr>pic_next := 2, pic_mask := 0, pic_service := 0\<rparr>
      else if v = 0x20 then p\<lparr>pic_service := pic_service p AND (pic_service p - 1)\<rparr>
      else p)"

definition pic_data :: "u8 \<Rightarrow> pic \<Rightarrow> pic" where
  "pic_data v p =
     (if pic_next p = 2 then p\<lparr>pic_next := 3, pic_base := v AND 0xF8\<rparr>
      else if pic_next p = 3 then p\<lparr>pic_next := 4, pic_link := v\<rparr>
      else if pic_next p = 4 then p\<lparr>pic_next := 0, pic_mode := v\<rparr>
      else p\<lparr>pic_mask := v\<rparr>)"

fun pics_event :: "pic \<times> pic \<Rightarrow> io_event \<Rightarrow> pic \<times> pic" where
  "pics_event (a, b) (Outb port v) =
     (if port = 0x20 then (pic_command v a, b)
      else if port = 0x21 then (pic_data v a, b)
      else if port = 0xA0 then (a, pic_command v b)
      else if port = 0xA1 then (a, pic_data v b)
      else (a, b))"
| "pics_event (a, b) (Inb port) = (a, b)"

text \<open>The controllers after the port accesses of a run, the vector of an interrupt line, whether the
  line can interrupt the processor, and the controllers while the line is served: a line of the
  second controller arrives through line 2 of the first.\<close>

definition pics_after :: "machine \<Rightarrow> machine \<Rightarrow> pic \<times> pic \<Rightarrow> pic \<times> pic" where
  "pics_after s t pics = foldl pics_event pics (drop (length (io_log s)) (io_log t))"

definition irq_vector :: "pic \<times> pic \<Rightarrow> nat \<Rightarrow> nat" where
  "irq_vector pics line =
     (if line < 8 then unat (pic_base (fst pics)) + line else unat (pic_base (snd pics)) + (line - 8))"

definition irq_open :: "pic \<times> pic \<Rightarrow> nat \<Rightarrow> bool" where
  "irq_open pics line \<longleftrightarrow>
     (if line < 8 then \<not> bit (pic_mask (fst pics)) line
      else \<not> bit (pic_mask (snd pics)) (line - 8) \<and> \<not> bit (pic_mask (fst pics)) 2)"

definition irq_begin :: "nat \<Rightarrow> pic \<times> pic \<Rightarrow> pic \<times> pic" where
  "irq_begin line pics =
     (if line < 8 then ((fst pics)\<lparr>pic_service := pic_service (fst pics) OR push_bit line 1\<rparr>, snd pics)
      else ((fst pics)\<lparr>pic_service := pic_service (fst pics) OR 4\<rparr>,
            (snd pics)\<lparr>pic_service := pic_service (snd pics) OR push_bit (line - 8) 1\<rparr>))"

section \<open>Installing the gates\<close>

text \<open>The handler a gate leads to, as the processor puts it together.\<close>

definition gate_handler :: "idt_entry \<Rightarrow> u64" where
  "gate_handler g =
     ucast (offset_low g) OR push_bit 16 (ucast (offset_mid g)) OR push_bit 32 (ucast (offset_high g))"

definition gate_ok :: "u64 \<Rightarrow> idt_entry \<Rightarrow> bool" where
  "gate_ok handler g \<longleftrightarrow>
     gate_handler g = handler \<and> selector g = 0x18 \<and> type_attr g = 0x8E \<and> ist g = 0 \<and> zero_field g = 0"

definition make_gate :: "u64 \<Rightarrow> idt_entry" where
  "make_gate handler =
     \<lparr>offset_low = ucast (handler AND 0xFFFF), selector = 0x18, ist = 0, type_attr = 0x8E,
      offset_mid = ucast (drop_bit 16 handler AND 0xFFFF),
      offset_high = ucast (drop_bit 32 handler AND 0xFFFFFFFF), zero_field = 0\<rparr>"

lemma masked_ucast:
  "ucast (x AND 0xFFFF) = (ucast x :: u16)" "ucast (x AND 0xFFFFFFFF) = (ucast x :: u32)" for x :: u64
proof -
  have m: "(0xFFFF :: u64) = mask 16" "(0xFFFFFFFF :: u64) = mask 32" by (simp_all add: mask_eq_exp_minus_1)
  show "ucast (x AND 0xFFFF) = (ucast x :: u16)" unfolding m by (rule bit_word_eqI) (auto simp: bit_simps)
  show "ucast (x AND 0xFFFFFFFF) = (ucast x :: u32)" unfolding m by (rule bit_word_eqI) (auto simp: bit_simps)
qed

lemma make_gate_ok: "gate_ok handler (make_gate handler)"
proof -
  have "gate_handler (make_gate handler) = handler"
  proof (rule bit_word_eqI)
    fix n assume "n < LENGTH(64)"
    then show "bit (gate_handler (make_gate handler)) n = bit handler n"
      unfolding gate_handler_def make_gate_def masked_ucast
      by (cases "n < 32") (auto simp: bit_simps not_less)
  qed
  then show ?thesis by (simp add: gate_ok_def make_gate_def)
qed

lemma idt_set_gate_run:
  "0 \<le> n \<Longrightarrow> n < 256 \<Longrightarrow>
     idt_set_gate n handler s = (Inr (), s\<lparr>idt := (idt s)[nat n := make_gate handler]\<rparr>)"
  by (simp add: idt_set_gate_def IDT_ENTRIES_def monad make_gate_def)

abbreviation put_gates :: "idt_entry list \<Rightarrow> (int \<times> u64) list \<Rightarrow> idt_entry list" where
  "put_gates \<equiv> foldl (\<lambda>l g. l[nat (fst g) := make_gate (snd g)])"

lemma set_gates_run:
  "\<forall>g\<in>set gs. 0 \<le> fst g \<and> fst g < 256 \<Longrightarrow>
     set_gates gs s = (Inr (), s\<lparr>idt := put_gates (idt s) gs\<rparr>)"
  by (induction gs arbitrary: s) (simp_all add: monad idt_set_gate_run)

definition boot_events :: "io_event list" where
  "boot_events = [Outb 0x20 0x11, Outb 0xA0 0x11, Outb 0x21 0x20, Outb 0xA1 0x28, Outb 0x21 4, Outb 0xA1 2,
     Outb 0x21 1, Outb 0xA1 1, Outb 0x21 0xFD, Outb 0xA1 0xFF]"

lemma pic_remap_run: "pic_remap s = (Inr (), s\<lparr>io_log := io_log s @ boot_events\<rparr>)"
  by (simp add: pic_remap_def outb_def monad boot_events_def)

definition all_gates :: "isr_symbols \<Rightarrow> (int \<times> u64) list" where
  "all_gates e = exception_gates e @ [(32, irq0 e), (33, irq1 e)]"

lemma idt_init_run:
  "idt_init e a s = (Inr (), s\<lparr>idt := put_gates (idt s) (all_gates e),
     io_log := io_log s @ boot_events, idtp := \<lparr>limit = 4095, base = a\<rparr>,
     idtr := \<lparr>limit = 4095, base = a\<rparr>, if_flag := True\<rparr>)"
proof -
  have r: "\<forall>g\<in>set (exception_gates e). 0 \<le> fst g \<and> fst g < 256" by (simp add: exception_gates_def)
  have l: "(idtp s)\<lparr>limit := 4095, base := a\<rparr> = \<lparr>limit = 4095, base = a\<rparr>"
    by (cases "idtp s") simp
  show ?thesis
    by (simp add: idt_init_def monad set_gates_run [OF r] pic_remap_run idt_set_gate_run lidt_def sti_def
        all_gates_def IDT_ENTRIES_def l)
qed

lemma length_put_gates [simp]: "length (put_gates l gs) = length l"
  by (induction gs rule: rev_induct) auto

lemma put_gates_nth:
  assumes "\<forall>g\<in>set gs. 0 \<le> fst g \<and> nat (fst g) < length l" "distinct (map fst gs)" "(n, h) \<in> set gs"
  shows "put_gates l gs ! nat n = make_gate h"
  using assms
proof (induction gs rule: rev_induct)
  case (snoc g gs)
  show ?case
  proof (cases "g = (n, h)")
    case True
    then show ?thesis using snoc.prems(1) by simp
  next
    case False
    then have m: "(n, h) \<in> set gs" using snoc.prems(3) by auto
    have "n \<in> fst ` set gs" using image_eqI [OF _ m, of n fst] by simp
    then have "fst g \<noteq> n" using snoc.prems(2) by auto
    moreover have "0 \<le> n" "0 \<le> fst g" using m snoc.prems(1) by auto
    ultimately have "nat (fst g) \<noteq> nat n" by simp
    then show ?thesis using snoc.IH snoc.prems m by simp
  qed
qed simp

lemma put_gates_other:
  "\<forall>g\<in>set gs. nat (fst g) \<noteq> k \<Longrightarrow> put_gates l gs ! k = l ! k"
  by (induction gs rule: rev_induct) auto

text \<open>The entry point of vector \<open>n\<close>.\<close>

definition entry_point :: "isr_symbols \<Rightarrow> nat \<Rightarrow> u64" where
  "entry_point e n = snd (all_gates e ! n)"

lemma all_gates_fst: "map fst (all_gates e) = map int [0..<34]"
  by (simp add: all_gates_def exception_gates_def upt_rec)

lemma length_all_gates: "length (all_gates e) = 34"
  by (simp add: all_gates_def exception_gates_def)

lemma all_gates_nth: "n < 34 \<Longrightarrow> all_gates e ! n = (int n, entry_point e n)"
  using arg_cong [OF all_gates_fst [of e], of "\<lambda>l. l ! n"]
  by (simp add: entry_point_def length_all_gates prod_eq_iff)

lemma all_gates_range: "g \<in> set (all_gates e) \<Longrightarrow> 0 \<le> fst g \<and> nat (fst g) < 34"
  using all_gates_nth [of _ e] by (auto simp: in_set_conv_nth length_all_gates)

lemma idt_gates:
  assumes "length l = 256"
  shows "n < 34 \<Longrightarrow> put_gates l (all_gates e) ! n = make_gate (entry_point e n)"
    and "34 \<le> n \<Longrightarrow> put_gates l (all_gates e) ! n = l ! n"
proof -
  have r: "\<forall>g\<in>set (all_gates e). 0 \<le> fst g \<and> nat (fst g) < length l"
    using all_gates_range assms by force
  have d: "distinct (map fst (all_gates e))"
    unfolding all_gates_fst by (simp add: distinct_map)
  assume "n < 34"
  then have "(int n, entry_point e n) \<in> set (all_gates e)"
    using all_gates_nth [of n e] nth_mem [of n "all_gates e"] by (simp add: length_all_gates)
  from put_gates_nth [OF r d this] show "put_gates l (all_gates e) ! n = make_gate (entry_point e n)" by simp
next
  assume "34 \<le> n"
  then show "put_gates l (all_gates e) ! n = l ! n"
    using all_gates_range [of _ e] by (intro put_gates_other) force
qed

section \<open>Ending an interrupt\<close>

text \<open>\<open>w AND (w - 1)\<close> clears the lowest bit set.\<close>

lemma clear_lowest:
  fixes x :: "'a::len word"
  assumes "\<forall>j\<le>k. \<not> bit x j" "k < LENGTH('a)"
  shows "(x OR push_bit k 1) AND ((x OR push_bit k 1) - 1) = x"
proof -
  have 1: "x AND push_bit k 1 = 0" using assms by (intro bit_word_eqI) (auto simp: bit_simps)
  have 2: "x AND mask k = 0" using assms by (intro bit_word_eqI) (auto simp: bit_simps)
  have "x OR push_bit k 1 = x + push_bit k 1" using 1 by (simp add: disjunctive_add_eq_or)
  then have "(x OR push_bit k 1) - 1 = x + mask k" by (simp add: mask_eq_exp_minus_1 push_bit_eq_mult)
  also have "\<dots> = x OR mask k" using 2 by (simp add: disjunctive_add_eq_or)
  finally show ?thesis using assms by (intro bit_word_eqI) (auto simp: bit_simps)
qed

definition irq_events :: "u64 \<Rightarrow> io_event list" where
  "irq_events n = (if n = 33 then [Inb 0x60] else []) @ (if 40 \<le> n then [Outb 0xA0 0x20] else []) @ [Outb 0x20 0x20]"

lemma irq_handler_run: "irq_handler n s = (Inr (), s\<lparr>io_log := io_log s @ irq_events n\<rparr>)"
  by (simp add: irq_handler_def irq_events_def inb_def outb_def monad)

text \<open>A line may interrupt what is being served when it has a higher priority.\<close>

definition irq_allowed :: "nat \<Rightarrow> pic \<times> pic \<Rightarrow> bool" where
  "irq_allowed line pics \<longleftrightarrow>
     (if line < 8 then \<forall>j\<le>line. \<not> bit (pic_service (fst pics)) j
      else (\<forall>j\<le>2. \<not> bit (pic_service (fst pics)) j) \<and> (\<forall>j\<le>line - 8. \<not> bit (pic_service (snd pics)) j))"

lemma pic_end:
  assumes "\<forall>j\<le>k. \<not> bit (pic_service p) j" "k < 8"
  shows "pic_command 0x20 (p\<lparr>pic_service := pic_service p OR push_bit k 1\<rparr>) = p"
  using clear_lowest [OF assms(1)] assms(2) by (simp add: pic_command_def)

lemma irq_end:
  assumes "line < 16" "irq_allowed line pics"
  shows "foldl pics_event (irq_begin line pics) (irq_events (of_nat (32 + line))) = pics"
proof -
  have n: "(of_nat (32 + line) = (33 :: u64)) \<longleftrightarrow> line = 1" "((40 :: u64) \<le> of_nat (32 + line)) \<longleftrightarrow> 8 \<le> line"
    using assms(1) unat_of_nat64 [of "32 + line"] by (auto simp: word_unat_eq_iff word_le_nat_alt simp del: of_nat_add)
  obtain a b where p: "pics = (a, b)" by (cases pics)
  show ?thesis
  proof (cases "line < 8")
    case True
    then show ?thesis using assms(2) pic_end [of line a]
      by (auto simp: irq_events_def irq_begin_def irq_allowed_def p n simp del: of_nat_add)
  next
    case False
    then show ?thesis using assms pic_end [of 2 a] pic_end [of "line - 8" b]
      by (auto simp: irq_events_def irq_begin_def irq_allowed_def p n simp del: of_nat_add)
  qed
qed

section \<open>Text on the screen\<close>

definition text_cells :: "u8 \<Rightarrow> string \<Rightarrow> u16 list" where
  "text_cells color str = map (vga_cell (push_bit 8 (ucast color))) (c_string str)"

text \<open>The text cells at a position of the screen, counted in cells from its upper left corner.\<close>

definition cell_addr :: "nat \<Rightarrow> u64" where
  "cell_addr pos = 0xB8000 + of_nat (2 * pos)"

definition put_text :: "nat \<Rightarrow> u16 list \<Rightarrow> pmem \<Rightarrow> pmem" where
  "put_text pos ws m = pwrite m (cell_addr pos) (cell_bytes ws)"

definition text_at :: "pmem \<Rightarrow> nat \<Rightarrow> u16 list \<Rightarrow> bool" where
  "text_at m pos ws \<longleftrightarrow> pread m (cell_addr pos) (2 * length ws) = cell_bytes ws"

lemma print_chars_cells: "print_chars pos str color = store_cells pos (text_cells color str)"
  by (induction str arbitrary: pos) (simp_all add: c_string_def text_cells_def)

lemma print_at_run:
  assumes "kwin_at T F s" "off_tables F 0xB8000 4000" "y * 80 + x + length ws \<le> 2000" "ws \<noteq> []"
    and "ws = text_cells color str"
  shows "print_at str (int x) (int y) color s = (Inr (), s\<lparr>mem := put_text (y * 80 + x) ws (mem s)\<rparr>)
     \<and> kwin_at T F (s\<lparr>mem := put_text (y * 80 + x) ws (mem s)\<rparr>)"
proof -
  let ?i = "2 * (y * 80 + x)"
  let ?a = "KERNEL_BASE + cell_addr (y * 80 + x)"
  have a: "?a - KERNEL_BASE = 0xB8000 + of_nat ?i" by (simp add: cell_addr_def)
  have "unat (0xB8000 + of_nat ?i :: u64) = 0xB8000 + ?i"
    using assms(3) by (subst unat_add_of_nat) simp_all
  then have "in_win ?a (2 * length ws)" using assms(3) unfolding in_win_def a by simp
  moreover have o: "off_tables F (?a - KERNEL_BASE) (2 * length ws)"
    using off_tables_sub [OF assms(2), of ?i "2 * length ws"] assms(3,4) unfolding a by simp
  ultimately have w: "store_cells ?a ws s = (Inr (), s\<lparr>mem := put_text (y * 80 + x) ws (mem s)\<rparr>)"
    using kwin_store_cells [OF assms(1), of ?a ws] by (simp add: put_text_def)
  have "c_int (int y * SCREEN_WIDTH)" using assms(3) by (simp add: c_int_def SCREEN_WIDTH_def)
  moreover have "video + 2 * of_int (int y * SCREEN_WIDTH) + 2 * of_int (int x) = ?a"
    by (simp add: video_def SCREEN_WIDTH_def cell_addr_def kconst algebra_simps)
  ultimately have "print_at str (int x) (int y) color = store_cells ?a ws"
    unfolding print_at_def print_chars_cells assms(5) by simp
  moreover have "kwin_at T F (s\<lparr>mem := put_text (y * 80 + x) ws (mem s)\<rparr>)"
    using kmap_pwrite [OF assms(1), of "cell_addr (y * 80 + x)" "cell_bytes ws"] o
    by (simp add: put_text_def)
  ultimately show ?thesis using w by simp
qed

lemma text_at_put: "length ws \<le> 2000 \<Longrightarrow> text_at (put_text pos ws m) pos ws"
  using pread_pwrite_same [of "cell_bytes ws" m "cell_addr pos"] by (simp add: text_at_def put_text_def)

lemma cell_apart:
  assumes "p + length ws \<le> q \<or> q + length vs \<le> p" "p + length ws \<le> 2000" "q + length vs \<le> 2000"
    "ws \<noteq> []" "vs \<noteq> []"
  shows "apart (cell_addr p) (2 * length ws) (cell_addr q) (2 * length vs)"
  using assms apart_offsets [of "2 * p" "2 * length ws" "2 * q" "2 * length vs" "0xB8000"]
    apart_sym [OF apart_offsets [of "2 * q" "2 * length vs" "2 * p" "2 * length ws" "0xB8000"]]
  by (auto simp: cell_addr_def simp del: of_nat_mult)

lemma text_at_keep:
  assumes "text_at m q vs" "p + length ws \<le> q \<or> q + length vs \<le> p" "p + length ws \<le> 2000" "q + length vs \<le> 2000"
    "ws \<noteq> []" "vs \<noteq> []"
  shows "text_at (put_text p ws m) q vs"
  using pread_pwrite_apart [of "cell_addr p" "cell_bytes ws"] cell_apart [OF assms(2-6)] assms(1)
  by (simp add: text_at_def put_text_def)

section \<open>Hexadecimal numbers\<close>

primrec hex_text :: "nat \<Rightarrow> u64 \<Rightarrow> string" where
  "hex_text 0 n = []"
| "hex_text (Suc k) n = hex_text k (drop_bit 4 n) @ [digits ! unat (n AND 0xF)]"

definition digit_value :: "char \<Rightarrow> nat" where
  "digit_value c = length (takeWhile (\<lambda>d. d \<noteq> c) digits)"

definition hex_value :: "string \<Rightarrow> u64" where
  "hex_value str = foldl (\<lambda>v c. push_bit 4 v OR of_nat (digit_value c)) 0 str"

lemma length_hex_text [simp]: "length (hex_text k n) = k"
  by (induction k arbitrary: n) simp_all

lemma hex_loop_text:
  "k + 2 \<le> length hex \<Longrightarrow> hex_loop k n hex = take 2 hex @ hex_text k n @ drop (k + 2) hex"
proof (induction k arbitrary: n hex)
  case (Suc k)
  then have "drop (k + 2) (hex[k + 2 := c]) = c # drop (Suc (k + 2)) hex" for c
    by (simp add: Cons_nth_drop_Suc [symmetric] drop_update_swap)
  then show ?case using Suc by (simp add: eval_nat_numeral)
qed (simp add: numeral_2_eq_2)

lemma digit_value_nth: "i < 16 \<Longrightarrow> digit_value (digits ! i) = i"
proof -
  have "\<forall>i\<in>set [0..<16]. digit_value (digits ! i) = i" by code_simp
  then show "i < 16 \<Longrightarrow> digit_value (digits ! i) = i" by simp
qed

lemma low_digit: "unat (n AND 0xF) < 16" for n :: u64
proof -
  have "n AND 0xF = take_bit 4 n" by (simp add: take_bit_eq_mask mask_eq_exp_minus_1)
  then show ?thesis by (simp only: unsigned_take_bit_eq) (simp add: take_bit_eq_mod)
qed

lemma hex_value_text: "hex_value (hex_text k n) = take_bit (4 * k) n"
proof (induction k arbitrary: n)
  case 0
  then show ?case by (simp add: hex_value_def)
next
  case (Suc k)
  have "push_bit 4 (take_bit (4 * k) (drop_bit 4 n)) OR (n AND 0xF) = take_bit (4 * Suc k) n"
  proof -
    have m: "(0xF :: u64) = mask 4" by (simp add: mask_eq_exp_minus_1)
    show ?thesis unfolding m by (rule bit_word_eqI) (auto simp: bit_simps)
  qed
  then show ?case using Suc by (simp add: hex_value_def digit_value_nth [OF low_digit])
qed

definition hex_string :: "u64 \<Rightarrow> string" where
  "hex_string n = hex_loop 16 n ''0x0000000000000000''"

lemma hex_string_text: "hex_string n = CHR ''0'' # CHR ''x'' # hex_text 16 n"
  unfolding hex_string_def by (subst hex_loop_text) simp_all

lemma hex_text_chars: "set (hex_text k n) \<subseteq> set digits"
proof (induction k arbitrary: n)
  case (Suc k)
  have "length digits = 16" by (simp add: digits_def)
  then show ?case using Suc low_digit [of n] by auto
qed simp

lemma c_string_hex: "c_string (hex_string n) = hex_string n"
proof -
  have "CHR 0x00 \<notin> set digits" by (simp add: digits_def)
  then have "\<forall>c\<in>set (hex_string n). c \<noteq> CHR 0x00"
    using hex_text_chars [of 16 n] by (auto simp: hex_string_text)
  then show ?thesis by (simp add: c_string_def)
qed

section \<open>The exception screen\<close>

lemma exception_name_length:
  "k < 32 \<Longrightarrow> 0 < length (c_string (exception_names ! k)) \<and> length (c_string (exception_names ! k)) \<le> 27"
proof -
  have "\<forall>k\<in>set [0..<32]. 0 < length (c_string (exception_names ! k)) \<and> length (c_string (exception_names ! k)) \<le> 27"
    by code_simp
  then show "k < 32 \<Longrightarrow> 0 < length (c_string (exception_names ! k)) \<and> length (c_string (exception_names ! k)) \<le> 27"
    by simp
qed

text \<open>What \<open>isr_handler\<close> prints: position, colour and text.\<close>

definition exception_report :: "u64 \<Rightarrow> (nat \<times> u16 list) list" where
  "exception_report n =
     (800, text_cells 0x0C ''EXCEPTION: '')
     # (if n < 32 then [(811, text_cells 0x0C (exception_names ! unat n))] else [])
     @ [(880, text_cells 0x0C ''INT#: ''), (886, text_cells 0x0F (hex_string n))]"

definition put_texts :: "(nat \<times> u16 list) list \<Rightarrow> pmem \<Rightarrow> pmem" where
  "put_texts ts m = fold (\<lambda>t. put_text (fst t) (snd t)) ts m"

text \<open>Texts that fit on the screen one after the other.\<close>

definition texts_fit :: "(nat \<times> u16 list) list \<Rightarrow> bool" where
  "texts_fit ts \<longleftrightarrow> (\<forall>t\<in>set ts. snd t \<noteq> [] \<and> fst t + length (snd t) \<le> 2000)
     \<and> sorted_wrt (\<lambda>t u. fst t + length (snd t) \<le> fst u) ts"

lemma texts_shown: "texts_fit ts \<Longrightarrow> t \<in> set ts \<Longrightarrow> text_at (put_texts ts m) (fst t) (snd t)"
proof (induction ts rule: rev_induct)
  case (snoc u ts)
  then have u: "snd u \<noteq> []" "fst u + length (snd u) \<le> 2000" and ts: "texts_fit ts"
    by (auto simp: texts_fit_def sorted_wrt_append)
  show ?case
  proof (cases "t = u")
    case True
    then show ?thesis using u(2) text_at_put [of "snd u" "fst u"] by (simp add: put_texts_def)
  next
    case False
    then have t: "t \<in> set ts" using snoc.prems(2) by simp
    then have "fst t + length (snd t) \<le> fst u" "snd t \<noteq> []"
      using snoc.prems(1) by (auto simp: texts_fit_def sorted_wrt_append)
    then show ?thesis using text_at_keep [OF snoc.IH [OF ts t], of "fst u" "snd u"] u by (simp add: put_texts_def)
  qed
qed simp

lemma outside_sub:
  fixes x a :: u64
  assumes "n \<le> unat (x - a)" "i + k \<le> n" "n < 2 ^ 64"
  shows "k \<le> unat (x - (a + of_nat i))"
proof -
  have "unat (of_nat i :: u64) = i" using assms by (intro unat_of_nat64) simp
  then have "unat (x - a - of_nat i) = unat (x - a) - i"
    using assms by (subst unat_sub) (simp_all add: word_le_nat_alt)
  then show ?thesis using assms by (simp add: diff_diff_eq)
qed

lemma put_texts_outside:
  assumes "2 * k \<le> unat (x - cell_addr p)" "\<forall>t\<in>set ts. p \<le> fst t \<and> fst t + length (snd t) \<le> p + k" "p + k \<le> 2000"
  shows "put_texts ts m x = m x"
  using assms(2)
proof (induction ts rule: rev_induct)
  case (snoc u ts)
  have e: "cell_addr (fst u) = cell_addr p + of_nat (2 * (fst u - p))"
    using snoc.prems by (auto simp: cell_addr_def of_nat_diff simp flip: of_nat_add)
  have "2 * (fst u - p) + 2 * length (snd u) \<le> 2 * k" using snoc.prems by auto
  then have "2 * length (snd u) \<le> unat (x - cell_addr (fst u))"
    unfolding e using assms(1,3) by (intro outside_sub [where n = "2 * k"]) simp_all
  then show ?case using snoc by (simp add: put_texts_def put_text_def pwrite_outside)
qed (simp add: put_texts_def)

lemma text_cells_length [simp]: "length (text_cells color str) = length (c_string str)"
  by (simp add: text_cells_def)

lemma hex_string_length: "length (c_string (hex_string n)) = 18"
  unfolding c_string_hex by (simp add: hex_string_text)

lemma report_fits: "texts_fit (exception_report n)"
    "\<forall>t\<in>set (exception_report n). 800 \<le> fst t \<and> fst t + length (snd t) \<le> 800 + 160"
proof -
  have c: "length (c_string ''EXCEPTION: '') = 11" "length (c_string ''INT#: '') = 6" by (simp_all add: c_string_def)
  have e: "0 < length (c_string (exception_names ! unat n)) \<and> length (c_string (exception_names ! unat n)) \<le> 27" if "n < 32"
    using that exception_name_length [of "unat n"] by (simp add: word_less_nat_alt)
  show "\<forall>t\<in>set (exception_report n). 800 \<le> fst t \<and> fst t + length (snd t) \<le> 800 + 160"
    using e by (auto simp: exception_report_def c hex_string_length)
  have "text_cells k str \<noteq> []" if "c_string str \<noteq> []" for k str using that by (simp add: text_cells_def)
  moreover have "c_string ''EXCEPTION: '' \<noteq> []" "c_string ''INT#: '' \<noteq> []" by (simp_all add: c_string_def)
  moreover have "c_string (hex_string n) \<noteq> []" using hex_string_length [of n] by auto
  ultimately show "texts_fit (exception_report n)"
    using e by (auto simp: texts_fit_def exception_report_def c hex_string_length)
qed

lemma isr_handler_run:
  assumes "kwin_at T F s" "off_tables F 0xB8000 4000"
  shows "isr_handler n s = (Inl Halt, s\<lparr>mem := put_texts (exception_report n) (mem s)\<rparr>)"
proof -
  note fits = report_fits(1) [of n, unfolded texts_fit_def]
  have p: "print_at str (int x) (int y) c u = (Inr (), u\<lparr>mem := put_text (y * 80 + x) (text_cells c str) (mem u)\<rparr>)
       \<and> kwin_at T F (u\<lparr>mem := put_text (y * 80 + x) (text_cells c str) (mem u)\<rparr>)"
    if "kwin_at T F u" "(y * 80 + x, text_cells c str) \<in> set (exception_report n)" for str x y c u
    using print_at_run [OF that(1) assms(2), of y x "text_cells c str" c str] that(2) fits by fastforce
  have a: "print_at ''EXCEPTION: '' 0 10 0x0C s = (Inr (), s\<lparr>mem := put_text 800 (text_cells 0x0C ''EXCEPTION: '') (mem s)\<rparr>)
       \<and> kwin_at T F (s\<lparr>mem := put_text 800 (text_cells 0x0C ''EXCEPTION: '') (mem s)\<rparr>)"
    using p [OF assms(1), of 10 0 "0x0C" "''EXCEPTION: ''"] by (simp add: exception_report_def)
  have b: "kwin_at T F u \<Longrightarrow> n < 32 \<Longrightarrow> print_at (exception_names ! unat n) 11 10 0x0C u
       = (Inr (), u\<lparr>mem := put_text 811 (text_cells 0x0C (exception_names ! unat n)) (mem u)\<rparr>)
       \<and> kwin_at T F (u\<lparr>mem := put_text 811 (text_cells 0x0C (exception_names ! unat n)) (mem u)\<rparr>)" for u
    using p [of u 10 11 "0x0C" "exception_names ! unat n"] by (simp add: exception_report_def)
  have c: "kwin_at T F u \<Longrightarrow> print_at ''INT#: '' 0 11 0x0C u = (Inr (), u\<lparr>mem := put_text 880 (text_cells 0x0C ''INT#: '') (mem u)\<rparr>)
       \<and> kwin_at T F (u\<lparr>mem := put_text 880 (text_cells 0x0C ''INT#: '') (mem u)\<rparr>)" for u
    using p [of u 11 0 "0x0C" "''INT#: ''"] by (simp add: exception_report_def)
  have d: "kwin_at T F u \<Longrightarrow> print_hex n 6 11 u = (Inr (), u\<lparr>mem := put_text 886 (text_cells 0x0F (hex_string n)) (mem u)\<rparr>)" for u
    using p [of u 11 6 "0x0F" "hex_string n"] by (simp add: exception_report_def print_hex_def hex_string_def)
  let ?s1 = "s\<lparr>mem := put_text 800 (text_cells 0x0C ''EXCEPTION: '') (mem s)\<rparr>"
  let ?s2 = "if n < 32 then ?s1\<lparr>mem := put_text 811 (text_cells 0x0C (exception_names ! unat n)) (mem ?s1)\<rparr> else ?s1"
  have s2: "(if n < 32 then print_at (exception_names ! unat n) 11 10 0x0C else ret ()) ?s1 = (Inr (), ?s2)"
    and k2: "kwin_at T F ?s2"
    using a b [of ?s1] by (auto simp: ret_def)
  have "isr_handler n s = (Inl Halt, ?s2\<lparr>mem := put_text 886 (text_cells 0x0F (hex_string n))
       (put_text 880 (text_cells 0x0C ''INT#: '') (mem ?s2))\<rparr>)"
    unfolding isr_handler_def andthen_def bind_def raise_def
    using a s2 c [OF k2] d [of "?s2\<lparr>mem := put_text 880 (text_cells 0x0C ''INT#: '') (mem ?s2)\<rparr>"] by simp
  then show ?thesis by (simp add: exception_report_def put_texts_def)
qed

section \<open>Properties\<close>

text \<open>C18: \<open>idt_init\<close> leaves in each of the vectors 0 to 33 a present ring-0 interrupt gate of the
  kernel code segment whose three offset fields recombine to the address of the vector's entry
  point, leaves the other vectors alone, loads the table's address and size and enables
  interrupts.\<close>

theorem idt_init_installs:
  assumes "length (idt s) = 256"
  shows "\<exists>t. idt_init e a s = (Inr (), t) \<and> length (idt t) = 256 \<and>
     (\<forall>n<32. gate_ok (snd (exception_gates e ! n)) (idt t ! n)) \<and>
     gate_ok (irq0 e) (idt t ! 32) \<and> gate_ok (irq1 e) (idt t ! 33) \<and>
     (\<forall>n\<ge>34. idt t ! n = idt s ! n) \<and> idtr t = \<lparr>limit = 4095, base = a\<rparr> \<and> if_flag t \<and>
     t = s\<lparr>idt := idt t, io_log := io_log t, idtp := idtr t, idtr := idtr t, if_flag := True\<rparr>"
proof -
  have "entry_point e n = snd (exception_gates e ! n)" if "n < 32" for n
    using that length_all_gates [of e] by (simp add: entry_point_def all_gates_def nth_append)
  moreover have "entry_point e 32 = irq0 e" "entry_point e 33 = irq1 e"
    by (simp_all add: entry_point_def all_gates_def exception_gates_def)
  ultimately show ?thesis
    using idt_gates [OF assms, of _ e] make_gate_ok assms by (auto simp: idt_init_run)
qed

definition sample_symbols :: isr_symbols where
  "sample_symbols =
    \<lparr>isr0 = 0xFFFFFFFF8000A000, isr1 = 0xFFFFFFFF8000A010, isr2 = 0xFFFFFFFF8000A020, isr3 = 0xFFFFFFFF8000A030,
     isr4 = 0xFFFFFFFF8000A040, isr5 = 0xFFFFFFFF8000A050, isr6 = 0xFFFFFFFF8000A060, isr7 = 0xFFFFFFFF8000A070,
     isr8 = 0xFFFFFFFF8000A080, isr9 = 0xFFFFFFFF8000A090, isr10 = 0xFFFFFFFF8000A0A0, isr11 = 0xFFFFFFFF8000A0B0,
     isr12 = 0xFFFFFFFF8000A0C0, isr13 = 0xFFFFFFFF8000A0D0, isr14 = 0xFFFFFFFF8000A0E0, isr15 = 0xFFFFFFFF8000A0F0,
     isr16 = 0xFFFFFFFF8000A100, isr17 = 0xFFFFFFFF8000A110, isr18 = 0xFFFFFFFF8000A120, isr19 = 0xFFFFFFFF8000A130,
     isr20 = 0xFFFFFFFF8000A140, isr21 = 0xFFFFFFFF8000A150, isr22 = 0xFFFFFFFF8000A160, isr23 = 0xFFFFFFFF8000A170,
     isr24 = 0xFFFFFFFF8000A180, isr25 = 0xFFFFFFFF8000A190, isr26 = 0xFFFFFFFF8000A1A0, isr27 = 0xFFFFFFFF8000A1B0,
     isr28 = 0xFFFFFFFF8000A1C0, isr29 = 0xFFFFFFFF8000A1D0, isr30 = 0xFFFFFFFF8000A1E0, isr31 = 0xFFFFFFFF8000A1F0,
     irq0 = 0xFFFFFFFF8000A200, irq1 = 0xFFFFFFFF8000A210\<rparr>"

theorem idt_init_installs_witness:
  "\<exists>t. idt_init sample_symbols 0xFFFFFFFF8000C000 boot_machine = (Inr (), t)
     \<and> gate_handler (idt t ! 14) = 0xFFFFFFFF8000A0E0 \<and> gate_handler (idt t ! 33) = 0xFFFFFFFF8000A210"
proof -
  have "length (idt boot_machine) = 256" by (simp add: boot_machine_def null_idt_def)
  from idt_init_installs [OF this, of sample_symbols "0xFFFFFFFF8000C000"]
  obtain t where t: "idt_init sample_symbols 0xFFFFFFFF8000C000 boot_machine = (Inr (), t)"
    "\<forall>n<32. gate_ok (snd (exception_gates sample_symbols ! n)) (idt t ! n)"
    "gate_ok (irq1 sample_symbols) (idt t ! 33)" by blast
  from t(2) have "gate_ok (snd (exception_gates sample_symbols ! 14)) (idt t ! 14)" by simp
  with t(1,3) show ?thesis by (auto simp: gate_ok_def exception_gates_def sample_symbols_def)
qed

lemma pics_after_init:
  assumes "idt_init e a s = (Inr (), t)"
  shows "pics_after s t (x, y) =
      (x\<lparr>pic_next := 0, pic_base := 0x20, pic_link := 4, pic_mode := 1, pic_mask := 0xFD, pic_service := 0\<rparr>,
       y\<lparr>pic_next := 0, pic_base := 0x28, pic_link := 2, pic_mode := 1, pic_mask := 0xFF, pic_service := 0\<rparr>)"
proof -
  have "io_log t = io_log s @ boot_events" using assms by (auto simp: idt_init_run)
  then show ?thesis by (simp add: pics_after_def boot_events_def pic_command_def pic_data_def)
qed

lemma lines_after_init:
  assumes "idt_init e a s = (Inr (), t)" "line < 16"
  shows "irq_vector (pics_after s t pics) line = 32 + line" "irq_open (pics_after s t pics) line \<longleftrightarrow> line = 1"
    "irq_allowed line (pics_after s t pics)"
proof -
  obtain x y where p: "pics = (x, y)" by (cases pics)
  note after = pics_after_init [OF assms(1), of x y]
  have "\<forall>line\<in>set [0..<8]. \<not> bit (0xFD :: u8) line \<longleftrightarrow> line = 1" by code_simp
  then have m: "\<not> bit (0xFD :: u8) line \<longleftrightarrow> line = 1" if "line < 8" for line using that by simp
  have "\<forall>line\<in>set [0..<8]. bit (0xFF :: u8) line" by code_simp
  then have "bit (0xFF :: u8) line" if "line < 8" for line using that by simp
  then show "irq_vector (pics_after s t pics) line = 32 + line" "irq_open (pics_after s t pics) line \<longleftrightarrow> line = 1"
    using m assms(2) unfolding p after by (auto simp: irq_vector_def irq_open_def)
  show "irq_allowed line (pics_after s t pics)" unfolding p after by (simp add: irq_allowed_def)
qed

text \<open>C19: after \<open>idt_init\<close> both interrupt controllers are in normal operation, their sixteen lines
  have the vectors 32 to 47 behind the processor's exceptions, and the only line that can
  interrupt is line 1, whose vector has the gate of \<open>irq1\<close>.\<close>

theorem idt_init_interrupts:
  assumes "length (idt s) = 256"
  shows "\<exists>t. idt_init e a s = (Inr (), t) \<and>
     pic_next (fst (pics_after s t pics)) = 0 \<and> pic_next (snd (pics_after s t pics)) = 0 \<and>
     (\<forall>line<16. irq_vector (pics_after s t pics) line = 32 + line \<and>
        (irq_open (pics_after s t pics) line \<longleftrightarrow> line = 1)) \<and> gate_ok (irq1 e) (idt t ! 33)"
proof -
  obtain t where t: "idt_init e a s = (Inr (), t)" "io_log t = io_log s @ boot_events"
    "idt t = put_gates (idt s) (all_gates e)" by (simp add: idt_init_run)
  have "entry_point e 33 = irq1 e" by (simp add: entry_point_def all_gates_def exception_gates_def)
  then have g: "gate_ok (irq1 e) (idt t ! 33)"
    using idt_gates(1) [OF assms, of 33 e] make_gate_ok [of "irq1 e"] t(3) by simp
  obtain x y where p: "pics = (x, y)" by (cases pics)
  have "pic_next (fst (pics_after s t pics)) = 0" "pic_next (snd (pics_after s t pics)) = 0"
    using pics_after_init [OF t(1), of x y] by (simp_all add: p)
  with t(1) g lines_after_init(1,2) [OF t(1)] show ?thesis by (intro exI [of _ t]) simp
qed

definition idle_pic :: pic where
  "idle_pic = \<lparr>pic_next = 0, pic_base = 0, pic_link = 0, pic_mode = 0, pic_mask = 0, pic_service = 0\<rparr>"

theorem idt_init_interrupts_witness:
  "\<exists>t. idt_init sample_symbols 0 boot_machine = (Inr (), t)
     \<and> irq_open (pics_after boot_machine t (idle_pic, idle_pic)) 1
     \<and> irq_vector (pics_after boot_machine t (idle_pic, idle_pic)) 1 = 33"
  using idt_init_interrupts [of boot_machine sample_symbols 0 "(idle_pic, idle_pic)"]
  by (fastforce simp: boot_machine_def null_idt_def)

text \<open>C34: every interrupt is ended: when the controllers deliver line \<open>k\<close> as vector \<open>32 + k\<close> while
  only interrupts of lower priority are being served, \<open>irq_handler\<close> returns and leaves both
  controllers serving exactly what they served before, so the line can interrupt again.\<close>

theorem irq_handler_ends_interrupt:
  assumes "line < 16" "irq_allowed line pics"
  shows "\<exists>t. irq_handler (of_nat (32 + line)) s = (Inr (), t) \<and> t = s\<lparr>io_log := io_log t\<rparr> \<and>
     pics_after s t (irq_begin line pics) = pics"
  using irq_end [OF assms] by (simp add: irq_handler_run pics_after_def del: of_nat_add)

theorem irq_handler_ends_interrupt_witness:
  "\<exists>t. irq_handler 44 boot_machine = (Inr (), t)
     \<and> pics_after boot_machine t (irq_begin 12 (idle_pic, idle_pic)) = (idle_pic, idle_pic)"
  using irq_handler_ends_interrupt [of 12 "(idle_pic, idle_pic)" boot_machine]
  by (auto simp: irq_allowed_def idle_pic_def)

text \<open>\<open>isr_handler\<close> halts with the report of the exception on rows 10 and 11 of the screen: the
  heading, the name of a processor exception in red, and the interrupt number in hexadecimal. It
  changes nothing outside the two rows.\<close>

lemma isr_handler_reports:
  assumes "kwin_at T F s" "off_tables F 0xB8000 4000"
  shows "\<exists>t. isr_handler n s = (Inl Halt, t) \<and> t = s\<lparr>mem := mem t\<rparr> \<and>
     text_at (mem t) 800 (text_cells 0x0C ''EXCEPTION: '') \<and>
     (n < 32 \<longrightarrow> text_at (mem t) 811 (text_cells 0x0C (exception_names ! unat n))) \<and>
     text_at (mem t) 880 (text_cells 0x0C ''INT#: '') \<and>
     text_at (mem t) 886 (text_cells 0x0F (hex_string n)) \<and>
     (\<forall>x. 320 \<le> unat (x - 0xB8640) \<longrightarrow> mem t x = mem s x)"
proof -
  let ?m = "put_texts (exception_report n) (mem s)"
  have shown: "text_at ?m (fst u) (snd u)" if "u \<in> set (exception_report n)" for u
    by (rule texts_shown [OF report_fits(1) that])
  have "\<forall>x. 320 \<le> unat (x - 0xB8640) \<longrightarrow> ?m x = mem s x"
    using put_texts_outside [of 160 _ 800, OF _ report_fits(2)] by (simp add: cell_addr_def)
  moreover have "text_at ?m 800 (text_cells 0x0C ''EXCEPTION: '')" "text_at ?m 880 (text_cells 0x0C ''INT#: '')"
    "text_at ?m 886 (text_cells 0x0F (hex_string n))"
    "n < 32 \<Longrightarrow> text_at ?m 811 (text_cells 0x0C (exception_names ! unat n))"
    using shown [of "(800, text_cells 0x0C ''EXCEPTION: '')"] shown [of "(880, text_cells 0x0C ''INT#: '')"]
      shown [of "(886, text_cells 0x0F (hex_string n))"]
      shown [of "(811, text_cells 0x0C (exception_names ! unat n))"] by (simp_all add: exception_report_def)
  ultimately show ?thesis by (simp add: isr_handler_run [OF assms])
qed

text \<open>The digits of \<open>print_hex\<close> read as a hexadecimal number give back the number printed, and
  they have the fixed form of \<open>0x\<close> and sixteen digits.\<close>

lemma print_hex_roundtrip:
  "print_hex n x y = print_at (hex_string n) x y 0x0F \<and> take 2 (hex_string n) = ''0x'' \<and>
   length (c_string (hex_string n)) = 18 \<and> hex_value (drop 2 (hex_string n)) = n"
  using hex_value_text [of 16 n] hex_string_length [of n]
  by (simp add: hex_string_text print_hex_def hex_string_def [symmetric] take_bit_word_eq_self)

end
