(* ===== verification/Kernel.thy ===== *)
theory Kernel
  imports Elf_Parser Pmm_Init KHeap_Alloc Idt
begin

text \<open>
  The kernel's entry, \<open>kernel.c\<close>: the processor features, the kernel's own page tables, the boot
  sequence up to the first user program and the handler of system calls. What the linker and the
  processor decide is a parameter: the addresses of the entry points and of the static data, and
  the feature bits. So is the value the compiler gives to the selector expression of
  \<open>enable_syscall\<close>, which shifts a 32-bit number by 32 and 48 bits: C leaves that undefined.
\<close>

section \<open>Operations\<close>

record kernel_image =
  symbols :: isr_symbols
  idt_addr :: u64
  syscall_stub :: u64
  user_program_addr :: u64
  entry_place :: u64
  cpuid_edx :: u32
  STAR_MSR_VAL :: u64

definition user_program_elf :: "u8 list" where
  "user_program_elf =
    [0x7F, 0x45, 0x4C, 0x46, 0x02, 0x01, 0x01, 0x00, 0x00, 0x00, 0x00, 0x00, 0x00, 0x00, 0x00, 0x00,
     0x02, 0x00, 0x3E, 0x00, 0x01, 0x00, 0x00, 0x00, 0x78, 0x00, 0x40, 0x00, 0x00, 0x00, 0x00, 0x00,
     0x40, 0x00, 0x00, 0x00, 0x00, 0x00, 0x00, 0x00, 0xE0, 0x01, 0x00, 0x00, 0x00, 0x00, 0x00, 0x00,
     0x00, 0x00, 0x00, 0x00, 0x40, 0x00, 0x38, 0x00, 0x01, 0x00, 0x40, 0x00, 0x07, 0x00, 0x06, 0x00,
     0x01, 0x00, 0x00, 0x00, 0x05, 0x00, 0x00, 0x00, 0x00, 0x00, 0x00, 0x00, 0x00, 0x00, 0x00, 0x00,
     0x00, 0x00, 0x40, 0x00, 0x00, 0x00, 0x00, 0x00, 0x00, 0x00, 0x40, 0x00, 0x00, 0x00, 0x00, 0x00,
     0xC0, 0x00, 0x00, 0x00, 0x00, 0x00, 0x00, 0x00, 0xC0, 0x00, 0x00, 0x00, 0x00, 0x00, 0x00, 0x00,
     0x00, 0x10, 0x00, 0x00, 0x00, 0x00, 0x00, 0x00, 0x55, 0x48, 0x89, 0xE5, 0x0F, 0x05, 0xB8, 0x00,
     0x00, 0x00, 0x00, 0x5D, 0xC3, 0x00, 0x00, 0x00, 0x14, 0x00, 0x00, 0x00, 0x00, 0x00, 0x00, 0x00,
     0x01, 0x7A, 0x52, 0x00, 0x01, 0x78, 0x10, 0x01, 0x1B, 0x0C, 0x07, 0x08, 0x90, 0x01, 0x00, 0x00,
     0x1C, 0x00, 0x00, 0x00, 0x1C, 0x00, 0x00, 0x00, 0xD0, 0xFF, 0xFF, 0xFF, 0x0D, 0x00, 0x00, 0x00,
     0x00, 0x41, 0x0E, 0x10, 0x86, 0x02, 0x43, 0x0D, 0x06, 0x48, 0x0C, 0x07, 0x08, 0x00, 0x00, 0x00,
     0x47, 0x43, 0x43, 0x3A, 0x20, 0x28, 0x47, 0x4E, 0x55, 0x29, 0x20, 0x31, 0x33, 0x2E, 0x32, 0x2E,
     0x30, 0x00, 0x00, 0x00, 0x00, 0x00, 0x00, 0x00, 0x00, 0x00, 0x00, 0x00, 0x00, 0x00, 0x00, 0x00,
     0x00, 0x00, 0x00, 0x00, 0x00, 0x00, 0x00, 0x00, 0x00, 0x00, 0x00, 0x00, 0x00, 0x00, 0x00, 0x00,
     0x01, 0x00, 0x00, 0x00, 0x04, 0x00, 0xF1, 0xFF, 0x00, 0x00, 0x00, 0x00, 0x00, 0x00, 0x00, 0x00,
     0x00, 0x00, 0x00, 0x00, 0x00, 0x00, 0x00, 0x00, 0x0D, 0x00, 0x00, 0x00, 0x10, 0x00, 0x00, 0x00,
     0x00, 0x00, 0x00, 0x00, 0x00, 0x00, 0x00, 0x00, 0x00, 0x00, 0x00, 0x00, 0x00, 0x00, 0x00, 0x00,
     0x08, 0x00, 0x00, 0x00, 0x10, 0x00, 0x02, 0x00, 0x00, 0x10, 0x40, 0x00, 0x00, 0x00, 0x00, 0x00,
     0x00, 0x00, 0x00, 0x00, 0x00, 0x00, 0x00, 0x00, 0x14, 0x00, 0x00, 0x00, 0x12, 0x00, 0x01, 0x00,
     0x78, 0x00, 0x40, 0x00, 0x00, 0x00, 0x00, 0x00, 0x0D, 0x00, 0x00, 0x00, 0x00, 0x00, 0x00, 0x00,
     0x19, 0x00, 0x00, 0x00, 0x10, 0x00, 0x02, 0x00, 0x00, 0x10, 0x40, 0x00, 0x00, 0x00, 0x00, 0x00,
     0x00, 0x00, 0x00, 0x00, 0x00, 0x00, 0x00, 0x00, 0x20, 0x00, 0x00, 0x00, 0x10, 0x00, 0x02, 0x00,
     0x00, 0x10, 0x40, 0x00, 0x00, 0x00, 0x00, 0x00, 0x00, 0x00, 0x00, 0x00, 0x00, 0x00, 0x00, 0x00,
     0x00, 0x74, 0x65, 0x73, 0x74, 0x2E, 0x63, 0x00, 0x5F, 0x5F, 0x62, 0x73, 0x73, 0x5F, 0x73, 0x74,
     0x61, 0x72, 0x74, 0x00, 0x6D, 0x61, 0x69, 0x6E, 0x00, 0x5F, 0x65, 0x64, 0x61, 0x74, 0x61, 0x00,
     0x5F, 0x65, 0x6E, 0x64, 0x00, 0x00, 0x2E, 0x73, 0x79, 0x6D, 0x74, 0x61, 0x62, 0x00, 0x2E, 0x73,
     0x74, 0x72, 0x74, 0x61, 0x62, 0x00, 0x2E, 0x73, 0x68, 0x73, 0x74, 0x72, 0x74, 0x61, 0x62, 0x00,
     0x2E, 0x74, 0x65, 0x78, 0x74, 0x00, 0x2E, 0x65, 0x68, 0x5F, 0x66, 0x72, 0x61, 0x6D, 0x65, 0x00,
     0x2E, 0x63, 0x6F, 0x6D, 0x6D, 0x65, 0x6E, 0x74, 0x00, 0x00, 0x00, 0x00, 0x00, 0x00, 0x00, 0x00,
     0x00, 0x00, 0x00, 0x00, 0x00, 0x00, 0x00, 0x00, 0x00, 0x00, 0x00, 0x00, 0x00, 0x00, 0x00, 0x00,
     0x00, 0x00, 0x00, 0x00, 0x00, 0x00, 0x00, 0x00, 0x00, 0x00, 0x00, 0x00, 0x00, 0x00, 0x00, 0x00,
     0x00, 0x00, 0x00, 0x00, 0x00, 0x00, 0x00, 0x00, 0x00, 0x00, 0x00, 0x00, 0x00, 0x00, 0x00, 0x00,
     0x00, 0x00, 0x00, 0x00, 0x00, 0x00, 0x00, 0x00, 0x00, 0x00, 0x00, 0x00, 0x00, 0x00, 0x00, 0x00,
     0x1B, 0x00, 0x00, 0x00, 0x01, 0x00, 0x00, 0x00, 0x06, 0x00, 0x00, 0x00, 0x00, 0x00, 0x00, 0x00,
     0x78, 0x00, 0x40, 0x00, 0x00, 0x00, 0x00, 0x00, 0x78, 0x00, 0x00, 0x00, 0x00, 0x00, 0x00, 0x00,
     0x0D, 0x00, 0x00, 0x00, 0x00, 0x00, 0x00, 0x00, 0x00, 0x00, 0x00, 0x00, 0x00, 0x00, 0x00, 0x00,
     0x01, 0x00, 0x00, 0x00, 0x00, 0x00, 0x00, 0x00, 0x00, 0x00, 0x00, 0x00, 0x00, 0x00, 0x00, 0x00,
     0x21, 0x00, 0x00, 0x00, 0x01, 0x00, 0x00, 0x00, 0x02, 0x00, 0x00, 0x00, 0x00, 0x00, 0x00, 0x00,
     0x88, 0x00, 0x40, 0x00, 0x00, 0x00, 0x00, 0x00, 0x88, 0x00, 0x00, 0x00, 0x00, 0x00, 0x00, 0x00,
     0x38, 0x00, 0x00, 0x00, 0x00, 0x00, 0x00, 0x00, 0x00, 0x00, 0x00, 0x00, 0x00, 0x00, 0x00, 0x00,
     0x08, 0x00, 0x00, 0x00, 0x00, 0x00, 0x00, 0x00, 0x00, 0x00, 0x00, 0x00, 0x00, 0x00, 0x00, 0x00,
     0x2B, 0x00, 0x00, 0x00, 0x01, 0x00, 0x00, 0x00, 0x30, 0x00, 0x00, 0x00, 0x00, 0x00, 0x00, 0x00,
     0x00, 0x00, 0x00, 0x00, 0x00, 0x00, 0x00, 0x00, 0xC0, 0x00, 0x00, 0x00, 0x00, 0x00, 0x00, 0x00,
     0x12, 0x00, 0x00, 0x00, 0x00, 0x00, 0x00, 0x00, 0x00, 0x00, 0x00, 0x00, 0x00, 0x00, 0x00, 0x00,
     0x01, 0x00, 0x00, 0x00, 0x00, 0x00, 0x00, 0x00, 0x01, 0x00, 0x00, 0x00, 0x00, 0x00, 0x00, 0x00,
     0x01, 0x00, 0x00, 0x00, 0x02, 0x00, 0x00, 0x00, 0x00, 0x00, 0x00, 0x00, 0x00, 0x00, 0x00, 0x00,
     0x00, 0x00, 0x00, 0x00, 0x00, 0x00, 0x00, 0x00, 0xD8, 0x00, 0x00, 0x00, 0x00, 0x00, 0x00, 0x00,
     0xA8, 0x00, 0x00, 0x00, 0x00, 0x00, 0x00, 0x00, 0x05, 0x00, 0x00, 0x00, 0x02, 0x00, 0x00, 0x00,
     0x08, 0x00, 0x00, 0x00, 0x00, 0x00, 0x00, 0x00, 0x18, 0x00, 0x00, 0x00, 0x00, 0x00, 0x00, 0x00,
     0x09, 0x00, 0x00, 0x00, 0x03, 0x00, 0x00, 0x00, 0x00, 0x00, 0x00, 0x00, 0x00, 0x00, 0x00, 0x00,
     0x00, 0x00, 0x00, 0x00, 0x00, 0x00, 0x00, 0x00, 0x80, 0x01, 0x00, 0x00, 0x00, 0x00, 0x00, 0x00,
     0x25, 0x00, 0x00, 0x00, 0x00, 0x00, 0x00, 0x00, 0x00, 0x00, 0x00, 0x00, 0x00, 0x00, 0x00, 0x00,
     0x01, 0x00, 0x00, 0x00, 0x00, 0x00, 0x00, 0x00, 0x00, 0x00, 0x00, 0x00, 0x00, 0x00, 0x00, 0x00,
     0x11, 0x00, 0x00, 0x00, 0x03, 0x00, 0x00, 0x00, 0x00, 0x00, 0x00, 0x00, 0x00, 0x00, 0x00, 0x00,
     0x00, 0x00, 0x00, 0x00, 0x00, 0x00, 0x00, 0x00, 0xA5, 0x01, 0x00, 0x00, 0x00, 0x00, 0x00, 0x00,
     0x34, 0x00, 0x00, 0x00, 0x00, 0x00, 0x00, 0x00, 0x00, 0x00, 0x00, 0x00, 0x00, 0x00, 0x00, 0x00,
     0x01, 0x00, 0x00, 0x00, 0x00, 0x00, 0x00, 0x00, 0x00, 0x00, 0x00, 0x00, 0x00, 0x00, 0x00, 0x00]"

definition v2p :: "u64 \<Rightarrow> u64" where
  "v2p v = v - KERNEL_BASE"

definition set_cr3 :: "u64 \<Rightarrow> unit kern" where
  "set_cr3 v = modify (\<lambda>s. s\<lparr>cr3 := v\<rparr>)"

definition paging_init :: "unit kern" where
  "paging_init =
     bind alloc_page (\<lambda>top_table.
     andthen (modify (\<lambda>s. s\<lparr>pml4t := top_table\<rparr>)) (
     bind alloc_page (\<lambda>pdpt.
     bind alloc_page (\<lambda>pdt.
     bind alloc_page (\<lambda>pt.
     andthen (memset top_table 0 PAGE_SIZE) (
     andthen (memset pdpt 0 PAGE_SIZE) (
     andthen (memset pdt 0 PAGE_SIZE) (
     andthen (memset pt 0 PAGE_SIZE) (
     andthen (store64 (slot top_table 511) (v2p pdpt OR 0x03)) (
     andthen (store64 (slot pdpt 510) (v2p pdt OR 0x03)) (
     andthen (store64 (slot pdt 0) (v2p pt OR 0x03)) (
     andthen (for_up 0 512 (\<lambda>i. store64 (slot pt i) ((i * PAGE_SIZE) OR 0x03))) (
     set_cr3 (v2p top_table))))))))))))))"

text \<open>An instruction on the register \<open>ax\<close> leaves the upper 48 bits of \<open>rax\<close> alone.\<close>

definition on_ax :: "(u16 \<Rightarrow> u16) \<Rightarrow> u64 \<Rightarrow> u64" where
  "on_ax f v = (v AND 0xFFFFFFFFFFFF0000) OR ucast (f (ucast v))"

definition sse_init :: "u32 \<Rightarrow> unit kern" where
  "sse_init edx =
     andthen (if edx AND push_bit 25 1 = 0 then panic ''SSE not supported'' else ret ())
       (modify (\<lambda>s. s\<lparr>cr0 := on_ax (\<lambda>ax. ax OR 0x2) (on_ax (\<lambda>ax. ax AND 0xFFFB) (cr0 s)),
                      cr4 := on_ax (\<lambda>ax. ax OR 0x600) (cr4 s)\<rparr>))"

definition enable_syscall :: "kernel_image \<Rightarrow> unit kern" where
  "enable_syscall k =
     bind (read_msr IA32_EFER) (\<lambda>v.
     andthen (write_msr IA32_EFER (v OR 1)) (
     andthen (write_msr STAR_MSR (STAR_MSR_VAL k)) (
     andthen (write_msr LSTAR_MSR (syscall_stub k))
      (write_msr SFMASK_MSR 0))))"

definition syscall_message :: string where
  "syscall_message = ''syscall has occured :O''"

primrec syscall_print :: "nat \<Rightarrow> string \<Rightarrow> unit kern" where
  "syscall_print i [] = ret ()"
| "syscall_print i (c # cs) =
     (if c = CHR 0x00 then ret ()
      else andthen (store16 (VGA_MEMORY + 2 * of_nat i) (vga_cell 0x0F00 c)) (syscall_print (i + 1) cs))"

definition syscall_handler :: "unit kern" where
  "syscall_handler = andthen (syscall_print 0 syscall_message) (raise Halt)"

text \<open>The parts of \<open>kernel_main\<close> in their order: the stack page and the pages of the memory map are
  set aside, the heap gets four pages, the first user program gets a top table.\<close>

definition reserve_pages :: "u64 \<Rightarrow> unit kern" where
  "reserve_pages mmap_count =
     andthen alloc_page (
     let mmap_size = 24 * mmap_count;
         page_count = (mmap_size + 4096 - 1) div 4096
     in for_up 0 page_count (\<lambda>_. andthen alloc_page (ret ())))"

definition heap_pages :: "unit kern" where
  "heap_pages =
     bind alloc_page (\<lambda>p.
     andthen (modify (\<lambda>s. s\<lparr>heap_start := p\<rparr>)) (
     andthen (for_up 0 3 (\<lambda>_. bind alloc_page (\<lambda>q. modify (\<lambda>s. s\<lparr>heap_end := q + PAGE_SIZE\<rparr>))))
      heap_init))"

definition user_space_init :: "task kern" where
  "user_space_init =
     bind pmm_alloc (\<lambda>tmp.
     let user_program = zero_task\<lparr>pid := 1, task_pml4t := tmp + KERNEL_BASE\<rparr> in
     bind (gets pml4t) (\<lambda>top_table.
     andthen (map_page \<lparr>ctx_pml4t = top_table, is_kernel = True\<rparr> (task_pml4t user_program) tmp 0x3) (
     andthen (memcpy (task_pml4t user_program) top_table 0x1000) (
     bind (get_physical_address \<lparr>ctx_pml4t = top_table, is_kernel = True\<rparr> (task_pml4t user_program)) (\<lambda>root.
     andthen (set_cr3 root) (ret user_program))))))"

definition kernel_main :: "kernel_image \<Rightarrow> u64 \<Rightarrow> u64 \<Rightarrow> unit kern" where
  "kernel_main k mmap mmap_count =
     andthen (idt_init (symbols k) (idt_addr k)) (
     andthen (sse_init (cpuid_edx k)) (
     andthen (reserve_pages mmap_count) (
     andthen paging_init (
     andthen (pmm_init mmap mmap_count) (
     andthen heap_pages (
     andthen (memset VGA_MEMORY 0 (80 * 25 * 2)) (
     andthen (enable_syscall k) (
     bind user_space_init (\<lambda>user_program.
     andthen (load_elf (entry_place k) user_program (user_program_addr k))
      (raise Halt))))))))))"

section \<open>Processor features and system calls\<close>

lemma on_ax_bit: "bit (on_ax f v) n = (if n < 16 then bit (f (ucast v)) n else bit v n)"
proof -
  have m: "(0xFFFFFFFFFFFF0000 :: u64) = NOT (mask 16)" by (simp add: mask_eq_exp_minus_1)
  show ?thesis unfolding on_ax_def m
    by (auto simp: bit_simps dest: bit_imp_le_length)
qed

text \<open>The single bits of the control words.\<close>

lemma bit_numbers:
  "bit (2 :: u64) n \<longleftrightarrow> n = 1" "bit (4 :: u64) n \<longleftrightarrow> n = 2" "bit (0x600 :: u64) n \<longleftrightarrow> n = 9 \<or> n = 10"
  "bit (2 :: u16) n \<longleftrightarrow> n = 1" "bit (4 :: u16) n \<longleftrightarrow> n = 2" "bit (0x600 :: u16) n \<longleftrightarrow> n = 9 \<or> n = 10"
  "bit (0x2000000 :: u32) n \<longleftrightarrow> n = 25"
proof -
  have e: "(0x600 :: u64) = 0x200 OR 0x400" "(0x600 :: u16) = 0x200 OR 0x400" by simp_all
  show "bit (2 :: u64) n \<longleftrightarrow> n = 1" using bit_exp_iff [of 1 n, where 'a = "64 word"] by auto
  show "bit (4 :: u64) n \<longleftrightarrow> n = 2" using bit_exp_iff [of 2 n, where 'a = "64 word"] by auto
  show "bit (0x600 :: u64) n \<longleftrightarrow> n = 9 \<or> n = 10" unfolding e bit_or_iff
    using bit_exp_iff [of 9 n, where 'a = "64 word"] bit_exp_iff [of 10 n, where 'a = "64 word"] by auto
  show "bit (2 :: u16) n \<longleftrightarrow> n = 1" using bit_exp_iff [of 1 n, where 'a = "16 word"] by auto
  show "bit (4 :: u16) n \<longleftrightarrow> n = 2" using bit_exp_iff [of 2 n, where 'a = "16 word"] by auto
  show "bit (0x600 :: u16) n \<longleftrightarrow> n = 9 \<or> n = 10" unfolding e bit_or_iff
    using bit_exp_iff [of 9 n, where 'a = "16 word"] bit_exp_iff [of 10 n, where 'a = "16 word"] by auto
  show "bit (0x2000000 :: u32) n \<longleftrightarrow> n = 25" using bit_exp_iff [of 25 n, where 'a = "32 word"] by auto
qed

lemma sse_cr0: "on_ax (\<lambda>ax. ax OR 0x2) (on_ax (\<lambda>ax. ax AND 0xFFFB) v) = (v AND NOT 4) OR 2"
proof -
  have m: "(0xFFFB :: u16) = NOT 4" by simp
  show ?thesis unfolding m
    by (rule bit_word_eqI, simp only: on_ax_bit bit_or_iff bit_and_iff bit_not_iff_eq bit_unsigned_iff bit_numbers) auto
qed

lemma sse_cr4: "on_ax (\<lambda>ax. ax OR 0x600) v = v OR 0x600"
  by (rule bit_word_eqI, simp only: on_ax_bit bit_or_iff bit_unsigned_iff bit_numbers) auto

lemma syscall_print_cells:
  "syscall_print i cs = store_cells (VGA_MEMORY + 2 * of_nat i) (map (vga_cell 0x0F00) (c_string cs))"
  by (induction cs arbitrary: i) (simp_all add: c_string_def algebra_simps)

section \<open>Properties\<close>

text \<open>C38: \<open>sse_init\<close>, which runs on the tables of the boot loader before \<open>pml4t\<close> is set, panics on a processor
  without SSE; otherwise it clears the emulation bit and sets
  the monitor bit of \<open>CR0\<close>, sets the two SSE bits of \<open>CR4\<close>, and changes nothing else.\<close>

theorem sse_init_enables:
  assumes "window F s" "off_tables F 0xB8780 34"
  shows "(bit edx 25 \<longrightarrow> sse_init edx s = (Inr (), s\<lparr>cr0 := (cr0 s AND NOT 4) OR 2, cr4 := cr4 s OR 0x600\<rparr>)) \<and>
    (\<not> bit edx 25 \<longrightarrow> fst (sse_init edx s) = Inl (Panic ''SSE not supported''))"
proof -
  have "edx AND 0x2000000 = 0 \<longleftrightarrow> \<not> bit edx 25"
    unfolding bit_eq_iff [of "edx AND 0x2000000"] bit_and_iff bit_numbers by (auto dest: spec [of _ 25])
  then have b: "edx AND push_bit 25 1 = 0 \<longleftrightarrow> \<not> bit edx 25" by simp
  have "length (c_string ''SSE not supported'') = 17" by (simp add: c_string_def)
  then have "fst (panic ''SSE not supported'' s :: (fault + unit) \<times> machine) = Inl (Panic ''SSE not supported'')"
    using panic_run [where 'a = unit, OF assms(1), of "''SSE not supported''"] assms(2) by simp
  then show ?thesis unfolding sse_init_def b
    by (auto simp: monad sse_cr0 sse_cr4 split: prod.splits)
qed

theorem sse_init_enables_witness:
  "sse_init 0x2000000 (boot_machine\<lparr>pml4t := 0\<rparr>) = (Inr (), boot_machine\<lparr>pml4t := 0, cr0 := 0x80000013, cr4 := 0x620\<rparr>)
   \<and> fst (sse_init 0 (boot_machine\<lparr>pml4t := 0\<rparr>)) = Inl (Panic ''SSE not supported'')"
proof -
  let ?s = "boot_machine\<lparr>pml4t := 0\<rparr>"
  have "off_tables boot_frames 0xB8780 34" by (rule boot_off_tables) simp_all
  moreover have "window boot_frames ?s" using kwin_window [OF boot_kwin] by simp
  moreover have "bit (0x2000000 :: u32) 25" by code_simp
  ultimately show ?thesis using sse_init_enables [of boot_frames ?s "0x2000000"] sse_init_enables [of boot_frames ?s 0]
    by (simp add: boot_machine_def)
qed

text \<open>\<open>enable_syscall\<close> sets the system call bit of the feature register and keeps its other bits,
  points the entry register at the stub, clears the flag mask and leaves every other register alone.\<close>

lemma enable_syscall_msrs:
  "\<exists>t. enable_syscall k s = (Inr (), t) \<and> t = s\<lparr>msr := msr t\<rparr> \<and>
     bit (msr t IA32_EFER) 0 \<and> (\<forall>n>0. bit (msr t IA32_EFER) n = bit (msr s IA32_EFER) n) \<and>
     msr t LSTAR_MSR = syscall_stub k \<and> msr t SFMASK_MSR = 0 \<and> msr t STAR_MSR = STAR_MSR_VAL k \<and>
     (\<forall>r. r \<notin> {IA32_EFER, STAR_MSR, LSTAR_MSR, SFMASK_MSR} \<longrightarrow> msr t r = msr s r)"
  by (simp add: enable_syscall_def monad read_msr_run write_msr_run)
    (auto simp: kconst bit_simps)

definition sample_image :: kernel_image where
  "sample_image = \<lparr>symbols = sample_symbols, idt_addr = 0xFFFFFFFF8000C000, syscall_stub = 0xFFFFFFFF8000A400,
     user_program_addr = 0xFFFFFFFF8000D000, entry_place = 0x38, cpuid_edx = 0x2000000, STAR_MSR_VAL = 0\<rparr>"

lemma enable_syscall_msrs_witness:
  "\<exists>t. enable_syscall sample_image boot_machine = (Inr (), t) \<and> msr t LSTAR_MSR = 0xFFFFFFFF8000A400"
  using enable_syscall_msrs [of sample_image boot_machine] by (auto simp: sample_image_def)

text \<open>\<open>syscall_handler\<close> prints its message at the upper left corner of the screen and halts; nothing
  else is changed.\<close>

lemma syscall_handler_prints:
  assumes "kwin_at T F s" "off_tables F 0xB8000 4000"
  shows "\<exists>t. syscall_handler s = (Inl Halt, t) \<and> t = s\<lparr>mem := mem t\<rparr> \<and>
     text_at (mem t) 0 (text_cells 0x0F syscall_message) \<and> (\<forall>x. 44 \<le> unat (x - 0xB8000) \<longrightarrow> mem t x = mem s x)"
proof -
  let ?ws = "text_cells 0x0F syscall_message"
  have "c_string syscall_message = syscall_message" by (simp add: syscall_message_def c_string_def)
  then have l: "length ?ws = 22" by (simp add: syscall_message_def)
  have c: "map (vga_cell 0x0F00) (c_string syscall_message) = ?ws" by (simp add: text_cells_def)
  have a: "cell_addr 0 = 0xB8000" by (simp add: cell_addr_def)
  have w: "in_win VGA_MEMORY (2 * length ?ws)" "off_tables F (VGA_MEMORY - KERNEL_BASE) (2 * length ?ws)"
    using off_tables_sub [OF assms(2), of 0 44] unfolding l by (simp_all add: in_win_def kconst)
  have "syscall_print 0 syscall_message s = (Inr (), s\<lparr>mem := put_text 0 ?ws (mem s)\<rparr>)"
    using kwin_store_cells [OF assms(1) w] unfolding syscall_print_cells c
    by (simp add: put_text_def a) (simp add: kconst)
  then have "syscall_handler s = (Inl Halt, s\<lparr>mem := put_text 0 ?ws (mem s)\<rparr>)"
    by (simp add: syscall_handler_def monad)
  moreover have "text_at (put_text 0 ?ws (mem s)) 0 ?ws" by (rule text_at_put) (simp only: l)
  moreover have "put_text 0 ?ws (mem s) x = mem s x" if "44 \<le> unat (x - 0xB8000)" for x
    using that l by (simp add: put_text_def a pwrite_outside)
  ultimately show ?thesis by simp
qed

end
