(* ===== verification/Kernel_Paging.thy ===== *)
theory Kernel_Paging
  imports Kernel
begin

text \<open>
  \<open>paging_init\<close> builds the kernel's own page tables in four pages of the pool, through the mapping
  the boot loader left, and switches to them. It establishes the window on which every other
  component rests.
\<close>

section \<open>Writing through the boot loader's mapping\<close>

text \<open>Memories that differ only in the \<open>n\<close> bytes at \<open>P\<close>, and a mapping of the window that writes to
  these bytes do not disturb.\<close>

definition agree_out :: "u64 \<Rightarrow> nat \<Rightarrow> pmem \<Rightarrow> pmem \<Rightarrow> bool" where
  "agree_out P n m m' \<longleftrightarrow> (\<forall>x. n \<le> unat (x - P) \<longrightarrow> m' x = m x)"

definition boot_map :: "machine \<Rightarrow> u64 \<Rightarrow> nat \<Rightarrow> bool" where
  "boot_map s P n \<longleftrightarrow> (\<forall>m. agree_out P n (mem s) m \<longrightarrow> mapped (s\<lparr>mem := m\<rparr>) KERNEL_BASE 0x1FF000 0)"

lemma agree_out_refl: "agree_out P n m m"
  by (simp add: agree_out_def)

lemma agree_out_pwrite:
  assumes "agree_out P n m m'" "k + length bs \<le> n" "n < 2 ^ 64"
  shows "agree_out P n m (pwrite m' (P + of_nat k) bs)"
  unfolding agree_out_def
proof (intro allI impI)
  fix x assume x: "n \<le> unat (x - P)"
  then have "length bs \<le> unat (x - (P + of_nat k))" using outside_sub [OF x assms(2,3)] by simp
  then show "pwrite m' (P + of_nat k) bs x = m x" using assms(1) x by (simp add: pwrite_outside agree_out_def)
qed

lemma mapped_cong: "mem t = mem u \<Longrightarrow> cr3 t = cr3 u \<Longrightarrow> mapped t a n p = mapped u a n p"
  by (simp add: mapped_def translate_def)

text \<open>A state that differs from \<open>s\<close> in those bytes and in registers and variables other than \<open>CR3\<close>.\<close>

definition boot_step :: "machine \<Rightarrow> u64 \<Rightarrow> machine \<Rightarrow> bool" where
  "boot_step s P t \<longleftrightarrow> agree_out P 0x4000 (mem s) (mem t) \<and> cr3 t = cr3 s"

lemma boot_step_mapped:
  assumes "boot_map s P 0x4000" "boot_step s P t" "unat P + 0x4000 \<le> 0x1FF000" "k + n \<le> 0x4000"
  shows "mapped t (KERNEL_BASE + P + of_nat k) n (P + of_nat k)"
proof -
  have "mapped (s\<lparr>mem := mem t\<rparr>) KERNEL_BASE 0x1FF000 0"
    using assms(1,2) by (simp add: boot_map_def boot_step_def)
  then have "mapped t KERNEL_BASE 0x1FF000 0" using mapped_cong [of t "s\<lparr>mem := mem t\<rparr>"] assms(2)
    by (simp add: boot_step_def)
  from mapped_sub [OF this, of "unat P + k" n] assms(3,4)
  show ?thesis by (simp add: of_nat_unat add.assoc)
qed

lemma boot_store64:
  assumes "boot_map s P 0x4000" "boot_step s P t" "unat P + 0x4000 \<le> 0x1FF000" "k + 8 \<le> 0x4000"
  shows "store64 (KERNEL_BASE + P + of_nat k) v t = (Inr (), t\<lparr>mem := pwrite64 (mem t) (P + of_nat k) v\<rparr>)
    \<and> boot_step s P (t\<lparr>mem := pwrite64 (mem t) (P + of_nat k) v\<rparr>)"
  using store64_mapped [OF boot_step_mapped [OF assms]] agree_out_pwrite [of P "0x4000" "mem s" "mem t" k "le_bytes 8 v"] assms(2,4)
  by (simp add: boot_step_def pwrite64_def)

lemma boot_memset:
  assumes "boot_map s P 0x4000" "boot_step s P t" "unat P + 0x4000 \<le> 0x1FF000" "k + 4096 \<le> 0x4000"
  shows "memset (KERNEL_BASE + P + of_nat k) 0 PAGE_SIZE t
      = (Inr (KERNEL_BASE + P + of_nat k), t\<lparr>mem := pwrite (mem t) (P + of_nat k) (replicate 4096 0)\<rparr>)
    \<and> boot_step s P (t\<lparr>mem := pwrite (mem t) (P + of_nat k) (replicate 4096 0)\<rparr>)"
proof -
  let ?I = "\<lambda>m. agree_out P 0x4000 (mem s) m"
  have "mapped (t\<lparr>mem := m\<rparr>) (KERNEL_BASE + P + of_nat k) 4096 (P + of_nat k)" if "?I m" for m
    using that boot_step_mapped [OF assms(1), of "t\<lparr>mem := m\<rparr>" k 4096] assms(2-4) by (simp add: boot_step_def)
  moreover have "?I (m(P + of_nat k + of_nat j := b))" if "?I m" "j < 4096" for m j b
    using agree_out_pwrite [OF that(1), of "k + j" "[b]"] that(2) assms(4)
    by (simp add: pwrite_single add.assoc)
  moreover have "?I (mem t)" "unat PAGE_SIZE = 4096" using assms(2) by (simp_all add: boot_step_def PAGE_SIZE_def)
  ultimately have "memset (KERNEL_BASE + P + of_nat k) 0 PAGE_SIZE t
      = (Inr (KERNEL_BASE + P + of_nat k), t\<lparr>mem := pwrite (mem t) (P + of_nat k) (replicate 4096 (ucast (0 :: i32)))\<rparr>)
     \<and> ?I (pwrite (mem t) (P + of_nat k) (replicate 4096 (ucast (0 :: i32))))"
    using memset_mapped [where I = ?I and n = 4096 and p = "P + of_nat k" and s = t and c = 0] by blast
  then show ?thesis using assms(2) by (simp add: boot_step_def)
qed

section \<open>The words of the four tables\<close>

definition words_are :: "u64 \<Rightarrow> pmem \<Rightarrow> (nat \<Rightarrow> u64) \<Rightarrow> bool" where
  "words_are P m f \<longleftrightarrow> (\<forall>i<2048. pread64 m (P + of_nat (8 * i)) = f i)"

lemma words_store:
  assumes "words_are P m f" "k < 2048"
  shows "words_are P (pwrite64 m (P + of_nat (8 * k)) v) (f(k := v))"
  unfolding words_are_def
proof (intro allI impI)
  fix i :: nat assume i: "i < 2048"
  show "pread64 (pwrite64 m (P + of_nat (8 * k)) v) (P + of_nat (8 * i)) = (f(k := v)) i"
  proof (cases "i = k")
    case False
    then have "8 * k + 8 \<le> 8 * i \<or> 8 * i + 8 \<le> 8 * k" by auto
    then have "apart (P + of_nat (8 * k)) 8 (P + of_nat (8 * i)) 8"
      using apart_offsets [of "8 * k" 8 "8 * i" 8 P] apart_sym [OF apart_offsets [of "8 * i" 8 "8 * k" 8 P]]
        i assms(2) by fastforce
    then show ?thesis using False assms(1) i by (simp add: pread64_pwrite64_apart words_are_def)
  qed simp
qed

lemma words_clear:
  assumes "words_are P m f" "q < 4"
  shows "words_are P (pwrite m (P + of_nat (4096 * q)) (replicate 4096 0)) (\<lambda>i. if i div 512 = q then 0 else f i)"
  unfolding words_are_def
proof (intro allI impI)
  fix i :: nat assume i: "i < 2048"
  let ?m = "pwrite m (P + of_nat (4096 * q)) (replicate 4096 0)"
  show "pread64 ?m (P + of_nat (8 * i)) = (if i div 512 = q then 0 else f i)"
  proof (cases "i div 512 = q")
    case True
    then obtain j where j: "8 * i = 4096 * q + 8 * j" "j < 512"
      using that [of "i mod 512"] div_mult_mod_eq [of i 512] by simp
    have "pread ?m (P + of_nat (4096 * q) + of_nat (8 * j)) 8 = take 8 (drop (8 * j) (replicate 4096 0))"
      by (rule pread_pwrite_sub) (use j(2) in simp_all)
    also have "\<dots> = replicate 8 0" using j(2) by (simp add: min_def)
    finally have "pread ?m (P + of_nat (8 * i)) 8 = replicate 8 0" unfolding j(1) by (simp add: add.assoc)
    then show ?thesis using True by (simp add: pread64_def le_word_replicate_0)
  next
    case False
    then consider "i div 512 < q" | "q < i div 512" by linarith
    then have "8 * i + 8 \<le> 4096 * q \<or> 4096 * q + 4096 \<le> 8 * i"
    proof cases
      case 1
      then have "i < q * 512" by (simp add: div_less_iff_less_mult)
      then show ?thesis by linarith
    next
      case 2
      then have "(q + 1) * 512 \<le> i" using less_eq_div_iff_mult_less_eq [of 512 "q + 1" i] by simp
      then show ?thesis by simp
    qed
    then have "apart (P + of_nat (4096 * q)) 4096 (P + of_nat (8 * i)) 8"
      using apart_offsets [of "4096 * q" 4096 "8 * i" 8 P] apart_sym [OF apart_offsets [of "8 * i" 8 "4096 * q" 4096 P]]
        i assms(2) by fastforce
    then show ?thesis using False assms(1) i by (simp add: pread64_pwrite_apart words_are_def)
  qed
qed

text \<open>The tables \<open>paging_init\<close> builds.\<close>

definition kernel_tables :: "u64 \<Rightarrow> nat \<Rightarrow> u64" where
  "kernel_tables P i =
     (if i = 511 then (P + 0x1000) OR 3
      else if i = 1022 then (P + 0x2000) OR 3
      else if i = 1024 then (P + 0x3000) OR 3
      else if 1536 \<le> i then (of_nat (i - 1536) * 0x1000) OR 3
      else 0)"

definition pool_frames :: "u64 \<Rightarrow> kframes" where
  "pool_frames P = \<lparr>kf_root = P, kf_pml4 = P, kf_pdpt = P + 0x1000, kf_pd = P + 0x2000, kf_pt = P + 0x3000\<rparr>"

lemma table_loop:
  assumes "boot_map s P 0x4000" "boot_step s P t" "unat P + 0x4000 \<le> 0x1FF000" "words_are P (mem t) f"
  shows "\<exists>u. for_up 0 512 (\<lambda>i. store64 (slot (KERNEL_BASE + P + 0x3000) i) ((i * PAGE_SIZE) OR 3)) t = (Inr (), u)
     \<and> boot_step s P u \<and> u = t\<lparr>mem := mem u\<rparr>
     \<and> words_are P (mem u) (\<lambda>i. if 1536 \<le> i \<and> i < 2048 then (of_nat (i - 1536) * 0x1000) OR 3 else f i)"
proof -
  let ?P = "\<lambda>j u. boot_step s P u \<and> u = t\<lparr>mem := mem u\<rparr>
     \<and> words_are P (mem u) (\<lambda>i. if 1536 \<le> i \<and> i < 1536 + j then (of_nat (i - 1536) * 0x1000) OR 3 else f i)"
  have "\<exists>u. for_up 0 512 (\<lambda>i. store64 (slot (KERNEL_BASE + P + 0x3000) i) ((i * PAGE_SIZE) OR 3)) t = (Inr (), u)
     \<and> ?P (unat (512 :: u64)) u"
  proof (rule for_up_rule)
    show "?P (unat (0 :: u64)) t" using assms(2,4) by (auto simp: words_are_def)
    fix j u assume j: "j < unat (512 :: u64)" and P: "?P j u"
    let ?k = "1536 + j" and ?v = "(of_nat j * 0x1000) OR 3 :: u64"
    have a: "slot (KERNEL_BASE + P + 0x3000) (of_nat j) = KERNEL_BASE + P + of_nat (8 * ?k)" by (simp add: slot_def)
    have st: "store64 (KERNEL_BASE + P + of_nat (8 * ?k)) ?v u = (Inr (), u\<lparr>mem := pwrite64 (mem u) (P + of_nat (8 * ?k)) ?v\<rparr>)
      \<and> boot_step s P (u\<lparr>mem := pwrite64 (mem u) (P + of_nat (8 * ?k)) ?v\<rparr>)"
      using boot_store64 [OF assms(1) conjunct1 [OF P] assms(3), of "8 * ?k" ?v] j by simp
    have eq: "(\<lambda>i. if 1536 \<le> i \<and> i < 1536 + j then (of_nat (i - 1536) * 0x1000) OR 3 else f i)(?k := ?v)
       = (\<lambda>i. if 1536 \<le> i \<and> i < 1536 + Suc j then (of_nat (i - 1536) * 0x1000) OR 3 else f i)"
      by (rule ext) auto
    have "words_are P (pwrite64 (mem u) (P + of_nat (8 * ?k)) ?v)
       (\<lambda>i. if 1536 \<le> i \<and> i < 1536 + Suc j then (of_nat (i - 1536) * 0x1000) OR 3 else f i)"
      using words_store [OF conjunct2 [OF conjunct2 [OF P]], of ?k ?v] j unfolding eq by simp
    moreover have "u\<lparr>mem := m\<rparr> = t\<lparr>mem := m\<rparr>" for m
      by (subst conjunct1 [OF conjunct2 [OF P]]) simp
    ultimately show "\<exists>u'. store64 (slot (KERNEL_BASE + P + 0x3000) (of_nat j)) ((of_nat j * PAGE_SIZE) OR 3) u = (Inr (), u') \<and> ?P (Suc j) u'"
      unfolding a using st by (intro exI [of _ "u\<lparr>mem := pwrite64 (mem u) (P + of_nat (8 * ?k)) ?v\<rparr>"]) (simp add: PAGE_SIZE_def del: of_nat_mult of_nat_add)
  qed simp
  then show ?thesis by simp
qed

section \<open>The kernel's window\<close>

lemma pool_alloc:
  assumes "next_free t = KERNEL_BASE + P + of_nat k" "unat P + k + 0x1000 < 0x1FF000"
  shows "alloc_page t = (Inr (KERNEL_BASE + P + of_nat k), t\<lparr>next_free := KERNEL_BASE + P + of_nat (k + 0x1000)\<rparr>)"
proof -
  have e: "next_free t + PAGE_SIZE = KERNEL_BASE + of_nat (unat P + k + 0x1000)"
    by (simp add: assms(1) PAGE_SIZE_def of_nat_unat)
  have "unat (next_free t + PAGE_SIZE) = 0xFFFFFFFF80000000 + (unat P + k + 0x1000)"
    unfolding e by (rule unat_kernel_addr) (use assms(2) in simp)
  then have "\<not> POOL_END \<le> next_free t + PAGE_SIZE"
    using assms(2) by (simp add: word_le_nat_alt POOL_END_def)
  then show ?thesis by (simp add: alloc_page_def assms(1) PAGE_SIZE_def add.assoc)
qed

lemma tables_kmap:
  assumes "words_are P m (kernel_tables P)" "page_aligned P" "unat P + 0x4000 < 0x1FF000"
  shows "kmap (pool_frames P) m P (KERNEL_BASE + P)"
proof -
  have u: "unat (P + of_nat k) = unat P + k" if "k \<le> 0x4000" for k
    using that assms(3) by (intro unat_add_of_nat) simp
  have al: "page_aligned (P + of_nat (4096 * q))" if "q < 4" for q
    using that assms(2) u [of "4096 * q"] by (simp add: page_aligned_iff)
  have fr: "low_frame P" "low_frame (P + 0x1000)" "low_frame (P + 0x2000)" "low_frame (P + 0x3000)"
    using al [of 0] al [of 1] al [of 2] al [of 3] u [of 0] u [of "0x1000"] u [of "0x2000"] u [of "0x3000"] assms(3)
    by (simp_all add: low_frame_def)
  have w: "pread64 m (P + of_nat (8 * i)) = kernel_tables P i" if "i < 2048" for i
    using assms(1) that by (simp add: words_are_def)
  have "next_table m (P + 0xFF8) = Some (P + 0x1000)" "next_table m (P + 0x1FF0) = Some (P + 0x2000)"
    "next_table m (P + 0x2000) = Some (P + 0x3000)"
    using w [of 511] w [of 1022] w [of 1024] fr
    by (simp_all add: next_table_def kernel_tables_def entry_mask entry_flag low_frame_def)
  moreover have "leaf_frame m (P + 0x3000 + 8 * of_nat i) = Some (of_nat i * 0x1000)" if "i < 511" for i
  proof -
    have f: "unat (of_nat i * 0x1000 :: u64) = i * 4096"
      using unat_of_nat64 [of "i * 4096"] that by simp
    then have "page_aligned (of_nat i * 0x1000)" by (simp add: page_aligned_iff)
    moreover have "P + 0x3000 + 8 * of_nat i = P + of_nat (8 * (1536 + i))" by simp
    ultimately show ?thesis using f w [of "1536 + i"] that
      by (simp add: leaf_frame_def kernel_tables_def entry_mask entry_flag add.assoc)
  qed
  moreover have "distinct [P, P + 0x1000, P + 0x2000, P + 0x3000]"
    by simp
  moreover have "P AND PAGE_MASK = P" using fr(1) by (simp add: aligned_mask low_frame_def)
  ultimately show ?thesis using fr by (simp add: kmap_def pool_frames_def add.assoc)
qed

text \<open>The memory after the clearing of the tables and after the three upper entries.\<close>

definition cleared :: "u64 \<Rightarrow> pmem \<Rightarrow> pmem" where
  "cleared P m = fold (\<lambda>q m. pwrite m (P + of_nat (4096 * q)) (replicate 4096 0)) [0, 1, 2, 3] m"

definition linked :: "u64 \<Rightarrow> pmem \<Rightarrow> pmem" where
  "linked P m =
     pwrite64 (pwrite64 (pwrite64 (cleared P m) (P + of_nat (8 * 511)) ((P + 0x1000) OR 3))
       (P + of_nat (8 * 1022)) ((P + 0x2000) OR 3)) (P + of_nat (8 * 1024)) ((P + 0x3000) OR 3)"

lemma words_init: "words_are P m (\<lambda>i. pread64 m (P + of_nat (8 * i)))"
  by (simp add: words_are_def)

lemma words_linked:
  "words_are P (linked P m) (\<lambda>i. if i = 511 then (P + 0x1000) OR 3 else if i = 1022 then (P + 0x2000) OR 3
     else if i = 1024 then (P + 0x3000) OR 3 else 0)" (is "words_are _ _ ?f")
proof -
  have "words_are P (cleared P m) (\<lambda>i. if i div 512 = 3 then 0 else if i div 512 = 2 then 0 else if i div 512 = 1 then 0
     else if i div 512 = 0 then 0 else pread64 m (P + of_nat (8 * i)))"
    using words_clear [OF words_clear [OF words_clear [OF words_clear [OF words_init [of P m], of 0], of 1], of 2], of 3]
    by (simp add: cleared_def)
  then have "words_are P (cleared P m) (\<lambda>_. 0)"
    unfolding words_are_def by (auto split: if_splits)
  from words_store [OF words_store [OF words_store [OF this, of 511 "(P + 0x1000) OR 3"], of 1022 "(P + 0x2000) OR 3"],
      of 1024 "(P + 0x3000) OR 3"]
  have "words_are P (linked P m) ((((\<lambda>_. 0)(511 := (P + 0x1000) OR 3))(1022 := (P + 0x2000) OR 3))(1024 := (P + 0x3000) OR 3))"
    by (simp add: linked_def)
  then show ?thesis by (auto simp: words_are_def)
qed

lemma words_cong: "words_are P m f \<Longrightarrow> \<forall>i<2048. f i = g i \<Longrightarrow> words_are P m g"
  by (simp add: words_are_def)

lemma kernel_tables_alt:
  "\<forall>i<2048. (if 1536 \<le> i \<and> i < 2048 then (of_nat (i - 1536) * 0x1000) OR 3
     else if i = 511 then (P + 0x1000) OR 3 else if i = 1022 then (P + 0x2000) OR 3
     else if i = 1024 then (P + 0x3000) OR 3 else 0) = kernel_tables P i"
  by (auto simp: kernel_tables_def)

lemma paging_init_run:
  assumes "boot_map s P 0x4000" "next_free s = KERNEL_BASE + P" "unat P + 0x4000 < 0x1FF000"
  shows "\<exists>t. paging_init s = (Inr (), t) \<and> agree_out P 0x4000 (mem s) (mem t) \<and> words_are P (mem t) (kernel_tables P)
     \<and> t = s\<lparr>mem := mem t, cr3 := P, pml4t := KERNEL_BASE + P, next_free := KERNEL_BASE + P + 0x4000\<rparr>"
proof -
  note B = assms(1)
  have le: "unat P + 0x4000 \<le> 0x1FF000" using assms(3) by simp
  define s1 where "s1 = s\<lparr>pml4t := KERNEL_BASE + P, next_free := KERNEL_BASE + P + 0x4000\<rparr>"
  have al: "alloc_page s = (Inr (KERNEL_BASE + P), s\<lparr>next_free := KERNEL_BASE + P + 0x1000\<rparr>)"
    "\<And>t. next_free t = KERNEL_BASE + P + 0x1000 \<Longrightarrow> alloc_page t = (Inr (KERNEL_BASE + P + 0x1000), t\<lparr>next_free := KERNEL_BASE + P + 0x2000\<rparr>)"
    "\<And>t. next_free t = KERNEL_BASE + P + 0x2000 \<Longrightarrow> alloc_page t = (Inr (KERNEL_BASE + P + 0x2000), t\<lparr>next_free := KERNEL_BASE + P + 0x3000\<rparr>)"
    "\<And>t. next_free t = KERNEL_BASE + P + 0x3000 \<Longrightarrow> alloc_page t = (Inr (KERNEL_BASE + P + 0x3000), t\<lparr>next_free := KERNEL_BASE + P + 0x4000\<rparr>)"
    using pool_alloc [of s P 0] pool_alloc [of _ P "0x1000"] pool_alloc [of _ P "0x2000"] pool_alloc [of _ P "0x3000"]
      assms(2,3) by simp_all
  let ?st = "\<lambda>m. s1\<lparr>mem := m\<rparr>" and ?ok = "\<lambda>m. boot_step s P (s1\<lparr>mem := m\<rparr>)"
  have ms: "memset (KERNEL_BASE + P + of_nat (4096 * q)) 0 PAGE_SIZE (?st m)
      = (Inr (KERNEL_BASE + P + of_nat (4096 * q)), ?st (pwrite m (P + of_nat (4096 * q)) (replicate 4096 0)))
    \<and> ?ok (pwrite m (P + of_nat (4096 * q)) (replicate 4096 0))" if "q < 4" "?ok m" for q m
    using boot_memset [OF B that(2) le, of "4096 * q"] that(1) by simp
  have st: "store64 (KERNEL_BASE + P + of_nat (8 * k)) v (?st m) = (Inr (), ?st (pwrite64 m (P + of_nat (8 * k)) v))
    \<and> ?ok (pwrite64 m (P + of_nat (8 * k)) v)" if "k < 2048" "?ok m" for k m v
    using boot_store64 [OF B that(2) le, of "8 * k" v] that(1) by simp
  have e: "s1 = ?st (mem s)" and k0: "?ok (mem s)" by (simp_all add: boot_step_def s1_def agree_out_refl)
  let ?z = "replicate 4096 (0 :: u8)"
  define m1 m2 m3 m4 where m: "m1 = pwrite (mem s) P ?z" "m2 = pwrite m1 (P + 0x1000) ?z" "m3 = pwrite m2 (P + 0x2000) ?z"
    "m4 = pwrite m3 (P + 0x3000) ?z"
  define m5 m6 m7 where n: "m5 = pwrite64 m4 (P + 0xFF8) ((P + 0x1000) OR 3)"
    "m6 = pwrite64 m5 (P + 0x1FF0) ((P + 0x2000) OR 3)" "m7 = pwrite64 m6 (P + 0x2000) ((P + 0x3000) OR 3)"
  have c1: "memset (KERNEL_BASE + P) 0 PAGE_SIZE s1 = (Inr (KERNEL_BASE + P), ?st m1) \<and> ?ok m1"
    using ms [OF _ k0, of 0] e m by simp
  have c2: "memset (KERNEL_BASE + P + 0x1000) 0 PAGE_SIZE (?st m1) = (Inr (KERNEL_BASE + P + 0x1000), ?st m2) \<and> ?ok m2"
    using ms [OF _ conjunct2 [OF c1], of 1] m by simp
  have c3: "memset (KERNEL_BASE + P + 0x2000) 0 PAGE_SIZE (?st m2) = (Inr (KERNEL_BASE + P + 0x2000), ?st m3) \<and> ?ok m3"
    using ms [OF _ conjunct2 [OF c2], of 2] m by simp
  have c4: "memset (KERNEL_BASE + P + 0x3000) 0 PAGE_SIZE (?st m3) = (Inr (KERNEL_BASE + P + 0x3000), ?st m4) \<and> ?ok m4"
    using ms [OF _ conjunct2 [OF c3], of 3] m by simp
  have c5: "store64 (slot (KERNEL_BASE + P) 511) ((P + 0x1000) OR 3) (?st m4) = (Inr (), ?st m5) \<and> ?ok m5"
    using st [OF _ conjunct2 [OF c4], of 511] n by (simp add: slot_def)
  have c6: "store64 (slot (KERNEL_BASE + P + 0x1000) 510) ((P + 0x2000) OR 3) (?st m5) = (Inr (), ?st m6) \<and> ?ok m6"
    using st [OF _ conjunct2 [OF c5], of 1022] n by (simp add: slot_def add.commute)
  have c7: "store64 (slot (KERNEL_BASE + P + 0x2000) 0) ((P + 0x3000) OR 3) (?st m6) = (Inr (), ?st m7) \<and> ?ok m7"
    using st [OF _ conjunct2 [OF c6], of 1024] n by (simp add: slot_def)
  have l: "m7 = linked P (mem s)" by (simp add: n m linked_def cleared_def)
  have ok: "?ok (linked P (mem s))" using c7 l by simp
  have w: "words_are P (mem (?st (linked P (mem s)))) (\<lambda>i. if i = 511 then (P + 0x1000) OR 3 else if i = 1022 then (P + 0x2000) OR 3
     else if i = 1024 then (P + 0x3000) OR 3 else 0)"
    using words_linked [of P "mem s"] by simp
  obtain u where u: "for_up 0 512 (\<lambda>i. store64 (slot (KERNEL_BASE + P + 0x3000) i) ((i * PAGE_SIZE) OR 3)) (?st (linked P (mem s))) = (Inr (), u)"
    "boot_step s P u" "u = (?st (linked P (mem s)))\<lparr>mem := mem u\<rparr>" "words_are P (mem u) (kernel_tables P)"
    using table_loop [OF B ok le w] words_cong [of P _ _ "kernel_tables P"] kernel_tables_alt by blast
  have "paging_init s = (Inr (), u\<lparr>cr3 := P\<rparr>)"
    unfolding paging_init_def
    by (simp add: monad al s1_def [symmetric] v2p_def c1 c2 c3 c4 c5 c6 c7 u(1) [folded l] set_cr3_def)
  moreover have "u\<lparr>cr3 := P\<rparr> = s\<lparr>mem := mem u, cr3 := P, pml4t := KERNEL_BASE + P, next_free := KERNEL_BASE + P + 0x4000\<rparr>"
    by (subst u(3)) (simp add: s1_def)
  ultimately show ?thesis using u(2,4) by (intro exI [of _ "u\<lparr>cr3 := P\<rparr>"]) (simp add: boot_step_def)
qed

section \<open>Property\<close>

lemma boot_map_kwin:
  assumes "kwin F s" "off_tables F P n" "0 < n" "n < 2 ^ 64"
  shows "boot_map s P n"
  unfolding boot_map_def
proof (intro allI impI)
  fix m assume "agree_out P n (mem s) m"
  then have "kmap F m (cr3 s) (pml4t s)"
    using kmap_agree [OF assms(1,2), of m] assms(3,4) by (simp add: agree_out_def)
  then show "mapped (s\<lparr>mem := m\<rparr>) KERNEL_BASE 0x1FF000 0"
    using kwin_mapped [of F "s\<lparr>mem := m\<rparr>" "pml4t s" KERNEL_BASE "0x1FF000"] by (simp add: in_win_def)
qed

lemma top_index_bound: "unat (pml4_index va) < 512"
  by (simp add: pml4_index_def unat_index)

lemma empty_top:
  assumes "words_are P m (kernel_tables P)" "P AND PAGE_MASK = P" "pml4_index va \<noteq> 511"
  shows "mmu_walk m P va = None"
proof -
  let ?i = "unat (pml4_index va)"
  have "?i < 512" by (rule top_index_bound)
  moreover have "?i \<noteq> 511" using assms(3) by (auto simp: word_unat_eq_iff)
  moreover from calculation(1) have "pread64 m (P + of_nat (8 * ?i)) = kernel_tables P ?i"
    using assms(1) unfolding words_are_def by (auto dest: spec [of _ ?i])
  ultimately have "pread64 m (P + of_nat (8 * ?i)) = 0" by (simp add: kernel_tables_def)
  moreover have "slot P (pml4_index va) = P + of_nat (8 * ?i)" by (simp add: slot_def)
  ultimately have "next_table m (slot P (pml4_index va)) = None" by (simp add: next_table_def)
  then show ?thesis by (simp add: mmu_walk_def assms(2))
qed

text \<open>The entries of the three upper tables.\<close>

lemma upper_entries:
  assumes "words_are P m (kernel_tables P)" "page_aligned P" "unat P + 0x4000 < 0x1FF000" "unat i < 512"
  shows "next_table m (slot P i) = (if i = 511 then Some (P + 0x1000) else None)"
    "next_table m (slot (P + 0x1000) i) = (if i = 510 then Some (P + 0x2000) else None)"
    "next_table m (slot (P + 0x2000) i) = (if i = 0 then Some (P + 0x3000) else None)"
proof -
  note k = tables_kmap [OF assms(1-3), unfolded kmap_def pool_frames_def, simplified]
  have w: "pread64 m (P + of_nat (8 * j)) = kernel_tables P j" if "j < 2048" for j
    using assms(1) that by (simp add: words_are_def)
  have e: "slot (P + of_nat (4096 * q)) i = P + of_nat (8 * (512 * q + unat i))" for q by (simp add: slot_def)
  have n: "unat i \<noteq> j \<longleftrightarrow> i \<noteq> of_nat j" if "j < 512" for j
    using that by (auto simp: word_unat_eq_iff unat_of_nat64)
  show "next_table m (slot P i) = (if i = 511 then Some (P + 0x1000) else None)"
  proof (cases "i = 511")
    case True then show ?thesis using k by (simp add: slot_def)
  next
    case False
    then have "pread64 m (slot P i) = 0" using w [of "unat i"] assms(4) e [of 0] n [of 511] by (simp add: kernel_tables_def)
    then show ?thesis using False by (simp add: next_table_def)
  qed
  show "next_table m (slot (P + 0x1000) i) = (if i = 510 then Some (P + 0x2000) else None)"
  proof (cases "i = 510")
    case True then show ?thesis using k by (simp add: slot_def add.commute)
  next
    case False
    then have "pread64 m (slot (P + 0x1000) i) = 0"
      using w [of "512 + unat i"] assms(4) e [of 1] n [of 510] by (simp add: kernel_tables_def)
    then show ?thesis using False by (simp add: next_table_def)
  qed
  show "next_table m (slot (P + 0x2000) i) = (if i = 0 then Some (P + 0x3000) else None)"
  proof (cases "i = 0")
    case True then show ?thesis using k by (simp add: slot_def)
  next
    case False
    then have "pread64 m (slot (P + 0x2000) i) = 0"
      using w [of "1024 + unat i"] assms(4) e [of 2] n [of 0] by (simp add: kernel_tables_def)
    then show ?thesis using False by (simp add: next_table_def)
  qed
qed

text \<open>The addresses that share the window's path are those of the window.\<close>

lemma window_path:
  assumes "canonical va" "pml4_index va = 511" "pdpt_index va = 510" "pd_index va = 0"
  shows "unat (va - KERNEL_BASE) < 0x200000"
proof -
  let ?u = "unat va"
  have i: "?u div 2 ^ 39 mod 512 = 511" "?u div 2 ^ 30 mod 512 = 510" "?u div 2 ^ 21 mod 512 = 0"
    using arg_cong [OF assms(2), of unat] arg_cong [OF assms(3), of unat] arg_cong [OF assms(4), of unat]
    by (simp_all add: pml4_index_def pdpt_index_def pd_index_def unat_index)
  have "unat (drop_bit 47 va) = ?u div 2 ^ 47" unfolding unat_drop_bit_eq by (simp add: drop_bit_eq_div)
  then have d: "?u div 2 ^ 47 = 0 \<or> ?u div 2 ^ 47 = 0x1FFFF" using assms(1) by (auto simp: canonical_def)
  define a b c e where "a = ?u div 2 ^ 21" and "b = a div 512" and "c = b div 512" and "e = c div 256"
  have q: "b = ?u div 2 ^ 30" "c = ?u div 2 ^ 39" "e = ?u div 2 ^ 47"
    by (simp_all add: a_def b_def c_def e_def flip: div_mult2_eq)
  have m: "a mod 512 = 0" "b mod 512 = 510" "c mod 512 = 511" "e = 0 \<or> e = 0x1FFFF" using i d q by (simp_all add: a_def)
  have "c mod 256 = 255" using m(3) mod_mod_cancel [of 256 512 c] by simp
  then have c: "c = 256 * e + 255" using div_mult_mod_eq [of c 256] by (simp add: e_def)
  have "e \<noteq> 0" using m(3) c by auto
  then have "c = 0x1FFFFFF" using m(4) c by simp
  then have "b = 512 * 0x1FFFFFF + 510" using div_mult_mod_eq [of b 512] m(2) by (simp add: c_def)
  then have "a = 512 * (512 * 0x1FFFFFF + 510)" using div_mult_mod_eq [of a 512] m(1) by (simp add: b_def)
  then have "?u = 0xFFFFFFFF80000000 + ?u mod 2 ^ 21" using div_mult_mod_eq [of ?u "2 ^ 21"] by (simp add: a_def)
  moreover have "?u mod 2 ^ 21 < 2 ^ 21" by simp
  ultimately have "0xFFFFFFFF80000000 \<le> ?u" "?u < 0xFFFFFFFF80000000 + 0x200000" by simp_all
  then show ?thesis by (simp add: kconst unat_sub_if_size word_size)
qed

lemma tables_translate:
  assumes w: "words_are P (mem t) (kernel_tables P)" "page_aligned P" "unat P + 0x4000 < 0x1FF000" and r: "cr3 t = P"
    and c: "canonical va"
  shows "translate t va = (if unat (va - KERNEL_BASE) < 0x200000 then Inr (va - KERNEL_BASE) else Inl (PageFault va))"
proof (cases "unat (va - KERNEL_BASE) < 0x200000")
  case True
  define i where "i = unat (va - KERNEL_BASE)"
  have a: "va = KERNEL_BASE + of_nat i" by (simp add: i_def)
  have i: "i < 0x200000" "i div 4096 < 512" using True by (simp_all add: i_def less_mult_imp_div_less)
  note ix = kernel_indices [OF i(1)] and k = tables_kmap [OF w]
  have "pread64 (mem t) (P + of_nat (8 * (1536 + i div 4096))) = (of_nat (i div 4096) * 0x1000) OR 3"
    using w(1) i(2) unfolding words_are_def by (auto simp: kernel_tables_def dest: spec [of _ "1536 + i div 4096"])
  moreover have "unat (of_nat (i div 4096) * 0x1000 :: u64) = i div 4096 * 4096"
    using unat_of_nat64 [of "i div 4096 * 4096"] i(2) by simp
  ultimately have "leaf_frame (mem t) (P + 0x3000 + 8 * of_nat (i div 4096)) = Some (of_nat (i div 4096) * 0x1000)"
    using i(2) by (simp add: leaf_frame_def entry_mask entry_flag page_aligned_iff add.assoc)
  then have "mmu_walk (mem t) P va = Some (of_nat (i div 4096) * 0x1000 + of_nat (i mod 4096))"
    using k by (simp add: mmu_walk_def kmap_def pool_frames_def slot_def a ix)
  then show ?thesis using True by (simp add: translate_def r page_split a ix del: of_nat_div)
next
  case False
  have ix: "unat (pml4_index va) < 512" "unat (pdpt_index va) < 512" "unat (pd_index va) < 512"
    by (simp_all add: pml4_index_def pdpt_index_def pd_index_def unat_index)
  have pm: "P AND PAGE_MASK = P" using assms(2,3) by (simp add: aligned_mask)
  have "mmu_walk (mem t) P va = None"
    using window_path [OF c] False by (auto simp: mmu_walk_def pm upper_entries [OF w] ix split: option.splits)
  then show ?thesis using False c by (simp add: translate_def r)
qed

text \<open>C10: when the boot loader maps the window and its tables are not in the next four pages of the
  pool, \<open>paging_init\<close> returns with the kernel's own tables in these pages and in use. Every address of the
  two mebibytes at \<open>KERNEL_BASE\<close> translates to its physical address and every other address faults; the pool
  starts after the four pages, and no other byte of memory has changed.\<close>

theorem paging_init_window:
  assumes "boot_map s P 0x4000" "next_free s = KERNEL_BASE + P" "page_aligned P" "unat P + 0x4000 < 0x1FF000"
  shows "\<exists>t. paging_init s = (Inr (), t) \<and> kwin (pool_frames P) t \<and>
     (\<forall>va. translate t va =
        (if \<not> canonical va then Inl (GeneralProtection va)
         else if unat (va - KERNEL_BASE) < 0x200000 then Inr (va - KERNEL_BASE) else Inl (PageFault va))) \<and>
     (\<forall>va. pml4_index va \<noteq> 511 \<longrightarrow> mmu_walk (mem t) (cr3 t) va = None) \<and>
     (\<forall>x. 0x4000 \<le> unat (x - P) \<longrightarrow> mem t x = mem s x) \<and>
     t = s\<lparr>mem := mem t, cr3 := P, pml4t := KERNEL_BASE + P, next_free := KERNEL_BASE + P + 0x4000\<rparr>"
proof -
  obtain t where t: "paging_init s = (Inr (), t)" "agree_out P 0x4000 (mem s) (mem t)"
    "words_are P (mem t) (kernel_tables P)"
    "t = s\<lparr>mem := mem t, cr3 := P, pml4t := KERNEL_BASE + P, next_free := KERNEL_BASE + P + 0x4000\<rparr>"
    using paging_init_run [OF assms(1,2,4)] by blast
  have r: "cr3 t = P" "pml4t t = KERNEL_BASE + P" by (subst t(4), simp)+
  then have k: "kwin (pool_frames P) t" using tables_kmap [OF t(3) assms(3,4)] by simp
  have "P AND PAGE_MASK = P" using assms(3,4) by (simp add: aligned_mask)
  then have "\<forall>va. pml4_index va \<noteq> 511 \<longrightarrow> mmu_walk (mem t) (cr3 t) va = None"
    using empty_top [OF t(3)] r(1) by simp
  moreover have "translate t va = (if \<not> canonical va then Inl (GeneralProtection va)
      else if unat (va - KERNEL_BASE) < 0x200000 then Inr (va - KERNEL_BASE) else Inl (PageFault va))" for va
    using tables_translate [OF t(3) assms(3,4) r(1), of va] by (cases "canonical va") (simp_all add: translate_def)
  ultimately show ?thesis using t k unfolding agree_out_def by blast
qed

theorem paging_init_window_witness:
  "\<exists>t. paging_init boot_machine = (Inr (), t) \<and> kwin (pool_frames 0x27000) t \<and> cr3 t = 0x27000"
proof -
  have "boot_map boot_machine 0x27000 0x4000"
    by (rule boot_map_kwin [OF boot_kwin boot_off_tables]) simp_all
  moreover have "next_free boot_machine = KERNEL_BASE + 0x27000" by (simp add: boot_machine_def kconst)
  ultimately obtain t where t: "paging_init boot_machine = (Inr (), t)" "kwin (pool_frames 0x27000) t"
    "t = boot_machine\<lparr>mem := mem t, cr3 := 0x27000, pml4t := KERNEL_BASE + 0x27000, next_free := KERNEL_BASE + 0x27000 + 0x4000\<rparr>"
    using paging_init_window [of boot_machine "0x27000"] by (auto simp: page_aligned_def)
  have "cr3 t = 0x27000" by (subst t(3)) simp
  with t(1,2) show ?thesis by blast
qed

end
