(* ===== verification/User_Start.thy ===== *)
theory User_Start
  imports Elf_Load Kernel_Paging
begin

text \<open>
  The last part of \<open>kernel_main\<close>: the top table of the first user program is taken from the physical
  memory manager, mapped into the kernel and filled with a copy of the kernel's own top table, \<open>CR3\<close>
  is switched to it, and the program is loaded and entered.
\<close>

section \<open>The kernel's address space before the first program\<close>

text \<open>The kernel runs on its own top table, whose lower half is empty, and its page directory has
  no entry but the one of the window, as \<open>paging_init\<close> leaves them.\<close>

definition kernel_space :: "kframes \<Rightarrow> machine \<Rightarrow> bool" where
  "kernel_space F s \<longleftrightarrow>
     kf_root F = kf_pml4 F \<and>
     (\<forall>k. unat k < 256 \<longrightarrow> pread64 (mem s) (slot (kf_pml4 F) k) AND 1 = 0) \<and>
     (\<forall>k. 0 < unat k \<longrightarrow> unat k < 512 \<longrightarrow> pread64 (mem s) (slot (kf_pd F) k) AND 1 = 0)"

lemma kernel_path:
  assumes "0x200000 \<le> unat C" "unat C < 0x40000000"
  shows "va_path (KERNEL_BASE + C) = [511, 510, pd_index (KERNEL_BASE + C), pt_index (KERNEL_BASE + C)]"
    "0 < unat (pd_index (KERNEL_BASE + C))" "canonical (KERNEL_BASE + C)"
proof -
  let ?a = "KERNEL_BASE + C"
  have u: "unat ?a = 0xFFFFFFFF80000000 + unat C"
    using unat_kernel_addr [of "unat C"] assms(2) by simp
  have d39: "unat ?a div 2 ^ 39 = 0x1FFFFFF"
    using assms by (subst div_of_sum [of _ "0x1FFFFFF" _ "0x7F80000000 + unat C"]) (simp_all add: u)
  have d30: "unat ?a div 2 ^ 30 = 0x3FFFFFFFE"
    using assms by (subst div_of_sum [of _ "0x3FFFFFFFE" _ "unat C"]) (simp_all add: u)
  have d21: "unat ?a div 2 ^ 21 = 0x7FFFFFFFC00 + unat C div 2 ^ 21"
    using assms by (subst div_of_sum [of _ "0x7FFFFFFFC00" _ "unat C"]) (simp_all add: u)
  have d47: "unat ?a div 2 ^ 47 = 0x1FFFF"
    using assms by (subst div_of_sum [of _ "0x1FFFF" _ "0x7FFF80000000 + unat C"]) (simp_all add: u)
  have "pml4_index ?a = 511" "pdpt_index ?a = 510"
    unfolding pml4_index_def pdpt_index_def word_unat_eq_iff unat_index d39 d30 by simp_all
  then show "va_path ?a = [511, 510, pd_index ?a, pt_index ?a]" by simp
  have q: "unat C div 2 ^ 21 < 512" "0 < unat C div 2 ^ 21"
    using assms by (simp_all add: less_mult_imp_div_less div_greater_zero_iff)
  then have "(0x7FFFFFFFC00 + unat C div 2 ^ 21) mod 512 = unat C div 2 ^ 21"
    using mod_mult_self3 [of "0x3FFFFFFFE" 512 "unat C div 2 ^ 21"] by simp
  then show "0 < unat (pd_index ?a)" unfolding pd_index_def unat_index d21 using q by simp
  have "unat (drop_bit 47 ?a) = 0x1FFFF"
    using d47 unfolding unat_drop_bit_eq by (simp add: drop_bit_eq_div)
  then show "canonical ?a" by (simp add: canonical_def word_unat_eq_iff)
qed

text \<open>The entries of the kernel's tables, the last table apart.\<close>

lemma kernel_table_slot:
  assumes "vm_inv F s" "t \<in> {kf_pml4 F, kf_pdpt F, kf_pd F}" "unat k < 512"
  shows "table_slot F s t k"
proof -
  note d = vm_invD [OF assms(1)]
  have t: "low_frame t" "t \<noteq> kf_pt F" "low_frame (kf_pt F)" using d(3) assms(2) by (auto simp: kmap_def)
  have "t \<notin> free_frames s" using free_frame(2) [OF assms(1), of t] low_frame_bound [OF t(1)] by auto
  moreover have "apart (bm_base s) (unat (mem_bitmap_size s)) t 4096" using assms(1,2) by (auto simp: vm_inv_def)
  then have "apart (slot t k) 8 (bm_base s) (unat (mem_bitmap_size s))"
    using slot_in_frame [OF apart_sym assms(3) d(7)] by blast
  moreover have "apart (slot t k) 8 (temp_slot F) 8"
    using apart_in_frames [of t "kf_pt F" "8 * unat k" 8 "0xFF8" 8] t assms(3) by (simp add: low_frame_aligned slot_def)
  ultimately show ?thesis using assms(3) t(1) by (simp add: table_slot_def low_frame_aligned)
qed

lemma directory_off_tables:
  assumes k: "kmap F m r kt" and root: "kf_root F = kf_pml4 F" and i: "0 < unat i" "unat i < 512"
  shows "off_tables F (slot (kf_pd F) i) 8"
proof -
  have t: "page_aligned (kf_pml4 F)" "page_aligned (kf_pdpt F)" "page_aligned (kf_pd F)" "page_aligned (kf_pt F)"
    "kf_pd F \<notin> {kf_pml4 F, kf_pdpt F, kf_pt F}" using k by (auto simp: kmap_def low_frame_aligned)
  have "apart (slot (kf_pd F) i) 8 (g + of_nat j) n" if "page_aligned g" "kf_pd F \<noteq> g" "j + n \<le> 4096" "0 < n" for g j n
    using apart_in_frames [OF t(3) that(1,2), of "8 * unat i" 8 j n] that i(2) by (simp add: slot_def)
  note o = this [OF t(1), of "0xFF8" 8] this [OF t(2), of "0xFF0" 8] this [OF t(4), of 0 "0xFF8"]
  have "apart (slot (kf_pd F) i) 8 (kf_pd F) 8"
    using apart_sym [OF apart_offsets [of 0 8 "8 * unat i" 8 "kf_pd F"]] i by (simp add: slot_def)
  then show ?thesis using o t(5) root by (simp add: off_tables_def)
qed

lemma kernel_space_ok:
  assumes inv: "vm_inv F s" and ks: "kernel_space F s" and C: "0x200000 \<le> unat C" "unat C < 0x40000000"
  shows "space_ok F s \<lparr>ctx_pml4t = pml4t s, is_kernel = True\<rparr> (kf_pml4 F) (KERNEL_BASE + C)"
    "missing (mem s) (kf_pml4 F) (va_path (KERNEL_BASE + C)) = 1"
proof -
  note k = vm_invD(3) [OF inv] and p = kernel_path [OF C]
  let ?i = "pd_index (KERNEL_BASE + C)" and ?j = "pt_index (KERNEL_BASE + C)"
  have b: "unat ?i < 512" "unat ?j < 512" by (simp_all add: pd_index_def pt_index_def unat_index)
  have t: "pml4t s = KERNEL_BASE + kf_pml4 F" "low_frame (kf_pml4 F)"
    "next_table (mem s) (slot (kf_pml4 F) 511) = Some (kf_pdpt F)" "next_table (mem s) (slot (kf_pdpt F) 510) = Some (kf_pd F)"
    "distinct [kf_pml4 F, kf_pdpt F, kf_pd F, kf_pt F]"
    using k by (simp_all add: kmap_def slot_def)
  have z: "pread64 (mem s) (slot (kf_pd F) ?i) AND 1 = 0" using ks p(2) b(1) by (simp add: kernel_space_def)
  then have n: "next_table (mem s) (slot (kf_pd F) ?i) = None" by (simp add: next_table_def)
  have e: "entry_ok F (mem s) q" if "next_table (mem s) q = Some v" for q v
    using that by (auto simp: entry_ok_def next_table_def Let_def split: if_splits)
  have "entry_ok F (mem s) (slot (kf_pd F) ?i)"
    using z directory_off_tables [OF k _ p(2) b(1)] ks by (simp add: entry_ok_def kernel_space_def)
  then have "path_ok F s {} (kf_pml4 F) (va_path (KERNEL_BASE + C))"
    unfolding p(1) using t(3-5) n b kernel_table_slot [OF inv] e by auto
  moreover have "entry_at s (slot (KERNEL_BASE + kf_pml4 F) 511) (slot (kf_pml4 F) 511)"
    using entry_at_window [OF inv low_frame_in_win [OF t(2), of "0xFF8" 8]] by (simp add: slot_def)
  moreover have "kf_pml4 F AND PAGE_MASK = kf_pml4 F" using t(2) by (simp add: aligned_mask low_frame_def)
  ultimately show "space_ok F s \<lparr>ctx_pml4t = pml4t s, is_kernel = True\<rparr> (kf_pml4 F) (KERNEL_BASE + C)"
    using t(1) p(1) by (simp add: space_ok_def)
  show "missing (mem s) (kf_pml4 F) (va_path (KERNEL_BASE + C)) = 1" unfolding p(1) using t(3,4) n by simp
qed

section \<open>A new top table\<close>

text \<open>Mapping a frame of the first gibibyte at its place in the kernel.\<close>

lemma kernel_map_run:
  fixes C :: u64
  defines "va \<equiv> KERNEL_BASE + C"
  assumes inv: "vm_inv F s" and ks: "kernel_space F s" and C: "0x200000 \<le> unat C" "unat C < 0x40000000" "page_aligned C"
    and free: "free_frames s \<noteq> {}"
  shows "\<exists>t f. map_page \<lparr>ctx_pml4t = pml4t s, is_kernel = True\<rparr> va C 3 s = (Inr (), t)
     \<and> vm_inv F t \<and> t = s\<lparr>mem := mem t, invlpg_log := invlpg_log t\<rparr>
     \<and> card (free_frames s) = card (free_frames t) + 1 \<and> pmm_used s \<subseteq> pmm_used t
     \<and> f \<in> free_frames s \<and> path_ok F t {} (kf_pml4 F) (va_path va)
     \<and> walk_slots (mem t) (kf_pml4 F) (va_path va)
         = {slot (kf_pml4 F) 511, slot (kf_pdpt F) 510, slot (kf_pd F) (pd_index va), slot f (pt_index va)}
     \<and> mmu_walk (mem t) (kf_pml4 F) va = Some C
     \<and> (\<forall>x. untouched F s x \<longrightarrow> (\<forall>p\<in>walk_slots (mem t) (kf_pml4 F) (va_path va). 8 \<le> unat (x - p)) \<longrightarrow> mem t x = mem s x)"
proof -
  note sp = kernel_space_ok [OF inv ks C(1,2), folded va_def] and p = kernel_path [OF C(1,2), folded va_def]
  have b: "unat (pd_index va) < 512" "unat (pt_index va) < 512" by (simp_all add: pd_index_def pt_index_def unat_index)
  have "0 < card (free_frames s)" using free finite_frames by (simp add: card_gt_0_iff)
  then have enough: "missing (mem s) (kf_pml4 F) (va_path va) \<le> card (free_frames s)" unfolding sp(2) by linarith
  obtain t q where t: "map_page \<lparr>ctx_pml4t = pml4t s, is_kernel = True\<rparr> va C 3 s = (Inr (), t)"
      "path_ok F t {} (kf_pml4 F) (va_path va)" "descent F s (kf_pml4 F) (va_path va) (C OR 3) t q"
    using map_page_descent [OF inv sp(1) _ _ enough, of 3 C] by auto
  have D: "kf_pml4 F AND PAGE_MASK = kf_pml4 F" using sp(1) by (simp add: space_ok_def)
  have al: "va AND 0xFFF = 0" using kernel_base_aligned [OF C(3)] by (simp add: va_def page_aligned_def)
  have walk: "mmu_walk (mem t) (kf_pml4 F) va = Some C"
    using descent_maps [OF t(3) D C(3)] C(2) al by simp
  have st: "vm_step F (walk_slots (mem t) (kf_pml4 F) (va_path va)) s t" using t(3) by (simp add: descent_def)
  have kt: "next_table (mem t) (slot (kf_pml4 F) 511) = Some (kf_pdpt F)" "next_table (mem t) (slot (kf_pdpt F) 510) = Some (kf_pd F)"
    using vm_invD(3) [of F t] st by (auto simp: vm_step_def kmap_def slot_def)
  have "walk_to (mem t) (kf_pml4 F) (va_path va) = Some q" using t(3) by (simp add: descent_def)
  then obtain f where f: "next_table (mem t) (slot (kf_pd F) (pd_index va)) = Some f" "q = slot f (pt_index va)"
    unfolding p(1) using kt by (auto split: option.splits)
  have ts: "table_slot F t f (pt_index va)" using t(2) kt f unfolding p(1) by simp
  have "walk_to (mem s) (kf_pml4 F) (va_path va) = None"
    using sp(2) vm_invD(3) [OF inv] unfolding p(1) by (auto simp: kmap_def slot_def split: option.splits)
  then obtain g k where g: "g \<in> free_frames s" "unat k < 512" "slot f (pt_index va) = slot g k"
    using t(3) f(2) by (auto simp: descent_def)
  have "f = g" by (rule slot_inj [OF _ free_frame(1) [OF inv g(1)] b(2) g(2,3)]) (use ts in \<open>simp add: table_slot_def\<close>)
  moreover have "walk_slots (mem t) (kf_pml4 F) (va_path va)
      = {slot (kf_pml4 F) 511, slot (kf_pdpt F) 510, slot (kf_pd F) (pd_index va), slot f (pt_index va)}"
    unfolding p(1) using kt f(1) by simp
  moreover have "card (free_frames s) = card (free_frames t) + 1" using t(3) sp(2) by (simp add: descent_def)
  ultimately show ?thesis using t(1,2) st walk g(1) unfolding vm_step_def by blast
qed

text \<open>A page whose walk is undisturbed.\<close>

lemma page_mapped:
  assumes C: "cr3 s AND PAGE_MASK = C" and q: "mmu_walk (mem s) C va = Some q" and va: "page_aligned va" "canonical va"
    and same: "\<And>p. p \<in> walk_slots (mem s) C (va_path va) \<Longrightarrow> pread64 m p = pread64 (mem s) p"
  shows "mapped (s\<lparr>mem := m\<rparr>) va 4096 q"
  unfolding mapped_def
proof (intro allI impI)
  fix i assume i: "i < (4096 :: nat)"
  have CC: "C AND PAGE_MASK = C" using C by (auto simp: and.assoc)
  note po = page_offset [OF va(1) i]
  have w: "mmu_walk m C (va + of_nat i) = mmu_walk (mem s) C (va + of_nat i)"
    by (rule mmu_walk_same [OF _ CC]) (use same in \<open>simp only: po(2)\<close>)
  have "va AND 0xFFF = 0" using va(1) by (simp add: page_aligned_def)
  then have "mmu_walk (mem s) C (va + of_nat i) = Some (q + of_nat i)"
    using q unfolding mmu_walk_to po(2,3) by (auto split: option.splits)
  moreover have "mmu_walk m (cr3 s) a = mmu_walk m C a" for a by (simp add: mmu_walk_def C CC)
  ultimately show "translate (s\<lparr>mem := m\<rparr>) (va + of_nat i) = Inr (q + of_nat i)"
    using w po(4) va(2) by (simp add: translate_def)
qed

lemma page_slots_kept:
  assumes "page_aligned C" "page_aligned u" "u \<noteq> C" "unat k < 512" "\<And>x. 4096 \<le> unat (x - C) \<Longrightarrow> m x = m' x"
  shows "pread64 m (slot u k) = pread64 m' (slot u k)"
proof (rule pread64_agree)
  fix b :: nat assume b: "b < 8"
  have "apart C 4096 (slot u k) 8"
    using apart_in_frames [OF assms(1,2), of 0 4096 "8 * unat k" 8] assms(3,4) by (auto simp: slot_def)
  from assms(5) [OF apart_outside [OF this b]] show "m (slot u k + of_nat b) = m' (slot u k + of_nat b)" .
qed

text \<open>Copying the kernel's top table into the new page.\<close>

lemma copy_top_run:
  assumes inv: "vm_inv F s" and root: "kf_root F = kf_pml4 F"
    and C: "off_tables F C 4096" "apart C 4096 (bm_base s) (unat (mem_bitmap_size s))" "page_aligned C" "C \<noteq> kf_pml4 F"
    and va: "page_aligned va" "canonical va" "mmu_walk (mem s) (kf_pml4 F) va = Some C"
    and slots: "\<forall>p\<in>walk_slots (mem s) (kf_pml4 F) (va_path va). \<exists>u k. p = slot u k \<and> page_aligned u \<and> u \<noteq> C \<and> unat k < 512"
  defines "t \<equiv> s\<lparr>mem := pwrite (mem s) C (pread (mem s) (kf_pml4 F) 4096)\<rparr>"
  shows "memcpy va (pml4t s) 0x1000 s = (Inr va, t)" "vm_inv F t" "pmm_used t = pmm_used s"
    "unat k < 512 \<Longrightarrow> pread64 (mem t) (slot C k) = pread64 (mem s) (slot (kf_pml4 F) k)"
proof -
  note k = vm_invD(3) [OF inv]
  have low: "low_frame (kf_pml4 F)" "pml4t s = KERNEL_BASE + kf_pml4 F" "cr3 s AND PAGE_MASK = kf_pml4 F"
    using k root by (simp_all add: kmap_def)
  have win: "in_win (pml4t s) 4096" using low_frame_in_win [OF low(1), of 0 4096] low(2) by simp
  let ?I = "\<lambda>m. \<forall>x. 4096 \<le> unat (x - C) \<longrightarrow> m x = mem s x"
  have "mapped (s\<lparr>mem := m\<rparr>) va 4096 C \<and> mapped (s\<lparr>mem := m\<rparr>) (pml4t s) 4096 (kf_pml4 F)" if I: "?I m" for m
  proof
    have "pread64 m p = pread64 (mem s) p" if "p \<in> walk_slots (mem s) (kf_pml4 F) (va_path va)" for p
      using bspec [OF slots that] page_slots_kept [OF C(3)] I by metis
    from page_mapped [OF low(3) va(3,1,2) this] show "mapped (s\<lparr>mem := m\<rparr>) va 4096 C" .
    have "kwin F (s\<lparr>mem := m\<rparr>)" using kmap_agree [OF k C(1), of m] I by simp
    from kwin_mapped [OF this win] show "mapped (s\<lparr>mem := m\<rparr>) (pml4t s) 4096 (kf_pml4 F)" by (simp add: low(2))
  qed
  moreover have "?I (m(C + of_nat j := b))" if "?I m" "j < 4096" for m j b
    using that by (auto simp: unat_of_nat64)
  moreover have "apart C 4096 (kf_pml4 F) 4096"
    using apart_in_frames [OF C(3) low_frame_aligned [OF low(1)] C(4), of 0 4096 0 4096] by simp
  ultimately have cp: "memcpy va (pml4t s) 0x1000 s = (Inr va, t)"
    using memcpy_mapped [where I = ?I and n = 4096 and count = "0x1000" and s = s and dest = va and src = "pml4t s"
        and p = C and q = "kf_pml4 F"] by (simp add: t_def)
  show "memcpy va (pml4t s) 0x1000 s = (Inr va, t)" by (rule cp)
  show "vm_inv F t" "pmm_used t = pmm_used s" using vm_inv_pwrite [OF inv, of C] C(1,2) by (simp_all add: t_def)
  show "pread64 (mem t) (slot C k) = pread64 (mem s) (slot (kf_pml4 F) k)" if k: "unat k < 512"
  proof -
    have "pread (mem t) (C + of_nat (8 * unat k)) 8 = take 8 (drop (8 * unat k) (pread (mem s) (kf_pml4 F) 4096))"
      unfolding t_def using pread_pwrite_sub [of "8 * unat k" 8 "pread (mem s) (kf_pml4 F) 4096"] k by simp
    also have "\<dots> = pread (mem s) (kf_pml4 F + of_nat (8 * unat k)) 8"
      using k by (intro nth_equalityI) (auto simp: pread_def add.assoc)
    finally show ?thesis by (simp add: pread64_def slot_def)
  qed
qed

section \<open>Switching to the new table\<close>

lemma vm_inv_root:
  assumes inv: "vm_inv F s" and C: "C \<in> pmm_used s" "C AND PAGE_MASK = C" "0x200000 \<le> unat C"
    and up: "next_table (mem s) (slot C 511) = Some (kf_pdpt F)"
  shows "vm_inv (F\<lparr>kf_root := C\<rparr>) (s\<lparr>cr3 := C\<rparr>)"
proof -
  note d = vm_invD [OF inv]
  have low: "low_frame (kf_pdpt F)" "low_frame (kf_pd F)" "low_frame (kf_pt F)" using d(3) by (auto simp: kmap_def)
  have "C \<notin> {kf_pdpt F, kf_pd F, kf_pt F}" using low_frame_bound [OF low(1)] low_frame_bound [OF low(2)] low_frame_bound [OF low(3)] C(3) by auto
  then have k: "kwin (F\<lparr>kf_root := C\<rparr>) (s\<lparr>cr3 := C\<rparr>)"
    using d(3) C(2) up by (auto simp: kmap_def slot_def)
  have al: "page_aligned C" using masked_aligned [of C] C(2) by simp
  have "unat (C + 0xFF8) = unat C + 0xFF8" using page_offset(1) [OF al, of "0xFF8"] by simp
  then have "apart (bm_base s) (unat (mem_bitmap_size s)) (C + 0xFF8) 8"
    using d(4,7) C(3) aligned_less_add [of "unat C" "2 ^ 64 - 4096"] al u64_bound [of C]
    by (intro apart_le) (auto simp: page_aligned_iff)
  then have "off_tables (F\<lparr>kf_root := C\<rparr>) (bm_base s) (unat (mem_bitmap_size s))"
    using d(6) by (simp add: off_tables_def)
  then show ?thesis
    using inv k C(1) by (auto simp: vm_inv_def pmm_ok_def bitmap_ok_def bm_base_def pmm_used_def pmm_frames_def)
qed

text \<open>A top table with an empty lower half is a user space without tables or pages.\<close>

lemma empty_uspace:
  assumes "kf_root F = C" "user_frame s C" "\<And>k. unat k < 256 \<Longrightarrow> pread64 (mem s) (slot C k) AND 1 = 0"
  shows "uspace F s C [C \<mapsto> 4]"
proof -
  have none: "next_table (mem s) (slot C k) \<noteq> Some v" if "user_slot C C k" for k v
    using assms(3) [of k] that by (simp add: user_slot_def next_table_def)
  show ?thesis
    unfolding uspace_def using assms none by (auto simp: user_slot_def split: if_splits)
qed

lemma empty_umem:
  assumes "uspace F s C L" "C AND PAGE_MASK = C" "\<And>k. unat k < 256 \<Longrightarrow> pread64 (mem s) (slot C k) AND 1 = 0"
  shows "umem (mem s) C va = None"
proof (cases "user_addr va")
  case True
  then have "unat (pml4_index va) < 256" using user_addr_path(1) [OF True] by (simp add: user_path_def)
  then have "next_table (mem s) (slot C (pml4_index va)) = None" using assms(3) by (simp add: next_table_def)
  then have "mmu_walk (mem s) C va = None" by (simp add: mmu_walk_def assms(2))
  then show ?thesis by (simp add: umem_def)
qed (simp add: umem_def)

section \<open>The address space of the first program\<close>

text \<open>Bytes of the window that the bitmap, the temporary entry and the kernel's tables do not hold.\<close>

definition plain_byte :: "kframes \<Rightarrow> machine \<Rightarrow> u64 \<Rightarrow> bool" where
  "plain_byte F s x \<longleftrightarrow>
     unat x < 0x200000 \<and> unat (mem_bitmap_size s) \<le> unat (x - bm_base s) \<and>
     (\<forall>t\<in>{kf_pml4 F, kf_pdpt F, kf_pd F, kf_pt F}. 4096 \<le> unat (x - t))"

lemma below_frame: "unat x < 0x200000 \<Longrightarrow> 0x200000 \<le> unat f \<Longrightarrow> unat f < 2 ^ 52 \<Longrightarrow> 4096 \<le> unat (x - f)" for x f :: u64
  by (auto simp: unat_sub_if_size word_size)

lemma plain_untouched:
  assumes "vm_inv F s" "plain_byte F s x"
  shows "untouched F s x"
proof -
  have "4096 \<le> unat (x - kf_pt F)" using assms(2) by (simp add: plain_byte_def)
  from off_frame [OF this, of 511] have "8 \<le> unat (x - temp_slot F)" by (simp add: slot_def)
  then show ?thesis
    using assms(2) below_frame [of x] free_frame(2,3) [OF assms(1)] by (auto simp: plain_byte_def untouched_def)
qed

lemma alloc_top:
  assumes inv: "vm_inv F s" and ks: "kernel_space F s" and j: "first_free s 0 = Some j"
  defines "C \<equiv> of_nat j * PAGE_SIZE" and "t \<equiv> s\<lparr>mem := set_frame (mem s) (bm_base s) j\<rparr>"
  shows "pmm_alloc s = (Inr C, t)" "vm_inv F t" "kernel_space F t" "free_frames t = free_frames s - {C}" "C \<in> free_frames s"
    "C \<in> pmm_used t" "untouched F s x \<Longrightarrow> mem t x = mem s x"
proof -
  note a = pmm_alloc_Some [OF vm_invD(1) [OF inv] j, folded C_def t_def]
  show "pmm_alloc s = (Inr C, t)" "C \<in> pmm_used t" using a(1,4) by auto
  show "vm_inv F t" unfolding t_def by (rule vm_inv_alloc [OF inv j])
  show "free_frames t = free_frames s - {C}" "C \<in> free_frames s"
    using a(3,4) by (auto simp: free_frames_def t_def pmm_frames_def)
  have out: "mem t x = mem s x" if "untouched F s x" for x
    using that set_frame_outside(1) [OF first_free_range(2) [OF vm_invD(1) [OF inv] j]] by (simp add: t_def untouched_def)
  then show "untouched F s x \<Longrightarrow> mem t x = mem s x" .
  have "pread64 (mem t) (slot u k) = pread64 (mem s) (slot u k)" if "u \<in> {kf_pml4 F, kf_pdpt F, kf_pd F}" "unat k < 512" for u k
    by (rule pread64_agree) (rule out [OF table_slot_untouched [OF kernel_table_slot [OF inv that]]])
  then show "kernel_space F t" using ks by (simp add: kernel_space_def)
qed

lemma table_slot_root [simp]: "table_slot (F\<lparr>kf_root := C\<rparr>) (s\<lparr>cr3 := r\<rparr>) u k = table_slot F s u k"
  by (simp add: table_slot_def free_frames_def pmm_used_def pmm_frames_def bm_base_def)

lemma walk_ok_root: "walk_ok (F\<lparr>kf_root := C\<rparr>) (s\<lparr>cr3 := r\<rparr>) t is = walk_ok F s t is"
  by (induction "is" arbitrary: t rule: induct_list012) (auto split: option.splits)

text \<open>The new top table has the kernel's upper half and an empty lower half.\<close>

definition top_copy :: "kframes \<Rightarrow> machine \<Rightarrow> u64 \<Rightarrow> bool" where
  "top_copy F s C \<longleftrightarrow>
     next_table (mem s) (slot C 511) = Some (kf_pdpt F) \<and> (\<forall>k. unat k < 256 \<longrightarrow> pread64 (mem s) (slot C k) AND 1 = 0)"

lemma switch_uctx:
  assumes inv: "vm_inv F s" and C: "C \<in> pmm_used s" "0x200000 \<le> unat C" "unat C < 0x40000000" and top: "top_copy F s C"
    and walk: "walk_ok F s (kf_pml4 F) (va_path (KERNEL_BASE + C))" "mmu_walk (mem s) (kf_pml4 F) (KERNEL_BASE + C) = Some C"
    and slots: "\<And>p. p \<in> walk_slots (mem s) (kf_pml4 F) (va_path (KERNEL_BASE + C)) \<Longrightarrow>
        \<exists>u k. p = slot u k \<and> page_aligned u \<and> u \<noteq> C \<and> unat k < 512"
  shows "uctx (F\<lparr>kf_root := C\<rparr>) (s\<lparr>cr3 := C\<rparr>) C [C \<mapsto> 4]" "umem (mem s) C va = None"
proof -
  let ?F = "F\<lparr>kf_root := C\<rparr>" and ?s = "s\<lparr>cr3 := C\<rparr>" and ?va = "KERNEL_BASE + C"
  note p = kernel_path [OF C(2,3)] and tc = top [unfolded top_copy_def]
  have al: "page_aligned C" using C(1) by (simp add: pmm_used_def pmm_frames_def)
  have CC: "C AND PAGE_MASK = C" using al C(3) by (simp add: aligned_mask)
  have uf: "user_frame ?s C" using C al by (simp add: user_frame_def free_frames_def pmm_used_def pmm_frames_def bm_base_def)
  have vi: "vm_inv ?F ?s" by (rule vm_inv_root [OF inv C(1) CC C(2)]) (use tc in simp)
  have us: "uspace ?F ?s C [C \<mapsto> 4]" by (rule empty_uspace) (use uf tc in simp_all)
  let ?r = "[510, pd_index ?va, pt_index ?va]"
  have low: "low_frame (kf_pml4 F)" "next_table (mem s) (slot (kf_pml4 F) 511) = Some (kf_pdpt F)"
    using vm_invD(3) [OF inv] by (auto simp: kmap_def slot_def)
  have DD: "kf_pml4 F AND PAGE_MASK = kf_pml4 F" using low(1) by (simp add: aligned_mask low_frame_def)
  have up: "table_slot F s C 511"
    using user_table_slot [OF vi uf, of 511] by (simp only: table_slot_root) simp
  have "walk_ok F s C (va_path ?va)" using walk(1) up tc low unfolding p(1) by simp
  then have wk: "walk_ok ?F ?s C (va_path ?va)" by (simp only: walk_ok_root)
  have w: "mmu_walk (mem s) C ?va = Some C" using walk(2) tc low unfolding mmu_walk_to p(1) CC DD by simp
  have ws: "walk_slots (mem s) C (va_path ?va) = insert (slot C 511) (walk_slots (mem s) (kf_pdpt F) ?r)"
    "walk_slots (mem s) (kf_pdpt F) ?r \<subseteq> walk_slots (mem s) (kf_pml4 F) (va_path ?va)"
    unfolding p(1) using tc low by auto
  have ne: "q \<noteq> slot C k" if "q \<in> walk_slots (mem s) C (va_path ?va)" "unat k < 256" for q k
  proof (cases "q = slot C 511")
    case True
    have "unat k \<noteq> unat (511 :: u64)" using that(2) by simp
    then have "k \<noteq> 511" by metis
    then show ?thesis using True slot_user_inj [OF uf al, of k 511] that(2) by auto
  next
    case False
    then have "q \<in> walk_slots (mem s) (kf_pml4 F) (va_path ?va)" using that(1) ws(2) unfolding ws(1) by blast
    from slots [OF this] obtain u l where u: "q = slot u l" "page_aligned u" "u \<noteq> C" "unat l < 512" by (elim exE conjE)
    have "slot u l \<noteq> slot C k" using slot_inj [OF u(2) al u(4), of k] u(3) that(2) by linarith
    then show ?thesis using u(1) by simp
  qed
  then have "top_shown ?F ?s C [C \<mapsto> 4]"
    unfolding top_shown_def using p(3) wk w by (auto simp: user_slot_def split: if_splits)
  then show "uctx ?F ?s C [C \<mapsto> 4]" using vi us by (simp add: uctx_def)
  show "umem (mem s) C va = None" using empty_umem [OF us CC, of va] tc by simp
qed

text \<open>The three facts about a walk that the entries on it determine.\<close>

definition page_walk :: "kframes \<Rightarrow> machine \<Rightarrow> u64 \<Rightarrow> u64 \<Rightarrow> u64 set \<Rightarrow> bool" where
  "page_walk F s va C W \<longleftrightarrow>
     walk_ok F s (kf_pml4 F) (va_path va) \<and> mmu_walk (mem s) (kf_pml4 F) va = Some C \<and>
     walk_slots (mem s) (kf_pml4 F) (va_path va) = W"

lemma page_walk_kept:
  assumes w: "page_walk F s va C W" and D: "kf_pml4 F AND PAGE_MASK = kf_pml4 F"
    and same: "\<And>p. p \<in> W \<Longrightarrow> pread64 (mem t) p = pread64 (mem s) p" "\<And>u k. table_slot F s u k \<Longrightarrow> table_slot F t u k"
  shows "page_walk F t va C W"
proof -
  define ps where "ps = va_path va"
  have w: "walk_ok F s (kf_pml4 F) ps" "mmu_walk (mem s) (kf_pml4 F) va = Some C" "walk_slots (mem s) (kf_pml4 F) ps = W"
    using w by (simp_all only: page_walk_def ps_def)
  have e: "pread64 (mem t) p = pread64 (mem s) p" if "p \<in> walk_slots (mem s) (kf_pml4 F) ps" for p
    using that unfolding w(3) by (rule same(1))
  have "walk_ok F t (kf_pml4 F) ps" by (rule walk_ok_same [OF w(1) e same(2)])
  moreover have "walk_slots (mem t) (kf_pml4 F) ps = W" unfolding w(3) [symmetric] by (rule conjunct2 [OF walk_same [OF e]])
  moreover have "mmu_walk (mem t) (kf_pml4 F) va = Some C"
    unfolding w(2) [symmetric] by (rule mmu_walk_same [OF e [unfolded ps_def] D])
  ultimately show ?thesis by (simp only: page_walk_def ps_def)
qed

text \<open>Entries of the lower half of the kernel's top table lie off the walk to a kernel address.\<close>

lemma lower_half_kept:
  assumes inv: "vm_inv F s" and k: "unat k < 256" and i: "unat i < 512" "unat j < 512" and f: "f \<in> free_frames s"
    and out: "\<And>x. untouched F s x \<Longrightarrow> (\<forall>p\<in>{slot (kf_pml4 F) 511, slot (kf_pdpt F) 510, slot (kf_pd F) i, slot f j}. 8 \<le> unat (x - p)) \<Longrightarrow> m x = mem s x"
  shows "pread64 m (slot (kf_pml4 F) k) = pread64 (mem s) (slot (kf_pml4 F) k)"
proof (rule pread64_agree)
  fix b :: nat assume b: "b < 8"
  have t: "low_frame (kf_pml4 F)" "low_frame (kf_pdpt F)" "low_frame (kf_pd F)" "distinct [kf_pml4 F, kf_pdpt F, kf_pd F, kf_pt F]"
    using vm_invD(3) [OF inv] by (auto simp: kmap_def)
  have k5: "unat k < 512" using k by simp
  have "kf_pml4 F \<noteq> f" using low_frame_bound [OF t(1)] free_frame(2) [OF inv f] by auto
  have ap: "8 \<le> unat (slot (kf_pml4 F) k + of_nat b - slot u l)" if "page_aligned u" "u \<noteq> kf_pml4 F" "unat l < 512" for u l
  proof -
    have "apart (slot u l) 8 (slot (kf_pml4 F) k) 8"
      using apart_in_frames [OF that(1) low_frame_aligned [OF t(1)] that(2), of "8 * unat l" 8 "8 * unat k" 8] that(3) k5
      by (simp add: slot_def)
    from apart_outside [OF this b] show ?thesis .
  qed
  have "apart (slot (kf_pml4 F) 511) 8 (slot (kf_pml4 F) k) 8"
    using apart_sym [OF apart_offsets [of "8 * unat k" 8 "8 * 511" 8 "kf_pml4 F"]] k by (simp add: slot_def)
  from apart_outside [OF this b] have "8 \<le> unat (slot (kf_pml4 F) k + of_nat b - slot (kf_pml4 F) 511)" .
  moreover have "untouched F s (slot (kf_pml4 F) k + of_nat b)"
    by (rule table_slot_untouched [OF kernel_table_slot [OF inv _ k5] b]) simp
  ultimately show "m (slot (kf_pml4 F) k + of_nat b) = mem s (slot (kf_pml4 F) k + of_nat b)"
    using out ap [of "kf_pdpt F" 510] ap [of "kf_pd F" i] ap [of f j] i t \<open>kf_pml4 F \<noteq> f\<close> free_frame(1) [OF inv f]
    by (auto simp: low_frame_aligned)
qed

text \<open>The copy and the look-up keep the walk.\<close>

lemma copy_look_run:
  assumes inv: "vm_inv F s" and root: "kf_root F = kf_pml4 F" and C: "page_aligned C" "0x200000 \<le> unat C"
    and off: "off_tables F C 4096" "apart C 4096 (bm_base s) (unat (mem_bitmap_size s))" "apart C 4096 (temp_slot F) 8"
    and va: "page_aligned va" "canonical va" "pml4_index va = 511" and w: "page_walk F s va C W"
    and slots: "\<forall>p\<in>W. \<exists>u k. p = slot u k \<and> page_aligned u \<and> u \<noteq> C \<and> unat k < 512"
  shows "\<exists>t. andthen (memcpy va (pml4t s) 0x1000) (get_physical_address \<lparr>ctx_pml4t = pml4t s, is_kernel = True\<rparr> va) s = (Inr C, t)
     \<and> vm_inv F t \<and> pmm_used t = pmm_used s \<and> t = s\<lparr>mem := mem t, invlpg_log := invlpg_log t\<rparr> \<and> page_walk F t va C W
     \<and> (\<forall>k. unat k < 512 \<longrightarrow> pread64 (mem t) (slot C k) = pread64 (mem s) (slot (kf_pml4 F) k))
     \<and> (\<forall>x. 4096 \<le> unat (x - C) \<longrightarrow> 8 \<le> unat (x - temp_slot F) \<longrightarrow> mem t x = mem s x)"
proof -
  let ?D = "kf_pml4 F"
  have low: "low_frame ?D" "pml4t s = KERNEL_BASE + ?D" using vm_invD(3) [OF inv] by (auto simp: kmap_def)
  have D: "?D AND PAGE_MASK = ?D" "C \<noteq> ?D" using low(1) low_frame_bound [OF low(1)] C(2) by (auto simp: aligned_mask low_frame_def)
  have ww: "mmu_walk (mem s) ?D va = Some C" "walk_slots (mem s) ?D (va_path va) = W" using w by (simp_all only: page_walk_def)
  define u where "u = s\<lparr>mem := pwrite (mem s) C (pread (mem s) ?D 4096)\<rparr>"
  note cp = copy_top_run [OF inv root off(1,2) C(1) D(2) va(1,2) ww(1), folded u_def, unfolded ww(2), OF slots]
  have out: "mem u x = mem s x" if "4096 \<le> unat (x - C)" for x using that by (simp add: u_def pwrite_outside)
  have "pread64 (mem u) q = pread64 (mem s) q" if q: "q \<in> W" for q
  proof -
    obtain v k where v: "q = slot v k" "page_aligned v" "v \<noteq> C" "unat k < 512" using bspec [OF slots q] by (elim exE conjE)
    show ?thesis unfolding v(1) by (rule page_slots_kept [OF C(1) v(2-4) out])
  qed
  moreover have tsu: "table_slot F u v k" if "table_slot F s v k" for v k
    using that cp(3) by (simp add: table_slot_def free_frames_def) (simp add: u_def bm_base_def pmm_frames_def)
  ultimately have pu: "page_walk F u va C W" by (rule page_walk_kept [OF w D(1)])
  have uw: "walk_ok F u ?D (va_path va)" "mmu_walk (mem u) ?D va = Some C" "walk_slots (mem u) ?D (va_path va) = W"
    using pu by (simp_all only: page_walk_def)
  have "pml4t u = KERNEL_BASE + ?D" using low(2) by (simp add: u_def)
  then have "entry_at u (slot (KERNEL_BASE + ?D) 511) (slot ?D 511)"
    using entry_at_window [OF cp(2) low_frame_in_win [OF low(1), of "0xFF8" 8]] by (simp add: slot_def)
  then have at: "entry_at u (slot (ctx_pml4t \<lparr>ctx_pml4t = pml4t s, is_kernel = True\<rparr>) (pml4_index va)) (slot ?D (pml4_index va))"
    by (simp add: va(3) low(2))
  obtain t where t: "get_physical_address \<lparr>ctx_pml4t = pml4t s, is_kernel = True\<rparr> va u = (Inr C, t)" "temp_only F u t"
    using get_physical_address_run [OF cp(2) D(1) at uw(1,2)] by (elim exE conjE)
  note to = t(2) [unfolded temp_only_def]
  have "pread64 (mem t) q = pread64 (mem u) q" if q: "q \<in> W" for q
  proof -
    obtain v k where v: "table_slot F u v k" "q = slot v k" using walk_slots_in_use [OF uw(1), unfolded uw(3), OF q] by (elim exE conjE)
    then show ?thesis using temp_only_slot [OF t(2), of v k] by (simp add: table_slot_def)
  qed
  then have pt: "page_walk F t va C W" using page_walk_kept [OF pu D(1)] table_slot_step [OF _ temp_only_step [OF t(2)]] by metis
  have "t = s\<lparr>mem := mem t, invlpg_log := invlpg_log t\<rparr>" by (rule step_form_trans) (use to u_def in auto)
  moreover have "pread64 (mem t) (slot C k) = pread64 (mem s) (slot ?D k)" if k: "unat k < 512" for k
    using temp_only_slot [OF t(2) slot_in_frame [OF off(3) k]] cp(4) [OF k] by simp
  ultimately show ?thesis using cp(1,3) t(1) to pt out by (intro exI [of _ t]) (simp add: monad)
qed

text \<open>From the new frame to the new top table.\<close>

definition fill_top :: "u64 \<Rightarrow> u64 kern" where
  "fill_top C =
     bind (gets pml4t) (\<lambda>top_table.
     andthen (map_page \<lparr>ctx_pml4t = top_table, is_kernel = True\<rparr> (KERNEL_BASE + C) C 0x3) (
     andthen (memcpy (KERNEL_BASE + C) top_table 0x1000)
      (get_physical_address \<lparr>ctx_pml4t = top_table, is_kernel = True\<rparr> (KERNEL_BASE + C))))"

lemma fill_top_run:
  assumes inv: "vm_inv F s" and ks: "kernel_space F s" and C: "C \<in> pmm_used s" "0x200000 \<le> unat C" "unat C < 0x40000000"
    and off: "off_tables F C 4096" "apart C 4096 (bm_base s) (unat (mem_bitmap_size s))" "apart C 4096 (temp_slot F) 8"
    and free: "free_frames s \<noteq> {}"
  shows "\<exists>t. fill_top C s = (Inr C, t) \<and> vm_inv F t \<and> t = s\<lparr>mem := mem t, invlpg_log := invlpg_log t\<rparr>
     \<and> card (free_frames s) = card (free_frames t) + 1 \<and> C \<in> pmm_used t \<and> top_copy F t C
     \<and> walk_ok F t (kf_pml4 F) (va_path (KERNEL_BASE + C)) \<and> mmu_walk (mem t) (kf_pml4 F) (KERNEL_BASE + C) = Some C
     \<and> (\<forall>p\<in>walk_slots (mem t) (kf_pml4 F) (va_path (KERNEL_BASE + C)). \<exists>u k. p = slot u k \<and> page_aligned u \<and> u \<noteq> C \<and> unat k < 512)
     \<and> (\<forall>x. plain_byte F s x \<longrightarrow> mem t x = mem s x)"
proof -
  let ?va = "KERNEL_BASE + C" and ?D = "kf_pml4 F"
  have al: "page_aligned C" using C(1) by (simp add: pmm_used_def pmm_frames_def)
  note p = kernel_path [OF C(2,3)] and root = ks [unfolded kernel_space_def]
  have i: "unat (pd_index ?va) < 512" "unat (pt_index ?va) < 512" by (simp_all add: pd_index_def pt_index_def unat_index)
  obtain t f where t: "map_page \<lparr>ctx_pml4t = pml4t s, is_kernel = True\<rparr> ?va C 3 s = (Inr (), t)"
     "vm_inv F t" "t = s\<lparr>mem := mem t, invlpg_log := invlpg_log t\<rparr>"
     "card (free_frames s) = card (free_frames t) + 1" "pmm_used s \<subseteq> pmm_used t" "f \<in> free_frames s" "path_ok F t {} ?D (va_path ?va)"
     and W: "walk_slots (mem t) ?D (va_path ?va) = {slot ?D 511, slot (kf_pdpt F) 510, slot (kf_pd F) (pd_index ?va), slot f (pt_index ?va)}"
     and w: "mmu_walk (mem t) ?D ?va = Some C"
     and out: "\<And>x. untouched F s x \<Longrightarrow> (\<forall>p\<in>walk_slots (mem t) ?D (va_path ?va). 8 \<le> unat (x - p)) \<Longrightarrow> mem t x = mem s x"
    using kernel_map_run [OF inv ks C(2,3) al free] by (elim exE conjE) blast
  let ?W = "{slot ?D 511, slot (kf_pdpt F) 510, slot (kf_pd F) (pd_index ?va), slot f (pt_index ?va)}"
  note fld = step_fields [OF t(3)]
  have low: "low_frame ?D" "low_frame (kf_pdpt F)" "low_frame (kf_pd F)" using vm_invD(3) [OF inv] by (auto simp: kmap_def)
  have "f \<noteq> C" using C(1) t(6) by (auto simp: free_frames_def)
  then have slots: "\<forall>q\<in>?W. \<exists>u k. q = slot u k \<and> page_aligned u \<and> u \<noteq> C \<and> unat k < 512"
    using low low_frame_bound C(2) i free_frame(1) [OF inv t(6)]
    by (fastforce simp: low_frame_aligned)
  have pw: "page_walk F t ?va C ?W" unfolding page_walk_def using path_walk_ok [OF t(7)] W w by blast
  have va: "page_aligned ?va" "pml4_index ?va = 511" using kernel_base_aligned [OF al] p(1) by simp_all
  have offt: "apart C 4096 (bm_base t) (unat (mem_bitmap_size t))" using off(2) by (simp add: fld)
  obtain u where u: "andthen (memcpy ?va (pml4t t) 0x1000) (get_physical_address \<lparr>ctx_pml4t = pml4t t, is_kernel = True\<rparr> ?va) t = (Inr C, u)"
      "vm_inv F u" "pmm_used u = pmm_used t" "u = t\<lparr>mem := mem u, invlpg_log := invlpg_log u\<rparr>" "page_walk F u ?va C ?W"
      "\<And>k. unat k < 512 \<Longrightarrow> pread64 (mem u) (slot C k) = pread64 (mem t) (slot ?D k)"
      "\<And>x. 4096 \<le> unat (x - C) \<Longrightarrow> 8 \<le> unat (x - temp_slot F) \<Longrightarrow> mem u x = mem t x"
    using copy_look_run [OF t(2) conjunct1 [OF root] al C(2) off(1) offt off(3) va(1) p(3) va(2) pw slots]
    by (elim exE conjE) blast
  have run: "fill_top C s = (Inr C, u)" using t(1) u(1) by (simp add: fill_top_def monad fld(5))
  have half: "pread64 (mem t) (slot ?D k) = pread64 (mem s) (slot ?D k)" if "unat k < 256" for k
    by (rule lower_half_kept [OF inv that i t(6)]) (rule out [unfolded W])
  have "next_table (mem t) (slot ?D 511) = Some (kf_pdpt F)" using vm_invD(3) [OF t(2)] by (simp add: kmap_def slot_def)
  then have top: "top_copy F u C" using u(6) half root by (simp add: top_copy_def next_table_def)
  have kept: "mem u x = mem s x" if x: "plain_byte F s x" for x
  proof -
    have far: "4096 \<le> unat (x - C)" "4096 \<le> unat (x - f)" using x C below_frame [of x] free_frame(2,3) [OF inv t(6)] by (simp_all add: plain_byte_def)
    have far': "4096 \<le> unat (x - ?D)" "4096 \<le> unat (x - kf_pdpt F)" "4096 \<le> unat (x - kf_pd F)" using x by (simp_all add: plain_byte_def)
    have n: "unat (511 :: u64) < 512" "unat (510 :: u64) < 512" by simp_all
    have "mem t x = mem s x"
      by (rule out [OF plain_untouched [OF inv x]], unfold W) (use off_frame [OF far'(1) n(1)] off_frame [OF far'(2) n(2)] off_frame [OF far'(3) i(1)] off_frame [OF far(2) i(2)] in blast)
    moreover have "8 \<le> unat (x - temp_slot F)" using plain_untouched [OF inv x] by (simp add: untouched_def)
    ultimately show ?thesis using u(7) [OF far(1)] by simp
  qed
  have "free_frames u = free_frames t" using u(3) step_fields(1) [OF u(4)] by (simp add: free_frames_def)
  then have c: "card (free_frames s) = card (free_frames u) + 1" "C \<in> pmm_used u" using t(4,5) u(3) C(1) by auto
  have form: "u = s\<lparr>mem := mem u, invlpg_log := invlpg_log u\<rparr>" by (rule step_form_trans [OF u(4) t(3)])
  have wu: "walk_ok F u ?D (va_path ?va)" "mmu_walk (mem u) ?D ?va = Some C" "walk_slots (mem u) ?D (va_path ?va) = ?W"
    using u(5) by (simp_all only: page_walk_def)
  have sl: "\<forall>p\<in>walk_slots (mem u) ?D (va_path ?va). \<exists>u k. p = slot u k \<and> page_aligned u \<and> u \<noteq> C \<and> unat k < 512"
    unfolding wu(3) by (rule slots)
  show ?thesis by (intro exI [of _ u] conjI run u(2) form c top wu(1,2) sl) (use kept in blast)
qed

lemma user_space_init_run:
  assumes inv: "vm_inv F s" and ks: "kernel_space F s" and j: "first_free s 0 = Some j" "j < 0x40000"
    and free: "2 \<le> card (free_frames s)"
  defines "C \<equiv> of_nat j * PAGE_SIZE" and "F' \<equiv> F\<lparr>kf_root := of_nat j * PAGE_SIZE\<rparr>"
  shows "\<exists>t. user_space_init s = (Inr (zero_task\<lparr>pid := 1, task_pml4t := C + KERNEL_BASE\<rparr>), t)
     \<and> uctx F' t C [C \<mapsto> 4] \<and> t = s\<lparr>mem := mem t, invlpg_log := invlpg_log t, cr3 := C\<rparr>
     \<and> card (free_frames s) = card (free_frames t) + 2 \<and> (\<forall>va. umem (mem t) C va = None)
     \<and> (\<forall>x. plain_byte F s x \<longrightarrow> mem t x = mem s x)"
proof -
  define u where "u = s\<lparr>mem := set_frame (mem s) (bm_base s) j\<rparr>"
  note a = alloc_top [OF inv ks j(1), folded C_def u_def]
  note f = free_frame [OF inv a(5)]
  have "unat C = j * 4096" unfolding C_def by (rule frame_addr) (use first_free_range [OF vm_invD(1) [OF inv] j(1)] in simp)
  then have hi: "unat C < 0x40000000" using j(2) by simp
  have bm: "bm_base u = bm_base s" "mem_bitmap_size u = mem_bitmap_size s" by (simp_all add: u_def bm_base_def)
  have c: "card (free_frames s) = Suc (card (free_frames u))" unfolding a(4) by (rule card.remove [OF finite_frames a(5)])
  then have "free_frames u \<noteq> {}" using free by auto
  then obtain t where t: "fill_top C u = (Inr C, t)" "vm_inv F t" "t = u\<lparr>mem := mem t, invlpg_log := invlpg_log t\<rparr>"
      "card (free_frames u) = card (free_frames t) + 1" "C \<in> pmm_used t" "top_copy F t C"
      "walk_ok F t (kf_pml4 F) (va_path (KERNEL_BASE + C))" "mmu_walk (mem t) (kf_pml4 F) (KERNEL_BASE + C) = Some C"
      "\<And>p. p \<in> walk_slots (mem t) (kf_pml4 F) (va_path (KERNEL_BASE + C)) \<Longrightarrow> \<exists>u k. p = slot u k \<and> page_aligned u \<and> u \<noteq> C \<and> unat k < 512"
      "\<And>x. plain_byte F u x \<Longrightarrow> mem t x = mem u x"
    using fill_top_run [OF a(2,3,6) f(2) hi f(4) _ f(6)] f(5) unfolding bm by blast
  note sw = switch_uctx [OF t(2,5) f(2) hi t(6-9)]
  have run: "user_space_init s = (Inr (zero_task\<lparr>pid := 1, task_pml4t := C + KERNEL_BASE\<rparr>), t\<lparr>cr3 := C\<rparr>)"
    using a(1) t(1) unfolding user_space_init_def fill_top_def
    by (auto simp: monad set_cr3_def Let_def add.commute split: prod.splits sum.splits)
  have form: "t\<lparr>cr3 := C\<rparr> = s\<lparr>mem := mem t, invlpg_log := invlpg_log t, cr3 := C\<rparr>" by (subst t(3)) (simp add: u_def)
  have kept: "mem t x = mem s x" if "plain_byte F s x" for x
    using that t(10) [of x] a(7) [OF plain_untouched [OF inv that]] by (simp add: plain_byte_def bm)
  have "free_frames (t\<lparr>cr3 := C\<rparr>) = free_frames t" by (simp add: free_frames_def pmm_used_def pmm_frames_def bm_base_def)
  then show ?thesis using run sw form kept c t(4) by (intro exI [of _ "t\<lparr>cr3 := C\<rparr>"]) (simp add: F'_def C_def)
qed

section \<open>The program starts\<close>

text \<open>A file in the window, off the bitmap and the kernel's tables.\<close>

definition image_bytes :: "kframes \<Rightarrow> machine \<Rightarrow> u64 \<Rightarrow> u8 list \<Rightarrow> bool" where
  "image_bytes F s a bs \<longleftrightarrow>
     in_win a (length bs) \<and> pread (mem s) (a - KERNEL_BASE) (length bs) = bs \<and>
     apart (bm_base s) (unat (mem_bitmap_size s)) (a - KERNEL_BASE) (length bs) \<and>
     (\<forall>t\<in>{kf_pml4 F, kf_pdpt F, kf_pd F, kf_pt F}. apart t 4096 (a - KERNEL_BASE) (length bs))"

lemma image_byte:
  assumes "image_bytes F s a bs" "i < length bs"
  shows "plain_byte F s (a - KERNEL_BASE + of_nat i)"
proof -
  have "unat (a - KERNEL_BASE + of_nat i) = unat (a - KERNEL_BASE) + i"
    using assms by (intro unat_add_of_nat) (simp add: image_bytes_def in_win_def)
  then show ?thesis
    using assms apart_outside [OF _ assms(2)] by (auto simp: plain_byte_def image_bytes_def in_win_def)
qed

lemma image_kernel_bytes:
  assumes "image_bytes F s a bs" "0 < length bs" "bm_base t = bm_base s" "mem_bitmap_size t = mem_bitmap_size s"
    and "\<And>x. plain_byte F s x \<Longrightarrow> mem t x = mem s x" "kf_pt F' = kf_pt F"
  shows "kernel_bytes F' t a bs"
proof -
  have "pread (mem t) (a - KERNEL_BASE) (length bs) = pread (mem s) (a - KERNEL_BASE) (length bs)"
    by (rule pread_cong) (rule assms(5) [OF image_byte [OF assms(1)]])
  moreover have "apart (temp_slot F) 8 (a - KERNEL_BASE) (length bs)"
    using apart_sub [of "kf_pt F" 4096 "a - KERNEL_BASE" "length bs" "0xFF8" 8 0 "length bs"] assms(1,2)
    by (simp add: image_bytes_def)
  ultimately show ?thesis using assms(1,3,4,6) by (simp add: kernel_bytes_def image_bytes_def)
qed

lemma first_low:
  assumes "f \<in> free_frames s" "unat f < 0x40000000"
  shows "\<exists>j. first_free s 0 = Some j \<and> j < 0x40000"
proof -
  have b: "unat f div 4096 < unat (mem_bitmap_bit_size s)" "\<not> frame_bit (mem s) (bm_base s) (unat f div 4096)"
    using assms(1) by (auto simp: free_frames_def pmm_used_def pmm_frames_def)
  then obtain j where j: "first_free s 0 = Some j" using first_free_None [of s] by fastforce
  have "\<not> unat f div 4096 < j" using first_free_Some(3) [OF j] b(2) by blast
  moreover have "unat f div 4096 < 0x40000" using assms(2) by (simp add: less_mult_imp_div_less)
  ultimately show ?thesis using j by auto
qed

lemma start_program_run:
  assumes inv: "vm_inv F s" and ks: "kernel_space F s" and low: "f \<in> free_frames s" "unat f < 0x40000000"
    and img: "image_bytes F s elf img" "program_ok img" and free: "4 * (page_total (segments img) + 1) + 2 \<le> card (free_frames s)"
  shows "\<exists>C t L. bind user_space_init (\<lambda>task. andthen (load_elf place task elf) (raise Halt)) s = (Inl (after_switch place t) :: fault + unit, t)
     \<and> uctx (F\<lparr>kf_root := C\<rparr>) t C L \<and> t = s\<lparr>mem := mem t, invlpg_log := invlpg_log t, cr3 := C\<rparr>
     \<and> program_shown img (\<lambda>_. None) (umem (mem t) C) \<and> (\<forall>x. plain_byte F s x \<longrightarrow> mem t x = mem s x)"
proof -
  obtain j where j: "first_free s 0 = Some j" "j < 0x40000" using first_low [OF low] by blast
  define C :: u64 where "C = of_nat j * PAGE_SIZE"
  define task where "task = zero_task\<lparr>pid := 1, task_pml4t := C + KERNEL_BASE\<rparr>"
  have "2 \<le> card (free_frames s)" using free by simp
  from user_space_init_run [OF inv ks j this, folded C_def, folded task_def] obtain u where
    u: "user_space_init s = (Inr task, u)" "uctx (F\<lparr>kf_root := C\<rparr>) u C [C \<mapsto> 4]" "u = s\<lparr>mem := mem u, invlpg_log := invlpg_log u, cr3 := C\<rparr>"
     "card (free_frames s) = card (free_frames u) + 2" "\<And>va. umem (mem u) C va = None"
     "\<And>x. plain_byte F s x \<Longrightarrow> mem u x = mem s x" by blast
  have fld: "bm_base u = bm_base s" "mem_bitmap_size u = mem_bitmap_size s" by (subst u(3), simp add: bm_base_def)+
  have len: "0 < length img" using img(2) by (auto simp: program_ok_def)
  have kb: "kernel_bytes (F\<lparr>kf_root := C\<rparr>) u elf img" by (rule image_kernel_bytes [OF img(1) len fld u(6)]) simp_all
  have tp: "task_pml4t task = KERNEL_BASE + C" by (simp add: task_def)
  have fr: "4 * (page_total (segments img) + 1) \<le> card (free_frames u)" using free u(4) by simp
  obtain t where t: "load_elf place task elf u = (Inl (after_switch place t), t)"
     "uload (F\<lparr>kf_root := C\<rparr>) C (4 * (page_total (segments img) + 1)) u t" "program_shown img (umem (mem u) C) (umem (mem t) C)"
    using load_elf_run [OF u(2) tp kb img(2) fr] by blast
  obtain L where L: "uctx (F\<lparr>kf_root := C\<rparr>) t C L" "t = u\<lparr>mem := mem t, invlpg_log := invlpg_log t\<rparr>" using t(2) by (auto simp: uload_def)
  have run: "bind user_space_init (\<lambda>task. andthen (load_elf place task elf) (raise Halt)) s = (Inl (after_switch place t) :: fault + unit, t)"
    using u(1) t(1) by (simp add: monad)
  have "t = s\<lparr>mem := mem t, invlpg_log := invlpg_log t, cr3 := C\<rparr>" by (subst L(2), subst u(3)) simp
  moreover have "umem (mem u) C = (\<lambda>_. None)" using u(5) by auto
  moreover have "mem t x = mem s x" if x: "plain_byte F s x" for x
    using t(2) u(6) [OF x] x plain_untouched [OF inv x] by (simp add: uload_def plain_byte_def untouched_def fld)
  ultimately show ?thesis using run L(1) t(3) by (intro exI [of _ C] exI [of _ t] exI [of _ L]) simp
qed

section \<open>The built-in program\<close>

text \<open>The headers at the start of the file.\<close>

definition program_head :: "u8 list" where "program_head =
    [0x7F, 0x45, 0x4C, 0x46, 0x02, 0x01, 0x01, 0x00, 0x00, 0x00, 0x00, 0x00, 0x00, 0x00, 0x00, 0x00,
     0x02, 0x00, 0x3E, 0x00, 0x01, 0x00, 0x00, 0x00, 0x78, 0x00, 0x40, 0x00, 0x00, 0x00, 0x00, 0x00,
     0x40, 0x00, 0x00, 0x00, 0x00, 0x00, 0x00, 0x00, 0xE0, 0x01, 0x00, 0x00, 0x00, 0x00, 0x00, 0x00,
     0x00, 0x00, 0x00, 0x00, 0x40, 0x00, 0x38, 0x00, 0x01, 0x00, 0x40, 0x00, 0x07, 0x00, 0x06, 0x00,
     0x01, 0x00, 0x00, 0x00, 0x05, 0x00, 0x00, 0x00, 0x00, 0x00, 0x00, 0x00, 0x00, 0x00, 0x00, 0x00,
     0x00, 0x00, 0x40, 0x00, 0x00, 0x00, 0x00, 0x00, 0x00, 0x00, 0x40, 0x00, 0x00, 0x00, 0x00, 0x00,
     0xC0, 0x00, 0x00, 0x00, 0x00, 0x00, 0x00, 0x00, 0xC0, 0x00, 0x00, 0x00, 0x00, 0x00, 0x00, 0x00,
     0x00, 0x10, 0x00, 0x00, 0x00, 0x00, 0x00, 0x00]"

lemma program_head_take: "take 120 user_program_elf = program_head" "length user_program_elf = 928"
  unfolding user_program_elf_def program_head_def by simp_all

lemma program_headers:
  "elf_header user_program_elf = decode_Elf64_Ehdr (take 64 program_head)"
  "take 56 (drop 64 user_program_elf) = drop 64 program_head"
proof -
  show "elf_header user_program_elf = decode_Elf64_Ehdr (take 64 program_head)"
    by (simp add: elf_header_def flip: program_head_take)
  show "take 56 (drop 64 user_program_elf) = drop 64 program_head" by (simp add: take_drop flip: program_head_take)
qed

lemma user_program_header:
  "length user_program_elf = 928" "elf_verdict (elf_header user_program_elf) = 0" "e_entry (elf_header user_program_elf) = 0x400078"
  "e_phoff (elf_header user_program_elf) = 64" "e_phnum (elf_header user_program_elf) = 1"
  unfolding program_headers by (rule program_head_take, code_simp+)

lemma user_program_segment:
  "segments user_program_elf = [\<lparr>p_type = 1, p_flags = 5, p_offset = 0, p_vaddr = 0x400000, p_paddr = 0x400000,
     p_filesz = 0xC0, p_memsz = 0xC0, p_align = 0x1000\<rparr>]"
proof -
  have "decode_Elf64_Phdr (drop 64 program_head) = \<lparr>p_type = 1, p_flags = 5, p_offset = 0, p_vaddr = 0x400000, p_paddr = 0x400000,
     p_filesz = 0xC0, p_memsz = 0xC0, p_align = 0x1000\<rparr>" by code_simp
  then show ?thesis by (simp add: segments_from_def phdr_at_def user_program_header program_headers(2) kconst)
qed

lemma user_program_pages: "pages_of (segments user_program_elf) = {0x400}" "page_total (segments user_program_elf) = 1"
  by (simp_all add: user_program_segment pages_of_def seg_pages_def page_total_def)

lemma user_program_ok: "program_ok user_program_elf"
  unfolding program_ok_def user_program_pages user_program_segment user_program_header
  by (simp add: seg_ok_def user_program_header pages_of_def user_stack_def seg_pages_def)

text \<open>The boot state with the built-in program in the kernel's data.\<close>

definition program_machine :: machine where
  "program_machine = boot_machine\<lparr>mem := pwrite (mem boot_machine) 0xD000 user_program_elf\<rparr>"

lemma program_fields:
  "bm_base program_machine = 0x26000" "unat (mem_bitmap_size program_machine) = 128" "mem_bitmap_size program_machine = 128"
  "unat (mem_bitmap_bit_size program_machine) = 1024"
  by (simp_all add: program_machine_def bm_base_def) (simp_all add: boot_machine_def kconst)

lemma program_vm_inv: "vm_inv boot_frames program_machine" "pmm_used program_machine = pmm_used boot_machine"
proof -
  have ap: "apart 0xD000 (length user_program_elf) q n" if "0xE000 \<le> unat q" "unat q + n \<le> 0x26100" "0 < n" for q n
    using that unfolding user_program_header by (intro apart_le) simp_all
  have "off_tables boot_frames 0xD000 (length user_program_elf)"
    unfolding off_tables_def by (intro conjI ap; simp add: boot_frames_def)
  moreover have "apart 0xD000 (length user_program_elf) (bm_base boot_machine) (unat (mem_bitmap_size boot_machine))"
    unfolding boot_bitmap_fields by (rule ap) simp_all
  ultimately show "vm_inv boot_frames program_machine" "pmm_used program_machine = pmm_used boot_machine"
    unfolding program_machine_def using vm_inv_pwrite [OF boot_vm_inv] by blast+
qed

lemma program_word: "unat a mod 8 = 0 \<Longrightarrow> 0xE000 \<le> unat a \<Longrightarrow> unat a + 8 \<le> 0x26000 \<Longrightarrow> pread64 (mem program_machine) a = boot_words a"
proof -
  assume a: "unat a mod 8 = 0" "0xE000 \<le> unat a" "unat a + 8 \<le> 0x26000"
  have "apart 0xD000 (length user_program_elf) a 8" unfolding user_program_header by (rule apart_le) (use a in simp_all)
  then show ?thesis using boot_word [OF a(1,3)] by (simp add: program_machine_def pread64_pwrite_apart)
qed

lemma program_kernel_space: "kernel_space boot_frames program_machine"
proof -
  have w: "pread64 (mem program_machine) (slot t k) = boot_words (slot t k) \<and> unat (slot t k) = unat t + 8 * unat k"
    if "t \<in> {0x22000, 0x24000}" "unat k < 512" for t k
  proof -
    have u: "unat (slot t k) = unat t + 8 * unat k" unfolding slot_offset by (rule unat_add_of_nat) (use that in auto)
    have "unat (slot t k) mod 8 = 0" unfolding u using that(1) by auto
    then show ?thesis using program_word [of "slot t k"] u that by auto
  qed
  have z: "boot_words a = 0" if "unat a \<notin> {0x22FF8, 0x23FF0, 0x24000}" "unat a < 0x25000" for a
    using that by (auto simp: boot_words_def unat_sub_if_size word_size word_le_nat_alt)
  have "pread64 (mem program_machine) (slot 0x22000 k) = 0" if "unat k < 256" for k
    using w [of "0x22000" k] z [of "slot 0x22000 k"] that by auto
  moreover have "pread64 (mem program_machine) (slot 0x24000 k) = 0" if "0 < unat k" "unat k < 512" for k
    using w [of "0x24000" k] z [of "slot 0x24000 k"] that by auto
  ultimately show ?thesis by (simp add: kernel_space_def boot_frames_def)
qed

lemma program_free: "i < 512 \<Longrightarrow> of_nat (0x200000 + 4096 * i) \<in> free_frames program_machine" "512 \<le> card (free_frames program_machine)"
proof -
  have f: "of_nat (0x200000 + 4096 * i) \<in> free_frames program_machine" if i: "i < 512" for i
  proof -
    have u: "unat (of_nat (0x200000 + 4096 * i) :: u64) = 0x200000 + 4096 * i" by (rule unat_of_nat64) (use i in simp)
    have d: "(0x200000 + 4096 * i) div 4096 = 512 + i" "(0x200000 + 4096 * i) mod 4096 = 0"
      using div_of_sum [of "0x200000 + 4096 * i" "512 + i" 4096 0] by (simp_all add: mod_eq_0_iff_dvd)
    have "of_nat (0x200000 + 4096 * i) \<in> pmm_frames boot_machine"
      using i unfolding pmm_frames_def mem_Collect_eq page_aligned_iff u d by (auto simp: boot_machine_def word_unat_eq_iff u simp del: of_nat_add of_nat_mult)
    moreover have "of_nat (0x200000 + 4096 * i) \<notin> pmm_used boot_machine"
      using boot_bits [of "512 + i"] i unfolding pmm_used_def mem_Collect_eq u d boot_bitmap_fields(1) by simp
    moreover have "pmm_frames program_machine = pmm_frames boot_machine" by (simp add: pmm_frames_def program_machine_def)
    ultimately show ?thesis by (simp add: free_frames_def program_vm_inv(2) del: of_nat_add of_nat_mult)
  qed
  then show "i < 512 \<Longrightarrow> of_nat (0x200000 + 4096 * i) \<in> free_frames program_machine" .
  have "inj_on (\<lambda>i. of_nat (0x200000 + 4096 * i) :: u64) {..<512}"
  proof (rule inj_onI)
    fix i j :: nat assume ij: "i \<in> {..<512}" "j \<in> {..<512}" and e: "of_nat (0x200000 + 4096 * i) = (of_nat (0x200000 + 4096 * j) :: u64)"
    have u: "unat (of_nat (0x200000 + 4096 * k) :: u64) = 0x200000 + 4096 * k" if "k \<in> {..<512}" for k
      by (rule unat_of_nat64) (use that in simp)
    have "0x200000 + 4096 * i = 0x200000 + 4096 * j" using arg_cong [OF e, of unat] unfolding u [OF ij(1)] u [OF ij(2)] .
    then show "i = j" by simp
  qed
  moreover have "(\<lambda>i. of_nat (0x200000 + 4096 * i)) ` {..<512} \<subseteq> free_frames program_machine"
    by (rule image_subsetI) (simp only: lessThan_iff f)
  ultimately have "card {..<512 :: nat} \<le> card (free_frames program_machine)" by (rule card_inj_on_le [OF _ _ finite_frames])
  then show "512 \<le> card (free_frames program_machine)" by simp
qed

lemma program_image: "image_bytes boot_frames program_machine 0xFFFFFFFF8000D000 user_program_elf"
proof -
  have ap: "apart q n 0xD000 (length user_program_elf)" if "0xE000 \<le> unat q" "unat q + n \<le> 0x26100" "0 < n" for q n
    using that unfolding user_program_header by (intro apart_sym [OF apart_le]) simp_all
  have sub: "0xFFFFFFFF8000D000 - KERNEL_BASE = 0xD000" by (simp add: kconst)
  have "in_win 0xFFFFFFFF8000D000 (length user_program_elf)" unfolding in_win_def sub user_program_header by simp
  moreover have "pread (mem program_machine) 0xD000 (length user_program_elf) = user_program_elf"
    using pread_pwrite_sub [of 0 "length user_program_elf" user_program_elf "mem boot_machine" "0xD000"] user_program_header(1)
    by (simp add: program_machine_def)
  moreover have "apart (bm_base program_machine) (unat (mem_bitmap_size program_machine)) 0xD000 (length user_program_elf)"
    unfolding program_fields by (rule ap) simp_all
  moreover have "\<forall>t\<in>{0x22000, 0x23000, 0x24000, 0x25000}. apart t 4096 0xD000 (length user_program_elf)"
    by (auto intro!: ap)
  ultimately show ?thesis unfolding image_bytes_def sub by (simp add: boot_frames_def)
qed

section \<open>Properties\<close>

text \<open>C3: \<open>load_elf\<close> loads: a program whose headers are in order, whose segments lie in the lower half
  of the address space inside the file and on pages of their own, is mapped and copied. Every byte of a
  segment that the file has is where its program header says, the rest of the segment and the page of the
  stack are mapped, every other user address is mapped to what it was before, and the invariant of the
  memory managers holds. The jump to the program then fails: the local variable \<open>entry\<close> is loaded from below
  the user's stack, which is a page fault unless a page is mapped there, and what is loaded there
  otherwise is where \<open>sysret\<close> goes.\<close>

theorem load_elf_loads:
  assumes "uctx F s C L" "task_pml4t task = KERNEL_BASE + C" "kernel_bytes F s elf img" "program_ok img"
    and "4 * (page_total (segments img) + 1) \<le> card (free_frames s)"
  shows "\<exists>t. load_elf place task elf s = (Inl (case fst (load64 (0x700000000000 - place) t) of
         Inl e \<Rightarrow> e | Inr v \<Rightarrow> Sysret (v AND 0xFFFFFFFF) 0x700000000000 0), t) \<and> vm_inv F t
     \<and> (frame_place place \<and> page_of (0x700000000000 - place) \<notin> pages_of (segments img)
          \<and> umem (mem s) C (0x700000000000 - place) = None
          \<longrightarrow> load_elf place task elf s = (Inl (PageFault (0x700000000000 - place)), t))
     \<and> (\<forall>p\<in>set (segments img).
          (\<forall>k<unat (p_filesz p). umem (mem t) C (p_vaddr p + of_nat k) = Some (img ! (unat (p_offset p) + k))) \<and>
          (\<forall>k<unat (p_memsz p). umem (mem t) C (p_vaddr p + of_nat k) \<noteq> None))
     \<and> (\<forall>va. page_of va = 0x700000000 \<longrightarrow> umem (mem t) C va \<noteq> None)
     \<and> (\<forall>va. page_of va \<notin> insert 0x700000000 (pages_of (segments img)) \<longrightarrow> umem (mem t) C va = umem (mem s) C va)"
proof -
  obtain t L' where t: "load_elf place task elf s = (Inl (after_switch place t), t)" "uctx F t C L'"
      "program_shown img (umem (mem s) C) (umem (mem t) C)"
    using load_elf_run [OF assms, of place] by (auto simp: uload_def)
  note shown = t(3) [unfolded program_shown_def seg_shown_def user_stack_addr(2)]
  have "after_switch place t = PageFault (user_stack - place)"
    if p: "frame_place place" "page_of (user_stack - place) \<notin> pages_of (segments img)" "umem (mem s) C (user_stack - place) = None"
  proof (rule after_switch_unmapped)
    show "cr3 t AND PAGE_MASK = C AND PAGE_MASK" using uctxD(4,5) [OF t(2)] by simp
    show "umem (mem t) C (user_stack - place) = None" using shown p frame_place_addr(2) [OF p(1)] by simp
  qed (rule frame_place_addr(1) [OF p(1)])
  then show ?thesis
    using t(1) shown uctxD(1) [OF t(2)] unfolding after_switch_def user_stack_def by (intro exI [of _ t]) simp
qed

theorem load_elf_loads_witness:
  "\<exists>task s C t. user_space_init program_machine = (Inr task, s)
     \<and> load_elf 0x38 task 0xFFFFFFFF8000D000 s = (Inl (PageFault 0x6FFFFFFFFFC8), t)
     \<and> umem (mem t) C 0x400078 = Some 0x55"
proof -
  have f: "0x200000 \<in> free_frames program_machine" "unat (0x200000 :: u64) < 0x40000000" using program_free(1) [of 0] by simp_all
  obtain j where j: "first_free program_machine 0 = Some j" "j < 0x40000" using first_low [OF f] by blast
  define C :: u64 where "C = of_nat j * PAGE_SIZE"
  have "2 \<le> card (free_frames program_machine)" using program_free(2) by simp
  from user_space_init_run [OF program_vm_inv(1) program_kernel_space j this, folded C_def] obtain u where
    u: "user_space_init program_machine = (Inr (zero_task\<lparr>pid := 1, task_pml4t := C + KERNEL_BASE\<rparr>), u)"
     "uctx (boot_frames\<lparr>kf_root := C\<rparr>) u C [C \<mapsto> 4]" "u = program_machine\<lparr>mem := mem u, invlpg_log := invlpg_log u, cr3 := C\<rparr>"
     "card (free_frames program_machine) = card (free_frames u) + 2" "\<And>va. umem (mem u) C va = None"
     "\<And>x. plain_byte boot_frames program_machine x \<Longrightarrow> mem u x = mem program_machine x"
    by blast
  let ?task = "zero_task\<lparr>pid := 1, task_pml4t := C + KERNEL_BASE\<rparr>"
  have fld: "bm_base u = bm_base program_machine" "mem_bitmap_size u = mem_bitmap_size program_machine" by (subst u(3), simp add: bm_base_def)+
  have "kernel_bytes (boot_frames\<lparr>kf_root := C\<rparr>) u 0xFFFFFFFF8000D000 user_program_elf"
    by (rule image_kernel_bytes [OF program_image _ fld u(6)]) (simp_all add: user_program_header)
  moreover have "4 * (page_total (segments user_program_elf) + 1) \<le> card (free_frames u)"
    using program_free(2) u(4) unfolding user_program_pages by simp
  moreover have "task_pml4t ?task = KERNEL_BASE + C" by (simp add: add.commute)
  moreover have "frame_place 0x38" by (simp add: frame_place_def)
  ultimately obtain t where t: "load_elf 0x38 ?task 0xFFFFFFFF8000D000 u = (Inl (PageFault 0x6FFFFFFFFFC8), t)"
      "\<forall>k<192. umem (mem t) C (0x400000 + of_nat k) = Some (user_program_elf ! k)"
    using load_elf_loads [OF u(2) _ _ user_program_ok, of ?task "0xFFFFFFFF8000D000" "0x38"] u(5)
    unfolding user_program_pages(1) unfolding user_program_header user_program_segment by auto
  have "user_program_elf ! 120 = 0x55" by (simp add: user_program_elf_def)
  then have "umem (mem t) C 0x400078 = Some 0x55" using spec [OF t(2), of 120] by simp
  then show ?thesis using u(1) t(1) by blast
qed

text \<open>C24: \<open>user_space_init\<close>, the part of \<open>kernel_main\<close> that prepares the first program, switches to a new
  top table in a frame that was free: the addresses of the kernel's window translate as before, the
  table itself is reached at its place in the kernel, no address of the lower half is mapped, and no
  byte of the window outside the kernel's tables and the bitmap has changed.\<close>

theorem user_space_init_space:
  assumes "vm_inv F s" "kernel_space F s" "f \<in> free_frames s" "unat f < 0x40000000" "2 \<le> card (free_frames s)"
  shows "\<exists>C t. user_space_init s = (Inr (zero_task\<lparr>pid := 1, task_pml4t := KERNEL_BASE + C\<rparr>), t)
     \<and> C \<in> free_frames s \<and> cr3 t = C \<and> vm_inv (F\<lparr>kf_root := C\<rparr>) t
     \<and> (\<forall>a. unat (a - KERNEL_BASE) < 0x1FF000 \<longrightarrow> translate t a = Inr (a - KERNEL_BASE))
     \<and> mmu_walk (mem t) C (KERNEL_BASE + C) = Some C \<and> (\<forall>va. unat va < 2 ^ 47 \<longrightarrow> mmu_walk (mem t) C va = None)
     \<and> (\<forall>x. plain_byte F s x \<longrightarrow> mem t x = mem s x)"
proof -
  obtain j where j: "first_free s 0 = Some j" "j < 0x40000" using first_low [OF assms(3,4)] by blast
  define C :: u64 where "C = of_nat j * PAGE_SIZE"
  from user_space_init_run [OF assms(1,2) j assms(5), folded C_def] obtain t where
    t: "user_space_init s = (Inr (zero_task\<lparr>pid := 1, task_pml4t := C + KERNEL_BASE\<rparr>), t)" "uctx (F\<lparr>kf_root := C\<rparr>) t C [C \<mapsto> 4]"
     "t = s\<lparr>mem := mem t, invlpg_log := invlpg_log t, cr3 := C\<rparr>" "\<forall>va. umem (mem t) C va = None"
     "\<forall>x. plain_byte F s x \<longrightarrow> mem t x = mem s x" by blast
  note d = uctxD [OF t(2)]
  have "C \<in> free_frames s" unfolding C_def by (rule alloc_top(5) [OF assms(1,2) j(1)])
  moreover have "cr3 t = C" by (subst t(3)) simp
  moreover have "translate t a = Inr (a - KERNEL_BASE)" if "unat (a - KERNEL_BASE) < 0x1FF000" for a
    using kwin_translate [OF vm_invD(3) [OF d(1)]] that by blast
  moreover have "mmu_walk (mem t) C va = None" if "unat va < 2 ^ 47" for va
    using spec [OF t(4), of va] that by (simp add: umem_def user_addr_def)
  moreover have "mmu_walk (mem t) C (KERNEL_BASE + C) = Some C" by (rule top_shownD(3) [OF d(3)])
  ultimately show ?thesis using t(1,5) d(1) by (intro exI [of _ C] exI [of _ t]) (simp add: add.commute)
qed

theorem user_space_init_space_witness:
  "\<exists>C t. user_space_init program_machine = (Inr (zero_task\<lparr>pid := 1, task_pml4t := KERNEL_BASE + C\<rparr>), t)
     \<and> cr3 t = C \<and> translate t 0xFFFFFFFF80000000 = Inr 0"
proof -
  have "0x200000 \<in> free_frames program_machine" using program_free(1) [of 0] by simp
  from user_space_init_space [OF program_vm_inv(1) program_kernel_space this] program_free(2)
  obtain C t where t: "user_space_init program_machine = (Inr (zero_task\<lparr>pid := 1, task_pml4t := KERNEL_BASE + C\<rparr>), t)"
    "cr3 t = C" "\<forall>a. unat (a - KERNEL_BASE) < 0x1FF000 \<longrightarrow> translate t a = Inr (a - KERNEL_BASE)" by auto
  have "translate t 0xFFFFFFFF80000000 = Inr 0" using spec [OF t(3), of "0xFFFFFFFF80000000"] by (simp add: kconst)
  with t(1,2) show ?thesis by blast
qed

text \<open>The addresses of the lower half and the bytes of physical memory behind them.\<close>

definition user_map :: "pmem \<Rightarrow> u64 \<Rightarrow> u64 \<rightharpoonup> u64" where
  "user_map m C va = (if user_addr va then mmu_walk m C va else None)"

text \<open>C5: \<open>pmm_alloc\<close> followed by \<open>map_page\<close> in a user space refines the update of a map from pages to
  frames: the page of the address leads to the new frame, every other user address to where it led
  before and to the byte that was there; the tables that were missing are new frames too.\<close>

theorem map_user_page_refines:
  assumes "uctx F s C L" "user_addr va" "4 \<le> card (free_frames s)"
    and "unat flags < 0x1000" "flags AND 1 \<noteq> 0" "flags AND 0x80 = 0"
  shows "\<exists>pa t L'. bind pmm_alloc (\<lambda>pa. map_page \<lparr>ctx_pml4t = KERNEL_BASE + C, is_kernel = False\<rparr> va pa flags) s = (Inr (), t)
     \<and> uctx F t C L' \<and> pa \<notin> dom L \<and> card (free_frames s) \<le> card (free_frames t) + 4
     \<and> user_map (mem t) C = (\<lambda>a. if page_of a = page_of va then Some (pa + (a AND 0xFFF)) else user_map (mem s) C a)
     \<and> (\<forall>a. page_of a \<noteq> page_of va \<longrightarrow> umem (mem t) C a = umem (mem s) C a)"
proof -
  obtain pa t L' where t: "bind pmm_alloc (\<lambda>pa. map_page \<lparr>ctx_pml4t = KERNEL_BASE + C, is_kernel = False\<rparr> va pa flags) s = (Inr (), t)"
      "ustep F C s L t L'" "uctx F t C L'" "pa \<notin> dom L" "card (free_frames s) \<le> card (free_frames t) + 4"
      "\<And>a. user_addr a \<Longrightarrow> mmu_walk (mem t) C a = (if page_of a = page_of va then Some (pa + (a AND 0xFFF)) else mmu_walk (mem s) C a)"
    using map_user_page [OF assms] by blast
  have n: "page_of a \<noteq> page_of va" if "\<not> user_addr a" for a
  proof
    assume e: "page_of a = page_of va"
    have "page_of va < 2 ^ 35" using assms(2) by (simp add: user_addr_def less_mult_imp_div_less)
    then have "page_of a < 2 ^ 35" using e by (simp only:)
    then have "unat a < 2 ^ 35 * 4096" by (subst (asm) div_less_iff_less_mult) (simp_all only: zero_less_numeral)
    then show False using that by (simp add: user_addr_def)
  qed
  have "user_map (mem t) C = (\<lambda>a. if page_of a = page_of va then Some (pa + (a AND 0xFFF)) else user_map (mem s) C a)"
    unfolding user_map_def using t(6) n by (intro ext) auto
  moreover have "umem (mem t) C a = umem (mem s) C a" if "page_of a \<noteq> page_of va" for a
    using ustep_umem [OF assms(1) t(2), of a] t(6) [of a] that by (cases "user_addr a") (auto simp: umem_def)
  ultimately show ?thesis using t(1,3-5) by blast
qed

theorem map_user_page_refines_witness:
  "\<exists>task s C pa t. user_space_init program_machine = (Inr task, s)
     \<and> bind pmm_alloc (\<lambda>pa. map_page \<lparr>ctx_pml4t = KERNEL_BASE + C, is_kernel = False\<rparr> 0x400000 pa 5) s = (Inr (), t)
     \<and> user_map (mem t) C 0x400010 = Some (pa + 0x10)"
proof -
  have f: "0x200000 \<in> free_frames program_machine" "unat (0x200000 :: u64) < 0x40000000" using program_free(1) [of 0] by simp_all
  obtain j where j: "first_free program_machine 0 = Some j" "j < 0x40000" using first_low [OF f] by blast
  define C :: u64 where "C = of_nat j * PAGE_SIZE"
  have "2 \<le> card (free_frames program_machine)" using program_free(2) by simp
  from user_space_init_run [OF program_vm_inv(1) program_kernel_space j this, folded C_def] obtain u where
    u: "user_space_init program_machine = (Inr (zero_task\<lparr>pid := 1, task_pml4t := C + KERNEL_BASE\<rparr>), u)"
     "uctx (boot_frames\<lparr>kf_root := C\<rparr>) u C [C \<mapsto> 4]" "card (free_frames program_machine) = card (free_frames u) + 2" by blast
  have a: "user_addr 0x400000" "4 \<le> card (free_frames u)" using program_free(2) u(3) by (simp_all add: user_addr_def)
  obtain pa t where t: "bind pmm_alloc (\<lambda>pa. map_page \<lparr>ctx_pml4t = KERNEL_BASE + C, is_kernel = False\<rparr> 0x400000 pa 5) u = (Inr (), t)"
      "user_map (mem t) C = (\<lambda>a. if page_of a = page_of 0x400000 then Some (pa + (a AND 0xFFF)) else user_map (mem u) C a)"
    using map_user_page_refines [OF u(2) a, of 5] by auto
  have "user_map (mem t) C 0x400010 = Some (pa + 0x10)" unfolding t(2) by simp
  then show ?thesis using u(1) t(1) by blast
qed

end
