(* ===== verification/Kernel_Boot.thy ===== *)
theory Kernel_Boot
  imports User_Start
begin

text \<open>
  The whole of \<open>kernel_main\<close>: from the state the boot loader leaves, the initialisation of the
  interrupt table, the processor, the page tables, the physical memory manager, the heap and the
  screen runs through, each step finds what it needs of the earlier ones, and the built-in user
  program is entered.
\<close>

section \<open>The kernel between the steps\<close>

definition kernel_ready :: "kframes \<Rightarrow> machine \<Rightarrow> bool" where
  "kernel_ready F s \<longleftrightarrow> vm_inv F s \<and> kernel_space F s"

definition same_vm :: "machine \<Rightarrow> machine \<Rightarrow> bool" where
  "same_vm s t \<longleftrightarrow> cr3 t = cr3 s \<and> pml4t t = pml4t s \<and> mem_bitmap t = mem_bitmap s \<and>
     mem_bitmap_size t = mem_bitmap_size s \<and> mem_bitmap_bit_size t = mem_bitmap_bit_size s"

lemma vm_inv_cong:
  assumes "same_vm s t" "mem t = mem s"
  shows "vm_inv F t = vm_inv F s" "free_frames t = free_frames s" "bm_base t = bm_base s"
  using assms
  by (simp_all add: same_vm_def vm_inv_def pmm_ok_def bitmap_ok_def bm_base_def free_frames_def pmm_used_def pmm_frames_def)

text \<open>A step that writes one range of memory off the kernel's tables and the bitmap.\<close>

definition range_step :: "kframes \<Rightarrow> u64 \<Rightarrow> nat \<Rightarrow> machine \<Rightarrow> machine \<Rightarrow> bool" where
  "range_step F p n s t \<longleftrightarrow>
     same_vm s t \<and> (\<forall>x. n \<le> unat (x - p) \<longrightarrow> mem t x = mem s x) \<and>
     apart p n (bm_base s) (unat (mem_bitmap_size s)) \<and>
     (\<forall>u\<in>{kf_pml4 F, kf_pdpt F, kf_pd F, kf_pt F}. apart p n u 4096)"

lemma range_step_ready:
  assumes r: "kernel_ready F s" and st: "range_step F p n s t"
  shows "kernel_ready F t" "free_frames t = free_frames s"
proof -
  have v: "vm_inv F s" "kernel_space F s" using r by (simp_all add: kernel_ready_def)
  have d: "same_vm s t" "\<And>x. n \<le> unat (x - p) \<Longrightarrow> mem t x = mem s x" "apart p n (bm_base s) (unat (mem_bitmap_size s))"
      "\<And>u. u \<in> {kf_pml4 F, kf_pdpt F, kf_pd F, kf_pt F} \<Longrightarrow> apart p n u 4096"
    using st by (auto simp: range_step_def)
  have part: "apart p n (u + of_nat i) k" if "u \<in> {kf_pml4 F, kf_pdpt F, kf_pd F, kf_pt F}" "i + k \<le> 4096" "0 < k" "0 < n" for u i k
    using apart_sub [OF d(4) [OF that(1)], of 0 n i k] that by simp
  have len: "length (pread (mem t) p n) = n" by simp
  have up: "mem t = pwrite (mem s) p (pread (mem t) p n)" by (rule agree_pwrite [OF d(2)])
  have n0: "0 < n" if "mem t \<noteq> mem s" using that d(2) by (cases n) auto
  let ?u = "s\<lparr>mem := mem t\<rparr>"
  have "vm_inv F ?u \<and> pmm_used ?u = pmm_used s"
  proof (cases "mem t = mem s")
    case False
    have "off_tables F p n"
      using part [of "kf_pml4 F" "0xFF8" 8] part [of "kf_pdpt F" "0xFF0" 8] part [of "kf_pd F" 0 8] part [of "kf_pt F" 0 "0xFF8"]
        v(2) n0 [OF False] by (simp add: off_tables_def kernel_space_def)
    then show ?thesis using vm_inv_pwrite [OF v(1), of p "pread (mem t) p n"] d(3) unfolding up [symmetric] len by blast
  qed (use v(1) in simp)
  moreover have "same_vm ?u t" "mem t = mem ?u" using d(1) by (simp_all add: same_vm_def)
  ultimately have vt: "vm_inv F t" "free_frames t = free_frames s"
    using vm_inv_cong(1) [of ?u t F] vm_inv_cong(2) [of ?u t] by (simp_all add: free_frames_def pmm_frames_def)
  show "free_frames t = free_frames s" by (rule vt(2))
  have "pread64 (mem t) (slot u k) = pread64 (mem s) (slot u k)"
    if "u \<in> {kf_pml4 F, kf_pdpt F, kf_pd F, kf_pt F}" "unat k < 512" for u k
  proof (rule pread64_agree)
    fix b :: nat assume b: "b < 8"
    show "mem t (slot u k + of_nat b) = mem s (slot u k + of_nat b)"
    proof (cases "mem t = mem s")
      case False
      have "apart p n (slot u k) 8" using part [OF that(1), of "8 * unat k" 8] that(2) n0 [OF False] by (simp add: slot_def)
      from d(2) [OF apart_outside [OF this b]] show ?thesis .
    qed simp
  qed
  then have "kernel_space F t" using v(2) by (simp add: kernel_space_def)
  then show "kernel_ready F t" using vt(1) by (simp add: kernel_ready_def)
qed

lemma range_step_image:
  assumes img: "image_bytes F s a bs" and st: "range_step F p n s t" and ap: "apart p n (a - KERNEL_BASE) (length bs)"
  shows "image_bytes F t a bs"
proof -
  have "pread (mem t) (a - KERNEL_BASE) (length bs) = pread (mem s) (a - KERNEL_BASE) (length bs)"
    by (rule pread_cong) (use st apart_outside [OF ap] in \<open>simp add: range_step_def\<close>)
  moreover have "bm_base t = bm_base s" "mem_bitmap_size t = mem_bitmap_size s" using st by (simp_all add: range_step_def same_vm_def bm_base_def)
  ultimately show ?thesis using img by (simp add: image_bytes_def)
qed

section \<open>Processor and pool\<close>

lemma sse_init_run:
  assumes "bit edx 25"
  shows "sse_init edx s = (Inr (), s\<lparr>cr0 := (cr0 s AND NOT 4) OR 2, cr4 := cr4 s OR 0x600\<rparr>)"
proof -
  have "edx AND 0x2000000 \<noteq> 0"
    using assms unfolding bit_eq_iff [of "edx AND 0x2000000"] bit_and_iff bit_numbers by auto
  then have "edx AND push_bit 25 1 \<noteq> 0" by simp
  then show ?thesis unfolding sse_init_def by (simp add: monad sse_cr0 sse_cr4)
qed

text \<open>Where the tables, the bitmap and the heap come to lie, as offsets in the window.\<close>

definition table_base :: "nat \<Rightarrow> nat" where
  "table_base n = 0x21000 + 4096 * ((24 * n + 4095) div 4096)"

definition heap_base :: "pmem \<Rightarrow> u64 \<Rightarrow> nat \<Rightarrow> nat" where
  "heap_base m p n = table_base n + 0x4000 + 4096 * ((map_bytes m p n + 4095) div 4096)"

lemma reserve_pages_run:
  assumes nf: "next_free s = POOL_START" and n: "unat n \<le> 0x1000"
  shows "reserve_pages n s = (Inr (), s\<lparr>next_free := KERNEL_BASE + of_nat (table_base (unat n))\<rparr>)"
proof -
  let ?c = "(24 * n + 4096 - 1) div 4096" and ?N = "(24 * unat n + 4095) div 4096"
  have "unat (24 * n + 4095) = 24 * unat n + 4095"
    using unat_of_nat64 [of "24 * unat n + 4095"] n by simp
  moreover have "24 * n + 4096 - 1 = 24 * n + 4095" by simp
  ultimately have c: "unat ?c = ?N" by (simp only: unat_div_distrib) simp
  have b: "?N < 50" using n by (simp add: less_mult_imp_div_less)
  have p: "unat (POOL_START - KERNEL_BASE) = 0x20000" by (simp add: kconst)
  have a: "alloc_page s = (Inr POOL_START, s\<lparr>next_free := POOL_START + PAGE_SIZE\<rparr>)"
    using alloc_page_run [of s] nf p by simp
  let ?u = "s\<lparr>next_free := POOL_START + PAGE_SIZE\<rparr>"
  have q: "unat (next_free ?u - KERNEL_BASE) = 0x21000" by (simp add: kconst)
  have "for_up 0 ?c (\<lambda>_. andthen alloc_page (ret ())) ?u = (Inr (), ?u\<lparr>next_free := next_free ?u + of_nat (unat ?c * 4096)\<rparr>)"
    by (rule alloc_pages_run) (use q c b in simp)
  moreover have "next_free ?u + of_nat (unat ?c * 4096) = KERNEL_BASE + of_nat (table_base (unat n))"
    unfolding c by (simp add: table_base_def kconst algebra_simps)
  ultimately show ?thesis using a by (simp add: reserve_pages_def monad Let_def)
qed
section \<open>Tables and bitmap\<close>

abbreviation pool_tables :: "u64 \<Rightarrow> u64 set" where
  "pool_tables P \<equiv> {P, P + 0x1000, P + 0x2000, P + 0x3000}"

lemma pool_table_apart:
  assumes "unat P + 0x4000 \<le> 0x1FF000" "u \<in> pool_tables P" "i + k \<le> 4096" "0 < k" "0 < n"
  shows "unat P + 0x4000 \<le> unat q \<Longrightarrow> unat q + n \<le> 2 ^ 64 \<Longrightarrow> apart q n (u + of_nat i) k"
    "unat q + n \<le> unat P \<Longrightarrow> apart q n (u + of_nat i) k"
proof -
  obtain j where j: "u = P + of_nat (4096 * j)" "j < 4"
    using assms(2) that [of 0] that [of 1] that [of 2] that [of 3] by auto
  have "4096 * j + i + k \<le> 4096 * 3 + 4096" using j(2) assms(3) mult_le_mono2 [of j 3 4096] by linarith
  then have b: "4096 * j + i + k \<le> 0x4000" by simp
  have "unat (P + of_nat (4096 * j + i)) = unat P + (4096 * j + i)"
    by (rule unat_add_of_nat) (use assms(1) b in simp)
  then have u: "unat (u + of_nat i) = unat P + 4096 * j + i" by (simp add: j(1) add.assoc)
  show "apart q n (u + of_nat i) k" if "unat P + 0x4000 \<le> unat q" "unat q + n \<le> 2 ^ 64"
    by (rule apart_sym, rule apart_le) (use that assms(1,4) b u in simp_all)
  show "apart q n (u + of_nat i) k" if "unat q + n \<le> unat P"
    by (rule apart_le) (use that assms(1,5) b u in simp_all)
qed

lemma pool_off_tables:
  assumes "unat P + 0x4000 \<le> 0x1FF000" "unat P + 0x4000 \<le> unat q" "unat q + n \<le> 2 ^ 64" "0 < n"
  shows "off_tables (pool_frames P) q n"
proof -
  have a: "apart q n (u + of_nat i) k" if "u \<in> pool_tables P" "i + k \<le> 4096" "0 < k" for u i k
    by (rule pool_table_apart(1) [OF assms(1) that assms(4,2,3)])
  show ?thesis
    using a [of P "0xFF8" 8] a [of "P + 0x1000" "0xFF0" 8] a [of "P + 0x2000" 0 8] a [of "P + 0x3000" 0 "0xFF8"]
    by (simp add: off_tables_def pool_frames_def)
qed

lemma tables_space:
  assumes "words_are P (mem s) (kernel_tables P)"
  shows "kernel_space (pool_frames P) s"
proof -
  have w: "pread64 (mem s) (P + of_nat (8 * i)) = kernel_tables P i" if "i < 2048" for i
    using assms that by (simp add: words_are_def)
  have 1: "pread64 (mem s) (slot P k) = 0" if "unat k < 256" for k
    using w [of "unat k"] that by (simp add: slot_def kernel_tables_def)
  have 2: "pread64 (mem s) (slot (P + 0x2000) k) = 0" if "0 < unat k" "unat k < 512" for k
    using w [of "1024 + unat k"] that by (simp add: slot_def kernel_tables_def add.assoc)
  show ?thesis using 1 2 by (simp add: kernel_space_def pool_frames_def)
qed

text \<open>The usable frames above the kernel, by number.\<close>

definition usable :: "pmem \<Rightarrow> u64 \<Rightarrow> nat \<Rightarrow> nat set" where
  "usable m p n = {i. 512 \<le> i \<and> i < map_pages m p n \<and> (\<exists>k<n. covers (mmap_entry m p k) i)}"

lemma usable_free:
  assumes ok: "pmm_ok F t" and N: "unat (mem_bitmap_bit_size t) = map_pages m p n"
    and bits: "\<And>i. i < unat (mem_bitmap_bit_size t) \<Longrightarrow> \<not> frame_bit (mem t) (bm_base t) i \<longleftrightarrow> 512 \<le> i \<and> (\<exists>k<n. covers (mmap_entry m p k) i)"
  shows "i \<in> usable m p n \<Longrightarrow> of_nat i * PAGE_SIZE \<in> free_frames t \<and> unat (of_nat i * PAGE_SIZE) = i * 4096"
    "card (usable m p n) \<le> card (free_frames t)"
proof -
  have b: "map_pages m p n \<le> 0xFF8000"
    using bitmap_ok_bound(2) [of F t] ok N by (simp add: pmm_ok_def)
  have f: "of_nat i * PAGE_SIZE \<in> free_frames t \<and> unat (of_nat i * PAGE_SIZE) = i * 4096" if "i \<in> usable m p n" for i
  proof -
    have i: "512 \<le> i" "i < map_pages m p n" "\<exists>k<n. covers (mmap_entry m p k) i" using that by (simp_all add: usable_def)
    have "i < 0xFF8000" using i(2) b by simp
    note a = frame_addr [OF this]
    have d: "unat (of_nat i * PAGE_SIZE) div 4096 = i" unfolding a(1) by simp
    have "\<not> frame_bit (mem t) (bm_base t) i" using bits [of i] i N by simp
    moreover have "unat (of_nat i * PAGE_SIZE) \<noteq> 0" unfolding a(1) using i(1) by simp
    then have "of_nat i * PAGE_SIZE \<noteq> (0 :: u64)" by (rule contrapos_nn) (simp only: unat_0)
    ultimately have "of_nat i * PAGE_SIZE \<in> pmm_frames t" "of_nat i * PAGE_SIZE \<notin> pmm_used t"
      unfolding pmm_used_def pmm_frames_def mem_Collect_eq d N using a(2) i(2) by blast+
    then show ?thesis using a(1) by (simp only: free_frames_def) blast
  qed
  then show "i \<in> usable m p n \<Longrightarrow> of_nat i * PAGE_SIZE \<in> free_frames t \<and> unat (of_nat i * PAGE_SIZE) = i * 4096" .
  have "inj_on (\<lambda>i. of_nat i * PAGE_SIZE) (usable m p n)"
  proof (rule inj_onI)
    fix i j assume "i \<in> usable m p n" "j \<in> usable m p n" "of_nat i * PAGE_SIZE = (of_nat j * PAGE_SIZE :: u64)"
    then have "i * 4096 = j * 4096" using f [of i] f [of j] by metis
    then show "i = j" by simp
  qed
  then show "card (usable m p n) \<le> card (free_frames t)" by (rule card_inj_on_le [OF _ _ finite_frames]) (use f in auto)
qed

text \<open>What is read of the memory map depends on its bytes only.\<close>

lemma map_reads_cong:
  assumes "\<forall>i < 24 * n. m' (p + of_nat i) = m (p + of_nat i)"
  shows "k < n \<Longrightarrow> mmap_entry m' p k = mmap_entry m p k" "map_pages m' p n = map_pages m p n"
    "map_bytes m' p n = map_bytes m p n" "usable m' p n = usable m p n"
proof -
  have e: "mmap_entry m' p k = mmap_entry m p k" if k: "k < n" for k
  proof -
    have "pread m' (p + 24 * of_nat k + of_nat j) l = pread m (p + 24 * of_nat k + of_nat j) l" if "j + l \<le> 24" for j l
    proof (rule pread_cong)
      fix i assume "i < l"
      then have "24 * k + j + i < 24 * Suc k" using that by simp
      also have "\<dots> \<le> 24 * n" using k by (intro mult_le_mono2) simp
      finally have "m' (p + of_nat (24 * k + j + i)) = m (p + of_nat (24 * k + j + i))" using assms by blast
      then show "m' (p + 24 * of_nat k + of_nat j + of_nat i) = m (p + 24 * of_nat k + of_nat j + of_nat i)"
        by (simp add: add.assoc)
    qed
    from this [of 0 8] this [of 8 8] this [of 16 4] this [of 20 4] show ?thesis
      by (simp add: mmap_entry_def Let_def pread64_def)
  qed
  then show "k < n \<Longrightarrow> mmap_entry m' p k = mmap_entry m p k" .
  have "last_end m' p j = last_end m p j" if "j \<le> n" for j using that by (induction j) (simp_all add: e Let_def)
  then show N: "map_pages m' p n = map_pages m p n" by (simp add: map_pages_def)
  then show "map_bytes m' p n = map_bytes m p n" by (simp add: map_bytes_def)
  show "usable m' p n = usable m p n" unfolding usable_def N using e by auto
qed

text \<open>A memory map the boot can work with: it lies below the pages of the tables, its usable ranges do
  not reach the end of the address space, and the tables, the bitmap and the heap fit below the
  screen.\<close>

definition map_ok :: "pmem \<Rightarrow> u64 \<Rightarrow> nat \<Rightarrow> bool" where
  "map_ok m mmap n \<longleftrightarrow>
     in_win mmap (24 * n) \<and> unat (mmap - KERNEL_BASE) + 24 * n \<le> table_base n \<and>
     (\<forall>i<n. mtype (mmap_entry m (mmap - KERNEL_BASE) i) = 1 \<longrightarrow>
        unat (base_addr (mmap_entry m (mmap - KERNEL_BASE) i)) + unat (len (mmap_entry m (mmap - KERNEL_BASE) i)) + 4095 < 2 ^ 64) \<and>
     512 \<le> map_pages m (mmap - KERNEL_BASE) n \<and> heap_base m (mmap - KERNEL_BASE) n + 0x4000 \<le> 0xB8000"

lemma map_ok_init:
  assumes ok: "map_ok (mem s) mmap n" and k: "kwin (pool_frames P) s" and P: "P = of_nat (table_base n)"
    and nf: "next_free s = KERNEL_BASE + P + 0x4000"
  shows "init_ok (pool_frames P) s mmap n" "unat P = table_base n" "0 < map_bytes (mem s) (mmap - KERNEL_BASE) n"
    "unat (P + 0x4000) = table_base n + 0x4000"
    "table_base n + 0x4000 + map_bytes (mem s) (mmap - KERNEL_BASE) n \<le> heap_base (mem s) (mmap - KERNEL_BASE) n"
proof -
  let ?p = "mmap - KERNEL_BASE"
  let ?B = "map_bytes (mem s) ?p n" and ?H = "heap_base (mem s) ?p n"
  note o = ok [unfolded map_ok_def]
  have T: "table_base n + 0x4000 \<le> ?H" "?H + 0x4000 \<le> 0xB8000" using o by (simp_all add: heap_base_def)
  then show u: "unat P = table_base n" unfolding P by (intro unat_of_nat64) simp
  have "unat (P + of_nat 0x4000) = unat P + 0x4000" by (rule unat_add_of_nat) (use u T in simp)
  then show u4: "unat (P + 0x4000) = table_base n + 0x4000" using u by simp
  have "(512 + 7) div 8 \<le> ?B" using o unfolding map_bytes_def by (intro div_le_mono) simp
  then show B: "0 < ?B" by simp
  have "?B \<le> (?B + 4095) div 4096 * 4096"
    using div_mult_mod_eq [of "?B + 4095" 4096] mod_less_divisor [of 4096 "?B + 4095"] by linarith
  then show bh: "table_base n + 0x4000 + ?B \<le> ?H" by (simp add: heap_base_def mult.commute)
  have n0: "0 < n" using o by (cases n) (auto simp: map_pages_def)
  have b: "next_free s - KERNEL_BASE = P + 0x4000" using nf by simp
  have "off_tables (pool_frames P) (P + 0x4000) ?B"
    by (rule pool_off_tables) (use u u4 T bh B in simp_all)
  moreover have "apart (P + 0x4000) ?B ?p (24 * n)"
    by (rule apart_sym, rule apart_le) (use o u4 T bh n0 in simp_all)
  moreover have "table_base n + 0x4000 + (?B + 4095) div 4096 * 4096 < 0x1FF000" using T by (simp add: heap_base_def mult.commute)
  ultimately show "init_ok (pool_frames P) s mmap n" using o k u4 by (simp add: init_ok_def Let_def b)
qed

lemma pmm_ready:
  assumes ok: "map_ok (mem s) mmap (unat n)" and w: "words_are P (mem s) (kernel_tables P)" and P: "P = of_nat (table_base (unat n))"
    and st: "cr3 s = P" "pml4t s = KERNEL_BASE + P" "next_free s = KERNEL_BASE + P + 0x4000"
  defines "p \<equiv> mmap - KERNEL_BASE"
  shows "\<exists>t. pmm_init mmap n s = (Inr (), t) \<and> kernel_ready (pool_frames P) t
     \<and> next_free t = KERNEL_BASE + of_nat (heap_base (mem s) p (unat n)) \<and> bm_base t = P + 0x4000
     \<and> unat (mem_bitmap_size t) = map_bytes (mem s) p (unat n)
     \<and> (\<forall>x. map_bytes (mem s) p (unat n) \<le> unat (x - (P + 0x4000)) \<longrightarrow> mem t x = mem s x)
     \<and> (\<forall>i\<in>usable (mem s) p (unat n). of_nat i * PAGE_SIZE \<in> free_frames t \<and> unat (of_nat i * PAGE_SIZE) = i * 4096)
     \<and> card (usable (mem s) p (unat n)) \<le> card (free_frames t)
     \<and> t = s\<lparr>mem := mem t, mem_bitmap_size := mem_bitmap_size t, mem_bitmap_bit_size := mem_bitmap_bit_size t,
          mem_bitmap := mem_bitmap t, next_free := next_free t\<rparr>"
proof -
  let ?F = "pool_frames P" and ?B = "map_bytes (mem s) p (unat n)"
  have T: "unat P = table_base (unat n)" "table_base (unat n) + 0x4000 < 0x1FF000" "page_aligned P"
  proof -
    have "table_base (unat n) + 0x4000 \<le> 0xB8000" using ok by (simp add: map_ok_def heap_base_def)
    then show "unat P = table_base (unat n)" "table_base (unat n) + 0x4000 < 0x1FF000" unfolding P by (simp_all add: unat_of_nat64)
    then show "page_aligned P" by (simp add: page_aligned_iff table_base_def mod_eq_0_iff_dvd)
  qed
  have k: "kwin ?F s" using tables_kmap [OF w T(3)] T(1,2) st by simp
  note io = map_ok_init [OF ok k P st(3), folded p_def]
  obtain t where t: "pmm_init mmap n s = (Inr (), t)" "pmm_ok ?F t" "mem_bitmap t = next_free s"
     "unat (mem_bitmap_bit_size t) = map_pages (mem s) p (unat n)" "unat (mem_bitmap_size t) = ?B"
     "\<And>i. i < unat (mem_bitmap_bit_size t) \<Longrightarrow> \<not> frame_bit (mem t) (bm_base t) i \<longleftrightarrow> 512 \<le> i \<and> (\<exists>k<unat n. covers (mmap_entry (mem s) p k) i)"
     "\<And>x. unat (mem_bitmap_size t) \<le> unat (x - bm_base t) \<Longrightarrow> mem t x = mem s x"
     and form: "t = s\<lparr>mem := mem t, mem_bitmap_size := mem_bitmap_size t, mem_bitmap_bit_size := mem_bitmap_bit_size t,
          mem_bitmap := next_free s, next_free := next_free s + of_nat ((?B + 4095) div 4096 * 4096)\<rparr>"
    using pmm_init_result [OF io(1)] unfolding p_def by blast
  have bm: "bm_base t = P + 0x4000" using t(3) st(3) by (simp add: bm_base_def)
  have N: "512 \<le> unat (mem_bitmap_bit_size t)" using t(4) ok by (simp add: map_ok_def p_def)
  have tb: "apart (P + 0x4000) ?B u 4096" if "u \<in> pool_tables P" for u
    using pool_table_apart(1) [OF _ that, of 0 4096 ?B "P + 0x4000"] T io(3,4,5) ok by (simp add: map_ok_def p_def)
  have "frame_bit (mem t) (P + 0x4000) i" if "i < 512" for i using t(6) [of i] N that unfolding bm by fastforce
  then have vi: "vm_inv ?F t" using t(2) N tb unfolding vm_inv_def bm t(5) by (auto simp: pool_frames_def)
  have "pread64 (mem t) (P + of_nat (8 * i)) = kernel_tables P i" if i: "i < 2048" for i
  proof -
    have "unat (P + of_nat (8 * i)) = unat P + 8 * i" by (rule unat_add_of_nat) (use T i in simp)
    then have ap: "apart (P + 0x4000) ?B (P + of_nat (8 * i)) 8"
      by (intro apart_sym [OF apart_le]) (use T io(4,5) i ok in \<open>simp_all add: map_ok_def p_def\<close>)
    have "pread64 (mem t) (P + of_nat (8 * i)) = pread64 (mem s) (P + of_nat (8 * i))"
      by (rule pread64_agree) (use t(7) apart_outside [OF ap] in \<open>simp add: bm t(5)\<close>)
    then show ?thesis using w i by (simp add: words_are_def)
  qed
  then have "kernel_space ?F t" by (intro tables_space) (simp add: words_are_def)
  then have r: "kernel_ready ?F t" using vi by (simp add: kernel_ready_def)
  note uf = usable_free [OF t(2,4,6)]
  have nf: "next_free t = KERNEL_BASE + of_nat (heap_base (mem s) p (unat n))"
    by (subst form) (simp add: st(3) P heap_base_def algebra_simps)
  have q: "next_free t = next_free s + of_nat ((?B + 4095) div 4096 * 4096)" by (subst form) simp
  have fm: "t = s\<lparr>mem := mem t, mem_bitmap_size := mem_bitmap_size t, mem_bitmap_bit_size := mem_bitmap_bit_size t,
      mem_bitmap := mem_bitmap t, next_free := next_free t\<rparr>"
    unfolding t(3) q by (rule form)
  show ?thesis using t(1,5,7) r nf bm uf fm by (intro exI [of _ t]) simp
qed

section \<open>Heap and screen\<close>

text \<open>The ranges behind the bitmap.\<close>

definition behind :: "u64 \<Rightarrow> machine \<Rightarrow> nat \<Rightarrow> bool" where
  "behind P s h \<longleftrightarrow> unat P + 0x4000 \<le> h \<and> bm_base s = P + 0x4000 \<and> 0 < unat (mem_bitmap_size s) \<and>
     unat P + 0x4000 + unat (mem_bitmap_size s) \<le> h"

lemma behind_range:
  assumes b: "behind P s h" and n: "h + n \<le> 0x1FF000" "0 < n" and st: "same_vm s t"
    and out: "\<And>x. unat x < h \<or> h + n \<le> unat x \<Longrightarrow> mem t x = mem s x"
  shows "range_step (pool_frames P) (of_nat h) n s t" "off_tables (pool_frames P) (of_nat h) n"
proof -
  have h: "unat (of_nat h :: u64) = h" using n by (intro unat_of_nat64) simp
  have P: "unat P + 0x4000 \<le> h" "unat P + 0x4000 \<le> 0x1FF000" using b n by (simp_all add: behind_def)
  have "unat (P + of_nat 0x4000) = unat P + 0x4000" by (rule unat_add_of_nat) (use P in simp)
  then have u: "unat (P + 0x4000) = unat P + 0x4000" by simp
  have "apart (of_nat h) n (bm_base s) (unat (mem_bitmap_size s))"
    by (rule apart_sym, rule apart_le) (use b h u n in \<open>simp_all add: behind_def\<close>)
  moreover have "apart (of_nat h) n v 4096" if "v \<in> pool_tables P" for v
    using pool_table_apart(1) [OF P(2) that, of 0 4096 n "of_nat h"] n h P(1) by simp
  moreover have "mem t x = mem s x" if "n \<le> unat (x - of_nat h)" for x
    by (rule out) (use that h in \<open>auto simp: unat_sub_if_size word_size word_le_nat_alt split: if_splits\<close>)
  ultimately show "range_step (pool_frames P) (of_nat h) n s t" using st by (auto simp: range_step_def pool_frames_def)
  show "off_tables (pool_frames P) (of_nat h) n" by (rule pool_off_tables) (use P n h in simp_all)
qed

lemma heap_pages_alloc:
  assumes "next_free s = KERNEL_BASE + of_nat h" "h + 0x4000 < 0x1FF000"
  shows "heap_pages s = heap_init (s\<lparr>next_free := KERNEL_BASE + of_nat (h + 0x4000), heap_start := KERNEL_BASE + of_nat h,
     heap_end := KERNEL_BASE + of_nat (h + 0x4000)\<rparr>)"
proof -
  have al: "alloc_page t = (Inr (KERNEL_BASE + of_nat k), t\<lparr>next_free := KERNEL_BASE + of_nat (k + 0x1000)\<rparr>)"
    if "next_free t = KERNEL_BASE + of_nat k" "k + 0x1000 < 0x1FF000" for t k
    using alloc_page_run [of t] that by (simp add: unat_of_nat64 kconst algebra_simps)
  let ?s = "s\<lparr>next_free := KERNEL_BASE + of_nat (h + 0x1000), heap_start := KERNEL_BASE + of_nat h\<rparr>"
  define e where "e j = KERNEL_BASE + of_nat (h + 0x1000 + 4096 * j)" for j
  have e: "e j + PAGE_SIZE = e (Suc j)" "e 0 = KERNEL_BASE + of_nat (h + 0x1000)" for j by (simp_all add: e_def kconst)
  let ?P = "\<lambda>j t. t = ?s\<lparr>next_free := e j, heap_end := if j = 0 then heap_end s else e j\<rparr>"
  have "\<exists>t. for_up 0 3 (\<lambda>_. bind alloc_page (\<lambda>q. modify (\<lambda>s. s\<lparr>heap_end := q + PAGE_SIZE\<rparr>))) ?s = (Inr (), t) \<and> ?P (unat (3 :: u64)) t"
  proof (rule for_up_rule)
    fix j t assume j: "j < unat (3 :: u64)" and t: "?P j t"
    have "next_free t = KERNEL_BASE + of_nat (h + 0x1000 + 4096 * j)" "h + 0x1000 + 4096 * j + 0x1000 < 0x1FF000"
      using t j assms(2) by (simp_all add: e_def)
    from al [OF this] have "alloc_page t = (Inr (e j), t\<lparr>next_free := e (Suc j)\<rparr>)" by (simp add: e_def)
    then show "\<exists>t'. bind alloc_page (\<lambda>q. modify (\<lambda>s. s\<lparr>heap_end := q + PAGE_SIZE\<rparr>)) t = (Inr (), t') \<and> ?P (Suc j) t'"
      by (simp add: monad t e(1))
  qed (simp_all add: e(2))
  moreover have "e 3 = KERNEL_BASE + of_nat (h + 0x4000)" by (simp add: e_def)
  ultimately have "for_up 0 3 (\<lambda>_. bind alloc_page (\<lambda>q. modify (\<lambda>s. s\<lparr>heap_end := q + PAGE_SIZE\<rparr>))) ?s
      = (Inr (), s\<lparr>next_free := KERNEL_BASE + of_nat (h + 0x4000), heap_start := KERNEL_BASE + of_nat h, heap_end := KERNEL_BASE + of_nat (h + 0x4000)\<rparr>)"
    by simp
  moreover have "alloc_page s = (Inr (KERNEL_BASE + of_nat h), s\<lparr>next_free := KERNEL_BASE + of_nat (h + 0x1000)\<rparr>)"
    using al [OF assms(1)] assms(2) by simp
  ultimately show ?thesis by (simp add: heap_pages_def monad)
qed

lemma heap_pages_run:
  assumes r: "kernel_ready (pool_frames P) s" and b: "behind P s h" and nf: "next_free s = KERNEL_BASE + of_nat h"
    and h: "h + 0x4000 < 0x1FF000" "4096 dvd h"
  shows "\<exists>t. heap_pages s = (Inr (), t) \<and> range_step (pool_frames P) (of_nat h) 0x4000 s t
     \<and> heap_ok (pool_frames P) t [\<lparr>cpos = h, csize = 0x3FE0, cused = False\<rparr>] \<and> heap_lo t = h \<and> heap_hi t = h + 0x4000
     \<and> t = s\<lparr>mem := mem t, next_free := next_free t, heap_start := heap_start t, heap_end := heap_end t, heap := heap t\<rparr>"
proof -
  let ?F = "pool_frames P"
  let ?u = "s\<lparr>next_free := KERNEL_BASE + of_nat (h + 0x4000), heap_start := KERNEL_BASE + of_nat h,
     heap_end := KERNEL_BASE + of_nat (h + 0x4000)\<rparr>"
  have "unat (of_nat h :: u64) = h" "unat (of_nat (h + 0x4000) :: u64) = h + 0x4000" by (rule unat_of_nat64; use h in simp)+
  then have lo: "heap_lo ?u = h" "heap_hi ?u = h + 0x4000" by (simp_all add: heap_lo_def heap_hi_def del: of_nat_add)
  have off: "off_tables ?F (of_nat h) 0x4000"
    by (rule behind_range(2) [OF b, of "0x4000" s]) (use h in \<open>simp_all add: same_vm_def\<close>)
  have rg: "region ?F (heap_lo ?u) (heap_hi ?u)" unfolding lo using off h by (simp add: region_def)
  have k: "kwin ?F ?u" using r vm_invD(3) [of ?F s] by (simp add: kernel_ready_def)
  have al: "16 dvd heap_lo ?u" "16 dvd heap_hi ?u" unfolding lo using dvd_trans [of 16 4096 h] h(2) by simp_all
  obtain t where t: "heap_init ?u = (Inr (), t)" "heap_ok ?F t [\<lparr>cpos = h, csize = h + 0x4000 - h - 32, cused = False\<rparr>]"
      "t = ?u\<lparr>mem := mem t, heap := heap t\<rparr>" "\<And>x. unat x < h \<or> h + 0x4000 \<le> unat x \<Longrightarrow> mem t x = mem ?u x"
    using heap_init_run [OF k rg _ al] unfolding lo by auto
  have sv: "same_vm s t" unfolding same_vm_def by (intro conjI; subst t(3), simp)
  have rs: "range_step ?F (of_nat h) 0x4000 s t"
    by (rule behind_range(1) [OF b _ _ sv]) (use h t(4) in simp_all)
  have "t = s\<lparr>mem := mem t, next_free := next_free t, heap_start := heap_start t, heap_end := heap_end t, heap := heap t\<rparr>"
    by (subst (1 3 4 5) t(3)) simp
  moreover have "heap_pages s = (Inr (), t)" using heap_pages_alloc [OF nf h(1)] t(1) by simp
  moreover have "heap_lo t = heap_lo ?u" "heap_hi t = heap_hi ?u" unfolding heap_lo_def heap_hi_def by (subst t(3), simp)+
  ultimately show ?thesis using rs t(2) unfolding lo by (intro exI [of _ t]) simp
qed

text \<open>The heap does not depend on the top table in use.\<close>

lemma chain_cong:
  assumes "\<And>i. lo \<le> i \<Longrightarrow> i < hi \<Longrightarrow> m' (of_nat i) = m (of_nat i)"
  shows "laid lo cs hi \<Longrightarrow> chain m cs e \<Longrightarrow> chain m' cs e"
  using assms
proof (induction cs arbitrary: lo)
  case (Cons c cs)
  have le: "lo \<le> cpos c" "cpos c + 32 + csize c \<le> hi" using Cons(2) laid_le by auto
  have eq: "m' (of_nat i + of_nat k) = m (of_nat i + of_nat k)" if "cpos c \<le> i" "i + k < cpos c + 32" for i k
    using Cons(4) [of "i + k"] that le by simp
  have "pread64 m' (of_nat (cpos c)) = pread64 m (of_nat (cpos c))" "pread64 m' (of_nat (cpos c + 16)) = pread64 m (of_nat (cpos c + 16))"
    by (rule pread64_agree, rule eq; simp)+
  moreover have "m' (of_nat (cpos c + 8)) = m (of_nat (cpos c + 8))" by (rule Cons(4)) (use le in simp_all)
  ultimately have "header m' c (first_addr cs e)" using Cons(3) by (simp add: header_def)
  moreover have "chain m' cs e" by (rule Cons(1) [of "cpos c + 32 + csize c"]) (use Cons(2-4) le in auto)
  ultimately show ?case by simp
qed simp

lemma heap_ok_cong:
  assumes h: "heap_ok F s cs" and k: "kwin F' t" and r: "region F' (heap_lo s) (heap_hi s)"
    and st: "heap t = heap s" "heap_start t = heap_start s" "heap_end t = heap_end s"
    and same: "\<And>i. heap_lo s \<le> i \<Longrightarrow> i < heap_hi s \<Longrightarrow> mem t (of_nat i) = mem s (of_nat i)"
  shows "heap_ok F' t cs"
proof -
  note d = heap_okD [OF h]
  have lo: "heap_lo t = heap_lo s" "heap_hi t = heap_hi s" using st by (simp_all add: heap_lo_def heap_hi_def)
  have "chain (mem t) cs 0" by (rule chain_cong [OF same d(5,4)])
  then show ?thesis using d st k r unfolding heap_ok_def lo by auto
qed

lemma region_root:
  assumes r: "region F lo hi" and C: "0x200000 \<le> unat C" "page_aligned C"
  shows "region (F\<lparr>kf_root := C\<rparr>) lo hi"
proof -
  have d: "lo < hi" "hi \<le> 0x1FF000" using r by (simp_all add: region_def)
  have "unat (C + of_nat 0xFF8) = unat C + 0xFF8" "unat C + 4096 \<le> 2 ^ 64"
    using page_offset(1) [OF C(2), of "0xFF8"] aligned_less_add [of "unat C" "2 ^ 64 - 4096"] C(2) u64_bound [of C]
    by (auto simp: page_aligned_iff)
  moreover have "unat (of_nat lo :: u64) = lo" by (rule unat_of_nat64) (use d in simp)
  ultimately have "apart (of_nat lo) (hi - lo) (C + 0xFF8) 8"
    by (intro apart_le) (use d C(1) in simp_all)
  then show ?thesis using r by (simp add: region_def off_tables_def)
qed

section \<open>The boot\<close>

lemma enable_syscall_run:
  "\<exists>t. enable_syscall k s = (Inr (), t) \<and> t = s\<lparr>msr := msr t\<rparr> \<and> bit (msr t IA32_EFER) 0 \<and> msr t LSTAR_MSR = syscall_stub k"
  by (simp add: enable_syscall_def monad read_msr_run write_msr_run) (auto simp: kconst bit_simps)

lemma boot_map_cong: "mem t = mem s \<Longrightarrow> cr3 t = cr3 s \<Longrightarrow> boot_map s P n \<Longrightarrow> boot_map t P n"
proof -
  assume "mem t = mem s" "cr3 t = cr3 s"
  then have "mapped (t\<lparr>mem := m\<rparr>) a j q = mapped (s\<lparr>mem := m\<rparr>) a j q" for m a j q by (intro mapped_cong) simp_all
  then show "boot_map s P n \<Longrightarrow> boot_map t P n" using \<open>mem t = mem s\<close> by (simp add: boot_map_def)
qed

text \<open>What the boot loader leaves and the processor offers: SSE, an untouched pool, a mapping of the
  window that does not rest on the pages of the new tables, a memory map that is in order, with ten
  usable frames above the kernel, one of them in the first gibibyte, and the kernel's data, the
  built-in program among them, below the pool.\<close>

definition boot_ok :: "kernel_image \<Rightarrow> u64 \<Rightarrow> u64 \<Rightarrow> machine \<Rightarrow> bool" where
  "boot_ok k mmap n s \<longleftrightarrow>
     bit (cpuid_edx k) 25 \<and> next_free s = POOL_START \<and> unat n \<le> 0x1000 \<and>
     boot_map s (of_nat (table_base (unat n))) 0x4000 \<and> map_ok (mem s) mmap (unat n) \<and>
     10 \<le> card (usable (mem s) (mmap - KERNEL_BASE) (unat n)) \<and> (\<exists>i\<in>usable (mem s) (mmap - KERNEL_BASE) (unat n). i < 0x40000) \<and>
     unat (user_program_addr k - KERNEL_BASE) + 928 \<le> 0x20000 \<and>
     pread (mem s) (user_program_addr k - KERNEL_BASE) 928 = user_program_elf"

text \<open>Up to the bitmap.\<close>

lemma low_bytes_kept:
  assumes "unat a + n \<le> unat P" "unat P + 0x4000 < 0x1FF000" "agree_out P 0x4000 m m'"
  shows "i < n \<Longrightarrow> m' (a + of_nat i) = m (a + of_nat i)" "pread m' a n = pread m a n"
proof -
  have e: "m' (a + of_nat i) = m (a + of_nat i)" if "i < n" for i
  proof -
    have "unat (a + of_nat i) = unat a + i" by (rule unat_add_of_nat) (use assms that in simp)
    then have "0x4000 \<le> unat (a + of_nat i - P)"
      using assms(1,2) that by (simp add: unat_sub_if_size word_size word_le_nat_alt)
    then show ?thesis using assms(3) by (simp add: agree_out_def)
  qed
  then show "i < n \<Longrightarrow> m' (a + of_nat i) = m (a + of_nat i)" "pread m' a n = pread m a n" by (auto intro: pread_cong)
qed

lemma boot_pmm_run:
  assumes ok: "boot_ok k mmap n s" and same: "mem s' = mem s" "cr3 s' = cr3 s" "next_free s' = next_free s"
  defines "P \<equiv> of_nat (table_base (unat n))" and "p \<equiv> mmap - KERNEL_BASE"
  defines "h \<equiv> heap_base (mem s) p (unat n)"
  shows "\<exists>t. andthen (reserve_pages n) (andthen paging_init (pmm_init mmap n)) s' = (Inr (), t) \<and> kernel_ready (pool_frames P) t
     \<and> next_free t = KERNEL_BASE + of_nat h \<and> behind P t h
     \<and> image_bytes (pool_frames P) t (user_program_addr k) user_program_elf
     \<and> 10 \<le> card (free_frames t) \<and> (\<exists>f\<in>free_frames t. unat f < 0x40000000)
     \<and> t = s'\<lparr>mem := mem t, cr3 := cr3 t, pml4t := pml4t t, mem_bitmap_size := mem_bitmap_size t, mem_bitmap_bit_size := mem_bitmap_bit_size t,
          mem_bitmap := mem_bitmap t, next_free := next_free t\<rparr>"
proof -
  note o = ok [unfolded boot_ok_def]
  have mo: "map_ok (mem s) mmap (unat n)" using o by blast
  have T: "table_base (unat n) + 0x4000 \<le> 0xB8000" "0x21000 \<le> table_base (unat n)" using mo by (simp_all add: map_ok_def heap_base_def table_base_def)
  then have u: "unat P = table_base (unat n)" unfolding P_def by (intro unat_of_nat64) simp
  have al: "page_aligned P" by (simp add: page_aligned_iff u table_base_def mod_eq_0_iff_dvd)
  let ?s2 = "s'\<lparr>next_free := KERNEL_BASE + P\<rparr>"
  have r1: "reserve_pages n s' = (Inr (), ?s2)" unfolding P_def by (rule reserve_pages_run) (use o same in simp_all)
  have bm: "boot_map ?s2 P 0x4000" by (rule boot_map_cong [of _ s]) (use same o in \<open>simp_all add: P_def\<close>)
  obtain v where v: "paging_init ?s2 = (Inr (), v)" "agree_out P 0x4000 (mem ?s2) (mem v)" "words_are P (mem v) (kernel_tables P)"
      "v = ?s2\<lparr>mem := mem v, cr3 := P, pml4t := KERNEL_BASE + P, next_free := KERNEL_BASE + P + 0x4000\<rparr>"
    using paging_init_run [OF bm] u T by auto
  have Pb: "unat P + 0x4000 < 0x1FF000" using u T by simp
  have ag: "agree_out P 0x4000 (mem s) (mem v)" using v(2) same by simp
  have pm: "unat p + 24 * unat n \<le> unat P" using mo u by (simp add: map_ok_def p_def)
  have "\<forall>i < 24 * unat n. mem v (p + of_nat i) = mem s (p + of_nat i)" using low_bytes_kept(1) [OF pm Pb ag] by blast
  note rd = map_reads_cong [OF this]
  have mv: "map_ok (mem v) mmap (unat n)" using mo rd unfolding map_ok_def heap_base_def p_def [symmetric] by simp
  have fv: "cr3 v = P" "pml4t v = KERNEL_BASE + P" "next_free v = KERNEL_BASE + P + 0x4000" by (subst v(4), simp)+
  obtain t where t: "pmm_init mmap n v = (Inr (), t)" "kernel_ready (pool_frames P) t" "next_free t = KERNEL_BASE + of_nat h"
     "bm_base t = P + 0x4000" "unat (mem_bitmap_size t) = map_bytes (mem s) p (unat n)"
     "\<And>x. map_bytes (mem s) p (unat n) \<le> unat (x - (P + 0x4000)) \<Longrightarrow> mem t x = mem v x"
     "\<And>i. i \<in> usable (mem s) p (unat n) \<Longrightarrow> of_nat i * PAGE_SIZE \<in> free_frames t \<and> unat (of_nat i * PAGE_SIZE) = i * 4096"
     "card (usable (mem s) p (unat n)) \<le> card (free_frames t)"
     and form: "t = v\<lparr>mem := mem t, mem_bitmap_size := mem_bitmap_size t, mem_bitmap_bit_size := mem_bitmap_bit_size t,
          mem_bitmap := mem_bitmap t, next_free := next_free t\<rparr>"
    using pmm_ready [OF mv v(3) P_def [THEN meta_eq_to_obj_eq] fv, folded p_def] unfolding h_def heap_base_def rd by blast
  have kv: "kwin (pool_frames P) v" using tables_kmap [OF v(3) al] Pb fv by simp
  note io = map_ok_init [OF mv kv P_def [THEN meta_eq_to_obj_eq] fv(3), folded p_def, unfolded heap_base_def rd, folded h_def [unfolded heap_base_def]]
  have be: "behind P t h" using io(3,5) u t(4,5) by (simp add: behind_def)
  let ?a = "user_program_addr k - KERNEL_BASE"
  have a: "unat ?a + 928 \<le> 0x20000" "pread (mem s) ?a 928 = user_program_elf" using o by blast+
  have ap: "apart (P + 0x4000) (map_bytes (mem s) p (unat n)) ?a 928"
    by (rule apart_sym, rule apart_le) (use a(1) io(4,5) T h_def mo in \<open>simp_all add: map_ok_def p_def\<close>)
  have at: "apart q 4096 ?a 928" if "q \<in> pool_tables P" for q
    by (rule apart_sym) (use pool_table_apart(2) [OF _ that, of 0 4096 928 ?a] a(1) u T in simp)
  have "pread (mem t) ?a 928 = pread (mem v) ?a 928" by (rule pread_cong) (rule t(6) [OF apart_outside [OF ap]])
  also have "\<dots> = user_program_elf" using low_bytes_kept(2) [OF _ Pb ag, of ?a 928] a u T by simp
  finally have img: "image_bytes (pool_frames P) t (user_program_addr k) user_program_elf"
    unfolding image_bytes_def user_program_header(1) t(4,5) using a(1) ap at by (simp add: in_win_def pool_frames_def)
  obtain i where i: "i \<in> usable (mem s) p (unat n)" "i < 0x40000" using o unfolding p_def [symmetric] by blast
  have free: "10 \<le> card (free_frames t)" "\<exists>f\<in>free_frames t. unat f < 0x40000000"
  proof -
    show "10 \<le> card (free_frames t)" using o t(8) unfolding p_def [symmetric] by linarith
    have "unat (of_nat i * PAGE_SIZE) < 0x40000000" using t(7) [OF i(1)] i(2) by linarith
    then show "\<exists>f\<in>free_frames t. unat f < 0x40000000" using t(7) [OF i(1)] by blast
  qed
  have fm: "t = s'\<lparr>mem := mem t, cr3 := cr3 t, pml4t := pml4t t, mem_bitmap_size := mem_bitmap_size t,
      mem_bitmap_bit_size := mem_bitmap_bit_size t, mem_bitmap := mem_bitmap t, next_free := next_free t\<rparr>"
  proof -
    have "cr3 t = P" "pml4t t = KERNEL_BASE + P" using fv by (subst form, simp)+
    then show ?thesis by (subst form, subst v(4)) simp
  qed
  have "andthen (reserve_pages n) (andthen paging_init (pmm_init mmap n)) s' = (Inr (), t)"
    using r1 v(1) t(1) by (simp add: monad)
  then show ?thesis using t(2,3) be img free fm by (intro exI [of _ t]) simp
qed

text \<open>The heap and the screen.\<close>

lemma behind_step: "behind P s h \<Longrightarrow> range_step F p n s t \<Longrightarrow> h \<le> h' \<Longrightarrow> behind P t h'"
  by (auto simp: behind_def range_step_def same_vm_def bm_base_def)

lemma screen_clear_run:
  assumes r: "kernel_ready (pool_frames P) s" and b: "behind P s 0xB8000"
  shows "\<exists>t. memset VGA_MEMORY 0 (80 * 25 * 2) s = (Inr VGA_MEMORY, t) \<and> range_step (pool_frames P) 0xB8000 4000 s t
     \<and> t = s\<lparr>mem := mem t\<rparr> \<and> (\<forall>i<4000. mem t (0xB8000 + of_nat i) = 0)"
proof -
  let ?t = "s\<lparr>mem := pwrite (mem s) 0xB8000 (replicate 4000 0)\<rparr>"
  have a: "VGA_MEMORY - KERNEL_BASE = 0xB8000" by (simp add: kconst)
  have out: "mem ?t x = mem s x" if "unat x < 0xB8000 \<or> 0xB8000 + 4000 \<le> unat x" for x
    using that by (auto simp: pwrite_def unat_sub_if_size word_size word_le_nat_alt)
  have "same_vm s ?t" by (simp add: same_vm_def)
  from behind_range [OF b _ _ this out, of 4000]
  have st: "range_step (pool_frames P) 0xB8000 4000 s ?t" "off_tables (pool_frames P) 0xB8000 4000" by simp_all
  have k: "kwin (pool_frames P) s" using r vm_invD(3) by (auto simp: kernel_ready_def)
  have u: "unat (80 * 25 * 2 :: u64) = 4000" by simp
  have "memset VGA_MEMORY 0 (80 * 25 * 2) s = (Inr VGA_MEMORY, ?t)"
    using kwin_memset [OF k, of VGA_MEMORY "80 * 25 * 2" 0] st(2) unfolding u a by (simp add: in_win_def a)
  moreover have "mem ?t (0xB8000 + of_nat i) = 0" if "i < 4000" for i
    using that by (simp add: pwrite_def unat_of_nat64)
  ultimately show ?thesis using st(1) by (intro exI [of _ ?t]) simp
qed

lemma boot_devices_run:
  assumes r: "kernel_ready (pool_frames P) s" and b: "behind P s h" and nf: "next_free s = KERNEL_BASE + of_nat h"
    and h: "h + 0x4000 \<le> 0xB8000" "4096 dvd h"
    and img: "image_bytes (pool_frames P) s a bs" "unat (a - KERNEL_BASE) + length bs \<le> 0x20000" "0 < length bs" and P: "0x20000 \<le> unat P"
  shows "\<exists>t. andthen heap_pages (andthen (memset VGA_MEMORY 0 (80 * 25 * 2)) (enable_syscall k)) s = (Inr (), t)
     \<and> kernel_ready (pool_frames P) t \<and> free_frames t = free_frames s \<and> image_bytes (pool_frames P) t a bs \<and> behind P t h
     \<and> heap_ok (pool_frames P) t [\<lparr>cpos = h, csize = 0x3FE0, cused = False\<rparr>] \<and> heap_lo t = h \<and> heap_hi t = h + 0x4000
     \<and> (\<forall>i<4000. mem t (0xB8000 + of_nat i) = 0) \<and> bit (msr t IA32_EFER) 0 \<and> msr t LSTAR_MSR = syscall_stub k
     \<and> t = s\<lparr>mem := mem t, next_free := next_free t, heap_start := heap_start t, heap_end := heap_end t, heap := heap t, msr := msr t\<rparr>"
proof -
  let ?F = "pool_frames P"
  have hh: "h + 0x4000 < 0x1FF000" "unat P + 0x4000 \<le> h" using h b by (simp_all add: behind_def)
  obtain t where t: "heap_pages s = (Inr (), t)" "range_step ?F (of_nat h) 0x4000 s t"
     "heap_ok ?F t [\<lparr>cpos = h, csize = 0x3FE0, cused = False\<rparr>]" "heap_lo t = h" "heap_hi t = h + 0x4000"
     "t = s\<lparr>mem := mem t, next_free := next_free t, heap_start := heap_start t, heap_end := heap_end t, heap := heap t\<rparr>"
    using heap_pages_run [OF r b nf hh(1) h(2)] by blast
  note rt = range_step_ready [OF r t(2)]
  have bt: "behind P t 0xB8000" "behind P t h" using behind_step [OF b t(2)] h(1) by simp_all
  obtain u where u: "memset VGA_MEMORY 0 (80 * 25 * 2) t = (Inr VGA_MEMORY, u)" "range_step ?F 0xB8000 4000 t u" "u = t\<lparr>mem := mem u\<rparr>"
      "\<forall>i<4000. mem u (0xB8000 + of_nat i) = 0" using screen_clear_run [OF rt(1) bt(1)] by blast
  note ru = range_step_ready [OF rt(1) u(2)]
  obtain v where v: "enable_syscall k u = (Inr (), v)" "v = u\<lparr>msr := msr v\<rparr>" "bit (msr v IA32_EFER) 0" "msr v LSTAR_MSR = syscall_stub k"
    using enable_syscall_run [of k u] by blast
  have sv1: "same_vm u v" unfolding same_vm_def by (intro conjI; subst v(2), simp)
  have sv2: "mem v = mem u" by (subst v(2)) simp
  note sv = sv1 sv2
  have rv: "kernel_ready ?F v" "free_frames v = free_frames s"
    using ru rt(2) sv vm_inv_cong(1,2) [OF sv] by (simp_all add: kernel_ready_def kernel_space_def)
  have uh: "unat (of_nat h :: u64) = h" by (rule unat_of_nat64) (use hh in simp)
  have im: "image_bytes ?F u a bs"
    by (rule range_step_image [OF range_step_image [OF img(1) t(2)] u(2)])
      (rule apart_sym, rule apart_le, use img(2,3) hh P uh in simp_all)+
  have fu: "heap u = heap t" "heap_start u = heap_start t" "heap_end u = heap_end t" by (subst u(3), simp)+
  have fv: "heap v = heap u" "heap_start v = heap_start u" "heap_end v = heap_end u" "bm_base v = bm_base u" "mem_bitmap_size v = mem_bitmap_size u"
    by (subst v(2), simp add: bm_base_def)+
  have lo: "heap_lo v = h" "heap_hi v = h + 0x4000" using t(4,5) fu fv by (simp_all add: heap_lo_def heap_hi_def)
  have "kwin ?F v" using rv(1) vm_invD(3) by (auto simp: kernel_ready_def)
  moreover have "mem v (of_nat i) = mem t (of_nat i)" if i: "heap_lo t \<le> i" "i < heap_hi t" for i
  proof -
    have "unat (of_nat i :: u64) = i" by (rule unat_of_nat64) (use i t(5) hh in simp)
    then have "4000 \<le> unat (of_nat i - 0xB8000 :: u64)" using i t(4,5) h(1) by (simp add: unat_sub_if_size word_size word_le_nat_alt)
    then show ?thesis using u(2) sv(2) by (simp add: range_step_def)
  qed
  ultimately have hv: "heap_ok ?F v [\<lparr>cpos = h, csize = 0x3FE0, cused = False\<rparr>]"
    using heap_ok_cong [OF t(3) _ heap_okD(2) [OF t(3)]] fu fv by simp
  have "image_bytes ?F v a bs" "behind P v h" using im behind_step [OF bt(2) u(2) order_refl] sv(2) fv by (simp_all add: image_bytes_def behind_def)
  moreover have "v = s\<lparr>mem := mem v, next_free := next_free v, heap_start := heap_start v, heap_end := heap_end v, heap := heap v, msr := msr v\<rparr>"
  proof -
    have nf: "next_free v = next_free t" by (subst v(2), subst u(3)) simp
    show ?thesis unfolding nf fu fv by (subst v(2), subst u(3), subst t(6)) (simp add: sv(2))
  qed
  moreover have "andthen heap_pages (andthen (memset VGA_MEMORY 0 (80 * 25 * 2)) (enable_syscall k)) s = (Inr (), v)"
    using t(1) u(1) v(1) by (simp add: monad)
  ultimately show ?thesis using rv hv lo u(4) sv(2) v(3,4) by (intro exI [of _ v]) simp
qed

section \<open>The whole of kernel main\<close>

lemma kernel_main_split:
  assumes i: "idt_init (symbols k) (idt_addr k) s = (Inr (), s1)" "sse_init (cpuid_edx k) s1 = (Inr (), s2)"
    and p: "andthen (reserve_pages n) (andthen paging_init (pmm_init mmap n)) s2 = (Inr (), t)"
    and d: "andthen heap_pages (andthen (memset VGA_MEMORY 0 (80 * 25 * 2)) (enable_syscall k)) t = (Inr (), u)"
  shows "kernel_main k mmap n s = bind user_space_init (\<lambda>user_program. andthen (load_elf (entry_place k) user_program (user_program_addr k)) (raise Halt)) u"
proof -
  obtain x where x: "reserve_pages n s2 = (Inr (), x)" using p by (auto simp: andthen_def bind_def split: prod.splits sum.splits)
  obtain y where y: "paging_init x = (Inr (), y)" "pmm_init mmap n y = (Inr (), t)"
    using p x by (auto simp: andthen_def bind_def split: prod.splits sum.splits)
  obtain z where z: "heap_pages t = (Inr (), z)" using d by (auto simp: andthen_def bind_def split: prod.splits sum.splits)
  obtain v w where v: "memset VGA_MEMORY 0 (80 * 25 * 2) z = (Inr v, w)" "enable_syscall k w = (Inr (), u)"
    using d z by (auto simp: andthen_def bind_def split: prod.splits sum.splits)
  show ?thesis unfolding kernel_main_def by (simp add: andthen_def bind_def i x y z v [simplified])
qed

lemma plain_behind:
  assumes b: "behind P s h" and x: "h \<le> unat x" "unat x < 0x1FF000"
  shows "plain_byte (pool_frames P) s x"
proof -
  have P: "unat P + 0x4000 \<le> 0x1FF000" "unat P + 0x4000 \<le> unat x" "0 < unat (mem_bitmap_size s)"
    "unat P + 0x4000 + unat (mem_bitmap_size s) \<le> unat x" "bm_base s = P + 0x4000" using b x by (simp_all add: behind_def)
  have "unat (P + of_nat 0x4000) = unat P + 0x4000" by (rule unat_add_of_nat) (use P in simp)
  then have u: "unat (P + 0x4000) = unat P + 0x4000" by simp
  have "unat (mem_bitmap_size s) \<le> unat (x - bm_base s)"
    using P u by (simp add: unat_sub_if_size word_size word_le_nat_alt)
  moreover have "4096 \<le> unat (x - q)" if "q \<in> pool_tables P" for q
    using pool_table_apart(1) [OF P(1) that, of 0 4096 1 x] P(2) x(2) by (simp add: apart_def)
  ultimately show ?thesis using x(2) by (auto simp: plain_byte_def pool_frames_def)
qed

lemma kernel_main_run:
  assumes ok: "boot_ok k mmap n s"
  shows "\<exists>F C t c. kernel_main k mmap n s = (Inl (after_switch (entry_place k) t), t)
     \<and> vm_inv F t \<and> cr3 t = C \<and> kf_root F = C \<and> program_shown user_program_elf (\<lambda>_. None) (umem (mem t) C)
     \<and> heap_ok F t [c] \<and> csize c = 0x3FE0 \<and> \<not> cused c
     \<and> (\<forall>i<4000. mem t (0xB8000 + of_nat i) = 0) \<and> bit (msr t IA32_EFER) 0 \<and> msr t LSTAR_MSR = syscall_stub k
     \<and> idt t = put_gates (idt s) (all_gates (symbols k)) \<and> idtr t = \<lparr>limit = 4095, base = idt_addr k\<rparr> \<and> if_flag t
     \<and> cr0 t = (cr0 s AND NOT 4) OR 2 \<and> cr4 t = cr4 s OR 0x600"
proof -
  note o = ok [unfolded boot_ok_def]
  let ?P = "of_nat (table_base (unat n)) :: u64" and ?h = "heap_base (mem s) (mmap - KERNEL_BASE) (unat n)"
  define s1 where "s1 = snd (idt_init (symbols k) (idt_addr k) s)"
  define s2 where "s2 = s1\<lparr>cr0 := (cr0 s1 AND NOT 4) OR 2, cr4 := cr4 s1 OR 0x600\<rparr>"
  have i1: "idt_init (symbols k) (idt_addr k) s = (Inr (), s1)" by (simp add: s1_def idt_init_run)
  have i2: "sse_init (cpuid_edx k) s1 = (Inr (), s2)" unfolding s2_def by (rule sse_init_run) (use o in blast)
  have f2: "mem s2 = mem s" "cr3 s2 = cr3 s" "next_free s2 = next_free s" "idt s2 = put_gates (idt s) (all_gates (symbols k))"
    "idtr s2 = \<lparr>limit = 4095, base = idt_addr k\<rparr>" "if_flag s2" "cr0 s2 = (cr0 s AND NOT 4) OR 2" "cr4 s2 = cr4 s OR 0x600"
    by (simp_all add: s2_def s1_def idt_init_run)
  obtain t where t: "andthen (reserve_pages n) (andthen paging_init (pmm_init mmap n)) s2 = (Inr (), t)" "kernel_ready (pool_frames ?P) t"
      "next_free t = KERNEL_BASE + of_nat ?h" "behind ?P t ?h" "image_bytes (pool_frames ?P) t (user_program_addr k) user_program_elf"
      "10 \<le> card (free_frames t)" "\<exists>f\<in>free_frames t. unat f < 0x40000000"
      "t = s2\<lparr>mem := mem t, cr3 := cr3 t, pml4t := pml4t t, mem_bitmap_size := mem_bitmap_size t, mem_bitmap_bit_size := mem_bitmap_bit_size t,
          mem_bitmap := mem_bitmap t, next_free := next_free t\<rparr>"
    using boot_pmm_run [OF ok f2(1-3)] by blast
  have h: "?h + 0x4000 \<le> 0xB8000" "4096 dvd ?h" "0x20000 \<le> unat ?P"
  proof -
    show b: "?h + 0x4000 \<le> 0xB8000" using o by (simp add: map_ok_def)
    show "4096 dvd ?h" by (simp add: heap_base_def table_base_def)
    show "0x20000 \<le> unat ?P" using b by (subst unat_of_nat64) (simp_all add: heap_base_def, simp_all add: table_base_def)
  qed
  have ia: "unat (user_program_addr k - KERNEL_BASE) + length user_program_elf \<le> 0x20000" "0 < length user_program_elf"
    using o by (simp_all add: user_program_header)
  obtain u where u: "andthen heap_pages (andthen (memset VGA_MEMORY 0 (80 * 25 * 2)) (enable_syscall k)) t = (Inr (), u)"
     "kernel_ready (pool_frames ?P) u" "free_frames u = free_frames t" "image_bytes (pool_frames ?P) u (user_program_addr k) user_program_elf" "behind ?P u ?h"
     "heap_ok (pool_frames ?P) u [\<lparr>cpos = ?h, csize = 0x3FE0, cused = False\<rparr>]" "heap_lo u = ?h" "heap_hi u = ?h + 0x4000"
     "\<And>i. i < 4000 \<Longrightarrow> mem u (0xB8000 + of_nat i) = 0" "bit (msr u IA32_EFER) 0" "msr u LSTAR_MSR = syscall_stub k"
     "u = t\<lparr>mem := mem u, next_free := next_free u, heap_start := heap_start u, heap_end := heap_end u, heap := heap u, msr := msr u\<rparr>"
    using boot_devices_run [OF t(2,4,3) h(1,2) t(5) ia h(3), of k] by blast
  obtain f where f: "f \<in> free_frames u" "unat f < 0x40000000" using t(7) u(3) by blast
  have free: "4 * (page_total (segments user_program_elf) + 1) + 2 \<le> card (free_frames u)" using t(6) u(3) unfolding user_program_pages by simp
  have vu: "vm_inv (pool_frames ?P) u" "kernel_space (pool_frames ?P) u" using u(2) by (simp_all add: kernel_ready_def)
  obtain C w L where w: "bind user_space_init (\<lambda>task. andthen (load_elf (entry_place k) task (user_program_addr k)) (raise Halt)) u = (Inl (after_switch (entry_place k) w) :: fault + unit, w)"
     "uctx ((pool_frames ?P)\<lparr>kf_root := C\<rparr>) w C L" "w = u\<lparr>mem := mem w, invlpg_log := invlpg_log w, cr3 := C\<rparr>"
     "program_shown user_program_elf (\<lambda>_. None) (umem (mem w) C)" "\<And>x. plain_byte (pool_frames ?P) u x \<Longrightarrow> mem w x = mem u x"
    using start_program_run [OF vu f u(4) user_program_ok free] unfolding user_program_header by blast
  let ?F = "(pool_frames ?P)\<lparr>kf_root := C\<rparr>"
  note wd = uctxD [OF w(2)]
  have fw: "heap w = heap u" "heap_start w = heap_start u" "heap_end w = heap_end u" "cr3 w = C" "msr w = msr u" "idt w = idt u"
    "idtr w = idtr u" "if_flag w = if_flag u" "cr0 w = cr0 u" "cr4 w = cr4 u" by (subst w(3), simp)+
  have fu: "idt u = idt s2" "idtr u = idtr s2" "if_flag u = if_flag s2" "cr0 u = cr0 s2" "cr4 u = cr4 s2"
    by (subst u(12), subst t(8), simp)+
  have C: "0x200000 \<le> unat C" "page_aligned C" using uspaceD(3) [OF wd(2) uspaceD(2) [OF wd(2)]] by (simp_all add: user_frame_def)
  have plain: "mem w (of_nat i) = mem u (of_nat i)" if "?h \<le> i" "i < 0x1FF000" for i
    using w(5) [OF plain_behind [OF u(5), of "of_nat i"]] that by (simp add: unat_of_nat64)
  have "heap_ok ?F w [\<lparr>cpos = ?h, csize = 0x3FE0, cused = False\<rparr>]"
    by (rule heap_ok_cong [OF u(6) vm_invD(3) [OF wd(1)] region_root [OF heap_okD(2) [OF u(6)] C] fw(1-3)])
      (use plain u(7,8) h(1) in simp)
  moreover have "mem w (0xB8000 + of_nat i) = 0" if "i < 4000" for i
    using plain [of "0xB8000 + i"] u(9) [OF that] that h(1) by simp
  moreover have "kernel_main k mmap n s = (Inl (after_switch (entry_place k) w), w)"
    unfolding kernel_main_split [OF i1 i2 t(1) u(1)] using w(1) by simp
  ultimately show ?thesis using wd(1) w(4) u(10,11) f2(4-8)
    by (intro exI [of _ ?F] exI [of _ C] exI [of _ w] exI [of _ "\<lparr>cpos = ?h, csize = 0x3FE0, cused = False\<rparr>"]) (simp add: fw fu)
qed

section \<open>A state of the boot loader\<close>

text \<open>Page tables at physical 0x1000 to 0x4000, the built-in program at 0xD000, and behind the stack page
  a memory map with one usable range from one to eight mebibytes.\<close>

definition loader_words :: "u64 \<Rightarrow> u64" where
  "loader_words a = (if 0x1000 \<le> unat a \<and> unat a < 0x5000 then kernel_tables 0x1000 ((unat a - 0x1000) div 8) else 0)"

definition loader_mem :: pmem where
  "loader_mem = pwrite64 (pwrite64 (pwrite64 (pwrite (word_mem loader_words) 0xD000 user_program_elf)
     0x21000 0x100000) (0x21000 + 8) 0x700000) (0x21000 + 16) 1"

definition loader_machine :: machine where
  "loader_machine = boot_machine\<lparr>mem := loader_mem, cr3 := 0x1000, pml4t := 0, next_free := POOL_START,
     mem_bitmap := 0, mem_bitmap_size := 0, mem_bitmap_bit_size := 0\<rparr>"

lemma one_range_entry:
  fixes p :: u64
  shows "mmap_entry (pwrite64 (pwrite64 (pwrite64 m p b) (p + 8) l) (p + 16) 1) p 0 = \<lparr>base_addr = b, len = l, mtype = 1, acpi_ext = 0\<rparr>"
proof -
  let ?m = "pwrite64 (pwrite64 m p b) (p + 8) l"
  have ap: "apart (p + of_nat i) 8 (p + of_nat j) 8" if "i + 8 \<le> j \<or> j + 8 \<le> i" "i \<le> 16" "j \<le> 16" for i j
    using apart_offsets [of i 8 j 8 p] apart_sym [OF apart_offsets [of j 8 i 8 p]] that by auto
  have "apart (p + 16) 8 p 8" "apart (p + 8) 8 p 8" "apart (p + 16) 8 (p + 8) 8" using ap [of 16 0] ap [of 8 0] ap [of 16 8] by simp_all
  then have "pread64 (pwrite64 ?m (p + 16) 1) p = b" "pread64 (pwrite64 ?m (p + 16) 1) (p + 8) = l"
    by (simp_all add: pread64_pwrite64_apart)
  moreover have "pread (pwrite64 ?m (p + 16) 1) (p + 16 + of_nat 0) 4 = take 4 (le_bytes 8 (1 :: u64))"
    "pread (pwrite64 ?m (p + 16) 1) (p + 16 + of_nat 4) 4 = take 4 (drop 4 (le_bytes 8 (1 :: u64)))"
    unfolding pwrite64_def by (subst pread_pwrite_sub; simp)+
  then have "pread (pwrite64 ?m (p + 16) 1) (p + 16) 4 = [1, 0, 0, 0]" "pread (pwrite64 ?m (p + 16) 1) (p + 20) 4 = [0, 0, 0, 0]"
    by (simp_all add: le_bytes_def upt_rec add.assoc)
  ultimately show ?thesis by (simp add: mmap_entry_def le_word_def)
qed

lemma loader_range: "mmap_entry loader_mem 0x21000 0 = \<lparr>base_addr = 0x100000, len = 0x700000, mtype = 1, acpi_ext = 0\<rparr>"
  unfolding loader_mem_def by (rule one_range_entry)

text \<open>A map of one range of seven mebibytes.\<close>

lemma one_range_pages:
  assumes e: "mmap_entry m p 0 = \<lparr>base_addr = 0x100000, len = 0x700000, mtype = 1, acpi_ext = a\<rparr>"
  shows "map_pages m p 1 = 2048" "map_bytes m p 1 = 256" "usable m p 1 = {512..<2048}" "table_base 1 = 0x22000" "heap_base m p 1 = 0x27000"
proof -
  show N: "map_pages m p 1 = 2048" by (simp add: map_pages_def e)
  then show B: "map_bytes m p 1 = 256" by (simp add: map_bytes_def)
  have "covers (mmap_entry m p 0) i \<longleftrightarrow> 256 \<le> i \<and> i < 2048" for i by (simp add: e covers_def)
  then have "(\<exists>k<1. covers (mmap_entry m p k) i) \<longleftrightarrow> 256 \<le> i \<and> i < 2048" for i by (simp only: less_one ex_simps simp_thms)
  then show "usable m p 1 = {512..<2048}"
    unfolding usable_def N by (intro set_eqI) (simp only: mem_Collect_eq atLeastLessThan_iff, linarith)
  show T: "table_base 1 = 0x22000" by (simp add: table_base_def)
  show "heap_base m p 1 = 0x27000" unfolding heap_base_def B T by simp
qed

lemmas loader_pages = one_range_pages [OF loader_range]

lemma loader_tables: "words_are 0x1000 (word_mem loader_words) (kernel_tables 0x1000)"
  unfolding words_are_def
proof (intro allI impI)
  fix i :: nat assume i: "i < 2048"
  have u: "unat (0x1000 + of_nat (8 * i) :: u64) = 0x1000 + 8 * i" by (subst unat_add_of_nat) (use i in simp_all)
  have "unat (0x1000 + of_nat (8 * i) :: u64) mod 8 = 0" unfolding u by (simp add: mod_eq_0_iff_dvd)
  then have "pread64 (word_mem loader_words) (0x1000 + of_nat (8 * i)) = loader_words (0x1000 + of_nat (8 * i))" by (rule pread64_word_mem)
  then show "pread64 (word_mem loader_words) (0x1000 + of_nat (8 * i)) = kernel_tables 0x1000 i"
    unfolding loader_words_def u using i by simp
qed

lemma loader_boot_map: "boot_map loader_machine 0x22000 0x4000"
proof -
  let ?F = "pool_frames 0x1000" and ?s = "loader_machine\<lparr>pml4t := KERNEL_BASE + 0x1000\<rparr>"
  have off: "off_tables ?F q n" if "0x5000 \<le> unat q" "unat q + n \<le> 2 ^ 64" "0 < n" for q n
    by (rule pool_off_tables) (use that in simp_all)
  have "kmap ?F (word_mem loader_words) 0x1000 (KERNEL_BASE + 0x1000)"
    by (rule tables_kmap [OF loader_tables]) (simp_all add: page_aligned_def)
  then have "kmap ?F loader_mem 0x1000 (KERNEL_BASE + 0x1000)" unfolding loader_mem_def
    by (intro kmap_pwrite64 kmap_pwrite off) (simp_all add: user_program_header)
  then have "kwin ?F ?s" by (simp add: loader_machine_def)
  from boot_map_kwin [OF this off] have "boot_map ?s 0x22000 0x4000" by simp
  then show ?thesis by (rule boot_map_cong [rotated 2]) simp_all
qed

lemma loader_program: "pread loader_mem 0xD000 928 = user_program_elf"
proof -
  have "pread (pwrite (word_mem loader_words) 0xD000 user_program_elf) 0xD000 928 = user_program_elf"
    using pread_pwrite_sub [of 0 928 user_program_elf "word_mem loader_words" "0xD000"] user_program_header(1) by simp
  moreover have "pread (pwrite64 m q v) 0xD000 928 = pread m 0xD000 928" if "0x21000 \<le> unat q" "unat q < 0x22000" for m q v
    unfolding pwrite64_def
    by (rule pread_cong, rule pwrite_outside, rule apart_outside [of q 8 "0xD000" 928, THEN order_trans [rotated]])
      (use that in \<open>auto intro!: apart_sym [OF apart_le]\<close>)
  ultimately show ?thesis by (simp add: loader_mem_def)
qed

lemma loader_boot_ok: "boot_ok sample_image 0xFFFFFFFF80021000 1 loader_machine"
proof -
  have a: "0xFFFFFFFF80021000 - KERNEL_BASE = 0x21000" "user_program_addr sample_image - KERNEL_BASE = 0xD000" "cpuid_edx sample_image = 0x2000000"
    by (simp_all add: kconst sample_image_def)
  have m: "mem loader_machine = loader_mem" "next_free loader_machine = POOL_START" by (simp_all add: loader_machine_def)
  have n: "unat (1 :: u64) = 1" by simp
  have "map_ok loader_mem 0xFFFFFFFF80021000 1"
    unfolding map_ok_def a(1) loader_pages in_win_def using loader_range by simp
  moreover have "bit (0x2000000 :: u32) 25" by code_simp
  moreover have "\<exists>i\<in>{512..<2048 :: nat}. i < 0x40000" by (rule bexI [of _ 512]) simp_all
  ultimately show ?thesis
    unfolding boot_ok_def a m n loader_pages using loader_boot_map loader_program by simp
qed

section \<open>Properties\<close>

lemma user_program_seen:
  assumes "program_shown user_program_elf U U'"
  shows "\<forall>i<192. U' (0x400000 + of_nat i) = Some (user_program_elf ! i)" "\<forall>va. page_of va = 0x700000000 \<longrightarrow> U' va \<noteq> None"
    "\<forall>va. page_of va \<notin> {0x400, 0x700000000} \<longrightarrow> U' va = U va"
  using assms unfolding program_shown_def user_program_pages(1) user_stack_addr
  unfolding user_program_segment by (simp_all add: seg_shown_def)

text \<open>Reloading \<open>entry\<close> after the switch of the stack faults.\<close>

lemma kernel_main_reload:
  assumes "boot_ok k mmap n s" "frame_place (entry_place k)"
    and "kernel_main k mmap n s = (Inl (after_switch (entry_place k) t), t)" "program_shown user_program_elf (\<lambda>_. None) (umem (mem t) (cr3 t))"
  shows "kernel_main k mmap n s = (Inl (PageFault (0x700000000000 - entry_place k)), t)"
proof -
  have "umem (mem t) (cr3 t) (user_stack - entry_place k) = None"
    using user_program_seen(3) [OF assms(4)] frame_place_addr(2,3) [OF assms(2)] by fastforce
  then have "after_switch (entry_place k) t = PageFault (user_stack - entry_place k)"
    by (intro after_switch_unmapped [OF refl] frame_place_addr(1) [OF assms(2)])
  then show ?thesis using assms(3) by (simp add: user_stack_def)
qed

lemma sample_place: "frame_place (entry_place sample_image)" "entry_place sample_image = 0x38"
  by (simp_all add: sample_image_def frame_place_def)

text \<open>C2: the boot comes through to the jump. From a state the boot loader can leave and with no interrupt
  arriving, \<open>kernel_main\<close> runs without a fault or a panic until the program is loaded: the program's bytes are
  at the addresses of its segment, the page of the stack is mapped and no other user address is; the
  invariant of the two memory managers holds, the heap consists of one free chunk of four pages less a
  header, the screen is blank, the interrupt table is filled and loaded, interrupts are on, and the
  registers for system calls and SSE are set. There it ends: the operand of the instruction before
  \<open>sysret\<close> is loaded from the frame of \<open>load_elf\<close> through the frame pointer that was just moved to the user's
  stack, and that address is not mapped.\<close>

theorem kernel_main_loads_program:
  assumes "boot_ok k mmap n s" "frame_place (entry_place k)"
  shows "\<exists>F t c. kernel_main k mmap n s = (Inl (PageFault (0x700000000000 - entry_place k)), t)
     \<and> (\<forall>i<192. umem (mem t) (cr3 t) (0x400000 + of_nat i) = Some (user_program_elf ! i))
     \<and> (\<forall>va. page_of va = 0x700000000 \<longrightarrow> umem (mem t) (cr3 t) va \<noteq> None)
     \<and> (\<forall>va. page_of va \<notin> {0x400, 0x700000000} \<longrightarrow> umem (mem t) (cr3 t) va = None)
     \<and> vm_inv F t \<and> heap_ok F t [c] \<and> csize c = 4 * 4096 - 32 \<and> \<not> cused c
     \<and> (\<forall>i<4000. mem t (0xB8000 + of_nat i) = 0)
     \<and> idt t = put_gates (idt s) (all_gates (symbols k)) \<and> idtr t = \<lparr>limit = 4095, base = idt_addr k\<rparr> \<and> if_flag t
     \<and> bit (msr t IA32_EFER) 0 \<and> msr t LSTAR_MSR = syscall_stub k
     \<and> cr0 t = (cr0 s AND NOT 4) OR 2 \<and> cr4 t = cr4 s OR 0x600"
proof -
  obtain F C t c where t: "kernel_main k mmap n s = (Inl (after_switch (entry_place k) t), t)" "vm_inv F t" "cr3 t = C"
     "program_shown user_program_elf (\<lambda>_. None) (umem (mem t) C)" "heap_ok F t [c]" "csize c = 0x3FE0" "\<not> cused c"
     and r: "\<forall>i<4000. mem t (0xB8000 + of_nat i) = 0" "bit (msr t IA32_EFER) 0" "msr t LSTAR_MSR = syscall_stub k"
     "idt t = put_gates (idt s) (all_gates (symbols k))" "idtr t = \<lparr>limit = 4095, base = idt_addr k\<rparr>" "if_flag t"
     "cr0 t = (cr0 s AND NOT 4) OR 2" "cr4 t = cr4 s OR 0x600"
    using kernel_main_run [OF assms(1)] by blast
  have "kernel_main k mmap n s = (Inl (PageFault (0x700000000000 - entry_place k)), t)"
    using kernel_main_reload [OF assms t(1)] t(3,4) by simp
  then show ?thesis
    by (intro exI [of _ F] exI [of _ t] exI [of _ c] conjI) (use t(2,5-7) r user_program_seen [OF t(4)] in \<open>simp_all add: t(3)\<close>)
qed

theorem kernel_main_loads_program_witness:
  "\<exists>t. kernel_main sample_image 0xFFFFFFFF80021000 1 loader_machine = (Inl (PageFault 0x6FFFFFFFFFC8), t)
     \<and> umem (mem t) (cr3 t) 0x500000 = None \<and> if_flag t"
proof -
  obtain t where t: "kernel_main sample_image 0xFFFFFFFF80021000 1 loader_machine = (Inl (PageFault 0x6FFFFFFFFFC8), t)"
      "\<forall>va. page_of va \<notin> {0x400, 0x700000000} \<longrightarrow> umem (mem t) (cr3 t) va = None" "if_flag t"
    using kernel_main_loads_program [OF loader_boot_ok sample_place(1)] unfolding sample_place(2) by auto
  have "umem (mem t) (cr3 t) 0x500000 = None" using spec [OF t(2), of "0x500000"] by simp
  with t(1,3) show ?thesis by blast
qed


end
