(* ===== verification/Boot_Tables.thy ===== *)
theory Boot_Tables
  imports Kernel_Boot
begin

text \<open>
  The page tables of the boot loader, \<open>boot_funcs/protected_mode/init_pt.asm\<close>, as the stores of its
  instructions to physical memory, paging being off. Whatever memory held before, the tables map the
  kernel window and, at their own addresses, the page the boot loader runs in and the one of the
  screen: the mapping that the theorem about \<open>kernel_main\<close> starts from.
\<close>

section \<open>The stores\<close>

text \<open>\<open>mov dword [p], v\<close>, and \<open>rep stosd\<close> of \<open>n\<close> double words.\<close>

definition mov_dword :: "u64 \<Rightarrow> u32 \<Rightarrow> pmem \<Rightarrow> pmem" where
  "mov_dword p v m = pwrite m p (le_bytes 4 v)"

primrec rep_stosd :: "nat \<Rightarrow> u64 \<Rightarrow> u32 \<Rightarrow> pmem \<Rightarrow> pmem" where
  "rep_stosd 0 edi eax m = m"
| "rep_stosd (Suc n) edi eax m = rep_stosd n (edi + 4) eax (mov_dword edi eax m)"

primrec add_page_entries :: "nat \<Rightarrow> u64 \<Rightarrow> u32 \<Rightarrow> pmem \<Rightarrow> pmem" where
  "add_page_entries 0 edi ebx m = m"
| "add_page_entries (Suc n) edi ebx m =
     add_page_entries n (edi + 8) (ebx + 0x1000) (mov_dword (edi + 4) 0 (mov_dword edi ebx m))"

definition window_tables :: "pmem \<Rightarrow> pmem" where
  "window_tables m =
     (let edi = 0x1000 + 511 * 8;
          m = mov_dword (edi + 8) 0 (mov_dword edi 0x2003 m);
          edi = 0x2000 + 510 * 8;
          m = mov_dword (edi + 8) 0 (mov_dword edi 0x3003 m);
          edi = 0x3000;
          m = mov_dword (edi + 8) 0 (mov_dword edi 0x4003 m)
      in add_page_entries 512 (edi + 0x1000) 0x00000003 m)"

definition trampoline_tables :: "pmem \<Rightarrow> pmem" where
  "trampoline_tables m =
     (let m = mov_dword (0x1000 + 4) 0 (mov_dword 0x1000 0x5003 m);
          m = mov_dword (0x5000 + 4) 0 (mov_dword 0x5000 0x6003 m);
          m = mov_dword (0x6000 + 4) 0 (mov_dword 0x6000 0x8003 m);
          edi = 0x8000 + 8 * 7;
          m = mov_dword (edi + 4) 0 (mov_dword edi 0x7003 m);
          edi = 0x8000 + 0xB8 * 8
      in mov_dword (edi + 4) 0 (mov_dword edi 0xB8003 m))"

definition init_tables :: "pmem \<Rightarrow> pmem" where
  "init_tables m = trampoline_tables (window_tables (rep_stosd 4096 0x1000 0 m))"

section \<open>The tables\<close>

lemma mov_dwords: "mov_dword (p + 4) 0 (mov_dword p v m) = pwrite64 m p (ucast v)"
proof -
  have "le_bytes 8 (ucast v :: u64) = le_bytes 4 v @ le_bytes 4 (0 :: u32)"
  proof (rule nth_equalityI)
    fix i assume i: "i < length (le_bytes 8 (ucast v :: u64))"
    have "\<not> bit v j" if "32 \<le> j" for j using bit_imp_le_length [of v j] that by auto
    then show "le_bytes 8 (ucast v :: u64) ! i = (le_bytes 4 v @ le_bytes 4 (0 :: u32)) ! i"
      using i by (auto simp: le_bytes_def nth_append intro!: bit_word_eqI simp: bit_simps)
  qed simp
  then show ?thesis using pwrite_append [of "le_bytes 4 v" "le_bytes 4 (0 :: u32)" m p]
    by (simp add: mov_dword_def pwrite64_def)
qed

lemma rep_stosd_pwrite:
  "n < 2 ^ 60 \<Longrightarrow> rep_stosd n edi 0 m = pwrite m edi (replicate (4 * n) 0)"
proof (induction n arbitrary: edi m)
  case (Suc n)
  have r: "replicate (4 * Suc n) 0 = le_bytes 4 (0 :: u32) @ replicate (4 * n) (0 :: u8)"
    by (simp add: le_bytes_def upt_rec numeral_eq_Suc)
  show ?case
    using Suc pwrite_append [of "le_bytes 4 (0 :: u32)" "replicate (4 * n) 0" m edi]
    unfolding r by (simp add: mov_dword_def)
qed simp

lemma add_page_entries_read:
  assumes "n \<le> 512"
  shows "i < n \<Longrightarrow> pread64 (add_page_entries n edi ebx m) (edi + 8 * of_nat i) = ucast (ebx + 0x1000 * of_nat i)"
    and "8 * n \<le> unat (x - edi) \<Longrightarrow> add_page_entries n edi ebx m x = m x"
  using assms
proof (induction n arbitrary: edi ebx m i x)
  case (Suc n)
  case 1
  let ?m = "pwrite64 m edi (ucast ebx)"
  show ?case
  proof (cases i)
    case 0
    have "pread64 (add_page_entries n (edi + 8) (ebx + 0x1000) ?m) edi = pread64 ?m edi"
      unfolding pread64_def
    proof (intro arg_cong [of _ _ le_word] pread_cong)
      fix j :: nat assume j: "j < 8"
      have "unat (of_nat j :: u64) = j" using j by (intro unat_of_nat64) simp
      then have "unat (of_nat j - 8 :: u64) = 2 ^ 64 - 8 + j" using j by (simp add: unat_sub_if_size word_size)
      then have "8 * n \<le> unat (edi + of_nat j - (edi + 8))" using 1(2) by simp
      then show "add_page_entries n (edi + 8) (ebx + 0x1000) ?m (edi + of_nat j) = ?m (edi + of_nat j)"
        using Suc.IH(2) 1(2) by simp
    qed
    also have "\<dots> = ucast ebx" by (rule pread64_pwrite64_same)
    finally show ?thesis unfolding 0 by (simp add: mov_dwords)
  next
    case (Suc j)
    then show ?thesis using Suc.IH(1) [of j "edi + 8" "ebx + 0x1000" ?m] 1 by (simp add: mov_dwords algebra_simps)
  qed
next
  case (Suc n)
  case 2
  let ?m = "pwrite64 m edi (ucast ebx)"
  have "unat (x - (edi + 8)) = unat (x - edi) - 8"
    using 2(1) by (simp add: diff_diff_eq [symmetric] unat_sub_le word_le_nat_alt)
  then have "8 * n \<le> unat (x - (edi + 8))" using 2(1) by simp
  then have "add_page_entries n (edi + 8) (ebx + 0x1000) ?m x = ?m x" using Suc.IH(2) 2(2) by simp
  also have "\<dots> = m x" using 2(1) by (simp add: pwrite64_def pwrite_outside)
  finally show ?case by (simp add: mov_dwords)
qed simp_all

lemma add_page_entries_read64:
  assumes "n \<le> 512" "apart edi (8 * n) q 8" "0 < n"
  shows "pread64 (add_page_entries n edi ebx m) q = pread64 m q"
  unfolding pread64_def
proof (intro arg_cong [of _ _ le_word] pread_cong)
  fix j :: nat assume "j < 8"
  then have "8 * n \<le> unat (q + of_nat j - edi)" using apart_outside [OF assms(2)] assms(3) by simp
  then show "add_page_entries n edi ebx m (q + of_nat j) = m (q + of_nat j)"
    using add_page_entries_read(2) assms(1) by blast
qed

text \<open>A double word on a zero background is the entry.\<close>

lemma mov_dword_read64:
  assumes "pread m (p + 4) 4 = [0, 0, 0, 0]"
  shows "pread64 (mov_dword p v m) p = ucast v"
proof -
  have "pread64 (mov_dword p v m) p = pread64 (mov_dword (p + 4) 0 (mov_dword p v m)) p"
    unfolding pread64_def
  proof (intro arg_cong [of _ _ le_word] pread_cong)
    fix i :: nat assume i: "i < 8"
    show "mov_dword p v m (p + of_nat i) = mov_dword (p + 4) 0 (mov_dword p v m) (p + of_nat i)"
    proof (cases "i < 4")
      case True
      have "unat (of_nat i :: u64) = i" using i by (intro unat_of_nat64) simp
      then have "4 \<le> unat (p + of_nat i - (p + 4))" using True by (simp add: unat_sub_if_size word_size)
      then show ?thesis by (simp add: mov_dword_def [of "p + 4"] pwrite_outside)
    next
      case False
      have "pread m (p + 4) 4 ! (i - 4) = 0" using i False assms by (auto simp: numeral_eq_Suc less_Suc_eq)
      then have "m (p + of_nat i) = 0" using i False by (simp add: of_nat_diff)
      moreover have "unat (of_nat i :: u64) = i" "unat (of_nat (i - 4) :: u64) = i - 4"
        using i by (simp_all add: unat_of_nat64)
      moreover from this have "p + of_nat i - (p + 4) = of_nat (i - 4)" using False by (simp add: of_nat_diff)
      ultimately show ?thesis using i False
        by (simp add: mov_dword_def pwrite_def le_bytes_def)
    qed
  qed
  then show ?thesis by (simp add: mov_dwords)
qed

lemma mov_dword_apart: "apart p 4 q 8 \<Longrightarrow> pread64 (mov_dword p v m) q = pread64 m q"
  by (simp add: mov_dword_def pread64_pwrite_apart)

lemma mov_dword_apart4: "apart p 4 q 4 \<Longrightarrow> pread (mov_dword p v m) q 4 = pread m q 4"
  by (simp add: mov_dword_def pread_pwrite_apart)

lemma stosd_cleared:
  assumes "0x1000 \<le> unat q" "unat q \<le> 0x4FFC"
  shows "pread (rep_stosd 4096 0x1000 0 m) q 4 = [0, 0, 0, 0]"
proof -
  have e: "q = 0x1000 + of_nat (unat q - 0x1000)" using assms(1) by (simp add: of_nat_diff)
  have "pread (rep_stosd 4096 0x1000 0 m) q 4 = take 4 (drop (unat q - 0x1000) (replicate 16384 0))"
    using pread_pwrite_sub [of "unat q - 0x1000" 4 "replicate 16384 0" m "0x1000"] assms
    by (subst e) (simp add: rep_stosd_pwrite del: take_replicate drop_replicate)
  also have "\<dots> = replicate 4 0" using assms(2) by simp
  also have "\<dots> = [0, 0, 0, 0]" by (simp add: numeral_eq_Suc)
  finally show ?thesis .
qed

text \<open>The entries of the tables in the end.\<close>

lemma apart_numerals [simp]:
  "apart (numeral a) n (numeral b) k \<longleftrightarrow> n \<le> unat (numeral b - numeral a :: u64) \<and> k \<le> unat (numeral a - numeral b :: u64)"
  by (simp add: apart_def)

lemma trampoline_stores:
  "trampoline_tables m =
     pwrite64 (pwrite64 (pwrite64 (pwrite64 (pwrite64 m 0x1000 0x5003) 0x5000 0x6003) 0x6000 0x8003) 0x8038 0x7003) 0x85C0 0xB8003"
  by (simp only: trampoline_tables_def Let_def mov_dwords) simp

lemma window_upper:
  fixes m :: pmem
  defines "z \<equiv> rep_stosd 4096 0x1000 0 m"
  shows "pread64 (window_tables z) 0x1FF8 = 0x2003" "pread64 (window_tables z) 0x2FF0 = 0x3003"
    "pread64 (window_tables z) 0x3000 = 0x4003"
proof -
  let ?a = "mov_dword 0x2000 0 (mov_dword 0x1FF8 0x2003 z)"
  let ?b = "mov_dword 0x2FF8 0 (mov_dword 0x2FF0 0x3003 ?a)"
  let ?c = "mov_dword 0x3008 0 (mov_dword 0x3000 0x4003 ?b)"
  have w: "window_tables z = add_page_entries 512 0x4000 3 ?c" by (simp add: window_tables_def)
  have "pread z (0x1FF8 + 4) 4 = [0, 0, 0, 0]" "pread ?a (0x2FF0 + 4) 4 = [0, 0, 0, 0]" "pread ?b (0x3000 + 4) 4 = [0, 0, 0, 0]"
    by (simp_all add: z_def mov_dword_apart4 stosd_cleared)
  note r = this [THEN mov_dword_read64]
  show "pread64 (window_tables z) 0x1FF8 = 0x2003" "pread64 (window_tables z) 0x2FF0 = 0x3003"
    "pread64 (window_tables z) 0x3000 = 0x4003"
    by (simp_all add: w add_page_entries_read64 mov_dword_apart r)
qed

lemma window_leaf:
  assumes "i < 512"
  shows "pread64 (window_tables z) (0x4000 + 8 * of_nat i) = (of_nat i * 0x1000) OR 3"
proof -
  have u: "unat (3 + 0x1000 * of_nat i :: u32) = 3 + 4096 * i"
  proof -
    have "unat (of_nat (3 + 4096 * i) :: u32) = 3 + 4096 * i" by (simp only: unat_of_nat) (use assms in simp)
    then show ?thesis by simp
  qed
  have "(of_nat i * 0x1000 :: u64) AND 3 = 0"
    by (rule and_eq_0_low) (use assms unat_of_nat64 [of "i * 4096"] in \<open>simp_all add: page_aligned_iff\<close>)
  then have "(of_nat i * 0x1000 :: u64) OR 3 = of_nat i * 0x1000 + 3" using word_plus_and_or [of "of_nat i * 0x1000 :: u64" 3] by (simp only: add_0_left)
  also have "\<dots> = of_nat (3 + 4096 * i)" by simp
  also have "\<dots> = ucast (3 + 0x1000 * of_nat i :: u32)" unfolding u [symmetric] by (rule of_nat_unat)
  finally have "(of_nat i * 0x1000 :: u64) OR 3 = ucast (3 + 0x1000 * of_nat i :: u32)" .
  moreover have "pread64 (window_tables z) (0x4000 + 8 * of_nat i) = ucast (3 + 0x1000 * of_nat i :: u32)"
    unfolding window_tables_def Let_def using add_page_entries_read(1) [OF _ assms, of "0x4000" 3] by simp
  ultimately show ?thesis by simp
qed

text \<open>The entries of the identity mapping and those of the window do not meet.\<close>

definition boot_tables :: "pmem \<Rightarrow> bool" where
  "boot_tables m \<longleftrightarrow>
     next_table m 0x1FF8 = Some 0x2000 \<and> next_table m 0x2FF0 = Some 0x3000 \<and> next_table m 0x3000 = Some 0x4000 \<and>
     (\<forall>i<512. leaf_frame m (0x4000 + 8 * of_nat i) = Some (of_nat i * 0x1000)) \<and>
     next_table m 0x1000 = Some 0x5000 \<and> next_table m 0x5000 = Some 0x6000 \<and> next_table m 0x6000 = Some 0x8000 \<and>
     leaf_frame m 0x8038 = Some 0x7000 \<and> leaf_frame m 0x85C0 = Some 0xB8000"

lemma init_tables_tables: "boot_tables (init_tables m)"
proof -
  let ?w = "window_tables (rep_stosd 4096 0x1000 0 m)"
  have ap: "apart (numeral p) 8 (0x4000 + 8 * of_nat i) 8"
    if "unat (numeral p :: u64) + 8 \<le> 0x4000 \<or> 0x5000 \<le> unat (numeral p :: u64)" "i < 512" "unat (numeral p :: u64) < 0x10000" for p and i :: nat
  proof -
    have u: "unat (0x4000 + of_nat (8 * i) :: u64) = 0x4000 + 8 * i" by (subst unat_add_of_nat) (use that in simp_all)
    then have "apart (numeral p) 8 (0x4000 + of_nat (8 * i)) 8" using that
      by (cases "unat (numeral p :: u64) + 8 \<le> 0x4000") (auto intro: apart_le apart_sym [OF apart_le])
    then show ?thesis by simp
  qed
  have "pread64 (init_tables m) (0x4000 + 8 * of_nat i) = (of_nat i * 0x1000) OR 3" if "i < 512" for i
    using that by (simp add: init_tables_def trampoline_stores pread64_pwrite64_apart ap window_leaf)
  then have "leaf_frame (init_tables m) (0x4000 + 8 * of_nat i) = Some (of_nat i * 0x1000)" if "i < 512" for i
  proof -
    have f: "unat (of_nat i * 0x1000 :: u64) = i * 4096" using unat_of_nat64 [of "i * 4096"] that by simp
    then have "page_aligned (of_nat i * 0x1000)" by (simp add: page_aligned_iff)
    then show ?thesis using f that \<open>\<And>i. i < 512 \<Longrightarrow> pread64 (init_tables m) (0x4000 + 8 * of_nat i) = _ i\<close>
      by (simp add: leaf_frame_def entry_mask entry_flag)
  qed
  moreover have "pread64 (init_tables m) 0x1FF8 = 0x2003" "pread64 (init_tables m) 0x2FF0 = 0x3003"
    "pread64 (init_tables m) 0x3000 = 0x4003"
    by (simp_all add: init_tables_def trampoline_stores pread64_pwrite64_apart window_upper)
  moreover have "pread64 (init_tables m) 0x1000 = 0x5003" "pread64 (init_tables m) 0x5000 = 0x6003"
    "pread64 (init_tables m) 0x6000 = 0x8003" "pread64 (init_tables m) 0x8038 = 0x7003" "pread64 (init_tables m) 0x85C0 = 0xB8003"
    by (simp_all add: init_tables_def trampoline_stores pread64_pwrite64_apart)
  ultimately show ?thesis by (simp add: boot_tables_def next_table_def leaf_frame_def PAGE_MASK_def)
qed

text \<open>The window, and the two pages at their own addresses.\<close>

lemma boot_tables_kmap:
  assumes "boot_tables m"
  shows "kmap (pool_frames 0x1000) m 0x1000 (KERNEL_BASE + 0x1000)"
  using assms by (simp add: boot_tables_def kmap_def pool_frames_def low_frame_def page_aligned_def PAGE_MASK_def)

lemma boot_tables_identity:
  assumes "boot_tables m" "unat va div 4096 \<in> {7, 0xB8}"
  shows "mmu_walk m 0x1000 va = Some va"
proof -
  have d: "unat va = unat va div 4096 * 4096 + unat va mod 4096" "unat va mod 4096 < 4096" by simp_all
  have v: "unat va < 0x200000" using assms(2) d by auto
  have i: "unat (pml4_index va) = 0" "unat (pdpt_index va) = 0" "unat (pd_index va) = 0" "unat (pt_index va) = unat va div 4096"
    using v by (simp_all add: pml4_index_def pdpt_index_def pd_index_def pt_index_def unat_index)
  then have z: "pml4_index va = 0" "pdpt_index va = 0" "pd_index va = 0" by (simp_all add: unat_eq_zero)
  have o: "unat (va AND 0xFFF) = unat va mod 4096" by (rule unat_and_fff)
  from assms(2) show ?thesis
  proof (elim insertE)
    assume q: "unat va div 4096 = 7"
    then have p: "pt_index va = 7" using i(4) by (simp add: word_unat_eq_iff)
    have "unat (0x7000 + (va AND 0xFFF)) = unat va" using d q o by (simp add: unat_plus_if_size word_size)
    then have "0x7000 + (va AND 0xFFF) = va" by (simp only: word_unat_eq_iff)
    then show ?thesis using assms(1) by (simp add: mmu_walk_def boot_tables_def slot_def PAGE_MASK_def z p)
  next
    assume q: "unat va div 4096 = 0xB8"
    then have p: "pt_index va = 0xB8" using i(4) by (simp add: word_unat_eq_iff)
    have "unat (0xB8000 + (va AND 0xFFF)) = unat va" using d q o by (simp add: unat_plus_if_size word_size)
    then have "0xB8000 + (va AND 0xFFF) = va" by (simp only: word_unat_eq_iff)
    then show ?thesis using assms(1) by (simp add: mmu_walk_def boot_tables_def slot_def PAGE_MASK_def z p)
  qed simp
qed

text \<open>The rest of memory: above the tables, and the page of the boot loader between them.\<close>

lemma outside_range:
  "unat p + n \<le> unat x \<or> unat x < unat p \<and> unat p + n \<le> 2 ^ 64 \<Longrightarrow> n \<le> unat (x - p)" for x p :: u64
  by (auto simp: unat_sub_if_size word_size word_le_nat_alt)

lemma init_tables_keeps:
  assumes "0x9000 \<le> unat x \<or> 0x7000 \<le> unat x \<and> unat x < 0x8000"
  shows "init_tables m x = m x"
proof -
  have o: "n \<le> unat (x - p)" if "unat p + n \<le> 0x7000 \<or> 0x8000 \<le> unat p \<and> unat p + n \<le> 0x9000" for p n
    using that assms by (intro outside_range) auto
  have w: "window_tables z x = z x" for z
    unfolding window_tables_def Let_def
    by (subst add_page_entries_read(2)) (simp_all add: o mov_dword_def pwrite_outside)
  have "rep_stosd 4096 0x1000 0 m x = m x"
    by (simp add: rep_stosd_pwrite pwrite_outside o del: take_replicate)
  then show ?thesis by (simp add: init_tables_def trampoline_stores pwrite64_def pwrite_outside o w)
qed

lemma init_tables_keeps_range:
  assumes "0x9000 \<le> unat p \<and> unat p + n \<le> 2 ^ 64 \<or> 0x7000 \<le> unat p \<and> unat p + n \<le> 0x8000"
  shows "pread (init_tables m) p n = pread m p n"
proof (rule pread_cong)
  fix i assume "i < n"
  moreover from this have "unat (p + of_nat i) = unat p + i" by (intro unat_add_of_nat) (use assms in auto)
  ultimately show "init_tables m (p + of_nat i) = m (p + of_nat i)" using assms by (intro init_tables_keeps) auto
qed

text \<open>The tables lie below \<open>0x9000\<close>, outside of the page of the boot loader.\<close>

lemma boot_tables_agree:
  assumes b: "boot_tables m" and a: "\<And>x. unat x < 0x7000 \<or> 0x8000 \<le> unat x \<and> unat x < 0x9000 \<Longrightarrow> m' x = m x"
  shows "boot_tables m'"
proof -
  have r: "pread64 m' q = pread64 m q" if "unat q + 8 \<le> 0x7000 \<or> 0x8000 \<le> unat q \<and> unat q + 8 \<le> 0x9000" for q
    unfolding pread64_def
  proof (intro arg_cong [of _ _ le_word] pread_cong)
    fix i :: nat assume "i < 8"
    then show "m' (q + of_nat i) = m (q + of_nat i)" using that by (intro a) (auto simp: unat_add_of_nat)
  qed
  have "unat (0x4000 + of_nat (8 * i) :: u64) = 0x4000 + 8 * i" if "i < 512" for i :: nat
    by (subst unat_add_of_nat) (use that in simp_all)
  then have "pread64 m' (0x4000 + 8 * of_nat i) = pread64 m (0x4000 + 8 * of_nat i)" if "i < 512" for i :: nat
    using that by (intro r) simp
  then show ?thesis using b by (simp add: boot_tables_def next_table_def leaf_frame_def r)
qed

text \<open>Of the tables of the identity mapping only the entries in use are written: the clearing ends at
  \<open>0x5000\<close>, below them, and what memory held there stays in the table.\<close>

lemma init_tables_stale: "pread64 (init_tables m) 0x5008 = pread64 m 0x5008"
proof -
  have w: "pread64 (window_tables z) 0x5008 = pread64 z 0x5008" for z
    by (simp add: window_tables_def add_page_entries_read64 mov_dword_apart)
  have "pread64 (rep_stosd 4096 0x1000 0 m) 0x5008 = pread64 m 0x5008"
    by (simp add: rep_stosd_pwrite pread64_pwrite_apart del: take_replicate)
  then show ?thesis by (simp add: init_tables_def trampoline_stores pread64_pwrite64_apart w)
qed

section \<open>The switch to long mode\<close>

text \<open>\<open>init_pt\<close> and \<open>switch_long_mode\<close>: the tables, their address in \<open>CR3\<close>, the bits for physical address
  extension, long mode and paging. The stack of the boot loader below \<open>0x90000\<close>, on which \<open>init_pt\<close> saves
  the registers, is not part of the model.\<close>

definition init_pt :: "'a machine_scheme \<Rightarrow> 'a machine_scheme" where
  "init_pt s = s\<lparr>mem := init_tables (mem s), cr3 := 0x1000, cr4 := cr4 s OR push_bit 5 1\<rparr>"

definition switch_long_mode :: "'a machine_scheme \<Rightarrow> 'a machine_scheme" where
  "switch_long_mode s =
     s\<lparr>msr := (msr s)(0xC0000080 := msr s 0xC0000080 OR push_bit 8 1), cr0 := cr0 s OR push_bit 31 1\<rparr>"

lemma boot_tables_map:
  assumes "boot_tables (mem s)" "cr3 s = 0x1000" "0x5000 \<le> unat P" "unat P + n \<le> 2 ^ 64" "0 < n" "n < 2 ^ 64"
  shows "boot_map s P n"
proof -
  let ?F = "pool_frames 0x1000" and ?s = "s\<lparr>pml4t := KERNEL_BASE + 0x1000\<rparr>"
  have "kwin ?F ?s" using boot_tables_kmap [OF assms(1)] assms(2) by simp
  moreover have "off_tables ?F P n" by (rule pool_off_tables) (use assms in simp_all)
  ultimately have "boot_map ?s P n" using assms(5,6) by (rule boot_map_kwin)
  then show ?thesis by (rule boot_map_cong [rotated 2]) simp_all
qed

end
