(* ===== verification/Descriptors.thy ===== *)
theory Descriptors
  imports Machine
begin

text \<open>
  Segment descriptors: the table of \<open>bootloader.asm\<close>, and how the processor loads a segment register from
  the table that its register names. The entry is read through the page tables, so loading faults where
  the table is not mapped.
\<close>

section \<open>The table\<close>

definition gdt_entries :: "u64 list" where
  "gdt_entries = [0, 0x00CF9A000000FFFF, 0x00CF92000000FFFF, 0x00AF9A000000FFFF, 0x00CFF2000000FFFF, 0x00AFFA000000FFFF, 0, 0]"

definition is_code :: "u64 \<Rightarrow> bool" where "is_code d \<longleftrightarrow> bit d 47 \<and> bit d 44 \<and> bit d 43"
definition is_data :: "u64 \<Rightarrow> bool" where "is_data d \<longleftrightarrow> bit d 47 \<and> bit d 44 \<and> \<not> bit d 43 \<and> bit d 41"
definition is_long :: "u64 \<Rightarrow> bool" where "is_long d \<longleftrightarrow> bit d 53 \<and> \<not> bit d 54"
definition privilege :: "u64 \<Rightarrow> u64" where "privilege d = drop_bit 45 d AND 3"

text \<open>The selectors the code uses: the far jumps to 32-bit and 64-bit code, the data segment, the gates of the
  interrupt table, whose selector is \<open>0x18\<close>; for the user program, the entries 4 and 5.\<close>

lemma gdt_segments:
  "is_code (gdt_entries ! (8 div 8)) \<and> \<not> is_long (gdt_entries ! (8 div 8)) \<and> privilege (gdt_entries ! (8 div 8)) = 0"
  "is_data (gdt_entries ! (0x10 div 8)) \<and> privilege (gdt_entries ! (0x10 div 8)) = 0"
  "is_code (gdt_entries ! (0x18 div 8)) \<and> is_long (gdt_entries ! (0x18 div 8)) \<and> privilege (gdt_entries ! (0x18 div 8)) = 0"
  "is_data (gdt_entries ! (0x20 div 8)) \<and> privilege (gdt_entries ! (0x20 div 8)) = 3"
  "is_code (gdt_entries ! (0x28 div 8)) \<and> is_long (gdt_entries ! (0x28 div 8)) \<and> privilege (gdt_entries ! (0x28 div 8)) = 3"
  by code_simp+

text \<open>The entries for the kernel's data and its 64-bit code, marked as used.\<close>

definition boot_segments :: "idt_ptr \<Rightarrow> pmem \<Rightarrow> bool" where
  "boot_segments g m \<longleftrightarrow> 0x1F \<le> unat (limit g) \<and> 0x7000 \<le> unat (base g) \<and> unat (base g) + 0x20 \<le> 0x8000 \<and>
     pread64 m (base g + 0x10) = 0x00CF93000000FFFF \<and> pread64 m (base g + 0x18) = 0x00AF9B000000FFFF"

section \<open>Loading a segment register\<close>

definition descriptor_offset :: "u16 \<Rightarrow> u64" where "descriptor_offset sel = ucast (sel AND 0xFFF8)"

text \<open>The entry a selector names in the table at \<open>g\<close>, read in one access; there is no local table.\<close>

definition descriptor :: "idt_ptr \<Rightarrow> u16 \<Rightarrow> u64 kern" where
  "descriptor g sel =
     (if bit sel 2 \<or> unat (limit g) < unat (descriptor_offset sel) + 7
      then raise (GeneralProtection (descriptor_offset sel))
      else load64 (base g + descriptor_offset sel))"

text \<open>The processor marks an entry when it is first used.\<close>

definition mark_accessed :: "idt_ptr \<Rightarrow> u16 \<Rightarrow> u64 \<Rightarrow> unit kern" where
  "mark_accessed g sel d =
     (if bit d 40 then ret () else store8 (base g + descriptor_offset sel + 5) (ucast (drop_bit 40 d) OR 1))"

text \<open>A code segment for ring 0 in 64-bit mode, and a stack segment for ring 0, where the null selector is
  allowed in 64-bit mode.\<close>

definition code_segment :: "idt_ptr \<Rightarrow> u16 \<Rightarrow> unit kern" where
  "code_segment g sel =
     (if sel AND 0xFFFC = 0 then raise (GeneralProtection 0)
      else bind (descriptor g sel) (\<lambda>d.
        if is_code d \<and> is_long d \<and> privilege d = 0 then mark_accessed g sel d
        else raise (GeneralProtection (descriptor_offset sel))))"

definition stack_segment :: "idt_ptr \<Rightarrow> u16 \<Rightarrow> unit kern" where
  "stack_segment g sel =
     (if sel AND 3 \<noteq> 0 then raise (GeneralProtection (ucast (sel AND 0xFFFC)))
      else if sel AND 0xFFFC = 0 then ret ()
      else bind (descriptor g sel) (\<lambda>d.
        if is_data d \<and> privilege d = 0 then mark_accessed g sel d
        else raise (GeneralProtection (descriptor_offset sel))))"

text \<open>The entry can be read, is of the right kind and has been used before.\<close>

definition entry_loaded :: "(u64 \<Rightarrow> bool) \<Rightarrow> idt_ptr \<Rightarrow> u16 \<Rightarrow> machine \<Rightarrow> bool" where
  "entry_loaded P g sel s \<longleftrightarrow>
     sel AND 0xFFFC \<noteq> 0 \<and> \<not> bit sel 2 \<and> unat (descriptor_offset sel) + 7 \<le> unat (limit g) \<and>
     (case fst (load64 (base g + descriptor_offset sel) s) of Inl e \<Rightarrow> False | Inr d \<Rightarrow> P d \<and> bit d 40)"

definition code_loaded :: "idt_ptr \<Rightarrow> u16 \<Rightarrow> machine \<Rightarrow> bool" where
  "code_loaded = entry_loaded (\<lambda>d. is_code d \<and> is_long d \<and> privilege d = 0)"

definition data_loaded :: "idt_ptr \<Rightarrow> u16 \<Rightarrow> machine \<Rightarrow> bool" where
  "data_loaded g sel s \<longleftrightarrow> sel AND 3 = 0 \<and> entry_loaded (\<lambda>d. is_data d \<and> privilege d = 0) g sel s"

lemma load64_cases: "\<exists>r. load64 a s = (r, s)"
  using load64_state [of a s "fst (load64 a s)" "snd (load64 a s)"] by (metis prod.collapse)

lemma segment_runs:
  "code_loaded g sel s \<Longrightarrow> code_segment g sel s = (Inr (), s)"
  "data_loaded g sel s \<Longrightarrow> stack_segment g sel s = (Inr (), s)"
  using load64_cases [of "base g + descriptor_offset sel" s]
  by (auto simp: code_loaded_def data_loaded_def entry_loaded_def code_segment_def stack_segment_def descriptor_def mark_accessed_def
      monad split: sum.splits)

lemma load64_cong: "mem t = mem s \<Longrightarrow> cr3 t = cr3 s \<Longrightarrow> fst (load64 a t) = fst (load64 a s)"
proof -
  assume e: "mem t = mem s" "cr3 t = cr3 s"
  have "translate t a = translate s a" for a using e by (simp add: translate_def)
  then have "translate_range t a n = translate_range s a n" for a n by (induction n arbitrary: a) (simp_all split: sum.splits)
  then show ?thesis using e by (simp add: load64_def load_def monad split: sum.splits)
qed

lemma loaded_cong:
  assumes "mem t = mem s" "cr3 t = cr3 s"
  shows "code_loaded g sel t = code_loaded g sel s" "data_loaded g sel t = data_loaded g sel s"
  by (simp_all add: code_loaded_def data_loaded_def entry_loaded_def load64_cong [OF assms])

text \<open>Where the table is not mapped, no code segment can be loaded.\<close>

lemma code_segment_unmapped:
  assumes "sel AND 0xFFFC \<noteq> 0" "\<not> bit sel 2" "unat (descriptor_offset sel) + 7 \<le> unat (limit g)"
    and "translate s (base g + descriptor_offset sel) = Inl e"
  shows "code_segment g sel s = (Inl e, s)"
  using assms(1-3) load64_fault [OF assms(4)] by (simp add: code_segment_def descriptor_def monad)

end
