(* ===== verification/Interrupt_Stubs.thy ===== *)
theory Interrupt_Stubs
  imports Boot_Tables Descriptors
begin

text \<open>
  The assembly between the processor and the C handlers: the entry points of \<open>idt/isr_stubs.asm\<close> and
  \<open>syscall/syscallstub.asm\<close> as lists of instructions, on a processor with registers and a stack in the
  memory of the machine. An interrupt is delivered through the gate that the interrupt table register
  leads to and the code segment that the gate names, read from the table of the boot loader; it runs the
  stub found at the gate's address and returns by \<open>iretq\<close>, which loads both segments again. A fault on the
  way is delivered in place of the interrupt, and after a double fault the processor shuts down.

  A C function is entered by \<open>call\<close> with its argument in \<open>rdi\<close> and follows the calling convention: it
  returns with \<open>rbx\<close>, \<open>rbp\<close>, \<open>rsp\<close> and \<open>r12\<close> to \<open>r15\<close> as they were and may leave anything in the other
  registers. Its local variables below the stack pointer are not part of memory here, as in the rest
  of the model.
\<close>

section \<open>The processor\<close>

text \<open>The registers are those of \<open>struct regs\<close>; \<open>flags\<close> is the flags register without the interrupt flag,
  which the machine holds.\<close>

record cpu =
  gpr :: regs
  rip :: u64
  cs :: u16
  ss :: u16
  flags :: u64
  gdtr :: idt_ptr
  mach :: machine

type_synonym 'a step = "cpu \<Rightarrow> (fault + 'a) \<times> cpu"

datatype reg = RAX | RBX | RCX | RDX | RSI | RDI | RBP | R8 | R9 | R10 | R11 | R12 | R13 | R14 | R15

fun get_reg :: "reg \<Rightarrow> regs \<Rightarrow> u64" where
  "get_reg RAX g = rax g" | "get_reg RBX g = rbx g" | "get_reg RCX g = rcx g" | "get_reg RDX g = rdx g"
| "get_reg RSI g = rsi g" | "get_reg RDI g = rdi g" | "get_reg RBP g = rbp g" | "get_reg R8 g = r8 g"
| "get_reg R9 g = r9 g" | "get_reg R10 g = r10 g" | "get_reg R11 g = r11 g" | "get_reg R12 g = r12 g"
| "get_reg R13 g = r13 g" | "get_reg R14 g = r14 g" | "get_reg R15 g = r15 g"

fun set_reg :: "reg \<Rightarrow> u64 \<Rightarrow> regs \<Rightarrow> regs" where
  "set_reg RAX v g = g\<lparr>rax := v\<rparr>" | "set_reg RBX v g = g\<lparr>rbx := v\<rparr>" | "set_reg RCX v g = g\<lparr>rcx := v\<rparr>"
| "set_reg RDX v g = g\<lparr>rdx := v\<rparr>" | "set_reg RSI v g = g\<lparr>rsi := v\<rparr>" | "set_reg RDI v g = g\<lparr>rdi := v\<rparr>"
| "set_reg RBP v g = g\<lparr>rbp := v\<rparr>" | "set_reg R8 v g = g\<lparr>r8 := v\<rparr>" | "set_reg R9 v g = g\<lparr>r9 := v\<rparr>"
| "set_reg R10 v g = g\<lparr>r10 := v\<rparr>" | "set_reg R11 v g = g\<lparr>r11 := v\<rparr>" | "set_reg R12 v g = g\<lparr>r12 := v\<rparr>"
| "set_reg R13 v g = g\<lparr>r13 := v\<rparr>" | "set_reg R14 v g = g\<lparr>r14 := v\<rparr>" | "set_reg R15 v g = g\<lparr>r15 := v\<rparr>"

definition on_machine :: "'a kern \<Rightarrow> 'a step" where
  "on_machine k c = (case k (mach c) of (r, m) \<Rightarrow> (r, c\<lparr>mach := m\<rparr>))"

definition then_step :: "'a step \<Rightarrow> ('a \<Rightarrow> 'b step) \<Rightarrow> 'b step" where
  "then_step p f c = (case p c of (Inl e, c') \<Rightarrow> (Inl e, c') | (Inr x, c') \<Rightarrow> f x c')"

definition update :: "(cpu \<Rightarrow> cpu) \<Rightarrow> unit step" where
  "update f c = (Inr (), f c)"

lemmas cpu_step = on_machine_def then_step_def update_def

definition move_rsp :: "u64 \<Rightarrow> cpu \<Rightarrow> cpu" where
  "move_rsp k c = c\<lparr>gpr := (gpr c)\<lparr>rsp := rsp (gpr c) + k\<rparr>\<rparr>"

text \<open>\<open>push\<close> stores below the stack pointer first, so that a fault leaves the stack pointer alone.\<close>

definition push :: "u64 \<Rightarrow> unit step" where
  "push v c = then_step (on_machine (store64 (rsp (gpr c) - 8) v)) (\<lambda>_. update (move_rsp (- 8))) c"

definition pop :: "u64 step" where
  "pop c = then_step (on_machine (load64 (rsp (gpr c)))) (\<lambda>v. then_step (update (move_rsp 8)) (\<lambda>_ c. (Inr v, c))) c"

section \<open>C functions\<close>

datatype c_function = Isr_handler | Irq_handler | Syscall_handler

fun c_code :: "c_function \<Rightarrow> u64 \<Rightarrow> unit kern" where
  "c_code Isr_handler n = isr_handler n"
| "c_code Irq_handler n = irq_handler n"
| "c_code Syscall_handler n = syscall_handler"

text \<open>What the compiler and the linker choose: the return address of a call, the contents a C function
  leaves in the registers it need not preserve, and the address of the array \<open>idt\<close>.\<close>

record compiled =
  idt_address :: u64
  return_to :: u64
  scratch :: regs

definition after_call :: "compiled \<Rightarrow> cpu \<Rightarrow> cpu" where
  "after_call k c = c\<lparr>gpr := (scratch k)\<lparr>rbx := rbx (gpr c), rbp := rbp (gpr c), rsp := rsp (gpr c),
     r12 := r12 (gpr c), r13 := r13 (gpr c), r14 := r14 (gpr c), r15 := r15 (gpr c)\<rparr>\<rparr>"

definition call :: "compiled \<Rightarrow> (u64 \<Rightarrow> unit kern) \<Rightarrow> unit step" where
  "call k f = then_step (push (return_to k)) (\<lambda>_.
     then_step (\<lambda>c. on_machine (f (rdi (gpr c))) c) (\<lambda>_.
     then_step (update (after_call k)) (\<lambda>_.
     then_step pop (\<lambda>_ c. (Inr (), c)))))"

section \<open>Instructions\<close>

datatype instr =
    Push_imm u64
  | Push reg
  | Pop reg
  | Mov_rdi_stack u64
  | Call c_function
  | Add_rsp u64
  | Iretq
  | Sysret_insn

text \<open>The image of the flags register on the stack has the interrupt flag as bit 9.\<close>

definition flags_image :: "cpu \<Rightarrow> u64" where
  "flags_image c = (flags c AND NOT 0x200) OR (if if_flag (mach c) then 0x200 else 0)"

definition set_flags :: "u64 \<Rightarrow> cpu \<Rightarrow> cpu" where
  "set_flags v c = c\<lparr>flags := v AND NOT 0x200, mach := (mach c)\<lparr>if_flag := bit v 9\<rparr>\<rparr>"

text \<open>\<open>iretq\<close> to ring 0 loads both segments from the table; a return to another ring does not occur.\<close>

definition load_segments :: "u16 \<Rightarrow> u16 \<Rightarrow> unit step" where
  "load_segments c_sel s_sel c =
     (if c_sel AND 3 \<noteq> 0 then (Inl (Undefined ''return to another ring''), c)
      else then_step (on_machine (code_segment (gdtr c) c_sel)) (\<lambda>_. on_machine (stack_segment (gdtr c) s_sel)) c)"

definition iretq :: "unit step" where
  "iretq = then_step pop (\<lambda>ip. then_step pop (\<lambda>c_sel. then_step pop (\<lambda>fl. then_step pop (\<lambda>sp. then_step pop (\<lambda>s_sel.
     then_step (load_segments (ucast c_sel) (ucast s_sel)) (\<lambda>_.
     update (\<lambda>c. set_flags fl (c\<lparr>gpr := (gpr c)\<lparr>rsp := sp\<rparr>, rip := ip, cs := ucast c_sel, ss := ucast s_sel\<rparr>))))))))"

fun exec :: "compiled \<Rightarrow> instr \<Rightarrow> unit step" where
  "exec k (Push_imm v) = push v"
| "exec k (Push r) = (\<lambda>c. push (get_reg r (gpr c)) c)"
| "exec k (Pop r) = then_step pop (\<lambda>v. update (\<lambda>c. c\<lparr>gpr := set_reg r v (gpr c)\<rparr>))"
| "exec k (Mov_rdi_stack d) = (\<lambda>c. then_step (on_machine (load64 (rsp (gpr c) + d)))
     (\<lambda>v. update (\<lambda>c. c\<lparr>gpr := (gpr c)\<lparr>rdi := v\<rparr>\<rparr>)) c)"
| "exec k (Call f) = call k (c_code f)"
| "exec k (Add_rsp d) = update (move_rsp d)"
| "exec k Iretq = iretq"
| "exec k Sysret_insn = (\<lambda>c. (Inl (Sysret (rcx (gpr c) AND 0xFFFFFFFF) (rsp (gpr c)) (r11 (gpr c))), c))"

fun exec_all :: "compiled \<Rightarrow> instr list \<Rightarrow> unit step" where
  "exec_all k [] c = (Inr (), c)"
| "exec_all k (i # is) c = then_step (exec k i) (\<lambda>_. exec_all k is) c"

section \<open>The entry points, \<open>isr_stubs.asm\<close>\<close>

definition isr_common :: "instr list" where
  "isr_common =
    [Push RAX, Push RBX, Push RCX, Push RDX, Push RSI, Push RDI, Push RBP, Push R8, Push R9, Push R10,
     Push R11, Push R12, Push R13, Push R14, Push R15,
     Mov_rdi_stack 120, Call Isr_handler,
     Pop R15, Pop R14, Pop R13, Pop R12, Pop R11, Pop R10, Pop R9, Pop R8, Pop RBP, Pop RDI, Pop RSI,
     Pop RDX, Pop RCX, Pop RBX, Pop RAX,
     Add_rsp 16, Iretq]"

definition irq_common :: "instr list" where
  "irq_common =
    [Push RAX, Push RBX, Push RCX, Push RDX, Push RSI, Push RDI, Push RBP, Push R8, Push R9, Push R10,
     Push R11, Push R12, Push R13, Push R14, Push R15,
     Mov_rdi_stack 120, Call Irq_handler,
     Pop R15, Pop R14, Pop R13, Pop R12, Pop R11, Pop R10, Pop R9, Pop R8, Pop RBP, Pop RDI, Pop RSI,
     Pop RDX, Pop RCX, Pop RBX, Pop RAX,
     Add_rsp 16, Iretq]"

definition ISR_NOERR :: "nat \<Rightarrow> instr list" where
  "ISR_NOERR n = [Push_imm 0, Push_imm (of_nat n)] @ isr_common"

definition ISR_ERR :: "nat \<Rightarrow> instr list" where
  "ISR_ERR n = [Push_imm (of_nat n)] @ isr_common"

definition IRQ :: "nat \<Rightarrow> instr list" where
  "IRQ n = [Push_imm 0, Push_imm (of_nat n)] @ irq_common"

definition stubs :: "instr list list" where
  "stubs =
    [ISR_NOERR 0, ISR_NOERR 1, ISR_NOERR 2, ISR_NOERR 3, ISR_NOERR 4, ISR_NOERR 5, ISR_NOERR 6, ISR_NOERR 7,
     ISR_ERR 8, ISR_NOERR 9, ISR_ERR 10, ISR_ERR 11, ISR_ERR 12, ISR_ERR 13, ISR_ERR 14, ISR_NOERR 15,
     ISR_NOERR 16, ISR_ERR 17, ISR_NOERR 18, ISR_NOERR 19, ISR_NOERR 20, ISR_ERR 21, ISR_NOERR 22,
     ISR_NOERR 23, ISR_NOERR 24, ISR_NOERR 25, ISR_NOERR 26, ISR_NOERR 27, ISR_NOERR 28, ISR_NOERR 29,
     ISR_NOERR 30, ISR_NOERR 31, IRQ 32, IRQ 33]"

text \<open>The code at an address: the stub of the entry point that has it.\<close>

definition code_at :: "isr_symbols \<Rightarrow> u64 \<Rightarrow> instr list option" where
  "code_at e a = map_of (zip (map snd (all_gates e)) stubs) a"

section \<open>The system call entry, \<open>syscallstub.asm\<close>\<close>

definition syscall_entry :: "instr list" where
  "syscall_entry = [Call Syscall_handler, Sysret_insn]"

section \<open>Delivery\<close>

text \<open>The exceptions for which the processor pushes an error code.\<close>

definition has_error_code :: "nat \<Rightarrow> bool" where
  "has_error_code vec \<longleftrightarrow> vec \<in> {8, 10, 11, 12, 13, 14, 17, 21}"

text \<open>The gate is found through the register that \<open>lidt\<close> loads and is read through the page tables. The array
  \<open>idt\<close> is a variable of the machine, so the register has to hold its address.\<close>

definition fetch_gate :: "compiled \<Rightarrow> nat \<Rightarrow> idt_entry step" where
  "fetch_gate k vec c =
     (let i = idtr (mach c) in
      if unat (limit i) < 16 * vec + 15 then (Inl (GeneralProtection (of_nat (8 * vec + 2))), c)
      else if base i \<noteq> idt_address k \<or> length (idt (mach c)) \<le> vec
      then (Inl (Undefined ''gate outside of the array''), c)
      else then_step (on_machine (load (base i + of_nat (16 * vec)) 16)) (\<lambda>_ c. (Inr (idt (mach c) ! vec), c)) c)"

definition enter_gate :: "idt_entry \<Rightarrow> cpu \<Rightarrow> cpu" where
  "enter_gate g c = c\<lparr>flags := flags c AND NOT 0x14100, mach := (mach c)\<lparr>if_flag := False\<rparr>,
     rip := gate_handler g, cs := selector g\<rparr>"

text \<open>The stack pointer is rounded down to 16 bytes, the interrupted context is pushed, the flags TF, NT, RF
  and IF are cleared.\<close>

definition push_frame :: "idt_entry \<Rightarrow> nat \<Rightarrow> u64 \<Rightarrow> unit step" where
  "push_frame g vec err c =
     then_step (update (\<lambda>d. d\<lparr>gpr := (gpr d)\<lparr>rsp := rsp (gpr d) AND NOT 15\<rparr>\<rparr>)) (\<lambda>_.
     then_step (push (ucast (ss c))) (\<lambda>_.
     then_step (push (rsp (gpr c))) (\<lambda>_.
     then_step (push (flags_image c)) (\<lambda>_.
     then_step (push (ucast (cs c))) (\<lambda>_.
     then_step (push (rip c)) (\<lambda>_.
     then_step (if has_error_code vec then push err else update id) (\<lambda>_.
     update (enter_gate g)))))))) c"

text \<open>One attempt to deliver vector \<open>vec\<close> in ring 0 through an interrupt gate without a stack of its own. In
  ring 3 the processor would take the stack of ring 0 from the task state segment, which the kernel never
  loads.\<close>

definition deliver :: "compiled \<Rightarrow> nat \<Rightarrow> u64 \<Rightarrow> unit step" where
  "deliver k vec err c =
     (if cs c AND 3 \<noteq> 0 then (Inl (Undefined ''no task state segment''), c)
      else then_step (fetch_gate k vec) (\<lambda>g.
        if type_attr g \<noteq> 0x8E \<or> ist g \<noteq> 0 then on_machine (raise (GeneralProtection (of_nat (8 * vec + 2))))
        else then_step (on_machine (code_segment (gdtr c) (selector g))) (\<lambda>_. push_frame g vec err)) c)"

text \<open>The exceptions that count towards a double fault together with a later one; and the exception that
  is delivered when one of \<open>vec\<close> faults, with its error code. A page fault of a delivery is on a page that is
  not present; the bit of its error code for a write is left out.\<close>

definition contributory :: "nat \<Rightarrow> bool" where
  "contributory vec \<longleftrightarrow> vec \<in> {0, 10, 11, 12, 13}"

definition next_exception :: "nat \<Rightarrow> fault \<Rightarrow> (nat \<times> u64) option" where
  "next_exception vec e =
     (case e of
        PageFault a \<Rightarrow> Some (if vec = 14 then (8, 0) else (14, 0))
      | GeneralProtection a \<Rightarrow> Some (if contributory vec \<or> vec = 14 then (8, 0) else (13, if a < 0x10000 then a OR 1 else 1))
      | _ \<Rightarrow> None)"

definition event_rank :: "nat \<Rightarrow> nat" where
  "event_rank vec = (if vec = 8 then 0 else if vec = 14 then 1 else if contributory vec then 2 else 3)"

text \<open>Delivery until it succeeds, the processor shuts down, or the model has no answer. What a failed attempt
  has written stays, the registers are as before it.\<close>

function deliver_event :: "compiled \<Rightarrow> nat \<Rightarrow> u64 \<Rightarrow> unit step" where
  "deliver_event k vec err c =
     (case deliver k vec err c of
        (Inr u, d) \<Rightarrow> (Inr (), d)
      | (Inl e, d) \<Rightarrow>
          (case next_exception vec e of
             None \<Rightarrow> (Inl e, d)
           | Some (v, code) \<Rightarrow>
               if vec = 8 then (Inl Shutdown, c\<lparr>mach := mach d\<rparr>)
               else deliver_event k v code (c\<lparr>mach := mach d\<rparr>)))"
  by pat_completeness auto
termination
  by (relation "measure (\<lambda>(k, vec, err, c). event_rank vec)")
    (auto simp: next_exception_def event_rank_def contributory_def split: fault.splits if_splits)

declare deliver_event.simps [simp del]

definition interrupt :: "isr_symbols \<Rightarrow> compiled \<Rightarrow> nat \<Rightarrow> u64 \<Rightarrow> unit step" where
  "interrupt e k vec err = then_step (deliver_event k vec err) (\<lambda>_ c.
     case code_at e (rip c) of
       None \<Rightarrow> (Inl (Undefined ''no code at the address of the gate''), c)
     | Some code \<Rightarrow> exec_all k code c)"

lemma deliver_event_ok: "deliver k vec err c = (Inr (), d) \<Longrightarrow> deliver_event k vec err c = (Inr (), d)"
  by (subst deliver_event.simps) simp

lemma deliver_event_fault:
  "deliver k vec err c = (Inl e, c) \<Longrightarrow> next_exception vec e = Some (v, code) \<Longrightarrow> vec \<noteq> 8 \<Longrightarrow>
     deliver_event k vec err c = deliver_event k v code c"
  "deliver k 8 err c = (Inl e, c) \<Longrightarrow> next_exception 8 e \<noteq> None \<Longrightarrow> deliver_event k 8 err c = (Inl Shutdown, c)"
  by (subst deliver_event.simps; auto)+

section \<open>The stack\<close>

text \<open>A stack of at most \<open>n\<close> bytes below \<open>sp\<close> that lies in the kernel window, off its tables.\<close>

definition stack_ok :: "kframes \<Rightarrow> u64 \<Rightarrow> nat \<Rightarrow> bool" where
  "stack_ok F sp n \<longleftrightarrow> n < 2 ^ 20 \<and> in_win (sp - of_nat n) n \<and> off_tables F (sp - of_nat n - KERNEL_BASE) n"

text \<open>The words \<open>ws\<close> are on the stack, the last pushed first, and memory is that of \<open>m\<close> elsewhere.\<close>

definition stacked :: "u64 \<Rightarrow> nat \<Rightarrow> u64 list \<Rightarrow> pmem \<Rightarrow> pmem \<Rightarrow> bool" where
  "stacked sp n ws m m' \<longleftrightarrow>
     (\<forall>i<length ws. pread64 m' (sp - KERNEL_BASE - 8 * of_nat (length ws - i)) = ws ! i)
     \<and> agree_out (sp - of_nat n - KERNEL_BASE) n m m'"

definition on_stack :: "kframes \<Rightarrow> u64 \<Rightarrow> nat \<Rightarrow> machine \<Rightarrow> u64 list \<Rightarrow> cpu \<Rightarrow> bool" where
  "on_stack F sp n s ws c \<longleftrightarrow>
     rsp (gpr c) = sp - 8 * of_nat (length ws) \<and> 8 * length ws \<le> n \<and> window F (mach c)
     \<and> mach c = s\<lparr>mem := mem (mach c)\<rparr> \<and> stacked sp n ws (mem s) (mem (mach c))"

lemma stack_slot:
  assumes "stack_ok F sp n" "8 * k \<le> n" "0 < k"
  shows "in_win (sp - 8 * of_nat k) 8" "off_tables F (sp - KERNEL_BASE - 8 * of_nat k) 8"
proof -
  have e: "sp - 8 * of_nat k = sp - of_nat n + of_nat (n - 8 * k)"
    using assms(2) by (simp add: of_nat_diff)
  have le: "n - 8 * k + 8 \<le> n" using assms(2,3) by simp
  show "in_win (sp - 8 * of_nat k) 8"
    unfolding e using in_win_sub [of "sp - of_nat n" n "n - 8 * k" 8] assms(1) le by (simp add: stack_ok_def)
  have p: "sp - KERNEL_BASE - 8 * of_nat k = sp - of_nat n - KERNEL_BASE + of_nat (n - 8 * k)"
    using assms(2) by (simp add: of_nat_diff)
  show "off_tables F (sp - KERNEL_BASE - 8 * of_nat k) 8"
    unfolding p using off_tables_sub [OF _ le] assms(1) by (simp add: stack_ok_def)
qed

lemma on_stack_push:
  assumes "stack_ok F sp n" "on_stack F sp n s ws c" "8 * length ws + 8 \<le> n"
  shows "\<exists>m. push v c = (Inr (), move_rsp (- 8) (c\<lparr>mach := s\<lparr>mem := m\<rparr>\<rparr>))
     \<and> on_stack F sp n s (v # ws) (move_rsp (- 8) (c\<lparr>mach := s\<lparr>mem := m\<rparr>\<rparr>))"
proof -
  let ?l = "length ws" and ?m = "mem (mach c)"
  let ?p = "sp - KERNEL_BASE - 8 * of_nat (Suc ?l)"
  have c: "rsp (gpr c) = sp - 8 * of_nat ?l" "window F (mach c)" "mach c = s\<lparr>mem := ?m\<rparr>"
    "stacked sp n ws (mem s) ?m" using assms(2) by (simp_all add: on_stack_def)
  have n: "n < 2 ^ 20" using assms(1) by (simp add: stack_ok_def)
  have slot: "in_win (rsp (gpr c) - 8) 8" "off_tables F ?p 8"
    using stack_slot [OF assms(1), of "Suc ?l"] assms(3) by (simp_all add: c(1) algebra_simps)
  let ?m' = "pwrite64 ?m ?p v"
  have "store64 (rsp (gpr c) - 8) v (mach c) = (Inr (), (mach c)\<lparr>mem := ?m'\<rparr>)"
    using kwin_store64 [OF c(2) slot(1)] by (simp add: c(1) algebra_simps)
  moreover have upd: "(mach c)\<lparr>mem := ?m'\<rparr> = s\<lparr>mem := ?m'\<rparr>" by (subst c(3)) simp
  ultimately have push: "push v c = (Inr (), move_rsp (- 8) (c\<lparr>mach := s\<lparr>mem := ?m'\<rparr>\<rparr>))"
    by (simp add: push_def cpu_step move_rsp_def)
  have kw: "window F (s\<lparr>mem := ?m'\<rparr>)"
    using kmap_pwrite64 [OF c(2) slot(2)] arg_cong [OF c(3), of cr3] by simp
  have p: "?p = sp - of_nat n - KERNEL_BASE + of_nat (n - 8 * Suc ?l)"
    using assms(3) by (simp add: of_nat_diff algebra_simps)
  have "agree_out (sp - of_nat n - KERNEL_BASE) n (mem s) ?m" using c(4) by (simp add: stacked_def)
  then have ag: "agree_out (sp - of_nat n - KERNEL_BASE) n (mem s) ?m'"
    unfolding p pwrite64_def by (rule agree_out_pwrite) (use assms(3) n in simp_all)
  have "pread64 ?m' (sp - KERNEL_BASE - 8 * of_nat (Suc ?l - i)) = (v # ws) ! i" if "i < Suc ?l" for i
  proof (cases i)
    case (Suc j)
    let ?q = "sp - KERNEL_BASE - 8 * of_nat (?l - j)"
    have "?q = ?p + of_nat (8 * i)" using that Suc by (simp add: of_nat_diff algebra_simps)
    moreover have "apart ?p 8 (?p + of_nat (8 * i)) 8"
      using apart_offsets [of 0 8 "8 * i" 8 ?p] Suc that assms(3) n by simp
    ultimately have "pread64 ?m' ?q = pread64 ?m ?q" by (simp only: pread64_pwrite64_apart)
    moreover have "pread64 ?m ?q = ws ! j" using c(4) that Suc by (simp only: stacked_def)
    ultimately show ?thesis by (simp only: Suc diff_Suc_Suc nth_Cons_Suc)
  qed simp
  then have "stacked sp n (v # ws) (mem s) ?m'" using ag by (simp add: stacked_def)
  then have "on_stack F sp n s (v # ws) (move_rsp (- 8) (c\<lparr>mach := s\<lparr>mem := ?m'\<rparr>\<rparr>))"
    using kw assms(3) c(1) by (simp add: on_stack_def move_rsp_def algebra_simps)
  with push show ?thesis by blast
qed

lemma on_stack_load:
  assumes "stack_ok F sp n" "on_stack F sp n s ws c" "i < length ws"
  shows "load64 (rsp (gpr c) + 8 * of_nat i) (mach c) = (Inr (ws ! i), mach c)"
proof -
  have c: "rsp (gpr c) = sp - 8 * of_nat (length ws)" "window F (mach c)" "8 * length ws \<le> n"
    "stacked sp n ws (mem s) (mem (mach c))" using assms(2) by (simp_all add: on_stack_def)
  have a: "rsp (gpr c) + 8 * of_nat i = sp - 8 * of_nat (length ws - i)"
    using assms(3) by (simp add: c(1) of_nat_diff algebra_simps)
  have "in_win (sp - 8 * of_nat (length ws - i)) 8"
    using stack_slot [OF assms(1), of "length ws - i"] c(3) assms(3) by simp
  moreover have "sp - 8 * of_nat (length ws - i) - KERNEL_BASE = sp - KERNEL_BASE - 8 * of_nat (length ws - i)" by simp
  ultimately show ?thesis
    unfolding a using kwin_load64 [OF c(2)] c(4) assms(3) unfolding stacked_def by metis
qed

lemma on_stack_pop:
  assumes "stack_ok F sp n" "on_stack F sp n s (v # ws) c"
  shows "pop c = (Inr v, move_rsp 8 c)" "on_stack F sp n s ws (move_rsp 8 c)"
proof -
  show "pop c = (Inr v, move_rsp 8 c)"
    using on_stack_load [OF assms, of 0] by (simp add: pop_def cpu_step)
  have "pread64 (mem (mach c)) (sp - KERNEL_BASE - 8 * of_nat (length ws - i)) = ws ! i" if "i < length ws" for i
  proof -
    have "stacked sp n (v # ws) (mem s) (mem (mach c))" using assms(2) by (simp add: on_stack_def)
    then have "pread64 (mem (mach c)) (sp - KERNEL_BASE - 8 * of_nat (length (v # ws) - Suc i)) = (v # ws) ! Suc i"
      using that unfolding stacked_def by (metis Suc_less_eq length_Cons)
    then show ?thesis by simp
  qed
  then show "on_stack F sp n s ws (move_rsp 8 c)"
    using assms(2) by (simp add: on_stack_def stacked_def move_rsp_def algebra_simps)
qed

section \<open>Sequences of pushes and pops\<close>

text \<open>A step that keeps the program counter, the selectors and the flags.\<close>

definition same_context :: "cpu \<Rightarrow> cpu \<Rightarrow> bool" where
  "same_context c d \<longleftrightarrow> rip d = rip c \<and> cs d = cs c \<and> ss d = ss c \<and> flags d = flags c \<and> gdtr d = gdtr c"

lemma same_context_refl [simp]: "same_context c c"
  by (simp add: same_context_def)

lemma same_context_trans [trans]: "same_context c d \<Longrightarrow> same_context d e \<Longrightarrow> same_context c e"
  by (simp add: same_context_def)

lemma same_context_updates [simp]:
  "same_context c (d\<lparr>gpr := g\<rparr>) = same_context c d" "same_context c (d\<lparr>mach := m\<rparr>) = same_context c d"
  "same_context c (move_rsp k d) = same_context c d"
  by (simp_all add: same_context_def move_rsp_def)

lemma get_reg_rsp [simp]: "get_reg r (g\<lparr>rsp := v\<rparr>) = get_reg r g"
  by (cases r) simp_all

lemma get_reg_move [simp]: "get_reg r (gpr (move_rsp k c)) = get_reg r (gpr c)"
  by (simp add: move_rsp_def)

lemma gdtr_move [simp]: "gdtr (move_rsp k c) = gdtr c"
  by (simp add: move_rsp_def)

lemma get_set_reg [simp]: "get_reg r (set_reg q v g) = (if r = q then v else get_reg r g)"
  by (cases r; cases q) simp_all

lemma rsp_set_reg [simp]: "rsp (set_reg q v g) = rsp g"
  by (cases q) simp_all

lemma regs_eqI:
  assumes "\<And>r. get_reg r g = get_reg r h" "rsp g = rsp h"
  shows "g = (h :: regs)"
proof -
  have "get_reg RAX g = get_reg RAX h" "get_reg RBX g = get_reg RBX h" "get_reg RCX g = get_reg RCX h"
    "get_reg RDX g = get_reg RDX h" "get_reg RSI g = get_reg RSI h" "get_reg RDI g = get_reg RDI h"
    "get_reg RBP g = get_reg RBP h" "get_reg R8 g = get_reg R8 h" "get_reg R9 g = get_reg R9 h"
    "get_reg R10 g = get_reg R10 h" "get_reg R11 g = get_reg R11 h" "get_reg R12 g = get_reg R12 h"
    "get_reg R13 g = get_reg R13 h" "get_reg R14 g = get_reg R14 h" "get_reg R15 g = get_reg R15 h"
    by (rule assms(1))+
  with assms(2) show ?thesis by (intro regs.equality) simp_all
qed

lemma on_stack_pushes:
  assumes "stack_ok F sp n" "on_stack F sp n s ws c" "8 * (length ws + length rs) \<le> n"
  shows "\<exists>d. exec_all k (map Push rs @ is) c = exec_all k is d
     \<and> on_stack F sp n s (rev (map (\<lambda>r. get_reg r (gpr c)) rs) @ ws) d
     \<and> (\<forall>r. get_reg r (gpr d) = get_reg r (gpr c)) \<and> same_context c d"
  using assms(2,3)
proof (induction rs arbitrary: ws c)
  case (Cons r rs)
  have "8 * length ws + 8 \<le> n" using Cons.prems(2) by simp
  from on_stack_push [OF assms(1) Cons.prems(1) this, of "get_reg r (gpr c)"] obtain m where
    m: "push (get_reg r (gpr c)) c = (Inr (), move_rsp (- 8) (c\<lparr>mach := s\<lparr>mem := m\<rparr>\<rparr>))"
      "on_stack F sp n s (get_reg r (gpr c) # ws) (move_rsp (- 8) (c\<lparr>mach := s\<lparr>mem := m\<rparr>\<rparr>))" by blast
  let ?c = "move_rsp (- 8) (c\<lparr>mach := s\<lparr>mem := m\<rparr>\<rparr>)"
  have g: "get_reg q (gpr ?c) = get_reg q (gpr c)" "same_context c ?c" for q by simp_all
  from Cons.IH [OF m(2)] Cons.prems(2) obtain d where
    "exec_all k (map Push rs @ is) ?c = exec_all k is d"
    "on_stack F sp n s (rev (map (\<lambda>r. get_reg r (gpr ?c)) rs) @ get_reg r (gpr c) # ws) d"
    "\<forall>r. get_reg r (gpr d) = get_reg r (gpr ?c)" "same_context ?c d" by auto
  then show ?case
    using m(1) same_context_trans [OF g(2)] unfolding g by (intro exI [of _ d]) (simp add: then_step_def)
qed auto

lemma on_stack_pops:
  assumes "stack_ok F sp n" "on_stack F sp n s (map (\<lambda>r. get_reg r g) rs @ ws) c" "distinct rs"
  shows "\<exists>d. exec_all k (map Pop rs @ is) c = exec_all k is d \<and> on_stack F sp n s ws d
     \<and> (\<forall>r. get_reg r (gpr d) = (if r \<in> set rs then get_reg r g else get_reg r (gpr c)))
     \<and> same_context c d \<and> mach d = mach c"
  using assms(2,3)
proof (induction rs arbitrary: c)
  case (Cons r rs)
  let ?c = "(move_rsp 8 c)\<lparr>gpr := set_reg r (get_reg r g) (gpr (move_rsp 8 c))\<rparr>"
  have p: "pop c = (Inr (get_reg r g), move_rsp 8 c)" "on_stack F sp n s (map (\<lambda>r. get_reg r g) rs @ ws) (move_rsp 8 c)"
    using on_stack_pop [OF assms(1)] Cons.prems(1) by simp_all
  have "on_stack F sp n s (map (\<lambda>r. get_reg r g) rs @ ws) ?c" using p(2) by (simp add: on_stack_def)
  from Cons.IH [OF this] Cons.prems(2) obtain d where
    "exec_all k (map Pop rs @ is) ?c = exec_all k is d" "on_stack F sp n s ws d"
    "\<forall>q. get_reg q (gpr d) = (if q \<in> set rs then get_reg q g else get_reg q (gpr ?c))"
    "same_context ?c d" "mach d = mach ?c" by auto
  then show ?case
    using p(1) Cons.prems(2) by (intro exI [of _ d]) (auto simp: cpu_step move_rsp_def same_context_def)
qed auto

section \<open>The segments\<close>

text \<open>The handler's and the interrupted code's segments can be loaded, whatever the \<open>n\<close> bytes below \<open>sp\<close> hold.\<close>

definition segments_ok :: "u64 \<Rightarrow> nat \<Rightarrow> idt_ptr \<Rightarrow> u16 \<Rightarrow> u16 \<Rightarrow> machine \<Rightarrow> bool" where
  "segments_ok sp n g c_sel s_sel s \<longleftrightarrow>
     (\<forall>m. agree_out (sp - of_nat n - KERNEL_BASE) n (mem s) m \<longrightarrow>
        code_loaded g 0x18 (s\<lparr>mem := m\<rparr>) \<and> code_loaded g c_sel (s\<lparr>mem := m\<rparr>) \<and> data_loaded g s_sel (s\<lparr>mem := m\<rparr>))"

lemma segments_ok_step:
  assumes "segments_ok sp n g c_sel s_sel s" "agree_out (sp - of_nat n - KERNEL_BASE) n (mem s) (mem t)" "cr3 t = cr3 s"
  shows "segments_ok sp n g c_sel s_sel t"
proof -
  have "code_loaded g x (t\<lparr>mem := m\<rparr>) = code_loaded g x (s\<lparr>mem := m\<rparr>)" "data_loaded g x (t\<lparr>mem := m\<rparr>) = data_loaded g x (s\<lparr>mem := m\<rparr>)" for x m
    by (rule loaded_cong; simp add: assms(3))+
  moreover have "agree_out (sp - of_nat n - KERNEL_BASE) n (mem s) m"
    if "agree_out (sp - of_nat n - KERNEL_BASE) n (mem t) m" for m using assms(2) that by (simp add: agree_out_def)
  ultimately show ?thesis using assms(1) by (simp add: segments_ok_def)
qed

lemma segments_runs:
  assumes "segments_ok sp n g c_sel s_sel s"
  shows "code_segment g 0x18 s = (Inr (), s)" "code_segment g c_sel s = (Inr (), s)" "stack_segment g s_sel s = (Inr (), s)"
proof -
  have "code_loaded g 0x18 (s\<lparr>mem := mem s\<rparr>) \<and> code_loaded g c_sel (s\<lparr>mem := mem s\<rparr>) \<and> data_loaded g s_sel (s\<lparr>mem := mem s\<rparr>)"
    using assms agree_out_refl unfolding segments_ok_def by blast
  then show "code_segment g 0x18 s = (Inr (), s)" "code_segment g c_sel s = (Inr (), s)" "stack_segment g s_sel s = (Inr (), s)"
    by (simp_all add: segment_runs)
qed

section \<open>The common part of the entry points\<close>

definition common :: "c_function \<Rightarrow> instr list" where
  "common h = map Push [RAX, RBX, RCX, RDX, RSI, RDI, RBP, R8, R9, R10, R11, R12, R13, R14, R15]
     @ [Mov_rdi_stack 120, Call h]
     @ map Pop [R15, R14, R13, R12, R11, R10, R9, R8, RBP, RDI, RSI, RDX, RCX, RBX, RAX]
     @ [Add_rsp 16, Iretq]"

lemma commons: "isr_common = common Isr_handler" "irq_common = common Irq_handler"
  by (simp_all add: isr_common_def irq_common_def common_def)

lemma stubs_nth:
  "vec < 34 \<Longrightarrow> stubs ! vec = (if has_error_code vec then [Push_imm (of_nat vec)] else [Push_imm 0, Push_imm (of_nat vec)])
     @ common (if vec < 32 then Isr_handler else Irq_handler)"
  "length stubs = 34"
proof -
  have "list_all (\<lambda>v. stubs ! v = (if has_error_code v then [Push_imm (of_nat v)] else [Push_imm 0, Push_imm (of_nat v)])
     @ common (if v < 32 then Isr_handler else Irq_handler)) [0..<34]"
    by (simp add: upt_rec stubs_def has_error_code_def ISR_NOERR_def ISR_ERR_def IRQ_def commons)
  then show "vec < 34 \<Longrightarrow> stubs ! vec = (if has_error_code vec then [Push_imm (of_nat vec)] else [Push_imm 0, Push_imm (of_nat vec)])
     @ common (if vec < 32 then Isr_handler else Irq_handler)"
    by (auto simp: list_all_iff)
  show "length stubs = 34" by (simp add: stubs_def)
qed

text \<open>Up to the call: all registers are on the stack above the number and the error code, and the number
  is the argument.\<close>

lemma common_call:
  assumes "stack_ok F sp n" "on_stack F sp n s (num # err # ctx) c" "8 * length ctx + 144 \<le> n"
  shows "\<exists>d. exec_all k (common h) c
       = exec_all k ([Call h] @ map Pop [R15, R14, R13, R12, R11, R10, R9, R8, RBP, RDI, RSI, RDX, RCX, RBX, RAX]
           @ [Add_rsp 16, Iretq]) d
     \<and> on_stack F sp n s (map (\<lambda>r. get_reg r (gpr c)) [R15, R14, R13, R12, R11, R10, R9, R8, RBP, RDI, RSI, RDX, RCX, RBX, RAX]
         @ num # err # ctx) d
     \<and> rdi (gpr d) = num \<and> same_context c d"
proof -
  let ?rs = "[RAX, RBX, RCX, RDX, RSI, RDI, RBP, R8, R9, R10, R11, R12, R13, R14, R15]"
  let ?rest = "[Call h] @ map Pop [R15, R14, R13, R12, R11, R10, R9, R8, RBP, RDI, RSI, RDX, RCX, RBX, RAX] @ [Add_rsp 16, Iretq]"
  have "8 * (length (num # err # ctx) + length ?rs) \<le> n" using assms(3) by simp
  from on_stack_pushes [OF assms(1,2) this, of k "Mov_rdi_stack 120 # ?rest"] obtain e where e:
    "exec_all k (common h) c = exec_all k (Mov_rdi_stack 120 # ?rest) e"
    "on_stack F sp n s (rev (map (\<lambda>r. get_reg r (gpr c)) ?rs) @ num # err # ctx) e" "same_context c e"
    by (auto simp: common_def)
  let ?d = "e\<lparr>gpr := (gpr e)\<lparr>rdi := num\<rparr>\<rparr>"
  have "load64 (rsp (gpr e) + 120) (mach e) = (Inr num, mach e)"
    using on_stack_load [OF assms(1) e(2), of 15] by simp
  then have "exec_all k (Mov_rdi_stack 120 # ?rest) e = exec_all k ?rest ?d" by (simp add: cpu_step)
  moreover have "on_stack F sp n s (rev (map (\<lambda>r. get_reg r (gpr c)) ?rs) @ num # err # ctx) ?d"
    using e(2) by (simp add: on_stack_def)
  ultimately show ?thesis using e(1,3) by (intro exI [of _ ?d]) simp
qed

text \<open>A C function that returns, without regard to memory.\<close>

locale returning_function =
  fixes f :: "u64 \<Rightarrow> unit kern" and effect :: "u64 \<Rightarrow> machine \<Rightarrow> machine"
  assumes returns: "f a s = (Inr (), effect a s)"
    and keeps: "mem (effect a s) = mem s" "cr3 (effect a s) = cr3 s"
    and blind: "effect a (s\<lparr>mem := m\<rparr>) = (effect a s)\<lparr>mem := m\<rparr>"
begin

lemma call_returns:
  assumes "stack_ok F sp n" "on_stack F sp n s ws c" "8 * length ws + 8 \<le> n"
  shows "\<exists>d. call k f c = (Inr (), d) \<and> on_stack F sp n (effect (rdi (gpr c)) s) ws d \<and> same_context c d"
proof -
  obtain m where m: "push (return_to k) c = (Inr (), move_rsp (- 8) (c\<lparr>mach := s\<lparr>mem := m\<rparr>\<rparr>))"
    "on_stack F sp n s (return_to k # ws) (move_rsp (- 8) (c\<lparr>mach := s\<lparr>mem := m\<rparr>\<rparr>))"
    using on_stack_push [OF assms] by blast
  let ?c = "move_rsp (- 8) (c\<lparr>mach := s\<lparr>mem := m\<rparr>\<rparr>)" and ?a = "rdi (gpr c)"
  let ?d = "after_call k (?c\<lparr>mach := (effect ?a s)\<lparr>mem := m\<rparr>\<rparr>)"
  have a: "rdi (gpr ?c) = ?a" "mach ?c = s\<lparr>mem := m\<rparr>" by (simp_all add: move_rsp_def)
  have on: "on_stack F sp n (effect ?a s) (return_to k # ws) ?d"
    using m(2) by (simp add: on_stack_def after_call_def a(2) keeps)
  have "call k f c = then_step pop (\<lambda>_ c. (Inr (), c)) ?d"
    using m(1) by (simp add: call_def cpu_step a returns blind)
  moreover have "same_context c ?d" by (simp add: after_call_def same_context_def move_rsp_def)
  ultimately show ?thesis
    using on_stack_pop [OF assms(1) on] by (intro exI [of _ "move_rsp 8 ?d"]) (simp add: then_step_def)
qed

text \<open>The common part restores every register and returns to the interrupted context; the number is the
  argument of the call.\<close>

lemma common_returns:
  assumes f: "c_code h = f" and ok: "stack_ok F sp n" and n: "184 \<le> n"
    and on: "on_stack F sp n s [num, err, ip, c_sel, fl, old, s_sel] c"
    and seg: "segments_ok sp n (gdtr c) (ucast c_sel) (ucast s_sel) s" and ring: "ucast c_sel AND (3 :: u16) = 0"
  shows "\<exists>d. exec_all k (common h) c = (Inr (), d) \<and> gpr d = (gpr c)\<lparr>rsp := old\<rparr> \<and> rip d = ip
     \<and> gdtr d = gdtr c \<and> cs d = ucast c_sel \<and> ss d = ucast s_sel \<and> flags d = fl AND NOT 0x200
     \<and> mach d = (effect num s)\<lparr>mem := mem (mach d), if_flag := bit fl 9\<rparr>
     \<and> stacked sp n [ip, c_sel, fl, old, s_sel] (mem s) (mem (mach d)) \<and> window F (mach d)"
proof -
  let ?rs = "[R15, R14, R13, R12, R11, R10, R9, R8, RBP, RDI, RSI, RDX, RCX, RBX, RAX]"
  let ?ctx = "[ip, c_sel, fl, old, s_sel]" and ?t = "effect num s"
  obtain c1 where c1: "exec_all k (common h) c = exec_all k ([Call h] @ map Pop ?rs @ [Add_rsp 16, Iretq]) c1"
    "on_stack F sp n s (map (\<lambda>r. get_reg r (gpr c)) ?rs @ num # err # ?ctx) c1" "rdi (gpr c1) = num"
    "same_context c c1" using common_call [OF ok on, of k h] n by auto
  obtain c2 where c2: "call k f c1 = (Inr (), c2)" "on_stack F sp n ?t (map (\<lambda>r. get_reg r (gpr c)) ?rs @ num # err # ?ctx) c2"
    "same_context c1 c2" using call_returns [OF ok c1(2), of k] c1(3) n by auto
  obtain c3 where c3: "exec_all k (map Pop ?rs @ [Add_rsp 16, Iretq]) c2 = exec_all k [Add_rsp 16, Iretq] c3"
    "on_stack F sp n ?t (num # err # ?ctx) c3" "\<forall>r. get_reg r (gpr c3) = (if r \<in> set ?rs then get_reg r (gpr c) else get_reg r (gpr c2))"
    "same_context c2 c3"
    using on_stack_pops [OF ok c2(2), of k "[Add_rsp 16, Iretq]"] by auto
  let ?c4 = "move_rsp 16 c3"
  have "on_stack F sp n ?t ?ctx (move_rsp 8 (move_rsp 8 c3))"
    using on_stack_pop(2) [OF ok on_stack_pop(2) [OF ok c3(2)]] .
  then have c4: "on_stack F sp n ?t ?ctx ?c4" by (simp add: move_rsp_def add.commute)
  note p1 = on_stack_pop [OF ok c4] note p2 = on_stack_pop [OF ok p1(2)] note p3 = on_stack_pop [OF ok p2(2)]
  note p4 = on_stack_pop [OF ok p3(2)] note p5 = on_stack_pop [OF ok p4(2)]
  define c5 where "c5 = move_rsp 8 (move_rsp 8 (move_rsp 8 (move_rsp 8 (move_rsp 8 ?c4))))"
  define d where "d = set_flags fl (c5\<lparr>gpr := (gpr c5)\<lparr>rsp := old\<rparr>, rip := ip, cs := ucast c_sel, ss := ucast s_sel\<rparr>)"
  have m3: "mach c3 = ?t\<lparr>mem := mem (mach c3)\<rparr>" "stacked sp n ?ctx (mem s) (mem (mach c3))" "window F (mach c3)"
    using c4 by (simp_all add: on_stack_def move_rsp_def keeps)
  have "gdtr c3 = gdtr c" using c1(4) c2(3) c3(4) by (simp add: same_context_def)
  then have g: "gdtr c5 = gdtr c" "mach c5 = mach c3" by (simp_all add: c5_def move_rsp_def)
  have "segments_ok sp n (gdtr c) (ucast c_sel) (ucast s_sel) (mach c3)"
    by (rule segments_ok_step [OF seg]) (use m3(2) arg_cong [OF m3(1), of cr3] in \<open>simp_all add: stacked_def keeps\<close>)
  then have "load_segments (ucast c_sel) (ucast s_sel) c5 = (Inr (), c5)"
    using ring segments_runs(2,3) g by (simp add: load_segments_def cpu_step)
  then have "exec_all k [Add_rsp 16, Iretq] c3 = (Inr (), d)"
    by (simp add: iretq_def cpu_step p1 p2 p3 p4 p5 d_def c5_def)
  then have run: "exec_all k (common h) c = (Inr (), d)"
    using c1(1) c2(1) c3(1) f by (simp add: then_step_def)
  have m: "mach c5 = mach c3" "get_reg r (gpr c5) = get_reg r (gpr c3)" for r by (simp_all add: c5_def move_rsp_def)
  have all: "r \<in> set ?rs" for r by (cases r) simp_all
  have "gpr d = (gpr c)\<lparr>rsp := old\<rparr>"
    by (rule regs_eqI) (use c3(3) all in \<open>simp_all add: d_def set_flags_def m\<close>)
  moreover from m3 have "mach d = ?t\<lparr>mem := mem (mach d), if_flag := bit fl 9\<rparr>" "stacked sp n ?ctx (mem s) (mem (mach d))"
    "window F (mach d)"
    by (simp_all add: d_def set_flags_def m)
  ultimately show ?thesis using run by (intro exI [of _ d]) (simp add: d_def set_flags_def g)
qed

end

interpretation irq: returning_function irq_handler "\<lambda>a s. s\<lparr>io_log := io_log s @ irq_events a\<rparr>"
  by unfold_locales (simp_all add: irq_handler_run)

section \<open>An interrupt in ring 0\<close>

text \<open>What the processor pushes, and the state it needs: the window with the stack and the interrupt table
  in it, the register of that table, the gate, and the segments. The kernel is in such states from
  \<open>idt_init\<close> to \<open>paging_init\<close>, as \<open>boot_segments_ok\<close> below and the theory on the cycle of interrupts show; with
  its own page tables, which do not map the descriptors, it is in none.\<close>

definition context_of :: "cpu \<Rightarrow> u64 list" where
  "context_of c = [rip c, ucast (cs c), flags_image c, rsp (gpr c), ucast (ss c)]"

definition entry_ready :: "kframes \<Rightarrow> isr_symbols \<Rightarrow> compiled \<Rightarrow> nat \<Rightarrow> cpu \<Rightarrow> bool" where
  "entry_ready F e k vec c \<longleftrightarrow>
     window F (mach c) \<and> stack_ok F (rsp (gpr c) AND NOT 15) 184 \<and> cs c AND 3 = 0 \<and>
     segments_ok (rsp (gpr c) AND NOT 15) 184 (gdtr c) (cs c) (ss c) (mach c) \<and>
     idtr (mach c) = \<lparr>limit = 4095, base = idt_address k\<rparr> \<and> in_win (idt_address k) 4096 \<and>
     distinct (map snd (all_gates e)) \<and> vec < 34 \<and> length (idt (mach c)) = 256 \<and>
     gate_ok (entry_point e vec) (idt (mach c) ! vec)"

text \<open>The general registers and the register of the descriptor table are kept.\<close>

abbreviation kept_regs :: "cpu \<Rightarrow> cpu \<Rightarrow> bool" where
  "kept_regs c d \<equiv> (\<forall>r. get_reg r (gpr d) = get_reg r (gpr c)) \<and> gdtr d = gdtr c"

lemma gate_fetched:
  assumes "entry_ready F e k vec c"
  shows "fetch_gate k vec c = (Inr (idt (mach c) ! vec), c)" "code_segment (gdtr c) 0x18 (mach c) = (Inr (), mach c)"
proof -
  note r = assms(1) [unfolded entry_ready_def]
  have "in_win (idt_address k + of_nat (16 * vec)) 16" by (rule in_win_sub [of _ 4096]) (use r in simp_all)
  then show "fetch_gate k vec c = (Inr (idt (mach c) ! vec), c)"
    using kwin_load [of F "mach c" "KERNEL_BASE + kf_pml4 F"] r by (simp add: fetch_gate_def cpu_step)
  show "code_segment (gdtr c) 0x18 (mach c) = (Inr (), mach c)" using segments_runs(1) r by blast
qed

lemma deliver_run:
  assumes "entry_ready F e k vec c"
  defines "sp \<equiv> rsp (gpr c) AND NOT 15"
  shows "\<exists>d. deliver_event k vec err c = (Inr (), d) \<and> rip d = entry_point e vec \<and> kept_regs c d
     \<and> on_stack F sp 184 ((mach c)\<lparr>if_flag := False\<rparr>) ((if has_error_code vec then [err] else []) @ context_of c) d"
proof -
  note r = assms(1) [unfolded entry_ready_def, folded sp_def]
  let ?c0 = "c\<lparr>gpr := (gpr c)\<lparr>rsp := sp\<rparr>\<rparr>" and ?g = "idt (mach c) ! vec"
  have ok: "stack_ok F sp 184" using r by blast
  have on0: "on_stack F sp 184 (mach c) [] ?c0" using r by (simp add: on_stack_def stacked_def agree_out_refl)
  have step: "\<exists>d. push v x = (Inr (), d) \<and> on_stack F sp 184 (mach c) (v # ws) d \<and> kept_regs x d"
    if "on_stack F sp 184 (mach c) ws x" "length ws < 23" for v ws x
    using on_stack_push [OF ok that(1), of v] that(2) by force
  obtain c1 where c1: "push (ucast (ss c)) ?c0 = (Inr (), c1)" "on_stack F sp 184 (mach c) [ucast (ss c)] c1"
    "kept_regs c c1" using step [OF on0, of "ucast (ss c)"] by auto
  obtain c2 where c2: "push (rsp (gpr c)) c1 = (Inr (), c2)" "on_stack F sp 184 (mach c) [rsp (gpr c), ucast (ss c)] c2"
    "kept_regs c c2" using step [OF c1(2), of "rsp (gpr c)"] c1(3) by auto
  obtain c3 where c3: "push (flags_image c) c2 = (Inr (), c3)" "on_stack F sp 184 (mach c) [flags_image c, rsp (gpr c), ucast (ss c)] c3"
    "kept_regs c c3" using step [OF c2(2), of "flags_image c"] c2(3) by auto
  obtain c4 where c4: "push (ucast (cs c)) c3 = (Inr (), c4)" "on_stack F sp 184 (mach c) [ucast (cs c), flags_image c, rsp (gpr c), ucast (ss c)] c4"
    "kept_regs c c4" using step [OF c3(2), of "ucast (cs c)"] c3(3) by auto
  obtain c5 where c5: "push (rip c) c4 = (Inr (), c5)" "on_stack F sp 184 (mach c) (context_of c) c5"
    "kept_regs c c5" using step [OF c4(2), of "rip c"] c4(3) by (auto simp: context_of_def)
  have l: "length (context_of c) = 5" by (simp add: context_of_def)
  obtain c6 where c6: "(if has_error_code vec then push err else update id) c5 = (Inr (), c6)"
    "on_stack F sp 184 (mach c) ((if has_error_code vec then [err] else []) @ context_of c) c6"
    "kept_regs c c6"
    using step [OF c5(2), of err] c5 l by (cases "has_error_code vec") (auto simp: update_def)
  let ?d = "enter_gate ?g c6"
  have "deliver k vec err c = (Inr (), ?d)"
    using r gate_fetched [OF assms(1)] c1(1) c2(1) c3(1) c4(1) c5(1) c6(1)
    by (simp add: deliver_def push_frame_def gate_ok_def cpu_step sp_def)
  then have "deliver_event k vec err c = (Inr (), ?d)" by (rule deliver_event_ok)
  moreover have "on_stack F sp 184 ((mach c)\<lparr>if_flag := False\<rparr>) ((if has_error_code vec then [err] else []) @ context_of c) ?d"
  proof -
    have m: "mach c6 = (mach c)\<lparr>mem := mem (mach c6)\<rparr>" using c6(2) unfolding on_stack_def by blast
    have "(mach c6)\<lparr>if_flag := False\<rparr> = (mach c)\<lparr>if_flag := False, mem := mem (mach c6)\<rparr>" by (subst m) simp
    moreover have "cr3 (mach c6) = cr3 (mach c)" by (subst m) simp
    moreover have "window F (mach c6)" "rsp (gpr c6) = sp - 8 * of_nat (length ((if has_error_code vec then [err] else []) @ context_of c))"
      "8 * length ((if has_error_code vec then [err] else []) @ context_of c) \<le> 184"
      "stacked sp 184 ((if has_error_code vec then [err] else []) @ context_of c) (mem (mach c)) (mem (mach c6))"
      using c6(2) unfolding on_stack_def by blast+
    ultimately show ?thesis by (simp add: on_stack_def enter_gate_def)
  qed
  ultimately show ?thesis using c6(3) r by (intro exI [of _ ?d]) (simp add: enter_gate_def gate_ok_def)
qed

text \<open>Every entry point, with or without an error code of the processor, hands over the same frame.\<close>

lemma interrupt_common:
  assumes "entry_ready F e k vec c"
  defines "sp \<equiv> rsp (gpr c) AND NOT 15"
  shows "\<exists>d err'. interrupt e k vec err c = exec_all k (common (if vec < 32 then Isr_handler else Irq_handler)) d
     \<and> kept_regs c d \<and> (err' = (if has_error_code vec then err else 0))
     \<and> on_stack F sp 184 ((mach c)\<lparr>if_flag := False\<rparr>) (of_nat vec # err' # context_of c) d"
proof -
  note r = assms(1) [unfolded entry_ready_def, folded sp_def]
  let ?h = "if vec < 32 then Isr_handler else Irq_handler" and ?s = "(mach c)\<lparr>if_flag := False\<rparr>"
  have ok: "stack_ok F sp 184" using r by blast
  obtain c1 where c1: "deliver_event k vec err c = (Inr (), c1)" "rip c1 = entry_point e vec" "kept_regs c c1"
    "on_stack F sp 184 ?s ((if has_error_code vec then [err] else []) @ context_of c) c1"
    using deliver_run [OF assms(1), of err] unfolding sp_def by blast
  have "map_of (zip (map snd (all_gates e)) stubs) (map snd (all_gates e) ! vec) = Some (stubs ! vec)"
    by (rule map_of_zip_nth) (use r length_all_gates stubs_nth(2) in auto)
  then have "code_at e (rip c1) = Some (stubs ! vec)"
    using r by (simp add: code_at_def c1(2) entry_point_def length_all_gates)
  then have run: "interrupt e k vec err c = exec_all k (stubs ! vec) c1"
    using c1(1) by (simp add: interrupt_def then_step_def)
  have l: "length (context_of c) = 5" by (simp add: context_of_def)
  have step: "\<exists>d. (\<forall>is. exec_all k (Push_imm v # is) x = exec_all k is d) \<and> on_stack F sp 184 ?s (v # ws) d
      \<and> kept_regs x d"
    if "on_stack F sp 184 ?s ws x" "length ws < 23" for v ws x
    using on_stack_push [OF ok that(1), of v] that(2) by (force simp: then_step_def)
  show ?thesis
  proof (cases "has_error_code vec")
    case True
    then obtain d where "\<forall>is. exec_all k (Push_imm (of_nat vec) # is) c1 = exec_all k is d"
      "on_stack F sp 184 ?s (of_nat vec # err # context_of c) d" "kept_regs c1 d"
      using step [OF c1(4), of "of_nat vec"] l by auto
    then show ?thesis using run c1(3) True r stubs_nth(1) [of vec] by (intro exI [of _ d]) simp
  next
    case False
    then obtain d where d: "\<forall>is. exec_all k (Push_imm 0 # is) c1 = exec_all k is d"
      "on_stack F sp 184 ?s (0 # context_of c) d" "kept_regs c1 d"
      using step [OF c1(4), of 0] l by auto
    obtain d' where "\<forall>is. exec_all k (Push_imm (of_nat vec) # is) d = exec_all k is d'"
      "on_stack F sp 184 ?s (of_nat vec # 0 # context_of c) d'" "kept_regs d d'"
      using step [OF d(2), of "of_nat vec"] l by auto
    then show ?thesis using run c1(3) d(1,3) False r stubs_nth(1) [of vec] by (intro exI [of _ d']) simp
  qed
qed

lemma one_flag:
  fixes w x :: u64
  assumes "\<And>n. bit w n \<longleftrightarrow> n = k" "\<not> bit x k"
  shows "((x AND NOT w) OR (if b then w else 0)) AND NOT w = x" "bit ((x AND NOT w) OR (if b then w else 0)) k = b"
  using assms by (auto intro!: bit_word_eqI simp: bit_simps)

lemma irq_run:
  assumes "entry_ready F e k vec c" "32 \<le> vec" "\<not> bit (flags c) 9"
  defines "sp \<equiv> rsp (gpr c) AND NOT 15"
  shows "\<exists>d. interrupt e k vec err c = (Inr (), d)
     \<and> d = c\<lparr>mach := (mach c)\<lparr>mem := mem (mach d), io_log := io_log (mach c) @ irq_events (of_nat vec)\<rparr>\<rparr>
     \<and> stacked sp 184 (context_of c) (mem (mach c)) (mem (mach d)) \<and> window F (mach d)"
proof -
  let ?s = "(mach c)\<lparr>if_flag := False\<rparr>" and ?n = "of_nat vec :: u64"
  have ok: "stack_ok F sp 184" and h: "(if vec < 32 then Isr_handler else Irq_handler) = Irq_handler"
    using assms(1,2) by (simp_all add: entry_ready_def sp_def)
  obtain c1 err' where c1: "interrupt e k vec err c = exec_all k (common Irq_handler) c1"
    "kept_regs c c1" "on_stack F sp 184 ?s (?n # err' # context_of c) c1"
    using interrupt_common [OF assms(1), of err] unfolding h sp_def by blast
  have f: "c_code Irq_handler = irq_handler" by (rule ext) simp
  have u: "ucast (ucast x :: u64) = x" for x :: u16 by (intro bit_word_eqI) (auto simp: bit_simps)
  have "segments_ok sp 184 (gdtr c) (cs c) (ss c) (mach c)" "cs c AND 3 = 0"
    using assms(1) by (simp_all add: entry_ready_def sp_def)
  then have seg: "segments_ok sp 184 (gdtr c1) (ucast (ucast (cs c) :: u64)) (ucast (ucast (ss c) :: u64)) ?s"
    and ring: "ucast (ucast (cs c) :: u64) AND (3 :: u16) = 0"
    using segments_ok_step [of sp 184 "gdtr c" "cs c" "ss c" "mach c" ?s] c1(2) by (simp_all add: u agree_out_refl)
  obtain d where d: "exec_all k (common Irq_handler) c1 = (Inr (), d)" "gpr d = (gpr c1)\<lparr>rsp := rsp (gpr c)\<rparr>"
    "rip d = rip c" "gdtr d = gdtr c1" "cs d = ucast (ucast (cs c) :: u64)" "ss d = ucast (ucast (ss c) :: u64)"
    "flags d = flags_image c AND NOT 0x200"
    "mach d = (?s\<lparr>io_log := io_log ?s @ irq_events ?n\<rparr>)\<lparr>mem := mem (mach d), if_flag := bit (flags_image c) 9\<rparr>"
    "stacked sp 184 (context_of c) (mem ?s) (mem (mach d))" "window F (mach d)"
    using irq.common_returns [OF f ok _ c1(3) [unfolded context_of_def] seg ring, of k] unfolding context_of_def by auto
  have "bit (0x200 :: u64) n \<longleftrightarrow> n = 9" for n
    using bit_push_bit_iff [of 9 "1 :: u64" n] by (auto simp: bit_1_iff)
  note fl = one_flag [of "0x200", OF this, OF assms(3), of "if_flag (mach c)", folded flags_image_def]
  have g: "gpr d = gpr c" by (rule regs_eqI) (use c1(2) d(2) in simp_all)
  have m: "mach d = (mach c)\<lparr>mem := mem (mach d), io_log := io_log (mach c) @ irq_events ?n\<rparr>"
    by (subst d(8)) (simp add: fl)
  have "d = c\<lparr>mach := mach d\<rparr>"
    using g d(3-7) c1(2) fl u by (intro cpu.equality) simp_all
  then have "d = c\<lparr>mach := (mach c)\<lparr>mem := mem (mach d), io_log := io_log (mach c) @ irq_events ?n\<rparr>\<rparr>"
    using m by metis
  then show ?thesis using c1(1) d(1,9,10) by (intro exI [of _ d]) simp
qed

lemma exception_run:
  assumes "entry_ready F e k vec c" "vec < 32" "off_tables F 0xB8000 4000"
  defines "sp \<equiv> rsp (gpr c) AND NOT 15"
  shows "\<exists>d m. interrupt e k vec err c = (Inl Halt, d) \<and> rsp (gpr d) = sp - 184
     \<and> mach d = (mach c)\<lparr>mem := put_texts (exception_report (of_nat vec)) m, if_flag := False\<rparr>
     \<and> stacked sp 184 (context_of c) (mem (mach c)) m"
proof -
  let ?s = "(mach c)\<lparr>if_flag := False\<rparr>" and ?n = "of_nat vec :: u64"
  let ?rs = "[R15, R14, R13, R12, R11, R10, R9, R8, RBP, RDI, RSI, RDX, RCX, RBX, RAX]"
  have ok: "stack_ok F sp 184" and h: "(if vec < 32 then Isr_handler else Irq_handler) = Isr_handler"
    using assms(1,2) by (simp_all add: entry_ready_def sp_def)
  have l: "length (context_of c) = 5" by (simp add: context_of_def)
  obtain c1 err' where c1: "interrupt e k vec err c = exec_all k (common Isr_handler) c1"
    "on_stack F sp 184 ?s (?n # err' # context_of c) c1"
    using interrupt_common [OF assms(1), of err] unfolding h sp_def by blast
  obtain c2 where c2: "exec_all k (common Isr_handler) c1
       = exec_all k ([Call Isr_handler] @ map Pop ?rs @ [Add_rsp 16, Iretq]) c2"
    "on_stack F sp 184 ?s (map (\<lambda>r. get_reg r (gpr c1)) ?rs @ ?n # err' # context_of c) c2" "rdi (gpr c2) = ?n"
    using common_call [OF ok c1(2), of k Isr_handler] l by auto
  obtain m where m: "push (return_to k) c2 = (Inr (), move_rsp (- 8) (c2\<lparr>mach := ?s\<lparr>mem := m\<rparr>\<rparr>))"
    "on_stack F sp 184 ?s (return_to k # map (\<lambda>r. get_reg r (gpr c1)) ?rs @ ?n # err' # context_of c)
       (move_rsp (- 8) (c2\<lparr>mach := ?s\<lparr>mem := m\<rparr>\<rparr>))"
    using on_stack_push [OF ok c2(2), of "return_to k"] l by auto
  let ?c3 = "move_rsp (- 8) (c2\<lparr>mach := ?s\<lparr>mem := m\<rparr>\<rparr>)"
  have c3: "mach ?c3 = ?s\<lparr>mem := m\<rparr>" "rdi (gpr ?c3) = ?n" using c2(3) by (simp_all add: move_rsp_def)
  have kw: "window F (?s\<lparr>mem := m\<rparr>)" and sp: "rsp (gpr ?c3) = sp - 184"
    and st: "stacked sp 184 (return_to k # map (\<lambda>r. get_reg r (gpr c1)) ?rs @ ?n # err' # context_of c) (mem (mach c)) m"
    using m(2) unfolding on_stack_def c3 by (simp_all add: l)
  let ?d = "?c3\<lparr>mach := ?s\<lparr>mem := put_texts (exception_report ?n) m\<rparr>\<rparr>"
  have "call k (c_code Isr_handler) c2 = (Inl Halt, ?d)"
    using m(1) isr_handler_run [OF kw assms(3), of ?n] by (simp add: call_def cpu_step c3)
  then have "interrupt e k vec err c = (Inl Halt, ?d)"
    using c1(1) c2(1) by (simp add: then_step_def)
  moreover have "stacked sp 184 (context_of c) (mem (mach c)) m"
    using st unfolding stacked_def by (auto simp: l nth_append dest: spec [where x = "18 + i" for i])
  ultimately show ?thesis using sp by (intro exI [of _ ?d] exI [of _ m]) simp
qed

section \<open>The state the boot loader leaves\<close>

text \<open>On the tables of the boot loader the page of its data, with the descriptors, is mapped at its own
  address. There an interrupt finds its segments: entries that the far jump and the loads of
  \<open>switch_protected_mode\<close> have used, on a stack above the tables.\<close>

lemma boot_page_load:
  assumes "boot_tables (mem s)" "cr3 s = 0x1000" "0x7000 \<le> unat a" "unat a + 8 \<le> 0x8000"
  shows "load64 a s = (Inr (pread64 (mem s) a), s)"
proof -
  have "translate s (a + of_nat i) = Inr (a + of_nat i)" if "i < 8" for i
  proof -
    have u: "unat (a + of_nat i) = unat a + i" by (rule unat_add_of_nat) (use assms(4) that in simp)
    then have "unat (a + of_nat i) div 4096 = 7"
      using assms(3,4) that by (intro div_nat_eqI) simp_all
    then have "mmu_walk (mem s) (cr3 s) (a + of_nat i) = Some (a + of_nat i)"
      using boot_tables_identity [OF assms(1)] by (simp add: assms(2))
    moreover have "unat (drop_bit 47 (a + of_nat i)) = 0"
      unfolding unat_drop_bit_eq u using assms(4) that by (simp add: drop_bit_eq_div)
    then have "canonical (a + of_nat i)" by (simp add: canonical_def unat_eq_0)
    ultimately show ?thesis by (simp add: translate_def)
  qed
  then have "mapped s a 8 a" by (simp add: mapped_def)
  from load_mapped [OF this] show ?thesis by (simp add: load64_def monad pread64_def)
qed

lemma boot_segments_ok:
  assumes b: "boot_tables (mem s)" "cr3 s = 0x1000" "boot_segments g (mem s)"
    and sp: "0x9000 + n \<le> unat (sp - KERNEL_BASE)"
  shows "segments_ok sp n g 0x18 0x10 s"
  unfolding segments_ok_def
proof (intro allI impI)
  fix m assume m: "agree_out (sp - of_nat n - KERNEL_BASE) n (mem s) m"
  define q where "q = sp - KERNEL_BASE"
  have q: "sp - of_nat n - KERNEL_BASE = q - of_nat n" by (simp add: q_def)
  have l: "unat q < 2 ^ 64" using unsigned_less [of q, where 'a = nat] by simp
  then have "unat (of_nat n :: u64) = n" using sp by (intro unat_of_nat64) (simp add: q_def)
  then have "unat (q - of_nat n) = unat q - n" using sp by (simp add: unat_sub_if_size word_size q_def)
  then have p: "unat (sp - of_nat n - KERNEL_BASE) + n \<le> 2 ^ 64" "0x9000 \<le> unat (sp - of_nat n - KERNEL_BASE)"
    unfolding q using l sp by (simp_all add: q_def)
  have e: "m x = mem s x" if "unat x < 0x9000" for x
    using m outside_range [of "sp - of_nat n - KERNEL_BASE" n x] p that by (simp add: agree_out_def)
  have "boot_tables m" by (rule boot_tables_agree [OF b(1)]) (auto intro: e)
  then have bt: "boot_tables (mem (s\<lparr>mem := m\<rparr>))" by simp
  have g: "0x7000 \<le> unat (base g)" "unat (base g) + 0x20 \<le> 0x8000" using b(3) by (simp_all add: boot_segments_def)
  have l: "load64 (base g + of_nat k) (s\<lparr>mem := m\<rparr>) = (Inr (pread64 (mem s) (base g + of_nat k)), s\<lparr>mem := m\<rparr>)"
    if "k + 8 \<le> 0x20" for k
  proof -
    have u: "unat (base g + of_nat k) = unat (base g) + k" by (rule unat_add_of_nat) (use g that in simp)
    have "pread64 m (base g + of_nat k) = pread64 (mem s) (base g + of_nat k)"
      unfolding pread64_def
    proof (intro arg_cong [of _ _ le_word] pread_cong e)
      fix i :: nat assume "i < 8"
      then show "unat (base g + of_nat k + of_nat i) < 0x9000" using u g that by (simp add: unat_add_of_nat)
    qed
    then show ?thesis using boot_page_load [OF bt, of "base g + of_nat k"] b(2) u g that by simp
  qed
  have o: "descriptor_offset 0x10 = 0x10" "descriptor_offset 0x18 = 0x18" "\<not> bit (0x10 :: u16) 2" "\<not> bit (0x18 :: u16) 2"
    by code_simp+
  have d: "is_code 0x00AF9B000000FFFF" "is_long 0x00AF9B000000FFFF" "privilege 0x00AF9B000000FFFF = 0" "bit (0x00AF9B000000FFFF :: u64) 40"
    "is_data 0x00CF93000000FFFF" "privilege 0x00CF93000000FFFF = 0" "bit (0x00CF93000000FFFF :: u64) 40"
    by code_simp+
  have "code_loaded g 0x18 (s\<lparr>mem := m\<rparr>)" "data_loaded g 0x10 (s\<lparr>mem := m\<rparr>)"
    using b(3) l [of "0x18"] l [of "0x10"]
    by (simp_all add: code_loaded_def data_loaded_def entry_loaded_def o d boot_segments_def)
  then show "code_loaded g 0x18 (s\<lparr>mem := m\<rparr>) \<and> code_loaded g 0x18 (s\<lparr>mem := m\<rparr>) \<and> data_loaded g 0x10 (s\<lparr>mem := m\<rparr>)" by blast
qed

section \<open>A sample processor\<close>

definition sample_gdt :: "u64 list" where
  "sample_gdt = gdt_entries[2 := 0x00CF93000000FFFF, 3 := 0x00AF9B000000FFFF]"

definition sample_memory :: pmem where
  "sample_memory = init_tables (pwrite64 (pwrite64 (\<lambda>_. 0) 0x7DA8 (sample_gdt ! 2)) 0x7DB0 (sample_gdt ! 3))"

definition sample_cpu :: cpu where
  "sample_cpu =
     \<lparr>gpr = \<lparr>rax = 1, rbx = 2, rcx = 3, rdx = 4, rsi = 5, rdi = 6, rsp = 0xFFFFFFFF80020F00, rbp = 0xFFFFFFFF80020F40,
        r8 = 8, r9 = 9, r10 = 10, r11 = 11, r12 = 12, r13 = 13, r14 = 14, r15 = 15\<rparr>,
      rip = 0xFFFFFFFF80010123, cs = 0x18, ss = 0x10, flags = 0x46, gdtr = \<lparr>limit = 63, base = 0x7D98\<rparr>,
      mach = boot_machine\<lparr>mem := sample_memory, cr3 := 0x1000, pml4t := 0, idt := put_gates null_idt (all_gates sample_symbols),
        idtr := \<lparr>limit = 4095, base = 0xFFFFFFFF8000C000\<rparr>, if_flag := True\<rparr>\<rparr>"

definition sample_compiled :: compiled where
  "sample_compiled = \<lparr>idt_address = 0xFFFFFFFF8000C000, return_to = 0xFFFFFFFF80010456, scratch = gpr sample_cpu\<rparr>"

lemma sample_tables: "boot_tables sample_memory" "boot_segments \<lparr>limit = 63, base = 0x7D98\<rparr> sample_memory"
proof -
  show "boot_tables sample_memory" by (simp add: sample_memory_def init_tables_tables)
  have "pread64 sample_memory 0x7DA8 = 0x00CF93000000FFFF" "pread64 sample_memory 0x7DB0 = 0x00AF9B000000FFFF"
    unfolding sample_memory_def pread64_def
    by (simp_all add: init_tables_keeps_range) (simp_all add: pread64_def [symmetric] pread64_pwrite64_apart sample_gdt_def gdt_entries_def)
  then show "boot_segments \<lparr>limit = 63, base = 0x7D98\<rparr> sample_memory" by (simp add: boot_segments_def)
qed

lemma sample_entry:
  assumes "vec < 34"
  shows "entry_ready (pool_frames 0x1000) sample_symbols sample_compiled vec sample_cpu"
proof -
  have "window (pool_frames 0x1000) (mach sample_cpu)"
    using boot_tables_kmap [OF sample_tables(1)] by (simp add: sample_cpu_def pool_frames_def)
  moreover have sp: "rsp (gpr sample_cpu) AND NOT 15 = 0xFFFFFFFF80020F00" by (simp add: sample_cpu_def)
  moreover have "stack_ok (pool_frames 0x1000) 0xFFFFFFFF80020F00 184"
    by (simp add: stack_ok_def in_win_def kconst pool_off_tables)
  moreover have "distinct (map snd (all_gates sample_symbols))"
    by (simp add: all_gates_def exception_gates_def sample_symbols_def)
  moreover have "length null_idt = 256" by (simp add: null_idt_def)
  moreover from this have "idt (mach sample_cpu) ! vec = make_gate (entry_point sample_symbols vec)"
    using idt_gates(1) [OF _ assms] by (simp add: sample_cpu_def)
  moreover have "segments_ok 0xFFFFFFFF80020F00 184 \<lparr>limit = 63, base = 0x7D98\<rparr> 0x18 0x10 (mach sample_cpu)"
    by (rule boot_segments_ok) (simp_all add: sample_tables sample_cpu_def kconst)
  ultimately show ?thesis using assms
    by (simp add: entry_ready_def make_gate_ok) (simp add: sample_cpu_def sample_compiled_def in_win_def kconst)
qed

lemma sample_screen: "off_tables (pool_frames 0x1000) 0xB8000 4000"
  by (rule pool_off_tables) simp_all

lemma sample_flags: "\<not> bit (flags sample_cpu) 9" by (simp add: sample_cpu_def)

section \<open>Properties\<close>

text \<open>C8: an interrupt of the timer or the keyboard in ring 0, where the gate and the segments can be
  fetched, is invisible to the code it interrupts: the handler runs and returns, and every register, the flags with the interrupt flag, the selectors and
  the program counter are as before, whatever the C handler leaves in the registers it may use. The
  machine differs only in the port accesses of the handler and in the 184 bytes below the stack
  pointer, rounded down to 16.\<close>

theorem interrupt_transparent:
  assumes "entry_ready F e k vec c" "32 \<le> vec" "\<not> bit (flags c) 9"
  shows "\<exists>m. interrupt e k vec err c
       = (Inr (), c\<lparr>mach := (mach c)\<lparr>mem := m, io_log := io_log (mach c) @ irq_events (of_nat vec)\<rparr>\<rparr>)
     \<and> agree_out ((rsp (gpr c) AND NOT 15) - 184 - KERNEL_BASE) 184 (mem (mach c)) m"
proof -
  obtain d where d: "interrupt e k vec err c = (Inr (), d)"
    "d = c\<lparr>mach := (mach c)\<lparr>mem := mem (mach d), io_log := io_log (mach c) @ irq_events (of_nat vec)\<rparr>\<rparr>"
    "stacked (rsp (gpr c) AND NOT 15) 184 (context_of c) (mem (mach c)) (mem (mach d))"
    using irq_run [OF assms] by blast
  then show ?thesis by (intro exI [of _ "mem (mach d)"]) (simp add: stacked_def)
qed

theorem interrupt_transparent_witness:
  "\<exists>d. interrupt sample_symbols sample_compiled 33 0 sample_cpu = (Inr (), d) \<and> gpr d = gpr sample_cpu
     \<and> io_log (mach d) = [Inb 0x60, Outb 0x20 0x20]"
proof -
  from interrupt_transparent [OF sample_entry _ sample_flags, of 33 0] show ?thesis
    by (auto simp: irq_events_def sample_cpu_def boot_machine_def)
qed

lemma split_bits: "(x AND NOT w) + (x AND w) = x" for x w :: u64
proof -
  have "(x AND NOT w) AND (x AND w) = 0" by (intro bit_word_eqI) (auto simp: bit_simps)
  then have "(x AND NOT w) + (x AND w) = (x AND NOT w) OR (x AND w)" by (simp add: disjunctive_add_eq_or)
  then show ?thesis by (auto intro!: bit_word_eqI simp: bit_simps)
qed

text \<open>C29: where an interrupt can be delivered, the interrupted context is written right below the stack pointer: one of the words within its
  128 bytes is the stack pointer itself. Code compiled to keep variables there, as the calling
  convention allows a function that calls no other and the build does not forbid, loses them.\<close>

theorem interrupt_overwrites_red_zone:
  assumes "entry_ready F e k vec c" "32 \<le> vec" "\<not> bit (flags c) 9"
  shows "\<exists>d a. interrupt e k vec err c = (Inr (), d) \<and> rsp (gpr d) = rsp (gpr c)
     \<and> 8 \<le> unat (rsp (gpr c) - a) \<and> unat (rsp (gpr c) - a) \<le> 128
     \<and> pread64 (mem (mach d)) (a - KERNEL_BASE) = rsp (gpr c)"
proof -
  let ?r = "rsp (gpr c)" and ?a = "(rsp (gpr c) AND NOT 15) - 16"
  obtain d where d: "interrupt e k vec err c = (Inr (), d)"
    "d = c\<lparr>mach := (mach c)\<lparr>mem := mem (mach d), io_log := io_log (mach c) @ irq_events (of_nat vec)\<rparr>\<rparr>"
    "stacked (?r AND NOT 15) 184 (context_of c) (mem (mach c)) (mem (mach d))"
    using irq_run [OF assms] by blast
  have "gpr d = gpr c" by (subst d(2)) simp
  moreover have "pread64 (mem (mach d)) (?a - KERNEL_BASE) = ?r"
    using d(3) unfolding stacked_def by (auto simp: context_of_def algebra_simps dest: spec [where x = 3])
  moreover have "(?r AND NOT 15) + (?r AND 15) = ?r" by (rule split_bits)
  then have e: "?r - ?a = (?r AND 15) + 16" by (simp add: algebra_simps)
  have "unat (?r AND 15) \<le> 15" using word_and_le1 [of ?r 15] by (simp add: word_le_nat_alt)
  then have "unat (?r - ?a) = unat (?r AND 15) + 16" unfolding e by (subst unat_add_nowrap) simp_all
  ultimately show ?thesis using d(1) \<open>unat (?r AND 15) \<le> 15\<close> by (intro exI [of _ d] exI [of _ ?a]) simp
qed

theorem interrupt_overwrites_red_zone_witness:
  "\<exists>d a. interrupt sample_symbols sample_compiled 32 0 sample_cpu = (Inr (), d)
     \<and> unat (0xFFFFFFFF80020F00 - a) \<le> 128 \<and> pread64 (mem (mach d)) (a - KERNEL_BASE) = 0xFFFFFFFF80020F00"
proof -
  from interrupt_overwrites_red_zone [OF sample_entry _ sample_flags, of 32 0] show ?thesis
    by (auto simp: sample_cpu_def)
qed

text \<open>A multiple of 16 less 184 leaves 8.\<close>

lemma frame_alignment: "((x AND NOT 15) - 184) AND 15 = (8 :: u64)" for x :: u64
proof -
  have m: "(15 :: u64) = mask 4" by (simp add: mask_eq_exp_minus_1)
  have y: "x AND NOT 15 = push_bit 4 (drop_bit 4 x)"
    unfolding m by (auto intro!: bit_word_eqI simp: bit_simps)
  let ?q = "push_bit 4 (drop_bit 4 x - 12)"
  have w: "push_bit 4 q AND w = 0" "(push_bit 4 q OR w) AND mask 4 = w" if "\<And>n. bit w n \<longleftrightarrow> n = 3" for q w :: u64
    by (rule bit_word_eqI; simp add: bit_and_iff bit_or_iff bit_push_bit_iff bit_mask_iff that; linarith?)+
  have b: "bit (8 :: u64) n \<longleftrightarrow> n = 3" for n
    using bit_push_bit_iff [of 3 "1 :: u64" n] by (auto simp: bit_1_iff)
  have "(x AND NOT 15) - 184 = ?q + 8" unfolding y by (simp add: push_bit_eq_mult algebra_simps)
  also have "\<dots> = ?q OR 8" using disjunctive_add_eq_or [OF w(1) [of 8, OF b]] .
  finally show ?thesis using w(2) [of 8, OF b] unfolding m by simp
qed

text \<open>C20: every exception in ring 0, with or without an error code of the processor, where the gate and the
  segments can be fetched, ends in the report of
  its own number and name, with interrupts off; the C handler is entered on a stack aligned as the
  calling convention demands. Memory is unchanged but for the two rows of the report and the stack
  frame.\<close>

theorem exception_reported:
  assumes "entry_ready F e k vec c" "vec < 32" "off_tables F 0xB8000 4000"
  shows "\<exists>d. interrupt e k vec err c = (Inl Halt, d) \<and> \<not> if_flag (mach d) \<and> rsp (gpr d) AND 15 = 8
     \<and> text_at (mem (mach d)) 811 (text_cells 0x0C (exception_names ! vec))
     \<and> text_at (mem (mach d)) 886 (text_cells 0x0F (hex_string (of_nat vec)))
     \<and> (\<forall>x. 320 \<le> unat (x - 0xB8640) \<and> 184 \<le> unat (x - ((rsp (gpr c) AND NOT 15) - 184 - KERNEL_BASE))
          \<longrightarrow> mem (mach d) x = mem (mach c) x)"
proof -
  let ?n = "of_nat vec :: u64"
  obtain d m where d: "interrupt e k vec err c = (Inl Halt, d)" "rsp (gpr d) = (rsp (gpr c) AND NOT 15) - 184"
    "mach d = (mach c)\<lparr>mem := put_texts (exception_report ?n) m, if_flag := False\<rparr>"
    "stacked (rsp (gpr c) AND NOT 15) 184 (context_of c) (mem (mach c)) m"
    using exception_run [OF assms] by blast
  have v: "unat ?n = vec" "?n < 32" using assms(2) by (simp_all add: word_less_nat_alt)
  have "text_at (put_texts (exception_report ?n) m) (fst u) (snd u)" if "u \<in> set (exception_report ?n)" for u
    by (rule texts_shown [OF report_fits(1) that])
  note shown = this [of "(811, text_cells 0x0C (exception_names ! vec))"] this [of "(886, text_cells 0x0F (hex_string ?n))"]
  have "put_texts (exception_report ?n) m x = mem (mach c) x"
    if "320 \<le> unat (x - 0xB8640)" "184 \<le> unat (x - ((rsp (gpr c) AND NOT 15) - 184 - KERNEL_BASE))" for x
    using put_texts_outside [of 160 x 800, OF _ report_fits(2)] that d(4)
    by (simp add: cell_addr_def stacked_def agree_out_def)
  moreover have "rsp (gpr d) AND 15 = 8" unfolding d(2) by (rule frame_alignment)
  ultimately show ?thesis
    using d(1,3) shown v by (intro exI [of _ d]) (simp add: exception_report_def)
qed

theorem exception_reported_witness:
  "\<exists>d. interrupt sample_symbols sample_compiled 14 2 sample_cpu = (Inl Halt, d)
     \<and> text_at (mem (mach d)) 811 (text_cells 0x0C ''Page Fault'')"
proof -
  have "exception_names ! 14 = ''Page Fault''" by (simp add: exception_names_def)
  with exception_reported [OF sample_entry _ sample_screen, of 14 2] show ?thesis by auto
qed

text \<open>The bytes of an aligned word lie in one page.\<close>

lemma unat_and_7: "unat (x AND 7) = unat x mod 8" for x :: u64
proof -
  have "x AND 7 = take_bit 3 x" by (simp add: take_bit_eq_mask mask_eq_exp_minus_1)
  then have "unat (x AND 7) = take_bit 3 (unat x)" by (simp only: unsigned_take_bit_eq)
  then show ?thesis by (simp add: take_bit_eq_mod)
qed

lemma and_7_sub: "x AND 7 = 0 \<Longrightarrow> (x - 8) AND 7 = 0" for x :: u64
proof -
  assume "x AND 7 = 0"
  then have m: "unat x mod 8 = 0" using unat_and_7 [of x] by simp
  have "unat (x - 8) mod 8 = 0"
  proof (cases "8 \<le> unat x")
    case True
    then show ?thesis using m by (simp add: unat_sub_if_size word_size mod_eq_0_iff_dvd dvd_diff_nat)
  next
    case False
    then have "unat x = 0" using m by simp
    then show ?thesis by (simp add: unat_eq_0)
  qed
  then show ?thesis by (simp add: word_unat_eq_iff unat_and_7)
qed

lemma translate_word:
  assumes "translate s a = Inr p" "a AND 7 = 0"
  shows "mapped s a 8 p"
  unfolding mapped_def
proof (intro allI impI)
  fix i :: nat assume i: "i < 8"
  have "unat a mod 8 = 0"
    using assms(2) unat_and_7 [of a] by simp
  then obtain q where q: "unat a = 8 * q" by (auto elim: dvdE)
  have u: "unat (a + of_nat i) = 8 * q + i"
    using q i unsigned_less [of a, where 'a = nat] by (subst unat_add_of_nat) auto
  have d: "drop_bit (3 + n) (a + of_nat i) = drop_bit (3 + n) a" for n
  proof -
    have "(8 * q + i) div 2 ^ (3 + n) = 8 * q div 2 ^ (3 + n)"
      unfolding power_add div_mult2_eq using i by simp
    then show ?thesis unfolding word_unat_eq_iff unat_drop_bit_eq u q by (simp add: drop_bit_eq_div)
  qed
  have ix: "pml4_index (a + of_nat i) = pml4_index a" "pdpt_index (a + of_nat i) = pdpt_index a"
    "pd_index (a + of_nat i) = pd_index a" "pt_index (a + of_nat i) = pt_index a" "canonical (a + of_nat i) = canonical a"
    using d [of 36] d [of 27] d [of 18] d [of 9] d [of 44]
    by (simp_all add: pml4_index_def pdpt_index_def pd_index_def pt_index_def canonical_def)
  have "(a + of_nat i) AND 0xFFF = (a AND 0xFFF) + of_nat i"
  proof -
    have e: "(8 * q + i) mod 4096 = 8 * q mod 4096 + i"
    proof -
      have "8 * q mod 4096 = 8 * (q mod 512)" by (simp add: mult_mod_right)
      moreover have "q mod 512 < 512" by simp
      ultimately have "8 * q mod 4096 + i < 4096" using i by linarith
      then show ?thesis by (metis mod_add_left_eq mod_less)
    qed
    have "8 * q mod 4096 < 4096" by simp
    then have "8 * q mod 4096 + i < 4104" using i by linarith
    moreover have "(4104 :: nat) < 2 ^ 64" by simp
    ultimately have "8 * q mod 4096 + i < 2 ^ 64" by (rule less_trans)
    with e show ?thesis by (simp add: word_unat_eq_iff unat_and_fff u q unat_add_of_nat)
  qed
  then show "translate s (a + of_nat i) = Inr (p + of_nat i)"
    using assms(1) by (auto simp: translate_def mmu_walk_def ix split: option.splits if_splits)
qed

text \<open>C30: the system call entry runs on the stack of its caller, whichever it is. Where the word below an
  aligned stack pointer is mapped, to a frame off the tables of the kernel window, the return address is written
  there, the message is shown and the processor halts, so that the \<open>sysret\<close> behind the call is never reached;
  where it is not mapped, the entry faults before anything is shown.\<close>

theorem syscall_entry_halts:
  assumes "window F (mach c)" "off_tables F 0xB8000 4000" "rsp (gpr c) AND 7 = 0"
  shows "case translate (mach c) (rsp (gpr c) - 8) of
      Inl fault \<Rightarrow> exec_all k syscall_entry c = (Inl fault, c)
    | Inr p \<Rightarrow> off_tables F p 8 \<longrightarrow> (\<exists>d. exec_all k syscall_entry c = (Inl Halt, d)
        \<and> text_at (mem (mach d)) 0 (text_cells 0x0F syscall_message) \<and> rsp (gpr d) = rsp (gpr c) - 8
        \<and> (\<forall>x. 44 \<le> unat (x - 0xB8000) \<longrightarrow> mem (mach d) x = pwrite64 (mem (mach c)) p (return_to k) x))"
proof (cases "translate (mach c) (rsp (gpr c) - 8)")
  case (Inl fault)
  then have "store64 (rsp (gpr c) - 8) (return_to k) (mach c) = (Inl fault, mach c)"
    by (simp add: store64_def store_def numeral_eq_Suc)
  then show ?thesis by (simp add: Inl syscall_entry_def call_def push_def cpu_step)
next
  case (Inr p)
  have "(rsp (gpr c) - 8) AND 7 = 0" using assms(3) by (rule and_7_sub)
  note m = translate_word [OF Inr this]
  let ?m = "pwrite64 (mem (mach c)) p (return_to k)" and ?s = "\<lambda>m. (mach c)\<lparr>mem := m\<rparr>"
  have "store64 (rsp (gpr c) - 8) (return_to k) (mach c) = (Inr (), ?s ?m)"
    using store_mapped [of "mach c" "rsp (gpr c) - 8" "le_bytes 8 (return_to k)" p] m by (simp add: store64_def pwrite64_def)
  then have push: "push (return_to k) c = (Inr (), move_rsp (- 8) (c\<lparr>mach := ?s ?m\<rparr>))" by (simp add: push_def cpu_step move_rsp_def)
  have "\<exists>d. exec_all k syscall_entry c = (Inl Halt, d)
        \<and> text_at (mem (mach d)) 0 (text_cells 0x0F syscall_message) \<and> rsp (gpr d) = rsp (gpr c) - 8
        \<and> (\<forall>x. 44 \<le> unat (x - 0xB8000) \<longrightarrow> mem (mach d) x = ?m x)" if off: "off_tables F p 8"
  proof -
    have "window F (?s ?m)" using kmap_pwrite64 [OF assms(1) off] by simp
    from syscall_handler_prints [OF this assms(2)] obtain t where
      t: "syscall_handler (?s ?m) = (Inl Halt, t)" "text_at (mem t) 0 (text_cells 0x0F syscall_message)"
        "\<forall>x. 44 \<le> unat (x - 0xB8000) \<longrightarrow> mem t x = ?m x" by auto
    let ?d = "(move_rsp (- 8) (c\<lparr>mach := ?s ?m\<rparr>))\<lparr>mach := t\<rparr>"
    have "exec_all k syscall_entry c = (Inl Halt, ?d)"
      using push t(1) by (simp add: syscall_entry_def call_def cpu_step move_rsp_def)
    then show ?thesis using t(2,3) by (intro exI [of _ ?d]) (simp add: move_rsp_def)
  qed
  then show ?thesis by (simp add: Inr)
qed

theorem syscall_entry_halts_witness:
  "\<exists>d. exec_all sample_compiled syscall_entry sample_cpu = (Inl Halt, d)
     \<and> text_at (mem (mach d)) 0 (text_cells 0x0F ''syscall has occured :O'')"
proof -
  have w: "window (pool_frames 0x1000) (mach sample_cpu)" using sample_entry [of 0] by (simp add: entry_ready_def)
  have "translate (mach sample_cpu) (rsp (gpr sample_cpu) - 8) = Inr 0x20EF8"
    using kwin_translate [OF w, of "rsp (gpr sample_cpu) - 8"] by (simp add: sample_cpu_def kconst)
  moreover have "off_tables (pool_frames 0x1000) 0x20EF8 8" by (rule pool_off_tables) simp_all
  moreover have "rsp (gpr sample_cpu) AND 7 = 0" by (simp add: sample_cpu_def)
  ultimately show ?thesis
    using syscall_entry_halts [OF w sample_screen, of sample_compiled] unfolding syscall_message_def by auto
qed

end
