(* ===== verification/Interrupt_Reset.thy ===== *)
theory Interrupt_Reset
  imports Interrupt_Stubs
begin

text \<open>
  Interrupts with the page tables of the kernel. The descriptor table of the boot loader lies in its data
  below \<open>0x8000\<close>, and no code loads another; the tables that \<open>paging_init\<close> makes map the window only. So the
  code segment of a gate cannot be read, nor that of the gate of the page fault, nor that of the double
  fault: the first interrupt or exception after \<open>paging_init\<close> resets the machine.
\<close>

section \<open>Delivery without the descriptors\<close>

text \<open>The gates can be fetched, the code segment they name cannot.\<close>

definition no_descriptors :: "kframes \<Rightarrow> isr_symbols \<Rightarrow> compiled \<Rightarrow> cpu \<Rightarrow> bool" where
  "no_descriptors F e k c \<longleftrightarrow>
     window F (mach c) \<and> cs c AND 3 = 0 \<and> idtr (mach c) = \<lparr>limit = 4095, base = idt_address k\<rparr> \<and>
     in_win (idt_address k) 4096 \<and> length (idt (mach c)) = 256 \<and>
     (\<forall>vec<34. gate_ok (entry_point e vec) (idt (mach c) ! vec)) \<and> 0x1F \<le> unat (limit (gdtr c)) \<and>
     translate (mach c) (base (gdtr c) + 0x18) = Inl (PageFault (base (gdtr c) + 0x18))"

lemma deliver_faults:
  assumes "no_descriptors F e k c" "vec < 34"
  shows "deliver k vec err c = (Inl (PageFault (base (gdtr c) + 0x18)), c)"
proof -
  note r = assms(1) [unfolded no_descriptors_def]
  have g: "gate_ok (entry_point e vec) (idt (mach c) ! vec)" using r assms(2) by blast
  have "in_win (idt_address k + of_nat (16 * vec)) 16" by (rule in_win_sub [of _ 4096]) (use r assms(2) in simp_all)
  then have f: "fetch_gate k vec c = (Inr (idt (mach c) ! vec), c)"
    using kwin_load [of F "mach c" "KERNEL_BASE + kf_pml4 F"] r assms(2) by (simp add: fetch_gate_def cpu_step)
  have o: "descriptor_offset 0x18 = 0x18" "(0x18 :: u16) AND 0xFFFC \<noteq> 0" "\<not> bit (0x18 :: u16) 2" by code_simp+
  have "code_segment (gdtr c) 0x18 (mach c) = (Inl (PageFault (base (gdtr c) + 0x18)), mach c)"
    by (rule code_segment_unmapped) (use r o in simp_all)
  then show ?thesis using r f g by (simp add: deliver_def cpu_step gate_ok_def)
qed

lemma interrupt_resets:
  assumes "no_descriptors F e k c" "vec < 34"
  shows "interrupt e k vec err c = (Inl Shutdown, c)"
proof -
  note d = deliver_faults [OF assms(1)]
  have 8: "deliver_event k 8 err c = (Inl Shutdown, c)" for err
    by (rule deliver_event_fault(2) [OF d]) (simp_all add: next_exception_def)
  have 14: "deliver_event k 14 err c = (Inl Shutdown, c)" for err
    using deliver_event_fault(1) [OF d [of 14], where v = 8 and code = 0] 8 by (simp add: next_exception_def)
  have "deliver_event k vec err c = (Inl Shutdown, c)"
  proof (cases "vec = 8 \<or> vec = 14")
    case False
    then show ?thesis using deliver_event_fault(1) [OF d [OF assms(2)], where v = 14 and code = 0] 14 by (simp add: next_exception_def)
  qed (use 8 14 in blast)
  then show ?thesis by (simp add: interrupt_def then_step_def)
qed

section \<open>Properties\<close>

text \<open>C27: after \<open>idt_init\<close> and \<open>paging_init\<close>, with the descriptor table in the first mebibyte, every interrupt
  and every exception of the 34 with a handler shuts the processor down before anything is pushed. Interrupts
  have been on since \<open>idt_init\<close>.\<close>

theorem interrupt_after_paging_resets:
  assumes "idt_init e (idt_address k) r = (Inr (), s)" "length (idt r) = 256" "in_win (idt_address k) 4096"
    and "boot_map s P 0x4000" "next_free s = KERNEL_BASE + P" "page_aligned P" "unat P + 0x4000 < 0x1FF000"
    and "paging_init s = (Inr (), mach c)"
    and "cs c AND 3 = 0" "0x1F \<le> unat (limit (gdtr c))" "unat (base (gdtr c)) < 0x100000" "vec < 34"
  shows "if_flag (mach c) \<and> interrupt e k vec err c = (Inl Shutdown, c)"
proof -
  have s: "idt s = put_gates (idt r) (all_gates e)" "idtr s = \<lparr>limit = 4095, base = idt_address k\<rparr>" "if_flag s"
    using assms(1) by (auto simp: idt_init_run)
  obtain t where t: "paging_init s = (Inr (), t)" "words_are P (mem t) (kernel_tables P)"
      "t = s\<lparr>mem := mem t, cr3 := P, pml4t := KERNEL_BASE + P, next_free := KERNEL_BASE + P + 0x4000\<rparr>"
    using paging_init_run [OF assms(4,5,7)] by blast
  have m: "mach c = t" using t(1) assms(8) by simp
  have f: "idt t = idt s" "idtr t = idtr s" "if_flag t = if_flag s" "cr3 t = P" by (subst t(3), simp)+
  let ?a = "base (gdtr c) + 0x18"
  have u: "unat ?a < 0x200000" using assms(11) unat_add_of_nat [of "base (gdtr c)" "0x18"] by simp
  then have "unat (drop_bit 47 ?a) = 0" unfolding unat_drop_bit_eq by (simp add: drop_bit_eq_div)
  then have "canonical ?a" by (simp add: canonical_def unat_eq_0)
  moreover have "\<not> unat (?a - KERNEL_BASE) < 0x200000" using u assms(11) by (simp add: kconst unat_sub_if_size word_size)
  ultimately have "translate t ?a = Inl (PageFault ?a)"
    using tables_translate [OF t(2) assms(6,7) f(4)] by simp
  moreover have "window (pool_frames P) t"
    using tables_kmap [OF t(2) assms(6,7)] f(4) by (simp add: pool_frames_def)
  moreover have "gate_ok (entry_point e v) (idt t ! v)" if "v < 34" for v
    using idt_gates(1) [OF assms(2) that] by (simp add: f s make_gate_ok)
  ultimately have "no_descriptors (pool_frames P) e k c"
    using assms(2,3,9,10) by (simp add: no_descriptors_def m f s)
  from interrupt_resets [OF this assms(12)] show ?thesis by (simp add: m f s)
qed

text \<open>C28: what becomes of the page fault in which \<open>kernel_main\<close> ends. From every state the boot loader can leave,
  the run ends in a page fault, and the processor that delivers it, or anything else, in the state it is
  raised in shuts down: the machine resets before the first instruction of the user program.\<close>

theorem kernel_main_resets:
  assumes "boot_ok i mmap n s" "frame_place (entry_place i)" "kernel_main i mmap n s = (r, mach c)"
    and "length (idt s) = 256" "idt_addr i = idt_address k" "in_win (idt_address k) 4096"
    and "cs c AND 3 = 0" "0x1F \<le> unat (limit (gdtr c))" "unat (base (gdtr c)) < 0x100000"
  shows "(\<exists>a. r = Inl (PageFault a)) \<and> (\<forall>vec<34. \<forall>err. interrupt (symbols i) k vec err c = (Inl Shutdown, c))"
proof -
  obtain F C t where t: "kernel_main i mmap n s = (Inl (after_switch (entry_place i) t), t)" "vm_inv F t" "cr3 t = C" "kf_root F = C"
     "program_shown user_program_elf (\<lambda>_. None) (umem (mem t) C)"
     "idt t = put_gates (idt s) (all_gates (symbols i))" "idtr t = \<lparr>limit = 4095, base = idt_addr i\<rparr>"
    using kernel_main_run [OF assms(1)] by blast
  have m: "mach c = t" using t(1) assms(3) by simp
  have r: "\<exists>a. r = Inl (PageFault a)"
    using kernel_main_reload [OF assms(1,2) t(1)] t(3,5) assms(3) by simp
  let ?a = "base (gdtr c) + 0x18"
  have u: "unat ?a < 0x200000" using assms(9) unat_add_of_nat [of "base (gdtr c)" "0x18"] by simp
  then have ua: "user_addr ?a" by (simp add: user_addr_def)
  have "page_of ?a < 0x200" using u by (simp add: less_mult_imp_div_less)
  then have "umem (mem t) C ?a = None" using user_program_seen(3) [OF t(5)] by simp
  then have "mmu_walk (mem t) (cr3 t) ?a = None" using ua by (simp add: umem_def t(3))
  then have "translate t ?a = Inl (PageFault ?a)" using user_addr_path(3) [OF ua] by (simp add: translate_def)
  moreover have "window F t" using vm_invD(3) [OF t(2)] by (rule kwin_window)
  moreover have "gate_ok (entry_point (symbols i) v) (idt t ! v)" if "v < 34" for v
    using idt_gates(1) [OF assms(4) that] by (simp add: t(6) make_gate_ok)
  ultimately have "no_descriptors F (symbols i) k c"
    using assms(4-8) by (simp add: no_descriptors_def m t(6,7))
  with r show ?thesis using interrupt_resets by blast
qed

text \<open>Concrete states: the boot state of the theory on the memory managers, and the sample memory of the boot
  loader.\<close>

definition paged_cpu :: cpu where
  "paged_cpu = sample_cpu\<lparr>mach := snd (paging_init (snd (idt_init sample_symbols (idt_address sample_compiled) boot_machine)))\<rparr>"

theorem interrupt_after_paging_resets_witness:
  "interrupt sample_symbols sample_compiled 32 0 paged_cpu = (Inl Shutdown, paged_cpu)"
proof -
  let ?s = "snd (idt_init sample_symbols (idt_address sample_compiled) boot_machine)"
  have i: "idt_init sample_symbols (idt_address sample_compiled) boot_machine = (Inr (), ?s)" by (simp add: idt_init_run)
  have f: "mem ?s = mem boot_machine" "cr3 ?s = cr3 boot_machine" "next_free ?s = next_free boot_machine" by (simp_all add: idt_init_run)
  have "boot_map boot_machine 0x27000 0x4000"
    by (rule boot_map_kwin [OF boot_kwin boot_off_tables]) simp_all
  then have b: "boot_map ?s 0x27000 0x4000" by (rule boot_map_cong [OF f(1,2)])
  have n: "next_free ?s = KERNEL_BASE + 0x27000" using f(3) by (simp add: boot_machine_def kconst)
  have "\<exists>t. paging_init ?s = (Inr (), t)" using paging_init_run [OF b n] by auto
  then have p: "paging_init ?s = (Inr (), mach paged_cpu)" by (auto simp: paged_cpu_def)
  show ?thesis
    by (rule interrupt_after_paging_resets [OF i _ _ b n _ _ p, THEN conjunct2])
      (simp_all add: boot_machine_def null_idt_def sample_compiled_def in_win_def kconst page_aligned_def paged_cpu_def sample_cpu_def)
qed

definition loaded_cpu :: cpu where
  "loaded_cpu = sample_cpu\<lparr>mach := snd (kernel_main sample_image 0xFFFFFFFF80021000 1 loader_machine)\<rparr>"

theorem kernel_main_resets_witness:
  "\<exists>a. fst (kernel_main sample_image 0xFFFFFFFF80021000 1 loader_machine) = Inl (PageFault a)
     \<and> interrupt sample_symbols sample_compiled 14 0 loaded_cpu = (Inl Shutdown, loaded_cpu)"
proof -
  have run: "kernel_main sample_image 0xFFFFFFFF80021000 1 loader_machine
      = (fst (kernel_main sample_image 0xFFFFFFFF80021000 1 loader_machine), mach loaded_cpu)"
    by (simp add: loaded_cpu_def)
  have "(\<exists>a. fst (kernel_main sample_image 0xFFFFFFFF80021000 1 loader_machine) = Inl (PageFault a))
     \<and> (\<forall>vec<34. \<forall>err. interrupt (symbols sample_image) sample_compiled vec err loaded_cpu = (Inl Shutdown, loaded_cpu))"
    by (rule kernel_main_resets [OF loader_boot_ok sample_place(1) run])
      (simp_all add: loader_machine_def boot_machine_def null_idt_def sample_image_def sample_compiled_def in_win_def kconst loaded_cpu_def sample_cpu_def)
  moreover have "symbols sample_image = sample_symbols" by (simp add: sample_image_def)
  ultimately show ?thesis by auto
qed

end
