(* ===== verification/Interrupt_Cycle.thy ===== *)
theory Interrupt_Cycle
  imports Interrupt_Stubs
begin

text \<open>
  The interrupt lines, the controllers, the gates, the stubs and the handlers together, from
  \<open>idt_init\<close> to \<open>paging_init\<close>, on the tables of the boot loader: a step relation in which the devices raise lines in any order, with the code that is
  interrupted in between left out. Every reachable state is the first one but for the log of port
  accesses and the bytes below the stack pointer, and in each the keyboard can interrupt again.
\<close>

section \<open>The lines raised by the devices\<close>

text \<open>A line that is masked, or raised while the processor does not accept interrupts, changes nothing.
  An open one is begun by the controllers, delivered as its vector, and the controllers see the port
  writes of the handler.\<close>

inductive serve :: "isr_symbols \<Rightarrow> compiled \<Rightarrow> cpu \<times> pic \<times> pic \<Rightarrow> cpu \<times> pic \<times> pic \<Rightarrow> bool"
  for e :: isr_symbols and k :: compiled where
  ignored: "line < 16 \<Longrightarrow> \<not> (if_flag (mach c) \<and> irq_open ps line) \<Longrightarrow> serve e k (c, ps) (c, ps)"
| served: "line < 16 \<Longrightarrow> if_flag (mach c) \<Longrightarrow> irq_open ps line \<Longrightarrow>
    interrupt e k (irq_vector ps line) 0 c = (Inr (), d) \<Longrightarrow>
    serve e k (c, ps) (d, pics_after (mach c) (mach d) (irq_begin line ps))"

inductive_cases serveE [elim]: "serve e k (c, ps) x"

text \<open>What all states of a run share with the first.\<close>

definition undisturbed :: "kframes \<Rightarrow> cpu \<Rightarrow> cpu \<Rightarrow> bool" where
  "undisturbed F c d \<longleftrightarrow>
     d = c\<lparr>mach := (mach c)\<lparr>mem := mem (mach d), io_log := io_log (mach d)\<rparr>\<rparr> \<and> window F (mach d) \<and>
     agree_out ((rsp (gpr c) AND NOT 15) - 184 - KERNEL_BASE) 184 (mem (mach c)) (mem (mach d))"

lemma undisturbed_fields:
  assumes "undisturbed F c d"
  shows "gpr d = gpr c" "rip d = rip c" "cs d = cs c" "ss d = ss c" "flags d = flags c" "gdtr d = gdtr c"
    "idt (mach d) = idt (mach c)" "idtr (mach d) = idtr (mach c)" "cr3 (mach d) = cr3 (mach c)"
    "if_flag (mach d) = if_flag (mach c)" "window F (mach d)"
proof -
  have d: "d = c\<lparr>mach := (mach c)\<lparr>mem := mem (mach d), io_log := io_log (mach d)\<rparr>\<rparr>" and k: "window F (mach d)"
    using assms unfolding undisturbed_def by blast+
  show "gpr d = gpr c" "rip d = rip c" "cs d = cs c" "ss d = ss c" "flags d = flags c" "gdtr d = gdtr c"
    "idt (mach d) = idt (mach c)" "idtr (mach d) = idtr (mach c)" "cr3 (mach d) = cr3 (mach c)"
    "if_flag (mach d) = if_flag (mach c)" by (subst d, simp)+
  show "window F (mach d)" by (rule k)
qed

lemma undisturbed_ready:
  assumes "entry_ready F e k vec c" "undisturbed F c d"
  shows "entry_ready F e k vec d"
proof -
  note f = undisturbed_fields [OF assms(2)] and r = assms(1) [unfolded entry_ready_def]
  have "agree_out ((rsp (gpr c) AND NOT 15) - of_nat 184 - KERNEL_BASE) 184 (mem (mach c)) (mem (mach d))"
    using assms(2) by (simp add: undisturbed_def)
  then have "segments_ok (rsp (gpr c) AND NOT 15) 184 (gdtr c) (cs c) (ss c) (mach d)"
    using segments_ok_step [OF _ _ f(9)] r by blast
  then show ?thesis using r f by (simp add: entry_ready_def)
qed

lemma undisturbed_trans:
  assumes "undisturbed F c d" "undisturbed F d x"
  shows "undisturbed F c x"
proof -
  have d: "d = c\<lparr>mach := (mach c)\<lparr>mem := mem (mach d), io_log := io_log (mach d)\<rparr>\<rparr>"
    and x: "x = d\<lparr>mach := (mach d)\<lparr>mem := mem (mach x), io_log := io_log (mach x)\<rparr>\<rparr>"
    using assms unfolding undisturbed_def by blast+
  have "d\<lparr>mach := (mach d)\<lparr>mem := m, io_log := l\<rparr>\<rparr> = c\<lparr>mach := (mach c)\<lparr>mem := m, io_log := l\<rparr>\<rparr>" for m l
    by (subst (1 2) d) simp
  then have "x = c\<lparr>mach := (mach c)\<lparr>mem := mem (mach x), io_log := io_log (mach x)\<rparr>\<rparr>" using x by metis
  moreover have "agree_out ((rsp (gpr c) AND NOT 15) - 184 - KERNEL_BASE) 184 (mem (mach c)) (mem (mach x))"
    using assms undisturbed_fields(1) [OF assms(1)] by (simp add: undisturbed_def agree_out_def)
  ultimately show ?thesis using undisturbed_fields(11) [OF assms(2)] unfolding undisturbed_def by blast
qed

lemma undisturbed_irq:
  assumes "entry_ready F e k vec c" "32 \<le> vec" "\<not> bit (flags c) 9" "interrupt e k vec err c = (Inr (), d)"
  shows "undisturbed F c d" "io_log (mach d) = io_log (mach c) @ irq_events (of_nat vec)"
proof -
  have d: "d = c\<lparr>mach := (mach c)\<lparr>mem := mem (mach d), io_log := io_log (mach c) @ irq_events (of_nat vec)\<rparr>\<rparr>"
    and s: "stacked (rsp (gpr c) AND NOT 15) 184 (context_of c) (mem (mach c)) (mem (mach d))" "window F (mach d)"
    using irq_run [OF assms(1-3), of err] assms(4) by auto
  show l: "io_log (mach d) = io_log (mach c) @ irq_events (of_nat vec)" by (subst d) simp
  show "undisturbed F c d" unfolding undisturbed_def l using d s by (simp add: stacked_def)
qed

section \<open>Every reachable state\<close>

lemma serve_run:
  assumes ready: "entry_ready F e k 33 c" and fl: "\<not> bit (flags c) 9"
    and open_line: "\<And>line. line < 16 \<Longrightarrow> irq_open ps line \<longleftrightarrow> line = 1" "irq_vector ps 1 = 33" "irq_allowed 1 ps"
    and run: "(serve e k)\<^sup>*\<^sup>* (c, ps) x"
  shows "snd x = ps \<and> undisturbed F c (fst x)"
  using run
proof (induction rule: rtranclp_induct)
  case base
  have "window F (mach c)" using ready by (simp add: entry_ready_def)
  then show ?case by (simp add: undisturbed_def agree_out_refl)
next
  case (step y z)
  then obtain d where y: "y = (d, ps)" and d: "undisturbed F c d" by (cases y) auto
  note r = undisturbed_ready [OF ready d] note f = undisturbed_fields [OF d]
  from step(2) [unfolded y] consider "z = (d, ps)" | line d' where "line < 16" "irq_open ps line"
      "interrupt e k (irq_vector ps line) 0 d = (Inr (), d')"
      "z = (d', pics_after (mach d) (mach d') (irq_begin line ps))" by auto
  then show ?case
  proof cases
    case (2 line d')
    then have "line = 1" using open_line(1) by blast
    with 2 have run: "interrupt e k 33 0 d = (Inr (), d')" using open_line(2) by simp
    have u: "undisturbed F d d'" "io_log (mach d') = io_log (mach d) @ irq_events 33"
      using undisturbed_irq [OF r _ _ run] fl f by simp_all
    have "pics_after (mach d) (mach d') (irq_begin 1 ps) = ps"
      using irq_end [of 1 ps] open_line(3) by (simp add: pics_after_def u(2))
    then show ?thesis using 2 \<open>line = 1\<close> undisturbed_trans [OF d u(1)] by simp
  qed (use d in simp)
qed

section \<open>The processor the boot loader leaves\<close>

text \<open>Its tables and descriptors, its segment registers, and a stack above its tables.\<close>

definition boot_cpu :: "cpu \<Rightarrow> machine \<Rightarrow> bool" where
  "boot_cpu c s \<longleftrightarrow> boot_tables (mem s) \<and> cr3 s = 0x1000 \<and> boot_segments (gdtr c) (mem s) \<and> cs c = 0x18 \<and> ss c = 0x10 \<and>
     0x90B8 \<le> unat ((rsp (gpr c) AND NOT 15) - KERNEL_BASE) \<and> unat ((rsp (gpr c) AND NOT 15) - KERNEL_BASE) \<le> 0x1FF000"

lemma boot_cpu_ready:
  assumes b: "boot_cpu c s" and i: "idt_init e (idt_address k) s = (Inr (), mach c)" "length (idt s) = 256"
    and d: "distinct (map snd (all_gates e))" "in_win (idt_address k) 4096" "vec < 34"
  shows "entry_ready (pool_frames 0x1000) e k vec c"
proof -
  define sp where "sp = rsp (gpr c) AND NOT 15"
  have m: "mach c = s\<lparr>idt := put_gates (idt s) (all_gates e), io_log := io_log s @ boot_events,
      idtp := \<lparr>limit = 4095, base = idt_address k\<rparr>, idtr := \<lparr>limit = 4095, base = idt_address k\<rparr>, if_flag := True\<rparr>"
    using i(1) by (simp add: idt_init_run)
  have t: "boot_tables (mem s)" "cr3 s = 0x1000" "boot_segments (gdtr c) (mem s)" "cs c = 0x18" "ss c = 0x10"
    "0x90B8 \<le> unat (sp - KERNEL_BASE)" "unat (sp - KERNEL_BASE) \<le> 0x1FF000"
    using b by (simp_all add: boot_cpu_def sp_def)
  have "window (pool_frames 0x1000) (mach c)"
    using boot_tables_kmap [OF t(1)] t(2) by (simp add: m pool_frames_def)
  moreover have "segments_ok sp 184 (gdtr c) (cs c) (ss c) (mach c)"
    unfolding t(4,5) by (rule boot_segments_ok) (use t in \<open>simp_all add: m\<close>)
  moreover have "stack_ok (pool_frames 0x1000) sp 184"
  proof -
    have e: "sp - 184 - KERNEL_BASE = sp - KERNEL_BASE - 184" by simp
    have u: "unat (sp - 184 - KERNEL_BASE) = unat (sp - KERNEL_BASE) - 184"
      unfolding e using t(6) by (simp add: unat_sub_if_size word_size)
    moreover have "off_tables (pool_frames 0x1000) (sp - 184 - KERNEL_BASE) 184"
      by (rule pool_off_tables) (use u t(6,7) in simp_all)
    ultimately show ?thesis using t(6,7) by (simp add: stack_ok_def in_win_def)
  qed
  moreover have "gate_ok (entry_point e vec) (idt (mach c) ! vec)"
    using idt_gates(1) [OF i(2) d(3)] by (simp add: m make_gate_ok)
  ultimately show ?thesis using d i(2) t(4) by (simp add: entry_ready_def sp_def) (simp add: m)
qed

section \<open>Properties\<close>

text \<open>C7: the kernel that the boot loader has entered calls \<open>idt_init\<close>. From then on, until it changes the page
  tables, whatever lines the devices raise and in whatever order, the interrupted code
  does not notice: in every reachable state the registers, the flags and the program counter are
  those of the first, the controllers serve nothing and are programmed as before, memory differs in
  the 184 bytes below the stack pointer only, and the next interrupt of the keyboard is served again.\<close>

theorem interrupts_served:
  assumes "idt_init e (idt_address k) s = (Inr (), mach c)" "length (idt s) = 256" "boot_cpu c s"
    and "distinct (map snd (all_gates e))" "in_win (idt_address k) 4096" "\<not> bit (flags c) 9"
    and "(serve e k)\<^sup>*\<^sup>* (c, pics_after s (mach c) pics) (d, ps)"
  shows "ps = pics_after s (mach c) pics
     \<and> d = c\<lparr>mach := (mach c)\<lparr>mem := mem (mach d), io_log := io_log (mach d)\<rparr>\<rparr>
     \<and> agree_out ((rsp (gpr c) AND NOT 15) - 184 - KERNEL_BASE) 184 (mem (mach c)) (mem (mach d))
     \<and> (\<exists>d'. serve e k (d, ps) (d', ps) \<and> io_log (mach d') = io_log (mach d) @ [Inb 0x60, Outb 0x20 0x20])"
proof -
  have ready: "entry_ready (pool_frames 0x1000) e k 33 c"
    by (rule boot_cpu_ready [OF assms(3,1,2,4,5)]) simp
  note lines = lines_after_init [OF assms(1), where pics = pics]
  have v: "irq_vector (pics_after s (mach c) pics) 1 = 33" using lines(1) [of 1] by simp
  from serve_run [OF ready assms(6) lines(2) v lines(3) assms(7)]
  have ps: "ps = pics_after s (mach c) pics" and d: "undisturbed (pool_frames 0x1000) c d" by simp_all
  note r = undisturbed_ready [OF ready d] note f = undisturbed_fields [OF d]
  have fl: "\<not> bit (flags d) 9" using assms(6) f by simp
  obtain d' where d': "interrupt e k 33 0 d = (Inr (), d')" using irq_run [OF r _ fl, of 0] by auto
  have u: "io_log (mach d') = io_log (mach d) @ irq_events 33"
    using undisturbed_irq(2) [OF r _ fl d'] by simp
  have on: "if_flag (mach d)" unfolding f using assms(1) by (auto simp: idt_init_run dest: arg_cong [of _ _ if_flag])
  have "pics_after (mach d) (mach d') (irq_begin 1 ps) = ps"
    using irq_end [OF _ lines(3), of 1] by (simp add: pics_after_def [of "mach d"] u ps)
  then have "serve e k (d, ps) (d', ps)"
    using served [of 1 d ps e k d'] on lines(2) [of 1] v d' by (simp add: ps)
  then show ?thesis using ps d u unfolding undisturbed_def by (auto simp: irq_events_def)
qed

text \<open>The machine before \<open>idt_init\<close>, with the interrupt table and its register unset.\<close>

definition early_machine :: machine where
  "early_machine = (mach sample_cpu)\<lparr>idt := null_idt, idtr := \<lparr>limit = 0x3FF, base = 0\<rparr>, if_flag := False\<rparr>"

definition early_cpu :: cpu where
  "early_cpu = sample_cpu\<lparr>mach := snd (idt_init sample_symbols (idt_address sample_compiled) early_machine)\<rparr>"

lemma early_facts:
  "idt_init sample_symbols (idt_address sample_compiled) early_machine = (Inr (), mach early_cpu)"
  "length (idt early_machine) = 256" "boot_cpu early_cpu early_machine" "distinct (map snd (all_gates sample_symbols))"
  "in_win (idt_address sample_compiled) 4096" "\<not> bit (flags early_cpu) 9"
proof -
  show "idt_init sample_symbols (idt_address sample_compiled) early_machine = (Inr (), mach early_cpu)"
    by (simp add: early_cpu_def idt_init_run)
  show "length (idt early_machine) = 256" by (simp add: early_machine_def null_idt_def)
  show "boot_cpu early_cpu early_machine"
    using sample_tables by (simp add: boot_cpu_def early_cpu_def early_machine_def sample_cpu_def kconst)
  show "distinct (map snd (all_gates sample_symbols))" "in_win (idt_address sample_compiled) 4096"
    using sample_entry [of 0] by (simp_all add: entry_ready_def)
  show "\<not> bit (flags early_cpu) 9" using sample_flags by (simp add: early_cpu_def)
qed

theorem interrupts_served_witness:
  "\<exists>d'. serve sample_symbols sample_compiled
      (early_cpu, pics_after early_machine (mach early_cpu) (idle_pic, idle_pic))
      (d', pics_after early_machine (mach early_cpu) (idle_pic, idle_pic))"
  using interrupts_served [OF early_facts rtranclp.rtrancl_refl, of "(idle_pic, idle_pic)"] by blast

end
