(* ===== verification/Boot_Disk.thy ===== *)
theory Boot_Disk
  imports Vmm
begin

text \<open>
  The boot sector, \<open>start\<close> of \<open>bootloader.asm\<close> and \<open>ToCHS\<close>: where the kernel's file lies on a disk with a
  FAT file system, and reading it. The BIOS is a parameter, its disk service and its memory map service as
  functions of the registers they are given. The variables of the boot loader are fields beside those of the
  machine, the fields of the boot sector are read from memory. Segment registers are 0 where the code assumes
  it, and the stacks are not modelled.
\<close>

section \<open>The BIOS and the state\<close>

text \<open>What \<open>int 0x15\<close> with \<open>EAX = 0xE820\<close> leaves for a value of \<open>EBX\<close>: the carry flag, \<open>EAX\<close>, \<open>EBX\<close> and the
  bytes stored at \<open>ES:DI\<close>. What \<open>int 0x13\<close> with \<open>AH = 2\<close> reads for \<open>AL\<close>, \<open>CH\<close>, \<open>CL\<close>, \<open>DH\<close> and \<open>DL\<close>; nothing
  with the carry flag set.\<close>

record e820_reply =
  reply_carry :: bool
  reply_eax :: u32
  reply_ebx :: u32
  reply_bytes :: "u8 list"

record bios =
  e820 :: "u32 \<Rightarrow> e820_reply"
  read_sectors :: "u8 \<Rightarrow> u8 \<Rightarrow> u8 \<Rightarrow> u8 \<Rightarrow> u8 \<Rightarrow> u8 list option"

record loader = machine +
  reg_ebx :: u32
  boot_drive :: u8
  root_dir_start :: u16
  root_dir_size :: u16
  data_sector_start :: u16
  head_var :: u16
  track_var :: u16
  sector_var :: u16
  mmap_entry_count :: u64

datatype boot_stop = Disk_Error | Divide_Error | Map_Endless

definition read16 :: "pmem \<Rightarrow> u64 \<Rightarrow> u16" where
  "read16 m p = le_word (pread m p 2)"

section \<open>Where the kernel is on the disk\<close>

text \<open>\<open>ToCHS\<close>: the sector count per track doubled, two divisions.\<close>

definition ToCHS :: "u16 \<Rightarrow> loader \<Rightarrow> boot_stop + loader" where
  "ToCHS ax s =
     (let spt = read16 (mem s) 0x7C18; bx = push_bit 1 spt
      in if bx = 0 then Inl Divide_Error
         else let si = ax div bx; ax = ax mod bx
         in if spt = 0 then Inl Divide_Error
            else Inr (s\<lparr>sector_var := ax mod spt + 1, head_var := ax div spt, track_var := si\<rparr>))"

text \<open>The size and the start of the root directory and the first data sector. The product of the
  number of tables and their size takes the upper half of \<open>AX\<close> from the division before.\<close>

definition root_layout :: "loader \<Rightarrow> boot_stop + loader" where
  "root_layout s =
     (let bps = read16 (mem s) 0x7C0B; ax = read16 (mem s) 0x7C11 * 32 + (bps - 1)
      in if bps = 0 then Inl Divide_Error
         else let size = ax div bps;
                  al = mem s 0x7C10;
                  ax = ((size AND 0xFF00) OR ucast al) * read16 (mem s) 0x7C16 + read16 (mem s) 0x7C0E
              in Inr (s\<lparr>root_dir_size := size, root_dir_start := ax, data_sector_start := ax + size\<rparr>))"

text \<open>One call of \<open>int 0x13\<close> with the head, track and sector of \<open>ToCHS\<close>, and the one before it.\<close>

definition read_disk :: "bios \<Rightarrow> u8 \<Rightarrow> u8 \<Rightarrow> u8 \<Rightarrow> u8 \<Rightarrow> u64 \<Rightarrow> loader \<Rightarrow> boot_stop + loader" where
  "read_disk b al ch cl dh dest s =
     (case read_sectors b al ch cl dh (boot_drive s) of
        None \<Rightarrow> Inl Disk_Error
      | Some bs \<Rightarrow> Inr (s\<lparr>mem := pwrite (mem s) dest bs\<rparr>))"

definition read_chs :: "bios \<Rightarrow> u8 \<Rightarrow> u64 \<Rightarrow> loader \<Rightarrow> boot_stop + loader" where
  "read_chs b al dest s = read_disk b al (ucast (track_var s)) (ucast (sector_var s)) (ucast (head_var s)) dest s"

definition bind_sum :: "'e + 'a \<Rightarrow> ('a \<Rightarrow> 'e + 'b) \<Rightarrow> 'e + 'b" where
  "bind_sum r f = (case r of Inl e \<Rightarrow> Inl e | Inr x \<Rightarrow> f x)"

lemma bind_sum_simps [simp]: "bind_sum (Inl e) f = Inl e" "bind_sum (Inr x) f = f x"
  by (simp_all add: bind_sum_def)

definition load_kernel :: "bios \<Rightarrow> u8 \<Rightarrow> loader \<Rightarrow> boot_stop + loader" where
  "load_kernel b dl s =
     bind_sum (read_disk b 1 0 2 0 0x7E00 (s\<lparr>boot_drive := dl\<rparr>)) (\<lambda>s.
     bind_sum (root_layout s) (\<lambda>s.
     bind_sum (ToCHS (root_dir_start s) s) (\<lambda>s.
     bind_sum (read_chs b 1 0x10000 s) (\<lambda>s.
     let ax = read16 (mem s) (0x10000 + 0x3A) - 2 + data_sector_start s in
     bind_sum (ToCHS ax s) (\<lambda>s.
     read_chs b 127 0x10000 s)))))"


section \<open>The disk and its file system\<close>

text \<open>A disk of sectors with two heads, as the BIOS serves it by cylinder, head and sector: each sector by
  itself. What it does with a request for more than the rest of a track is up to the BIOS.\<close>

definition lba_of :: "nat \<Rightarrow> u8 \<Rightarrow> u8 \<Rightarrow> u8 \<Rightarrow> nat" where
  "lba_of spt ch dh cl = (unat ch * 2 + unat dh) * spt + (unat cl - 1)"

definition at_sector :: "nat \<Rightarrow> nat \<Rightarrow> u8 \<Rightarrow> u8 \<Rightarrow> u8 \<Rightarrow> bool" where
  "at_sector spt l ch dh cl \<longleftrightarrow> lba_of spt ch dh cl = l \<and> 1 \<le> unat cl \<and> unat cl \<le> spt \<and> unat dh < 2"

definition serves_sectors :: "bios \<Rightarrow> u8 \<Rightarrow> nat \<Rightarrow> (nat \<Rightarrow> u8 list) \<Rightarrow> bool" where
  "serves_sectors b dl spt disk \<longleftrightarrow>
     (\<forall>n. length (disk n) = 512) \<and>
     (\<forall>l ch cl dh. at_sector spt l ch dh cl \<longrightarrow> read_sectors b 1 ch cl dh dl = Some (disk l))"

text \<open>The parameter block of a FAT volume, and the layout it means.\<close>

record fat =
  fat_reserved :: nat
  fat_count :: nat
  fat_roots :: nat
  fat_size :: nat
  fat_track :: nat
  fat_cluster :: nat

definition has_bpb :: "pmem \<Rightarrow> fat \<Rightarrow> bool" where
  "has_bpb m v \<longleftrightarrow>
     read16 m 0x7C0B = 512 \<and> unat (read16 m 0x7C0E) = fat_reserved v \<and> unat (m 0x7C0D) = fat_cluster v \<and> unat (m 0x7C10) = fat_count v \<and>
     unat (read16 m 0x7C11) = fat_roots v \<and> unat (read16 m 0x7C16) = fat_size v \<and> unat (read16 m 0x7C18) = fat_track v"

definition root_sector :: "fat \<Rightarrow> nat" where
  "root_sector v = fat_reserved v + fat_count v * fat_size v"

definition data_sector :: "fat \<Rightarrow> nat" where
  "data_sector v = root_sector v + (fat_roots v * 32 + 511) div 512"

text \<open>The first sector of a cluster, as the file system counts clusters.\<close>

definition cluster_sector :: "fat \<Rightarrow> nat \<Rightarrow> nat" where
  "cluster_sector v c = data_sector v + (c - 2) * fat_cluster v"

lemma read16_apart: "apart p (length bs) q 2 \<Longrightarrow> read16 (pwrite m p bs) q = read16 m q"
  by (simp add: read16_def pread_pwrite_apart)

lemma has_bpb_pwrite:
  assumes "0x7E00 \<le> unat p" "unat p + length bs \<le> 2 ^ 64"
  shows "has_bpb (pwrite m p bs) v = has_bpb m v"
proof -
  have a: "apart p (length bs) q n" if "unat q + n \<le> 0x7E00" "0 < n" for q n
    by (rule apart_sym, rule apart_le) (use that assms in simp_all)
  have "pwrite m p bs 0x7C10 = m 0x7C10" "pwrite m p bs 0x7C0D = m 0x7C0D"
    by (rule pwrite_outside, use apart_outside [OF a [of "0x7C10" 1], of 0] apart_outside [OF a [of "0x7C0D" 1], of 0] in simp)+
  then show ?thesis by (simp add: has_bpb_def read16_apart a)
qed

text \<open>The conversion is inverse to the numbering of the sectors.\<close>

lemma ToCHS_run:
  assumes spt: "unat (read16 (mem s) 0x7C18) = spt" "0 < spt" "spt \<le> 63" and ax: "unat ax < 512 * spt"
  shows "\<exists>c h k. ToCHS ax s = Inr (s\<lparr>sector_var := k, head_var := h, track_var := c\<rparr>)
     \<and> unat c < 256 \<and> unat h < 2 \<and> 1 \<le> unat k \<and> unat k \<le> spt \<and> (unat c * 2 + unat h) * spt + (unat k - 1) = unat ax"
proof -
  let ?w = "read16 (mem s) 0x7C18"
  have two: "unat (push_bit 1 ?w) = 2 * spt" using spt by (simp add: push_bit_eq_mult unat_word_ariths)
  then have nz: "push_bit 1 ?w \<noteq> 0" "?w \<noteq> 0" using spt by auto
  let ?c = "ax div push_bit 1 ?w" and ?r = "ax mod push_bit 1 ?w"
  have c: "unat ?c = unat ax div (2 * spt)" "unat ?r = unat ax mod (2 * spt)" by (simp_all only: two unat_div_distrib unat_mod_distrib)
  have h: "unat (?r div ?w) = unat ax mod (2 * spt) div spt" "unat (?r mod ?w) = unat ax mod (2 * spt) mod spt"
    by (simp_all only: unat_div_distrib unat_mod_distrib two spt(1))
  have b: "unat ?c < 256" "unat (?r div ?w) < 2" "unat (?r mod ?w) < spt"
    unfolding c h using ax spt(2) by (simp_all add: less_mult_imp_div_less)
  then have k: "unat (?r mod ?w + 1) = unat (?r mod ?w) + 1" using spt(3) by (simp add: unat_plus_if_size word_size)
  have "unat ax = unat ?c * (2 * spt) + unat ?r" unfolding c by (simp only: div_mult_mod_eq)
  also have "unat ?r = unat (?r div ?w) * spt + unat (?r mod ?w)" unfolding h c(2) by (simp only: div_mult_mod_eq)
  finally have "(unat ?c * 2 + unat (?r div ?w)) * spt + (unat (?r mod ?w + 1) - 1) = unat ax"
    unfolding k by (simp add: algebra_simps)
  moreover have "ToCHS ax s = Inr (s\<lparr>sector_var := ?r mod ?w + 1, head_var := ?r div ?w, track_var := ?c\<rparr>)"
    unfolding ToCHS_def Let_def using nz by (simp only: if_False)
  ultimately show ?thesis using b k by (intro exI [of _ ?c] exI [of _ "?r div ?w"] exI [of _ "?r mod ?w + 1"]) simp
qed

lemma of_unat: "unat w = n \<Longrightarrow> w = of_nat n" "unat w = n \<Longrightarrow> ucast w = (of_nat n :: 'b::len word)" for w :: "'a::len word"
  by auto

lemma root_layout_run:
  assumes "has_bpb (mem s) v" "fat_roots v * 32 + 511 < 0x10000" "data_sector v < 0x10000"
  shows "\<exists>z. root_layout s = Inr (s\<lparr>root_dir_size := z, root_dir_start := of_nat (root_sector v), data_sector_start := of_nat (data_sector v)\<rparr>)"
proof -
  note f = assms(1) [unfolded has_bpb_def]
  let ?ax = "read16 (mem s) 0x7C11 * 32 + (512 - 1)"
  have r: "read16 (mem s) 0x7C11 = of_nat (fat_roots v)" "read16 (mem s) 0x7C0E = of_nat (fat_reserved v)"
    "read16 (mem s) 0x7C16 = of_nat (fat_size v)" "ucast (mem s 0x7C10) = (of_nat (fat_count v) :: u16)"
    using f by (auto intro!: of_unat simp del: of_nat_unat)
  have "?ax = of_nat (fat_roots v * 32 + 511)" by (simp add: r)
  then have "unat ?ax = fat_roots v * 32 + 511" using assms(2) by (simp add: unat_of_nat del: of_nat_add of_nat_mult)
  then have z: "unat (?ax div 512) = (fat_roots v * 32 + 511) div 512" by (simp add: unat_div_distrib)
  then have "unat (?ax div 512) < 256" using assms(2) by (simp add: less_mult_imp_div_less)
  then have "\<not> bit (?ax div 512) k" if "8 \<le> k" for k using high_bits [of "?ax div 512" 8 k] that by auto
  then have "(?ax div 512) AND push_bit 8 0xFF = 0" by (intro bit_word_eqI) (auto simp only: bit_and_iff bit_push_bit_iff bit_0_eq bot_apply bot_bool_def)
  then have "(?ax div 512) AND 0xFF00 = 0" by simp
  moreover have "(512 :: u16) \<noteq> 0" by code_simp
  ultimately have "root_layout s = Inr (s\<lparr>root_dir_size := ?ax div 512, root_dir_start := of_nat (root_sector v),
      data_sector_start := of_nat (root_sector v) + ?ax div 512\<rparr>)"
    using f r unfolding root_layout_def root_sector_def Let_def by (simp only: if_False) (simp add: add.commute)
  moreover have "?ax div 512 = of_nat ((fat_roots v * 32 + 511) div 512)" by (simp add: z [symmetric])
  ultimately show ?thesis by (intro exI [of _ "?ax div 512"]) (simp add: data_sector_def)
qed

text \<open>Reading at a sector number.\<close>

lemma read_at:
  assumes "unat (read16 (mem s) 0x7C18) = spt" "0 < spt" "spt \<le> 63" "unat ax < 512 * spt"
  shows "\<exists>s' ch dh cl. ToCHS ax s = Inr s' \<and> (\<exists>c h k. s' = s\<lparr>sector_var := k, head_var := h, track_var := c\<rparr>)
     \<and> at_sector spt (unat ax) ch dh cl
     \<and> (\<forall>b al p. read_chs b al p s' = (case read_sectors b al ch cl dh (boot_drive s) of
           None \<Rightarrow> Inl Disk_Error | Some bs \<Rightarrow> Inr (s'\<lparr>mem := pwrite (mem s) p bs\<rparr>)))"
proof -
  obtain c h k where t: "ToCHS ax s = Inr (s\<lparr>sector_var := k, head_var := h, track_var := c\<rparr>)"
    and b: "unat c < 256" "unat h < 2" "1 \<le> unat k" "unat k \<le> spt" "(unat c * 2 + unat h) * spt + (unat k - 1) = unat ax"
    using ToCHS_run [OF assms] by blast
  have u: "unat (ucast c :: u8) = unat c" "unat (ucast h :: u8) = unat h" "unat (ucast k :: u8) = unat k"
    using b assms(3) by (simp_all add: unsigned_ucast_eq take_bit_nat_eq_self_iff)
  have a: "at_sector spt (unat ax) (ucast c) (ucast h) (ucast k)" using b by (simp add: at_sector_def lba_of_def u)
  show ?thesis
    by (rule exI [of _ "s\<lparr>sector_var := k, head_var := h, track_var := c\<rparr>"], rule exI [of _ "ucast c"],
        rule exI [of _ "ucast h"], rule exI [of _ "ucast k"])
      (use a in \<open>auto simp: t read_chs_def read_disk_def split: option.split\<close>)
qed

text \<open>Memory after the three reads, the last of which returned \<open>bs\<close>.\<close>

definition loaded_memory :: "(nat \<Rightarrow> u8 list) \<Rightarrow> fat \<Rightarrow> u8 list \<Rightarrow> pmem \<Rightarrow> pmem" where
  "loaded_memory disk v bs m = pwrite (pwrite (pwrite m 0x7E00 (disk 1)) 0x10000 (disk (root_sector v))) 0x10000 bs"

lemma loaded_memory_bytes:
  assumes "\<forall>n. length (disk n) = 512" "length bs = 127 * 512"
  shows "pread (loaded_memory disk v bs m) 0x10000 (127 * 512) = bs" "pread (loaded_memory disk v bs m) 0x7E00 512 = disk 1"
    "unat y < 0x7E00 \<or> 0x8000 \<le> unat y \<and> unat y < 0x10000 \<or> 0x10000 + 127 * 512 \<le> unat y \<Longrightarrow> loaded_memory disk v bs m y = m y"
proof -
  note k = assms(2) spec [OF assms(1)]
  have "pread (loaded_memory disk v bs m) 0x10000 (length bs) = bs"
    unfolding loaded_memory_def by (rule pread_pwrite_same) (simp add: k)
  then show "pread (loaded_memory disk v bs m) 0x10000 (127 * 512) = bs" by (simp add: k)
  have "pread (pwrite m 0x7E00 (disk 1)) 0x7E00 (length (disk 1)) = disk 1" by (rule pread_pwrite_same) (simp add: k)
  then show "pread (loaded_memory disk v bs m) 0x7E00 512 = disk 1" unfolding loaded_memory_def
    by (subst pread_pwrite_apart, simp add: k apart_def, subst pread_pwrite_apart) (simp_all add: k apart_def)
  assume "unat y < 0x7E00 \<or> 0x8000 \<le> unat y \<and> unat y < 0x10000 \<or> 0x10000 + 127 * 512 \<le> unat y"
  then have "127 * 512 \<le> unat (y - 0x10000)" "512 \<le> unat (y - 0x10000)" "512 \<le> unat (y - 0x7E00)"
    by (auto simp: unat_sub_if_size word_size word_le_nat_alt)
  then show "loaded_memory disk v bs m y = m y" by (simp add: loaded_memory_def pwrite_outside k)
qed

lemma load_kernel_run:
  assumes disk: "serves_sectors b dl (fat_track v) disk" and bpb: "has_bpb (mem s) v"
    and v: "2 \<le> fat_track v" "fat_track v \<le> 63" "fat_roots v * 32 + 511 < 0x10000"
    and dir: "le_word (take 2 (drop 0x3A (disk (root_sector v)))) = (c :: u16)" "2 \<le> unat c"
    and lba: "lba = data_sector v + (unat c - 2)" "lba < 512 * fat_track v" "lba < 0x10000"
  shows "\<exists>ch dh cl t. at_sector (fat_track v) lba ch dh cl
     \<and> (\<forall>m. machine.truncate (t\<lparr>mem := m\<rparr>) = (machine.truncate s)\<lparr>mem := m\<rparr>)
     \<and> boot_drive t = dl \<and> reg_ebx t = reg_ebx s \<and> mmap_entry_count t = mmap_entry_count s
     \<and> load_kernel b dl s = (case read_sectors b 127 ch cl dh dl of
          None \<Rightarrow> Inl Disk_Error | Some bs \<Rightarrow> Inr (t\<lparr>mem := loaded_memory disk v bs (mem s)\<rparr>))"
proof -
  have len: "length (disk n) = 512" for n using disk by (simp add: serves_sectors_def)
  let ?s0 = "s\<lparr>boot_drive := dl\<rparr>" and ?m1 = "pwrite (mem s) 0x7E00 (disk 1)"
  have "at_sector (fat_track v) 1 0 0 2" using v(1) by (simp add: at_sector_def lba_of_def)
  then have "read_sectors b 1 0 2 0 dl = Some (disk 1)" using disk by (simp add: serves_sectors_def)
  then have 1: "read_disk b 1 0 2 0 0x7E00 ?s0 = Inr (?s0\<lparr>mem := ?m1\<rparr>)" by (simp add: read_disk_def)
  have b1: "has_bpb ?m1 v" using bpb by (subst has_bpb_pwrite) (simp_all add: len)
  have ds: "root_sector v \<le> data_sector v" "data_sector v \<le> lba" using lba(1) by (simp_all add: data_sector_def)
  then have ro: "unat (of_nat (root_sector v) :: u16) = root_sector v" "data_sector v < 0x10000" using lba(3) by (simp_all add: unat_of_nat)
  obtain z where 2: "root_layout (?s0\<lparr>mem := ?m1\<rparr>) = Inr (?s0\<lparr>mem := ?m1, root_dir_size := z,
      root_dir_start := of_nat (root_sector v), data_sector_start := of_nat (data_sector v)\<rparr>)" (is "_ = Inr ?s2")
    using root_layout_run [of "?s0\<lparr>mem := ?m1\<rparr>" v] b1 v(3) ro(2) by auto
  have "unat (of_nat (root_sector v) :: u16) < 512 * fat_track v" using ro(1) ds lba(2) by simp
  with v b1 have "unat (read16 (mem ?s2) 0x7C18) = fat_track v"
    "0 < fat_track v" "fat_track v \<le> 63" "unat (of_nat (root_sector v) :: u16) < 512 * fat_track v"
    by (simp_all add: has_bpb_def)
  from read_at [OF this] obtain s3 ch3 dh3 cl3 where 3: "ToCHS (of_nat (root_sector v)) ?s2 = Inr s3"
    "\<exists>c h k. s3 = ?s2\<lparr>sector_var := k, head_var := h, track_var := c\<rparr>" "at_sector (fat_track v) (root_sector v) ch3 dh3 cl3"
    and s3: "\<forall>b al p. read_chs b al p s3 = (case read_sectors b al ch3 cl3 dh3 (boot_drive ?s2) of
       None \<Rightarrow> Inl Disk_Error | Some bs \<Rightarrow> Inr (s3\<lparr>mem := pwrite (mem ?s2) p bs\<rparr>))"
    unfolding ro(1) by blast
  let ?m3 = "pwrite ?m1 0x10000 (disk (root_sector v))"
  have "read_sectors b 1 ch3 cl3 dh3 dl = Some (disk (root_sector v))" using disk 3(3) by (simp add: serves_sectors_def)
  then have r3: "read_chs b 1 0x10000 s3 = Inr (s3\<lparr>mem := ?m3\<rparr>)" (is "_ = Inr ?s4") using s3 by simp
  have f3: "boot_drive s3 = dl" "data_sector_start s3 = of_nat (data_sector v)" using 3(2) by auto
  have b3: "has_bpb ?m3 v" using b1 by (subst has_bpb_pwrite) (simp_all add: len)
  have "read16 ?m3 (0x10000 + 0x3A) = c"
    using pread_pwrite_sub [of "0x3A" 2 "disk (root_sector v)" ?m1 "0x10000"] by (simp add: read16_def len dir(1) [symmetric])
  moreover have "unat (c - 2 + of_nat (data_sector v)) = lba"
  proof -
    have "unat (c - 2) = unat c - 2" using dir(2) by (simp add: unat_sub_if_size word_size)
    moreover have "unat (of_nat (data_sector v) :: u16) = data_sector v" using ro(2) by (simp add: unat_of_nat)
    ultimately show ?thesis using lba by (simp add: unat_plus_if_size word_size)
  qed
  ultimately have ax: "unat (read16 (mem ?s4) (0x10000 + 0x3A) - 2 + data_sector_start ?s4) = lba" by (simp add: f3)
  have "unat (read16 (mem ?s4) 0x7C18) = fat_track v"
    "0 < fat_track v" "fat_track v \<le> 63" "unat (read16 (mem ?s4) (0x10000 + 0x3A) - 2 + data_sector_start ?s4) < 512 * fat_track v"
    unfolding ax using b3 v lba(2) by (simp_all add: has_bpb_def)
  from read_at [OF this] obtain s5 ch dh cl where 5: "ToCHS (read16 (mem ?s4) (0x10000 + 0x3A) - 2 + data_sector_start ?s4) ?s4 = Inr s5"
    "\<exists>c h k. s5 = ?s4\<lparr>sector_var := k, head_var := h, track_var := c\<rparr>" "at_sector (fat_track v) lba ch dh cl"
    and s5: "\<forall>b al p. read_chs b al p s5 = (case read_sectors b al ch cl dh (boot_drive ?s4) of
       None \<Rightarrow> Inl Disk_Error | Some bs \<Rightarrow> Inr (s5\<lparr>mem := pwrite (mem ?s4) p bs\<rparr>))"
    unfolding ax by blast
  have "load_kernel b dl s = (case read_sectors b 127 ch cl dh dl of
      None \<Rightarrow> Inl Disk_Error | Some bs \<Rightarrow> Inr (s5\<lparr>mem := loaded_memory disk v bs (mem s)\<rparr>))"
    using 1 2 3(1) r3 5(1) s5 f3(1) by (simp add: load_kernel_def Let_def loaded_memory_def split: option.split)
  moreover have "boot_drive s5 = dl" "reg_ebx s5 = reg_ebx s" "mmap_entry_count s5 = mmap_entry_count s"
    "machine.truncate (s5\<lparr>mem := m\<rparr>) = (machine.truncate s)\<lparr>mem := m\<rparr>" for m
    using 5(2) 3(2) by (auto simp: machine.defs)
  ultimately show ?thesis using 5(3) by (intro exI [of _ ch] exI [of _ dh] exI [of _ cl] exI [of _ s5]) simp
qed

section \<open>Property\<close>

text \<open>C21: the boot sector looks for the kernel. On a FAT volume each of whose sectors the BIOS serves by cylinder,
  head and sector, it reads its second sector to \<open>0x7E00\<close> and the root directory, and then asks once for 127
  sectors from a sector counted from the cluster number in the second entry. If the BIOS refuses, which it may
  since no track is that long, the boot loader stops with its disk error; the bytes that the BIOS delivers are
  put at \<open>0x10000\<close>, no other byte changes, and no division fails. The sector is the first one of the cluster
  exactly if a cluster is one sector or the cluster is the first of all.\<close>

theorem boot_finds_kernel:
  fixes c :: u16
  assumes disk: "serves_sectors b dl (fat_track v) disk" and bpb: "has_bpb (mem s) v"
    and v: "2 \<le> fat_track v" "fat_track v \<le> 63" "fat_roots v * 32 + 511 < 0x10000"
    and dir: "le_word (take 2 (drop 0x3A (disk (root_sector v)))) = c" "2 \<le> unat c"
    and lba: "lba = data_sector v + (unat c - 2)" "lba < 512 * fat_track v" "lba < 0x10000"
  shows "(lba = cluster_sector v (unat c) \<longleftrightarrow> unat c = 2 \<or> fat_cluster v = 1) \<and>
    (\<exists>ch dh cl. at_sector (fat_track v) lba ch dh cl \<and>
      (case read_sectors b 127 ch cl dh dl of
         None \<Rightarrow> load_kernel b dl s = Inl Disk_Error
       | Some bs \<Rightarrow> \<exists>t. load_kernel b dl s = Inr t \<and> boot_drive t = dl \<and> reg_ebx t = reg_ebx s \<and>
           (length bs = 127 * 512 \<longrightarrow>
              pread (mem t) 0x10000 (127 * 512) = bs \<and> pread (mem t) 0x7E00 512 = disk 1 \<and>
              (\<forall>y. unat y < 0x7E00 \<or> 0x8000 \<le> unat y \<and> unat y < 0x10000 \<or> 0x10000 + 127 * 512 \<le> unat y \<longrightarrow> mem t y = mem s y))))"
proof
  show "lba = cluster_sector v (unat c) \<longleftrightarrow> unat c = 2 \<or> fat_cluster v = 1"
  proof -
    obtain d where d: "unat c = d + 2" using dir(2) by (metis add.commute le_Suc_ex)
    have "d = d * fat_cluster v \<longleftrightarrow> d = 0 \<or> fat_cluster v = 1" using mult_cancel1 [of d 1 "fat_cluster v"] by auto
    then show ?thesis by (simp add: lba(1) cluster_sector_def d)
  qed
  have l: "\<forall>n. length (disk n) = 512" using disk by (simp add: serves_sectors_def)
  obtain ch dh cl t where t: "at_sector (fat_track v) lba ch dh cl" "boot_drive t = dl" "reg_ebx t = reg_ebx s"
     "load_kernel b dl s = (case read_sectors b 127 ch cl dh dl of
          None \<Rightarrow> Inl Disk_Error | Some bs \<Rightarrow> Inr (t\<lparr>mem := loaded_memory disk v bs (mem s)\<rparr>))"
    using load_kernel_run [OF assms] by blast
  show "\<exists>ch dh cl. at_sector (fat_track v) lba ch dh cl \<and>
      (case read_sectors b 127 ch cl dh dl of
         None \<Rightarrow> load_kernel b dl s = Inl Disk_Error
       | Some bs \<Rightarrow> \<exists>t. load_kernel b dl s = Inr t \<and> boot_drive t = dl \<and> reg_ebx t = reg_ebx s \<and>
           (length bs = 127 * 512 \<longrightarrow>
              pread (mem t) 0x10000 (127 * 512) = bs \<and> pread (mem t) 0x7E00 512 = disk 1 \<and>
              (\<forall>y. unat y < 0x7E00 \<or> 0x8000 \<le> unat y \<and> unat y < 0x10000 \<or> 0x10000 + 127 * 512 \<le> unat y \<longrightarrow> mem t y = mem s y)))"
    using t loaded_memory_bytes [OF l] by (intro exI [of _ ch] exI [of _ dh] exI [of _ cl]) (auto split: option.splits)
qed

definition sample_disk :: "nat \<Rightarrow> u8 list" where
  "sample_disk n = (if n = 20 then replicate 0x3A 0 @ [3, 0] @ replicate 452 0 else replicate 512 (of_nat n))"

text \<open>A BIOS that reads on across the ends of tracks, and one that refuses to.\<close>

definition disk_bios :: "bool \<Rightarrow> (nat \<Rightarrow> u8 list) \<Rightarrow> bios" where
  "disk_bios across disk = \<lparr>e820 = (\<lambda>_. \<lparr>reply_carry = True, reply_eax = 0, reply_ebx = 0, reply_bytes = []\<rparr>),
     read_sectors = (\<lambda>al ch cl dh dl. let l = lba_of 18 ch dh cl in
       if across \<or> unat cl + unat al \<le> 19 then Some (concat (map disk [l..<l + unat al])) else None)\<rparr>"

definition floppy :: fat where
  "floppy = \<lparr>fat_reserved = 2, fat_count = 2, fat_roots = 224, fat_size = 9, fat_track = 18, fat_cluster = 1\<rparr>"

definition floppy_memory :: pmem where
  "floppy_memory = pwrite (\<lambda>_. 0) 0x7C0B [0, 2, 1, 2, 0, 2, 224, 0, 64, 11, 240, 9, 0, 18, 0]"

definition floppy_loader :: loader where
  "floppy_loader = machine.extend (boot_machine\<lparr>mem := floppy_memory\<rparr>) (loader.fields 0 0 0 0 0 0 0 0 0)"

lemma floppy_bpb: "has_bpb floppy_memory floppy"
proof -
  have "pread floppy_memory (0x7C0B + of_nat j) n = take n (drop j [0, 2, 1, 2, 0, 2, 224, 0, 64, 11, 240, 9, 0, 18, 0])" if "j + n \<le> 15" for j n
    unfolding floppy_memory_def by (rule pread_pwrite_sub) (use that in simp_all)
  from this [of 0 2] this [of 2 1] this [of 3 2] this [of 5 1] this [of 6 2] this [of 11 2] this [of 13 2]
  show ?thesis by (simp add: has_bpb_def read16_def floppy_def pread_def)
qed

lemma disk_bios_serves:
  "\<forall>n. length (disk n) = 512 \<Longrightarrow> serves_sectors (disk_bios across disk) dl (fat_track floppy) disk"
  by (auto simp: serves_sectors_def at_sector_def disk_bios_def floppy_def Let_def)

lemma sample_root: "le_word (take 2 (drop 0x3A (sample_disk (root_sector floppy)))) = (3 :: u16)"
  by (simp add: sample_disk_def root_sector_def floppy_def)

text \<open>Both can happen: the kernel is read, or it is not.\<close>

theorem boot_finds_kernel_witness:
  "(\<exists>t. load_kernel (disk_bios True sample_disk) 0 floppy_loader = Inr t \<and> pread (mem t) 0x7E00 512 = sample_disk 1)
   \<and> load_kernel (disk_bios False sample_disk) 0 floppy_loader = Inl Disk_Error"
proof -
  have s: "\<forall>n. length (sample_disk n) = 512" by (simp add: sample_disk_def)
  have b: "has_bpb (mem floppy_loader) floppy" using floppy_bpb by (simp add: floppy_loader_def machine.defs loader.defs)
  have run: "\<exists>ch dh cl. at_sector 18 35 ch dh cl \<and>
      (case read_sectors (disk_bios across sample_disk) 127 ch cl dh 0 of
         None \<Rightarrow> load_kernel (disk_bios across sample_disk) 0 floppy_loader = Inl Disk_Error
       | Some bs \<Rightarrow> \<exists>t. load_kernel (disk_bios across sample_disk) 0 floppy_loader = Inr t \<and>
           (length bs = 127 * 512 \<longrightarrow> pread (mem t) 0x7E00 512 = sample_disk 1))" for across
  proof -
    have "(35 = cluster_sector floppy (unat (3 :: u16)) \<longleftrightarrow> unat (3 :: u16) = 2 \<or> fat_cluster floppy = 1) \<and>
      (\<exists>ch dh cl. at_sector (fat_track floppy) 35 ch dh cl \<and>
      (case read_sectors (disk_bios across sample_disk) 127 ch cl dh 0 of
         None \<Rightarrow> load_kernel (disk_bios across sample_disk) 0 floppy_loader = Inl Disk_Error
       | Some bs \<Rightarrow> \<exists>t. load_kernel (disk_bios across sample_disk) 0 floppy_loader = Inr t \<and> boot_drive t = 0 \<and> reg_ebx t = reg_ebx floppy_loader \<and>
           (length bs = 127 * 512 \<longrightarrow>
              pread (mem t) 0x10000 (127 * 512) = bs \<and> pread (mem t) 0x7E00 512 = sample_disk 1 \<and>
              (\<forall>y. unat y < 0x7E00 \<or> 0x8000 \<le> unat y \<and> unat y < 0x10000 \<or> 0x10000 + 127 * 512 \<le> unat y \<longrightarrow> mem t y = mem floppy_loader y))))"
      by (rule boot_finds_kernel [OF disk_bios_serves [OF s] b _ _ _ sample_root])
        (simp_all add: floppy_def data_sector_def root_sector_def)
    then show ?thesis by (fastforce simp: floppy_def split: option.splits)
  qed
  have "length (concat (map sample_disk [l..<l + n])) = 512 * n" for l n
    by (induction n) (use s in simp_all)
  then show ?thesis using run [of True] run [of False]
    by (auto simp: disk_bios_def at_sector_def Let_def split: if_splits)
qed

end
