(* ===== verification/Boot_Loader.thy ===== *)
theory Boot_Loader
  imports Boot_Tables Boot_Disk Descriptors
begin

text \<open>
  The boot loader from the memory map to the kernel's first instruction: \<open>real_mode/get_mmap.asm\<close>,
  the two files \<open>elevate.asm\<close> and \<open>entry32\<close>, \<open>entry64\<close> of \<open>bootloader.asm\<close>. What it hands over is what the
  theorem about \<open>kernel_main\<close> starts from, so the two compose.
\<close>

section \<open>The memory map\<close>

text \<open>\<open>get_mmap\<close>: one entry of 24 bytes for each answer, until the BIOS reports an error or gives no
  continuation. \<open>EBX\<close> is the continuation, of which only the lower half is cleared at first. The result is
  \<open>None\<close> for a BIOS whose map does not end.\<close>

partial_function (option) mmap_loop :: "bios \<Rightarrow> u32 \<Rightarrow> u16 \<Rightarrow> u16 \<Rightarrow> pmem \<Rightarrow> (u16 \<times> pmem) option" where
  "mmap_loop b x di n m =
     (let r = e820 b x; m = pwrite m (0x21000 + ucast di) (reply_bytes r)
      in if reply_carry r then Some (n, m)
         else if reply_eax r \<noteq> 0x534D4150 then Some (n, m)
         else if reply_ebx r \<noteq> 0 then mmap_loop b (reply_ebx r) (di + 24) (n + 1) m
         else Some (n + 1, m))"

definition get_mmap :: "bios \<Rightarrow> loader \<Rightarrow> boot_stop + loader" where
  "get_mmap b s =
     (case mmap_loop b (reg_ebx s AND 0xFFFF0000) 0 (ucast (mmap_entry_count s)) (mem s) of
        None \<Rightarrow> Inl Map_Endless
      | Some (c, m) \<Rightarrow>
          Inr (s\<lparr>mem := m, mmap_entry_count := (mmap_entry_count s AND NOT 0xFFFF) OR ucast c\<rparr>))"

section \<open>Protected mode\<close>

text \<open>\<open>switch_protected_mode\<close> with the addresses of \<open>gdt\<close> and \<open>tss\<close>: the descriptor of the task state
  segment in the seventh and eighth entry, the offset of its port map, and the bit in \<open>CR0\<close>.\<close>

definition mov_word :: "u16 \<Rightarrow> u16 \<Rightarrow> pmem \<Rightarrow> pmem" where
  "mov_word si bx m = pwrite m (ucast si) (le_bytes 2 bx)"

definition mov_byte :: "u16 \<Rightarrow> u8 \<Rightarrow> pmem \<Rightarrow> pmem" where
  "mov_byte si bl m = m(ucast si := bl)"

definition tss_stores :: "u16 \<Rightarrow> u16 \<Rightarrow> pmem \<Rightarrow> pmem" where
  "tss_stores gdt tss m =
     (let si = gdt + 0x30; m = mov_word si 103 m;
          si = si + 2; m = mov_word si tss m;
          si = si + 2; m = mov_byte si 0 m;
          si = si + 1; m = mov_byte si 0x89 m;
          si = si + 1; m = mov_byte si 0 m;
          si = si + 1; m = mov_byte si 0x80 m;
          si = si + 1; m = mov_word si 0xFFFF m;
          si = si + 2; m = mov_word si 0xFFFF m;
          si = tss + 0x66
      in mov_word si 103 m)"

definition switch_protected_mode :: "u16 \<Rightarrow> u16 \<Rightarrow> 'a machine_scheme \<Rightarrow> 'a machine_scheme" where
  "switch_protected_mode gdt tss s = s\<lparr>if_flag := False, mem := tss_stores gdt tss (mem s), cr0 := cr0 s OR 1\<rparr>"

text \<open>The registers at the kernel's first instruction.\<close>

record entry_regs =
  entry_rip :: u64
  entry_rdi :: u64
  entry_rsi :: u64
  entry_rsp :: u64

definition entry64 :: "loader \<Rightarrow> entry_regs" where
  "entry64 s =
     \<lparr>entry_rip = 0xFFFFFFFF80000000 + 0x10000, entry_rdi = 0xFFFFFFFF80000000 + 0x21000, entry_rsi = mmap_entry_count s,
      entry_rsp = ((0xFFFFFFFF80000000 + 0x20000 + 0xFFF) AND - 16) - 8\<rparr>"

definition enter_kernel :: "bios \<Rightarrow> u16 \<Rightarrow> u16 \<Rightarrow> loader \<Rightarrow> boot_stop + (entry_regs \<times> loader)" where
  "enter_kernel b gdt tss s =
     bind_sum (get_mmap b s) (\<lambda>s.
     let s = switch_long_mode (init_pt (switch_protected_mode gdt tss s)) in Inr (entry64 s, s))"

definition start :: "bios \<Rightarrow> u16 \<Rightarrow> u16 \<Rightarrow> u8 \<Rightarrow> loader \<Rightarrow> boot_stop + (entry_regs \<times> loader)" where
  "start b gdt tss dl s = bind_sum (load_kernel b dl s) (enter_kernel b gdt tss)"

section \<open>The map in memory\<close>

text \<open>The entries a BIOS reports from a continuation on. The list ends with the answer that gives no
  continuation or before the one that reports an error.\<close>

primrec e820_list :: "bios \<Rightarrow> u32 \<Rightarrow> u8 list list \<Rightarrow> bool" where
  "e820_list b x [] \<longleftrightarrow> reply_carry (e820 b x) \<or> reply_eax (e820 b x) \<noteq> 0x534D4150"
| "e820_list b x (e # es) \<longleftrightarrow>
     \<not> reply_carry (e820 b x) \<and> reply_eax (e820 b x) = 0x534D4150 \<and> reply_bytes (e820 b x) = e \<and>
     (if reply_ebx (e820 b x) = 0 then es = [] else e820_list b (reply_ebx (e820 b x)) es)"

lemma unat_ucast16: "unat (ucast w :: u64) = unat w" for w :: u16
  by (simp add: unsigned_ucast_eq take_bit_nat_eq_self_iff order_less_trans [OF unsigned_less])

lemma map_slot: "unat di + k < 0x10000 \<Longrightarrow> unat (0x21000 + ucast (di :: u16) + of_nat k :: u64) = 0x21000 + unat di + k"
  by (subst unat_add_of_nat; subst unat_add_nowrap) (simp_all add: unat_ucast16)

lemma pwrite_slot_outside:
  assumes "unat di < 0x10000" "length bs \<le> 24" "unat y < 0x21000 + unat (di :: u16) \<or> 0x21000 + unat di + 24 \<le> unat y"
  shows "pwrite m (0x21000 + ucast di) bs y = m y"
proof (rule pwrite_outside)
  have "unat (0x21000 + ucast di :: u64) = 0x21000 + unat di" using map_slot [of di 0] assms(1) by simp
  then show "length bs \<le> unat (y - (0x21000 + ucast di))"
    using assms(2,3) assms(1) by (auto simp: unat_sub_if_size word_size word_le_nat_alt)
qed

lemma mmap_loop_run:
  assumes "e820_list b x es" "\<And>x. length (reply_bytes (e820 b x)) \<le> 24" "unat di + 24 * (length es + 1) < 0x10000"
  shows "\<exists>m'. mmap_loop b x di n m = Some (n + of_nat (length es), m')
     \<and> (\<forall>k<length es. pread m' (0x21000 + ucast di + of_nat (24 * k)) (length (es ! k)) = es ! k)
     \<and> (\<forall>y. unat y < 0x21000 + unat di \<or> 0x21000 + unat di + 24 * (length es + 1) \<le> unat y \<longrightarrow> m' y = m y)"
  using assms(1,3)
proof (induction es arbitrary: x di n m)
  case Nil
  then have "mmap_loop b x di n m = Some (n, pwrite m (0x21000 + ucast di) (reply_bytes (e820 b x)))"
    by (subst mmap_loop.simps) (auto simp: Let_def)
  then show ?case using pwrite_slot_outside [OF _ assms(2)] Nil by simp
next
  case (Cons e es)
  let ?r = "e820 b x" and ?m = "pwrite m (0x21000 + ucast di) e"
  have r: "\<not> reply_carry ?r" "reply_eax ?r = 0x534D4150" "reply_bytes ?r = e" and e: "length e \<le> 24"
    using Cons.prems(1) assms(2) [of x] by auto
  have d: "unat (di + 24) = unat di + 24" using Cons.prems(2) by (simp add: unat_plus_if_size word_size)
  have w: "pread ?m (0x21000 + ucast di) (length e) = e" by (rule pread_pwrite_same) (use e in simp)
  have o: "?m y = m y" if "unat y < 0x21000 + unat di \<or> 0x21000 + unat di + 24 \<le> unat y" for y
    by (rule pwrite_slot_outside) (use that e Cons.prems(2) in simp_all)
  show ?case
  proof (cases "reply_ebx ?r = 0")
    case True
    then have "mmap_loop b x di n m = Some (n + 1, ?m)" "es = []"
      using Cons.prems(1) r by (simp_all add: mmap_loop.simps [of b x])
    then show ?thesis using w o by simp
  next
    case False
    then have "e820_list b (reply_ebx ?r) es" using Cons.prems(1) by simp
    from Cons.IH [OF this, of "di + 24" "n + 1" ?m] Cons.prems(2) obtain m' where
      m: "mmap_loop b (reply_ebx ?r) (di + 24) (n + 1) ?m = Some (n + 1 + of_nat (length es), m')"
      and k: "\<forall>k<length es. pread m' (0x21000 + ucast (di + 24) + of_nat (24 * k)) (length (es ! k)) = es ! k"
      and u: "\<forall>y. unat y < 0x21000 + unat (di + 24) \<or> 0x21000 + unat (di + 24) + 24 * (length es + 1) \<le> unat y \<longrightarrow> m' y = ?m y"
      by (auto simp: d)
    have "mmap_loop b x di n m = Some (n + of_nat (length (e # es)), m')"
      using False r m by (simp add: mmap_loop.simps [of b x] add.assoc)
    moreover have "pread m' (0x21000 + ucast di + of_nat (24 * k)) (length ((e # es) ! k)) = (e # es) ! k" if "k < length (e # es)" for k
    proof (cases k)
      case 0
      have "pread m' (0x21000 + ucast di) (length e) = pread ?m (0x21000 + ucast di) (length e)"
      proof (rule pread_cong)
        fix i assume i: "i < length e"
        have "unat (0x21000 + ucast di + of_nat i :: u64) = 0x21000 + unat di + i"
          by (rule map_slot) (use i e Cons.prems(2) in simp)
        then show "m' (0x21000 + ucast di + of_nat i) = ?m (0x21000 + ucast di + of_nat i)" using u d i e by simp
      qed
      then show ?thesis using w 0 by simp
    next
      case (Suc j)
      have "ucast (di + 24) = (ucast di + 24 :: u64)"
        using d unsigned_less [of di, where 'a = nat] by (simp add: word_unat_eq_iff unat_ucast16 unat_plus_if_size word_size)
      then show ?thesis using k that Suc by (simp add: algebra_simps)
    qed
    moreover have "m' y = m y" if "unat y < 0x21000 + unat di \<or> 0x21000 + unat di + 24 * (length (e # es) + 1) \<le> unat y" for y
      using u o d that by auto
    ultimately show ?thesis by blast
  qed
qed

section \<open>The task state segment\<close>

text \<open>A system segment descriptor read from its sixteen bytes, the last four of which are reserved.\<close>

definition descriptor_base :: "u8 list \<Rightarrow> u64" where
  "descriptor_base d = le_word [d ! 2, d ! 3, d ! 4, d ! 7, d ! 8, d ! 9, d ! 10, d ! 11]"

definition descriptor_limit :: "u8 list \<Rightarrow> u32" where
  "descriptor_limit d = le_word [d ! 0, d ! 1, d ! 6 AND 0xF]"

lemma tss_stores_bytes:
  assumes "unat gdt + 0x40 \<le> 0x8000"
  shows "tss_stores gdt tss m =
    mov_word (tss + 0x66) 103
      (pwrite m (ucast (gdt + 0x30)) ([103, 0] @ le_bytes 2 tss @ [0, 0x89, 0, 0x80, 0xFF, 0xFF, 0xFF, 0xFF]))"
proof -
  have u: "ucast (gdt + 0x30 + of_nat k) = (ucast (gdt + 0x30) + of_nat k :: u64)" if "k < 16" for k
  proof -
    have "unat (gdt + 0x30) = unat gdt + 0x30" using assms by (simp add: unat_plus_if_size word_size)
    moreover have "unat (of_nat k :: u16) = k" using that by (simp add: unat_of_nat)
    ultimately have "unat (gdt + 0x30 + of_nat k) = unat (gdt + 0x30) + k" using assms that by (simp add: unat_plus_if_size word_size)
    moreover have "unat (ucast (gdt + 0x30) + of_nat k :: u64) = unat (gdt + 0x30) + k"
      using assms that unsigned_less [of "gdt + 0x30", where 'a = nat] by (subst unat_add_of_nat) (simp_all add: unat_ucast16)
    ultimately show ?thesis by (simp add: word_unat_eq_iff unat_ucast16)
  qed
  let ?p = "ucast (gdt + 0x30) :: u64"
  have v: "ucast (gdt + 0x32) = ?p + 2" "ucast (gdt + 0x34) = ?p + 4" "ucast (gdt + 0x35) = ?p + 5" "ucast (gdt + 0x36) = ?p + 6"
    "ucast (gdt + 0x37) = ?p + 7" "ucast (gdt + 0x38) = ?p + 8" "ucast (gdt + 0x3A) = ?p + 10"
    using u [of 2] u [of 4] u [of 5] u [of 6] u [of 7] u [of 8] u [of 10] by (simp_all add: ac_simps)
  have l: "length (le_bytes 2 tss) = 2" "le_bytes 2 (103 :: u16) = [103, 0]" "le_bytes 2 (0xFFFF :: u16) = [0xFF, 0xFF]"
    by (simp_all add: le_bytes_def upt_rec)
  have "tss_stores gdt tss m = mov_word (tss + 0x66) 103 (pwrite (pwrite (pwrite (pwrite (pwrite (pwrite (pwrite (pwrite m ?p [103, 0])
      (?p + 2) (le_bytes 2 tss)) (?p + 4) [0]) (?p + 5) [0x89]) (?p + 6) [0]) (?p + 7) [0x80]) (?p + 8) [0xFF, 0xFF]) (?p + 10) [0xFF, 0xFF])"
    unfolding tss_stores_def Let_def mov_byte_def pwrite_single [symmetric] mov_word_def add.assoc by (simp add: l v)
  also have "\<dots> = mov_word (tss + 0x66) 103
      (pwrite m ?p ([103, 0] @ le_bytes 2 tss @ [0] @ [0x89] @ [0] @ [0x80] @ [0xFF, 0xFF] @ [0xFF, 0xFF]))"
    by (subst pwrite_append; simp del: append.append_Cons append.append_Nil add: l add.assoc)+
  finally show ?thesis by simp
qed

lemma le_word_append:
  fixes w :: "'a::len word"
  assumes "LENGTH('a) = 8 * n"
  shows "le_word (le_bytes n w @ bs) = ucast w OR push_bit (8 * n) (le_word bs :: 'b::len word)"
proof (rule bit_word_eqI)
  fix k assume k: "k < LENGTH('b)"
  show "bit (le_word (le_bytes n w @ bs) :: 'b word) k = bit (ucast w OR push_bit (8 * n) (le_word bs) :: 'b word) k"
  proof (cases "k < 8 * n")
    case True
    then show ?thesis using k assms by (auto simp: bit_le_word nth_append le_bytes_def bit_simps less_mult_imp_div_less)
  next
    case False
    then obtain j where j: "k = 8 * n + j" using le_Suc_ex [of "8 * n" k] by auto
    have "\<not> bit w k" using False assms by (auto dest: bit_imp_le_length)
    then show ?thesis using k by (auto simp: bit_le_word nth_append bit_simps j)
  qed
qed

lemma tss_descriptor:
  fixes m :: pmem
  assumes "unat gdt + 0x40 \<le> unat tss" "unat tss + 0x68 \<le> 0x8000"
  defines "d \<equiv> pread (tss_stores gdt tss m) (ucast (gdt + 0x30)) 12"
  shows "descriptor_base d = KERNEL_BASE + ucast tss" "descriptor_limit d = 103" "d ! 5 = 0x89"
proof -
  let ?bs = "[103, 0] @ le_bytes 2 tss @ [0, 0x89, 0, 0x80, 0xFF, 0xFF, 0xFF, 0xFF]"
  let ?p = "ucast (gdt + 0x30) :: u64" and ?q = "ucast (tss + 0x66) :: u64"
  have u: "unat ?p = unat gdt + 0x30" "unat ?q = unat tss + 0x66"
    using assms(1,2) by (simp_all add: unat_ucast16 unat_plus_if_size word_size)
  have "d = pread (pwrite m ?p ?bs) ?p 12"
    unfolding d_def by (subst tss_stores_bytes) (use assms(1,2) u in \<open>simp_all add: mov_word_def pread_pwrite_apart apart_sym [OF apart_le]\<close>)
  also have "\<dots> = ?bs" using pread_pwrite_same [of ?bs m ?p] by (simp add: le_bytes_def)
  finally have d: "d = [103, 0, ucast tss, ucast (drop_bit 8 tss), 0, 0x89, 0, 0x80, 0xFF, 0xFF, 0xFF, 0xFF]"
    by (simp add: le_bytes_def upt_rec)
  show "d ! 5 = 0x89" by (simp add: d)
  show "descriptor_limit d = 103" by (simp add: d descriptor_limit_def)
  have "le_word (le_bytes 2 tss @ [0, 0x80, 0xFF, 0xFF, 0xFF, 0xFF]) = (KERNEL_BASE + ucast tss :: u64)"
  proof -
    have "(push_bit 31 0x1FFFFFFFF :: u64) AND ucast tss = 0"
    proof (rule bit_word_eqI)
      show "bit ((push_bit 31 0x1FFFFFFFF :: u64) AND ucast tss) k = bit 0 k" for k
        using bit_imp_le_length [of tss k] by (auto simp only: bit_and_iff bit_push_bit_iff bit_ucast_iff bit_0_eq) simp
    qed
    then have "(0xFFFFFFFF80000000 :: u64) AND ucast tss = 0" by simp
    then have "0xFFFFFFFF80000000 + ucast tss = (0xFFFFFFFF80000000 :: u64) OR ucast tss"
      using word_plus_and_or [of "0xFFFFFFFF80000000 :: u64" "ucast tss"] by (simp only: add_0_left)
    then show ?thesis by (simp add: le_word_append kconst or.commute)
  qed
  then show "descriptor_base d = KERNEL_BASE + ucast tss" by (simp add: d descriptor_base_def le_bytes_def upt_rec)
qed

lemma tss_stores_keeps:
  assumes "unat gdt + 0x40 \<le> unat tss" "unat tss + 0x68 \<le> 0x8000" "0x8000 \<le> unat y \<or> unat y < unat gdt + 0x30"
  shows "tss_stores gdt tss m y = m y"
proof -
  have u: "unat (ucast (gdt + 0x30) :: u64) = unat gdt + 0x30" "unat (ucast (tss + 0x66) :: u64) = unat tss + 0x66"
    using assms(1,2) by (simp_all add: unat_ucast16 unat_plus_if_size word_size)
  moreover have "n \<le> unat (y - p)" if "unat p + n \<le> 0x8000" "unat gdt + 0x30 \<le> unat p" for p n
    using that assms(3) by (intro outside_range) auto
  ultimately show ?thesis using assms(1,2) by (subst tss_stores_bytes) (simp_all add: mov_word_def pwrite_outside)
qed

section \<open>Handing over\<close>

text \<open>What the kernel finds: the registers, the map, the image as it was loaded, the tables.\<close>

definition map_bytes_at :: "pmem \<Rightarrow> u8 list list \<Rightarrow> bool" where
  "map_bytes_at m es \<longleftrightarrow> (\<forall>k<length es. pread m (0x21000 + of_nat (24 * k)) (length (es ! k)) = es ! k)"

lemma e820_list_length:
  "e820_list b x es \<Longrightarrow> \<forall>x. length (reply_bytes (e820 b x)) \<le> 24 \<Longrightarrow> e \<in> set es \<Longrightarrow> length e \<le> 24"
  by (induction es arbitrary: x) (auto split: if_splits)

lemma enter_kernel_run:
  assumes map: "e820_list b 0 es" "\<forall>x. length (reply_bytes (e820 b x)) \<le> 24" "length es < 2720"
    and init: "reg_ebx s AND 0xFFFF0000 = 0" "mmap_entry_count s = 0"
    and lay: "unat gdt + 0x40 \<le> unat tss" "unat tss + 0x68 \<le> 0x8000"
  shows "\<exists>m. enter_kernel b gdt tss s =
      Inr (\<lparr>entry_rip = 0xFFFFFFFF80010000, entry_rdi = 0xFFFFFFFF80021000, entry_rsi = of_nat (length es), entry_rsp = 0xFFFFFFFF80020FE8\<rparr>,
        s\<lparr>mem := m, mmap_entry_count := of_nat (length es), if_flag := False, cr0 := cr0 s OR 0x80000001, cr3 := 0x1000,
          cr4 := cr4 s OR 0x20, msr := (msr s)(0xC0000080 := msr s 0xC0000080 OR 0x100)\<rparr>)
    \<and> boot_tables m \<and> map_bytes_at m es
    \<and> (\<forall>y. 0x9000 \<le> unat y \<and> (unat y < 0x21000 \<or> 0x21000 + 24 * (length es + 1) \<le> unat y) \<longrightarrow> m y = mem s y)
    \<and> (\<forall>y. 0x7000 \<le> unat y \<and> unat y < unat gdt + 0x30 \<longrightarrow> m y = mem s y)"
proof -
  obtain m where l: "mmap_loop b 0 0 0 (mem s) = Some (of_nat (length es), m)"
    and k: "\<forall>k<length es. pread m (0x21000 + of_nat (24 * k)) (length (es ! k)) = es ! k"
    and o: "\<forall>y. unat y < 0x21000 \<or> 0x21000 + 24 * (length es + 1) \<le> unat y \<longrightarrow> m y = mem s y"
    using mmap_loop_run [OF map(1), of 0 0 "mem s"] map(2,3) by auto
  let ?m = "init_tables (tss_stores gdt tss m)"
  have c: "ucast (of_nat (length es) :: u16) = (of_nat (length es) :: u64)"
    using map(3) by (simp add: word_unat_eq_iff unat_ucast16 unat_of_nat)
  have kept: "?m y = m y" if "0x9000 \<le> unat y \<or> 0x7000 \<le> unat y \<and> unat y < unat gdt + 0x30" for y
    using that lay by (subst init_tables_keeps, force) (rule tss_stores_keeps [OF lay], force)
  have "pread ?m (0x21000 + of_nat (24 * j)) (length (es ! j)) = es ! j" if j: "j < length es" for j
  proof -
    have e: "length (es ! j) \<le> 24" using e820_list_length [OF map(1,2)] j by simp
    have "pread ?m (0x21000 + of_nat (24 * j)) (length (es ! j)) = pread m (0x21000 + of_nat (24 * j)) (length (es ! j))"
    proof (rule pread_cong)
      fix i assume i: "i < length (es ! j)"
      have "unat (0x21000 + of_nat (24 * j) + of_nat i :: u64) = 0x21000 + (24 * j + i)"
        using i e j map(3) unat_add_of_nat [of "0x21000" "24 * j + i"] by (simp add: add.assoc)
      then show "?m (0x21000 + of_nat (24 * j) + of_nat i) = m (0x21000 + of_nat (24 * j) + of_nat i)" by (intro kept) simp
    qed
    then show ?thesis using k j by simp
  qed
  moreover have "enter_kernel b gdt tss s =
      Inr (\<lparr>entry_rip = 0xFFFFFFFF80010000, entry_rdi = 0xFFFFFFFF80021000, entry_rsi = of_nat (length es), entry_rsp = 0xFFFFFFFF80020FE8\<rparr>,
        s\<lparr>mem := ?m, mmap_entry_count := of_nat (length es), if_flag := False, cr0 := cr0 s OR 0x80000001, cr3 := 0x1000,
          cr4 := cr4 s OR 0x20, msr := (msr s)(0xC0000080 := msr s 0xC0000080 OR 0x100)\<rparr>)"
    using l c init by (simp add: enter_kernel_def get_mmap_def switch_long_mode_def init_pt_def switch_protected_mode_def entry64_def or.assoc)
  moreover have "unat y < 0x21000" if "unat y < unat gdt + 0x30" for y :: u64 using that lay by simp
  ultimately show ?thesis using init_tables_tables kept o
    by (intro exI [of _ ?m]) (auto simp: map_bytes_at_def)
qed

lemma map_entry_fields:
  assumes "map_bytes_at m es" "k < length es" "20 \<le> length (es ! k)"
  shows "base_addr (mmap_entry m 0x21000 k) = le_word (take 8 (es ! k))"
    "len (mmap_entry m 0x21000 k) = le_word (take 8 (drop 8 (es ! k)))"
    "mtype (mmap_entry m 0x21000 k) = le_word (take 4 (drop 16 (es ! k)))"
proof -
  let ?p = "0x21000 + 24 * of_nat k :: u64"
  have e: "pread m ?p (length (es ! k)) = es ! k" using assms(1,2) by (simp add: map_bytes_at_def)
  have "pread m (?p + of_nat i) n = take n (drop i (es ! k))" if i: "i + n \<le> 20" for i n
  proof (rule nth_equalityI)
    fix j assume j: "j < length (pread m (?p + of_nat i) n)"
    have "m (?p + of_nat (i + j)) = pread m ?p (length (es ! k)) ! (i + j)" using i j assms(3) by simp
    then show "pread m (?p + of_nat i) n ! j = take n (drop i (es ! k)) ! j" using i j assms(3) by (simp add: e add.assoc)
  qed (use i assms(3) in simp)
  from this [of 0 8] this [of 8 8] this [of 16 4]
  show "base_addr (mmap_entry m 0x21000 k) = le_word (take 8 (es ! k))"
    "len (mmap_entry m 0x21000 k) = le_word (take 8 (drop 8 (es ! k)))"
    "mtype (mmap_entry m 0x21000 k) = le_word (take 4 (drop 16 (es ! k)))"
    by (simp_all add: mmap_entry_def pread64_def)
qed

text \<open>Conditions on the map alone under which the kernel finds its memory: they hold for every memory with
  the map's bytes.\<close>

definition good_map :: "u8 list list \<Rightarrow> bool" where
  "good_map es \<longleftrightarrow>
     (\<forall>m. map_bytes_at m es \<longrightarrow>
        map_ok m 0xFFFFFFFF80021000 (length es) \<and> 10 \<le> card (usable m 0x21000 (length es)) \<and>
        (\<exists>i\<in>usable m 0x21000 (length es). i < 0x40000))"

lemma truncate_simps [simp]:
  "mem (machine.truncate t) = mem t" "cr0 (machine.truncate t) = cr0 t" "cr3 (machine.truncate t) = cr3 t"
  "cr4 (machine.truncate t) = cr4 t" "msr (machine.truncate t) = msr t" "next_free (machine.truncate t) = next_free t"
  "if_flag (machine.truncate t) = if_flag t"
  by (simp_all add: machine.defs)

section \<open>Properties\<close>

text \<open>C11: the boot loader hands over what it promises. For every memory map of fewer than 2720 entries of
  20 to 24 bytes, in whichever of the two ways the BIOS ends it, and whatever memory held before, the kernel
  is entered at its load address with the address and the exact number of the entries, which it reads as the
  BIOS gave them; paging, long mode and physical address extension are on; the window of the kernel is mapped
  and stays so while its own tables are built; the page of the boot loader and that of the screen are mapped to
  themselves; the image is as it was loaded.\<close>

theorem boot_hands_over:
  assumes map: "e820_list b 0 es" "\<forall>x. length (reply_bytes (e820 b x)) \<le> 24" "\<forall>e\<in>set es. 20 \<le> length e" "length es < 2720"
    and init: "reg_ebx s AND 0xFFFF0000 = 0" "mmap_entry_count s = 0"
    and lay: "unat gdt + 0x40 \<le> unat tss" "unat tss + 0x68 \<le> 0x8000"
  shows "\<exists>r t. enter_kernel b gdt tss s = Inr (r, t)
     \<and> entry_rip r = KERNEL_BASE + 0x10000 \<and> entry_rdi r = KERNEL_BASE + 0x21000 \<and> unat (entry_rsi r) = length es
     \<and> entry_rsp r = KERNEL_BASE + 0x20FE8
     \<and> (\<forall>k<length es. base_addr (mmap_entry (mem t) 0x21000 k) = le_word (take 8 (es ! k))
          \<and> len (mmap_entry (mem t) 0x21000 k) = le_word (take 8 (drop 8 (es ! k)))
          \<and> mtype (mmap_entry (mem t) 0x21000 k) = le_word (take 4 (drop 16 (es ! k))))
     \<and> boot_map (machine.truncate t) (of_nat (table_base (length es))) 0x4000
     \<and> (\<forall>va. unat va div 4096 \<in> {7, 0xB8} \<longrightarrow> mmu_walk (mem t) (cr3 t) va = Some va)
     \<and> (\<forall>y. 0x9000 \<le> unat y \<and> unat y < 0x21000 \<longrightarrow> mem t y = mem s y)
     \<and> bit (cr0 t) 0 \<and> bit (cr0 t) 31 \<and> bit (cr4 t) 5 \<and> bit (msr t IA32_EFER) 8 \<and> \<not> if_flag t"
proof -
  obtain m where r: "enter_kernel b gdt tss s =
      Inr (\<lparr>entry_rip = 0xFFFFFFFF80010000, entry_rdi = 0xFFFFFFFF80021000, entry_rsi = of_nat (length es), entry_rsp = 0xFFFFFFFF80020FE8\<rparr>,
        s\<lparr>mem := m, mmap_entry_count := of_nat (length es), if_flag := False, cr0 := cr0 s OR 0x80000001, cr3 := 0x1000,
          cr4 := cr4 s OR 0x20, msr := (msr s)(0xC0000080 := msr s 0xC0000080 OR 0x100)\<rparr>)" (is "_ = Inr (?r, ?t)")
    and m: "boot_tables m" "map_bytes_at m es" "\<forall>y. 0x9000 \<le> unat y \<and> unat y < 0x21000 \<longrightarrow> m y = mem s y"
    using enter_kernel_run [OF map(1,2,4) init lay] by blast
  have tb: "0x5000 \<le> table_base (length es)" "table_base (length es) < 0x100000" using map(4) by (simp_all add: table_base_def)
  then have "boot_map (machine.truncate ?t) (of_nat (table_base (length es))) 0x4000"
    by (intro boot_tables_map) (simp_all add: m(1) unat_of_nat64)
  moreover have "bit (0x80000001 :: u64) 0" "bit (0x80000001 :: u64) 31" "bit (0x20 :: u64) 5" "bit (0x100 :: u64) 8"
    by code_simp+
  moreover have "unat (of_nat (length es) :: u64) = length es" using map(4) by (simp add: unat_of_nat64)
  ultimately show ?thesis using map(3) m
    by (intro exI [of _ ?r] exI [of _ ?t])
      (simp add: r kconst map_entry_fields boot_tables_identity bit_or_iff IA32_EFER_def)
qed

text \<open>The kernel, given what the boot loader hands over.\<close>

lemma enter_kernel_program:
  assumes map: "e820_list b 0 es" "\<forall>x. length (reply_bytes (e820 b x)) \<le> 24" "good_map es" "length es < 2720"
    and init: "reg_ebx s AND 0xFFFF0000 = 0" "mmap_entry_count s = 0"
    and lay: "unat gdt + 0x40 \<le> unat tss" "unat tss + 0x68 \<le> 0x8000"
    and image: "next_free s = POOL_START" "bit (cpuid_edx k) 25" "frame_place (entry_place k)"
      "0x9000 \<le> unat (user_program_addr k - KERNEL_BASE)" "unat (user_program_addr k - KERNEL_BASE) + 928 \<le> 0x20000"
      "pread (mem s) (user_program_addr k - KERNEL_BASE) 928 = user_program_elf"
  shows "\<exists>r t u. enter_kernel b gdt tss s = Inr (r, t)
     \<and> kernel_main k (entry_rdi r) (entry_rsi r) (machine.truncate t) = (Inl (PageFault (0x700000000000 - entry_place k)), u)
     \<and> (\<forall>i<192. umem (mem u) (cr3 u) (0x400000 + of_nat i) = Some (user_program_elf ! i))
     \<and> (\<forall>va. page_of va = 0x700000000 \<longrightarrow> umem (mem u) (cr3 u) va \<noteq> None)"
proof -
  obtain m where r: "enter_kernel b gdt tss s =
      Inr (\<lparr>entry_rip = 0xFFFFFFFF80010000, entry_rdi = 0xFFFFFFFF80021000, entry_rsi = of_nat (length es), entry_rsp = 0xFFFFFFFF80020FE8\<rparr>,
        s\<lparr>mem := m, mmap_entry_count := of_nat (length es), if_flag := False, cr0 := cr0 s OR 0x80000001, cr3 := 0x1000,
          cr4 := cr4 s OR 0x20, msr := (msr s)(0xC0000080 := msr s 0xC0000080 OR 0x100)\<rparr>)" (is "_ = Inr (?r, ?t)")
    and m: "boot_tables m" "map_bytes_at m es" "\<forall>y. 0x9000 \<le> unat y \<and> unat y < 0x21000 \<longrightarrow> m y = mem s y"
    using enter_kernel_run [OF map(1,2,4) init lay] by blast
  let ?p = "user_program_addr k - KERNEL_BASE"
  have n: "unat (of_nat (length es) :: u64) = length es" using map(4) by (simp add: unat_of_nat64)
  have tb: "0x5000 \<le> table_base (length es)" "table_base (length es) < 0x100000" using map(4) by (simp_all add: table_base_def)
  then have "boot_map (machine.truncate ?t) (of_nat (table_base (length es))) 0x4000"
    by (intro boot_tables_map) (simp_all add: m(1) unat_of_nat64)
  moreover have "pread m ?p 928 = pread (mem s) ?p 928"
  proof (rule pread_cong)
    fix i :: nat assume "i < 928"
    then show "m (?p + of_nat i) = mem s (?p + of_nat i)" using m(3) image(4,5) by (simp add: unat_add_of_nat)
  qed
  moreover have "map_ok m 0xFFFFFFFF80021000 (length es) \<and> 10 \<le> card (usable m 0x21000 (length es)) \<and>
      (\<exists>i\<in>usable m 0x21000 (length es). i < 0x40000)"
    using map(3) m(2) by (simp add: good_map_def)
  ultimately have ok: "boot_ok k 0xFFFFFFFF80021000 (of_nat (length es)) (machine.truncate ?t)"
    unfolding boot_ok_def n using image map(4) by (simp add: kconst)
  obtain C u where u: "kernel_main k 0xFFFFFFFF80021000 (of_nat (length es)) (machine.truncate ?t) = (Inl (after_switch (entry_place k) u), u)"
      "cr3 u = C" "program_shown user_program_elf (\<lambda>_. None) (umem (mem u) C)"
    using kernel_main_run [OF ok] by blast
  have "kernel_main k 0xFFFFFFFF80021000 (of_nat (length es)) (machine.truncate ?t) = (Inl (PageFault (0x700000000000 - entry_place k)), u)"
    using kernel_main_reload [OF ok image(3) u(1)] u(2,3) by simp
  then show ?thesis using r user_program_seen(1,2) [OF u(3)]
    by (intro exI [of _ ?r] exI [of _ ?t] exI [of _ u]) (simp add: u(2))
qed

definition sample_range :: "u8 list" where
  "sample_range = le_bytes 8 (0x100000 :: u64) @ le_bytes 8 (0x700000 :: u64) @ [1, 0, 0, 0, 1, 0, 0, 0]"

definition sample_e820 :: "u32 \<Rightarrow> e820_reply" where
  "sample_e820 x =
     (if x = 0 then \<lparr>reply_carry = False, reply_eax = 0x534D4150, reply_ebx = 1, reply_bytes = sample_range\<rparr>
      else \<lparr>reply_carry = True, reply_eax = 0, reply_ebx = 0, reply_bytes = []\<rparr>)"

definition sample_bios :: bios where
  "sample_bios = \<lparr>e820 = sample_e820, read_sectors = (\<lambda>_ _ _ _ _. None)\<rparr>"

definition sample_loader :: loader where
  "sample_loader = machine.extend loader_machine (loader.fields 0 0 0 0 0 0 0 0 0)"

lemma sample_list: "e820_list sample_bios 0 [sample_range]" "\<forall>x. length (reply_bytes (e820 sample_bios x)) \<le> 24" "length sample_range = 24"
  by (auto simp: sample_bios_def sample_e820_def sample_range_def)

lemma sample_loader_fields [simp]:
  "mem sample_loader = loader_mem" "next_free sample_loader = POOL_START" "reg_ebx sample_loader = 0" "mmap_entry_count sample_loader = 0"
  by (simp_all add: sample_loader_def loader_machine_def machine.defs loader.defs)

lemma sample_good: "good_map [sample_range]"
  unfolding good_map_def
proof (intro allI impI)
  fix m assume m: "map_bytes_at m [sample_range]"
  obtain a where e: "mmap_entry m 0x21000 0 = \<lparr>base_addr = 0x100000, len = 0x700000, mtype = 1, acpi_ext = a\<rparr>"
  proof
    show "mmap_entry m 0x21000 0 = \<lparr>base_addr = 0x100000, len = 0x700000, mtype = 1, acpi_ext = acpi_ext (mmap_entry m 0x21000 0)\<rparr>"
      using map_entry_fields [OF m, of 0] by (simp add: sample_list(3)) (simp add: sample_range_def le_word_le_bytes)
  qed
  note p = one_range_pages [OF e]
  have "\<exists>i\<in>{512..<2048 :: nat}. i < 0x40000" by (rule bexI [of _ 512]) simp_all
  then show "map_ok m 0xFFFFFFFF80021000 (length [sample_range]) \<and> 10 \<le> card (usable m 0x21000 (length [sample_range])) \<and>
      (\<exists>i\<in>usable m 0x21000 (length [sample_range]). i < 0x40000)"
    using p e by (simp add: map_ok_def in_win_def kconst)
qed

theorem boot_hands_over_witness:
  "\<exists>r t. enter_kernel sample_bios 0x7F00 0x7F50 sample_loader = Inr (r, t) \<and> unat (entry_rsi r) = 1
     \<and> base_addr (mmap_entry (mem t) 0x21000 0) = 0x100000 \<and> mmu_walk (mem t) (cr3 t) 0xB8000 = Some 0xB8000"
proof -
  obtain r t where r: "enter_kernel sample_bios 0x7F00 0x7F50 sample_loader = Inr (r, t)" "unat (entry_rsi r) = length [sample_range]"
      "\<forall>k<length [sample_range]. base_addr (mmap_entry (mem t) 0x21000 k) = le_word (take 8 ([sample_range] ! k))
          \<and> len (mmap_entry (mem t) 0x21000 k) = le_word (take 8 (drop 8 ([sample_range] ! k)))
          \<and> mtype (mmap_entry (mem t) 0x21000 k) = le_word (take 4 (drop 16 ([sample_range] ! k)))"
      "\<forall>va. unat va div 4096 \<in> {7, 0xB8} \<longrightarrow> mmu_walk (mem t) (cr3 t) va = Some va"
    using boot_hands_over [OF sample_list(1,2), of sample_loader "0x7F00" "0x7F50"] by (auto simp: sample_list(3))
  have "base_addr (mmap_entry (mem t) 0x21000 0) = le_word (take 8 sample_range)" using r(3) by simp
  then have "base_addr (mmap_entry (mem t) 0x21000 0) = 0x100000" by (simp add: sample_range_def le_word_le_bytes)
  then show ?thesis using r(1,2,4) by (intro exI [of _ r] exI [of _ t]) simp
qed

text \<open>C1: from the disk to the loaded program. On a FAT volume with the kernel's file where the boot sector
  looks for it, with a BIOS that delivers the 127 sectors it is asked for at once and the built-in program among
  them at its place, with a memory map the kernel can work with and a processor with SSE, the boot loader reads
  and enters the kernel, and the kernel, given the registers the boot loader sets, loads that program and maps its
  stack without a fault or a panic. The run ends, with no interrupt arriving, in the page fault of the reload that
  follows the switch of the stack.\<close>

theorem boot_to_program:
  fixes c :: u16
  assumes disk: "serves_sectors b dl (fat_track v) disk" "has_bpb (mem s) v"
      "2 \<le> fat_track v" "fat_track v \<le> 63" "fat_roots v * 32 + 511 < 0x10000"
      "le_word (take 2 (drop 0x3A (disk (root_sector v)))) = c" "2 \<le> unat c"
      "lba = data_sector v + (unat c - 2)" "lba < 512 * fat_track v" "lba < 0x10000"
    and delivered: "\<And>ch dh cl. at_sector (fat_track v) lba ch dh cl \<Longrightarrow> read_sectors b 127 ch cl dh dl = Some bs" "length bs = 127 * 512"
    and map: "e820_list b 0 es" "\<forall>x. length (reply_bytes (e820 b x)) \<le> 24" "good_map es" "length es < 2720"
    and init: "reg_ebx s AND 0xFFFF0000 = 0" "mmap_entry_count s = 0"
    and lay: "unat gdt + 0x40 \<le> unat tss" "unat tss + 0x68 \<le> 0x8000"
    and image: "next_free s = POOL_START" "bit (cpuid_edx k) 25" "frame_place (entry_place k)"
      "user_program_addr k = KERNEL_BASE + 0x10000 + of_nat q" "q + 928 \<le> 127 * 512"
      "take 928 (drop q bs) = user_program_elf"
  shows "\<exists>r t u. start b gdt tss dl s = Inr (r, t)
     \<and> kernel_main k (entry_rdi r) (entry_rsi r) (machine.truncate t) = (Inl (PageFault (0x700000000000 - entry_place k)), u)
     \<and> (\<forall>i<192. umem (mem u) (cr3 u) (0x400000 + of_nat i) = Some (user_program_elf ! i))
     \<and> (\<forall>va. page_of va = 0x700000000 \<longrightarrow> umem (mem u) (cr3 u) va \<noteq> None)"
proof -
  have l: "\<forall>n. length (disk n) = 512" using disk(1) by (simp add: serves_sectors_def)
  obtain ch dh cl x where x: "at_sector (fat_track v) lba ch dh cl" "\<forall>m. machine.truncate (x\<lparr>mem := m\<rparr>) = (machine.truncate s)\<lparr>mem := m\<rparr>"
     "reg_ebx x = reg_ebx s" "mmap_entry_count x = mmap_entry_count s"
     "load_kernel b dl s = (case read_sectors b 127 ch cl dh dl of
          None \<Rightarrow> Inl Disk_Error | Some bs \<Rightarrow> Inr (x\<lparr>mem := loaded_memory disk v bs (mem s)\<rparr>))"
    using load_kernel_run [OF disk] by blast
  let ?m = "loaded_memory disk v bs (mem s)"
  let ?t = "x\<lparr>mem := ?m\<rparr>"
  have t: "load_kernel b dl s = Inr ?t" using x(5) delivered(1) [OF x(1)] by simp
  have nf: "next_free ?t = POOL_START" using arg_cong [OF spec [OF x(2), of ?m], of next_free] image(1) by simp
  have p: "user_program_addr k - KERNEL_BASE = 0x10000 + of_nat q" by (simp add: image(4))
  have u: "unat (0x10000 + of_nat q :: u64) = 0x10000 + q" by (rule unat_add_of_nat [THEN trans]) (use image(5) in simp_all)
  have "pread ?m (0x10000 + of_nat q) 928 = take 928 (drop q (pread ?m 0x10000 (127 * 512)))"
    by (rule nth_equalityI) (use image(5) in \<open>simp_all add: add.assoc\<close>)
  then have "pread (mem ?t) (user_program_addr k - KERNEL_BASE) 928 = user_program_elf"
    by (simp add: p loaded_memory_bytes(1) [OF l delivered(2), simplified] image(6))
  moreover have "reg_ebx ?t AND 0xFFFF0000 = 0" "mmap_entry_count ?t = 0" using x(3,4) init by simp_all
  moreover have "0x9000 \<le> unat (user_program_addr k - KERNEL_BASE)" "unat (user_program_addr k - KERNEL_BASE) + 928 \<le> 0x20000"
    using u image(5) by (simp_all add: p)
  ultimately show ?thesis
    using enter_kernel_program [OF map _ _ lay nf image(2,3)] by (simp add: start_def t)
qed

text \<open>A floppy disk with the built-in program at the start of the kernel's file.\<close>

definition boot_disk :: "nat \<Rightarrow> u8 list" where
  "boot_disk n =
     (if n = 35 then take 512 user_program_elf
      else if n = 36 then drop 512 user_program_elf @ replicate 96 0 else sample_disk n)"

definition boot_bios :: bios where
  "boot_bios = (disk_bios True boot_disk)\<lparr>e820 := sample_e820\<rparr>"

definition boot_state :: loader where
  "boot_state = machine.extend (boot_machine\<lparr>mem := floppy_memory, next_free := POOL_START\<rparr>) (loader.fields 0 0 0 0 0 0 0 0 0)"

lemma boot_state_fields [simp]:
  "mem boot_state = floppy_memory" "next_free boot_state = POOL_START" "reg_ebx boot_state = 0" "mmap_entry_count boot_state = 0"
  by (simp_all add: boot_state_def machine.defs loader.defs)

definition boot_sectors :: "u8 list" where
  "boot_sectors = concat (map boot_disk [35..<35 + 127])"

lemma boot_disk_length: "length (boot_disk n) = 512"
  by (simp add: boot_disk_def sample_disk_def user_program_header(1))

lemma boot_sectors_program: "take 928 (drop 0 boot_sectors) = user_program_elf" "length boot_sectors = 127 * 512"
proof -
  have "[35..<162] = 35 # 36 # [37..<162 :: nat]" by (simp add: upt_conv_Cons)
  then show "take 928 (drop 0 boot_sectors) = user_program_elf" by (simp add: boot_sectors_def boot_disk_def user_program_header(1))
  have "length (concat (map boot_disk [l..<l + n])) = 512 * n" for l n
    by (induction n) (simp_all add: boot_disk_length)
  from this [of 35 127] show "length boot_sectors = 127 * 512" unfolding boot_sectors_def by simp
qed

theorem boot_to_program_witness:
  "\<exists>r t u. start boot_bios 0x7F00 0x7F50 0 boot_state = Inr (r, t)
     \<and> kernel_main (sample_image\<lparr>user_program_addr := 0xFFFFFFFF80010000\<rparr>) (entry_rdi r) (entry_rsi r) (machine.truncate t) =
         (Inl (PageFault 0x6FFFFFFFFFC8), u)
     \<and> (\<forall>i<192. umem (mem u) (cr3 u) (0x400000 + of_nat i) = Some (user_program_elf ! i))"
proof -
  let ?k = "sample_image\<lparr>user_program_addr := 0xFFFFFFFF80010000\<rparr>"
  have "\<exists>r t u. start boot_bios 0x7F00 0x7F50 0 boot_state = Inr (r, t)
     \<and> kernel_main ?k (entry_rdi r) (entry_rsi r) (machine.truncate t) = (Inl (PageFault (0x700000000000 - entry_place ?k)), u)
     \<and> (\<forall>i<192. umem (mem u) (cr3 u) (0x400000 + of_nat i) = Some (user_program_elf ! i))
     \<and> (\<forall>va. page_of va = 0x700000000 \<longrightarrow> umem (mem u) (cr3 u) va \<noteq> None)"
  proof (rule boot_to_program [where v = floppy and c = 3 and disk = boot_disk and es = "[sample_range]" and q = 0 and bs = boot_sectors and lba = 35])
    show "serves_sectors boot_bios 0 (fat_track floppy) boot_disk"
      using disk_bios_serves [of boot_disk True 0] by (simp add: boot_disk_length serves_sectors_def boot_bios_def)
    show "has_bpb (mem boot_state) floppy" using floppy_bpb by simp
    show "le_word (take 2 (drop 0x3A (boot_disk (root_sector floppy)))) = (3 :: u16)"
      by (simp add: boot_disk_def sample_disk_def root_sector_def floppy_def)
    show "e820_list boot_bios 0 [sample_range]" "\<forall>x. length (reply_bytes (e820 boot_bios x)) \<le> 24"
      by (auto simp: boot_bios_def sample_e820_def sample_range_def)
    show "read_sectors boot_bios 127 ch cl dh 0 = Some boot_sectors" if "at_sector (fat_track floppy) 35 ch dh cl" for ch dh cl
      using that by (simp add: boot_bios_def disk_bios_def at_sector_def floppy_def boot_sectors_def Let_def)
    have "bit (0x2000000 :: u32) 25" by code_simp
    then show "bit (cpuid_edx ?k) 25" by (simp add: sample_image_def)
  qed (simp_all add: boot_sectors_program [simplified] sample_good floppy_def data_sector_def root_sector_def kconst sample_image_def frame_place_def)
  then show ?thesis by (simp add: sample_image_def) blast
qed

end
