(* ===== verification/Boot_Interrupts.thy ===== *)
theory Boot_Interrupts
  imports Interrupt_Cycle Boot_Loader
begin

text \<open>
  From the boot loader to the first interrupts: the descriptors of \<open>bootloader.asm\<close> are still in the page of the
  boot loader when the kernel is entered, so that from \<open>idt_init\<close> on interrupts can be delivered until the kernel
  switches to its own page tables.
\<close>

section \<open>The descriptors that are handed over\<close>










section \<open>Property\<close>






end
