(* ===== verification/Spec2Isabelle.thy ===== *)
theory Spec2Isabelle
  imports Vmm_Unmap KHeap_Realloc Elf32 Elf_Machines Elf_Mips Interrupt_Reset Boot_Interrupts
begin

text \<open>
  A verification development for terraOS: the kernel, the C code and the assembly under
  \<open>src/terra-kernel/kernel\<close>, and the boot loader, the assembly under \<open>src/terra-kernel/bootloader\<close>.

  \<^bold>\<open>The program.\<close> A small kernel for x86-64. The boot loader maps the first two mebibytes of physical
  memory at \<open>KERNEL_BASE\<close> and jumps to \<open>kernel_main\<close> (\<open>kernel.c\<close>), which builds page tables of its
  own (\<open>paging_init\<close>) from pages of a bootstrap pool (\<open>alloc_page\<close> in \<open>utils.c\<close>), sets up the bitmap of
  physical frames (\<open>pmm.c\<close>), the kernel heap (\<open>kheap.c\<close>), the interrupt descriptor table and the
  interrupt controllers (\<open>idt/idt.c\<close>, \<open>idt/isr.c\<close>), the SSE unit and the system call registers, and at
  last loads a user program from an ELF file (\<open>elf_parser/elf_parser.c\<close>, \<open>headers/elf.h\<close>) through the
  virtual memory manager (\<open>vmm.c\<close>) and is about to enter user mode. The parts share the globals of
  \<open>headers/utils.h\<close>: the page pool, the top page table, the frame bitmap and the bounds of the heap.

  \<^bold>\<open>The state.\<close> \<open>Machine\<close> has one record \<open>machine\<close> for the whole of it: physical memory as bytes, the
  registers the kernel writes (\<open>CR0\<close>, \<open>CR3\<close>, \<open>CR4\<close>, the model-specific registers, the descriptor
  table register, the interrupt flag), the traces of port accesses and of \<open>invlpg\<close>, and the C
  globals. A C function is a state transformer \<open>'a kern\<close> that ends with a value or a fault: a page
  fault, a general protection fault, a panic (the machine halts), undefined behaviour of C, the
  jump to user mode, or the shutdown of a processor that cannot deliver an exception. Every load and store of the model is translated by the four-level page walk
  (\<open>mmu_walk\<close>) in the state's own memory and at the state's own \<open>CR3\<close>. Page tables the code edits are
  the tables its next access uses, and pointers keep their C values, virtual addresses. Integers
  have their C widths; where a C \<open>int\<close> counts, running past its range is the fault \<open>Undefined\<close>.

  \<^bold>\<open>Theories and sources.\<close>
  \<^item> \<open>Prelude\<close>: C integer types, little-endian words, block reads and writes, address ranges.
  \<^item> \<open>Machine\<close>: the state, the fault monad, the page walk; the types of \<open>headers/utils.h\<close> and
    \<open>headers/idt.h\<close>.
  \<^item> \<open>Window\<close>: the kernel window. \<open>window F s\<close> says that the tables in the frames \<open>F\<close> map the first 511
    pages at \<open>KERNEL_BASE\<close>, as those of the boot loader and those of the kernel do, and \<open>kwin F s\<close> that
    besides the variable \<open>pml4t\<close> points to them, as from \<open>paging_init\<close> on; accesses inside the window are plain accesses to physical memory, and
    writes off the tables keep the window. \<open>Boot_State\<close>: a concrete state of this kind, on which
    the witnesses are evaluated.
  \<^item> \<open>Utils\<close>: \<open>utils.c\<close> and the locale \<open>fresh_allocator\<close>, the contract of an allocator of pages, with
    what any client may conclude from it; interpreted on the bootstrap pool.
  \<^item> \<open>Pmm\<close>, \<open>Pmm_Init\<close>: \<open>pmm.c\<close>. The locale \<open>frame_allocator\<close> extends the contract by release; the
    interpretation discharges it for the bitmap. \<open>pmm_init\<close> leaves exactly the usable frames free.
  \<^item> \<open>Vmm\<close>, \<open>Vmm_Map\<close>, \<open>Vmm_Unmap\<close>: \<open>vmm.c\<close>. The tables are edited through the temporary page; the
    invariant \<open>vm_inv\<close> keeps the window, the bitmap and the temporary entry apart. \<open>map_page\<close> is
    related to the walk of the hardware: it adds one mapping, takes exactly the missing tables,
    keeps all other mappings, or panics when frames run out. \<open>get_physical_address\<close> is equal to
    the walk, \<open>unmap_page\<close> removes a mapping and may leave a stale directory entry.
  \<^item> \<open>KHeap\<close>, \<open>KHeap_Alloc\<close>, \<open>KHeap_Realloc\<close>: \<open>kheap.c\<close>. The chunks in memory represent a list of
    chunks (\<open>heap_ok\<close>); the operations refine first fit, merging and resizing on that list, and
    on the map \<open>heap_blocks\<close> from pointers to contents. The locale \<open>block_heap\<close> states this contract
    and proves that no sequence of requests disturbs a block in use; interpreted on the heap.
  \<^item> \<open>Idt\<close>: \<open>idt/idt.c\<close>, \<open>idt/isr.c\<close>, with the two 8259 interrupt controllers as machines that read the
    port writes. Gates recombine to the entry points, lines get their vectors, interrupts end.
  \<^item> \<open>Descriptors\<close>: the descriptor table of \<open>bootloader.asm\<close> and the loading of a segment register from
    the table that the register names, read through the page tables.
  \<^item> \<open>Interrupt_Stubs\<close>: \<open>idt/isr_stubs.asm\<close> and \<open>syscall/syscallstub.asm\<close> as instruction lists, run on a
    processor (\<open>cpu\<close>) whose stack is in the machine's memory, together with the delivery of an interrupt
    (\<open>deliver\<close>): the gate is found through the register that \<open>lidt\<close> loads, its code segment through
    the descriptor table, and a fault on the way is delivered in turn (\<open>deliver_event\<close>), at last as a double
    fault and a shutdown. The words on the stack are a list (\<open>on_stack\<close>), so that pushes and pops are
    consing and uncovering; the locale \<open>returning_function\<close> is the contract of a C function the stub
    calls, interpreted on \<open>irq_handler\<close>.
  \<^item> \<open>Interrupt_Cycle\<close>: lines, controllers, gates, stubs and handlers together, as a step relation
    (\<open>serve\<close>) whose reachable states the interrupted code cannot tell from the first, from \<open>idt_init\<close>
    until \<open>paging_init\<close>. \<open>Interrupt_Reset\<close>: from \<open>paging_init\<close> on the descriptor table is not mapped, no
    interrupt or exception can be delivered, and the first one resets the machine.
    \<open>Boot_Interrupts\<close>: the boot loader leaves the descriptors as \<open>Interrupt_Cycle\<close> needs them.
  \<^item> \<open>Elf_Format\<close>, \<open>Elf64\<close>, \<open>Elf32\<close>, \<open>Elf_Machines\<close>, \<open>Elf_Mips\<close>: \<open>headers/elf.h\<close>: tables of names and
    values, macros, and each structure as a record that is read from bytes; the locales \<open>binary_format\<close>
    and \<open>exact_format\<close> state that the fields cover the structure, with an inverse of the reading that is
    no code of the kernel. \<open>Elf_Machines\<close> has the
    values of each processor: one pass over its relocation table (\<open>ascending_table\<close>) shows that the
    types are distinct and fit the relocation entry; the other values lie in the reserved ranges.
  \<^item> \<open>Elf_Parser\<close>: \<open>elf_parser/elf_parser.c\<close>, the checks, the loading of segments, the entry to
    user mode. Its \<open>asm\<close> moves the frame pointer to the user's stack behind the compiler's back, and
    the build is without optimisation, so the local variable \<open>entry\<close> is then loaded from below that
    stack (\<open>enter_user\<close>). Its distance from the frame pointer is a parameter (\<open>entry_place\<close>), up to 64
    kilobytes in the theorems.
  \<^item> \<open>Kernel\<close>, \<open>Kernel_Paging\<close>: \<open>kernel.c\<close>, with the boot sequence \<open>kernel_main\<close> and the proof that
    \<open>paging_init\<close> maps the two mebibytes at \<open>KERNEL_BASE\<close> and nothing else.
  \<^item> \<open>User_Space\<close>, \<open>User_Memory\<close>: the lower half of an address space as a tree of tables (\<open>uspace\<close>,
    with the level of each frame), what \<open>pmm_alloc\<close> and \<open>map_page\<close> do to it, and the memory a
    program sees through it (\<open>umem\<close>): mapping a page updates one page of it, and \<open>memcpy\<close> to user
    addresses updates the bytes named and no others.
  \<^item> \<open>Elf_Load\<close>: the loops of \<open>load_elf\<close> on such a space, segment by segment; a program whose
    segments have pages of their own (\<open>program_ok\<close>) is seen as its file says (\<open>program_shown\<close>).
  \<^item> \<open>User_Start\<close>: the address space of the first program (\<open>user_space_init\<close>) and its loading.
  \<^item> \<open>Kernel_Boot\<close>: the composition. From a state the boot loader can leave (\<open>boot_ok\<close>), every step of
    \<open>kernel_main\<close> establishes what the later ones need, until the built-in program is loaded; the jump to
    it fails in the page fault of the reload of \<open>entry\<close>.

  \<^item> \<open>Boot_Disk\<close>, \<open>Boot_Tables\<close>, \<open>Boot_Loader\<close>: the boot loader, \<open>bootloader/bootloader.asm\<close> and
    \<open>boot_funcs\<close>. The boot sector looks for the kernel's file on a FAT volume and reads it by cylinder, head
    and sector (\<open>ToCHS\<close>); \<open>get_mmap\<close> collects the BIOS's memory map; \<open>init_pt\<close> builds tables that map the
    kernel window and two pages to themselves (\<open>boot_tables\<close>), whatever memory held. What it hands over
    implies \<open>boot_ok\<close>, so the theorems compose from the disk to the loaded user program. The BIOS is a
    parameter (\<open>bios\<close>): its disk service is assumed to read a single sector by cylinder, head and sector
    (\<open>serves_sectors\<close>), its map service to store at most 24 bytes an entry. Its answer to the one request
    for 127 sectors, which no track holds, is not assumed: where it refuses, the boot loader stops with its
    disk error, and the theorem about the whole boot says what follows if the sectors are delivered.

  \<^bold>\<open>Loops.\<close> Loops with a counter are primitive recursive or have a measure. The loops of the heap
  follow pointers in memory and need not end in an arbitrary memory, and the boot loader's loop over the
  memory map ends only when the BIOS says so: they are partial functions into \<open>option\<close>, and the
  theorems about \<open>kalloc\<close>, \<open>kfree\<close> and \<open>krealloc\<close> say that they do end, with which result, in every
  state with \<open>heap_ok\<close>; those about the boot loader say it for every map that is a list. No fuel is used.

  \<^bold>\<open>Hypotheses.\<close> The theorems start from the invariants above. That they hold together at boot is
  the theorem about \<open>kernel_main\<close>, whose hypothesis \<open>boot_ok\<close> speaks of the boot loader and the machine
  only: its mapping does not rest on the pages the kernel is about to use, the memory map leaves
  ten frames above the kernel, one of them in the first gibibyte (where the new top table can be
  mapped), and the bitmap is small enough for the heap to end below the screen. The addresses of the
  entry points and of the embedded program are parameters (\<open>isr_symbols\<close>, \<open>kernel_image\<close>), since
  the linker chooses them.

  \<^bold>\<open>Not modelled.\<close> Of the boot loader the stacks, the segment registers but for the descriptors they use,
  and the message of a disk error; that the linker puts the kernel's entry first in its file; the linker
  scripts and build rules, and the source \<open>test.c\<close> of the user program (its ELF file is embedded in
  \<open>kernel.c\<close> and is modelled). The theorems about \<open>kernel_main\<close> are about runs in which no interrupt
  arrives. Interrupts from ring 3 end the run: the kernel loads no task state segment to take them. A stack
  pointer that is not canonical raises a general protection fault where the processor has a stack fault. The
  local variables of C functions are not in memory, but for the place from which \<open>entry\<close> is reloaded. The
  fetch of instructions is not translated. The TLB is not modelled beyond the trace of \<open>invlpg\<close>:
  each access walks the tables. In ring 0 with \<open>CR0.WP\<close> clear only the present bits decide, so the
  permission bits are kept in memory but are not checked.
\<close>

end
